(* ===== verification/Prelude.thy ===== *)
theory Prelude
  imports Main "HOL-Library.Word" "HOL-Library.State_Monad" "HOL-Library.Signed_Division"
begin

text \<open>
  Shared vocabulary of the development: the machine integer types of the sources, the
  power-of-two rounding idiom \<open>(n + (a - 1)) & ~(a - 1)\<close>, little-endian byte
  strings as \<open>memcpy\<close> of an integer produces them on the supported hosts, and the
  generic facts on words and lists that the component theories use.
  \<open>ana_simps\<close> collects equations that are safe as rewrite rules in every component;
  \<open>emit_simps\<close> collects what one encoder call appends to the code buffer;
  \<open>decode_simps\<close> collects what the instruction decoder makes of those bytes.
\<close>

unbundle bit_operations_syntax

named_theorems ana_simps
named_theorems emit_simps
named_theorems decode_simps

section \<open>Integer types\<close>

type_synonym u8 = "8 word"
type_synonym u16 = "16 word"
type_synonym u32 = "32 word"
type_synonym i32 = "32 word"
type_synonym u64 = "64 word"
type_synonym i64 = "64 word"
type_synonym bytes = "8 word list"

section \<open>Rounding to a multiple\<close>

definition align_up :: "nat \<Rightarrow> nat \<Rightarrow> nat" where
  "align_up a n = (n + (a - 1)) div a * a"

lemma align_up_ge: "0 < a \<Longrightarrow> n \<le> align_up a n"
proof -
  assume a: "0 < a"
  have "n + (a - 1) = (n + (a - 1)) div a * a + (n + (a - 1)) mod a"
    by simp
  moreover have "(n + (a - 1)) mod a < a"
    using a by (rule mod_less_divisor)
  ultimately show ?thesis
    unfolding align_up_def by linarith
qed

lemma align_up_less: "0 < a \<Longrightarrow> align_up a n < n + a"
proof -
  assume a: "0 < a"
  have "(n + (a - 1)) div a * a \<le> n + (a - 1)"
    by simp
  with a show ?thesis
    unfolding align_up_def by linarith
qed

lemma align_up_dvd [simp]: "a dvd align_up a n"
  by (simp add: align_up_def)

lemma align_up_mono: "m \<le> n \<Longrightarrow> align_up a m \<le> align_up a n"
  by (simp add: align_up_def div_le_mono)

lemma align_up_id: "0 < a \<Longrightarrow> a dvd n \<Longrightarrow> align_up a n = n"
proof (elim dvdE)
  fix k
  assume a: "0 < a" and n: "n = a * k"
  have "(a * k + (a - 1)) div a = k + (a - 1) div a"
    using a by (simp only: div_mult_self4)
  then have "(a * k + (a - 1)) div a = k"
    using a by simp
  then show ?thesis
    by (simp add: align_up_def n mult.commute)
qed

lemma align_up_0 [simp]: "0 < a \<Longrightarrow> align_up a 0 = 0"
  by (simp add: align_up_def)

text \<open>The masking idiom of the sources computes \<open>align_up\<close> unless the addition wraps.\<close>

lemma and_not_mask_eq: "(w::'a::len word) AND NOT (mask n) = push_bit n (drop_bit n w)"
  by (rule bit_eqI) (auto simp: bit_simps)

lemma unat_and_not_mask: "unat ((w::'a::len word) AND NOT (mask n)) = unat w div 2 ^ n * 2 ^ n"
proof -
  have "unat (push_bit n (drop_bit n w)) = push_bit n (drop_bit n (unat w))"
    by (rule bit_eqI) (auto simp: bit_simps dest: bit_imp_le_length)
  then show ?thesis
    by (simp add: and_not_mask_eq push_bit_eq_mult drop_bit_eq_div)
qed

lemma unat_mask: "n \<le> LENGTH('a) \<Longrightarrow> unat (mask n :: 'a::len word) = 2 ^ n - 1"
  unfolding mask_eq_exp_minus_1 [symmetric]
  by (rule bit_eqI) (auto simp: bit_simps)

lemma unat_align_word:
  assumes "n \<le> LENGTH('a)" "unat (w::'a::len word) + (2 ^ n - 1) < 2 ^ LENGTH('a)"
  shows "unat ((w + mask n) AND NOT (mask n)) = align_up (2 ^ n) (unat w)"
  using assms by (simp add: unat_and_not_mask align_up_def unat_plus_if' unat_mask)

lemma unat_align4:
  fixes w :: u32
  assumes "unat w + 3 < 2 ^ 32"
  shows "unat ((w + 3) AND NOT 3) = align_up 4 (unat w)"
  using unat_align_word [of 2 w] assms by (simp add: mask_eq_exp_minus_1)

lemma unat_align8:
  fixes w :: u32
  assumes "unat w + 7 < 2 ^ 32"
  shows "unat ((w + 7) AND NOT 7) = align_up 8 (unat w)"
  using unat_align_word [of 3 w] assms by (simp add: mask_eq_exp_minus_1)

lemma unat_align16:
  fixes w :: u32
  assumes "unat w + 15 < 2 ^ 32"
  shows "unat ((w + 15) AND NOT 15) = align_up 16 (unat w)"
  using unat_align_word [of 4 w] assms by (simp add: mask_eq_exp_minus_1)

section \<open>Little-endian byte strings\<close>

text \<open>\<open>nbytes k w\<close> is the memory image of the low \<open>k\<close> bytes of \<open>w\<close>.\<close>

fun nbytes :: "nat \<Rightarrow> 'a::len word \<Rightarrow> bytes" where
  "nbytes 0 w = []"
| "nbytes (Suc k) w = ucast w # nbytes k (drop_bit 8 w)"

definition le32 :: "u32 \<Rightarrow> bytes" where
  "le32 w = nbytes 4 w"

definition le64 :: "u64 \<Rightarrow> bytes" where
  "le64 w = nbytes 8 w"

text \<open>Reading \<open>k\<close> bytes back.\<close>

fun of_nbytes :: "nat \<Rightarrow> bytes \<Rightarrow> 'a::len word" where
  "of_nbytes (Suc k) (b # bs) = ucast b OR push_bit 8 (of_nbytes k bs)"
| "of_nbytes _ _ = 0"

lemma length_nbytes [simp]: "length (nbytes k w) = k"
  by (induction k arbitrary: w) auto

lemma length_le32 [simp]: "length (le32 w) = 4"
  by (simp add: le32_def)

lemma length_le64 [simp]: "length (le64 w) = 8"
  by (simp add: le64_def)

lemma take_bit_split8:
  "take_bit (8 + n) (w :: 'a::len word) = take_bit 8 w OR push_bit 8 (take_bit n (drop_bit 8 w))"
  by (rule bit_eqI) (auto simp: bit_simps add.commute)

lemma of_nbytes_nbytes:
  "of_nbytes k (nbytes k (w :: 'a::len word) @ rest) = take_bit (8 * k) w"
proof (induction k arbitrary: w)
  case 0
  show ?case by simp
next
  case (Suc k)
  have "ucast (ucast w :: u8) = (take_bit 8 w :: 'a word)"
    by (simp add: unsigned_ucast_eq)
  then show ?case
    using Suc.IH [of "drop_bit 8 w"] take_bit_split8 [of "8 * k" w]
    by simp
qed

lemma of_nbytes_le32 [simp]: "of_nbytes 4 (le32 w @ rest) = (w :: u32)"
  using of_nbytes_nbytes [of 4 w rest] by (simp add: le32_def take_bit_word_eq_self)

lemma of_nbytes_le64 [simp]: "of_nbytes 8 (le64 w @ rest) = (w :: u64)"
  using of_nbytes_nbytes [of 8 w rest] by (simp add: le64_def take_bit_word_eq_self)

section \<open>Relations kept by stateful code\<close>

text \<open>
  Stateful components are computations in the state monad. What every operation of a component
  guarantees between the state before and the state after is a reflexive and transitive
  relation \<open>R\<close>; sequencing, branching and returning keep it. The components extend this
  interface with their own primitives.
\<close>

locale state_rel =
  fixes R :: "'s \<Rightarrow> 's \<Rightarrow> bool"
  assumes R_refl: "R s s"
    and R_trans: "R s t \<Longrightarrow> R t u \<Longrightarrow> R s u"
begin

definition keeps :: "('s, 'a) state \<Rightarrow> bool" where
  "keeps m \<longleftrightarrow> (\<forall>s. R s (snd (run_state m s)))"

lemma keepsD: "keeps m \<Longrightarrow> R s (snd (run_state m s))"
  by (simp add: keeps_def)

lemma keepsI: "(\<And>s. R s (snd (run_state m s))) \<Longrightarrow> keeps m"
  by (simp add: keeps_def)

lemma keeps_bind: "keeps m \<Longrightarrow> (\<And>x. keeps (f x)) \<Longrightarrow> keeps (m \<bind> f)"
  unfolding keeps_def by (auto split: prod.splits) (metis R_trans snd_conv)

lemma keeps_ret: "keeps (State_Monad.return x)"
  by (simp add: keeps_def R_refl)

lemma keeps_if: "(b \<Longrightarrow> keeps m) \<Longrightarrow> (\<not> b \<Longrightarrow> keeps n) \<Longrightarrow> keeps (if b then m else n)"
  by simp

lemma keeps_option: "keeps n \<Longrightarrow> (\<And>x. keeps (f x)) \<Longrightarrow> keeps (case v of None \<Rightarrow> n | Some x \<Rightarrow> f x)"
  by (cases v) simp_all

lemma R_run: "R s t \<Longrightarrow> keeps m \<Longrightarrow> R s (snd (run_state m t))"
  using R_trans keepsD by blast

lemmas keeps_monad = keeps_bind keeps_ret keeps_if keeps_option

end

end
