(* ===== verification/Encoder.thy ===== *)
theory Encoder
  imports Prelude
begin

text \<open>
  The x86-64 encoder (\<open>src/src/backend/ana_encoder.h\<close>, \<open>ana_encoder.cpp\<close>).
  The state is the record \<open>AnaEncoder\<close>: the emitted bytes (\<open>cursor_\<close> is their number),
  whether a buffer is mapped and its capacity, the label and relocation tables, and the latched
  failure flag. \<open>size_t\<close> values are naturals. \<open>raw_mmap\<close> is not modelled:
  \<open>e_mmap k n\<close> says whether the \<open>k\<close>-th request, for \<open>n\<close> bytes, succeeds.
  A method is a computation in the state monad. \<open>emit_modrm_disp\<close> is the address form
  that the source spells out in every memory instruction.
\<close>

section \<open>State\<close>

datatype X86Reg = RAX | RCX | RDX | RBX | RSP | RBP | RSI | RDI
  | R8 | R9 | R10 | R11 | R12 | R13 | R14 | R15 | NO_REG

fun reg_num :: "X86Reg \<Rightarrow> u8" where
  "reg_num RAX = 0" | "reg_num RCX = 1" | "reg_num RDX = 2" | "reg_num RBX = 3"
| "reg_num RSP = 4" | "reg_num RBP = 5" | "reg_num RSI = 6" | "reg_num RDI = 7"
| "reg_num R8 = 8" | "reg_num R9 = 9" | "reg_num R10 = 10" | "reg_num R11 = 11"
| "reg_num R12 = 12" | "reg_num R13 = 13" | "reg_num R14 = 14" | "reg_num R15 = 15"
| "reg_num NO_REG = 0xFF"

record EncoderLabel =
  loffset :: i32
  bound :: bool

record LabelReloc =
  label_id :: u32
  patch_offset :: nat
  is_jcc_rel32 :: bool

record AnaEncoder =
  failed :: bool
  buf :: bytes
  has_buf :: bool
  capacity :: nat
  labels :: "EncoderLabel list"
  relocs :: "LabelReloc list"
  e_mmap :: "nat \<Rightarrow> nat \<Rightarrow> bool"
  e_calls :: nat

type_synonym 'a emit = "(AnaEncoder, 'a) state"

abbreviation skip_emit :: "unit emit" where
  "skip_emit \<equiv> State_Monad.return ()"

abbreviation exec :: "'a emit \<Rightarrow> AnaEncoder \<Rightarrow> AnaEncoder" where
  "exec m e \<equiv> snd (run_state m e)"

definition kMaxLabels :: nat where "kMaxLabels = 512"
definition kMaxRelocs :: nat where "kMaxRelocs = 1024"
definition kInvalidLabel :: u32 where "kInvalidLabel = 0xFFFFFFFF"

section \<open>The buffer\<close>

definition reset :: "unit emit" where
  "reset = State (\<lambda>e. ((), e\<lparr>failed := False, buf := [], labels := [], relocs := []\<rparr>))"

definition ensure_capacity :: "nat \<Rightarrow> bool emit" where
  "ensure_capacity additional = State (\<lambda>e.
     if length (buf e) + additional \<le> capacity e then (True, e)
     else
       (let new_cap = (if capacity e = 0 then 4096
                       else (capacity e * 2 + additional + 4095) div 4096 * 4096);
            e' = e\<lparr>e_calls := e_calls e + 1\<rparr> in
        if \<not> e_mmap e (e_calls e) new_cap then (False, e'\<lparr>failed := True\<rparr>)
        else (True, e'\<lparr>has_buf := True, capacity := new_cap\<rparr>)))"

text \<open>\<open>if (!ensure_capacity(n)) return;\<close> followed by the copy and the cursor update.\<close>

definition put_bytes :: "bytes \<Rightarrow> unit emit" where
  "put_bytes bs = do {
     ok \<leftarrow> ensure_capacity (length bs);
     if ok then State (\<lambda>e. ((), e\<lparr>buf := buf e @ bs\<rparr>)) else skip_emit
   }"

definition emit8 :: "u8 \<Rightarrow> unit emit" where
  "emit8 b = put_bytes [b]"

definition emit32 :: "u32 \<Rightarrow> unit emit" where
  "emit32 w = put_bytes (le32 w)"

definition emit64 :: "u64 \<Rightarrow> unit emit" where
  "emit64 w = put_bytes (le64 w)"

definition emit_bytes :: "bytes \<Rightarrow> unit emit" where
  "emit_bytes bs = (if bs = [] then skip_emit else put_bytes bs)"

definition new_encoder :: "(nat \<Rightarrow> nat \<Rightarrow> bool) \<Rightarrow> AnaEncoder" where
  "new_encoder mm = exec (do { reset; ensure_capacity 4096 })
     \<lparr>failed = False, buf = [], has_buf = False, capacity = 0, labels = [], relocs = [],
      e_mmap = mm, e_calls = 0\<rparr>"

section \<open>Labels\<close>

definition new_label :: "u32 emit" where
  "new_label = State (\<lambda>e.
     if length (labels e) < kMaxLabels
     then (of_nat (length (labels e)), e\<lparr>labels := labels e @ [\<lparr>loffset = - 1, bound = False\<rparr>]\<rparr>)
     else (kInvalidLabel, e\<lparr>failed := True\<rparr>))"

definition bind_label :: "u32 \<Rightarrow> unit emit" where
  "bind_label l = State (\<lambda>e.
     if unat l < length (labels e)
     then ((), e\<lparr>labels := (labels e)[unat l := \<lparr>loffset = of_nat (length (buf e)), bound = True\<rparr>]\<rparr>)
     else ((), e\<lparr>failed := True\<rparr>))"

definition add_reloc :: "u32 \<Rightarrow> bool \<Rightarrow> unit emit" where
  "add_reloc l jcc = State (\<lambda>e.
     if length (relocs e) \<ge> kMaxRelocs then ((), e\<lparr>failed := True\<rparr>)
     else ((), e\<lparr>relocs := relocs e @ [\<lparr>label_id = l, patch_offset = length (buf e), is_jcc_rel32 = jcc\<rparr>]\<rparr>))"

section \<open>Prefixes and address forms\<close>

definition rex_byte :: "bool \<Rightarrow> u8 \<Rightarrow> u8 \<Rightarrow> u8 \<Rightarrow> u8" where
  "rex_byte w reg_idx index_idx base_idx =
     0x40 OR push_bit 3 (if w then 1 else 0) OR push_bit 2 (if reg_idx \<ge> 8 then 1 else 0)
       OR push_bit 1 (if index_idx \<ge> 8 then 1 else 0) OR (if base_idx \<ge> 8 then 1 else 0)"

definition emit_rex :: "bool \<Rightarrow> u8 \<Rightarrow> u8 \<Rightarrow> u8 \<Rightarrow> unit emit" where
  "emit_rex w reg_idx index_idx base_idx =
     (if w \<or> reg_idx \<ge> 8 \<or> index_idx \<ge> 8 \<or> base_idx \<ge> 8
      then emit8 (rex_byte w reg_idx index_idx base_idx) else skip_emit)"

definition modrm_byte :: "u8 \<Rightarrow> u8 \<Rightarrow> u8 \<Rightarrow> u8" where
  "modrm_byte md reg rm = push_bit 6 (md AND 3) OR push_bit 3 (reg AND 7) OR (rm AND 7)"

definition emit_modrm :: "u8 \<Rightarrow> u8 \<Rightarrow> u8 \<Rightarrow> unit emit" where
  "emit_modrm md reg rm = emit8 (modrm_byte md reg rm)"

definition fits8 :: "i32 \<Rightarrow> bool" where
  "fits8 d \<longleftrightarrow> - 128 \<le> sint d \<and> sint d \<le> 127"

definition emit_modrm_disp :: "u8 \<Rightarrow> u8 \<Rightarrow> i32 \<Rightarrow> unit emit" where
  "emit_modrm_disp reg b disp =
     (if disp = 0 \<and> b AND 7 \<noteq> 5 then do {
        emit_modrm 0 reg b;
        (if b AND 7 = 4 then emit8 0x24 else skip_emit)
      } else if fits8 disp then do {
        emit_modrm 1 reg b;
        (if b AND 7 = 4 then emit8 0x24 else skip_emit);
        emit8 (ucast disp)
      } else do {
        emit_modrm 2 reg b;
        (if b AND 7 = 4 then emit8 0x24 else skip_emit);
        emit32 disp
      })"

definition emit_vex3 :: "u8 \<Rightarrow> u8 \<Rightarrow> bool \<Rightarrow> u8 \<Rightarrow> bool \<Rightarrow> u8 \<Rightarrow> u8 \<Rightarrow> u8 \<Rightarrow> unit emit" where
  "emit_vex3 m_mmmm pp w vvvv l r x b = do {
     emit8 0xC4;
     emit8 (push_bit 7 (NOT r AND 1) OR push_bit 6 (NOT x AND 1) OR push_bit 5 (NOT b AND 1)
            OR (m_mmmm AND 0x1F));
     emit8 (push_bit 7 (if w then 1 else 0) OR push_bit 3 (NOT vvvv AND 0x0F)
            OR push_bit 2 (if l then 1 else 0) OR (pp AND 0x03))
   }"

definition emit_evex :: "u8 \<Rightarrow> u8 \<Rightarrow> bool \<Rightarrow> u8 \<Rightarrow> u8 \<Rightarrow> u8 \<Rightarrow> u8 \<Rightarrow> u8 \<Rightarrow> u8 \<Rightarrow> unit emit" where
  "emit_evex mm pp w vvvv lll r x b aaa = do {
     emit8 0x62;
     emit8 (push_bit 7 (NOT r AND 1) OR push_bit 6 (NOT x AND 1) OR push_bit 5 (NOT b AND 1)
            OR push_bit 4 1 OR (mm AND 0x03));
     emit8 (push_bit 7 (if w then 1 else 0) OR push_bit 3 (NOT vvvv AND 0x0F) OR 0x04
            OR (pp AND 0x03));
     emit8 (push_bit 5 (lll AND 0x03) OR push_bit 3 1 OR (aaa AND 0x07))
   }"

section \<open>Moves and integer arithmetic\<close>

definition mov_reg_reg :: "X86Reg \<Rightarrow> X86Reg \<Rightarrow> unit emit" where
  "mov_reg_reg dst src =
     (if dst = src then skip_emit
      else do {
        emit_rex True (reg_num src) 0 (reg_num dst);
        emit8 0x89;
        emit_modrm 3 (reg_num src) (reg_num dst)
      })"

definition mov_reg_imm64 :: "X86Reg \<Rightarrow> u64 \<Rightarrow> unit emit" where
  "mov_reg_imm64 dst imm = do {
     emit_rex True 0 0 (reg_num dst);
     emit8 (0xB8 + (reg_num dst AND 7));
     emit64 imm
   }"

definition mov_reg_imm32 :: "X86Reg \<Rightarrow> i32 \<Rightarrow> unit emit" where
  "mov_reg_imm32 dst imm = do {
     emit_rex True 0 0 (reg_num dst);
     emit8 0xC7;
     emit_modrm 3 0 (reg_num dst);
     emit32 imm
   }"

definition mov_reg_mem :: "X86Reg \<Rightarrow> X86Reg \<Rightarrow> i32 \<Rightarrow> unit emit" where
  "mov_reg_mem dst base disp = do {
     emit_rex True (reg_num dst) 0 (reg_num base);
     emit8 0x8B;
     emit_modrm_disp (reg_num dst) (reg_num base) disp
   }"

definition mov_mem_reg :: "X86Reg \<Rightarrow> i32 \<Rightarrow> X86Reg \<Rightarrow> unit emit" where
  "mov_mem_reg base disp src = do {
     emit_rex True (reg_num src) 0 (reg_num base);
     emit8 0x89;
     emit_modrm_disp (reg_num src) (reg_num base) disp
   }"

definition add_reg_reg :: "X86Reg \<Rightarrow> X86Reg \<Rightarrow> unit emit" where
  "add_reg_reg dst src = do {
     emit_rex True (reg_num src) 0 (reg_num dst);
     emit8 0x01;
     emit_modrm 3 (reg_num src) (reg_num dst)
   }"

definition add_reg_imm32 :: "X86Reg \<Rightarrow> i32 \<Rightarrow> unit emit" where
  "add_reg_imm32 dst imm = do {
     emit_rex True 0 0 (reg_num dst);
     (if fits8 imm then do {
        emit8 0x83;
        emit_modrm 3 0 (reg_num dst);
        emit8 (ucast imm)
      } else do {
        emit8 0x81;
        emit_modrm 3 0 (reg_num dst);
        emit32 imm
      })
   }"

definition add_mem_reg :: "X86Reg \<Rightarrow> i32 \<Rightarrow> X86Reg \<Rightarrow> unit emit" where
  "add_mem_reg base disp src = do {
     emit_rex True (reg_num src) 0 (reg_num base);
     emit8 0x01;
     emit_modrm_disp (reg_num src) (reg_num base) disp
   }"

definition sub_reg_reg :: "X86Reg \<Rightarrow> X86Reg \<Rightarrow> unit emit" where
  "sub_reg_reg dst src = do {
     emit_rex True (reg_num src) 0 (reg_num dst);
     emit8 0x29;
     emit_modrm 3 (reg_num src) (reg_num dst)
   }"

definition sub_reg_imm32 :: "X86Reg \<Rightarrow> i32 \<Rightarrow> unit emit" where
  "sub_reg_imm32 dst imm = do {
     emit_rex True 0 0 (reg_num dst);
     (if fits8 imm then do {
        emit8 0x83;
        emit_modrm 3 5 (reg_num dst);
        emit8 (ucast imm)
      } else do {
        emit8 0x81;
        emit_modrm 3 5 (reg_num dst);
        emit32 imm
      })
   }"

definition imul_reg_reg :: "X86Reg \<Rightarrow> X86Reg \<Rightarrow> unit emit" where
  "imul_reg_reg dst src = do {
     emit_rex True (reg_num dst) 0 (reg_num src);
     emit8 0x0F;
     emit8 0xAF;
     emit_modrm 3 (reg_num dst) (reg_num src)
   }"

definition imul_reg_imm32 :: "X86Reg \<Rightarrow> X86Reg \<Rightarrow> i32 \<Rightarrow> unit emit" where
  "imul_reg_imm32 dst src imm = do {
     emit_rex True (reg_num dst) 0 (reg_num src);
     (if fits8 imm then do {
        emit8 0x6B;
        emit_modrm 3 (reg_num dst) (reg_num src);
        emit8 (ucast imm)
      } else do {
        emit8 0x69;
        emit_modrm 3 (reg_num dst) (reg_num src);
        emit32 imm
      })
   }"

definition and_reg_reg :: "X86Reg \<Rightarrow> X86Reg \<Rightarrow> unit emit" where
  "and_reg_reg dst src = do {
     emit_rex True (reg_num src) 0 (reg_num dst);
     emit8 0x21;
     emit_modrm 3 (reg_num src) (reg_num dst)
   }"

definition and_reg_imm32 :: "X86Reg \<Rightarrow> i32 \<Rightarrow> unit emit" where
  "and_reg_imm32 dst imm = do {
     emit_rex True 0 0 (reg_num dst);
     (if fits8 imm then do {
        emit8 0x83;
        emit_modrm 3 4 (reg_num dst);
        emit8 (ucast imm)
      } else do {
        emit8 0x81;
        emit_modrm 3 4 (reg_num dst);
        emit32 imm
      })
   }"

definition or_reg_reg :: "X86Reg \<Rightarrow> X86Reg \<Rightarrow> unit emit" where
  "or_reg_reg dst src = do {
     emit_rex True (reg_num src) 0 (reg_num dst);
     emit8 0x09;
     emit_modrm 3 (reg_num src) (reg_num dst)
   }"

definition or_reg_imm32 :: "X86Reg \<Rightarrow> i32 \<Rightarrow> unit emit" where
  "or_reg_imm32 dst imm = do {
     emit_rex True 0 0 (reg_num dst);
     (if fits8 imm then do {
        emit8 0x83;
        emit_modrm 3 1 (reg_num dst);
        emit8 (ucast imm)
      } else do {
        emit8 0x81;
        emit_modrm 3 1 (reg_num dst);
        emit32 imm
      })
   }"

definition xor_reg_reg :: "X86Reg \<Rightarrow> X86Reg \<Rightarrow> unit emit" where
  "xor_reg_reg dst src = do {
     emit_rex True (reg_num src) 0 (reg_num dst);
     emit8 0x31;
     emit_modrm 3 (reg_num src) (reg_num dst)
   }"

definition xor_reg_imm32 :: "X86Reg \<Rightarrow> i32 \<Rightarrow> unit emit" where
  "xor_reg_imm32 dst imm = do {
     emit_rex True 0 0 (reg_num dst);
     (if fits8 imm then do {
        emit8 0x83;
        emit_modrm 3 6 (reg_num dst);
        emit8 (ucast imm)
      } else do {
        emit8 0x81;
        emit_modrm 3 6 (reg_num dst);
        emit32 imm
      })
   }"

definition shl_reg_cl :: "X86Reg \<Rightarrow> unit emit" where
  "shl_reg_cl dst = do {
     emit_rex True 0 0 (reg_num dst);
     emit8 0xD3;
     emit_modrm 3 4 (reg_num dst)
   }"

definition shl_reg_imm8 :: "X86Reg \<Rightarrow> u8 \<Rightarrow> unit emit" where
  "shl_reg_imm8 dst imm = do {
     emit_rex True 0 0 (reg_num dst);
     (if imm = 1 then do {
        emit8 0xD1;
        emit_modrm 3 4 (reg_num dst)
      } else do {
        emit8 0xC1;
        emit_modrm 3 4 (reg_num dst);
        emit8 imm
      })
   }"

definition sar_reg_cl :: "X86Reg \<Rightarrow> unit emit" where
  "sar_reg_cl dst = do {
     emit_rex True 0 0 (reg_num dst);
     emit8 0xD3;
     emit_modrm 3 7 (reg_num dst)
   }"

definition sar_reg_imm8 :: "X86Reg \<Rightarrow> u8 \<Rightarrow> unit emit" where
  "sar_reg_imm8 dst imm = do {
     emit_rex True 0 0 (reg_num dst);
     (if imm = 1 then do {
        emit8 0xD1;
        emit_modrm 3 7 (reg_num dst)
      } else do {
        emit8 0xC1;
        emit_modrm 3 7 (reg_num dst);
        emit8 imm
      })
   }"

definition shr_reg_cl :: "X86Reg \<Rightarrow> unit emit" where
  "shr_reg_cl dst = do {
     emit_rex True 0 0 (reg_num dst);
     emit8 0xD3;
     emit_modrm 3 5 (reg_num dst)
   }"

definition shr_reg_imm8 :: "X86Reg \<Rightarrow> u8 \<Rightarrow> unit emit" where
  "shr_reg_imm8 dst imm = do {
     emit_rex True 0 0 (reg_num dst);
     (if imm = 1 then do {
        emit8 0xD1;
        emit_modrm 3 5 (reg_num dst)
      } else do {
        emit8 0xC1;
        emit_modrm 3 5 (reg_num dst);
        emit8 imm
      })
   }"

definition bts_reg_reg :: "X86Reg \<Rightarrow> X86Reg \<Rightarrow> unit emit" where
  "bts_reg_reg dst src = do {
     emit_rex True (reg_num src) 0 (reg_num dst);
     emit8 0x0F;
     emit8 0xAB;
     emit_modrm 3 (reg_num src) (reg_num dst)
   }"

definition bts_reg_imm8 :: "X86Reg \<Rightarrow> u8 \<Rightarrow> unit emit" where
  "bts_reg_imm8 dst imm = do {
     emit_rex True 0 0 (reg_num dst);
     emit8 0x0F;
     emit8 0xBA;
     emit_modrm 3 5 (reg_num dst);
     emit8 imm
   }"

definition btr_reg_reg :: "X86Reg \<Rightarrow> X86Reg \<Rightarrow> unit emit" where
  "btr_reg_reg dst src = do {
     emit_rex True (reg_num src) 0 (reg_num dst);
     emit8 0x0F;
     emit8 0xB3;
     emit_modrm 3 (reg_num src) (reg_num dst)
   }"

definition btr_reg_imm8 :: "X86Reg \<Rightarrow> u8 \<Rightarrow> unit emit" where
  "btr_reg_imm8 dst imm = do {
     emit_rex True 0 0 (reg_num dst);
     emit8 0x0F;
     emit8 0xBA;
     emit_modrm 3 6 (reg_num dst);
     emit8 imm
   }"

definition popcnt_reg_reg :: "X86Reg \<Rightarrow> X86Reg \<Rightarrow> unit emit" where
  "popcnt_reg_reg dst src = do {
     emit8 0xF3;
     emit_rex True (reg_num dst) 0 (reg_num src);
     emit8 0x0F;
     emit8 0xB8;
     emit_modrm 3 (reg_num dst) (reg_num src)
   }"

definition lzcnt_reg_reg :: "X86Reg \<Rightarrow> X86Reg \<Rightarrow> unit emit" where
  "lzcnt_reg_reg dst src = do {
     emit8 0xF3;
     emit_rex True (reg_num dst) 0 (reg_num src);
     emit8 0x0F;
     emit8 0xBD;
     emit_modrm 3 (reg_num dst) (reg_num src)
   }"

definition cmp_reg_reg :: "X86Reg \<Rightarrow> X86Reg \<Rightarrow> unit emit" where
  "cmp_reg_reg dst src = do {
     emit_rex True (reg_num src) 0 (reg_num dst);
     emit8 0x39;
     emit_modrm 3 (reg_num src) (reg_num dst)
   }"

definition cmp_reg_imm32 :: "X86Reg \<Rightarrow> i32 \<Rightarrow> unit emit" where
  "cmp_reg_imm32 dst imm = do {
     emit_rex True 0 0 (reg_num dst);
     (if fits8 imm then do {
        emit8 0x83;
        emit_modrm 3 7 (reg_num dst);
        emit8 (ucast imm)
      } else do {
        emit8 0x81;
        emit_modrm 3 7 (reg_num dst);
        emit32 imm
      })
   }"

definition test_reg_reg :: "X86Reg \<Rightarrow> X86Reg \<Rightarrow> unit emit" where
  "test_reg_reg dst src = do {
     emit_rex True (reg_num src) 0 (reg_num dst);
     emit8 0x85;
     emit_modrm 3 (reg_num src) (reg_num dst)
   }"

definition movsxd_reg_reg :: "X86Reg \<Rightarrow> X86Reg \<Rightarrow> unit emit" where
  "movsxd_reg_reg dst src = do {
     emit_rex True (reg_num dst) 0 (reg_num src);
     emit8 0x63;
     emit_modrm 3 (reg_num dst) (reg_num src)
   }"

definition movzxd_reg_reg :: "X86Reg \<Rightarrow> X86Reg \<Rightarrow> unit emit" where
  "movzxd_reg_reg dst src = do {
     emit_rex False (reg_num dst) 0 (reg_num src);
     emit8 0x8B;
     emit_modrm 3 (reg_num dst) (reg_num src)
   }"

definition cdq :: "unit emit" where
  "cdq = emit8 0x99"

definition cqo :: "unit emit" where
  "cqo = do { emit8 0x48; emit8 0x99 }"

definition idiv_reg32 :: "X86Reg \<Rightarrow> unit emit" where
  "idiv_reg32 src = do {
     emit_rex False 7 0 (reg_num src);
     emit8 0xF7;
     emit_modrm 3 7 (reg_num src AND 7)
   }"

definition idiv_reg :: "X86Reg \<Rightarrow> unit emit" where
  "idiv_reg reg = do {
     emit_rex True 7 0 (reg_num reg);
     emit8 0xF7;
     emit_modrm 3 7 (reg_num reg)
   }"

section \<open>Control flow\<close>

text \<open>Opcode bytes, the relocation of the displacement, and the displacement itself.\<close>

definition emit_branch :: "bytes \<Rightarrow> u32 \<Rightarrow> bool \<Rightarrow> unit emit" where
  "emit_branch opc l jcc = do {
     put_bytes opc;
     add_reloc l jcc;
     emit32 0
   }"

definition jmp_label :: "u32 \<Rightarrow> unit emit" where
  "jmp_label l = emit_branch [0xE9] l False"

definition je_label :: "u32 \<Rightarrow> unit emit" where
  "je_label l = do { emit8 0x0F; emit_branch [0x84] l True }"

definition jne_label :: "u32 \<Rightarrow> unit emit" where
  "jne_label l = do { emit8 0x0F; emit_branch [0x85] l True }"

definition jl_label :: "u32 \<Rightarrow> unit emit" where
  "jl_label l = do { emit8 0x0F; emit_branch [0x8C] l True }"

definition jge_label :: "u32 \<Rightarrow> unit emit" where
  "jge_label l = do { emit8 0x0F; emit_branch [0x8D] l True }"

definition jz_label :: "u32 \<Rightarrow> unit emit" where
  "jz_label l = je_label l"

definition jnz_label :: "u32 \<Rightarrow> unit emit" where
  "jnz_label l = jne_label l"

definition call_reg :: "X86Reg \<Rightarrow> unit emit" where
  "call_reg target = do {
     emit_rex False 0 0 (reg_num target);
     emit8 0xFF;
     emit_modrm 3 2 (reg_num target)
   }"

definition call_rel32_disp :: "i32 \<Rightarrow> unit emit" where
  "call_rel32_disp disp = do { emit8 0xE8; emit32 disp }"

definition push_reg :: "X86Reg \<Rightarrow> unit emit" where
  "push_reg reg = do {
     (if reg_num reg \<ge> 8 then emit8 0x41 else skip_emit);
     emit8 (0x50 + (reg_num reg AND 7))
   }"

definition pop_reg :: "X86Reg \<Rightarrow> unit emit" where
  "pop_reg reg = do {
     (if reg_num reg \<ge> 8 then emit8 0x41 else skip_emit);
     emit8 (0x58 + (reg_num reg AND 7))
   }"

definition ret :: "unit emit" where
  "ret = emit8 0xC3"

section \<open>Atomics and fences\<close>

definition lock_cmpxchg_mem_reg :: "X86Reg \<Rightarrow> i32 \<Rightarrow> X86Reg \<Rightarrow> unit emit" where
  "lock_cmpxchg_mem_reg base disp src = do {
     emit8 0xF0;
     emit_rex True (reg_num src) 0 (reg_num base);
     emit8 0x0F;
     emit8 0xB1;
     emit_modrm_disp (reg_num src) (reg_num base) disp
   }"

definition xchg_mem_reg :: "X86Reg \<Rightarrow> i32 \<Rightarrow> X86Reg \<Rightarrow> unit emit" where
  "xchg_mem_reg base disp src = do {
     emit_rex True (reg_num src) 0 (reg_num base);
     emit8 0x87;
     emit_modrm_disp (reg_num src) (reg_num base) disp
   }"

definition lock_add_mem_reg :: "X86Reg \<Rightarrow> i32 \<Rightarrow> X86Reg \<Rightarrow> unit emit" where
  "lock_add_mem_reg base disp src = do {
     emit8 0xF0;
     emit_rex True (reg_num src) 0 (reg_num base);
     emit8 0x01;
     emit_modrm_disp (reg_num src) (reg_num base) disp
   }"

definition lock_and_mem_reg :: "X86Reg \<Rightarrow> i32 \<Rightarrow> X86Reg \<Rightarrow> unit emit" where
  "lock_and_mem_reg base disp src = do {
     emit8 0xF0;
     emit_rex True (reg_num src) 0 (reg_num base);
     emit8 0x21;
     emit_modrm_disp (reg_num src) (reg_num base) disp
   }"

definition lock_or_mem_reg :: "X86Reg \<Rightarrow> i32 \<Rightarrow> X86Reg \<Rightarrow> unit emit" where
  "lock_or_mem_reg base disp src = do {
     emit8 0xF0;
     emit_rex True (reg_num src) 0 (reg_num base);
     emit8 0x09;
     emit_modrm_disp (reg_num src) (reg_num base) disp
   }"

definition mfence :: "unit emit" where
  "mfence = do { emit8 0x0F; emit8 0xAE; emit8 0xF0 }"

definition clflush :: "X86Reg \<Rightarrow> i32 \<Rightarrow> unit emit" where
  "clflush base disp = do {
     emit_rex False 0 0 (reg_num base);
     emit8 0x0F; emit8 0xAE;
     emit_modrm_disp 7 (reg_num base) disp
   }"

section \<open>SSE2, AVX2 and AVX-512\<close>

definition addss_xmm_xmm :: "u8 \<Rightarrow> u8 \<Rightarrow> unit emit" where
  "addss_xmm_xmm dst_xmm src_xmm = do {
     emit8 0xF3;
     (if dst_xmm \<ge> 8 \<or> src_xmm \<ge> 8 then emit_rex False dst_xmm 0 src_xmm else skip_emit);
     emit8 0x0F; emit8 0x58;
     emit_modrm 3 (dst_xmm AND 7) (src_xmm AND 7)
   }"

definition addsd_xmm_xmm :: "u8 \<Rightarrow> u8 \<Rightarrow> unit emit" where
  "addsd_xmm_xmm dst_xmm src_xmm = do {
     emit8 0xF2;
     (if dst_xmm \<ge> 8 \<or> src_xmm \<ge> 8 then emit_rex False dst_xmm 0 src_xmm else skip_emit);
     emit8 0x0F; emit8 0x58;
     emit_modrm 3 (dst_xmm AND 7) (src_xmm AND 7)
   }"

definition subsd_xmm_xmm :: "u8 \<Rightarrow> u8 \<Rightarrow> unit emit" where
  "subsd_xmm_xmm dst_xmm src_xmm = do {
     emit8 0xF2;
     (if dst_xmm \<ge> 8 \<or> src_xmm \<ge> 8 then emit_rex False dst_xmm 0 src_xmm else skip_emit);
     emit8 0x0F; emit8 0x5C;
     emit_modrm 3 (dst_xmm AND 7) (src_xmm AND 7)
   }"

definition mulsd_xmm_xmm :: "u8 \<Rightarrow> u8 \<Rightarrow> unit emit" where
  "mulsd_xmm_xmm dst_xmm src_xmm = do {
     emit8 0xF2;
     (if dst_xmm \<ge> 8 \<or> src_xmm \<ge> 8 then emit_rex False dst_xmm 0 src_xmm else skip_emit);
     emit8 0x0F; emit8 0x5E;
     emit_modrm 3 (dst_xmm AND 7) (src_xmm AND 7)
   }"

definition divsd_xmm_xmm :: "u8 \<Rightarrow> u8 \<Rightarrow> unit emit" where
  "divsd_xmm_xmm dst_xmm src_xmm = do {
     emit8 0xF2;
     (if dst_xmm \<ge> 8 \<or> src_xmm \<ge> 8 then emit_rex False dst_xmm 0 src_xmm else skip_emit);
     emit8 0x0F; emit8 0x5F;
     emit_modrm 3 (dst_xmm AND 7) (src_xmm AND 7)
   }"

definition paddd_xmm_xmm :: "u8 \<Rightarrow> u8 \<Rightarrow> unit emit" where
  "paddd_xmm_xmm dst_xmm src_xmm = do {
     emit8 0x66;
     (if dst_xmm \<ge> 8 \<or> src_xmm \<ge> 8 then emit_rex False dst_xmm 0 src_xmm else skip_emit);
     emit8 0x0F; emit8 0xFE;
     emit_modrm 3 (dst_xmm AND 7) (src_xmm AND 7)
   }"

definition psubd_xmm_xmm :: "u8 \<Rightarrow> u8 \<Rightarrow> unit emit" where
  "psubd_xmm_xmm dst_xmm src_xmm = do {
     emit8 0x66;
     (if dst_xmm \<ge> 8 \<or> src_xmm \<ge> 8 then emit_rex False dst_xmm 0 src_xmm else skip_emit);
     emit8 0x0F; emit8 0xFA;
     emit_modrm 3 (dst_xmm AND 7) (src_xmm AND 7)
   }"

definition movss_xmm_mem :: "u8 \<Rightarrow> X86Reg \<Rightarrow> i32 \<Rightarrow> unit emit" where
  "movss_xmm_mem dst_xmm base disp = do {
     emit8 0xF3;
     (if dst_xmm \<ge> 8 \<or> reg_num base \<ge> 8 then emit_rex False dst_xmm 0 (reg_num base) else skip_emit);
     emit8 0x0F; emit8 0x10;
     emit_modrm_disp (dst_xmm AND 7) (reg_num base AND 7) disp
   }"

definition movss_mem_xmm :: "X86Reg \<Rightarrow> i32 \<Rightarrow> u8 \<Rightarrow> unit emit" where
  "movss_mem_xmm base disp src_xmm = do {
     emit8 0xF3;
     (if src_xmm \<ge> 8 \<or> reg_num base \<ge> 8 then emit_rex False src_xmm 0 (reg_num base) else skip_emit);
     emit8 0x0F; emit8 0x11;
     emit_modrm_disp (src_xmm AND 7) (reg_num base AND 7) disp
   }"

definition movsd_xmm_mem :: "u8 \<Rightarrow> X86Reg \<Rightarrow> i32 \<Rightarrow> unit emit" where
  "movsd_xmm_mem dst_xmm base disp = do {
     emit8 0xF2;
     (if dst_xmm \<ge> 8 \<or> reg_num base \<ge> 8 then emit_rex False dst_xmm 0 (reg_num base) else skip_emit);
     emit8 0x0F; emit8 0x10;
     emit_modrm_disp (dst_xmm AND 7) (reg_num base AND 7) disp
   }"

definition movsd_mem_xmm :: "X86Reg \<Rightarrow> i32 \<Rightarrow> u8 \<Rightarrow> unit emit" where
  "movsd_mem_xmm base disp src_xmm = do {
     emit8 0xF2;
     (if src_xmm \<ge> 8 \<or> reg_num base \<ge> 8 then emit_rex False src_xmm 0 (reg_num base) else skip_emit);
     emit8 0x0F; emit8 0x11;
     emit_modrm_disp (src_xmm AND 7) (reg_num base AND 7) disp
   }"

definition movdqu_xmm_mem :: "u8 \<Rightarrow> X86Reg \<Rightarrow> i32 \<Rightarrow> unit emit" where
  "movdqu_xmm_mem dst_xmm base disp = do {
     emit8 0xF3;
     (if dst_xmm \<ge> 8 \<or> reg_num base \<ge> 8 then emit_rex False dst_xmm 0 (reg_num base) else skip_emit);
     emit8 0x0F; emit8 0x6F;
     emit_modrm_disp (dst_xmm AND 7) (reg_num base AND 7) disp
   }"

definition movdqu_mem_xmm :: "X86Reg \<Rightarrow> i32 \<Rightarrow> u8 \<Rightarrow> unit emit" where
  "movdqu_mem_xmm base disp src_xmm = do {
     emit8 0xF3;
     (if src_xmm \<ge> 8 \<or> reg_num base \<ge> 8 then emit_rex False src_xmm 0 (reg_num base) else skip_emit);
     emit8 0x0F; emit8 0x7F;
     emit_modrm_disp (src_xmm AND 7) (reg_num base AND 7) disp
   }"

definition vpaddd_ymm_ymm :: "u8 \<Rightarrow> u8 \<Rightarrow> u8 \<Rightarrow> unit emit" where
  "vpaddd_ymm_ymm dst src1 src2 = do {
     emit_vex3 0x01 0x01 False src1 True (drop_bit 3 dst) 0 (drop_bit 3 src2);
     emit8 0xFE;
     emit_modrm 3 (dst AND 7) (src2 AND 7)
   }"

definition vpaddd_zmm_zmm :: "u8 \<Rightarrow> u8 \<Rightarrow> u8 \<Rightarrow> unit emit" where
  "vpaddd_zmm_zmm dst src1 src2 = do {
     emit_evex 0x01 0x01 False src1 0x02 (drop_bit 3 dst) 0 (drop_bit 3 src2) 0;
     emit8 0xFE;
     emit_modrm 3 (dst AND 7) (src2 AND 7)
   }"

definition vpmulld_ymm_ymm :: "u8 \<Rightarrow> u8 \<Rightarrow> u8 \<Rightarrow> unit emit" where
  "vpmulld_ymm_ymm dst src1 src2 = do {
     emit_vex3 0x02 0x01 False src1 True (drop_bit 3 dst) 0 (drop_bit 3 src2);
     emit8 0x40;
     emit_modrm 3 (dst AND 7) (src2 AND 7)
   }"

definition vmovdqu_ymm_mem :: "u8 \<Rightarrow> X86Reg \<Rightarrow> i32 \<Rightarrow> unit emit" where
  "vmovdqu_ymm_mem dst base disp = do {
     emit_vex3 0x01 0x02 False 0 True (drop_bit 3 dst) 0 (drop_bit 3 (reg_num base));
     emit8 0x6F;
     emit_modrm_disp (dst AND 7) (reg_num base AND 7) disp
   }"

definition vmovdqu_mem_ymm :: "X86Reg \<Rightarrow> i32 \<Rightarrow> u8 \<Rightarrow> unit emit" where
  "vmovdqu_mem_ymm base disp src = do {
     emit_vex3 0x01 0x02 False 0 True (drop_bit 3 src) 0 (drop_bit 3 (reg_num base));
     emit8 0x7F;
     emit_modrm_disp (src AND 7) (reg_num base AND 7) disp
   }"

definition vmovdqu_zmm_mem :: "u8 \<Rightarrow> X86Reg \<Rightarrow> i32 \<Rightarrow> unit emit" where
  "vmovdqu_zmm_mem dst base disp = do {
     emit_evex 0x01 0x02 False 0 0x02 (drop_bit 3 dst) 0 (drop_bit 3 (reg_num base)) 0;
     emit8 0x6F;
     emit_modrm_disp (dst AND 7) (reg_num base AND 7) disp
   }"

definition vmovdqu_mem_zmm :: "X86Reg \<Rightarrow> i32 \<Rightarrow> u8 \<Rightarrow> unit emit" where
  "vmovdqu_mem_zmm base disp src = do {
     emit_evex 0x01 0x02 False 0 0x02 (drop_bit 3 src) 0 (drop_bit 3 (reg_num base)) 0;
     emit8 0x7F;
     emit_modrm_disp (src AND 7) (reg_num base AND 7) disp
   }"

definition vmovntdq_ymm_mem :: "X86Reg \<Rightarrow> i32 \<Rightarrow> u8 \<Rightarrow> unit emit" where
  "vmovntdq_ymm_mem base disp src = do {
     emit_vex3 0x01 0x01 False 0 True (drop_bit 3 src) 0 (drop_bit 3 (reg_num base));
     emit8 0xE7;
     emit_modrm_disp (src AND 7) (reg_num base AND 7) disp
   }"

definition vmovntdq_zmm_mem :: "X86Reg \<Rightarrow> i32 \<Rightarrow> u8 \<Rightarrow> unit emit" where
  "vmovntdq_zmm_mem base disp src = do {
     emit_evex 0x01 0x01 False 0 0x02 (drop_bit 3 src) 0 (drop_bit 3 (reg_num base)) 0;
     emit8 0xE7;
     emit_modrm_disp (src AND 7) (reg_num base AND 7) disp
   }"

definition movntdq_mem_xmm :: "X86Reg \<Rightarrow> i32 \<Rightarrow> u8 \<Rightarrow> unit emit" where
  "movntdq_mem_xmm base disp src_xmm = do {
     emit8 0x66;
     (if src_xmm \<ge> 8 \<or> reg_num base \<ge> 8 then emit_rex False src_xmm 0 (reg_num base) else skip_emit);
     emit8 0x0F; emit8 0xE7;
     emit_modrm_disp (src_xmm AND 7) (reg_num base AND 7) disp
   }"

definition sfence :: "unit emit" where
  "sfence = do { emit8 0x0F; emit8 0xAE; emit8 0xF8 }"

definition prefetcht0 :: "X86Reg \<Rightarrow> i32 \<Rightarrow> unit emit" where
  "prefetcht0 base disp = do {
     (if reg_num base \<ge> 8 then emit_rex False 1 0 (reg_num base) else skip_emit);
     emit8 0x0F; emit8 0x18;
     emit_modrm_disp 1 (reg_num base AND 7) disp
   }"

definition lea_reg_rip_disp32 :: "X86Reg \<Rightarrow> i32 \<Rightarrow> unit emit" where
  "lea_reg_rip_disp32 dst disp32 = do {
     emit_rex True (reg_num dst) 0 0;
     emit8 0x8D;
     emit_modrm 0 (reg_num dst AND 7) 5;
     emit32 disp32
   }"

section \<open>Resolution of labels\<close>

text \<open>The loop over the relocations; on an error the fields patched so far stay patched.\<close>

definition patch32 :: "nat \<Rightarrow> u32 \<Rightarrow> bytes \<Rightarrow> bytes" where
  "patch32 n w bs = take n bs @ le32 w @ drop (n + 4) bs"

fun resolve_loop :: "EncoderLabel list \<Rightarrow> LabelReloc list \<Rightarrow> bytes \<Rightarrow> bool \<times> bytes" where
  "resolve_loop ls [] bs = (True, bs)"
| "resolve_loop ls (r # rs) bs =
     (if unat (label_id r) \<ge> length ls then (False, bs)
      else if \<not> bound (ls ! unat (label_id r)) then (False, bs)
      else if patch_offset r + 4 > length bs then (False, bs)
      else
        (let rel = sint (loffset (ls ! unat (label_id r))) - int (patch_offset r + 4) in
         if rel < - 2147483648 \<or> rel > 2147483647 then (False, bs)
         else resolve_loop ls rs (patch32 (patch_offset r) (word_of_int rel) bs)))"

definition resolve_labels :: "bool emit" where
  "resolve_labels = State (\<lambda>e.
     if failed e \<or> \<not> has_buf e then (False, e)
     else (let (ok, bs) = resolve_loop (labels e) (relocs e) (buf e) in (ok, e\<lparr>buf := bs\<rparr>)))"

section \<open>What every emission guarantees\<close>

text \<open>
  All instruction emitters are built from four primitives: appending at most eight bytes,
  creating a label, a branch with its relocation, and binding a label. A relation between
  encoder states that the first three keep is kept by every emitter, and by all code built from
  them; \<open>encoder_rel\<close> adds the binding of an arbitrary label.
\<close>

locale emitter_rel = state_rel R for R :: "AnaEncoder \<Rightarrow> AnaEncoder \<Rightarrow> bool" +
  assumes R_put: "length bs \<le> 8 \<Longrightarrow> R e (exec (put_bytes bs) e)"
    and R_new_label: "R e (exec new_label e)"
    and R_branch: "length opc \<le> 8 \<Longrightarrow> R e (exec (emit_branch opc l jcc) e)"
begin

lemma keeps_put: "length bs \<le> 8 \<Longrightarrow> keeps (put_bytes bs)"
  and keeps_new_label: "keeps new_label"
  and keeps_branch: "length opc \<le> 8 \<Longrightarrow> keeps (emit_branch opc l jcc)"
  by (simp_all add: keeps_def R_put R_new_label R_branch)

lemma keeps_emit8: "keeps (emit8 b)" and keeps_emit32: "keeps (emit32 w)"
  and keeps_emit64: "keeps (emit64 v)"
  unfolding emit8_def emit32_def emit64_def by (simp_all add: keeps_put)

lemmas keeps_emit = keeps_monad keeps_emit8 keeps_emit32 keeps_emit64 keeps_new_label

lemma keeps_rex: "keeps (emit_rex w r x b)" and keeps_modrm: "keeps (emit_modrm md r m)"
  unfolding emit_rex_def emit_modrm_def by (intro keeps_emit)+

lemma keeps_modrm_disp: "keeps (emit_modrm_disp r b d)"
  unfolding emit_modrm_disp_def by (intro keeps_emit keeps_modrm)

lemma keeps_vex3: "keeps (emit_vex3 m pp w v l r x b)"
  and keeps_evex: "keeps (emit_evex m pp w v lll r x b aaa)"
  unfolding emit_vex3_def emit_evex_def by (intro keeps_emit)+

lemmas keeps_bytes = keeps_emit keeps_rex keeps_modrm keeps_modrm_disp keeps_vex3 keeps_evex

lemma keeps_moves:
  "keeps (mov_reg_reg a b)" "keeps (mov_reg_imm64 a v)" "keeps (mov_reg_imm32 a w)"
  "keeps (mov_reg_mem a b w)" "keeps (mov_mem_reg a w b)" "keeps (movsxd_reg_reg a b)"
  "keeps (movzxd_reg_reg a b)" "keeps (lea_reg_rip_disp32 a w)"
  unfolding mov_reg_reg_def mov_reg_imm64_def mov_reg_imm32_def mov_reg_mem_def mov_mem_reg_def
    movsxd_reg_reg_def movzxd_reg_reg_def lea_reg_rip_disp32_def
  by (intro keeps_bytes)+

lemma keeps_arith:
  "keeps (add_reg_reg a b)" "keeps (add_reg_imm32 a w)" "keeps (add_mem_reg a w b)"
  "keeps (sub_reg_reg a b)" "keeps (sub_reg_imm32 a w)" "keeps (imul_reg_reg a b)"
  "keeps (imul_reg_imm32 a b w)" "keeps (and_reg_reg a b)" "keeps (and_reg_imm32 a w)"
  "keeps (or_reg_reg a b)" "keeps (or_reg_imm32 a w)" "keeps (xor_reg_reg a b)"
  "keeps (xor_reg_imm32 a w)" "keeps cdq" "keeps cqo" "keeps (idiv_reg32 a)" "keeps (idiv_reg a)"
  unfolding add_reg_reg_def add_reg_imm32_def add_mem_reg_def sub_reg_reg_def sub_reg_imm32_def
    imul_reg_reg_def imul_reg_imm32_def and_reg_reg_def and_reg_imm32_def or_reg_reg_def
    or_reg_imm32_def xor_reg_reg_def xor_reg_imm32_def cdq_def cqo_def idiv_reg32_def idiv_reg_def
  by (intro keeps_bytes)+

lemma keeps_bits:
  "keeps (shl_reg_cl a)" "keeps (shl_reg_imm8 a i)" "keeps (sar_reg_cl a)" "keeps (sar_reg_imm8 a i)"
  "keeps (shr_reg_cl a)" "keeps (shr_reg_imm8 a i)" "keeps (bts_reg_reg a b)" "keeps (bts_reg_imm8 a i)"
  "keeps (btr_reg_reg a b)" "keeps (btr_reg_imm8 a i)" "keeps (popcnt_reg_reg a b)"
  "keeps (lzcnt_reg_reg a b)" "keeps (cmp_reg_reg a b)" "keeps (cmp_reg_imm32 a w)"
  "keeps (test_reg_reg a b)"
  unfolding shl_reg_cl_def shl_reg_imm8_def sar_reg_cl_def sar_reg_imm8_def shr_reg_cl_def
    shr_reg_imm8_def bts_reg_reg_def bts_reg_imm8_def btr_reg_reg_def btr_reg_imm8_def
    popcnt_reg_reg_def lzcnt_reg_reg_def cmp_reg_reg_def cmp_reg_imm32_def test_reg_reg_def
  by (intro keeps_bytes)+

lemma keeps_control:
  "keeps (jmp_label l)" "keeps (je_label l)" "keeps (jne_label l)" "keeps (jl_label l)"
  "keeps (jge_label l)" "keeps (jz_label l)" "keeps (jnz_label l)" "keeps (call_reg a)"
  "keeps (call_rel32_disp w)" "keeps (push_reg a)" "keeps (pop_reg a)" "keeps ret"
  unfolding jmp_label_def je_label_def jne_label_def jl_label_def jge_label_def jz_label_def
    jnz_label_def call_reg_def call_rel32_disp_def push_reg_def pop_reg_def ret_def
  by (intro keeps_bytes keeps_branch | simp)+

lemma keeps_atomics:
  "keeps (lock_cmpxchg_mem_reg a w b)" "keeps (xchg_mem_reg a w b)" "keeps (lock_add_mem_reg a w b)"
  "keeps (lock_and_mem_reg a w b)" "keeps (lock_or_mem_reg a w b)" "keeps mfence" "keeps sfence"
  "keeps (clflush a w)" "keeps (prefetcht0 a w)"
  unfolding lock_cmpxchg_mem_reg_def xchg_mem_reg_def lock_add_mem_reg_def lock_and_mem_reg_def
    lock_or_mem_reg_def mfence_def sfence_def clflush_def prefetcht0_def
  by (intro keeps_bytes)+

lemma keeps_sse:
  "keeps (addss_xmm_xmm i j)" "keeps (addsd_xmm_xmm i j)" "keeps (subsd_xmm_xmm i j)"
  "keeps (mulsd_xmm_xmm i j)" "keeps (divsd_xmm_xmm i j)" "keeps (paddd_xmm_xmm i j)"
  "keeps (psubd_xmm_xmm i j)" "keeps (movss_xmm_mem i a w)" "keeps (movss_mem_xmm a w i)"
  "keeps (movsd_xmm_mem i a w)" "keeps (movsd_mem_xmm a w i)" "keeps (movdqu_xmm_mem i a w)"
  "keeps (movdqu_mem_xmm a w i)" "keeps (movntdq_mem_xmm a w i)"
  unfolding addss_xmm_xmm_def addsd_xmm_xmm_def subsd_xmm_xmm_def mulsd_xmm_xmm_def
    divsd_xmm_xmm_def paddd_xmm_xmm_def psubd_xmm_xmm_def movss_xmm_mem_def movss_mem_xmm_def
    movsd_xmm_mem_def movsd_mem_xmm_def movdqu_xmm_mem_def movdqu_mem_xmm_def movntdq_mem_xmm_def
  by (intro keeps_bytes)+

lemma keeps_avx:
  "keeps (vpaddd_ymm_ymm i j k)" "keeps (vpaddd_zmm_zmm i j k)" "keeps (vpmulld_ymm_ymm i j k)"
  "keeps (vmovdqu_ymm_mem i a w)" "keeps (vmovdqu_mem_ymm a w i)" "keeps (vmovdqu_zmm_mem i a w)"
  "keeps (vmovdqu_mem_zmm a w i)" "keeps (vmovntdq_ymm_mem a w i)" "keeps (vmovntdq_zmm_mem a w i)"
  unfolding vpaddd_ymm_ymm_def vpaddd_zmm_zmm_def vpmulld_ymm_ymm_def vmovdqu_ymm_mem_def
    vmovdqu_mem_ymm_def vmovdqu_zmm_mem_def vmovdqu_mem_zmm_def vmovntdq_ymm_mem_def
    vmovntdq_zmm_mem_def
  by (intro keeps_bytes)+

lemmas keeps_emitters = keeps_emit keeps_moves keeps_arith keeps_bits keeps_control keeps_atomics
  keeps_sse keeps_avx

end

locale encoder_rel = emitter_rel R for R :: "AnaEncoder \<Rightarrow> AnaEncoder \<Rightarrow> bool" +
  assumes R_bind_label: "R e (exec (bind_label l) e)"
begin

lemma keeps_bind_label: "keeps (bind_label l)"
  by (simp add: keeps_def R_bind_label)

end

section \<open>The primitives\<close>

lemma ensure_capacity_cases:
  obtains (fits) "run_state (ensure_capacity n) e = (True, e)" "length (buf e) + n \<le> capacity e"
  | (grown) c where "run_state (ensure_capacity n) e =
        (True, e\<lparr>e_calls := e_calls e + 1, has_buf := True, capacity := c\<rparr>)"
      "c = (if capacity e = 0 then 4096 else (capacity e * 2 + n + 4095) div 4096 * 4096)"
  | (failed) c where "run_state (ensure_capacity n) e = (False, e\<lparr>e_calls := e_calls e + 1, failed := True\<rparr>)"
      "\<not> e_mmap e (e_calls e) c"
proof -
  define c where "c = (if capacity e = 0 then 4096 else (capacity e * 2 + n + 4095) div 4096 * 4096)"
  consider "length (buf e) + n \<le> capacity e"
    | "\<not> length (buf e) + n \<le> capacity e" "e_mmap e (e_calls e) c"
    | "\<not> length (buf e) + n \<le> capacity e" "\<not> e_mmap e (e_calls e) c"
    by blast
  then show ?thesis
  proof cases
    case 1
    then show ?thesis
      by (intro fits) (simp_all add: ensure_capacity_def)
  next
    case 2
    then show ?thesis
      by (intro grown [OF _ c_def]) (simp add: ensure_capacity_def c_def)
  next
    case 3
    then show ?thesis
      by (intro failed [of c]) (simp_all add: ensure_capacity_def c_def)
  qed
qed

lemma round4096_ge: "n \<le> (n + 4095) div 4096 * (4096 :: nat)"
  using align_up_ge [of 4096 n] by (simp add: align_up_def)

lemma put_bytes_effect:
  "e_mmap (exec (put_bytes bs) e) = e_mmap e"
  "labels (exec (put_bytes bs) e) = labels e"
  "relocs (exec (put_bytes bs) e) = relocs e"
  "failed e \<Longrightarrow> failed (exec (put_bytes bs) e)"
  "\<not> failed (exec (put_bytes bs) e) \<Longrightarrow> buf (exec (put_bytes bs) e) = buf e @ bs"
  "\<forall>k n. e_mmap e k n \<Longrightarrow> \<not> failed e \<Longrightarrow> \<not> failed (exec (put_bytes bs) e)"
  "buf (exec (put_bytes bs) e) = buf e @ bs \<or> buf (exec (put_bytes bs) e) = buf e"
  by (cases rule: ensure_capacity_cases [of "length bs" e]; auto simp: put_bytes_def)+

lemma put_bytes_in_bounds:
  assumes "length (buf e) \<le> capacity e" "capacity e = 0 \<longrightarrow> length bs \<le> 4096"
  shows "length (buf (exec (put_bytes bs) e)) \<le> capacity (exec (put_bytes bs) e)"
  using assms round4096_ge [of "capacity e * 2 + length bs"]
  by (cases rule: ensure_capacity_cases [of "length bs" e]) (auto simp: put_bytes_def)

section \<open>Appending exactly\<close>

text \<open>
  \<open>emits m bs\<close>: unless the failure flag is set in the end, \<open>m\<close> appends exactly
  \<open>bs\<close> and touches neither labels nor relocations; it fails only if it had failed
  before or a mapping was refused.
\<close>

definition emits :: "'a emit \<Rightarrow> bytes \<Rightarrow> bool" where
  "emits m bs \<longleftrightarrow> (\<forall>e. e_mmap (exec m e) = e_mmap e
     \<and> (failed e \<longrightarrow> failed (exec m e))
     \<and> ((\<forall>k n. e_mmap e k n) \<longrightarrow> \<not> failed e \<longrightarrow> \<not> failed (exec m e))
     \<and> (\<not> failed (exec m e) \<longrightarrow> buf (exec m e) = buf e @ bs
          \<and> labels (exec m e) = labels e \<and> relocs (exec m e) = relocs e))"

lemma emits_put: "emits (put_bytes bs) bs"
  unfolding emits_def using put_bytes_effect by blast

lemma emits_ret: "emits (State_Monad.return x) []"
  by (simp add: emits_def)

lemma emits_bind_gen:
  assumes "emits m bs" "\<And>e. emits (f (fst (run_state m e))) cs"
  shows "emits (m \<bind> f) (bs @ cs)"
  unfolding emits_def
proof (intro allI)
  fix e
  obtain x e1 where e1: "run_state m e = (x, e1)"
    by fastforce
  have m: "e_mmap e1 = e_mmap e" "failed e \<longrightarrow> failed e1"
      "(\<forall>k n. e_mmap e k n) \<longrightarrow> \<not> failed e \<longrightarrow> \<not> failed e1"
      "\<not> failed e1 \<longrightarrow> buf e1 = buf e @ bs \<and> labels e1 = labels e \<and> relocs e1 = relocs e"
    using assms(1) [unfolded emits_def, rule_format, of e] e1 by auto
  have f: "e_mmap (exec (f x) e1) = e_mmap e1" "failed e1 \<longrightarrow> failed (exec (f x) e1)"
      "(\<forall>k n. e_mmap e1 k n) \<longrightarrow> \<not> failed e1 \<longrightarrow> \<not> failed (exec (f x) e1)"
      "\<not> failed (exec (f x) e1) \<longrightarrow> buf (exec (f x) e1) = buf e1 @ cs
        \<and> labels (exec (f x) e1) = labels e1 \<and> relocs (exec (f x) e1) = relocs e1"
    using assms(2) [unfolded emits_def, rule_format, of e e1] e1 by auto
  have "exec (m \<bind> f) e = exec (f x) e1"
    by (simp add: e1)
  then show "e_mmap (exec (m \<bind> f) e) = e_mmap e
     \<and> (failed e \<longrightarrow> failed (exec (m \<bind> f) e))
     \<and> ((\<forall>k n. e_mmap e k n) \<longrightarrow> \<not> failed e \<longrightarrow> \<not> failed (exec (m \<bind> f) e))
     \<and> (\<not> failed (exec (m \<bind> f) e) \<longrightarrow> buf (exec (m \<bind> f) e) = buf e @ (bs @ cs)
          \<and> labels (exec (m \<bind> f) e) = labels e \<and> relocs (exec (m \<bind> f) e) = relocs e)"
    using m f by auto
qed

lemma emits_bind: "emits m bs \<Longrightarrow> (\<And>x. emits (f x) cs) \<Longrightarrow> emits (m \<bind> f) (bs @ cs)"
  by (rule emits_bind_gen)

lemma emits_if: "emits m bs \<Longrightarrow> emits n cs \<Longrightarrow> emits (if b then m else n) (if b then bs else cs)"
  by simp

lemma emits_emit8: "emits (emit8 b) [b]" and emits_emit32: "emits (emit32 w) (le32 w)"
  and emits_emit64: "emits (emit64 v) (le64 v)"
  by (simp_all add: emit8_def emit32_def emit64_def emits_put)

definition rex_bytes :: "bool \<Rightarrow> u8 \<Rightarrow> u8 \<Rightarrow> bytes" where
  "rex_bytes w r b = (if w \<or> r \<ge> 8 \<or> b \<ge> 8 then [rex_byte w r 0 b] else [])"

definition modrm_disp_bytes :: "u8 \<Rightarrow> u8 \<Rightarrow> i32 \<Rightarrow> bytes" where
  "modrm_disp_bytes reg b disp =
     (let md = (if disp = 0 \<and> b AND 7 \<noteq> 5 then 0 else if fits8 disp then 1 else 2) in
      modrm_byte md reg b # (if b AND 7 = 4 then [0x24] else [])
        @ (if md = 0 then [] else if md = 1 then [ucast disp] else le32 disp))"

lemma emits_rex: "emits (emit_rex w r 0 b) (rex_bytes w r b)"
  by (simp add: emit_rex_def rex_bytes_def emits_emit8 emits_ret)

lemma emits_modrm: "emits (emit_modrm md r m) [modrm_byte md r m]"
  by (simp add: emit_modrm_def emits_emit8)

lemma emits_modrm_disp: "emits (emit_modrm_disp r b d) (modrm_disp_bytes r b d)"
proof -
  have "emits (emit_modrm_disp r b d)
    (if d = 0 \<and> b AND 7 \<noteq> 5 then [modrm_byte 0 r b] @ (if b AND 7 = 4 then [0x24] else [])
     else if fits8 d then [modrm_byte 1 r b] @ (if b AND 7 = 4 then [0x24] else []) @ [ucast d]
     else [modrm_byte 2 r b] @ (if b AND 7 = 4 then [0x24] else []) @ le32 d)"
    unfolding emit_modrm_disp_def
    by (intro emits_if emits_bind emits_modrm emits_emit8 emits_emit32 emits_ret)
  then show ?thesis
    by (auto simp: modrm_disp_bytes_def Let_def split: if_splits)
qed

lemmas emits_rules = emits_bind emits_if emits_ret emits_emit8 emits_emit32 emits_emit64 emits_rex
  emits_modrm emits_modrm_disp

section \<open>The code buffer and the tables\<close>

text \<open>The failure flag stays set until \<open>reset\<close>.\<close>

lemma put_failed: "failed e \<Longrightarrow> failed (exec (put_bytes bs) e)"
  by (rule put_bytes_effect)

lemma add_reloc_effect:
  "e_mmap (exec (add_reloc l jcc) e) = e_mmap e" "labels (exec (add_reloc l jcc) e) = labels e"
  "buf (exec (add_reloc l jcc) e) = buf e" "capacity (exec (add_reloc l jcc) e) = capacity e"
  "failed e \<Longrightarrow> failed (exec (add_reloc l jcc) e)"
  "\<not> failed (exec (add_reloc l jcc) e) \<Longrightarrow> relocs (exec (add_reloc l jcc) e) =
     relocs e @ [\<lparr>label_id = l, patch_offset = length (buf e), is_jcc_rel32 = jcc\<rparr>]"
  by (simp_all add: add_reloc_def split: if_splits)

lemma branch_exec:
  "exec (emit_branch opc l jcc) e = exec (emit32 0) (exec (add_reloc l jcc) (exec (put_bytes opc) e))"
  by (simp add: emit_branch_def case_prod_beta)

interpretation latch: encoder_rel "\<lambda>e e'. failed e \<longrightarrow> failed e'"
  by unfold_locales
     (auto simp: put_failed new_label_def bind_label_def branch_exec emit32_def add_reloc_effect)

interpretation grows: encoder_rel "\<lambda>e e'. length (buf e) \<le> length (buf e')"
proof unfold_locales
  fix bs opc :: bytes and e l jcc
  show put: "length (buf e) \<le> length (buf (exec (put_bytes bs) e))" for bs e
    by (simp add: put_bytes_def ensure_capacity_def Let_def)
  show "length (buf e) \<le> length (buf (exec (emit_branch opc l jcc) e))"
    using put [of e opc] put [of "exec (add_reloc l jcc) (exec (put_bytes opc) e)" "le32 0"]
    by (simp add: branch_exec emit32_def add_reloc_effect)
qed (auto simp: new_label_def bind_label_def)

text \<open>Nothing is written past the mapped buffer.\<close>

definition in_bounds :: "AnaEncoder \<Rightarrow> bool" where
  "in_bounds e \<longleftrightarrow> length (buf e) \<le> capacity e"

lemma put_in_bounds: "in_bounds e \<Longrightarrow> length bs \<le> 4096 \<Longrightarrow> in_bounds (exec (put_bytes bs) e)"
  unfolding in_bounds_def by (rule put_bytes_in_bounds) auto

lemma branch_in_bounds:
  assumes "in_bounds e" "length opc \<le> 8"
  shows "in_bounds (exec (emit_branch opc l jcc) e)"
proof -
  have "in_bounds (exec (add_reloc l jcc) (exec (put_bytes opc) e))"
    using put_in_bounds [of e opc] assms by (simp add: in_bounds_def add_reloc_effect)
  then show ?thesis
    by (simp add: branch_exec emit32_def put_in_bounds)
qed

lemma label_in_bounds:
  "in_bounds (exec new_label e) = in_bounds e" "in_bounds (exec (bind_label l) e) = in_bounds e"
  by (simp_all add: in_bounds_def new_label_def bind_label_def)

interpretation room: encoder_rel "\<lambda>e e'. in_bounds e \<longrightarrow> in_bounds e'"
  by unfold_locales (auto simp: put_in_bounds branch_in_bounds label_in_bounds)

text \<open>
  The tables are consistent with the buffer: every relocation names four bytes of it, later
  ones after earlier ones, and every bound label an offset into it.
\<close>

definition relocs_ok :: "LabelReloc list \<Rightarrow> nat \<Rightarrow> bool" where
  "relocs_ok rs n \<longleftrightarrow> sorted_wrt (\<lambda>r s. patch_offset r + 4 \<le> patch_offset s) rs
     \<and> (\<forall>r \<in> set rs. patch_offset r + 4 \<le> n)"

definition labels_ok :: "EncoderLabel list \<Rightarrow> nat \<Rightarrow> bool" where
  "labels_ok ls n \<longleftrightarrow> length ls \<le> kMaxLabels
     \<and> (\<forall>l \<in> set ls. bound l \<longrightarrow> (\<exists>k \<le> n. loffset l = of_nat k))"

definition tables_ok :: "AnaEncoder \<Rightarrow> bool" where
  "tables_ok e \<longleftrightarrow> failed e \<or> relocs_ok (relocs e) (length (buf e)) \<and> labels_ok (labels e) (length (buf e))"

lemma relocs_ok_mono: "relocs_ok rs n \<Longrightarrow> n \<le> n' \<Longrightarrow> relocs_ok rs n'"
  by (auto simp: relocs_ok_def)

lemma labels_ok_mono: "labels_ok ls n \<Longrightarrow> n \<le> n' \<Longrightarrow> labels_ok ls n'"
  unfolding labels_ok_def by (meson order_trans)

lemma relocs_ok_snoc:
  "relocs_ok rs n \<Longrightarrow> n \<le> k \<Longrightarrow> relocs_ok (rs @ [\<lparr>label_id = l, patch_offset = k, is_jcc_rel32 = j\<rparr>]) (k + 4)"
  by (force simp: relocs_ok_def sorted_wrt_append)

lemma put_tables_ok: "tables_ok e \<Longrightarrow> tables_ok (exec (put_bytes bs) e)"
  using put_bytes_effect [where bs = bs and e = e]
  by (cases "failed (exec (put_bytes bs) e)")
     (auto simp: tables_ok_def intro: relocs_ok_mono labels_ok_mono)

lemma branch_tables_ok:
  assumes "tables_ok e"
  shows "tables_ok (exec (emit_branch opc l jcc) e)"
proof (cases "failed (exec (emit_branch opc l jcc) e)")
  case False
  let ?e1 = "exec (put_bytes opc) e"
  let ?e2 = "exec (add_reloc l jcc) ?e1"
  have f2: "\<not> failed ?e2"
    using False put_failed [of ?e2 "le32 0"] by (auto simp: branch_exec emit32_def)
  then have f1: "\<not> failed ?e1"
    using add_reloc_effect(5) [of ?e1 l jcc] by blast
  have e1: "relocs_ok (relocs ?e1) (length (buf ?e1))" "labels_ok (labels ?e1) (length (buf ?e1))"
    using put_tables_ok [OF assms, of opc] f1 by (auto simp: tables_ok_def)
  show ?thesis
    using False e1 f2 relocs_ok_snoc [OF e1(1) order_refl]
      put_bytes_effect [where bs = "le32 0" and e = ?e2] add_reloc_effect [where e = ?e1 and l = l and jcc = jcc]
    by (auto simp: tables_ok_def branch_exec emit32_def intro: labels_ok_mono)
qed (simp add: tables_ok_def)

interpretation tables: encoder_rel "\<lambda>e e'. tables_ok e \<longrightarrow> tables_ok e'"
proof unfold_locales
  fix e l
  show "tables_ok e \<longrightarrow> tables_ok (exec new_label e)"
    by (auto simp: tables_ok_def new_label_def labels_ok_def)
  show "tables_ok e \<longrightarrow> tables_ok (exec (bind_label l) e)"
    using set_update_subset_insert [of "labels e" "unat l"]
    by (fastforce simp: tables_ok_def bind_label_def labels_ok_def)
qed (auto simp: put_tables_ok branch_tables_ok)

section \<open>Resolved branches\<close>

lemma length_patch32 [simp]: "n + 4 \<le> length bs \<Longrightarrow> length (patch32 n w bs) = length bs"
  by (simp add: patch32_def)

lemma nth_patch32: "n + 4 \<le> length bs \<Longrightarrow> i < n \<or> n + 4 \<le> i \<Longrightarrow> i < length bs \<Longrightarrow> patch32 n w bs ! i = bs ! i"
  by (auto simp: patch32_def nth_append)

lemma field_patch32: "n + 4 \<le> length bs \<Longrightarrow> take 4 (drop n (patch32 n w bs)) = le32 w"
  by (simp add: patch32_def)

lemma field_eqI:
  assumes "length bs = length bs'" "\<And>i. n \<le> i \<Longrightarrow> i < n + 4 \<Longrightarrow> i < length bs \<Longrightarrow> bs ! i = bs' ! i"
  shows "take 4 (drop n bs) = take 4 (drop n bs')"
  using assms by (intro nth_equalityI) auto

lemma sint_of_int_range: "- (2 ^ 31) \<le> z \<Longrightarrow> z < 2 ^ 31 \<Longrightarrow> sint (word_of_int z :: i32) = z"
  by (simp add: signed_of_int signed_take_bit_int_eq_self)

text \<open>The displacement a branch needs to reach its label.\<close>

definition reloc_rel :: "EncoderLabel list \<Rightarrow> LabelReloc \<Rightarrow> int" where
  "reloc_rel ls r = sint (loffset (ls ! unat (label_id r))) - int (patch_offset r + 4)"

definition reloc_done :: "EncoderLabel list \<Rightarrow> bytes \<Rightarrow> LabelReloc \<Rightarrow> bool" where
  "reloc_done ls bs r \<longleftrightarrow> unat (label_id r) < length ls \<and> bound (ls ! unat (label_id r))
     \<and> - (2 ^ 31) \<le> reloc_rel ls r \<and> reloc_rel ls r < 2 ^ 31
     \<and> take 4 (drop (patch_offset r) bs) = le32 (word_of_int (reloc_rel ls r))"

lemma resolve_loop_ok:
  assumes "resolve_loop ls rs bs = (True, bs')" "relocs_ok rs (length bs)"
  shows "length bs' = length bs
    \<and> (\<forall>i < length bs. (\<forall>r \<in> set rs. i < patch_offset r \<or> patch_offset r + 4 \<le> i) \<longrightarrow> bs' ! i = bs ! i)
    \<and> (\<forall>r \<in> set rs. reloc_done ls bs' r)"
  using assms
proof (induction rs arbitrary: bs)
  case (Cons r rs)
  let ?b = "patch32 (patch_offset r) (word_of_int (reloc_rel ls r)) bs"
  have p: "patch_offset r + 4 \<le> length bs"
      and gap: "\<forall>s \<in> set rs. patch_offset r + 4 \<le> patch_offset s"
      and ok: "relocs_ok rs (length bs)"
    using Cons.prems(2) by (auto simp: relocs_ok_def)
  have r: "unat (label_id r) < length ls" "bound (ls ! unat (label_id r))"
      "- (2 ^ 31) \<le> reloc_rel ls r" "reloc_rel ls r < 2 ^ 31"
      and rec: "resolve_loop ls rs ?b = (True, bs')"
    using Cons.prems(1) p by (auto simp: reloc_rel_def Let_def split: if_splits)
  note IH = Cons.IH [OF rec]
  have len: "length bs' = length bs"
    using IH ok p by simp
  have keep: "bs' ! i = ?b ! i" if "i < length bs" "\<forall>s \<in> set rs. i < patch_offset s \<or> patch_offset s + 4 \<le> i" for i
    using IH ok p that by simp
  have "take 4 (drop (patch_offset r) bs') = take 4 (drop (patch_offset r) ?b)"
    using gap len p by (intro field_eqI keep) auto
  then have "reloc_done ls bs' r"
    using r p by (simp add: reloc_done_def field_patch32)
  moreover have "bs' ! i = bs ! i"
    if "i < length bs" "\<forall>s \<in> set (r # rs). i < patch_offset s \<or> patch_offset s + 4 \<le> i" for i
    using keep [of i] that nth_patch32 [OF p, of i] by simp
  ultimately show ?case
    using IH ok p by simp
qed simp

lemma reloc_done_displacement:
  assumes "reloc_done ls bs r"
  shows "sint (of_nbytes 4 (drop (patch_offset r) bs) :: i32) = reloc_rel ls r"
proof -
  let ?w = "word_of_int (reloc_rel ls r) :: i32"
  have "drop (patch_offset r) bs = le32 ?w @ drop 4 (drop (patch_offset r) bs)"
    using assms append_take_drop_id [of 4 "drop (patch_offset r) bs"]
    unfolding reloc_done_def by metis
  then have "(of_nbytes 4 (drop (patch_offset r) bs) :: i32) = ?w"
    by (metis of_nbytes_le32)
  then show ?thesis
    using assms by (simp add: reloc_done_def sint_of_int_range)
qed

lemma tables_ok_new: "tables_ok (new_encoder mm)" and in_bounds_new: "in_bounds (new_encoder mm)"
  by (simp_all add: new_encoder_def reset_def ensure_capacity_def Let_def tables_ok_def relocs_ok_def
      labels_ok_def in_bounds_def)

section \<open>Properties\<close>

text \<open>
  Claim C8. Label resolution is right: when \<open>resolve_labels\<close> accepts, the code keeps its
  length, every byte outside the displacement fields is as it was emitted, and for every branch
  the label is bound and the displacement read back from its field, added to the address of
  the next instruction, is exactly the position the label was bound to.
\<close>
theorem resolve_labels_correct:
  assumes "run_state resolve_labels e = (True, e')" "tables_ok e"
  shows "length (buf e') = length (buf e)
    \<and> (\<forall>i < length (buf e). (\<forall>r \<in> set (relocs e). i < patch_offset r \<or> patch_offset r + 4 \<le> i)
          \<longrightarrow> buf e' ! i = buf e ! i)
    \<and> (\<forall>r \<in> set (relocs e). unat (label_id r) < length (labels e)
          \<and> bound (labels e ! unat (label_id r))
          \<and> int (patch_offset r + 4) + sint (of_nbytes 4 (drop (patch_offset r) (buf e')) :: i32)
              = sint (loffset (labels e ! unat (label_id r))))"
proof -
  have f: "\<not> failed e" "resolve_loop (labels e) (relocs e) (buf e) = (True, buf e')"
    using assms(1) by (auto simp: resolve_labels_def split: if_splits prod.splits)
  then have ok: "relocs_ok (relocs e) (length (buf e))"
    using assms(2) by (simp add: tables_ok_def)
  from resolve_loop_ok [OF f(2) ok] show ?thesis
    using reloc_done_displacement by (auto simp: reloc_done_def reloc_rel_def)
qed

definition sample_enc :: AnaEncoder where
  "sample_enc = exec (do { l \<leftarrow> new_label; jmp_label l; bind_label l; ret }) (new_encoder (\<lambda>_ _. True))"

theorem resolve_labels_correct_witness:
  "int (1 + 4) + sint (of_nbytes 4 (drop 1 (buf (exec resolve_labels sample_enc))) :: i32)
     = sint (loffset (labels sample_enc ! 0))"
proof -
  let ?r = "\<lparr>label_id = 0, patch_offset = 1, is_jcc_rel32 = False\<rparr>"
  note unfold = sample_enc_def new_encoder_def reset_def ensure_capacity_def new_label_def
    jmp_label_def emit_branch_def put_bytes_def add_reloc_def emit32_def emit8_def bind_label_def
    ret_def kMaxLabels_def kMaxRelocs_def
  have "run_state resolve_labels sample_enc = (True, exec resolve_labels sample_enc)"
    by (simp add: unfold resolve_labels_def)
  moreover have "?r \<in> set (relocs sample_enc)"
    by (simp add: unfold)
  moreover have "tables_ok sample_enc"
    unfolding sample_enc_def
    by (rule tables.keepsD [rule_format, OF _ tables_ok_new])
       (intro tables.keeps_emitters tables.keeps_bind_label)
  ultimately show ?thesis
    using resolve_labels_correct [of sample_enc] by fastforce
qed

text \<open>
  Growing from an empty mapping allocates one page whatever the request: an encoder whose first
  mapping was refused, reset and then given more than a page in one call, reports success but
  has written past its buffer. No caller in the compiler passes such a block.
\<close>

lemma emit_bytes_overflow:
  "\<not> failed (exec (do { reset; emit_bytes (replicate 5000 0) }) (new_encoder (\<lambda>k n. k \<noteq> 0)))
   \<and> \<not> in_bounds (exec (do { reset; emit_bytes (replicate 5000 0) }) (new_encoder (\<lambda>k n. k \<noteq> 0)))"
  by (simp add: new_encoder_def reset_def ensure_capacity_def emit_bytes_def put_bytes_def in_bounds_def)

end
