(* ===== verification/X86.thy ===== *)
theory X86
  imports Prelude
begin

text \<open>
  A reference model of the x86-64 machine, independent of the encoder: an instruction datatype,
  a decoder of byte strings and the effect of the integer instructions on registers, byte
  memory and flags. It covers the forms the compiler emits (64-bit operands except where the
  name says otherwise) and follows the Intel manual. Registers are numbered 0 to 15 as in the
  machine encoding; a memory operand is a base register and a displacement, or relative to the
  instruction pointer. Flags an instruction leaves undefined, or that no later instruction of the
  compiler tests, are \<open>None\<close>. Floating point, control transfers and synchronising
  instructions have no straight-line effect here.
\<close>

section \<open>Instructions\<close>

datatype rm = RReg u8 | RMem u8 i32 | RRip i32

datatype aluop = A_ADD | A_OR | A_AND | A_SUB | A_XOR | A_CMP

datatype shiftop = S_SHL | S_SHR | S_SAR

datatype btop = B_BTS | B_BTR

datatype cond = C_E | C_NE | C_L | C_GE

datatype sseop = X_ADDSS | X_ADDSD | X_SUBSD | X_MULSD | X_DIVSD | X_MAXSD | X_PADDD | X_PSUBD
  | X_MOVSS | X_MOVSD | X_MOVDQU | X_MOVNTDQ

datatype xinsn =
    MOV_rm_r rm u8 | MOV_r_rm u8 rm | MOV32_r_rm u8 rm | MOV_ri64 u8 u64 | MOV_rm_i rm i32
  | ALU_rm_r aluop rm u8 | ALU_rm_i aluop rm i32 | TEST_rm_r rm u8
  | IMUL_r_rm u8 rm | IMUL_rri u8 rm i32
  | SHIFT_cl shiftop rm | SHIFT_i shiftop rm u8
  | BT_rm_r btop rm u8 | BT_rm_i btop rm u8 | POPCNT u8 rm | LZCNT u8 rm
  | MOVSXD u8 rm | CDQ | CQO | IDIV32 rm | IDIV64 rm
  | JMP i32 | JMP_rm rm | JCC cond i32 | CALL_rm rm | CALL_rel i32 | PUSH u8 | POP u8 | RET
  | LOCK_ALU aluop rm u8 | LOCK_CMPXCHG rm u8 | XCHG rm u8
  | MFENCE | SFENCE | CLFLUSH rm | PREFETCHT0 rm | LEA u8 rm
  | SSE sseop u8 rm | SSE_store sseop rm u8

section \<open>Decoding\<close>

text \<open>An optional legacy prefix, an optional REX prefix (its W, R and B bits), the opcode.\<close>

definition take_pfx :: "bytes \<Rightarrow> u8 \<times> bytes" where
  "take_pfx bs =
     (case bs of b # r \<Rightarrow> if b = 0xF0 \<or> b = 0xF2 \<or> b = 0xF3 \<or> b = 0x66 then (b, r) else (0, bs)
      | [] \<Rightarrow> (0, []))"

definition take_rex :: "bytes \<Rightarrow> (bool \<times> bool \<times> bool) \<times> bytes" where
  "take_rex bs =
     (case bs of b # r \<Rightarrow> if b AND 0xF0 = 0x40 then ((bit b 3, bit b 2, bit b 0), r)
                          else ((False, False, False), bs)
      | [] \<Rightarrow> ((False, False, False), []))"

definition ext :: "bool \<Rightarrow> u8 \<Rightarrow> u8" where
  "ext hi n = (if hi then n OR 8 else n)"

text \<open>A displacement: none, a sign-extended byte, or four bytes.\<close>

definition dec_imm8 :: "bytes \<Rightarrow> (i32 \<times> bytes) option" where
  "dec_imm8 bs = (case bs of b # r \<Rightarrow> Some (scast b, r) | [] \<Rightarrow> None)"

definition dec_imm32 :: "bytes \<Rightarrow> (i32 \<times> bytes) option" where
  "dec_imm32 bs = (if length bs < 4 then None else Some (of_nbytes 4 bs, drop 4 bs))"

definition dec_imm64 :: "bytes \<Rightarrow> (u64 \<times> bytes) option" where
  "dec_imm64 bs = (if length bs < 8 then None else Some (of_nbytes 8 bs, drop 8 bs))"

definition dec_disp :: "u8 \<Rightarrow> bytes \<Rightarrow> (i32 \<times> bytes) option" where
  "dec_disp md bs = (if md = 0 then Some (0, bs) else if md = 1 then dec_imm8 bs else dec_imm32 bs)"

text \<open>The ModRM byte, with a SIB byte that has no index register.\<close>

definition dec_modrm :: "bool \<Rightarrow> bool \<Rightarrow> bytes \<Rightarrow> (u8 \<times> rm \<times> bytes) option" where
  "dec_modrm r b bs =
     (case bs of [] \<Rightarrow> None
      | m # rest \<Rightarrow>
          (let md = drop_bit 6 m; reg = ext r (drop_bit 3 m AND 7); n = m AND 7 in
           if md = 3 then Some (reg, RReg (ext b n), rest)
           else if n = 4 then
             (case rest of [] \<Rightarrow> None
              | sib # rest' \<Rightarrow>
                  if sib = 0x24 then
                    map_option (\<lambda>(d, rest''). (reg, RMem (ext b 4) d, rest'')) (dec_disp md rest')
                  else None)
           else if md = 0 \<and> n = 5 then
             map_option (\<lambda>(d, rest'). (reg, RRip d, rest')) (dec_imm32 rest)
           else map_option (\<lambda>(d, rest'). (reg, RMem (ext b n) d, rest')) (dec_disp md rest)))"

fun alu_of :: "u8 \<Rightarrow> aluop option" where
  "alu_of n = (if n = 0 then Some A_ADD else if n = 1 then Some A_OR else if n = 4 then Some A_AND
     else if n = 5 then Some A_SUB else if n = 6 then Some A_XOR else if n = 7 then Some A_CMP
     else None)"

fun shift_of :: "u8 \<Rightarrow> shiftop option" where
  "shift_of n = (if n = 4 then Some S_SHL else if n = 5 then Some S_SHR else if n = 7 then Some S_SAR
     else None)"

fun cond_of :: "u8 \<Rightarrow> cond option" where
  "cond_of n = (if n = 0x84 then Some C_E else if n = 0x85 then Some C_NE
     else if n = 0x8C then Some C_L else if n = 0x8D then Some C_GE else None)"

definition with_rm :: "(bool \<times> bool \<times> bool) \<Rightarrow> (u8 \<Rightarrow> rm \<Rightarrow> bytes \<Rightarrow> (xinsn \<times> bytes) option)
    \<Rightarrow> bytes \<Rightarrow> (xinsn \<times> bytes) option" where
  "with_rm rex f bs =
     (case rex of (w, r, b) \<Rightarrow>
        case dec_modrm r b bs of None \<Rightarrow> None | Some (reg, x, rest) \<Rightarrow> f reg x rest)"

text \<open>The extension field of a ModRM byte is not extended by REX.R.\<close>

definition low3 :: "u8 \<Rightarrow> u8" where
  "low3 n = n AND 7"

definition dec_one :: "(bool \<times> bool \<times> bool) \<Rightarrow> u8 \<Rightarrow> bytes \<Rightarrow> (xinsn \<times> bytes) option" where
  "dec_one rex opc bs =
     (let w = fst rex; b = snd (snd rex) in
      if opc = 0x89 \<and> w then with_rm rex (\<lambda>r x rest. Some (MOV_rm_r x r, rest)) bs
      else if opc = 0x8B then with_rm rex (\<lambda>r x rest. Some (if w then MOV_r_rm r x else MOV32_r_rm r x, rest)) bs
      else if opc AND 0xF8 = 0xB8 \<and> w then
        map_option (\<lambda>(v, rest). (MOV_ri64 (ext b (opc AND 7)) v, rest)) (dec_imm64 bs)
      else if opc = 0xC7 \<and> w then
        with_rm rex (\<lambda>r x rest. if low3 r = 0 then map_option (\<lambda>(v, t). (MOV_rm_i x v, t)) (dec_imm32 rest) else None) bs
      else if opc = 0x01 \<and> w then with_rm rex (\<lambda>r x rest. Some (ALU_rm_r A_ADD x r, rest)) bs
      else if opc = 0x09 \<and> w then with_rm rex (\<lambda>r x rest. Some (ALU_rm_r A_OR x r, rest)) bs
      else if opc = 0x21 \<and> w then with_rm rex (\<lambda>r x rest. Some (ALU_rm_r A_AND x r, rest)) bs
      else if opc = 0x29 \<and> w then with_rm rex (\<lambda>r x rest. Some (ALU_rm_r A_SUB x r, rest)) bs
      else if opc = 0x31 \<and> w then with_rm rex (\<lambda>r x rest. Some (ALU_rm_r A_XOR x r, rest)) bs
      else if opc = 0x39 \<and> w then with_rm rex (\<lambda>r x rest. Some (ALU_rm_r A_CMP x r, rest)) bs
      else if opc = 0x81 \<and> w then
        with_rm rex (\<lambda>r x rest. case alu_of (low3 r) of None \<Rightarrow> None
          | Some a \<Rightarrow> map_option (\<lambda>(v, t). (ALU_rm_i a x v, t)) (dec_imm32 rest)) bs
      else if opc = 0x83 \<and> w then
        with_rm rex (\<lambda>r x rest. case alu_of (low3 r) of None \<Rightarrow> None
          | Some a \<Rightarrow> map_option (\<lambda>(v, t). (ALU_rm_i a x v, t)) (dec_imm8 rest)) bs
      else if opc = 0x85 \<and> w then with_rm rex (\<lambda>r x rest. Some (TEST_rm_r x r, rest)) bs
      else if opc = 0x69 \<and> w then
        with_rm rex (\<lambda>r x rest. map_option (\<lambda>(v, t). (IMUL_rri r x v, t)) (dec_imm32 rest)) bs
      else if opc = 0x6B \<and> w then
        with_rm rex (\<lambda>r x rest. map_option (\<lambda>(v, t). (IMUL_rri r x v, t)) (dec_imm8 rest)) bs
      else if opc = 0xD3 \<and> w then
        with_rm rex (\<lambda>r x rest. map_option (\<lambda>s. (SHIFT_cl s x, rest)) (shift_of (low3 r))) bs
      else if opc = 0xD1 \<and> w then
        with_rm rex (\<lambda>r x rest. map_option (\<lambda>s. (SHIFT_i s x 1, rest)) (shift_of (low3 r))) bs
      else if opc = 0xC1 \<and> w then
        with_rm rex (\<lambda>r x rest. case (shift_of (low3 r), rest) of
          (Some s, i # t) \<Rightarrow> Some (SHIFT_i s x i, t) | _ \<Rightarrow> None) bs
      else if opc = 0x63 \<and> w then with_rm rex (\<lambda>r x rest. Some (MOVSXD r x, rest)) bs
      else if opc = 0x99 then Some (if w then CQO else CDQ, bs)
      else if opc = 0xF7 then
        with_rm rex (\<lambda>r x rest. if low3 r = 7 then Some (if w then IDIV64 x else IDIV32 x, rest) else None) bs
      else if opc = 0xE9 then map_option (\<lambda>(d, t). (JMP d, t)) (dec_imm32 bs)
      else if opc = 0xE8 then map_option (\<lambda>(d, t). (CALL_rel d, t)) (dec_imm32 bs)
      else if opc = 0xFF then
        with_rm rex (\<lambda>r x rest. if low3 r = 2 then Some (CALL_rm x, rest)
          else if low3 r = 4 then Some (JMP_rm x, rest) else None) bs
      else if opc AND 0xF8 = 0x50 then Some (PUSH (ext b (opc AND 7)), bs)
      else if opc AND 0xF8 = 0x58 then Some (POP (ext b (opc AND 7)), bs)
      else if opc = 0xC3 then Some (RET, bs)
      else if opc = 0x87 \<and> w then with_rm rex (\<lambda>r x rest. Some (XCHG x r, rest)) bs
      else if opc = 0x8D \<and> w then with_rm rex (\<lambda>r x rest. Some (LEA r x, rest)) bs
      else None)"

definition dec_0f :: "(bool \<times> bool \<times> bool) \<Rightarrow> u8 \<Rightarrow> bytes \<Rightarrow> (xinsn \<times> bytes) option" where
  "dec_0f rex opc bs =
     (let w = fst rex in
      if opc = 0xAF \<and> w then with_rm rex (\<lambda>r x rest. Some (IMUL_r_rm r x, rest)) bs
      else if opc = 0xAB \<and> w then with_rm rex (\<lambda>r x rest. Some (BT_rm_r B_BTS x r, rest)) bs
      else if opc = 0xB3 \<and> w then with_rm rex (\<lambda>r x rest. Some (BT_rm_r B_BTR x r, rest)) bs
      else if opc = 0xBA \<and> w then
        with_rm rex (\<lambda>r x rest. case rest of [] \<Rightarrow> None
          | i # t \<Rightarrow> if low3 r = 5 then Some (BT_rm_i B_BTS x i, t)
                    else if low3 r = 6 then Some (BT_rm_i B_BTR x i, t) else None) bs
      else if opc = 0xAE then
        (case bs of [] \<Rightarrow> None
         | x # t \<Rightarrow>
             if x = 0xF0 then Some (MFENCE, t)
             else if x = 0xF8 then Some (SFENCE, t)
             else with_rm rex (\<lambda>r x rest. if low3 r = 7 then Some (CLFLUSH x, rest) else None) bs)
      else if opc = 0x18 then
        with_rm rex (\<lambda>r x rest. if low3 r = 1 then Some (PREFETCHT0 x, rest) else None) bs
      else case cond_of opc of
        Some c \<Rightarrow> map_option (\<lambda>(d, t). (JCC c d, t)) (dec_imm32 bs)
      | None \<Rightarrow> None)"

definition dec_f2_0f :: "(bool \<times> bool \<times> bool) \<Rightarrow> u8 \<Rightarrow> bytes \<Rightarrow> (xinsn \<times> bytes) option" where
  "dec_f2_0f rex opc bs =
     (if opc = 0x58 then with_rm rex (\<lambda>r x rest. Some (SSE X_ADDSD r x, rest)) bs
      else if opc = 0x5C then with_rm rex (\<lambda>r x rest. Some (SSE X_SUBSD r x, rest)) bs
      else if opc = 0x59 then with_rm rex (\<lambda>r x rest. Some (SSE X_MULSD r x, rest)) bs
      else if opc = 0x5E then with_rm rex (\<lambda>r x rest. Some (SSE X_DIVSD r x, rest)) bs
      else if opc = 0x5F then with_rm rex (\<lambda>r x rest. Some (SSE X_MAXSD r x, rest)) bs
      else if opc = 0x10 then with_rm rex (\<lambda>r x rest. Some (SSE X_MOVSD r x, rest)) bs
      else if opc = 0x11 then with_rm rex (\<lambda>r x rest. Some (SSE_store X_MOVSD x r, rest)) bs
      else None)"

definition dec_f3_0f :: "(bool \<times> bool \<times> bool) \<Rightarrow> u8 \<Rightarrow> bytes \<Rightarrow> (xinsn \<times> bytes) option" where
  "dec_f3_0f rex opc bs =
     (if opc = 0xB8 \<and> fst rex then with_rm rex (\<lambda>r x rest. Some (POPCNT r x, rest)) bs
      else if opc = 0xBD \<and> fst rex then with_rm rex (\<lambda>r x rest. Some (LZCNT r x, rest)) bs
      else if opc = 0x58 then with_rm rex (\<lambda>r x rest. Some (SSE X_ADDSS r x, rest)) bs
      else if opc = 0x10 then with_rm rex (\<lambda>r x rest. Some (SSE X_MOVSS r x, rest)) bs
      else if opc = 0x11 then with_rm rex (\<lambda>r x rest. Some (SSE_store X_MOVSS x r, rest)) bs
      else if opc = 0x6F then with_rm rex (\<lambda>r x rest. Some (SSE X_MOVDQU r x, rest)) bs
      else if opc = 0x7F then with_rm rex (\<lambda>r x rest. Some (SSE_store X_MOVDQU x r, rest)) bs
      else None)"

definition dec_66_0f :: "(bool \<times> bool \<times> bool) \<Rightarrow> u8 \<Rightarrow> bytes \<Rightarrow> (xinsn \<times> bytes) option" where
  "dec_66_0f rex opc bs =
     (if opc = 0xFE then with_rm rex (\<lambda>r x rest. Some (SSE X_PADDD r x, rest)) bs
      else if opc = 0xFA then with_rm rex (\<lambda>r x rest. Some (SSE X_PSUBD r x, rest)) bs
      else if opc = 0xE7 then with_rm rex (\<lambda>r x rest. Some (SSE_store X_MOVNTDQ x r, rest)) bs
      else None)"

text \<open>LOCK is accepted on read-modify-write instructions with a memory destination.\<close>

definition lock_insn :: "xinsn \<Rightarrow> xinsn option" where
  "lock_insn i = (case i of ALU_rm_r a (RMem b d) r \<Rightarrow> if a = A_CMP then None else Some (LOCK_ALU a (RMem b d) r)
                  | _ \<Rightarrow> None)"

definition decode :: "bytes \<Rightarrow> (xinsn \<times> bytes) option" where
  "decode bs =
     (let (p, bs1) = take_pfx bs; (rex, bs2) = take_rex bs1 in
      case bs2 of [] \<Rightarrow> None
      | opc # bs3 \<Rightarrow>
          if opc = 0x0F then
            (case bs3 of [] \<Rightarrow> None
             | opc2 # bs4 \<Rightarrow>
                 if p = 0 then dec_0f rex opc2 bs4
                 else if p = 0xF2 then dec_f2_0f rex opc2 bs4
                 else if p = 0xF3 then dec_f3_0f rex opc2 bs4
                 else if p = 0x66 then dec_66_0f rex opc2 bs4
                 else if opc2 = 0xB1 \<and> fst rex then with_rm rex (\<lambda>r x rest. Some (LOCK_CMPXCHG x r, rest)) bs4
                 else None)
          else if p = 0 then dec_one rex opc bs3
          else if p = 0xF0 then
            (case dec_one rex opc bs3 of None \<Rightarrow> None
             | Some (i, rest) \<Rightarrow> map_option (\<lambda>j. (j, rest)) (lock_insn i))
          else None)"

section \<open>Machine state and effect\<close>

record flags =
  zf :: bool
  sf :: bool
  ovf :: bool

record mstate =
  regs :: "u8 \<Rightarrow> u64"
  mem :: "u64 \<Rightarrow> u8"
  flg :: "flags option"

definition read64 :: "(u64 \<Rightarrow> u8) \<Rightarrow> u64 \<Rightarrow> u64" where
  "read64 m a = of_nbytes 8 (map (\<lambda>i. m (a + of_nat i)) [0..<8])"

definition write64 :: "(u64 \<Rightarrow> u8) \<Rightarrow> u64 \<Rightarrow> u64 \<Rightarrow> u64 \<Rightarrow> u8" where
  "write64 m a v = (\<lambda>x. if x - a < 8 then le64 v ! unat (x - a) else m x)"

definition set_reg :: "u8 \<Rightarrow> u64 \<Rightarrow> mstate \<Rightarrow> mstate" where
  "set_reg r v s = s\<lparr>regs := (regs s)(r := v)\<rparr>"

definition addr :: "u8 \<Rightarrow> i32 \<Rightarrow> mstate \<Rightarrow> u64" where
  "addr b d s = regs s b + scast d"

fun get_rm :: "rm \<Rightarrow> mstate \<Rightarrow> u64 option" where
  "get_rm (RReg r) s = Some (regs s r)"
| "get_rm (RMem b d) s = Some (read64 (mem s) (addr b d s))"
| "get_rm (RRip d) s = None"

fun set_rm :: "rm \<Rightarrow> u64 \<Rightarrow> mstate \<Rightarrow> mstate option" where
  "set_rm (RReg r) v s = Some (set_reg r v s)"
| "set_rm (RMem b d) v s = Some (s\<lparr>mem := write64 (mem s) (addr b d s) v\<rparr>)"
| "set_rm (RRip d) v s = None"

text \<open>Flags of a result, with the overflow of the signed operation.\<close>

definition logic_flags :: "u64 \<Rightarrow> flags" where
  "logic_flags r = \<lparr>zf = (r = 0), sf = bit r 63, ovf = False\<rparr>"

definition sub_flags :: "u64 \<Rightarrow> u64 \<Rightarrow> flags" where
  "sub_flags a b = \<lparr>zf = (a - b = 0), sf = bit (a - b) 63,
     ovf = (sint a - sint b \<noteq> sint (a - b))\<rparr>"

definition add_flags :: "u64 \<Rightarrow> u64 \<Rightarrow> flags" where
  "add_flags a b = \<lparr>zf = (a + b = 0), sf = bit (a + b) 63,
     ovf = (sint a + sint b \<noteq> sint (a + b))\<rparr>"

fun alu_result :: "aluop \<Rightarrow> u64 \<Rightarrow> u64 \<Rightarrow> u64" where
  "alu_result A_ADD a b = a + b"
| "alu_result A_OR a b = a OR b"
| "alu_result A_AND a b = a AND b"
| "alu_result A_SUB a b = a - b"
| "alu_result A_XOR a b = a XOR b"
| "alu_result A_CMP a b = a"

fun alu_flags :: "aluop \<Rightarrow> u64 \<Rightarrow> u64 \<Rightarrow> flags" where
  "alu_flags A_ADD a b = add_flags a b"
| "alu_flags A_SUB a b = sub_flags a b"
| "alu_flags A_CMP a b = sub_flags a b"
| "alu_flags x a b = logic_flags (alu_result x a b)"

fun shift_result :: "shiftop \<Rightarrow> nat \<Rightarrow> u64 \<Rightarrow> u64" where
  "shift_result S_SHL n a = push_bit n a"
| "shift_result S_SHR n a = drop_bit n a"
| "shift_result S_SAR n a = signed_drop_bit n a"

text \<open>Hardware masks a 64-bit shift count and a register bit index with 63.\<close>

definition count6 :: "u8 \<Rightarrow> nat" where
  "count6 c = unat (c AND 63)"

fun bt_result :: "btop \<Rightarrow> nat \<Rightarrow> u64 \<Rightarrow> u64" where
  "bt_result B_BTS n a = a OR push_bit n 1"
| "bt_result B_BTR n a = a AND NOT (push_bit n 1)"

definition lzcnt64 :: "u64 \<Rightarrow> nat" where
  "lzcnt64 v = length (takeWhile (\<lambda>i. \<not> bit v (63 - i)) [0..<64])"

definition popcnt64 :: "u64 \<Rightarrow> nat" where
  "popcnt64 v = length (filter (bit v) [0..<64])"

definition set_alu :: "rm \<Rightarrow> u64 \<Rightarrow> flags option \<Rightarrow> mstate \<Rightarrow> mstate option" where
  "set_alu x v f s = map_option (\<lambda>s'. s'\<lparr>flg := f\<rparr>) (set_rm x v s)"

text \<open>
  \<open>idiv\<close>: the dividend is RDX:RAX; a zero divisor or a quotient out of range faults
  (\<open>None\<close>).
\<close>

definition idiv64 :: "u64 \<Rightarrow> mstate \<Rightarrow> mstate option" where
  "idiv64 d s =
     (let n = sint (regs s 2) * 2 ^ 64 + uint (regs s 0); q = n sdiv sint d; r = n smod sint d in
      if d = 0 \<or> q < - (2 ^ 63) \<or> q \<ge> 2 ^ 63 then None
      else Some ((set_reg 2 (word_of_int r) (set_reg 0 (word_of_int q) s))\<lparr>flg := None\<rparr>))"

definition idiv32 :: "u32 \<Rightarrow> mstate \<Rightarrow> mstate option" where
  "idiv32 d s =
     (let n = sint (ucast (regs s 2) :: u32) * 2 ^ 32 + uint (ucast (regs s 0) :: u32);
          q = n sdiv sint d; r = n smod sint d in
      if d = 0 \<or> q < - (2 ^ 31) \<or> q \<ge> 2 ^ 31 then None
      else Some ((set_reg 2 (ucast (word_of_int r :: u32)) (set_reg 0 (ucast (word_of_int q :: u32)) s))
                   \<lparr>flg := None\<rparr>))"

definition exec_insn :: "xinsn \<Rightarrow> mstate \<Rightarrow> mstate option" where
  "exec_insn i s =
     (case i of
        MOV_rm_r x r \<Rightarrow> set_rm x (regs s r) s
      | MOV_r_rm r x \<Rightarrow> map_option (\<lambda>v. set_reg r v s) (get_rm x s)
      | MOV32_r_rm r x \<Rightarrow> map_option (\<lambda>v. set_reg r (ucast (ucast v :: u32)) s) (get_rm x s)
      | MOV_ri64 r v \<Rightarrow> Some (set_reg r v s)
      | MOV_rm_i x v \<Rightarrow> set_rm x (scast v) s
      | ALU_rm_r a x r \<Rightarrow>
          (case get_rm x s of None \<Rightarrow> None
           | Some v \<Rightarrow> set_alu x (alu_result a v (regs s r)) (Some (alu_flags a v (regs s r))) s)
      | ALU_rm_i a x imm \<Rightarrow>
          (case get_rm x s of None \<Rightarrow> None
           | Some v \<Rightarrow> set_alu x (alu_result a v (scast imm)) (Some (alu_flags a v (scast imm))) s)
      | TEST_rm_r x r \<Rightarrow>
          map_option (\<lambda>v. s\<lparr>flg := Some (logic_flags (v AND regs s r))\<rparr>) (get_rm x s)
      | IMUL_r_rm r x \<Rightarrow>
          map_option (\<lambda>v. (set_reg r (regs s r * v) s)\<lparr>flg := None\<rparr>) (get_rm x s)
      | IMUL_rri r x imm \<Rightarrow>
          map_option (\<lambda>v. (set_reg r (v * scast imm) s)\<lparr>flg := None\<rparr>) (get_rm x s)
      | SHIFT_cl o' x \<Rightarrow>
          (case get_rm x s of None \<Rightarrow> None
           | Some v \<Rightarrow> set_alu x (shift_result o' (count6 (ucast (regs s 1))) v) None s)
      | SHIFT_i o' x n \<Rightarrow>
          (case get_rm x s of None \<Rightarrow> None
           | Some v \<Rightarrow> set_alu x (shift_result o' (count6 n) v) None s)
      | BT_rm_r o' x r \<Rightarrow>
          (case x of RReg d \<Rightarrow> set_alu x (bt_result o' (count6 (ucast (regs s r))) (regs s d)) None s
           | _ \<Rightarrow> None)
      | BT_rm_i o' x n \<Rightarrow>
          (case x of RReg d \<Rightarrow> set_alu x (bt_result o' (count6 n) (regs s d)) None s | _ \<Rightarrow> None)
      | POPCNT r x \<Rightarrow> map_option (\<lambda>v. (set_reg r (of_nat (popcnt64 v)) s)\<lparr>flg := None\<rparr>) (get_rm x s)
      | LZCNT r x \<Rightarrow> map_option (\<lambda>v. (set_reg r (of_nat (lzcnt64 v)) s)\<lparr>flg := None\<rparr>) (get_rm x s)
      | MOVSXD r x \<Rightarrow> map_option (\<lambda>v. set_reg r (scast (ucast v :: u32)) s) (get_rm x s)
      | CQO \<Rightarrow> Some (set_reg 2 (if bit (regs s 0) 63 then - 1 else 0) s)
      | CDQ \<Rightarrow> Some (set_reg 2 (if bit (regs s 0) 31 then 0xFFFFFFFF else 0) s)
      | IDIV64 x \<Rightarrow> (case get_rm x s of None \<Rightarrow> None | Some v \<Rightarrow> idiv64 v s)
      | IDIV32 x \<Rightarrow> (case get_rm x s of None \<Rightarrow> None | Some v \<Rightarrow> idiv32 (ucast v) s)
      | PUSH r \<Rightarrow> Some (s\<lparr>regs := (regs s)(4 := regs s 4 - 8), mem := write64 (mem s) (regs s 4 - 8) (regs s r)\<rparr>)
      | POP r \<Rightarrow> Some (s\<lparr>regs := ((regs s)(4 := regs s 4 + 8))(r := read64 (mem s) (regs s 4))\<rparr>)
      | _ \<Rightarrow> None)"

fun exec_list :: "xinsn list \<Rightarrow> mstate \<Rightarrow> mstate option" where
  "exec_list [] s = Some s"
| "exec_list (i # is) s = (case exec_insn i s of None \<Rightarrow> None | Some s' \<Rightarrow> exec_list is s')"

text \<open>The condition of a conditional jump.\<close>

fun cond_holds :: "cond \<Rightarrow> flags \<Rightarrow> bool" where
  "cond_holds C_E f = zf f"
| "cond_holds C_NE f = (\<not> zf f)"
| "cond_holds C_L f = (sf f \<noteq> ovf f)"
| "cond_holds C_GE f = (sf f = ovf f)"

end
