(* ===== verification/Asm.thy ===== *)
theory Asm
  imports Encoder X86
begin

text \<open>
  The bytes of the encoder, read back by the decoder of the machine model. For every emitter of
  an integer, atomic, SSE or control instruction without a label, \<open>asm\<close> states which
  instruction its bytes decode to, whatever follows them and whichever registers, displacements
  and immediates are encoded. The lowering proofs work with these facts only and never look at
  bytes again.
\<close>

section \<open>Fields of the prefix and address bytes\<close>

lemma mask3: "(7 :: u8) = mask 3" and mask2: "(3 :: u8) = mask 2"
  by (simp_all add: mask_eq_exp_minus_1)

lemma modrm_fields:
  "drop_bit 6 (modrm_byte md f b) = md AND 3"
  "drop_bit 3 (modrm_byte md f b) AND 7 = f AND 7"
  "modrm_byte md f b AND 7 = b AND 7"
  unfolding modrm_byte_def mask3 mask2
  by (rule bit_eqI; auto simp: bit_simps dest: bit_imp_le_length)+

lemma rex_fields:
  "rex_byte w r x b AND 0xF0 = 0x40" "bit (rex_byte w r x b) 3 = w"
  "bit (rex_byte w r x b) 2 = (8 \<le> r)" "bit (rex_byte w r x b) 0 = (8 \<le> b)"
  by (cases w; cases "8 \<le> r"; cases "8 \<le> x"; cases "8 \<le> b"; simp add: rex_byte_def)+

lemma ext_low_all: "list_all (\<lambda>k. ext (8 \<le> (of_nat k :: u8)) (of_nat k AND 7) = of_nat k) [0..<16]"
  by code_simp

lemma ext_low: "n < 16 \<Longrightarrow> ext (8 \<le> n) (n AND 7) = n"
proof -
  assume "n < 16"
  then have "unat n < 16"
    by (simp add: word_less_nat_alt)
  then have "ext (8 \<le> (of_nat (unat n) :: u8)) (of_nat (unat n) AND 7) = of_nat (unat n)"
    using ext_low_all unfolding list_all_iff by (metis atLeastLessThan_iff atLeast_upt lessThan_iff set_upt zero_le)
  then show ?thesis
    by simp
qed

text \<open>Undoing the choice of the displacement size.\<close>

lemma scast_ucast_fits8: "fits8 d \<Longrightarrow> scast (ucast d :: u8) = d"
proof -
  assume "fits8 d"
  then have "signed_take_bit 7 (sint d) = sint d"
    by (intro signed_take_bit_int_eq_self) (auto simp: fits8_def)
  moreover have "sint (ucast d :: u8) = signed_take_bit 7 (sint d)"
    by (rule bit_eqI) (auto simp: bit_simps)
  ultimately have "word_of_int (sint (ucast d :: u8)) = (word_of_int (sint d) :: i32)"
    by simp
  then show ?thesis
    by simp
qed

lemma dec_imm8_ucast: "fits8 d \<Longrightarrow> dec_imm8 (ucast d # rest) = Some (d, rest)"
  by (simp add: dec_imm8_def scast_ucast_fits8)

lemma dec_imm32_le32: "dec_imm32 (le32 d @ rest) = Some (d, rest)"
  by (simp add: dec_imm32_def)

lemma dec_imm64_le64: "dec_imm64 (le64 d @ rest) = Some (d, rest)"
  by (simp add: dec_imm64_def)

lemma dec_modrm_reg:
  "dec_modrm hr hb (modrm_byte 3 f b # rest) = Some (ext hr (f AND 7), RReg (ext hb (b AND 7)), rest)"
  by (simp add: dec_modrm_def modrm_fields)

lemma dec_modrm_mem:
  assumes "b < 16"
  shows "dec_modrm hr (8 \<le> b) (modrm_disp_bytes f b d @ rest) = Some (ext hr (f AND 7), RMem b d, rest)"
proof -
  have b: "ext (8 \<le> b) (b AND 7) = b"
    using assms by (rule ext_low)
  then have b4: "b AND 7 = 4 \<Longrightarrow> ext (8 \<le> b) 4 = b"
    by simp
  show ?thesis
    by (auto simp: dec_modrm_def modrm_disp_bytes_def modrm_fields Let_def b b4 dec_disp_def
        dec_imm8_ucast dec_imm32_le32)
qed

section \<open>Prefixes\<close>

definition is_pfx :: "u8 \<Rightarrow> bool" where
  "is_pfx b \<longleftrightarrow> b = 0xF0 \<or> b = 0xF2 \<or> b = 0xF3 \<or> b = 0x66"

lemma rex_not_pfx: "\<not> is_pfx (rex_byte w r x b)"
  using rex_fields(1) [of w r x b] by (auto simp: is_pfx_def)

lemma take_pfx_none: "\<not> is_pfx b \<Longrightarrow> take_pfx (b # bs) = (0, b # bs)"
  by (auto simp: take_pfx_def is_pfx_def)

lemma take_pfx_rex:
  "\<not> is_pfx opc \<Longrightarrow> take_pfx (rex_bytes w r b @ opc # bs) = (0, rex_bytes w r b @ opc # bs)"
  by (simp add: rex_bytes_def take_pfx_none rex_not_pfx)

lemma take_rex_rex:
  "opc AND 0xF0 \<noteq> 0x40 \<Longrightarrow>
   take_rex (rex_bytes w r b @ opc # bs) = ((w, 8 \<le> r, 8 \<le> b), opc # bs)"
  by (simp add: take_rex_def rex_bytes_def rex_fields)

definition plain_opc :: "u8 \<Rightarrow> bool" where
  "plain_opc opc \<longleftrightarrow> \<not> is_pfx opc \<and> opc AND 0xF0 \<noteq> 0x40 \<and> opc \<noteq> 0x0F"

lemma decode_plain:
  "plain_opc opc \<Longrightarrow> decode (rex_bytes w r b @ opc # bs) = dec_one (w, 8 \<le> r, 8 \<le> b) opc bs"
  by (simp add: decode_def take_pfx_rex take_rex_rex plain_opc_def)

lemma decode_0f:
  "decode (rex_bytes w r b @ 0x0F # opc # bs) = dec_0f (w, 8 \<le> r, 8 \<le> b) opc bs"
  by (simp add: decode_def take_pfx_rex take_rex_rex is_pfx_def)

lemma decode_f2_0f:
  "decode (0xF2 # rex_bytes w r b @ 0x0F # opc # bs) = dec_f2_0f (w, 8 \<le> r, 8 \<le> b) opc bs"
  by (simp add: decode_def take_pfx_def take_rex_rex is_pfx_def)

lemma decode_f3_0f:
  "decode (0xF3 # rex_bytes w r b @ 0x0F # opc # bs) = dec_f3_0f (w, 8 \<le> r, 8 \<le> b) opc bs"
  by (simp add: decode_def take_pfx_def take_rex_rex is_pfx_def)

lemma decode_66_0f:
  "decode (0x66 # rex_bytes w r b @ 0x0F # opc # bs) = dec_66_0f (w, 8 \<le> r, 8 \<le> b) opc bs"
  by (simp add: decode_def take_pfx_def take_rex_rex is_pfx_def)

lemma decode_lock:
  "plain_opc opc \<Longrightarrow> dec_one (w, 8 \<le> r, 8 \<le> b) opc bs = Some (i, rest) \<Longrightarrow> lock_insn i = Some j \<Longrightarrow>
   decode (0xF0 # rex_bytes w r b @ opc # bs) = Some (j, rest)"
  by (simp add: decode_def take_pfx_def take_rex_rex plain_opc_def)

lemma decode_lock_cmpxchg:
  "decode (0xF0 # rex_bytes True r b @ 0x0F # 0xB1 # bs) =
   with_rm (True, 8 \<le> r, 8 \<le> b) (\<lambda>r x rest. Some (LOCK_CMPXCHG x r, rest)) bs"
  by (simp add: decode_def take_pfx_def take_rex_rex)

section \<open>Emitters as assembly\<close>

text \<open>
  \<open>asm m x is\<close>: the computation \<open>m\<close> returns \<open>x\<close> whatever the state, and the
  bytes it appends decode, in any context, to the instructions \<open>is\<close>.
\<close>

fun dec_n :: "nat \<Rightarrow> bytes \<Rightarrow> (xinsn list \<times> bytes) option" where
  "dec_n 0 bs = Some ([], bs)"
| "dec_n (Suc n) bs =
     (case decode bs of None \<Rightarrow> None
      | Some (i, r) \<Rightarrow> map_option (\<lambda>(is, r'). (i # is, r')) (dec_n n r))"

definition decodes :: "bytes \<Rightarrow> xinsn list \<Rightarrow> bool" where
  "decodes bs is \<longleftrightarrow> (\<forall>rest. dec_n (length is) (bs @ rest) = Some (is, rest))"

definition asm :: "'a emit \<Rightarrow> 'a \<Rightarrow> xinsn list \<Rightarrow> bool" where
  "asm m x is \<longleftrightarrow> (\<forall>e. fst (run_state m e) = x) \<and> (\<exists>bs. emits m bs \<and> decodes bs is)"

lemma dec_n_append:
  "dec_n (length is) bs = Some (is, r) \<Longrightarrow> dec_n n r = Some (js, r') \<Longrightarrow>
   dec_n (length is + n) bs = Some (is @ js, r')"
proof (induction "is" arbitrary: bs)
  case (Cons i "is")
  then show ?case
    by (auto split: option.splits)
qed simp

lemma decodes_append: "decodes bs is \<Longrightarrow> decodes cs js \<Longrightarrow> decodes (bs @ cs) (is @ js)"
  using dec_n_append by (fastforce simp: decodes_def)

lemma asm_ret: "asm (State_Monad.return x) x []"
  unfolding asm_def using emits_ret [of x] by (auto simp: decodes_def)

lemma asm_bind: "asm m x is \<Longrightarrow> asm (f x) y js \<Longrightarrow> asm (m \<bind> f) y (is @ js)"
  unfolding asm_def
proof (elim conjE exE)
  fix bs cs
  assume m: "\<forall>e. fst (run_state m e) = x" "emits m bs" "decodes bs is"
    and f: "\<forall>e. fst (run_state (f x) e) = y" "emits (f x) cs" "decodes cs js"
  have "fst (run_state (m \<bind> f) e) = y" for e
    using m(1) f(1) by (metis (mono_tags) State_Monad.run_state_bind case_prod_beta)
  moreover have "emits (m \<bind> f) (bs @ cs)"
    using m f by (intro emits_bind_gen) simp_all
  ultimately show "(\<forall>e. fst (run_state (m \<bind> f) e) = y) \<and> (\<exists>bs. emits (m \<bind> f) bs \<and> decodes bs (is @ js))"
    using decodes_append [OF m(3) f(3)] by blast
qed

lemma asm1I: "emits m bs \<Longrightarrow> (\<And>rest. decode (bs @ rest) = Some (i, rest)) \<Longrightarrow> asm (m :: unit emit) () [i]"
  unfolding asm_def by (auto simp: decodes_def)

lemma asm0I: "emits m [] \<Longrightarrow> asm (m :: unit emit) () []"
  unfolding asm_def by (auto simp: decodes_def)

lemma reg_num_less: "d \<noteq> NO_REG \<Longrightarrow> reg_num d < 16"
  by (cases d) simp_all

lemma reg_num_inj: "reg_num a = reg_num b \<longleftrightarrow> a = b"
  by (cases a; cases b) simp_all

lemmas dec_rm = with_rm_def dec_modrm_reg dec_modrm_mem ext_low reg_num_less low3_def ext_def [of False]

lemmas dec_plain = decode_plain plain_opc_def is_pfx_def dec_one_def dec_rm dec_imm8_ucast
  dec_imm32_le32 dec_imm64_le64

lemma asm_mov_reg_reg:
  assumes "d \<noteq> NO_REG" "s \<noteq> NO_REG"
  shows "asm (mov_reg_reg d s) () (if d = s then [] else [MOV_rm_r (RReg (reg_num d)) (reg_num s)])"
proof (cases "d = s")
  case True
  then show ?thesis
    by (simp add: mov_reg_reg_def asm_ret)
next
  case False
  then have e: "mov_reg_reg d s = do {
      emit_rex True (reg_num s) 0 (reg_num d);
      emit8 0x89;
      emit_modrm 3 (reg_num s) (reg_num d)
    }"
    by (simp add: mov_reg_reg_def)
  show ?thesis
    unfolding e using assms False
    by (simp only: if_False, intro asm1I) (rule emits_rules | simp add: dec_plain)+
qed

text \<open>The XMM emitters test the register numbers before asking for a REX prefix.\<close>

lemma xmm_rex:
  "(if 8 \<le> i \<or> 8 \<le> j then emit_rex False i 0 j else skip_emit) = emit_rex False i 0 j"
  by (auto simp: emit_rex_def)

lemma modrm_disp_low: "modrm_disp_bytes (f AND 7) (b AND 7) d = modrm_disp_bytes f b d"
  by (simp add: modrm_disp_bytes_def modrm_byte_def and.assoc)

lemma low_mem:
  "b \<noteq> NO_REG \<Longrightarrow> dec_modrm hr (8 \<le> reg_num b) (modrm_disp_bytes (f AND 7) (reg_num b AND 7) d @ rest)
     = Some (ext hr (f AND 7), RMem (reg_num b) d, rest)"
  by (simp add: modrm_disp_low dec_modrm_mem reg_num_less)

lemma asm_mov_reg_mem:
  assumes "d \<noteq> NO_REG" "b \<noteq> NO_REG"
  shows "asm (mov_reg_mem d b w) () [MOV_r_rm (reg_num d) (RMem (reg_num b) w)]"
  unfolding mov_reg_mem_def using assms
  by (intro asm1I) (rule emits_rules | simp add: dec_plain)+

lemma asm_mov_mem_reg:
  assumes "b \<noteq> NO_REG" "s \<noteq> NO_REG"
  shows "asm (mov_mem_reg b w s) () [MOV_rm_r (RMem (reg_num b) w) (reg_num s)]"
  unfolding mov_mem_reg_def using assms
  by (intro asm1I) (rule emits_rules | simp add: dec_plain)+

lemma asm_mov_reg_imm32:
  assumes "d \<noteq> NO_REG"
  shows "asm (mov_reg_imm32 d w) () [MOV_rm_i (RReg (reg_num d)) w]"
  unfolding mov_reg_imm32_def using assms
  by (intro asm1I) (rule emits_rules | simp add: dec_plain)+

lemma asm_add_reg_reg:
  assumes "d \<noteq> NO_REG" "s \<noteq> NO_REG"
  shows "asm (add_reg_reg d s) () [ALU_rm_r A_ADD (RReg (reg_num d)) (reg_num s)]"
  unfolding add_reg_reg_def using assms
  by (intro asm1I) (rule emits_rules | simp add: dec_plain)+

lemma asm_add_reg_imm32:
  assumes "d \<noteq> NO_REG"
  shows "asm (add_reg_imm32 d w) () [ALU_rm_i A_ADD (RReg (reg_num d)) w]"
proof (cases "fits8 w")
  case True
  then show ?thesis
    unfolding add_reg_imm32_def using assms
    by (intro asm1I) (rule emits_rules | simp add: dec_plain)+
next
  case False
  then show ?thesis
    unfolding add_reg_imm32_def using assms
    by (intro asm1I) (rule emits_rules | simp add: dec_plain)+
qed

lemma asm_sub_reg_reg:
  assumes "d \<noteq> NO_REG" "s \<noteq> NO_REG"
  shows "asm (sub_reg_reg d s) () [ALU_rm_r A_SUB (RReg (reg_num d)) (reg_num s)]"
  unfolding sub_reg_reg_def using assms
  by (intro asm1I) (rule emits_rules | simp add: dec_plain)+

lemma asm_sub_reg_imm32:
  assumes "d \<noteq> NO_REG"
  shows "asm (sub_reg_imm32 d w) () [ALU_rm_i A_SUB (RReg (reg_num d)) w]"
proof (cases "fits8 w")
  case True
  then show ?thesis
    unfolding sub_reg_imm32_def using assms
    by (intro asm1I) (rule emits_rules | simp add: dec_plain)+
next
  case False
  then show ?thesis
    unfolding sub_reg_imm32_def using assms
    by (intro asm1I) (rule emits_rules | simp add: dec_plain)+
qed

lemma asm_and_reg_reg:
  assumes "d \<noteq> NO_REG" "s \<noteq> NO_REG"
  shows "asm (and_reg_reg d s) () [ALU_rm_r A_AND (RReg (reg_num d)) (reg_num s)]"
  unfolding and_reg_reg_def using assms
  by (intro asm1I) (rule emits_rules | simp add: dec_plain)+

lemma asm_and_reg_imm32:
  assumes "d \<noteq> NO_REG"
  shows "asm (and_reg_imm32 d w) () [ALU_rm_i A_AND (RReg (reg_num d)) w]"
proof (cases "fits8 w")
  case True
  then show ?thesis
    unfolding and_reg_imm32_def using assms
    by (intro asm1I) (rule emits_rules | simp add: dec_plain)+
next
  case False
  then show ?thesis
    unfolding and_reg_imm32_def using assms
    by (intro asm1I) (rule emits_rules | simp add: dec_plain)+
qed

lemma asm_or_reg_reg:
  assumes "d \<noteq> NO_REG" "s \<noteq> NO_REG"
  shows "asm (or_reg_reg d s) () [ALU_rm_r A_OR (RReg (reg_num d)) (reg_num s)]"
  unfolding or_reg_reg_def using assms
  by (intro asm1I) (rule emits_rules | simp add: dec_plain)+

lemma asm_or_reg_imm32:
  assumes "d \<noteq> NO_REG"
  shows "asm (or_reg_imm32 d w) () [ALU_rm_i A_OR (RReg (reg_num d)) w]"
proof (cases "fits8 w")
  case True
  then show ?thesis
    unfolding or_reg_imm32_def using assms
    by (intro asm1I) (rule emits_rules | simp add: dec_plain)+
next
  case False
  then show ?thesis
    unfolding or_reg_imm32_def using assms
    by (intro asm1I) (rule emits_rules | simp add: dec_plain)+
qed

lemma asm_xor_reg_reg:
  assumes "d \<noteq> NO_REG" "s \<noteq> NO_REG"
  shows "asm (xor_reg_reg d s) () [ALU_rm_r A_XOR (RReg (reg_num d)) (reg_num s)]"
  unfolding xor_reg_reg_def using assms
  by (intro asm1I) (rule emits_rules | simp add: dec_plain)+

lemma asm_xor_reg_imm32:
  assumes "d \<noteq> NO_REG"
  shows "asm (xor_reg_imm32 d w) () [ALU_rm_i A_XOR (RReg (reg_num d)) w]"
proof (cases "fits8 w")
  case True
  then show ?thesis
    unfolding xor_reg_imm32_def using assms
    by (intro asm1I) (rule emits_rules | simp add: dec_plain)+
next
  case False
  then show ?thesis
    unfolding xor_reg_imm32_def using assms
    by (intro asm1I) (rule emits_rules | simp add: dec_plain)+
qed

lemma asm_cmp_reg_reg:
  assumes "d \<noteq> NO_REG" "s \<noteq> NO_REG"
  shows "asm (cmp_reg_reg d s) () [ALU_rm_r A_CMP (RReg (reg_num d)) (reg_num s)]"
  unfolding cmp_reg_reg_def using assms
  by (intro asm1I) (rule emits_rules | simp add: dec_plain)+

lemma asm_cmp_reg_imm32:
  assumes "d \<noteq> NO_REG"
  shows "asm (cmp_reg_imm32 d w) () [ALU_rm_i A_CMP (RReg (reg_num d)) w]"
proof (cases "fits8 w")
  case True
  then show ?thesis
    unfolding cmp_reg_imm32_def using assms
    by (intro asm1I) (rule emits_rules | simp add: dec_plain)+
next
  case False
  then show ?thesis
    unfolding cmp_reg_imm32_def using assms
    by (intro asm1I) (rule emits_rules | simp add: dec_plain)+
qed

lemma asm_add_mem_reg:
  assumes "b \<noteq> NO_REG" "s \<noteq> NO_REG"
  shows "asm (add_mem_reg b w s) () [ALU_rm_r A_ADD (RMem (reg_num b) w) (reg_num s)]"
  unfolding add_mem_reg_def using assms
  by (intro asm1I) (rule emits_rules | simp add: dec_plain)+

lemma asm_test_reg_reg:
  assumes "d \<noteq> NO_REG" "s \<noteq> NO_REG"
  shows "asm (test_reg_reg d s) () [TEST_rm_r (RReg (reg_num d)) (reg_num s)]"
  unfolding test_reg_reg_def using assms
  by (intro asm1I) (rule emits_rules | simp add: dec_plain)+

lemma asm_imul_reg_reg:
  assumes "d \<noteq> NO_REG" "s \<noteq> NO_REG"
  shows "asm (imul_reg_reg d s) () [IMUL_r_rm (reg_num d) (RReg (reg_num s))]"
  unfolding imul_reg_reg_def using assms
  by (intro asm1I) (rule emits_rules | simp add: decode_0f dec_0f_def dec_rm)+

lemma asm_imul_reg_imm32:
  assumes "d \<noteq> NO_REG" "s \<noteq> NO_REG"
  shows "asm (imul_reg_imm32 d s w) () [IMUL_rri (reg_num d) (RReg (reg_num s)) w]"
proof (cases "fits8 w")
  case True
  then show ?thesis
    unfolding imul_reg_imm32_def using assms
    by (intro asm1I) (rule emits_rules | simp add: dec_plain)+
next
  case False
  then show ?thesis
    unfolding imul_reg_imm32_def using assms
    by (intro asm1I) (rule emits_rules | simp add: dec_plain)+
qed

lemma asm_shl_reg_cl:
  assumes "d \<noteq> NO_REG"
  shows "asm (shl_reg_cl d) () [SHIFT_cl S_SHL (RReg (reg_num d))]"
  unfolding shl_reg_cl_def using assms
  by (intro asm1I) (rule emits_rules | simp add: dec_plain)+

lemma asm_shl_reg_imm8:
  assumes "d \<noteq> NO_REG"
  shows "asm (shl_reg_imm8 d i) () [SHIFT_i S_SHL (RReg (reg_num d)) i]"
proof (cases "i = 1")
  case True
  then show ?thesis
    unfolding shl_reg_imm8_def using assms
    by (intro asm1I) (rule emits_rules | simp add: dec_plain)+
next
  case False
  then show ?thesis
    unfolding shl_reg_imm8_def using assms
    by (intro asm1I) (rule emits_rules | simp add: dec_plain)+
qed

lemma asm_sar_reg_cl:
  assumes "d \<noteq> NO_REG"
  shows "asm (sar_reg_cl d) () [SHIFT_cl S_SAR (RReg (reg_num d))]"
  unfolding sar_reg_cl_def using assms
  by (intro asm1I) (rule emits_rules | simp add: dec_plain)+

lemma asm_sar_reg_imm8:
  assumes "d \<noteq> NO_REG"
  shows "asm (sar_reg_imm8 d i) () [SHIFT_i S_SAR (RReg (reg_num d)) i]"
proof (cases "i = 1")
  case True
  then show ?thesis
    unfolding sar_reg_imm8_def using assms
    by (intro asm1I) (rule emits_rules | simp add: dec_plain)+
next
  case False
  then show ?thesis
    unfolding sar_reg_imm8_def using assms
    by (intro asm1I) (rule emits_rules | simp add: dec_plain)+
qed

lemma asm_shr_reg_cl:
  assumes "d \<noteq> NO_REG"
  shows "asm (shr_reg_cl d) () [SHIFT_cl S_SHR (RReg (reg_num d))]"
  unfolding shr_reg_cl_def using assms
  by (intro asm1I) (rule emits_rules | simp add: dec_plain)+

lemma asm_shr_reg_imm8:
  assumes "d \<noteq> NO_REG"
  shows "asm (shr_reg_imm8 d i) () [SHIFT_i S_SHR (RReg (reg_num d)) i]"
proof (cases "i = 1")
  case True
  then show ?thesis
    unfolding shr_reg_imm8_def using assms
    by (intro asm1I) (rule emits_rules | simp add: dec_plain)+
next
  case False
  then show ?thesis
    unfolding shr_reg_imm8_def using assms
    by (intro asm1I) (rule emits_rules | simp add: dec_plain)+
qed

lemma asm_bts_reg_reg:
  assumes "d \<noteq> NO_REG" "s \<noteq> NO_REG"
  shows "asm (bts_reg_reg d s) () [BT_rm_r B_BTS (RReg (reg_num d)) (reg_num s)]"
  unfolding bts_reg_reg_def using assms
  by (intro asm1I) (rule emits_rules | simp add: decode_0f dec_0f_def dec_rm)+

lemma asm_bts_reg_imm8:
  assumes "d \<noteq> NO_REG"
  shows "asm (bts_reg_imm8 d i) () [BT_rm_i B_BTS (RReg (reg_num d)) i]"
  unfolding bts_reg_imm8_def using assms
  by (intro asm1I) (rule emits_rules | simp add: decode_0f dec_0f_def dec_rm)+

lemma asm_btr_reg_reg:
  assumes "d \<noteq> NO_REG" "s \<noteq> NO_REG"
  shows "asm (btr_reg_reg d s) () [BT_rm_r B_BTR (RReg (reg_num d)) (reg_num s)]"
  unfolding btr_reg_reg_def using assms
  by (intro asm1I) (rule emits_rules | simp add: decode_0f dec_0f_def dec_rm)+

lemma asm_btr_reg_imm8:
  assumes "d \<noteq> NO_REG"
  shows "asm (btr_reg_imm8 d i) () [BT_rm_i B_BTR (RReg (reg_num d)) i]"
  unfolding btr_reg_imm8_def using assms
  by (intro asm1I) (rule emits_rules | simp add: decode_0f dec_0f_def dec_rm)+

lemma asm_popcnt_reg_reg:
  assumes "d \<noteq> NO_REG" "s \<noteq> NO_REG"
  shows "asm (popcnt_reg_reg d s) () [POPCNT (reg_num d) (RReg (reg_num s))]"
  unfolding popcnt_reg_reg_def using assms
  by (intro asm1I) (rule emits_rules | simp add: decode_f3_0f dec_f3_0f_def dec_rm)+

lemma asm_lzcnt_reg_reg:
  assumes "d \<noteq> NO_REG" "s \<noteq> NO_REG"
  shows "asm (lzcnt_reg_reg d s) () [LZCNT (reg_num d) (RReg (reg_num s))]"
  unfolding lzcnt_reg_reg_def using assms
  by (intro asm1I) (rule emits_rules | simp add: decode_f3_0f dec_f3_0f_def dec_rm)+

lemma asm_movsxd_reg_reg:
  assumes "d \<noteq> NO_REG" "s \<noteq> NO_REG"
  shows "asm (movsxd_reg_reg d s) () [MOVSXD (reg_num d) (RReg (reg_num s))]"
  unfolding movsxd_reg_reg_def using assms
  by (intro asm1I) (rule emits_rules | simp add: dec_plain)+

lemma asm_movzxd_reg_reg:
  assumes "d \<noteq> NO_REG" "s \<noteq> NO_REG"
  shows "asm (movzxd_reg_reg d s) () [MOV32_r_rm (reg_num d) (RReg (reg_num s))]"
  unfolding movzxd_reg_reg_def using assms
  by (intro asm1I) (rule emits_rules | simp add: dec_plain)+

lemma asm_idiv_reg:
  assumes "s \<noteq> NO_REG"
  shows "asm (idiv_reg s) () [IDIV64 (RReg (reg_num s))]"
  unfolding idiv_reg_def using assms
  by (intro asm1I) (rule emits_rules | simp add: dec_plain)+

lemma asm_idiv_reg32:
  assumes "s \<noteq> NO_REG"
  shows "asm (idiv_reg32 s) () [IDIV32 (RReg (reg_num s))]"
  unfolding idiv_reg32_def using assms
  by (intro asm1I) (rule emits_rules | simp add: dec_plain)+

lemma asm_call_reg:
  assumes "s \<noteq> NO_REG"
  shows "asm (call_reg s) () [CALL_rm (RReg (reg_num s))]"
  unfolding call_reg_def using assms
  by (intro asm1I) (rule emits_rules | simp add: dec_plain)+

lemma asm_lock_cmpxchg:
  assumes "b \<noteq> NO_REG" "s \<noteq> NO_REG"
  shows "asm (lock_cmpxchg_mem_reg b w s) () [LOCK_CMPXCHG (RMem (reg_num b) w) (reg_num s)]"
  unfolding lock_cmpxchg_mem_reg_def using assms
  by (intro asm1I) (rule emits_rules | simp add: decode_lock_cmpxchg dec_rm)+

lemma asm_xchg_mem_reg:
  assumes "b \<noteq> NO_REG" "s \<noteq> NO_REG"
  shows "asm (xchg_mem_reg b w s) () [XCHG (RMem (reg_num b) w) (reg_num s)]"
  unfolding xchg_mem_reg_def using assms
  by (intro asm1I) (rule emits_rules | simp add: dec_plain)+

lemma asm_lock_add_mem_reg:
  assumes "b \<noteq> NO_REG" "s \<noteq> NO_REG"
  shows "asm (lock_add_mem_reg b w s) () [LOCK_ALU A_ADD (RMem (reg_num b) w) (reg_num s)]"
  unfolding lock_add_mem_reg_def using assms
  by (intro asm1I) (rule emits_rules | simp add: decode_lock [where w = True] dec_plain lock_insn_def)+

lemma asm_lock_and_mem_reg:
  assumes "b \<noteq> NO_REG" "s \<noteq> NO_REG"
  shows "asm (lock_and_mem_reg b w s) () [LOCK_ALU A_AND (RMem (reg_num b) w) (reg_num s)]"
  unfolding lock_and_mem_reg_def using assms
  by (intro asm1I) (rule emits_rules | simp add: decode_lock [where w = True] dec_plain lock_insn_def)+

lemma asm_lock_or_mem_reg:
  assumes "b \<noteq> NO_REG" "s \<noteq> NO_REG"
  shows "asm (lock_or_mem_reg b w s) () [LOCK_ALU A_OR (RMem (reg_num b) w) (reg_num s)]"
  unfolding lock_or_mem_reg_def using assms
  by (intro asm1I) (rule emits_rules | simp add: decode_lock [where w = True] dec_plain lock_insn_def)+

text \<open>An address form of CLFLUSH never looks like one of the fences.\<close>

lemma modrm_disp_head:
  obtains h t where "modrm_disp_bytes f b d = h # t" "h \<noteq> 0xF0" "h \<noteq> 0xF8"
proof -
  have "drop_bit 6 (hd (modrm_disp_bytes f b d)) \<noteq> 3"
    by (simp add: modrm_disp_bytes_def Let_def modrm_fields)
  moreover have "drop_bit 6 (0xF0 :: u8) = 3" "drop_bit 6 (0xF8 :: u8) = 3"
    by (simp_all add: drop_bit_eq_div)
  moreover have "modrm_disp_bytes f b d = hd (modrm_disp_bytes f b d) # tl (modrm_disp_bytes f b d)"
    by (simp add: modrm_disp_bytes_def Let_def)
  ultimately show ?thesis
    using that by metis
qed

lemma asm_clflush:
  assumes "b \<noteq> NO_REG"
  shows "asm (clflush b w) () [CLFLUSH (RMem (reg_num b) w)]"
proof (rule asm1I)
  show "emits (clflush b w) (rex_bytes False 0 (reg_num b) @ [0x0F] @ [0xAE] @ modrm_disp_bytes 7 (reg_num b) w)"
    unfolding clflush_def by (intro emits_rules)
  obtain h t where h: "modrm_disp_bytes 7 (reg_num b) w = h # t" "h \<noteq> 0xF0" "h \<noteq> 0xF8"
    by (rule modrm_disp_head)
  fix rest
  have "dec_modrm False (8 \<le> reg_num b) (h # t @ rest) = Some (7, RMem (reg_num b) w, rest)"
    using dec_modrm_mem [of "reg_num b" False 7 w rest] assms by (simp add: h reg_num_less ext_def)
  then show "decode ((rex_bytes False 0 (reg_num b) @ [0x0F] @ [0xAE] @ modrm_disp_bytes 7 (reg_num b) w) @ rest)
      = Some (CLFLUSH (RMem (reg_num b) w), rest)"
    using h by (simp add: decode_0f dec_0f_def with_rm_def low3_def)
qed

lemma asm_addsd:
  assumes "i < 16" "j < 16"
  shows "asm (addsd_xmm_xmm i j) () [SSE X_ADDSD i (RReg j)]"
  unfolding addsd_xmm_xmm_def xmm_rex using assms
  by (intro asm1I) (rule emits_rules | simp add: decode_f2_0f dec_f2_0f_def dec_rm)+

lemma asm_subsd:
  assumes "i < 16" "j < 16"
  shows "asm (subsd_xmm_xmm i j) () [SSE X_SUBSD i (RReg j)]"
  unfolding subsd_xmm_xmm_def xmm_rex using assms
  by (intro asm1I) (rule emits_rules | simp add: decode_f2_0f dec_f2_0f_def dec_rm)+

lemma asm_mulsd_is_divsd:
  assumes "i < 16" "j < 16"
  shows "asm (mulsd_xmm_xmm i j) () [SSE X_DIVSD i (RReg j)]"
  unfolding mulsd_xmm_xmm_def xmm_rex using assms
  by (intro asm1I) (rule emits_rules | simp add: decode_f2_0f dec_f2_0f_def dec_rm)+

lemma asm_divsd_is_maxsd:
  assumes "i < 16" "j < 16"
  shows "asm (divsd_xmm_xmm i j) () [SSE X_MAXSD i (RReg j)]"
  unfolding divsd_xmm_xmm_def xmm_rex using assms
  by (intro asm1I) (rule emits_rules | simp add: decode_f2_0f dec_f2_0f_def dec_rm)+

lemma asm_addss:
  assumes "i < 16" "j < 16"
  shows "asm (addss_xmm_xmm i j) () [SSE X_ADDSS i (RReg j)]"
  unfolding addss_xmm_xmm_def xmm_rex using assms
  by (intro asm1I) (rule emits_rules | simp add: decode_f3_0f dec_f3_0f_def dec_rm)+

lemma asm_paddd:
  assumes "i < 16" "j < 16"
  shows "asm (paddd_xmm_xmm i j) () [SSE X_PADDD i (RReg j)]"
  unfolding paddd_xmm_xmm_def xmm_rex using assms
  by (intro asm1I) (rule emits_rules | simp add: decode_66_0f dec_66_0f_def dec_rm)+

lemma asm_psubd:
  assumes "i < 16" "j < 16"
  shows "asm (psubd_xmm_xmm i j) () [SSE X_PSUBD i (RReg j)]"
  unfolding psubd_xmm_xmm_def xmm_rex using assms
  by (intro asm1I) (rule emits_rules | simp add: decode_66_0f dec_66_0f_def dec_rm)+

lemma asm_movss_load:
  assumes "i < 16" "b \<noteq> NO_REG"
  shows "asm (movss_xmm_mem i b w) () [SSE X_MOVSS i (RMem (reg_num b) w)]"
  unfolding movss_xmm_mem_def xmm_rex using assms
  by (intro asm1I) (rule emits_rules | simp add: decode_f3_0f dec_f3_0f_def dec_rm low_mem)+

lemma asm_movss_store:
  assumes "i < 16" "b \<noteq> NO_REG"
  shows "asm (movss_mem_xmm b w i) () [SSE_store X_MOVSS (RMem (reg_num b) w) i]"
  unfolding movss_mem_xmm_def xmm_rex using assms
  by (intro asm1I) (rule emits_rules | simp add: decode_f3_0f dec_f3_0f_def dec_rm low_mem)+

lemma asm_movsd_load:
  assumes "i < 16" "b \<noteq> NO_REG"
  shows "asm (movsd_xmm_mem i b w) () [SSE X_MOVSD i (RMem (reg_num b) w)]"
  unfolding movsd_xmm_mem_def xmm_rex using assms
  by (intro asm1I) (rule emits_rules | simp add: decode_f2_0f dec_f2_0f_def dec_rm low_mem)+

lemma asm_movsd_store:
  assumes "i < 16" "b \<noteq> NO_REG"
  shows "asm (movsd_mem_xmm b w i) () [SSE_store X_MOVSD (RMem (reg_num b) w) i]"
  unfolding movsd_mem_xmm_def xmm_rex using assms
  by (intro asm1I) (rule emits_rules | simp add: decode_f2_0f dec_f2_0f_def dec_rm low_mem)+

lemma asm_movdqu_load:
  assumes "i < 16" "b \<noteq> NO_REG"
  shows "asm (movdqu_xmm_mem i b w) () [SSE X_MOVDQU i (RMem (reg_num b) w)]"
  unfolding movdqu_xmm_mem_def xmm_rex using assms
  by (intro asm1I) (rule emits_rules | simp add: decode_f3_0f dec_f3_0f_def dec_rm low_mem)+

lemma asm_movdqu_store:
  assumes "i < 16" "b \<noteq> NO_REG"
  shows "asm (movdqu_mem_xmm b w i) () [SSE_store X_MOVDQU (RMem (reg_num b) w) i]"
  unfolding movdqu_mem_xmm_def xmm_rex using assms
  by (intro asm1I) (rule emits_rules | simp add: decode_f3_0f dec_f3_0f_def dec_rm low_mem)+

lemma asm_movntdq_store:
  assumes "i < 16" "b \<noteq> NO_REG"
  shows "asm (movntdq_mem_xmm b w i) () [SSE_store X_MOVNTDQ (RMem (reg_num b) w) i]"
  unfolding movntdq_mem_xmm_def xmm_rex using assms
  by (intro asm1I) (rule emits_rules | simp add: decode_66_0f dec_66_0f_def dec_rm low_mem)+

lemma not_8_le_1: "\<not> (8 :: u8) \<le> 1"
  by (simp add: word_le_nat_alt)

lemma asm_prefetcht0:
  assumes "b \<noteq> NO_REG"
  shows "asm (prefetcht0 b w) () [PREFETCHT0 (RMem (reg_num b) w)]"
proof -
  have e: "prefetcht0 b w = do {
      emit_rex False 1 0 (reg_num b); emit8 0x0F; emit8 0x18;
      emit_modrm_disp 1 (reg_num b AND 7) w }"
    by (simp add: prefetcht0_def emit_rex_def not_8_le_1)
  show ?thesis
    unfolding e using assms modrm_disp_low [of 1 "reg_num b" w]
    by (intro asm1I) (rule emits_rules | simp add: decode_0f dec_0f_def dec_rm not_8_le_1)+
qed

lemma asm_lea:
  assumes "d \<noteq> NO_REG"
  shows "asm (lea_reg_rip_disp32 d w) () [LEA (reg_num d) (RRip w)]"
  unfolding lea_reg_rip_disp32_def using assms
  by (intro asm1I) (rule emits_rules | simp add: dec_plain dec_modrm_def modrm_fields)+

text \<open>Opcodes that carry the low bits of a register.\<close>

lemma opc_reg:
  assumes "d \<noteq> NO_REG"
  shows "(0xB8 + (reg_num d AND 7)) AND 0xF8 = 0xB8" "(0xB8 + (reg_num d AND 7)) AND 7 = reg_num d AND 7"
    "(0x50 + (reg_num d AND 7)) AND 0xF8 = 0x50" "(0x50 + (reg_num d AND 7)) AND 7 = reg_num d AND 7"
    "(0x58 + (reg_num d AND 7)) AND 0xF8 = 0x58" "(0x58 + (reg_num d AND 7)) AND 7 = reg_num d AND 7"
  using assms by (cases d; simp)+

lemma plain_opc_reg:
  assumes "opc AND 0xF8 = c" "c = 0xB8 \<or> c = 0x50 \<or> c = 0x58"
  shows "plain_opc opc"
proof -
  have "opc AND 0xF0 = (opc AND 0xF8) AND 0xF0"
    by (simp add: and.assoc)
  then show ?thesis
    using assms by (auto simp: plain_opc_def is_pfx_def)
qed

lemma dec_one_reg:
  "opc AND 0xF8 = 0xB8 \<Longrightarrow> dec_one (True, r, b) opc bs =
     map_option (\<lambda>(v, rest). (MOV_ri64 (ext b (opc AND 7)) v, rest)) (dec_imm64 bs)"
  "opc AND 0xF8 = 0x50 \<Longrightarrow> dec_one (False, r, b) opc bs = Some (PUSH (ext b (opc AND 7)), bs)"
  "opc AND 0xF8 = 0x58 \<Longrightarrow> dec_one (False, r, b) opc bs = Some (POP (ext b (opc AND 7)), bs)"
  by (auto simp: dec_one_def)

lemma asm_mov_reg_imm64:
  assumes "d \<noteq> NO_REG"
  shows "asm (mov_reg_imm64 d v) () [MOV_ri64 (reg_num d) v]"
  unfolding mov_reg_imm64_def using assms
  by (intro asm1I) (rule emits_rules
    | simp add: decode_plain plain_opc_reg opc_reg dec_one_reg dec_imm64_le64 ext_low reg_num_less)+

lemma push_pop_rex:
  "push_reg d = do { emit_rex False 0 0 (reg_num d); emit8 (0x50 + (reg_num d AND 7)) }"
  "pop_reg d = do { emit_rex False 0 0 (reg_num d); emit8 (0x58 + (reg_num d AND 7)) }"
  by (simp_all add: push_reg_def pop_reg_def emit_rex_def rex_byte_def)

lemma asm_push_reg:
  assumes "d \<noteq> NO_REG"
  shows "asm (push_reg d) () [PUSH (reg_num d)]"
  unfolding push_pop_rex using assms
  by (intro asm1I) (rule emits_rules
    | simp add: decode_plain plain_opc_reg opc_reg dec_one_reg ext_low reg_num_less)+

lemma asm_pop_reg:
  assumes "d \<noteq> NO_REG"
  shows "asm (pop_reg d) () [POP (reg_num d)]"
  unfolding push_pop_rex using assms
  by (intro asm1I) (rule emits_rules
    | simp add: decode_plain plain_opc_reg opc_reg dec_one_reg ext_low reg_num_less)+

lemma rex_bytes_none: "rex_bytes False 0 0 = []"
  by (simp add: rex_bytes_def)

lemmas decode_bare = decode_plain [of _ False 0 0, unfolded rex_bytes_none append_Nil]
  decode_0f [of False 0 0, unfolded rex_bytes_none append_Nil]

lemma asm_bare:
  "asm ret () [RET]" "asm cdq () [CDQ]" "asm mfence () [MFENCE]" "asm sfence () [SFENCE]"
  "asm (call_rel32_disp w) () [CALL_rel w]"
  unfolding ret_def cdq_def mfence_def sfence_def call_rel32_disp_def
  by (rule asm1I, (rule emits_rules)+, simp add: decode_bare dec_plain dec_0f_def)+

lemma asm_cqo: "asm cqo () [CQO]"
proof -
  have e: "cqo = do { emit_rex True 0 0 0; emit8 0x99 }"
    by (simp add: cqo_def emit_rex_def rex_byte_def)
  show ?thesis
    unfolding e by (intro asm1I) (rule emits_rules | simp add: dec_plain)+
qed

lemmas asm_rules = asm_mov_reg_reg asm_mov_reg_mem asm_mov_mem_reg asm_mov_reg_imm32 asm_add_reg_reg
  asm_add_reg_imm32 asm_sub_reg_reg asm_sub_reg_imm32 asm_and_reg_reg asm_and_reg_imm32
  asm_or_reg_reg asm_or_reg_imm32 asm_xor_reg_reg asm_xor_reg_imm32 asm_cmp_reg_reg
  asm_cmp_reg_imm32 asm_add_mem_reg asm_test_reg_reg asm_imul_reg_reg asm_imul_reg_imm32
  asm_shl_reg_cl asm_shl_reg_imm8 asm_sar_reg_cl asm_sar_reg_imm8 asm_shr_reg_cl
  asm_shr_reg_imm8 asm_bts_reg_reg asm_bts_reg_imm8 asm_btr_reg_reg asm_btr_reg_imm8
  asm_popcnt_reg_reg asm_lzcnt_reg_reg asm_movsxd_reg_reg asm_movzxd_reg_reg asm_idiv_reg
  asm_idiv_reg32 asm_call_reg asm_lock_cmpxchg asm_xchg_mem_reg asm_lock_add_mem_reg
  asm_lock_and_mem_reg asm_lock_or_mem_reg asm_clflush asm_addsd asm_subsd
  asm_mulsd_is_divsd asm_divsd_is_maxsd asm_addss asm_paddd asm_psubd
  asm_movss_load asm_movss_store asm_movsd_load asm_movsd_store asm_movdqu_load
  asm_movdqu_store asm_movntdq_store asm_prefetcht0 asm_lea asm_mov_reg_imm64
  asm_push_reg asm_pop_reg asm_bare asm_cqo

section \<open>Properties\<close>

text \<open>
  Claim C12. Integer instructions are encoded correctly: registers have their hardware numbers, and for all registers, displacements and
  immediates the bytes each emitter appends decode to the instruction of its name with exactly
  these operands, in every choice of REX prefix, SIB byte, and short or long displacement and
  immediate. A move of a register to itself is no instruction.
\<close>
theorem integer_encoding_roundtrip:
  assumes "d \<noteq> NO_REG" "s \<noteq> NO_REG" "b \<noteq> NO_REG"
  shows "map reg_num [RAX, RCX, RDX, RBX, RSP, RBP, RSI, RDI, R8, R9, R10, R11, R12, R13, R14, R15]
      = [0, 1, 2, 3, 4, 5, 6, 7, 8, 9, 10, 11, 12, 13, 14, 15]
    \<and> asm (mov_reg_reg d s) () (if d = s then [] else [MOV_rm_r (RReg (reg_num d)) (reg_num s)])
    \<and> asm (mov_reg_imm64 d v) () [MOV_ri64 (reg_num d) v]
    \<and> asm (mov_reg_imm32 d w) () [MOV_rm_i (RReg (reg_num d)) w]
    \<and> asm (mov_reg_mem d b w) () [MOV_r_rm (reg_num d) (RMem (reg_num b) w)]
    \<and> asm (mov_mem_reg b w s) () [MOV_rm_r (RMem (reg_num b) w) (reg_num s)]
    \<and> asm (add_reg_reg d s) () [ALU_rm_r A_ADD (RReg (reg_num d)) (reg_num s)]
    \<and> asm (add_reg_imm32 d w) () [ALU_rm_i A_ADD (RReg (reg_num d)) w]
    \<and> asm (add_mem_reg b w s) () [ALU_rm_r A_ADD (RMem (reg_num b) w) (reg_num s)]
    \<and> asm (sub_reg_reg d s) () [ALU_rm_r A_SUB (RReg (reg_num d)) (reg_num s)]
    \<and> asm (sub_reg_imm32 d w) () [ALU_rm_i A_SUB (RReg (reg_num d)) w]
    \<and> asm (and_reg_reg d s) () [ALU_rm_r A_AND (RReg (reg_num d)) (reg_num s)]
    \<and> asm (and_reg_imm32 d w) () [ALU_rm_i A_AND (RReg (reg_num d)) w]
    \<and> asm (or_reg_reg d s) () [ALU_rm_r A_OR (RReg (reg_num d)) (reg_num s)]
    \<and> asm (or_reg_imm32 d w) () [ALU_rm_i A_OR (RReg (reg_num d)) w]
    \<and> asm (xor_reg_reg d s) () [ALU_rm_r A_XOR (RReg (reg_num d)) (reg_num s)]
    \<and> asm (xor_reg_imm32 d w) () [ALU_rm_i A_XOR (RReg (reg_num d)) w]
    \<and> asm (cmp_reg_reg d s) () [ALU_rm_r A_CMP (RReg (reg_num d)) (reg_num s)]
    \<and> asm (cmp_reg_imm32 d w) () [ALU_rm_i A_CMP (RReg (reg_num d)) w]
    \<and> asm (test_reg_reg d s) () [TEST_rm_r (RReg (reg_num d)) (reg_num s)]
    \<and> asm (imul_reg_reg d s) () [IMUL_r_rm (reg_num d) (RReg (reg_num s))]
    \<and> asm (imul_reg_imm32 d s w) () [IMUL_rri (reg_num d) (RReg (reg_num s)) w]
    \<and> asm (shl_reg_cl d) () [SHIFT_cl S_SHL (RReg (reg_num d))]
    \<and> asm (shl_reg_imm8 d i) () [SHIFT_i S_SHL (RReg (reg_num d)) i]
    \<and> asm (sar_reg_cl d) () [SHIFT_cl S_SAR (RReg (reg_num d))]
    \<and> asm (sar_reg_imm8 d i) () [SHIFT_i S_SAR (RReg (reg_num d)) i]
    \<and> asm (shr_reg_cl d) () [SHIFT_cl S_SHR (RReg (reg_num d))]
    \<and> asm (shr_reg_imm8 d i) () [SHIFT_i S_SHR (RReg (reg_num d)) i]
    \<and> asm (bts_reg_reg d s) () [BT_rm_r B_BTS (RReg (reg_num d)) (reg_num s)]
    \<and> asm (btr_reg_reg d s) () [BT_rm_r B_BTR (RReg (reg_num d)) (reg_num s)]
    \<and> asm (bts_reg_imm8 d i) () [BT_rm_i B_BTS (RReg (reg_num d)) i]
    \<and> asm (btr_reg_imm8 d i) () [BT_rm_i B_BTR (RReg (reg_num d)) i]
    \<and> asm (popcnt_reg_reg d s) () [POPCNT (reg_num d) (RReg (reg_num s))]
    \<and> asm (lzcnt_reg_reg d s) () [LZCNT (reg_num d) (RReg (reg_num s))]
    \<and> asm (movsxd_reg_reg d s) () [MOVSXD (reg_num d) (RReg (reg_num s))]
    \<and> asm (movzxd_reg_reg d s) () [MOV32_r_rm (reg_num d) (RReg (reg_num s))]
    \<and> asm cqo () [CQO] \<and> asm cdq () [CDQ]
    \<and> asm (idiv_reg s) () [IDIV64 (RReg (reg_num s))]
    \<and> asm (idiv_reg32 s) () [IDIV32 (RReg (reg_num s))]
    \<and> asm (push_reg s) () [PUSH (reg_num s)] \<and> asm (pop_reg d) () [POP (reg_num d)]
    \<and> asm (call_reg s) () [CALL_rm (RReg (reg_num s))]
    \<and> asm (call_rel32_disp w) () [CALL_rel w] \<and> asm ret () [RET]
    \<and> asm (lea_reg_rip_disp32 d w) () [LEA (reg_num d) (RRip w)]"
  using assms by (simp add: asm_rules)

theorem integer_encoding_roundtrip_witness:
  "asm (mov_reg_reg R12 RAX) () [MOV_rm_r (RReg 12) 0] \<and> asm (mov_reg_mem R12 RSP 0x1000) () [MOV_r_rm 12 (RMem 4 0x1000)]"
  using integer_encoding_roundtrip [of R12 RAX RSP 0 "0x1000" 0] by simp

text \<open>
  Atomic instructions, fences and the memory forms of the vector moves are encoded
  correctly: the bytes decode to the locked, exchanging or moving instruction with the given
  base, displacement and register.
\<close>
theorem atomic_encoding_roundtrip:
  assumes "s \<noteq> NO_REG" "b \<noteq> NO_REG" "x < 16"
  shows "asm (lock_cmpxchg_mem_reg b w s) () [LOCK_CMPXCHG (RMem (reg_num b) w) (reg_num s)]
    \<and> asm (xchg_mem_reg b w s) () [XCHG (RMem (reg_num b) w) (reg_num s)]
    \<and> asm (lock_add_mem_reg b w s) () [LOCK_ALU A_ADD (RMem (reg_num b) w) (reg_num s)]
    \<and> asm (lock_and_mem_reg b w s) () [LOCK_ALU A_AND (RMem (reg_num b) w) (reg_num s)]
    \<and> asm (lock_or_mem_reg b w s) () [LOCK_ALU A_OR (RMem (reg_num b) w) (reg_num s)]
    \<and> asm mfence () [MFENCE] \<and> asm sfence () [SFENCE]
    \<and> asm (clflush b w) () [CLFLUSH (RMem (reg_num b) w)]
    \<and> asm (prefetcht0 b w) () [PREFETCHT0 (RMem (reg_num b) w)]
    \<and> asm (movss_xmm_mem x b w) () [SSE X_MOVSS x (RMem (reg_num b) w)]
    \<and> asm (movss_mem_xmm b w x) () [SSE_store X_MOVSS (RMem (reg_num b) w) x]
    \<and> asm (movsd_xmm_mem x b w) () [SSE X_MOVSD x (RMem (reg_num b) w)]
    \<and> asm (movsd_mem_xmm b w x) () [SSE_store X_MOVSD (RMem (reg_num b) w) x]
    \<and> asm (movdqu_xmm_mem x b w) () [SSE X_MOVDQU x (RMem (reg_num b) w)]
    \<and> asm (movdqu_mem_xmm b w x) () [SSE_store X_MOVDQU (RMem (reg_num b) w) x]
    \<and> asm (movntdq_mem_xmm b w x) () [SSE_store X_MOVNTDQ (RMem (reg_num b) w) x]"
  using assms by (simp add: asm_rules)

theorem atomic_encoding_roundtrip_witness:
  "asm (lock_add_mem_reg R13 0 R8) () [LOCK_ALU A_ADD (RMem 13 0) 8]"
  using atomic_encoding_roundtrip [of R8 R13 3 0] by simp

text \<open>
  The scalar double multiplication and division emitters do not encode the
  instructions of their names: for every pair of XMM registers \<open>mulsd_xmm_xmm\<close> emits a
  DIVSD and \<open>divsd_xmm_xmm\<close> a MAXSD, while addition and subtraction are encoded as
  named.
\<close>
theorem scalar_double_encodings:
  assumes "i < 16" "j < 16"
  shows "asm (addsd_xmm_xmm i j) () [SSE X_ADDSD i (RReg j)]
    \<and> asm (subsd_xmm_xmm i j) () [SSE X_SUBSD i (RReg j)]
    \<and> asm (mulsd_xmm_xmm i j) () [SSE X_DIVSD i (RReg j)]
    \<and> asm (divsd_xmm_xmm i j) () [SSE X_MAXSD i (RReg j)]"
  using assms by (simp add: asm_rules)

theorem scalar_double_encodings_witness:
  "asm (mulsd_xmm_xmm 0 1) () [SSE X_DIVSD 0 (RReg 1)]"
  using scalar_double_encodings [of 0 1] by simp

end
