(* ===== verification/Ast.thy ===== *)
theory Ast
  imports Prelude
begin

text \<open>
  The abstract syntax of Anastasia Assembly (\<open>src/src/frontend/ana_ast.h\<close>).
  Enumerations are datatypes with the source's constructors, structs are records, and the
  intrusive \<open>next\<close> chains are lists. The tagged union \<open>Operand\<close> is a datatype; the
  accessors below say what the code reads when it looks at a union member that the tag
  does not select (a value-initialised operand is all zero bits).
  \<open>BasicBlock::last_insn\<close> is written but never read by the sources and has no
  counterpart here.
\<close>

datatype DataType = VOID | I32 | I64 | PTR | F32

datatype Opcode =
    ADD_I32 | SUB_I32 | MUL_I32 | DIV_I32 | NEG_I32
  | ADD_I64 | SUB_I64 | MUL_I64 | DIV_I64 | NEG_I64
  | MOVE | MOVE_CONST | SYS_CALL | LOAD_MEM | STORE_MEM
  | BIND_VTABLE | CALL_VIRT | CALL_VIRT_FAST | RETURN_VOID | RETURN_VAL
  | GOTO | IF_EQ | IF_NE | IF_LT | IF_GE | IF_Z | IF_NZ
  | AND_I32 | AND_I64 | OR_I32 | OR_I64 | XOR_I32 | XOR_I64
  | SHL_I32 | SHL_I64 | SHR_I32 | SHR_I64 | USHR_I32 | USHR_I64
  | BTS_I64 | BTR_I64 | POPCOUNT_I64 | LZCNT_I64
  | ATOMIC_CAS_I64 | ATOMIC_XCHG_I64 | ATOMIC_ADD_I64 | ATOMIC_AND_I64 | ATOMIC_OR_I64
  | FENCE | NEW_INSTANCE
  | ADD_FLOAT_32 | ADD_FLOAT_64 | SUB_FLOAT_64 | MUL_FLOAT_64 | DIV_FLOAT_64
  | ADD_VECTOR_I32X4 | SUB_VECTOR_I32X4 | ADD_VECTOR_I32X8 | ADD_VECTOR_I32X16
  | MUL_VECTOR_I32X8 | LOAD_VECTOR_256 | LOAD_VECTOR_512
  | SINK_MEM | CONST_STRING | STR_LEN | CALL_EXTERN | LOAD_FN_PTR

datatype RegisterType = RT_NONE | PARAM | LOCAL

record Register =
  reg_type :: RegisterType
  reg_index :: u32

datatype OperandKind = OK_NONE | REGISTER | CONST_INT | MEM_OFFSET

datatype Operand =
    OpNone
  | OpReg Register
  | OpConst i64
  | OpMem Register i32

definition make_reg :: "RegisterType \<Rightarrow> u32 \<Rightarrow> Operand" where
  "make_reg t idx = OpReg \<lparr>reg_type = t, reg_index = idx\<rparr>"

definition make_const :: "i64 \<Rightarrow> Operand" where
  "make_const v = OpConst v"

definition make_mem :: "RegisterType \<Rightarrow> u32 \<Rightarrow> i32 \<Rightarrow> Operand" where
  "make_mem t idx off = OpMem \<lparr>reg_type = t, reg_index = idx\<rparr> off"

fun op_kind :: "Operand \<Rightarrow> OperandKind" where
  "op_kind OpNone = OK_NONE"
| "op_kind (OpReg r) = REGISTER"
| "op_kind (OpConst c) = CONST_INT"
| "op_kind (OpMem b off) = MEM_OFFSET"

definition zero_reg :: Register where
  "zero_reg = \<lparr>reg_type = RT_NONE, reg_index = 0\<rparr>"

text \<open>
  \<open>op.reg\<close>, \<open>op.const_val\<close> and \<open>op.mem\<close> share storage: a \<open>Register\<close>
  overlays the eight bytes of \<open>const_val\<close> (type in the low half, index in the high half)
  and the base of a memory operand.
\<close>

definition bits_regtype :: "u32 \<Rightarrow> RegisterType" where
  "bits_regtype b = (if b = 1 then PARAM else if b = 2 then LOCAL else RT_NONE)"

fun regtype_bits :: "RegisterType \<Rightarrow> u32" where
  "regtype_bits RT_NONE = 0"
| "regtype_bits PARAM = 1"
| "regtype_bits LOCAL = 2"

fun op_reg :: "Operand \<Rightarrow> Register" where
  "op_reg OpNone = zero_reg"
| "op_reg (OpReg r) = r"
| "op_reg (OpConst c) = \<lparr>reg_type = bits_regtype (ucast c), reg_index = ucast (drop_bit 32 c)\<rparr>"
| "op_reg (OpMem b off) = b"

definition reg_bits :: "Register \<Rightarrow> i64" where
  "reg_bits r = ucast (regtype_bits (reg_type r)) OR push_bit 32 (ucast (reg_index r))"

fun op_const :: "Operand \<Rightarrow> i64" where
  "op_const OpNone = 0"
| "op_const (OpReg r) = reg_bits r"
| "op_const (OpConst c) = c"
| "op_const (OpMem b off) = reg_bits b"

fun op_mem_base :: "Operand \<Rightarrow> Register" where
  "op_mem_base (OpMem b off) = b"
| "op_mem_base op = op_reg op"

fun op_mem_offset :: "Operand \<Rightarrow> i32" where
  "op_mem_offset (OpMem b off) = off"
| "op_mem_offset _ = 0"

text \<open>\<open>Register::operator==\<close> applied to the shared storage of two operands.\<close>

definition op_reg_eq :: "Operand \<Rightarrow> Operand \<Rightarrow> bool" where
  "op_reg_eq a b \<longleftrightarrow> op_const a = op_const b"

record Instruction =
  op :: Opcode
  dest :: Operand
  src1 :: Operand
  src2 :: Operand
  vtable_slot :: i32
  target_label :: "string option"
  string_val :: "string option"
  string_len :: u64
  string_hash :: u64
  is_likely :: bool

record BasicBlock =
  label :: string
  insns :: "Instruction list"

record ClassField =
  fname :: string
  ftype :: DataType
  foffset :: u32

record ClassDecl =
  cname :: string
  cfields :: "ClassField list"
  csize :: u32
  vtable_size :: u32

record Parameter =
  pname :: string
  ptype :: DataType
  preg :: Register

record Function =
  fn_name :: string
  return_type :: DataType
  params :: "Parameter list"
  param_count :: u32
  local_count :: u32
  blocks :: "BasicBlock list"

record Program =
  prog_classes :: "ClassDecl list"
  prog_functions :: "Function list"

section \<open>Facts about the operand representation\<close>

lemma bits_regtype_inverse [simp]: "bits_regtype (regtype_bits t) = t"
  by (cases t) (simp_all add: bits_regtype_def)

lemma ucast_reg_bits [simp]: "ucast (reg_bits r) = regtype_bits (reg_type r)"
  by (rule bit_eqI) (auto simp: reg_bits_def bit_simps)

lemma drop_reg_bits [simp]: "ucast (drop_bit 32 (reg_bits r)) = reg_index r"
proof -
  have "\<not> bit (regtype_bits (reg_type r)) (n + 32)" for n
    using bit_imp_le_length [of "regtype_bits (reg_type r)" "n + 32"] by auto
  then show ?thesis
    by (intro bit_eqI) (auto simp: reg_bits_def bit_simps add.commute)
qed

text \<open>The shared storage determines the register: comparing the bits compares registers.\<close>

lemma reg_bits_inj: "reg_bits r = reg_bits r' \<longleftrightarrow> r = r'"
proof
  assume eq: "reg_bits r = reg_bits r'"
  have "regtype_bits (reg_type r) = regtype_bits (reg_type r')"
    by (metis eq ucast_reg_bits)
  moreover have "reg_index r = reg_index r'"
    by (metis eq drop_reg_bits)
  ultimately show "r = r'"
    by (metis (full_types) Register.equality bits_regtype_inverse old.unit.exhaust)
qed simp

end
