(* ===== verification/Regalloc.thy ===== *)
theory Regalloc
  imports Ast Encoder
begin

text \<open>
  The register allocator (\<open>src/src/backend/ana_regalloc.h\<close>, \<open>ana_regalloc.cpp\<close>).
  The two location tables hold exactly the initialised entries; \<open>uint32_t\<close> counters are
  words, \<open>size_t\<close> slot counts naturals. The allocator is only called with a function.
\<close>

section \<open>State\<close>

datatype RegLocKind = PHYSICAL_REG | STACK_SPILL

record RegLocation =
  lkind :: RegLocKind
  phys_reg :: X86Reg
  stack_disp :: i32

record AnaRegAlloc =
  local_locs :: "RegLocation list"
  param_locs :: "RegLocation list"
  ra_local_count :: u32
  ra_param_count :: u32
  saved_reg_count :: u32
  stack_frame_size :: nat
  requires_frame :: bool

definition kMaxLocals :: u32 where "kMaxLocals = 1024"

definition kAllocatablePhysRegs :: "X86Reg list" where
  "kAllocatablePhysRegs = [RBX, R12, R13]"

definition saved_reg :: "nat \<Rightarrow> X86Reg" where
  "saved_reg i = (if i < 3 then kAllocatablePhysRegs ! i else NO_REG)"

definition saved_reg_disp :: "nat \<Rightarrow> i32" where
  "saved_reg_disp i = of_nat (8 * (i + 1))"

section \<open>Allocation\<close>

definition phys_loc :: "X86Reg \<Rightarrow> RegLocation" where
  "phys_loc r = \<lparr>lkind = PHYSICAL_REG, phys_reg = r, stack_disp = 0\<rparr>"

definition spill_loc :: "nat \<Rightarrow> RegLocation" where
  "spill_loc n = \<lparr>lkind = STACK_SPILL, phys_reg = NO_REG, stack_disp = of_nat (8 * n)\<rparr>"

definition all_insns :: "Function \<Rightarrow> Instruction list" where
  "all_insns fn = concat (map insns (blocks fn))"

definition bump_local :: "Operand \<Rightarrow> u32 \<Rightarrow> u32" where
  "bump_local opd m = (case opd of OpReg r \<Rightarrow> if reg_type r = LOCAL \<and> reg_index r > m then reg_index r else m
                       | _ \<Rightarrow> m)"

definition max_local :: "Function \<Rightarrow> u32" where
  "max_local fn =
     fold (\<lambda>i m. bump_local (src2 i) (bump_local (src1 i) (bump_local (dest i) m))) (all_insns fn)
       (if local_count fn > 0 then local_count fn - 1 else 0)"

definition has_call :: "Function \<Rightarrow> bool" where
  "has_call fn \<longleftrightarrow> (\<exists>i \<in> set (all_insns fn). op i \<in> {CALL_VIRT, CALL_VIRT_FAST, NEW_INSTANCE, SINK_MEM})"

definition check_p :: "Operand \<Rightarrow> u32 \<Rightarrow> u32" where
  "check_p opd m = (case opd of OpReg r \<Rightarrow> if reg_type r = PARAM \<and> reg_index r + 1 > m then reg_index r + 1 else m
                    | _ \<Rightarrow> m)"

definition max_param :: "Function \<Rightarrow> u32" where
  "max_param fn = fold (\<lambda>i m. check_p (src2 i) (check_p (src1 i) (check_p (dest i) m))) (all_insns fn) 0"

text \<open>The loop over the locals: \<open>n\<close> is \<open>spill_count\<close> before local \<open>i\<close>.\<close>

fun local_loop :: "nat \<Rightarrow> nat \<Rightarrow> nat \<Rightarrow> nat \<Rightarrow> RegLocation list \<times> nat" where
  "local_loop reserved 0 i n = ([], n)"
| "local_loop reserved (Suc k) i n =
     (let (l, n') = (if i < 3 then (phys_loc (kAllocatablePhysRegs ! i), n)
                     else (spill_loc (reserved + (n + 1)), n + 1));
          (ls, n'') = local_loop reserved k (i + 1) n' in
      (l # ls, n''))"

definition allocate_registers :: "Function \<Rightarrow> AnaRegAlloc" where
  "allocate_registers fn =
     (let lc0 = max_local fn + 1; lc = (if lc0 > kMaxLocals then kMaxLocals else lc0);
          saved = (if lc < 3 then lc else 3); reserved = unat saved;
          (ls, spill_count) = local_loop reserved (unat lc) 0 0;
          mp = max_param fn;
          pc0 = (if params fn \<noteq> [] \<and> param_count fn > mp then param_count fn else mp);
          pc = (if pc0 > 8 then 8 else pc0);
          ps = map (\<lambda>i. spill_loc (reserved + spill_count + 1 + i)) [0..<unat pc];
          total_slots = reserved + spill_count + unat pc;
          frame = total_slots > 0 \<or> has_call fn in
      \<lparr>local_locs = ls, param_locs = ps, ra_local_count = lc, ra_param_count = pc, saved_reg_count = saved,
       stack_frame_size = (if frame then (total_slots * 8 + 15) div 16 * 16 else 0),
       requires_frame = frame\<rparr>)"

section \<open>Lookup\<close>

definition get_param_raw_reg :: "nat \<Rightarrow> X86Reg" where
  "get_param_raw_reg i = (if i = 0 then RDI else if i = 1 then RSI else if i = 2 then RDX
     else if i = 3 then RCX else if i = 4 then R8 else if i = 5 then R9 else RDI)"

definition get_param_loc :: "AnaRegAlloc \<Rightarrow> u32 \<Rightarrow> RegLocation" where
  "get_param_loc ra i =
     (if i < ra_param_count ra \<and> i < 8 then param_locs ra ! unat i
      else \<lparr>lkind = STACK_SPILL, phys_reg = NO_REG, stack_disp = 8 * (i + 1)\<rparr>)"

definition get_local_loc :: "AnaRegAlloc \<Rightarrow> u32 \<Rightarrow> RegLocation" where
  "get_local_loc ra i =
     (if i < ra_local_count ra \<and> i < kMaxLocals then local_locs ra ! unat i
      else \<lparr>lkind = STACK_SPILL, phys_reg = NO_REG,
            stack_disp = of_nat (if stack_frame_size ra > 0 then stack_frame_size ra else 8)\<rparr>)"

definition get_reg_loc :: "AnaRegAlloc \<Rightarrow> Register \<Rightarrow> RegLocation" where
  "get_reg_loc ra r =
     (if reg_type r = PARAM then get_param_loc ra (reg_index r) else get_local_loc ra (reg_index r))"

section \<open>The frame layout in closed form\<close>

text \<open>
  Slot \<open>n\<close> is the eight bytes at \<open>[rbp - 8 n]\<close>. A register of the function lives in a
  callee-saved register or in a slot; \<open>live_reg\<close> says that the tables cover it.
\<close>

definition live_reg :: "AnaRegAlloc \<Rightarrow> Register \<Rightarrow> bool" where
  "live_reg ra r \<longleftrightarrow> (if reg_type r = PARAM then reg_index r < ra_param_count ra
                     else reg_index r < ra_local_count ra)"

definition reg_slot :: "AnaRegAlloc \<Rightarrow> Register \<Rightarrow> X86Reg + nat" where
  "reg_slot ra r =
     (let i = unat (reg_index r); lc = unat (ra_local_count ra); sv = min lc 3 in
      if reg_type r = PARAM then Inr (sv + (lc - 3) + 1 + i)
      else if i < 3 then Inl (kAllocatablePhysRegs ! i)
      else Inr (sv + (i - 3) + 1))"

definition ra_ok :: "AnaRegAlloc \<Rightarrow> bool" where
  "ra_ok ra \<longleftrightarrow> unat (ra_local_count ra) \<le> 1024 \<and> unat (ra_param_count ra) \<le> 8
     \<and> unat (saved_reg_count ra) = min (unat (ra_local_count ra)) 3
     \<and> (\<forall>r. live_reg ra r \<longrightarrow> get_reg_loc ra r =
          (case reg_slot ra r of Inl p \<Rightarrow> phys_loc p | Inr n \<Rightarrow> spill_loc n))
     \<and> stack_frame_size ra = align_up 16 (8 * (unat (ra_local_count ra) + unat (ra_param_count ra)))
     \<and> (requires_frame ra \<or> ra_local_count ra = 0 \<and> ra_param_count ra = 0)"

lemma local_loop_spec:
  "length (fst (local_loop reserved k i n)) = k \<and> snd (local_loop reserved k i n) = n + ((i + k) - max i 3)
   \<and> (\<forall>j < k. fst (local_loop reserved k i n) ! j =
        (if i + j < 3 then phys_loc (kAllocatablePhysRegs ! (i + j))
         else spill_loc (reserved + n + (i + j - max i 3) + 1)))"
proof (induction k arbitrary: i n)
  case (Suc k)
  let ?n = "if i < 3 then n else n + 1"
  have e: "local_loop reserved (Suc k) i n =
      ((if i < 3 then phys_loc (kAllocatablePhysRegs ! i) else spill_loc (reserved + (n + 1))) #
         fst (local_loop reserved k (i + 1) ?n), snd (local_loop reserved k (i + 1) ?n))"
    by (simp add: Let_def case_prod_beta)
  show ?case
    unfolding e using Suc.IH [of "i + 1" ?n]
    by (auto simp: nth_Cons max_def split: nat.split)
qed simp

lemma allocate_simps:
  fixes fn
  defines "ra \<equiv> allocate_registers fn"
  shows "unat (ra_local_count ra) \<le> 1024" "unat (ra_param_count ra) \<le> 8"
    "unat (saved_reg_count ra) = min (unat (ra_local_count ra)) 3"
    "local_locs ra = fst (local_loop (unat (saved_reg_count ra)) (unat (ra_local_count ra)) 0 0)"
    "param_locs ra = map (\<lambda>i. spill_loc (unat (saved_reg_count ra) + (unat (ra_local_count ra) - 3) + 1 + i))
       [0..<unat (ra_param_count ra)]"
    "requires_frame ra \<longleftrightarrow> unat (saved_reg_count ra) + (unat (ra_local_count ra) - 3)
       + unat (ra_param_count ra) > 0 \<or> has_call fn"
    "stack_frame_size ra = (if requires_frame ra then ((unat (saved_reg_count ra)
       + (unat (ra_local_count ra) - 3) + unat (ra_param_count ra)) * 8 + 15) div 16 * 16 else 0)"
  using local_loop_spec [of "unat (saved_reg_count ra)" "unat (ra_local_count ra)" 0 0]
  unfolding ra_def allocate_registers_def Let_def case_prod_beta
  by (auto simp: kMaxLocals_def word_less_nat_alt min_def)

lemma allocate_ok: "ra_ok (allocate_registers fn)"
proof -
  let ?ra = "allocate_registers fn"
  note a = allocate_simps [of fn]
  have sum: "min n 3 + (n - 3) = n" for n :: nat
    by simp
  have "get_reg_loc ?ra r = (case reg_slot ?ra r of Inl p \<Rightarrow> phys_loc p | Inr n \<Rightarrow> spill_loc n)"
    if "live_reg ?ra r" for r
  proof (cases "reg_type r = PARAM")
    case True
    then have i: "unat (reg_index r) < unat (ra_param_count ?ra)"
      using that by (simp add: live_reg_def word_less_nat_alt)
    then show ?thesis
      using True a(2) by (simp add: get_reg_loc_def get_param_loc_def word_less_nat_alt a(5) reg_slot_def Let_def a(3))
  next
    case False
    then have i: "unat (reg_index r) < unat (ra_local_count ?ra)"
      using that by (simp add: live_reg_def word_less_nat_alt)
    then show ?thesis
      using False a(1) local_loop_spec [of "unat (saved_reg_count ?ra)" "unat (ra_local_count ?ra)" 0 0]
      by (simp add: get_reg_loc_def get_local_loc_def word_less_nat_alt kMaxLocals_def a(4) reg_slot_def Let_def a(3))
  qed
  moreover have "stack_frame_size ?ra = align_up 16 (8 * (unat (ra_local_count ?ra) + unat (ra_param_count ?ra)))"
    using a(6,7) sum [of "unat (ra_local_count ?ra)"] unfolding a(3) align_up_def
    by (auto simp: algebra_simps)
  ultimately show ?thesis
    using a unfolding ra_ok_def by (auto simp: unat_eq_zero)
qed

section \<open>Coverage\<close>

definition insn_operands :: "Instruction \<Rightarrow> Operand list" where
  "insn_operands i = [dest i, src1 i, src2 i]"

definition fn_operands :: "Function \<Rightarrow> Operand list" where
  "fn_operands fn = concat (map insn_operands (all_insns fn))"

lemma bump_local_ge: "m \<le> bump_local opd m"
  by (auto simp: bump_local_def split: Operand.split)

lemma bump_local_covers: "opd = OpReg r \<Longrightarrow> reg_type r = LOCAL \<Longrightarrow> reg_index r \<le> bump_local opd m"
  by (auto simp: bump_local_def not_less)

lemma check_p_covers:
  "opd = OpReg r \<Longrightarrow> reg_type r = PARAM \<Longrightarrow> reg_index r + 1 \<le> check_p opd m"
  by (auto simp: check_p_def not_less)

lemma check_p_ge: "m \<le> check_p opd m"
  by (auto simp: check_p_def split: Operand.split)

lemma fold_covers:
  fixes f :: "'a \<Rightarrow> 'b::linorder \<Rightarrow> 'b"
  assumes ge: "\<And>x m. m \<le> f x m" and cov: "\<And>m. k \<le> f x m" and x: "x \<in> set xs"
  shows "k \<le> fold f xs m0"
proof -
  have mono: "m \<le> fold f ys m" for ys m
    by (induction ys arbitrary: m) (auto intro: order_trans [OF ge])
  from x obtain ys zs where "xs = ys @ x # zs"
    by (meson split_list)
  then show ?thesis
    using order_trans [OF cov mono] by simp
qed

lemma max_local_covers:
  assumes "OpReg r \<in> set (fn_operands fn)" "reg_type r = LOCAL"
  shows "reg_index r \<le> max_local fn"
proof -
  obtain i where i: "i \<in> set (all_insns fn)" "OpReg r \<in> {dest i, src1 i, src2 i}"
    using assms(1) by (auto simp: fn_operands_def insn_operands_def)
  show ?thesis
    unfolding max_local_def
  proof (rule fold_covers [OF _ _ i(1)])
    show "m \<le> bump_local (src2 x) (bump_local (src1 x) (bump_local (dest x) m))" for x m
      using bump_local_ge order_trans by metis
    show "reg_index r \<le> bump_local (src2 i) (bump_local (src1 i) (bump_local (dest i) m))" for m
      using i(2) bump_local_covers [OF refl assms(2)] bump_local_ge order_trans
      by (metis empty_iff insertE)
  qed
qed

lemma max_param_covers:
  assumes "OpReg r \<in> set (fn_operands fn)" "reg_type r = PARAM"
  shows "reg_index r + 1 \<le> max_param fn"
proof -
  obtain i where i: "i \<in> set (all_insns fn)" "OpReg r \<in> {dest i, src1 i, src2 i}"
    using assms(1) by (auto simp: fn_operands_def insn_operands_def)
  show ?thesis
    unfolding max_param_def
  proof (rule fold_covers [OF _ _ i(1)])
    show "m \<le> check_p (src2 x) (check_p (src1 x) (check_p (dest x) m))" for x m
      using check_p_ge order_trans by metis
    show "reg_index r + 1 \<le> check_p (src2 i) (check_p (src1 i) (check_p (dest i) m))" for m
      using i(2) check_p_covers [OF refl assms(2)] check_p_ge order_trans
      by (metis empty_iff insertE)
  qed
qed

lemma local_count_eq:
  "ra_local_count (allocate_registers fn) =
     (if max_local fn + 1 > kMaxLocals then kMaxLocals else max_local fn + 1)"
  by (simp add: allocate_registers_def Let_def case_prod_beta)

lemma param_count_gt:
  "i < max_param fn \<Longrightarrow> i < 8 \<Longrightarrow> i < ra_param_count (allocate_registers fn)"
  by (simp add: allocate_registers_def Let_def case_prod_beta) auto

lemma operand_live:
  assumes "OpReg r \<in> set (fn_operands fn)" "reg_type r \<noteq> RT_NONE" "max_local fn < 0xFFFFFFFF"
    and "unat (reg_index r) < (if reg_type r = PARAM then 8 else 1024)"
  shows "live_reg (allocate_registers fn) r"
proof (cases "reg_type r = PARAM")
  case True
  have "reg_index r + 1 \<le> max_param fn"
    using max_param_covers [OF assms(1) True] .
  then have "reg_index r < max_param fn" "reg_index r < 8"
    using assms(4) True unfolding word_less_nat_alt word_le_nat_alt
    by (auto simp: unat_plus_if')
  then show ?thesis
    using True param_count_gt by (simp add: live_reg_def)
next
  case False
  then have l: "reg_type r = LOCAL"
    using assms(2) by (cases "reg_type r") auto
  have "reg_index r \<le> max_local fn"
    by (rule max_local_covers [OF assms(1) l])
  then have "reg_index r < ra_local_count (allocate_registers fn)"
    using assms(3,4) l unfolding local_count_eq kMaxLocals_def word_less_nat_alt word_le_nat_alt
    by (auto simp: unat_plus_if')
  then show ?thesis
    using l by (simp add: live_reg_def)
qed

section \<open>Separation\<close>

lemma allocatable_inj: "i < 3 \<Longrightarrow> j < 3 \<Longrightarrow> kAllocatablePhysRegs ! i = kAllocatablePhysRegs ! j \<longleftrightarrow> i = j"
  by (auto simp: kAllocatablePhysRegs_def less_Suc_eq numeral_3_eq_3)

lemma reg_slot_inj:
  assumes "live_reg ra r1" "live_reg ra r2" "reg_type r1 \<noteq> RT_NONE" "reg_type r2 \<noteq> RT_NONE"
    "reg_slot ra r1 = reg_slot ra r2"
  shows "r1 = r2"
proof -
  have "reg_type r1 = reg_type r2 \<and> unat (reg_index r1) = unat (reg_index r2)"
    using assms
    by (cases "reg_type r1"; cases "reg_type r2")
       (auto simp: reg_slot_def live_reg_def Let_def word_less_nat_alt allocatable_inj split: if_splits)
  then show ?thesis
    by (metis (full_types) Register.equality old.unit.exhaust word_eq_iff_unsigned)
qed

lemma reg_slot_bounds:
  assumes "ra_ok ra" "live_reg ra r"
  shows "case reg_slot ra r of
      Inl p \<Rightarrow> \<exists>i < unat (saved_reg_count ra). p = saved_reg i
    | Inr n \<Rightarrow> unat (saved_reg_count ra) < n \<and> 8 * n \<le> stack_frame_size ra"
proof -
  let ?n = "unat (ra_local_count ra) + unat (ra_param_count ra)"
  have fr: "8 * ?n \<le> stack_frame_size ra"
    using assms(1) align_up_ge [of 16 "8 * ?n"] by (simp add: ra_ok_def)
  have sv: "unat (saved_reg_count ra) = min (unat (ra_local_count ra)) 3"
    using assms(1) by (simp add: ra_ok_def)
  consider (param) "reg_type r = PARAM" "unat (reg_index r) < unat (ra_param_count ra)"
    | (phys) "reg_type r \<noteq> PARAM" "unat (reg_index r) < unat (ra_local_count ra)" "unat (reg_index r) < 3"
    | (spill) "reg_type r \<noteq> PARAM" "unat (reg_index r) < unat (ra_local_count ra)" "3 \<le> unat (reg_index r)"
    using assms(2) by (auto simp: live_reg_def word_less_nat_alt split: if_splits) linarith
  then show ?thesis
  proof cases
    case phys
    with sv show ?thesis
      by (auto simp: reg_slot_def Let_def saved_reg_def intro!: exI [of _ "unat (reg_index r)"])
  qed (use fr sv in \<open>simp_all add: reg_slot_def Let_def\<close>)
qed

lemma frame_bound:
  assumes "ra_ok ra"
  shows "16 dvd stack_frame_size ra" "stack_frame_size ra \<le> 8256"
proof -
  have e: "stack_frame_size ra = align_up 16 (8 * (unat (ra_local_count ra) + unat (ra_param_count ra)))"
    and b: "unat (ra_local_count ra) \<le> 1024" "unat (ra_param_count ra) \<le> 8"
    using assms by (auto simp: ra_ok_def)
  show "16 dvd stack_frame_size ra"
    by (simp add: e)
  have "align_up 16 (8 * (unat (ra_local_count ra) + unat (ra_param_count ra))) \<le> align_up 16 8256"
    using b by (intro align_up_mono) simp
  then show "stack_frame_size ra \<le> 8256"
    by (simp add: e align_up_def)
qed

section \<open>Properties\<close>

text \<open>
  Claim C9. The frame layout is sound: for any function, every live local and parameter is
  either in a callee-saved register that the prologue saves or in a frame slot below the slots
  of the saved registers and inside the frame; no two of them share a location; and the frame
  size is a multiple of 16 of at most 8256 bytes, so stack alignment is kept and every
  displacement fits.
\<close>
theorem frame_layout_sound:
  assumes "ra = allocate_registers fn" "live_reg ra r" "reg_type r \<noteq> RT_NONE"
  shows "(case reg_slot ra r of
            Inl p \<Rightarrow> get_reg_loc ra r = phys_loc p \<and> (\<exists>i < unat (saved_reg_count ra). p = saved_reg i)
          | Inr n \<Rightarrow> get_reg_loc ra r = spill_loc n \<and> unat (saved_reg_count ra) < n
                       \<and> 8 * n \<le> stack_frame_size ra)
    \<and> (\<forall>r'. live_reg ra r' \<longrightarrow> reg_type r' \<noteq> RT_NONE \<longrightarrow> r' \<noteq> r \<longrightarrow> reg_slot ra r' \<noteq> reg_slot ra r)
    \<and> requires_frame ra \<and> 16 dvd stack_frame_size ra \<and> stack_frame_size ra \<le> 8256"
proof -
  have ok: "ra_ok ra"
    using allocate_ok assms(1) by simp
  then have "get_reg_loc ra r = (case reg_slot ra r of Inl p \<Rightarrow> phys_loc p | Inr n \<Rightarrow> spill_loc n)"
    using assms(2) by (simp add: ra_ok_def)
  moreover have "requires_frame ra"
    using ok assms(2) by (auto simp: ra_ok_def live_reg_def split: if_splits)
  ultimately show ?thesis
    using reg_slot_bounds [OF ok assms(2)] frame_bound [OF ok] reg_slot_inj [OF _ assms(2) _ assms(3)]
    by (auto split: sum.splits)
qed

definition four_locals :: Function where
  "four_locals = \<lparr>fn_name = ''f'', return_type = VOID, params = [], param_count = 0, local_count = 4,
     blocks = [\<lparr>label = ''entry'', insns = [\<lparr>op = LOAD_MEM, dest = OpReg \<lparr>reg_type = LOCAL, reg_index = 0\<rparr>,
       src1 = OpMem \<lparr>reg_type = LOCAL, reg_index = 9\<rparr> 0, src2 = OpNone, vtable_slot = 0,
       target_label = None, string_val = None, string_len = 0, string_hash = 0, is_likely = False\<rparr>]\<rparr>]\<rparr>"

theorem frame_layout_sound_witness:
  "16 dvd stack_frame_size (allocate_registers four_locals)
   \<and> reg_slot (allocate_registers four_locals) \<lparr>reg_type = LOCAL, reg_index = 2\<rparr>
     \<noteq> reg_slot (allocate_registers four_locals) \<lparr>reg_type = LOCAL, reg_index = 3\<rparr>"
proof -
  have "live_reg (allocate_registers four_locals) \<lparr>reg_type = LOCAL, reg_index = 3\<rparr>"
    "live_reg (allocate_registers four_locals) \<lparr>reg_type = LOCAL, reg_index = 2\<rparr>"
    by code_simp+
  then show ?thesis
    using frame_layout_sound [of "allocate_registers four_locals" four_locals "\<lparr>reg_type = LOCAL, reg_index = 3\<rparr>"]
    by simp
qed

text \<open>
  Every register operand of a function is covered by the allocation: a parameter with
  index below 8 and a local with index below 1024 that occurs as an operand has its own entry in
  the tables, provided no operand names the register of index 2^32 - 1, whose successor wraps.
\<close>
theorem register_operands_live:
  assumes "OpReg r \<in> set (fn_operands fn)" "reg_type r \<noteq> RT_NONE" "max_local fn < 0xFFFFFFFF"
    and "unat (reg_index r) < (if reg_type r = PARAM then 8 else 1024)"
  shows "live_reg (allocate_registers fn) r"
  using assms by (rule operand_live)

theorem register_operands_live_witness:
  "live_reg (allocate_registers four_locals) \<lparr>reg_type = LOCAL, reg_index = 0\<rparr>"
proof -
  have "OpReg \<lparr>reg_type = LOCAL, reg_index = 0\<rparr> \<in> set (fn_operands four_locals)"
    "max_local four_locals < 0xFFFFFFFF"
    by code_simp+
  then show ?thesis
    using register_operands_live [of "\<lparr>reg_type = LOCAL, reg_index = 0\<rparr>" four_locals] by simp
qed

text \<open>
  The base register of a memory operand is not scanned. In a function that declares
  four locals and loads through \<open>v9\<close>, the location given to \<open>v9\<close> is the frame slot
  of the live local \<open>v3\<close>: the fallback location of an uncovered local is a live slot
  whenever the number of slots is even.
\<close>
theorem memory_base_aliases_local:
  "live_reg (allocate_registers four_locals) \<lparr>reg_type = LOCAL, reg_index = 3\<rparr>
   \<and> get_reg_loc (allocate_registers four_locals) \<lparr>reg_type = LOCAL, reg_index = 9\<rparr>
     = get_reg_loc (allocate_registers four_locals) \<lparr>reg_type = LOCAL, reg_index = 3\<rparr>"
  by code_simp

end
