(* ===== verification/Lowerer.thy ===== *)
theory Lowerer
  imports Regalloc "HOL-Library.Sublist"
begin

text \<open>
  Lowering of a function to x86-64 code (\<open>src/src/backend/ana_lowerer.cpp\<close>), the
  just-in-time path \<open>compile_function\<close>. Each case of the switch is one definition in the
  encoder's state monad. The addresses the code embeds are parameters, held in the
  record \<open>LowerEnv\<close>: the interned string literals, the vtables, the allocation
  entry point and the benchmark sink. Blocks are identified by their position.
\<close>

section \<open>Names\<close>

definition name_end :: "string \<Rightarrow> char" where
  "name_end s = (case s of [] \<Rightarrow> CHR 0x00 | c # _ \<Rightarrow> if c = CHR '':'' then CHR 0x00 else c)"

fun streq_loop :: "string \<Rightarrow> string \<Rightarrow> bool" where
  "streq_loop (a # as) (b # bs) =
     (if a \<noteq> CHR 0x00 \<and> b \<noteq> CHR 0x00 \<and> a \<noteq> CHR '':'' \<and> b \<noteq> CHR '':''
      then a = b \<and> streq_loop as bs
      else name_end (a # as) = name_end (b # bs))"
| "streq_loop s1 s2 = (name_end s1 = name_end s2)"

definition skip_dot :: "string \<Rightarrow> string" where
  "skip_dot s = (case s of c # cs \<Rightarrow> if c = CHR ''.'' then cs else s | [] \<Rightarrow> [])"

definition streq_impl :: "string \<Rightarrow> string \<Rightarrow> bool" where
  "streq_impl s1 s2 = streq_loop (skip_dot s1) (skip_dot s2)"

definition is_i32_op :: "Opcode \<Rightarrow> bool" where
  "is_i32_op opc \<longleftrightarrow> opc \<in> {ADD_I32, SUB_I32, MUL_I32, DIV_I32, SHL_I32, SHR_I32, USHR_I32}"

section \<open>Environment and operands\<close>

record LowerEnv =
  le_ra :: AnaRegAlloc
  le_labels :: "(string \<times> u32) list"
  le_classes :: "ClassDecl list option"
  le_intern :: "string option \<Rightarrow> u64 \<Rightarrow> u64 \<Rightarrow> u64"
  le_vtable :: "ClassDecl \<Rightarrow> u64"
  le_alloc_object :: u64
  le_consume :: u64

definition get_block_label :: "LowerEnv \<Rightarrow> string option \<Rightarrow> u32 emit" where
  "get_block_label env name =
     (case name of
        None \<Rightarrow> new_label
      | Some n \<Rightarrow> (case find (\<lambda>(l, _). streq_impl l n) (le_labels env) of
                    Some (_, i) \<Rightarrow> State_Monad.return i
                  | None \<Rightarrow> new_label))"

definition load_operand :: "AnaRegAlloc \<Rightarrow> Operand \<Rightarrow> X86Reg \<Rightarrow> X86Reg emit" where
  "load_operand ra opd scratch =
     (case opd of
        OpConst c \<Rightarrow> do { mov_reg_imm64 scratch c; State_Monad.return scratch }
      | OpReg r \<Rightarrow>
          (let loc = get_reg_loc ra r in
           if lkind loc = PHYSICAL_REG then State_Monad.return (phys_reg loc)
           else do { mov_reg_mem scratch RBP (- stack_disp loc); State_Monad.return scratch })
      | _ \<Rightarrow> State_Monad.return scratch)"

definition store_operand :: "AnaRegAlloc \<Rightarrow> Register \<Rightarrow> X86Reg \<Rightarrow> unit emit" where
  "store_operand ra r src =
     (let loc = get_reg_loc ra r in
      if lkind loc = PHYSICAL_REG
      then (if phys_reg loc \<noteq> src then mov_reg_reg (phys_reg loc) src else skip_emit)
      else mov_mem_reg RBP (- stack_disp loc) src)"

definition dst_reg :: "AnaRegAlloc \<Rightarrow> Instruction \<Rightarrow> X86Reg \<Rightarrow> X86Reg" where
  "dst_reg ra insn scratch =
     (let loc = get_reg_loc ra (op_reg (dest insn)) in
      if lkind loc = PHYSICAL_REG then phys_reg loc else scratch)"

definition mem_base :: "Operand \<Rightarrow> Operand" where
  "mem_base opd = make_reg (reg_type (op_mem_base opd)) (reg_index (op_mem_base opd))"

section \<open>Integer arithmetic\<close>

text \<open>
  Addition, subtraction and the bitwise operations share one shape; \<open>is_i32_op\<close> is false
  for the bitwise ones.
\<close>

definition lower_alu :: "(X86Reg \<Rightarrow> X86Reg \<Rightarrow> unit emit) \<Rightarrow> (X86Reg \<Rightarrow> i32 \<Rightarrow> unit emit)
    \<Rightarrow> AnaRegAlloc \<Rightarrow> Instruction \<Rightarrow> unit emit" where
  "lower_alu rr ri ra insn = do {
     s2 \<leftarrow> load_operand ra (src2 insn) R11;
     s1 \<leftarrow> load_operand ra (src1 insn) RCX;
     let d = dst_reg ra insn RCX;
     s2' \<leftarrow> (if d = s2 \<and> s2 \<noteq> R11 \<and> op_kind (src2 insn) \<noteq> CONST_INT
             then do { mov_reg_reg R11 s2; State_Monad.return R11 }
             else State_Monad.return s2);
     mov_reg_reg d s1;
     (if op_kind (src2 insn) = CONST_INT then ri d (ucast (op_const (src2 insn))) else rr d s2');
     (if is_i32_op (op insn) then movsxd_reg_reg d d else skip_emit);
     store_operand ra (op_reg (dest insn)) d
   }"

definition lower_add :: "AnaRegAlloc \<Rightarrow> Instruction \<Rightarrow> unit emit" where
  "lower_add = lower_alu add_reg_reg add_reg_imm32"

definition lower_sub :: "AnaRegAlloc \<Rightarrow> Instruction \<Rightarrow> unit emit" where
  "lower_sub = lower_alu sub_reg_reg sub_reg_imm32"

definition lower_and :: "AnaRegAlloc \<Rightarrow> Instruction \<Rightarrow> unit emit" where
  "lower_and = lower_alu and_reg_reg and_reg_imm32"

definition lower_or :: "AnaRegAlloc \<Rightarrow> Instruction \<Rightarrow> unit emit" where
  "lower_or = lower_alu or_reg_reg or_reg_imm32"

definition lower_xor :: "AnaRegAlloc \<Rightarrow> Instruction \<Rightarrow> unit emit" where
  "lower_xor = lower_alu xor_reg_reg xor_reg_imm32"

definition lower_neg :: "AnaRegAlloc \<Rightarrow> Instruction \<Rightarrow> unit emit" where
  "lower_neg ra insn = do {
     s1 \<leftarrow> load_operand ra (src1 insn) RCX;
     let d = dst_reg ra insn RCX;
     mov_reg_imm64 R11 0;
     sub_reg_reg R11 s1;
     mov_reg_reg d R11;
     (if is_i32_op (op insn) then movsxd_reg_reg d d else skip_emit);
     store_operand ra (op_reg (dest insn)) d
   }"

definition lower_mul :: "AnaRegAlloc \<Rightarrow> Instruction \<Rightarrow> unit emit" where
  "lower_mul ra insn = do {
     s2 \<leftarrow> load_operand ra (src2 insn) R11;
     (if s2 \<noteq> R11 then mov_reg_reg R11 s2 else skip_emit);
     s1 \<leftarrow> load_operand ra (src1 insn) RCX;
     let d = dst_reg ra insn RCX;
     mov_reg_reg d s1;
     imul_reg_reg d R11;
     (if is_i32_op (op insn) then movsxd_reg_reg d d else skip_emit);
     store_operand ra (op_reg (dest insn)) d
   }"

definition lower_div :: "AnaRegAlloc \<Rightarrow> Instruction \<Rightarrow> unit emit" where
  "lower_div ra insn = do {
     let d = dst_reg ra insn RAX;
     let push_rdx = (d \<noteq> RDX);
     (if push_rdx then push_reg RDX else skip_emit);
     s2 \<leftarrow> load_operand ra (src2 insn) R11;
     (if s2 \<noteq> R11 then mov_reg_reg R11 s2 else skip_emit);
     s1 \<leftarrow> load_operand ra (src1 insn) RAX;
     (if s1 \<noteq> RAX then mov_reg_reg RAX s1 else skip_emit);
     lbl_zero \<leftarrow> new_label;
     lbl_neg1 \<leftarrow> new_label;
     lbl_done \<leftarrow> new_label;
     test_reg_reg R11 R11;
     jz_label lbl_zero;
     cmp_reg_imm32 R11 (- 1);
     je_label lbl_neg1;
     (if op insn = DIV_I32 then do { cdq; idiv_reg32 R11; movsxd_reg_reg RAX RAX }
      else do { cqo; idiv_reg R11 });
     jmp_label lbl_done;
     bind_label lbl_zero;
     mov_reg_imm32 RAX 0;
     jmp_label lbl_done;
     bind_label lbl_neg1;
     imul_reg_imm32 RAX RAX (- 1);
     (if op insn = DIV_I32 then movsxd_reg_reg RAX RAX else skip_emit);
     bind_label lbl_done;
     (if d \<noteq> RAX then mov_reg_reg d RAX else skip_emit);
     store_operand ra (op_reg (dest insn)) d;
     (if push_rdx then pop_reg RDX else skip_emit)
   }"

text \<open>The three shifts; a logical right shift of 32 bits first clears the upper half.\<close>

definition lower_shift :: "(X86Reg \<Rightarrow> unit emit) \<Rightarrow> (X86Reg \<Rightarrow> u8 \<Rightarrow> unit emit)
    \<Rightarrow> AnaRegAlloc \<Rightarrow> Instruction \<Rightarrow> unit emit" where
  "lower_shift by_cl by_imm ra insn = do {
     s2 \<leftarrow> load_operand ra (src2 insn) RCX;
     (if op_kind (src2 insn) \<noteq> CONST_INT \<and> s2 \<noteq> RCX then mov_reg_reg RCX s2 else skip_emit);
     s1 \<leftarrow> load_operand ra (src1 insn) RAX;
     let d = dst_reg ra insn RAX;
     mov_reg_reg d s1;
     (if op insn = USHR_I32 then movzxd_reg_reg d d else skip_emit);
     (if op_kind (src2 insn) = CONST_INT then by_imm d (ucast (op_const (src2 insn))) else by_cl d);
     (if is_i32_op (op insn) then movsxd_reg_reg d d else skip_emit);
     store_operand ra (op_reg (dest insn)) d
   }"

definition lower_shl :: "AnaRegAlloc \<Rightarrow> Instruction \<Rightarrow> unit emit" where
  "lower_shl = lower_shift shl_reg_cl shl_reg_imm8"

definition lower_shr :: "AnaRegAlloc \<Rightarrow> Instruction \<Rightarrow> unit emit" where
  "lower_shr = lower_shift sar_reg_cl sar_reg_imm8"

definition lower_ushr :: "AnaRegAlloc \<Rightarrow> Instruction \<Rightarrow> unit emit" where
  "lower_ushr = lower_shift shr_reg_cl shr_reg_imm8"

definition lower_bit :: "(X86Reg \<Rightarrow> X86Reg \<Rightarrow> unit emit) \<Rightarrow> (X86Reg \<Rightarrow> u8 \<Rightarrow> unit emit)
    \<Rightarrow> AnaRegAlloc \<Rightarrow> Instruction \<Rightarrow> unit emit" where
  "lower_bit rr ri ra insn = do {
     s1 \<leftarrow> load_operand ra (src1 insn) RAX;
     let d = dst_reg ra insn RAX;
     mov_reg_reg d s1;
     (if op_kind (src2 insn) = CONST_INT then ri d (ucast (op_const (src2 insn)))
      else do { s2 \<leftarrow> load_operand ra (src2 insn) R11; rr d s2 });
     store_operand ra (op_reg (dest insn)) d
   }"

definition lower_bts :: "AnaRegAlloc \<Rightarrow> Instruction \<Rightarrow> unit emit" where
  "lower_bts = lower_bit bts_reg_reg bts_reg_imm8"

definition lower_btr :: "AnaRegAlloc \<Rightarrow> Instruction \<Rightarrow> unit emit" where
  "lower_btr = lower_bit btr_reg_reg btr_reg_imm8"

definition lower_popcount :: "AnaRegAlloc \<Rightarrow> Instruction \<Rightarrow> unit emit" where
  "lower_popcount ra insn = do {
     s1 \<leftarrow> load_operand ra (src1 insn) RAX;
     let d = dst_reg ra insn RAX;
     popcnt_reg_reg d s1;
     store_operand ra (op_reg (dest insn)) d
   }"

definition lower_lzcnt :: "AnaRegAlloc \<Rightarrow> Instruction \<Rightarrow> unit emit" where
  "lower_lzcnt ra insn = do {
     s1 \<leftarrow> load_operand ra (src1 insn) RAX;
     let d = dst_reg ra insn RAX;
     lzcnt_reg_reg d s1;
     store_operand ra (op_reg (dest insn)) d
   }"

section \<open>Strings, moves and memory\<close>

definition lower_const_string :: "LowerEnv \<Rightarrow> Instruction \<Rightarrow> unit emit" where
  "lower_const_string env insn = do {
     let str_ptr = le_intern env (string_val insn) (string_len insn) (string_hash insn);
     let d = dst_reg (le_ra env) insn RCX;
     mov_reg_imm64 d str_ptr;
     store_operand (le_ra env) (op_reg (dest insn)) d
   }"

definition lower_str_len :: "AnaRegAlloc \<Rightarrow> Instruction \<Rightarrow> unit emit" where
  "lower_str_len ra insn = do {
     let d = dst_reg ra insn RCX;
     mov_reg_imm64 d (string_len insn);
     store_operand ra (op_reg (dest insn)) d
   }"

definition lower_move_const :: "AnaRegAlloc \<Rightarrow> Instruction \<Rightarrow> unit emit" where
  "lower_move_const ra insn = do {
     let d = dst_reg ra insn RCX;
     mov_reg_imm64 d (op_const (src1 insn));
     store_operand ra (op_reg (dest insn)) d
   }"

definition lower_move :: "AnaRegAlloc \<Rightarrow> Instruction \<Rightarrow> unit emit" where
  "lower_move ra insn = do {
     s1 \<leftarrow> load_operand ra (src1 insn) RAX;
     store_operand ra (op_reg (dest insn)) s1
   }"

definition lower_load_mem :: "AnaRegAlloc \<Rightarrow> Instruction \<Rightarrow> unit emit" where
  "lower_load_mem ra insn = do {
     base \<leftarrow> load_operand ra (mem_base (src1 insn)) RAX;
     let d = dst_reg ra insn RAX;
     mov_reg_mem d base (op_mem_offset (src1 insn));
     store_operand ra (op_reg (dest insn)) d
   }"

definition lower_store_mem :: "AnaRegAlloc \<Rightarrow> Instruction \<Rightarrow> unit emit" where
  "lower_store_mem ra insn = do {
     base \<leftarrow> load_operand ra (mem_base (dest insn)) RAX;
     src \<leftarrow> load_operand ra (src1 insn) R11;
     mov_mem_reg base (op_mem_offset (dest insn)) src
   }"

definition lower_bind_vtable :: "AnaRegAlloc \<Rightarrow> Instruction \<Rightarrow> unit emit" where
  "lower_bind_vtable ra insn = do {
     obj \<leftarrow> load_operand ra (src1 insn) RAX;
     mov_reg_imm64 R11 (op_const (src2 insn));
     mov_mem_reg obj 0 R11
   }"

section \<open>Floating point and vectors\<close>

text \<open>Operands are addresses: two loads, the operation, one store through the destination.\<close>

definition lower_vec :: "(u8 \<Rightarrow> X86Reg \<Rightarrow> i32 \<Rightarrow> unit emit) \<Rightarrow> unit emit
    \<Rightarrow> (X86Reg \<Rightarrow> i32 \<Rightarrow> u8 \<Rightarrow> unit emit) \<Rightarrow> AnaRegAlloc \<Rightarrow> Instruction \<Rightarrow> unit emit" where
  "lower_vec ld oper st ra insn = do {
     base1 \<leftarrow> load_operand ra (src1 insn) RDI;
     base2 \<leftarrow> load_operand ra (src2 insn) RSI;
     ld 0 base1 0;
     ld 1 base2 0;
     oper;
     dst_base \<leftarrow> load_operand ra (make_reg (reg_type (op_reg (dest insn))) (reg_index (op_reg (dest insn)))) RAX;
     st dst_base 0 0
   }"

definition lower_add_float32 :: "AnaRegAlloc \<Rightarrow> Instruction \<Rightarrow> unit emit" where
  "lower_add_float32 = lower_vec movss_xmm_mem (addss_xmm_xmm 0 1) movss_mem_xmm"

definition lower_add_float64 :: "AnaRegAlloc \<Rightarrow> Instruction \<Rightarrow> unit emit" where
  "lower_add_float64 = lower_vec movsd_xmm_mem (addsd_xmm_xmm 0 1) movsd_mem_xmm"

definition lower_sub_float64 :: "AnaRegAlloc \<Rightarrow> Instruction \<Rightarrow> unit emit" where
  "lower_sub_float64 = lower_vec movsd_xmm_mem (subsd_xmm_xmm 0 1) movsd_mem_xmm"

definition lower_mul_float64 :: "AnaRegAlloc \<Rightarrow> Instruction \<Rightarrow> unit emit" where
  "lower_mul_float64 = lower_vec movsd_xmm_mem (mulsd_xmm_xmm 0 1) movsd_mem_xmm"

definition lower_div_float64 :: "AnaRegAlloc \<Rightarrow> Instruction \<Rightarrow> unit emit" where
  "lower_div_float64 = lower_vec movsd_xmm_mem (divsd_xmm_xmm 0 1) movsd_mem_xmm"

definition lower_add_i32x4 :: "AnaRegAlloc \<Rightarrow> Instruction \<Rightarrow> unit emit" where
  "lower_add_i32x4 = lower_vec movdqu_xmm_mem (paddd_xmm_xmm 0 1) movdqu_mem_xmm"

definition lower_sub_i32x4 :: "AnaRegAlloc \<Rightarrow> Instruction \<Rightarrow> unit emit" where
  "lower_sub_i32x4 = lower_vec movdqu_xmm_mem (psubd_xmm_xmm 0 1) movdqu_mem_xmm"

definition lower_add_i32x8 :: "AnaRegAlloc \<Rightarrow> Instruction \<Rightarrow> unit emit" where
  "lower_add_i32x8 = lower_vec vmovdqu_ymm_mem (vpaddd_ymm_ymm 0 0 1) vmovdqu_mem_ymm"

definition lower_add_i32x16 :: "AnaRegAlloc \<Rightarrow> Instruction \<Rightarrow> unit emit" where
  "lower_add_i32x16 = lower_vec vmovdqu_zmm_mem (vpaddd_zmm_zmm 0 0 1) vmovdqu_mem_zmm"

definition lower_mul_i32x8 :: "AnaRegAlloc \<Rightarrow> Instruction \<Rightarrow> unit emit" where
  "lower_mul_i32x8 = lower_vec vmovdqu_ymm_mem (vpmulld_ymm_ymm 0 0 1) vmovdqu_mem_ymm"

section \<open>Calls\<close>

definition lower_sink_mem :: "LowerEnv \<Rightarrow> Instruction \<Rightarrow> unit emit" where
  "lower_sink_mem env insn = do {
     v \<leftarrow> load_operand (le_ra env) (src1 insn) RDI;
     (if v \<noteq> RDI then mov_reg_reg RDI v else skip_emit);
     mov_reg_imm64 RAX (le_consume env);
     call_reg RAX
   }"

definition lower_call_virt :: "AnaRegAlloc \<Rightarrow> Instruction \<Rightarrow> unit emit" where
  "lower_call_virt ra insn = do {
     obj \<leftarrow> load_operand ra (src1 insn) RDI;
     (if obj \<noteq> RDI then mov_reg_reg RDI obj else skip_emit);
     mov_reg_mem R11 RDI 0;
     mov_reg_mem R11 R11 (vtable_slot insn * 8);
     call_reg R11;
     (if op_kind (dest insn) = REGISTER then store_operand ra (op_reg (dest insn)) RAX else skip_emit)
   }"

definition find_class :: "LowerEnv \<Rightarrow> Instruction \<Rightarrow> ClassDecl option" where
  "find_class env insn =
     (case (le_classes env, target_label insn) of
        (Some cs, Some n) \<Rightarrow> find (\<lambda>c. streq_impl (cname c) n) cs
      | _ \<Rightarrow> None)"

definition instance_size :: "ClassDecl option \<Rightarrow> u32" where
  "instance_size c = (case c of Some d \<Rightarrow> if csize d > 0 then csize d else 16 | None \<Rightarrow> 16)"

definition lower_new_instance :: "LowerEnv \<Rightarrow> Instruction \<Rightarrow> unit emit" where
  "lower_new_instance env insn = do {
     let c = find_class env insn;
     mov_reg_imm32 RDI (instance_size c);
     mov_reg_imm64 RSI (case c of Some d \<Rightarrow> le_vtable env d | None \<Rightarrow> 0);
     mov_reg_imm32 RDX 1;
     mov_reg_imm64 RAX (le_alloc_object env);
     call_reg RAX;
     store_operand (le_ra env) (op_reg (dest insn)) RAX
   }"

section \<open>Control flow\<close>

definition lower_goto :: "LowerEnv \<Rightarrow> string option \<Rightarrow> Instruction \<Rightarrow> unit emit" where
  "lower_goto env next_label insn =
     (case target_label insn of
        None \<Rightarrow> skip_emit
      | Some t \<Rightarrow>
          if (case next_label of Some l \<Rightarrow> streq_impl l t | None \<Rightarrow> False) then skip_emit
          else do { l \<leftarrow> get_block_label env (Some t); jmp_label l })"

definition lower_if_cmp :: "LowerEnv \<Rightarrow> Instruction \<Rightarrow> unit emit" where
  "lower_if_cmp env insn = do {
     s1 \<leftarrow> load_operand (le_ra env) (src1 insn) RAX;
     (if op_kind (src2 insn) = CONST_INT then cmp_reg_imm32 s1 (ucast (op_const (src2 insn)))
      else do { s2 \<leftarrow> load_operand (le_ra env) (src2 insn) R11; cmp_reg_reg s1 s2 });
     l \<leftarrow> get_block_label env (target_label insn);
     (if op insn = IF_EQ then je_label l
      else if op insn = IF_NE then jne_label l
      else if op insn = IF_LT then jl_label l
      else if op insn = IF_GE then jge_label l
      else skip_emit)
   }"

definition lower_if_zero :: "LowerEnv \<Rightarrow> Instruction \<Rightarrow> unit emit" where
  "lower_if_zero env insn = do {
     s1 \<leftarrow> load_operand (le_ra env) (src1 insn) RAX;
     test_reg_reg s1 s1;
     l \<leftarrow> get_block_label env (target_label insn);
     (if op insn = IF_Z then jz_label l else if op insn = IF_NZ then jnz_label l else skip_emit)
   }"

section \<open>Atomics\<close>

definition lower_cas :: "AnaRegAlloc \<Rightarrow> Instruction \<Rightarrow> unit emit" where
  "lower_cas ra insn = do {
     base \<leftarrow> load_operand ra (mem_base (src1 insn)) RDI;
     desired \<leftarrow> load_operand ra (src2 insn) RSI;
     (if desired \<noteq> RSI then mov_reg_reg RSI desired else skip_emit);
     (if op_kind (dest insn) = REGISTER then do {
        expected \<leftarrow> load_operand ra (dest insn) RAX;
        (if expected \<noteq> RAX then mov_reg_reg RAX expected else skip_emit)
      } else skip_emit);
     lock_cmpxchg_mem_reg base (op_mem_offset (src1 insn)) RSI;
     (if op_kind (dest insn) = REGISTER then store_operand ra (op_reg (dest insn)) RAX else skip_emit)
   }"

definition lower_atomic :: "(X86Reg \<Rightarrow> i32 \<Rightarrow> X86Reg \<Rightarrow> unit emit) \<Rightarrow> AnaRegAlloc \<Rightarrow> Instruction \<Rightarrow> unit emit" where
  "lower_atomic f ra insn = do {
     base \<leftarrow> load_operand ra (mem_base (dest insn)) RDI;
     src \<leftarrow> load_operand ra (src1 insn) RAX;
     f base (op_mem_offset (dest insn)) src
   }"

definition lower_atomic_xchg :: "AnaRegAlloc \<Rightarrow> Instruction \<Rightarrow> unit emit" where
  "lower_atomic_xchg = lower_atomic xchg_mem_reg"

definition lower_atomic_add :: "AnaRegAlloc \<Rightarrow> Instruction \<Rightarrow> unit emit" where
  "lower_atomic_add = lower_atomic lock_add_mem_reg"

definition lower_atomic_and :: "AnaRegAlloc \<Rightarrow> Instruction \<Rightarrow> unit emit" where
  "lower_atomic_and = lower_atomic lock_and_mem_reg"

definition lower_atomic_or :: "AnaRegAlloc \<Rightarrow> Instruction \<Rightarrow> unit emit" where
  "lower_atomic_or = lower_atomic lock_or_mem_reg"

section \<open>Prologue and epilogue\<close>

fun emit_each :: "(nat \<Rightarrow> unit emit) \<Rightarrow> nat list \<Rightarrow> unit emit" where
  "emit_each f [] = skip_emit"
| "emit_each f (i # is) = do { f i; emit_each f is }"

definition lower_prologue :: "AnaRegAlloc \<Rightarrow> unit emit" where
  "lower_prologue ra =
     (if requires_frame ra then do {
        push_reg RBP;
        mov_reg_reg RBP RSP;
        sub_reg_imm32 RSP (of_nat (stack_frame_size ra));
        emit_each (\<lambda>i. mov_mem_reg RBP (- saved_reg_disp i) (saved_reg i)) [0..<unat (saved_reg_count ra)]
      } else skip_emit)"

definition lower_save_params :: "AnaRegAlloc \<Rightarrow> unit emit" where
  "lower_save_params ra =
     emit_each (\<lambda>i.
       let raw = get_param_raw_reg i; loc = get_param_loc ra (of_nat i) in
       if lkind loc = STACK_SPILL then mov_mem_reg RBP (- stack_disp loc) raw
       else if phys_reg loc \<noteq> raw then mov_reg_reg (phys_reg loc) raw else skip_emit)
     [0..<unat (ra_param_count ra)]"

definition lower_epilogue :: "AnaRegAlloc \<Rightarrow> unit emit" where
  "lower_epilogue ra = do {
     (if requires_frame ra then do {
        emit_each (\<lambda>i. mov_reg_mem (saved_reg i) RBP (- saved_reg_disp i)) [0..<unat (saved_reg_count ra)];
        mov_reg_reg RSP RBP;
        pop_reg RBP
      } else skip_emit);
     ret
   }"

definition lower_return_val :: "AnaRegAlloc \<Rightarrow> Instruction \<Rightarrow> unit emit" where
  "lower_return_val ra insn = do {
     r \<leftarrow> load_operand ra (src1 insn) RAX;
     (if r \<noteq> RAX then mov_reg_reg RAX r else skip_emit);
     lower_epilogue ra
   }"

section \<open>The switch and the function\<close>

definition lower_insn :: "LowerEnv \<Rightarrow> string option \<Rightarrow> Instruction \<Rightarrow> unit emit" where
  "lower_insn env nxt insn =
     (let ra = le_ra env in
      case op insn of
        ADD_I32 \<Rightarrow> lower_add ra insn | ADD_I64 \<Rightarrow> lower_add ra insn
      | SUB_I32 \<Rightarrow> lower_sub ra insn | SUB_I64 \<Rightarrow> lower_sub ra insn
      | NEG_I32 \<Rightarrow> lower_neg ra insn | NEG_I64 \<Rightarrow> lower_neg ra insn
      | CONST_STRING \<Rightarrow> lower_const_string env insn | STR_LEN \<Rightarrow> lower_str_len ra insn
      | MUL_I32 \<Rightarrow> lower_mul ra insn | MUL_I64 \<Rightarrow> lower_mul ra insn
      | DIV_I32 \<Rightarrow> lower_div ra insn | DIV_I64 \<Rightarrow> lower_div ra insn
      | AND_I32 \<Rightarrow> lower_and ra insn | AND_I64 \<Rightarrow> lower_and ra insn
      | OR_I32 \<Rightarrow> lower_or ra insn | OR_I64 \<Rightarrow> lower_or ra insn
      | XOR_I32 \<Rightarrow> lower_xor ra insn | XOR_I64 \<Rightarrow> lower_xor ra insn
      | SHL_I32 \<Rightarrow> lower_shl ra insn | SHL_I64 \<Rightarrow> lower_shl ra insn
      | SHR_I32 \<Rightarrow> lower_shr ra insn | SHR_I64 \<Rightarrow> lower_shr ra insn
      | USHR_I32 \<Rightarrow> lower_ushr ra insn | USHR_I64 \<Rightarrow> lower_ushr ra insn
      | BTS_I64 \<Rightarrow> lower_bts ra insn | BTR_I64 \<Rightarrow> lower_btr ra insn
      | POPCOUNT_I64 \<Rightarrow> lower_popcount ra insn | LZCNT_I64 \<Rightarrow> lower_lzcnt ra insn
      | ADD_FLOAT_32 \<Rightarrow> lower_add_float32 ra insn | ADD_FLOAT_64 \<Rightarrow> lower_add_float64 ra insn
      | SUB_FLOAT_64 \<Rightarrow> lower_sub_float64 ra insn | MUL_FLOAT_64 \<Rightarrow> lower_mul_float64 ra insn
      | DIV_FLOAT_64 \<Rightarrow> lower_div_float64 ra insn
      | ADD_VECTOR_I32X4 \<Rightarrow> lower_add_i32x4 ra insn | SUB_VECTOR_I32X4 \<Rightarrow> lower_sub_i32x4 ra insn
      | ADD_VECTOR_I32X8 \<Rightarrow> lower_add_i32x8 ra insn | ADD_VECTOR_I32X16 \<Rightarrow> lower_add_i32x16 ra insn
      | MUL_VECTOR_I32X8 \<Rightarrow> lower_mul_i32x8 ra insn
      | SINK_MEM \<Rightarrow> lower_sink_mem env insn
      | MOVE_CONST \<Rightarrow> lower_move_const ra insn | MOVE \<Rightarrow> lower_move ra insn
      | LOAD_MEM \<Rightarrow> lower_load_mem ra insn | STORE_MEM \<Rightarrow> lower_store_mem ra insn
      | BIND_VTABLE \<Rightarrow> lower_bind_vtable ra insn
      | CALL_VIRT \<Rightarrow> lower_call_virt ra insn | CALL_VIRT_FAST \<Rightarrow> lower_call_virt ra insn
      | NEW_INSTANCE \<Rightarrow> lower_new_instance env insn
      | GOTO \<Rightarrow> lower_goto env nxt insn
      | IF_EQ \<Rightarrow> lower_if_cmp env insn | IF_NE \<Rightarrow> lower_if_cmp env insn
      | IF_LT \<Rightarrow> lower_if_cmp env insn | IF_GE \<Rightarrow> lower_if_cmp env insn
      | IF_Z \<Rightarrow> lower_if_zero env insn | IF_NZ \<Rightarrow> lower_if_zero env insn
      | ATOMIC_CAS_I64 \<Rightarrow> lower_cas ra insn | ATOMIC_XCHG_I64 \<Rightarrow> lower_atomic_xchg ra insn
      | ATOMIC_ADD_I64 \<Rightarrow> lower_atomic_add ra insn | ATOMIC_AND_I64 \<Rightarrow> lower_atomic_and ra insn
      | ATOMIC_OR_I64 \<Rightarrow> lower_atomic_or ra insn
      | FENCE \<Rightarrow> mfence
      | RETURN_VAL \<Rightarrow> lower_return_val ra insn | RETURN_VOID \<Rightarrow> lower_epilogue ra
      | _ \<Rightarrow> skip_emit)"

fun lower_insns :: "LowerEnv \<Rightarrow> string option \<Rightarrow> Instruction list \<Rightarrow> unit emit" where
  "lower_insns env nxt [] = skip_emit"
| "lower_insns env nxt (i # is) = do { lower_insn env nxt i; lower_insns env nxt is }"

text \<open>The loop over the blocks; the labels are those created for the blocks, in order.\<close>

fun lower_blocks :: "LowerEnv \<Rightarrow> BasicBlock list \<Rightarrow> u32 list \<Rightarrow> unit emit" where
  "lower_blocks env (bb # bbs) (l # ls) = do {
     bind_label l;
     lower_insns env (case bbs of [] \<Rightarrow> None | b # _ \<Rightarrow> Some (label b)) (insns bb);
     lower_blocks env bbs ls
   }"
| "lower_blocks env _ _ = skip_emit"

fun make_labels :: "nat \<Rightarrow> u32 list emit" where
  "make_labels 0 = State_Monad.return []"
| "make_labels (Suc n) = do { l \<leftarrow> new_label; ls \<leftarrow> make_labels n; State_Monad.return (l # ls) }"

text \<open>Everything up to the resolution of the labels.\<close>

definition emit_function :: "LowerEnv \<Rightarrow> Function \<Rightarrow> unit emit" where
  "emit_function env0 fn = do {
     let ra = allocate_registers fn;
     ls \<leftarrow> make_labels (length (blocks fn));
     let env = env0\<lparr>le_ra := ra, le_labels := zip (map label (blocks fn)) ls\<rparr>;
     lower_prologue ra;
     lower_save_params ra;
     lower_blocks env (blocks fn) ls
   }"

text \<open>
  The whole path: \<open>None\<close> is the null pointer, \<open>Some (n, code)\<close> a mapping of \<open>n\<close>
  bytes that starts with the code. \<open>mprotect_ok\<close> is the outcome of making it executable.
\<close>

definition compile_function :: "LowerEnv \<Rightarrow> (nat \<Rightarrow> nat \<Rightarrow> bool) \<Rightarrow> bool \<Rightarrow> Function \<Rightarrow> (nat \<times> bytes) option" where
  "compile_function env mm mprotect_ok fn =
     (if length (blocks fn) > 512 then None
      else
        (let (ok, e) = run_state (do { emit_function env fn; resolve_labels }) (new_encoder mm) in
         if \<not> ok then None
         else if buf e = [] \<or> failed e then None
         else
           (let map_sz = (length (buf e) + 4095) div 4096 * 4096 in
            if \<not> mm (e_calls e) map_sz then None
            else if \<not> mprotect_ok then None
            else Some (map_sz, buf e))))"
section \<open>What lowering keeps\<close>

text \<open>Whatever the emitters keep of the encoder, the whole of lowering keeps.\<close>

context emitter_rel
begin

lemma keeps_skip: "keeps skip_emit"
  by (rule keeps_ret)

lemma keeps_load_operand: "keeps (load_operand ra opd r)"
  unfolding load_operand_def Let_def
  by (cases opd) (auto intro!: keeps_emitters)

lemma keeps_store_operand: "keeps (store_operand ra r s)"
  unfolding store_operand_def Let_def by (intro keeps_emitters keeps_skip)

lemma keeps_block_label: "keeps (get_block_label env n)"
  unfolding get_block_label_def by (auto split: option.splits intro: keeps_emitters)

lemma keeps_emit_each: "(\<And>i. keeps (f i)) \<Longrightarrow> keeps (emit_each f is)"
  by (induction "is") (auto intro: keeps_skip keeps_bind)

lemmas keeps_lower = keeps_skip keeps_load_operand keeps_store_operand keeps_block_label
  keeps_emitters

lemma keeps_lower_alu:
  assumes "\<And>a b. keeps (rr a b)" "\<And>a w. keeps (ri a w)"
  shows "keeps (lower_alu rr ri ra insn)"
  unfolding lower_alu_def Let_def by (intro keeps_lower assms)

lemma keeps_lower_shift:
  assumes "\<And>a. keeps (bc a)" "\<And>a i. keeps (bi a i)"
  shows "keeps (lower_shift bc bi ra insn)"
  unfolding lower_shift_def Let_def by (intro keeps_lower assms)

lemma keeps_lower_bit:
  assumes "\<And>a b. keeps (rr a b)" "\<And>a i. keeps (ri a i)"
  shows "keeps (lower_bit rr ri ra insn)"
  unfolding lower_bit_def Let_def by (intro keeps_lower assms)

lemma keeps_lower_vec:
  assumes "\<And>i a w. keeps (ld i a w)" "keeps m" "\<And>a w i. keeps (st a w i)"
  shows "keeps (lower_vec ld m st ra insn)"
  unfolding lower_vec_def Let_def by (intro keeps_lower assms)

lemma keeps_lower_atomic:
  assumes "\<And>a w b. keeps (f a w b)"
  shows "keeps (lower_atomic f ra insn)"
  unfolding lower_atomic_def Let_def by (intro keeps_lower assms)

lemmas keeps_shapes = keeps_lower_alu keeps_lower_shift keeps_lower_bit keeps_lower_vec keeps_lower_atomic

lemma keeps_lower_integer:
  "keeps (lower_add ra insn)" "keeps (lower_sub ra insn)" "keeps (lower_and ra insn)"
  "keeps (lower_or ra insn)" "keeps (lower_xor ra insn)" "keeps (lower_shl ra insn)"
  "keeps (lower_shr ra insn)" "keeps (lower_ushr ra insn)" "keeps (lower_bts ra insn)"
  "keeps (lower_btr ra insn)"
  unfolding lower_add_def lower_sub_def lower_and_def lower_or_def lower_xor_def lower_shl_def
    lower_shr_def lower_ushr_def lower_bts_def lower_btr_def
  by (intro keeps_shapes keeps_emitters)+

lemma keeps_lower_vectors:
  "keeps (lower_add_float32 ra insn)" "keeps (lower_add_float64 ra insn)"
  "keeps (lower_sub_float64 ra insn)" "keeps (lower_mul_float64 ra insn)"
  "keeps (lower_div_float64 ra insn)" "keeps (lower_add_i32x4 ra insn)"
  "keeps (lower_sub_i32x4 ra insn)" "keeps (lower_add_i32x8 ra insn)"
  "keeps (lower_add_i32x16 ra insn)" "keeps (lower_mul_i32x8 ra insn)"
  unfolding lower_add_float32_def lower_add_float64_def lower_sub_float64_def lower_mul_float64_def
    lower_div_float64_def lower_add_i32x4_def lower_sub_i32x4_def lower_add_i32x8_def
    lower_add_i32x16_def lower_mul_i32x8_def
  by (intro keeps_shapes keeps_emitters)+

lemma keeps_lower_muldiv:
  "keeps (lower_neg ra insn)" "keeps (lower_mul ra insn)"
  "keeps (lower_popcount ra insn)" "keeps (lower_lzcnt ra insn)"
  unfolding lower_neg_def lower_mul_def lower_popcount_def lower_lzcnt_def Let_def
  by (intro keeps_lower)+

lemma keeps_lower_data:
  "keeps (lower_const_string env insn)" "keeps (lower_str_len ra insn)"
  "keeps (lower_move_const ra insn)" "keeps (lower_move ra insn)" "keeps (lower_load_mem ra insn)"
  "keeps (lower_store_mem ra insn)" "keeps (lower_bind_vtable ra insn)"
  unfolding lower_const_string_def lower_str_len_def lower_move_const_def lower_move_def
    lower_load_mem_def lower_store_mem_def lower_bind_vtable_def Let_def
  by (intro keeps_lower)+

lemma keeps_lower_calls:
  "keeps (lower_sink_mem env insn)" "keeps (lower_call_virt ra insn)"
  "keeps (lower_new_instance env insn)"
  unfolding lower_sink_mem_def lower_call_virt_def lower_new_instance_def Let_def
  by (intro keeps_lower)+

lemma keeps_lower_branches:
  "keeps (lower_goto env nxt insn)" "keeps (lower_if_cmp env insn)" "keeps (lower_if_zero env insn)"
  unfolding lower_goto_def lower_if_cmp_def lower_if_zero_def
  by (intro keeps_lower)+

lemma keeps_lower_atomics:
  "keeps (lower_cas ra insn)" "keeps (lower_atomic_xchg ra insn)" "keeps (lower_atomic_add ra insn)"
  "keeps (lower_atomic_and ra insn)" "keeps (lower_atomic_or ra insn)"
  unfolding lower_cas_def lower_atomic_xchg_def lower_atomic_add_def lower_atomic_and_def
    lower_atomic_or_def
  by (intro keeps_lower keeps_shapes)+

lemma keeps_lower_frame:
  "keeps (lower_prologue ra)" "keeps (lower_save_params ra)" "keeps (lower_epilogue ra)"
  "keeps (lower_return_val ra insn)"
  unfolding lower_prologue_def lower_save_params_def lower_return_val_def lower_epilogue_def Let_def
  by (intro keeps_lower keeps_emit_each)+

lemmas keeps_cases = keeps_lower_integer keeps_lower_vectors keeps_lower_muldiv keeps_lower_data
  keeps_lower_calls keeps_lower_branches keeps_lower_atomics keeps_lower_frame keeps_skip
  keeps_atomics

text \<open>Division is the one case that binds labels of its own.\<close>

lemma keeps_lower_insn_if:
  assumes "keeps (lower_div (le_ra env) insn)"
  shows "keeps (lower_insn env nxt insn)"
  using assms unfolding lower_insn_def Let_def by (cases "op insn") (simp_all add: keeps_cases)

lemma keeps_make_labels: "keeps (make_labels n)"
  by (induction n) (auto intro!: keeps_emit)

end

context encoder_rel
begin

lemma keeps_lower_div: "keeps (lower_div ra insn)"
  unfolding lower_div_def Let_def by (intro keeps_lower keeps_bind_label)

lemma keeps_lower_insn: "keeps (lower_insn env nxt insn)"
  by (intro keeps_lower_insn_if keeps_lower_div)

lemma keeps_lower_insns: "keeps (lower_insns env nxt is)"
  by (induction "is") (auto intro: keeps_skip keeps_bind keeps_lower_insn)

lemma keeps_lower_blocks: "keeps (lower_blocks env bbs ls)"
  by (induction env bbs ls rule: lower_blocks.induct)
     (auto intro!: keeps_skip keeps_bind keeps_lower_insns keeps_bind_label)

end
context encoder_rel
begin

lemma keeps_emit_function: "keeps (emit_function env fn)"
  unfolding emit_function_def Let_def
  by (intro keeps_bind keeps_make_labels keeps_lower_frame keeps_lower_blocks)

end

section \<open>Labels of blocks\<close>

text \<open>
  Emission only appends: code, branches and labels that were there stay as they are. The
  first \<open>n\<close> labels are the protected ones; binding a later label leaves them alone.
\<close>

definition ext :: "nat \<Rightarrow> AnaEncoder \<Rightarrow> AnaEncoder \<Rightarrow> bool" where
  "ext n e e' \<longleftrightarrow> (failed e \<longrightarrow> failed e')
     \<and> (\<not> failed e' \<longrightarrow> n \<le> length (labels e) \<longrightarrow>
          n \<le> length (labels e') \<and> take n (labels e') = take n (labels e)
          \<and> prefix (buf e) (buf e') \<and> prefix (relocs e) (relocs e'))"

lemma ext_put: "ext n e (exec (put_bytes bs) e)"
  using put_bytes_effect [where bs = bs and e = e] by (auto simp: ext_def)

lemma ext_trans: "ext n e f \<Longrightarrow> ext n f g \<Longrightarrow> ext n e g"
  unfolding ext_def by (metis prefix_order.trans)

lemma ext_reloc: "ext n e (exec (add_reloc l j) e)"
  using add_reloc_effect [where l = l and jcc = j and e = e] by (auto simp: ext_def)

interpretation ext: emitter_rel "ext n" for n
proof
  fix e e' e'' bs opc l jcc
  show "ext n e e" by (simp add: ext_def)
  show "ext n e e' \<Longrightarrow> ext n e' e'' \<Longrightarrow> ext n e e''" by (rule ext_trans)
  show "ext n e (exec (put_bytes bs) e)" by (rule ext_put)
  show "ext n e (exec new_label e)" by (auto simp: ext_def new_label_def)
  show "ext n e (exec (emit_branch opc l jcc) e)"
    unfolding branch_exec emit32_def by (meson ext_put ext_reloc ext_trans)
qed

lemma ext_bind_label: "n \<le> unat l \<Longrightarrow> ext.keeps n (bind_label l)"
  by (rule ext.keepsI) (auto simp: ext_def bind_label_def)

lemma ext_fresh:
  assumes "\<And>l. n \<le> unat l \<Longrightarrow> ext.keeps n (f l)" "\<And>l. latch.keeps (f l)"
  shows "ext.keeps n (new_label \<bind> f)"
proof (rule ext.keepsI)
  fix e :: AnaEncoder
  let ?e = "exec new_label e" and ?l = "fst (run_state new_label e)"
  have r: "exec (new_label \<bind> f) e = exec (f ?l) ?e"
    by (simp add: case_prod_beta)
  show "ext n e (exec (new_label \<bind> f) e)"
  proof (cases "n \<le> length (labels e) \<and> length (labels e) < kMaxLabels")
    case True
    then have "n \<le> unat ?l"
      by (simp add: new_label_def kMaxLabels_def unat_of_nat)
    then show ?thesis
      unfolding r using assms(1) ext.R_new_label ext.R_run by blast
  next
    case False
    then show ?thesis
      using latch.keepsD [OF assms(2) [of ?l], of ?e] unfolding r
      by (auto simp: ext_def new_label_def split: if_splits)
  qed
qed

lemma ext_lower_div: "ext.keeps n (lower_div ra insn)"
proof -
  have "ext.keeps n (new_label \<bind> (\<lambda>z. new_label \<bind> (\<lambda>g. new_label \<bind> (\<lambda>d. m z g d))))"
    if "\<And>z g d. n \<le> unat z \<Longrightarrow> n \<le> unat g \<Longrightarrow> n \<le> unat d \<Longrightarrow> ext.keeps n (m z g d)"
       "\<And>z g d. latch.keeps (m z g d)" for m :: "u32 \<Rightarrow> u32 \<Rightarrow> u32 \<Rightarrow> unit emit"
    by (intro ext_fresh that latch.keeps_emit)
  note fresh = this
  show ?thesis
    unfolding lower_div_def Let_def
    by (intro ext.keeps_bind [OF fresh] fresh ext.keeps_lower ext_bind_label latch.keeps_lower
        latch.keeps_bind_label | assumption)+
qed

lemma ext_lower_insns: "ext.keeps n (lower_insns env nxt is)"
  by (induction "is") (auto intro: ext.keeps_skip ext.keeps_bind ext.keeps_lower_insn_if ext_lower_div)

text \<open>The positions at which the blocks start.\<close>

fun block_starts :: "LowerEnv \<Rightarrow> BasicBlock list \<Rightarrow> u32 list \<Rightarrow> AnaEncoder \<Rightarrow> nat list" where
  "block_starts env (bb # bbs) (l # ls) e =
     length (buf e) # block_starts env bbs ls
       (exec (lower_insns env (case bbs of [] \<Rightarrow> None | b # _ \<Rightarrow> Some (label b)) (insns bb))
         (exec (bind_label l) e))"
| "block_starts env _ _ e = []"

lemma lower_blocks_labels:
  assumes "\<not> failed (exec (lower_blocks env bbs ls) e)" "length ls = length bbs" "distinct ls"
    "\<forall>l \<in> set ls. unat l < n" "n \<le> length (labels e)"
  shows "n \<le> length (labels (exec (lower_blocks env bbs ls) e))
    \<and> (\<forall>j < n. j \<notin> unat ` set ls \<longrightarrow> labels (exec (lower_blocks env bbs ls) e) ! j = labels e ! j)
    \<and> map (\<lambda>l. labels (exec (lower_blocks env bbs ls) e) ! unat l) ls
        = map (\<lambda>k. \<lparr>loffset = of_nat k, bound = True\<rparr>) (block_starts env bbs ls e)"
  using assms
proof (induction env bbs ls arbitrary: e rule: lower_blocks.induct)
  case (1 env bb bbs l ls)
  let ?b = "exec (bind_label l) e"
  let ?is = "lower_insns env (case bbs of [] \<Rightarrow> None | b # _ \<Rightarrow> Some (label b)) (insns bb)"
  let ?i = "exec ?is ?b" and ?r = "exec (lower_blocks env (bb # bbs) (l # ls)) e"
  have r: "?r = exec (lower_blocks env bbs ls) ?i"
    by (simp add: case_prod_beta)
  have fi: "\<not> failed ?i"
    using "1.prems"(1) latch.keepsD [OF latch.keeps_lower_blocks, of ?i env bbs ls] unfolding r by blast
  have l: "unat l < n" "unat l < length (labels e)" "l \<notin> set ls"
    using "1.prems" by auto
  have b: "length (labels ?b) = length (labels e)" "labels ?b ! unat l = \<lparr>loffset = of_nat (length (buf e)), bound = True\<rparr>"
    "\<And>j. j \<noteq> unat l \<Longrightarrow> labels ?b ! j = labels e ! j"
    using l by (simp_all add: bind_label_def)
  have x: "n \<le> length (labels ?i)" "take n (labels ?i) = take n (labels ?b)"
    using ext.keepsD [OF ext_lower_insns, of n ?b env _ "insns bb"] fi "1.prems"(5) b(1)
    by (auto simp: ext_def)
  have i: "labels ?i ! j = labels ?b ! j" if "j < n" for j
    using that x(2) by (metis nth_take)
  have IH: "n \<le> length (labels ?r)
      \<and> (\<forall>j < n. j \<notin> unat ` set ls \<longrightarrow> labels ?r ! j = labels ?i ! j)
      \<and> map (\<lambda>l. labels ?r ! unat l) ls = map (\<lambda>k. \<lparr>loffset = of_nat k, bound = True\<rparr>) (block_starts env bbs ls ?i)"
    unfolding r using "1.prems" x(1) r by (intro "1.IH") (simp_all add: case_prod_beta)
  moreover have "unat l \<notin> unat ` set ls"
    using l(3) by (auto dest: word_unat_eq_iff [THEN iffD2])
  ultimately show ?case
    using i b l by (auto simp: case_prod_beta)
qed auto

lemma make_labels_effect:
  assumes "\<not> failed (exec (make_labels n) e)"
  shows "fst (run_state (make_labels n) e) = map of_nat [length (labels e)..<length (labels e) + n]
    \<and> length (labels (exec (make_labels n) e)) = length (labels e) + n
    \<and> length (labels e) + n \<le> max kMaxLabels (length (labels e))
    \<and> buf (exec (make_labels n) e) = buf e"
  using assms
proof (induction n arbitrary: e)
  case (Suc n)
  let ?e = "exec new_label e"
  have r: "exec (make_labels (Suc n)) e = exec (make_labels n) ?e"
      "fst (run_state (make_labels (Suc n)) e) = fst (run_state new_label e) # fst (run_state (make_labels n) ?e)"
    by (simp_all add: case_prod_beta)
  have "\<not> failed ?e"
    using Suc.prems latch.keepsD [OF latch.keeps_make_labels, of ?e n] unfolding r by blast
  then have "length (labels e) < kMaxLabels"
    by (auto simp: new_label_def split: if_splits)
  then show ?case
    using Suc.IH [of ?e] Suc.prems unfolding r
    by (auto simp: new_label_def upt_conv_Cons Suc_le_eq)
qed simp

text \<open>The code before the first block, and where the blocks of a function start.\<close>

definition entry_code :: "Function \<Rightarrow> u32 list emit" where
  "entry_code fn = do {
     ls \<leftarrow> make_labels (length (blocks fn));
     lower_prologue (allocate_registers fn);
     lower_save_params (allocate_registers fn);
     State_Monad.return ls
   }"

definition block_env :: "LowerEnv \<Rightarrow> Function \<Rightarrow> u32 list \<Rightarrow> LowerEnv" where
  "block_env env fn ls = env\<lparr>le_ra := allocate_registers fn, le_labels := zip (map label (blocks fn)) ls\<rparr>"

definition function_starts :: "LowerEnv \<Rightarrow> Function \<Rightarrow> AnaEncoder \<Rightarrow> nat list" where
  "function_starts env fn e = (let (ls, e') = run_state (entry_code fn) e in
     block_starts (block_env env fn ls) (blocks fn) ls e')"

lemma emit_function_alt:
  "emit_function env fn = do { ls \<leftarrow> entry_code fn; lower_blocks (block_env env fn ls) (blocks fn) ls }"
  by (simp add: emit_function_def entry_code_def block_env_def Let_def)

lemma entry_code_labels:
  assumes "\<not> failed (exec (entry_code fn) e)" "labels e = []"
  shows "fst (run_state (entry_code fn) e) = map of_nat [0..<length (blocks fn)]
    \<and> length (blocks fn) \<le> length (labels (exec (entry_code fn) e)) \<and> length (blocks fn) \<le> kMaxLabels"
proof -
  let ?n = "length (blocks fn)"
  let ?m = "exec (make_labels ?n) e"
  let ?rest = "do { lower_prologue (allocate_registers fn); lower_save_params (allocate_registers fn) }"
  have run: "fst (run_state (entry_code fn) e) = fst (run_state (make_labels ?n) e)"
      "exec (entry_code fn) e = exec ?rest ?m"
    by (simp_all add: entry_code_def case_prod_beta)
  have "\<not> failed ?m"
    using assms(1) latch.keepsD [of ?rest ?m] unfolding run
    by (blast intro: latch.keeps_bind latch.keeps_lower_frame)
  note m = make_labels_effect [OF this]
  have "ext ?n ?m (exec ?rest ?m)"
    by (intro ext.keepsD ext.keeps_bind ext.keeps_lower_frame)
  then show ?thesis
    using m assms unfolding run by (simp add: ext_def)
qed

lemma new_encoder_labels [simp]: "labels (new_encoder mm) = []"
  by (simp add: new_encoder_def reset_def ensure_capacity_def Let_def)

lemma emit_function_labels:
  assumes "\<not> failed (exec (emit_function env fn) (new_encoder mm))"
  defines "e \<equiv> exec (emit_function env fn) (new_encoder mm)"
  shows "length (blocks fn) \<le> length (labels e) \<and> length (blocks fn) \<le> kMaxLabels
    \<and> map (\<lambda>i. labels e ! i) [0..<length (blocks fn)]
        = map (\<lambda>k. \<lparr>loffset = of_nat k, bound = True\<rparr>) (function_starts env fn (new_encoder mm))"
proof -
  let ?e0 = "new_encoder mm" and ?n = "length (blocks fn)"
  define c where "c = exec (entry_code fn) ?e0"
  define ls where "ls = fst (run_state (entry_code fn) ?e0)"
  have run: "e = exec (lower_blocks (block_env env fn ls) (blocks fn) ls) c"
      "function_starts env fn ?e0 = block_starts (block_env env fn ls) (blocks fn) ls c"
    by (simp_all add: e_def c_def ls_def emit_function_alt function_starts_def case_prod_beta)
  have fe: "\<not> failed e"
    using assms by simp
  then have "\<not> failed c"
    using latch.keepsD [OF latch.keeps_lower_blocks] unfolding run by blast
  then have l: "ls = map of_nat [0..<?n]" "?n \<le> length (labels c)" "?n \<le> kMaxLabels"
    using entry_code_labels [of fn ?e0] by (simp_all add: c_def ls_def)
  then have u: "unat (of_nat i :: u32) = i" if "i < ?n" for i
    using that by (simp add: kMaxLabels_def unat_of_nat)
  have "inj_on (of_nat :: nat \<Rightarrow> u32) {0..<?n}"
    by (rule inj_onI) (metis atLeastLessThan_iff u)
  then have "distinct ls" "\<forall>l \<in> set ls. unat l < ?n" "length ls = ?n"
    using u by (auto simp: l(1) distinct_map)
  note lower_blocks_labels [OF fe [unfolded run] this(3,1,2) l(2)]
  moreover have "map (\<lambda>l. labels e ! unat l) ls = map (\<lambda>i. labels e ! i) [0..<?n]"
    by (simp add: l(1) u)
  ultimately show ?thesis
    using l(3) unfolding run by simp
qed
section \<open>Properties\<close>

lemma compile_function_run:
  assumes "compile_function env mm mp fn = Some (n, code)"
  defines "e \<equiv> exec (emit_function env fn) (new_encoder mm)"
  shows "length (blocks fn) \<le> 512" "code \<noteq> []" "n = (length code + 4095) div 4096 * 4096"
    "\<not> failed e" "resolve_loop (labels e) (relocs e) (buf e) = (True, code)"
  using assms
  by (auto simp: compile_function_def resolve_labels_def Let_def split: if_splits prod.splits)

lemma round4096_less: "(n + 4095) div 4096 * (4096 :: nat) < n + 4096"
  using div_mult_mod_eq [of "n + 4095" 4096] by linarith

lemma emit_function_ok:
  "tables_ok (exec (emit_function env fn) (new_encoder mm))"
  "in_bounds (exec (emit_function env fn) (new_encoder mm))"
  using tables.keepsD [OF tables.keeps_emit_function] tables_ok_new
    room.keepsD [OF room.keeps_emit_function] in_bounds_new by blast+

text \<open>The branches of a compiled function are resolved, and its code has the emitted length.\<close>

lemma compile_function_resolved:
  assumes "compile_function env mm mp fn = Some (n, code)"
  defines "e \<equiv> exec (emit_function env fn) (new_encoder mm)"
  shows "length code = length (buf e) \<and> (\<forall>r \<in> set (relocs e). reloc_done (labels e) code r)"
proof -
  note c = compile_function_run [OF assms(1), folded e_def]
  have "relocs_ok (relocs e) (length (buf e))"
    using c(4) emit_function_ok(1) [of env fn mm] by (simp add: tables_ok_def e_def)
  then show ?thesis
    using resolve_loop_ok [OF c(5)] by blast
qed

lemma block_starts_le:
  "k \<in> set (block_starts env bbs ls e) \<Longrightarrow> k \<le> length (buf (exec (lower_blocks env bbs ls) e))"
proof (induction env bbs ls arbitrary: e rule: lower_blocks.induct)
  case (1 env bb bbs l ls)
  then show ?case
    using grows.keepsD [OF grows.keeps_lower_blocks, of e env "bb # bbs" "l # ls"]
    by (auto simp: case_prod_beta)
qed auto

lemma function_starts_le:
  "k \<in> set (function_starts env fn e) \<Longrightarrow> k \<le> length (buf (exec (emit_function env fn) e))"
  by (auto simp: function_starts_def emit_function_alt case_prod_beta dest: block_starts_le)

text \<open>
  Claim C13. A compiled function is a whole image in its mapping: it is not empty, the mapping is a
  multiple of the page size that holds it with less than a page to spare, it has the length
  of the code that was emitted, emission stayed inside the encoder's buffer, and at most
  512 blocks were labelled.
\<close>
theorem compile_function_image:
  assumes "compile_function env mm mp fn = Some (n, code)"
  shows "code \<noteq> [] \<and> length code \<le> n \<and> n < length code + 4096 \<and> 4096 dvd n
    \<and> length code = length (buf (exec (emit_function env fn) (new_encoder mm)))
    \<and> length code \<le> capacity (exec (emit_function env fn) (new_encoder mm))
    \<and> length (blocks fn) \<le> kMaxLabels"
proof -
  note c = compile_function_run [OF assms]
  have "length code \<le> n" "n < length code + 4096"
    using c(3) round4096_ge [of "length code"] round4096_less [of "length code"] by simp_all
  then show ?thesis
    using c compile_function_resolved [OF assms] emit_function_ok(2) [of env fn mm]
    by (simp add: in_bounds_def kMaxLabels_def)
qed

text \<open>
  Branches reach blocks: in a compiled function of less than two gigabytes, every
  branch whose label belongs to block \<open>i\<close> carries a displacement that takes it exactly to
  the position at which the code of block \<open>i\<close> starts.
\<close>
theorem branches_reach_blocks:
  assumes "compile_function env mm mp fn = Some (n, code)" "length code < 2 ^ 31"
    "r \<in> set (relocs (exec (emit_function env fn) (new_encoder mm)))"
    "unat (label_id r) < length (blocks fn)"
  shows "int (patch_offset r + 4) + sint (of_nbytes 4 (drop (patch_offset r) code) :: i32)
    = int (function_starts env fn (new_encoder mm) ! unat (label_id r))"
proof -
  let ?e = "exec (emit_function env fn) (new_encoder mm)" and ?i = "unat (label_id r)"
  let ?starts = "function_starts env fn (new_encoder mm)"
  note c = compile_function_run [OF assms(1)] and d = compile_function_resolved [OF assms(1)]
  have m: "map (\<lambda>i. labels ?e ! i) [0..<length (blocks fn)]
      = map (\<lambda>k. \<lparr>loffset = of_nat k, bound = True\<rparr>) ?starts"
    using emit_function_labels [OF c(4)] by simp
  then have i: "?i < length ?starts"
    using assms(4) by (metis length_map length_upt minus_nat.diff_0)
  have l: "labels ?e ! ?i = \<lparr>loffset = of_nat (?starts ! ?i), bound = True\<rparr>"
    using arg_cong [OF m, of "\<lambda>xs. xs ! ?i"] i assms(4) by simp
  have "?starts ! ?i < 2 ^ 31"
    using function_starts_le [OF nth_mem [OF i]] d assms(2) by simp
  then have "sint (of_nat (?starts ! ?i) :: i32) = int (?starts ! ?i)"
    using sint_of_int_range [of "int (?starts ! ?i)"] by simp
  moreover have "sint (of_nbytes 4 (drop (patch_offset r) code) :: i32) = reloc_rel (labels ?e) r"
    using d assms(3) by (blast intro: reloc_done_displacement)
  ultimately show ?thesis
    by (simp add: reloc_rel_def l)
qed
definition plain_insn :: "Opcode \<Rightarrow> string option \<Rightarrow> Instruction" where
  "plain_insn oc t = \<lparr>op = oc, dest = OpNone, src1 = OpNone, src2 = OpNone, vtable_slot = - 1,
     target_label = t, string_val = None, string_len = 0, string_hash = 0, is_likely = True\<rparr>"

definition loop_function :: Function where
  "loop_function = \<lparr>fn_name = ''loop'', return_type = VOID, params = [], param_count = 0, local_count = 0,
     blocks = [\<lparr>label = ''.head'', insns = [plain_insn RETURN_VOID None]\<rparr>,
               \<lparr>label = ''.back'', insns = [plain_insn GOTO (Some ''.head'')]\<rparr>]\<rparr>"

definition empty_env :: LowerEnv where
  "empty_env = \<lparr>le_ra = allocate_registers loop_function, le_labels = [], le_classes = None,
     le_intern = (\<lambda>_ _ _. 0), le_vtable = (\<lambda>_. 0), le_alloc_object = 0, le_consume = 0\<rparr>"

definition loop_code :: bytes where
  "loop_code = [85, 72, 137, 229, 72, 131, 236, 16, 72, 137, 93, 248, 72, 139, 93, 248,
    72, 137, 236, 93, 195, 233, 242, 255, 255, 255]"

lemma loop_compiles: "compile_function empty_env (\<lambda>_ _. True) True loop_function = Some (4096, loop_code)"
  by code_simp

lemma loop_branch:
  "relocs (exec (emit_function empty_env loop_function) (new_encoder (\<lambda>_ _. True)))
     = [\<lparr>label_id = 0, patch_offset = 22, is_jcc_rel32 = False\<rparr>]"
  by code_simp

theorem compile_function_image_witness:
  "compile_function empty_env (\<lambda>_ _. True) True loop_function = Some (4096, loop_code)
   \<and> length loop_code \<le> 4096 \<and> length (blocks loop_function) \<le> kMaxLabels"
  using compile_function_image [OF loop_compiles] loop_compiles by simp

theorem branches_reach_blocks_witness:
  "int (22 + 4) + sint (of_nbytes 4 (drop 22 loop_code) :: i32)
     = int (function_starts empty_env loop_function (new_encoder (\<lambda>_ _. True)) ! 0)"
proof -
  let ?r = "\<lparr>label_id = 0, patch_offset = 22, is_jcc_rel32 = False\<rparr>"
  have "?r \<in> set (relocs (exec (emit_function empty_env loop_function) (new_encoder (\<lambda>_ _. True))))"
    by (simp only: loop_branch) simp
  from branches_reach_blocks [OF loop_compiles _ this] show ?thesis
    by (simp add: loop_code_def loop_function_def)
qed

end
