(* ===== verification/Ast_Opt.thy ===== *)
theory Ast_Opt
  imports Ast
begin

text \<open>
  The AST-level passes of the parser (\<open>src/src/frontend/ana_parser.cpp\<close>):
  constant folding (\<open>optimize_instruction\<close>), dead code elimination within a block
  (\<open>apply_dce\<close>) and the class layout (\<open>resolve_class_layouts\<close>, and the
  step of it that \<open>parse_class\<close> repeats for each field).

  A signed integer of the source is a word read with \<open>sint\<close>; \<open>static_cast\<close>
  between widths is \<open>ucast\<close> or \<open>scast\<close>. The reference meaning of the folded
  opcodes, \<open>ir_alu\<close>, is stated on mathematical integers.
\<close>

section \<open>Constant folding\<close>

text \<open>\<open>a / b\<close> on \<open>int32_t\<close> and \<open>int64_t\<close>: truncating division.\<close>

definition word_sdiv :: "'a::len word \<Rightarrow> 'a word \<Rightarrow> 'a word" where
  "word_sdiv a b = word_of_int (sint a sdiv sint b)"

text \<open>The 32-bit half of the switch; \<open>None\<close> is \<open>folded == false\<close>.\<close>

fun fold32 :: "Opcode \<Rightarrow> i32 \<Rightarrow> i32 \<Rightarrow> nat \<Rightarrow> i32 option" where
  "fold32 ADD_I32 x1 x2 sh = Some (x1 + x2)"
| "fold32 SUB_I32 x1 x2 sh = Some (x1 - x2)"
| "fold32 MUL_I32 x1 x2 sh = Some (x1 * x2)"
| "fold32 DIV_I32 x1 x2 sh =
     (if x2 = 0 then None else Some (if x2 = - 1 then 0 - x1 else word_sdiv x1 x2))"
| "fold32 AND_I32 x1 x2 sh = Some (x1 AND x2)"
| "fold32 OR_I32 x1 x2 sh = Some (x1 OR x2)"
| "fold32 XOR_I32 x1 x2 sh = Some (x1 XOR x2)"
| "fold32 SHL_I32 x1 x2 sh = Some (push_bit sh x1)"
| "fold32 SHR_I32 x1 x2 sh = Some (signed_drop_bit sh x1)"
| "fold32 USHR_I32 x1 x2 sh = Some (drop_bit sh x1)"
| "fold32 _ x1 x2 sh = None"

fun fold64 :: "Opcode \<Rightarrow> i64 \<Rightarrow> i64 \<Rightarrow> nat \<Rightarrow> i64 option" where
  "fold64 ADD_I64 u1 u2 sh = Some (u1 + u2)"
| "fold64 SUB_I64 u1 u2 sh = Some (u1 - u2)"
| "fold64 MUL_I64 u1 u2 sh = Some (u1 * u2)"
| "fold64 DIV_I64 u1 u2 sh =
     (if u2 = 0 then None else Some (if u2 = - 1 then 0 - u1 else word_sdiv u1 u2))"
| "fold64 AND_I64 u1 u2 sh = Some (u1 AND u2)"
| "fold64 OR_I64 u1 u2 sh = Some (u1 OR u2)"
| "fold64 XOR_I64 u1 u2 sh = Some (u1 XOR u2)"
| "fold64 SHL_I64 u1 u2 sh = Some (push_bit sh u1)"
| "fold64 SHR_I64 u1 u2 sh = Some (signed_drop_bit sh u1)"
| "fold64 USHR_I64 u1 u2 sh = Some (drop_bit sh u1)"
| "fold64 _ u1 u2 sh = None"

definition fold_const :: "Opcode \<Rightarrow> i64 \<Rightarrow> i64 \<Rightarrow> i64 option" where
  "fold_const opc v1 v2 =
     (let sh32 = unat ((ucast v2 :: u32) AND 31); sh64 = unat ((ucast v2 :: u32) AND 63) in
      case fold32 opc (ucast v1) (ucast v2) sh32 of
        Some r \<Rightarrow> Some (scast r)
      | None \<Rightarrow> fold64 opc v1 v2 sh64)"

definition optimize_instruction :: "Instruction \<Rightarrow> Instruction" where
  "optimize_instruction insn =
     (case (src1 insn, src2 insn) of
        (OpConst v1, OpConst v2) \<Rightarrow>
          (case fold_const (op insn) v1 v2 of
             Some res \<Rightarrow> insn\<lparr>op := MOVE_CONST, src1 := make_const res, src2 := OpConst 0\<rparr>
           | None \<Rightarrow> insn)
      | _ \<Rightarrow> insn)"

section \<open>Dead code elimination\<close>

definition is_block_exit :: "Opcode \<Rightarrow> bool" where
  "is_block_exit opc \<longleftrightarrow> opc = RETURN_VOID \<or> opc = RETURN_VAL \<or> opc = GOTO"

fun dce_insns :: "Instruction list \<Rightarrow> Instruction list" where
  "dce_insns [] = []"
| "dce_insns (i # is) = (if is_block_exit (op i) then [i] else i # dce_insns is)"

definition apply_dce :: "BasicBlock \<Rightarrow> BasicBlock" where
  "apply_dce bb = bb\<lparr>insns := dce_insns (insns bb)\<rparr>"

section \<open>Class layout\<close>

definition type_size :: "DataType \<Rightarrow> u32" where
  "type_size t = (if t = I64 \<or> t = PTR then 8 else 4)"

text \<open>One field: round the running offset up to the field's size, then skip the field.\<close>

definition place_offset :: "DataType \<Rightarrow> u32 \<Rightarrow> u32" where
  "place_offset t off = (off + (type_size t - 1)) AND NOT (type_size t - 1)"

fun layout_fields :: "u32 \<Rightarrow> ClassField list \<Rightarrow> ClassField list \<times> u32" where
  "layout_fields off [] = ([], off)"
| "layout_fields off (f # fs) =
     (let o' = place_offset (ftype f) off;
          (fs', off') = layout_fields (o' + type_size (ftype f)) fs in
      (f\<lparr>foffset := o'\<rparr> # fs', off'))"

definition resolve_class :: "ClassDecl \<Rightarrow> ClassDecl" where
  "resolve_class cls =
     (let (fs, off) = layout_fields 8 (cfields cls); sz = (off + 7) AND NOT 7 in
      cls\<lparr>cfields := fs, csize := (if sz < 8 then 8 else sz)\<rparr>)"

definition resolve_class_layouts :: "Program \<Rightarrow> Program" where
  "resolve_class_layouts prog = prog\<lparr>prog_classes := map resolve_class (prog_classes prog)\<rparr>"

section \<open>The reference meaning of the arithmetic opcodes\<close>

text \<open>
  \<open>wrap w z\<close> is the two's-complement reading of the low \<open>w\<close> bits of \<open>z\<close>.
  The reference computes on unbounded integers and wraps the result; shift counts are taken
  modulo the width; division by zero has no value.
\<close>

definition wrap :: "nat \<Rightarrow> int \<Rightarrow> int" where
  "wrap w z = signed_take_bit (w - 1) z"

definition ir_arith :: "nat \<Rightarrow> Opcode \<Rightarrow> int \<Rightarrow> int \<Rightarrow> int option" where
  "ir_arith w opc a b =
     (if opc \<in> {ADD_I32, ADD_I64} then Some (a + b)
      else if opc \<in> {SUB_I32, SUB_I64} then Some (a - b)
      else if opc \<in> {MUL_I32, MUL_I64} then Some (a * b)
      else if opc \<in> {DIV_I32, DIV_I64} then (if b = 0 then None else Some (a sdiv b))
      else if opc \<in> {AND_I32, AND_I64} then Some (a AND b)
      else if opc \<in> {OR_I32, OR_I64} then Some (a OR b)
      else if opc \<in> {XOR_I32, XOR_I64} then Some (a XOR b)
      else if opc \<in> {SHL_I32, SHL_I64} then Some (a * 2 ^ nat (b mod int w))
      else if opc \<in> {SHR_I32, SHR_I64} then Some (a div 2 ^ nat (b mod int w))
      else if opc \<in> {USHR_I32, USHR_I64} then Some ((a mod 2 ^ w) div 2 ^ nat (b mod int w))
      else None)"

definition is_alu32 :: "Opcode \<Rightarrow> bool" where
  "is_alu32 opc \<longleftrightarrow> opc \<in> {ADD_I32, SUB_I32, MUL_I32, DIV_I32, AND_I32, OR_I32, XOR_I32,
     SHL_I32, SHR_I32, USHR_I32}"

definition ir_alu :: "Opcode \<Rightarrow> int \<Rightarrow> int \<Rightarrow> int option" where
  "ir_alu opc a b =
     (let w = (if is_alu32 opc then 32 else 64) in
      map_option (wrap w) (ir_arith w opc (wrap w a) (wrap w b)))"

section \<open>Folding agrees with the reference\<close>

lemma wrap_sint: "wrap LENGTH('a) (sint (w :: 'a::len word)) = sint w"
  by (simp add: wrap_def sint_uint signed_take_bit_signed_take_bit)

lemma of_int_sint_id: "word_of_int (sint w) = (w :: 'a::len word)"
  by simp

lemma sint_0_iff: "sint (w :: 'a::len word) = 0 \<longleftrightarrow> w = 0"
proof
  assume "sint w = 0"
  then show "w = 0"
    using of_int_sint_id [of w] by (simp only: of_int_0)
qed simp

lemma sint_of_int: "sint (word_of_int z :: 'a::len word) = wrap LENGTH('a) z"
  by (simp add: wrap_def signed_of_int)

lemma sint_eq: "w = word_of_int z \<Longrightarrow> sint (w :: 'a::len word) = wrap LENGTH('a) z"
  by (simp only: sint_of_int)

lemma sint_add: "sint (a + b :: 'a::len word) = wrap LENGTH('a) (sint a + sint b)"
  by (rule sint_eq) simp

lemma sint_sub: "sint (a - b :: 'a::len word) = wrap LENGTH('a) (sint a - sint b)"
  by (rule sint_eq) simp

lemma sint_mul: "sint (a * b :: 'a::len word) = wrap LENGTH('a) (sint a * sint b)"
  by (rule sint_eq) simp

lemma sint_and: "sint (a AND b :: 'a::len word) = wrap LENGTH('a) (sint a AND sint b)"
  by (rule sint_eq) (simp add: of_int_and_eq)

lemma sint_or: "sint (a OR b :: 'a::len word) = wrap LENGTH('a) (sint a OR sint b)"
  by (rule sint_eq) (simp add: of_int_or_eq)

lemma sint_xor: "sint (a XOR b :: 'a::len word) = wrap LENGTH('a) (sint a XOR sint b)"
  by (rule sint_eq) (simp add: of_int_xor_eq)

lemma sint_shl: "sint (push_bit n a :: 'a::len word) = wrap LENGTH('a) (sint a * 2 ^ n)"
  by (rule sint_eq) (simp add: push_bit_eq_mult)

lemma uint_mod: "uint (a :: 'a::len word) = sint a mod 2 ^ LENGTH('a)"
  by (metis take_bit_eq_mod uint_sint)

lemma sint_shr: "sint (signed_drop_bit n a :: 'a::len word) = wrap LENGTH('a) (sint a div 2 ^ n)"
proof (rule sint_eq)
  have "sint (signed_drop_bit n a) = sint a div 2 ^ n"
    by (simp add: sint_signed_drop_bit_eq flip: drop_bit_eq_div)
  then show "signed_drop_bit n a = word_of_int (sint a div 2 ^ n)"
    using of_int_sint_id [of "signed_drop_bit n a"] by simp
qed

lemma sint_ushr: "sint (drop_bit n a :: 'a::len word) = wrap LENGTH('a) (sint a mod 2 ^ LENGTH('a) div 2 ^ n)"
proof (rule sint_eq)
  have "uint (drop_bit n a) = drop_bit n (uint a)"
    by (rule bit_eqI) (auto simp: bit_simps dest: bit_imp_le_length)
  then have "uint (drop_bit n a) = sint a mod 2 ^ LENGTH('a) div 2 ^ n"
    by (simp add: uint_mod [symmetric] drop_bit_eq_div)
  then show "drop_bit n a = word_of_int (sint a mod 2 ^ LENGTH('a) div 2 ^ n)"
    by (metis word_of_int_uint)
qed

lemma sint_sdiv:
  "sint (if b = - 1 then 0 - a else word_sdiv a b :: 'a::len word) = wrap LENGTH('a) (sint a sdiv sint b)"
proof (cases "b = - 1")
  case True
  then show ?thesis
    using sint_sub [of 0 a] by (simp add: signed_divide_int_def sgn_mult_abs)
qed (simp add: word_sdiv_def sint_of_int)

lemma sint_ucast32: "sint (ucast (v :: i64) :: i32) = wrap 32 (sint v)"
proof -
  have "(ucast v :: i32) = word_of_int (sint v)"
    by (rule bit_eqI) (auto simp: bit_simps)
  then show ?thesis
    using sint_eq [of "ucast v :: i32" "sint v"] by simp
qed

lemma sint_scast: "sint (scast (r :: i32) :: i64) = sint r"
  by (rule bit_eqI) (auto simp: bit_simps min_def)

lemma unat_and_mask_count:
  "n \<le> 32 \<Longrightarrow> unat ((ucast (v :: i64) :: u32) AND mask n) = nat (sint v mod 2 ^ n)"
proof -
  assume n: "n \<le> 32"
  have "uint ((ucast v :: u32) AND mask n) = take_bit n (sint v)"
    using n by (intro bit_eqI) (auto simp: bit_simps)
  then show ?thesis
    by (simp add: take_bit_eq_mod flip: nat_uint_eq)
qed

lemma wrap_mod: "n \<le> w \<Longrightarrow> 0 < w \<Longrightarrow> wrap w z mod 2 ^ n = z mod 2 ^ n"
  unfolding wrap_def take_bit_eq_mod [symmetric]
  by (rule bit_eqI) (auto simp: bit_simps)

lemma count32: "unat ((ucast (v :: i64) :: u32) AND 31) = nat (wrap 32 (sint v) mod 32)"
  using unat_and_mask_count [of 5 v] wrap_mod [of 5 32 "sint v"] by (simp add: mask_eq_exp_minus_1)

lemma count64: "unat ((ucast (v :: i64) :: u32) AND 63) = nat (wrap 64 (sint v) mod 64)"
  using unat_and_mask_count [of 6 v] wrap_mod [of 6 64 "sint v"] by (simp add: mask_eq_exp_minus_1)

lemmas fold_sint = sint_add sint_sub sint_mul sint_and sint_or sint_xor sint_shl sint_shr
  sint_ushr sint_sdiv

lemma fold32_ir:
  "map_option sint (fold32 opc x1 x2 (nat (sint x2 mod 32))) =
   (if is_alu32 opc then map_option (wrap 32) (ir_arith 32 opc (sint x1) (sint x2)) else None)"
  by (cases opc) (simp_all add: ir_arith_def is_alu32_def fold_sint sint_0_iff)

lemma fold64_ir:
  "map_option sint (fold64 opc x1 x2 (nat (sint x2 mod 64))) =
   (if is_alu32 opc then None else map_option (wrap 64) (ir_arith 64 opc (sint x1) (sint x2)))"
  by (cases opc) (simp_all add: ir_arith_def is_alu32_def fold_sint sint_0_iff)

lemma fold_const_ir:
  "map_option sint (fold_const opc v1 v2) = ir_alu opc (sint v1) (sint v2)"
proof -
  have w: "wrap 64 (sint v1) = sint v1" "wrap 64 (sint v2) = sint v2"
    using wrap_sint [of v1] wrap_sint [of v2] by simp_all
  have f32: "map_option sint (fold32 opc (ucast v1) (ucast v2) (unat ((ucast v2 :: u32) AND 31))) =
    (if is_alu32 opc then ir_alu opc (sint v1) (sint v2) else None)"
    using fold32_ir [of opc "ucast v1" "ucast v2"] unfolding count32 ir_alu_def sint_ucast32 by simp
  have f64: "map_option sint (fold64 opc v1 v2 (unat ((ucast v2 :: u32) AND 63))) =
    (if is_alu32 opc then None else ir_alu opc (sint v1) (sint v2))"
    using fold64_ir [of opc v1 v2] unfolding count64 ir_alu_def by (simp add: w)
  show ?thesis
    using f32 f64 unfolding fold_const_def Let_def
    by (auto simp: sint_scast split: option.splits if_splits)
qed

section \<open>Eliminated code is never reached\<close>

text \<open>
  The meaning of a block for an arbitrary instruction semantics \<open>step\<close>: each
  instruction either falls through (\<open>Inr\<close> with the next state) or leaves the block
  (\<open>Inl\<close>).
\<close>

fun run_block :: "(Instruction \<Rightarrow> 's \<Rightarrow> 'r + 's) \<Rightarrow> Instruction list \<Rightarrow> 's \<Rightarrow> 'r + 's" where
  "run_block step [] s = Inr s"
| "run_block step (i # is) s =
     (case step i s of Inl r \<Rightarrow> Inl r | Inr s' \<Rightarrow> run_block step is s')"

lemma run_dce_insns:
  assumes "\<And>i s. is_block_exit (op i) \<Longrightarrow> isl (step i s)"
  shows "run_block step (dce_insns is) s = run_block step is s"
proof (induction "is" arbitrary: s)
  case (Cons i "is")
  show ?case
    using assms [of i s] Cons.IH by (cases "step i s") auto
qed simp

lemma dce_insns_shape:
  "(\<exists>ys. is = dce_insns is @ ys) \<and> (\<forall>i \<in> set (butlast (dce_insns is)). \<not> is_block_exit (op i))"
  by (induction "is") auto

section \<open>The layout of instances\<close>

definition field_size :: "ClassField \<Rightarrow> nat" where
  "field_size f = unat (type_size (ftype f))"

definition field_end :: "ClassField \<Rightarrow> nat" where
  "field_end f = unat (foffset f) + field_size f"

lemma place_offset_bounds:
  assumes "unat off + 16 < 2 ^ 32"
  shows "unat off \<le> unat (place_offset t off)"
    "unat (place_offset t off) < unat off + 8"
    "unat (type_size t) dvd unat (place_offset t off)"
proof -
  have e: "unat (place_offset t off) = align_up (unat (type_size t)) (unat off)"
    using assms unat_align8 [of off] unat_align4 [of off]
    by (simp add: place_offset_def type_size_def)
  show "unat off \<le> unat (place_offset t off)" "unat (place_offset t off) < unat off + 8"
    "unat (type_size t) dvd unat (place_offset t off)"
    using align_up_ge [of "unat (type_size t)" "unat off"] align_up_less [of "unat (type_size t)" "unat off"]
    unfolding e by (auto simp: type_size_def split: if_splits)
qed

lemma type_size_bounds: "0 < unat (type_size t)" "unat (type_size t) \<le> 8"
  by (simp_all add: type_size_def)

lemma layout_fields_ok:
  assumes "layout_fields off fs = (fs', off')" "unat off + 16 * length fs + 16 < 2 ^ 32"
  shows "unat off \<le> unat off' \<and> unat off' \<le> unat off + 16 * length fs
    \<and> map (\<lambda>f. (fname f, ftype f)) fs' = map (\<lambda>f. (fname f, ftype f)) fs
    \<and> (\<forall>f \<in> set fs'. unat off \<le> unat (foffset f) \<and> field_end f \<le> unat off'
          \<and> field_size f dvd unat (foffset f))
    \<and> sorted_wrt (\<lambda>f g. field_end f \<le> unat (foffset g)) fs'"
  using assms
proof (induction fs arbitrary: off fs' off')
  case (Cons f fs)
  let ?o = "place_offset (ftype f) off"
  let ?n = "?o + type_size (ftype f)"
  obtain gs where l: "layout_fields ?n fs = (gs, off')" and fs': "fs' = f\<lparr>foffset := ?o\<rparr> # gs"
    using Cons.prems(1) by (auto simp: Let_def split: prod.splits)
  note b = place_offset_bounds [of off "ftype f"] type_size_bounds [of "ftype f"]
  have n: "unat ?n = unat ?o + unat (type_size (ftype f))"
    using b Cons.prems(2) by (simp add: unat_plus_if')
  have bound: "unat ?n \<le> unat off + 16"
    using b Cons.prems(2) n by simp
  then have "unat ?n + 16 * length fs + 16 < 2 ^ 32"
    using Cons.prems(2) by simp
  note IH = Cons.IH [OF l this]
  have "field_end (f\<lparr>foffset := ?o\<rparr>) = unat ?n" "field_size (f\<lparr>foffset := ?o\<rparr>) dvd unat ?o"
    using b Cons.prems(2) n by (simp_all add: field_end_def field_size_def)
  then show ?case
    using IH b n bound Cons.prems(2) unfolding fs' by auto
qed auto

section \<open>Properties\<close>

text \<open>
  Claim C14. Constant folding is exact. For an instruction with two constant operands the
  pass rewrites it to \<open>MOVE_CONST\<close> of the value the reference semantics gives the
  opcode on those operands (wrapping at 32 or 64 bits, truncating division, shift counts
  modulo the width), and it leaves the instruction as it is when the reference gives it no
  value: a division by zero, or an opcode that is not arithmetic.
\<close>
theorem constant_folding_exact:
  assumes "src1 insn = OpConst v1" "src2 insn = OpConst v2"
  shows "case ir_alu (op insn) (sint v1) (sint v2) of
      None \<Rightarrow> optimize_instruction insn = insn
    | Some r \<Rightarrow> (\<exists>res. sint res = r \<and> optimize_instruction insn =
                  insn\<lparr>op := MOVE_CONST, src1 := OpConst res, src2 := OpConst 0\<rparr>)"
  using assms unfolding fold_const_ir [symmetric]
  by (cases "fold_const (op insn) v1 v2") (auto simp: optimize_instruction_def make_const_def)

definition sample_div :: Instruction where
  "sample_div = \<lparr>op = DIV_I32, dest = OpReg \<lparr>reg_type = LOCAL, reg_index = 0\<rparr>, src1 = OpConst (- 7),
     src2 = OpConst 2, vtable_slot = 0, target_label = None, string_val = None, string_len = 0,
     string_hash = 0, is_likely = False\<rparr>"

theorem constant_folding_exact_witness:
  "src1 (optimize_instruction sample_div) = OpConst (- 3)"
proof -
  have "ir_alu (op sample_div) (sint (- 7 :: i64)) (sint (2 :: i64)) = Some (- 3)"
    by code_simp
  then obtain res :: i64 where "sint res = - 3" "src1 (optimize_instruction sample_div) = OpConst res"
    using constant_folding_exact [of sample_div "- 7" 2] by (auto simp: sample_div_def)
  then show ?thesis
    using of_int_sint_id [of res] by simp
qed

text \<open>
  Claim C15. Dead code elimination keeps the meaning of a block: whatever the instructions
  do, as long as the two returns and the unconditional jump leave the block (conditional jumps may fall through),
  running the block before and after the pass gives the same result; what remains is a prefix of the block in which
  a return or an unconditional jump can only be the last instruction.
\<close>
theorem dce_preserves_blocks:
  assumes "\<And>i s. op i \<in> {RETURN_VOID, RETURN_VAL, GOTO} \<Longrightarrow> isl (step i s)"
  shows "run_block step (insns (apply_dce bb)) s = run_block step (insns bb) s
    \<and> (\<exists>ys. insns bb = insns (apply_dce bb) @ ys)
    \<and> (\<forall>i \<in> set (butlast (insns (apply_dce bb))). op i \<notin> {RETURN_VOID, RETURN_VAL, GOTO})"
proof -
  have e: "is_block_exit o' \<longleftrightarrow> o' \<in> {RETURN_VOID, RETURN_VAL, GOTO}" for o'
    by (auto simp: is_block_exit_def)
  show ?thesis
    using run_dce_insns [of step, unfolded e, OF assms] dce_insns_shape [unfolded e] by (auto simp: apply_dce_def)
qed

theorem dce_preserves_blocks_witness:
  "run_block (\<lambda>i s. if op i \<in> {RETURN_VOID, RETURN_VAL, GOTO} then Inl s else Inr (s + 1))
     (insns (apply_dce \<lparr>label = ''entry'', insns = [sample_div, sample_div\<lparr>op := RETURN_VOID\<rparr>, sample_div]\<rparr>))
     (0 :: nat) = Inl 1"
  using dce_preserves_blocks
    [of "\<lambda>i s. if op i \<in> {RETURN_VOID, RETURN_VAL, GOTO} then Inl s else Inr (s + 1)"
        "\<lparr>label = ''entry'', insns = [sample_div, sample_div\<lparr>op := RETURN_VOID\<rparr>, sample_div]\<rparr>" "0 :: nat"]
  by (simp add: sample_div_def)

text \<open>
  Claim C18. The class layout is sound: for a class of fewer than 2^27 fields, every field
  keeps its name and type, lies past the vtable pointer at offset 0, is aligned to its size,
  ends before the next field starts and within the instance, and the instance size is a
  multiple of eight.
\<close>
theorem class_layout:
  assumes "length (cfields cls) < 2 ^ 27"
  shows "map (\<lambda>f. (fname f, ftype f)) (cfields (resolve_class cls)) = map (\<lambda>f. (fname f, ftype f)) (cfields cls)
    \<and> (\<forall>f \<in> set (cfields (resolve_class cls)). 8 \<le> unat (foffset f)
         \<and> field_end f \<le> unat (csize (resolve_class cls)) \<and> field_size f dvd unat (foffset f))
    \<and> sorted_wrt (\<lambda>f g. field_end f \<le> unat (foffset g)) (cfields (resolve_class cls))
    \<and> 8 dvd unat (csize (resolve_class cls))"
proof -
  obtain fs off where l: "layout_fields 8 (cfields cls) = (fs, off)"
    by fastforce
  note ok = layout_fields_ok [OF l]
  have b: "unat off + 7 < 2 ^ 32" "8 \<le> unat off"
    using ok assms by auto
  note sz = unat_align8 [OF b(1)] b(2)
  have ge: "unat off \<le> unat ((off + 7) AND NOT 7)" "8 dvd unat ((off + 7) AND NOT 7)"
    using align_up_ge [of 8 "unat off"] unfolding sz by simp_all
  then have "\<not> (off + 7) AND NOT 7 < 8"
    using sz(2) by (simp add: word_less_nat_alt)
  then have "csize (resolve_class cls) = (off + 7) AND NOT 7" "cfields (resolve_class cls) = fs"
    by (simp_all add: resolve_class_def l)
  then show ?thesis
    using ok assms ge by force
qed

theorem class_layout_witness:
  "sorted_wrt (\<lambda>f g. field_end f \<le> unat (foffset g))
     (cfields (resolve_class \<lparr>cname = ''A'', cfields = [\<lparr>fname = ''x'', ftype = I32, foffset = 0\<rparr>,
        \<lparr>fname = ''y'', ftype = I64, foffset = 0\<rparr>], csize = 0, vtable_size = 16\<rparr>))
   \<and> 8 dvd unat (csize (resolve_class \<lparr>cname = ''A'', cfields = [\<lparr>fname = ''x'', ftype = I32, foffset = 0\<rparr>,
        \<lparr>fname = ''y'', ftype = I64, foffset = 0\<rparr>], csize = 0, vtable_size = 16\<rparr>))"
  using class_layout [of "\<lparr>cname = ''A'', cfields = [\<lparr>fname = ''x'', ftype = I32, foffset = 0\<rparr>,
        \<lparr>fname = ''y'', ftype = I64, foffset = 0\<rparr>], csize = 0, vtable_size = 16\<rparr>"]
  by simp

end
