(* ===== verification/Lower_Correct.thy ===== *)
theory Lower_Correct
  imports Asm Lowerer Ast_Opt
begin

text \<open>
  Correctness of the lowering of straight-line instructions. The bytes the lowerer emits for an
  instruction are decoded (\<open>Asm\<close>) and run on the machine model (\<open>X86\<close>); a
  machine state represents an assignment of values to the registers of the intermediate
  representation through the allocator's locations (\<open>Regalloc\<close>). The result of the
  instruction is the value the reference semantics gives it, in the location of its
  destination, and every other register keeps its value.
\<close>

unbundle bit_operations_syntax

declare reg_num.simps [simp del]

section \<open>Frame slots\<close>

lemma read_write64_same: "read64 (write64 m a v) a = v"
proof -
  have "map (\<lambda>i. write64 m a v (a + of_nat i)) [0..<8] = map (\<lambda>i. le64 v ! i) [0..<8]"
  proof (rule map_cong [OF refl])
    fix i
    assume "i \<in> set [0..<(8 :: nat)]"
    then have i: "unat (of_nat i :: u64) = i" "i < 8"
      by (auto simp: unat_of_nat)
    then have "(of_nat i :: u64) < 8"
      by (simp add: word_less_nat_alt)
    then show "write64 m a v (a + of_nat i) = le64 v ! i"
      using i(1) by (simp add: write64_def)
  qed
  also have "\<dots> = le64 v"
    by (metis length_le64 map_nth)
  finally show ?thesis
    using of_nbytes_le64 [of v "[]"] by (simp only: read64_def append_Nil2)
qed

lemma unat_neg: "w \<noteq> (0 :: u64) \<Longrightarrow> unat (- w) = 2 ^ 64 - unat w"
  using unat_sub_if' [of 0 w] by (simp add: unat_eq_zero)

lemma read_write64_other:
  assumes "8 \<le> unat (b - a)" "8 \<le> unat (a - b)"
  shows "read64 (write64 m a v) b = read64 m b"
proof -
  have "write64 m a v (b + of_nat i) = m (b + of_nat i)" if "i < 8" for i
  proof -
    let ?d = "b - a"
    have "unat (- ?d) = 2 ^ 64 - unat ?d"
      using assms(1) by (intro unat_neg) auto
    then have "unat ?d + i < 2 ^ 64"
      using assms(2) that unsigned_less [of ?d, where ?'a = nat] by simp
    then have "unat (?d + of_nat i) = unat ?d + i"
      by (simp add: unat_plus_if' unat_of_nat)
    then have "unat (b + of_nat i - a) = unat ?d + i"
      by (metis add_diff_eq add.commute)
    then have "\<not> b + of_nat i - a < 8"
      using assms(1) by (simp add: word_less_nat_alt)
    then show ?thesis
      by (simp add: write64_def)
  qed
  then show ?thesis
    unfolding read64_def by (intro arg_cong [where f = "of_nbytes 8"] map_cong) auto
qed

definition slot_addr :: "u64 \<Rightarrow> nat \<Rightarrow> u64" where
  "slot_addr bp n = bp - of_nat (8 * n)"

lemma slot_distance:
  assumes "n \<noteq> k" "n \<le> 4096" "k \<le> 4096"
  shows "8 \<le> unat (slot_addr bp n - slot_addr bp k)"
proof -
  have e: "slot_addr bp n - slot_addr bp k = of_nat (8 * k) - of_nat (8 * n)"
    by (simp add: slot_addr_def)
  have u: "unat (of_nat (8 * j) :: u64) = 8 * j" if "j \<le> 4096" for j
    using that by (simp add: unat_of_nat del: of_nat_mult)
  show ?thesis
    unfolding e unat_sub_if' u [OF assms(2)] u [OF assms(3)] using assms by auto
qed

lemma disp_slot: "n \<le> 4096 \<Longrightarrow> scast (- of_nat (8 * n) :: i32) = - (of_nat (8 * n) :: u64)"
proof -
  assume n: "n \<le> 4096"
  have "sint (of_int (- int (8 * n)) :: i32) = - int (8 * n)"
    using n by (intro sint_of_int_range ) simp_all
  then have "scast (of_int (- int (8 * n)) :: i32) = (of_int (- int (8 * n)) :: u64)"
    by (simp only: scast_eq)
  then show ?thesis
    by simp
qed


section \<open>Representation\<close>

definition ir_reg :: "AnaRegAlloc \<Rightarrow> Register \<Rightarrow> bool" where
  "ir_reg ra r \<longleftrightarrow> live_reg ra r \<and> reg_type r \<noteq> RT_NONE"

abbreviation rn :: "X86Reg \<Rightarrow> u8" where
  "rn \<equiv> reg_num"

definition val_at :: "X86Reg + nat \<Rightarrow> mstate \<Rightarrow> u64" where
  "val_at loc s = (case loc of Inl p \<Rightarrow> regs s (rn p) | Inr n \<Rightarrow> read64 (mem s) (slot_addr (regs s (rn RBP)) n))"

definition rep :: "AnaRegAlloc \<Rightarrow> (Register \<Rightarrow> u64) \<Rightarrow> mstate \<Rightarrow> bool" where
  "rep ra \<rho> s \<longleftrightarrow> (\<forall>r. ir_reg ra r \<longrightarrow> val_at (reg_slot ra r) s = \<rho> r)"

definition scratch :: "X86Reg set" where
  "scratch = {RAX, RCX, R11}"

text \<open>States that differ in scratch registers and flags only.\<close>

definition same_frame :: "mstate \<Rightarrow> mstate \<Rightarrow> bool" where
  "same_frame s s' \<longleftrightarrow> mem s' = mem s \<and> (\<forall>p. p \<notin> scratch \<longrightarrow> regs s' (rn p) = regs s (rn p))"

text \<open>\<open>s'\<close> is \<open>s\<close> with the value of one register changed, up to scratch registers.\<close>

definition writes :: "AnaRegAlloc \<Rightarrow> Register \<Rightarrow> u64 \<Rightarrow> mstate \<Rightarrow> mstate \<Rightarrow> bool" where
  "writes ra d v s s' \<longleftrightarrow>
     (case reg_slot ra d of
        Inl q \<Rightarrow> mem s' = mem s \<and> regs s' (rn q) = v \<and> (\<forall>p. p \<notin> insert q scratch \<longrightarrow> regs s' (rn p) = regs s (rn p))
      | Inr n \<Rightarrow> mem s' = write64 (mem s) (slot_addr (regs s (rn RBP)) n) v
                 \<and> (\<forall>p. p \<notin> scratch \<longrightarrow> regs s' (rn p) = regs s (rn p)))"

lemma slot_phys: "reg_slot ra r = Inl p \<Longrightarrow> p \<in> {RBX, R12, R13}"
  by (auto simp: reg_slot_def Let_def kAllocatablePhysRegs_def numeral_3_eq_3 less_Suc_eq split: if_splits)

lemma slot_spill:
  assumes "ra_ok ra" "ir_reg ra r" "reg_slot ra r = Inr n"
  shows "n \<le> 4096"
  using reg_slot_bounds [of ra r] frame_bound(2) [OF assms(1)] assms by (auto simp: ir_reg_def)

lemma val_at_same_frame: "same_frame s s' \<Longrightarrow> val_at (reg_slot ra r) s' = val_at (reg_slot ra r) s"
  using slot_phys [of ra r] by (auto simp: same_frame_def val_at_def scratch_def split: sum.split)

lemma rep_same_frame: "same_frame s s' \<Longrightarrow> rep ra \<rho> s' = rep ra \<rho> s"
  by (simp add: rep_def val_at_same_frame)

lemma same_frame_refl [simp]: "same_frame s s"
  by (simp add: same_frame_def)

lemma same_frame_set [simp]: "p \<in> scratch \<Longrightarrow> same_frame s (set_reg (rn p) v s') = same_frame s s'"
  by (auto simp: same_frame_def set_reg_def reg_num_inj)

lemma same_frame_flags [simp]: "same_frame s (s'\<lparr>flg := f\<rparr>) = same_frame s s'"
  by (simp add: same_frame_def)

text \<open>The new state represents the updated assignment.\<close>

lemma writes_rep:
  assumes ok: "ra_ok ra" and d: "ir_reg ra d" and r: "rep ra \<rho> s" and w: "writes ra d v s s'"
  shows "rep ra (\<rho>(d := v)) s'"
  unfolding rep_def
proof (intro allI impI)
  fix x
  assume x: "ir_reg ra x"
  have old: "val_at (reg_slot ra x) s = \<rho> x"
    using r x by (simp add: rep_def)
  have inj: "reg_slot ra x = reg_slot ra d \<longleftrightarrow> x = d"
    using reg_slot_inj [of ra x d] x d by (auto simp: ir_reg_def)
  show "val_at (reg_slot ra x) s' = (\<rho>(d := v)) x"
  proof (cases "reg_slot ra d")
    case (Inl q)
    then have w': "mem s' = mem s" "regs s' (rn q) = v" "\<And>p. p \<notin> insert q scratch \<Longrightarrow> regs s' (rn p) = regs s (rn p)"
      using w by (auto simp: writes_def)
    moreover have "RBP \<notin> insert q scratch"
      using slot_phys [OF Inl] by (auto simp: scratch_def)
    ultimately show ?thesis
      using inj old Inl slot_phys [of ra x]
      by (cases "reg_slot ra x") (auto simp: val_at_def scratch_def)
  next
    case (Inr n)
    then have w': "mem s' = write64 (mem s) (slot_addr (regs s (rn RBP)) n) v"
      "\<And>p. p \<notin> scratch \<Longrightarrow> regs s' (rn p) = regs s (rn p)"
      using w by (auto simp: writes_def)
    have bp: "regs s' (rn RBP) = regs s (rn RBP)"
      using w'(2) [of RBP] by (simp add: scratch_def)
    show ?thesis
    proof (cases "reg_slot ra x")
      case (Inl p)
      then show ?thesis
        using inj old Inr w'(2) [of p] slot_phys [OF Inl] by (auto simp: val_at_def scratch_def)
    next
      case m: (Inr m)
      then show ?thesis
        using inj old Inr w'(1) bp slot_spill [OF ok d Inr] slot_spill [OF ok x m]
          slot_distance [of n m] slot_distance [of m n]
        by (cases "x = d") (auto simp: val_at_def read_write64_same read_write64_other)
    qed
  qed
qed


section \<open>Operands\<close>

text \<open>Constants, and registers that have a location.\<close>

definition opd_ok :: "AnaRegAlloc \<Rightarrow> Operand \<Rightarrow> bool" where
  "opd_ok ra opd \<longleftrightarrow> (case opd of OpConst _ \<Rightarrow> True | OpReg r \<Rightarrow> ir_reg ra r | _ \<Rightarrow> False)"

definition opd_val :: "(Register \<Rightarrow> u64) \<Rightarrow> Operand \<Rightarrow> u64" where
  "opd_val \<rho> opd = (case opd of OpConst c \<Rightarrow> c | OpReg r \<Rightarrow> \<rho> r | _ \<Rightarrow> 0)"

definition loc_reg :: "X86Reg + nat \<Rightarrow> X86Reg \<Rightarrow> X86Reg" where
  "loc_reg loc sc = (case loc of Inl p \<Rightarrow> p | Inr _ \<Rightarrow> sc)"

definition ld_reg :: "AnaRegAlloc \<Rightarrow> Operand \<Rightarrow> X86Reg \<Rightarrow> X86Reg" where
  "ld_reg ra opd sc = (case opd of OpReg r \<Rightarrow> loc_reg (reg_slot ra r) sc | _ \<Rightarrow> sc)"

definition slot_rm :: "nat \<Rightarrow> rm" where
  "slot_rm n = RMem (rn RBP) (- of_nat (8 * n))"

definition ld_code :: "AnaRegAlloc \<Rightarrow> Operand \<Rightarrow> X86Reg \<Rightarrow> xinsn list" where
  "ld_code ra opd sc =
     (case opd of
        OpConst c \<Rightarrow> [MOV_ri64 (rn sc) c]
      | OpReg r \<Rightarrow> (case reg_slot ra r of Inl _ \<Rightarrow> [] | Inr n \<Rightarrow> [MOV_r_rm (rn sc) (slot_rm n)])
      | _ \<Rightarrow> [])"

definition st_code :: "AnaRegAlloc \<Rightarrow> Register \<Rightarrow> X86Reg \<Rightarrow> xinsn list" where
  "st_code ra d src =
     (case reg_slot ra d of
        Inl p \<Rightarrow> if p = src then [] else [MOV_rm_r (RReg (rn p)) (rn src)]
      | Inr n \<Rightarrow> [MOV_rm_r (slot_rm n) (rn src)])"

lemma reg_loc:
  assumes "ra_ok ra" "ir_reg ra r"
  shows "lkind (get_reg_loc ra r) = PHYSICAL_REG \<longleftrightarrow> (\<exists>p. reg_slot ra r = Inl p)"
    and "reg_slot ra r = Inl p \<Longrightarrow> phys_reg (get_reg_loc ra r) = p"
    and "reg_slot ra r = Inr n \<Longrightarrow> stack_disp (get_reg_loc ra r) = of_nat (8 * n)"
  using assms by (auto simp: ra_ok_def ir_reg_def phys_loc_def spill_loc_def split: sum.splits)

lemma asm_load:
  assumes "ra_ok ra" "opd_ok ra opd" "sc \<noteq> NO_REG"
  shows "asm (load_operand ra opd sc) (ld_reg ra opd sc) (ld_code ra opd sc)"
proof (cases opd)
  case (OpConst c)
  then show ?thesis
    using asm_bind [OF asm_mov_reg_imm64 [OF assms(3), of c] asm_ret [of sc]]
    by (simp add: load_operand_def ld_reg_def ld_code_def)
next
  case (OpReg r)
  then have r: "ir_reg ra r"
    using assms(2) by (simp add: opd_ok_def)
  show ?thesis
  proof (cases "reg_slot ra r")
    case (Inl p)
    then show ?thesis
      using asm_ret [of p] reg_loc [OF assms(1) r]
      by (simp add: load_operand_def ld_reg_def ld_code_def OpReg loc_reg_def Let_def)
  next
    case (Inr n)
    then show ?thesis
      using asm_bind [OF asm_mov_reg_mem [of sc RBP "- of_nat (8 * n)"] asm_ret [of sc]] reg_loc [OF assms(1) r] assms(3)
      by (simp add: load_operand_def ld_reg_def ld_code_def OpReg loc_reg_def slot_rm_def Let_def)
  qed
qed (use assms(2) in \<open>simp_all add: opd_ok_def\<close>)

lemma asm_store:
  assumes "ra_ok ra" "ir_reg ra d" "src \<noteq> NO_REG"
  shows "asm (store_operand ra d src) () (st_code ra d src)"
proof (cases "reg_slot ra d")
  case (Inl p)
  have "p \<noteq> NO_REG"
    using slot_phys [OF Inl] by auto
  then show ?thesis
    using Inl reg_loc [OF assms(1,2)] asm_mov_reg_reg [of p src] asm_ret [of "()"] assms(3)
    by (auto simp: store_operand_def st_code_def Let_def)
next
  case (Inr n)
  then show ?thesis
    using reg_loc [OF assms(1,2)] asm_mov_mem_reg [of RBP src "- of_nat (8 * n)"] assms(3)
    by (simp add: store_operand_def st_code_def slot_rm_def Let_def)
qed

lemma dst_reg_eq:
  "ra_ok ra \<Longrightarrow> dest insn = OpReg d \<Longrightarrow> ir_reg ra d \<Longrightarrow> dst_reg ra insn sc = loc_reg (reg_slot ra d) sc"
  using reg_loc [of ra d] by (auto simp: dst_reg_def loc_reg_def Let_def split: sum.split)

lemma exec_append:
  "exec_list (is @ js) s = (case exec_list is s of None \<Rightarrow> None | Some s' \<Rightarrow> exec_list js s')"
  by (induction "is" arbitrary: s) (auto split: option.split)

lemma slot_rm_addr: "n \<le> 4096 \<Longrightarrow> addr (rn RBP) (- of_nat (8 * n)) s = slot_addr (regs s (rn RBP)) n"
  using disp_slot [of n] by (simp add: addr_def slot_addr_def)

lemma exec_ld:
  assumes "ra_ok ra" "opd_ok ra opd" "rep ra \<rho> s"
  shows "exec_list (ld_code ra opd sc) s =
      Some (if ld_code ra opd sc = [] then s else set_reg (rn sc) (opd_val \<rho> opd) s)"
proof (cases opd)
  case (OpReg r)
  then have r: "ir_reg ra r" "val_at (reg_slot ra r) s = \<rho> r"
    using assms by (auto simp: opd_ok_def rep_def)
  show ?thesis
  proof (cases "reg_slot ra r")
    case (Inr n)
    then show ?thesis
      using r slot_rm_addr [OF slot_spill [OF assms(1) r(1) Inr], of s]
      by (simp add: ld_code_def OpReg exec_insn_def slot_rm_def opd_val_def val_at_def)
  qed (use OpReg in \<open>simp add: ld_code_def\<close>)
qed (use assms in \<open>simp_all add: opd_ok_def ld_code_def exec_insn_def opd_val_def\<close>)

text \<open>After a load the operand is in its register, which is \<open>sc\<close> or holds a register of the program.\<close>

lemma ld_code_nil:
  "opd_ok ra opd \<Longrightarrow> ld_code ra opd sc = [] \<longleftrightarrow> (\<exists>r p. opd = OpReg r \<and> reg_slot ra r = Inl p)"
  by (auto simp: ld_code_def opd_ok_def split: Operand.splits sum.splits)

lemma ld_reg_value:
  assumes "opd_ok ra opd" "rep ra \<rho> s" "same_frame s s'"
    "ld_code ra opd sc \<noteq> [] \<Longrightarrow> regs s' (rn sc) = opd_val \<rho> opd"
  shows "regs s' (rn (ld_reg ra opd sc)) = opd_val \<rho> opd"
proof (cases "ld_code ra opd sc = []")
  case True
  then obtain r p where r: "opd = OpReg r" "reg_slot ra r = Inl p"
    using ld_code_nil [OF assms(1)] by blast
  then have "val_at (Inl p) s = \<rho> r"
    using assms(1,2) by (auto simp: opd_ok_def rep_def)
  moreover have "p \<notin> scratch"
    using slot_phys [OF r(2)] by (auto simp: scratch_def)
  ultimately show ?thesis
    using r assms(3) by (simp add: ld_reg_def loc_reg_def opd_val_def val_at_def same_frame_def)
next
  case False
  then have "ld_reg ra opd sc = sc"
    using assms(1) by (auto simp: ld_code_def ld_reg_def loc_reg_def opd_ok_def split: Operand.splits sum.splits)
  then show ?thesis
    using assms(4) False by simp
qed

lemma ld_reg_cases: "opd_ok ra opd \<Longrightarrow> ld_reg ra opd sc \<in> {sc, RBX, R12, R13}"
  using slot_phys by (fastforce simp: ld_reg_def loc_reg_def opd_ok_def split: Operand.splits sum.splits)

lemma loc_reg_cases: "loc_reg (reg_slot ra d) sc \<in> {sc, RBX, R12, R13}"
  using slot_phys [of ra d] by (auto simp: loc_reg_def split: sum.splits)

section \<open>Shared pieces of the lowered code\<close>

lemma exec_load:
  assumes "ra_ok ra" "opd_ok ra opd" "rep ra \<rho> s0" "same_frame s0 s" "sc \<in> scratch"
  shows "\<exists>s'. exec_list (ld_code ra opd sc) s = Some s' \<and> same_frame s0 s'
     \<and> regs s' (rn (ld_reg ra opd sc)) = opd_val \<rho> opd \<and> (\<forall>p. p \<noteq> sc \<longrightarrow> regs s' (rn p) = regs s (rn p))"
proof -
  let ?s = "if ld_code ra opd sc = [] then s else set_reg (rn sc) (opd_val \<rho> opd) s"
  have r: "rep ra \<rho> s"
    using rep_same_frame assms(3,4) by blast
  have f: "same_frame s0 ?s" "same_frame s ?s"
    using assms(4,5) by simp_all
  have "regs ?s (rn (ld_reg ra opd sc)) = opd_val \<rho> opd"
    by (rule ld_reg_value [OF assms(2) r f(2)]) (simp add: set_reg_def)
  then show ?thesis
    using exec_ld [OF assms(1,2) r, of sc] f(1) by (intro exI [of _ ?s]) (simp add: set_reg_def reg_num_inj)
qed

definition mv_code :: "X86Reg \<Rightarrow> X86Reg \<Rightarrow> xinsn list" where
  "mv_code d s = (if d = s then [] else [MOV_rm_r (RReg (rn d)) (rn s)])"

definition sx_code :: "bool \<Rightarrow> X86Reg \<Rightarrow> xinsn list" where
  "sx_code b d = (if b then [MOVSXD (rn d) (RReg (rn d))] else [])"

definition sext32 :: "bool \<Rightarrow> u64 \<Rightarrow> u64" where
  "sext32 b v = (if b then scast (ucast v :: u32) else v)"

lemma exec_mv: "\<exists>s'. exec_list (mv_code d x) s = Some s' \<and> mem s' = mem s
    \<and> (\<forall>p. regs s' (rn p) = (if p = d then regs s (rn x) else regs s (rn p)))"
  by (auto simp: mv_code_def exec_insn_def set_reg_def reg_num_inj)

text \<open>\<open>s1\<close> is \<open>s\<close> up to scratch registers and the register \<open>d\<close>.\<close>

definition near :: "X86Reg \<Rightarrow> mstate \<Rightarrow> mstate \<Rightarrow> bool" where
  "near d s s1 \<longleftrightarrow> mem s1 = mem s \<and> (\<forall>p. p \<notin> insert d scratch \<longrightarrow> regs s1 (rn p) = regs s (rn p))"

lemma near_same_frame: "same_frame s s1 \<Longrightarrow> near d s s1"
  by (simp add: near_def same_frame_def)

lemma exec_finish:
  assumes "ra_ok ra" "ir_reg ra d" "sc \<in> scratch" "near (loc_reg (reg_slot ra d) sc) s s1"
  shows "\<exists>s'. exec_list (sx_code b (loc_reg (reg_slot ra d) sc) @ st_code ra d (loc_reg (reg_slot ra d) sc)) s1 = Some s'
     \<and> writes ra d (sext32 b (regs s1 (rn (loc_reg (reg_slot ra d) sc)))) s s'"
proof (cases "reg_slot ra d")
  case (Inl p)
  then show ?thesis
    using assms(4)
    by (auto simp: loc_reg_def sx_code_def st_code_def exec_insn_def writes_def near_def set_reg_def sext32_def reg_num_inj)
next
  case (Inr n)
  have n: "mem s1 = mem s" "\<And>p. p \<notin> scratch \<Longrightarrow> regs s1 (rn p) = regs s (rn p)"
    using assms(3,4) Inr by (auto simp: near_def loc_reg_def insert_absorb)
  have "RBP \<notin> scratch" "RBP \<noteq> sc"
    using assms(3) by (auto simp: scratch_def)
  then show ?thesis
    using n assms(3) Inr slot_rm_addr [OF slot_spill [OF assms(1,2) Inr]]
    by (auto simp: loc_reg_def sx_code_def st_code_def slot_rm_def exec_insn_def writes_def set_reg_def
        sext32_def reg_num_inj)
qed

definition lowers :: "AnaRegAlloc \<Rightarrow> unit emit \<Rightarrow> Register \<Rightarrow> ((Register \<Rightarrow> u64) \<Rightarrow> u64) \<Rightarrow> bool" where
  "lowers ra m d f \<longleftrightarrow> (\<exists>is. asm m () is \<and>
     (\<forall>\<rho> s. rep ra \<rho> s \<longrightarrow> (\<exists>s'. exec_list is s = Some s' \<and> writes ra d (f \<rho>) s s')))"

lemma asm_sx: "d \<noteq> NO_REG \<Longrightarrow> asm (if b then movsxd_reg_reg d d else skip_emit) () (sx_code b d)"
  using asm_movsxd_reg_reg [of d d] asm_ret [of "()"] by (simp add: sx_code_def)

lemma asm_mv: "d \<noteq> NO_REG \<Longrightarrow> s \<noteq> NO_REG \<Longrightarrow> asm (mov_reg_reg d s) () (mv_code d s)"
  using asm_mov_reg_reg [of d s] by (simp add: mv_code_def)

lemma ld_reg_ok: "opd_ok ra opd \<Longrightarrow> sc \<noteq> NO_REG \<Longrightarrow> ld_reg ra opd sc \<noteq> NO_REG"
  using ld_reg_cases [of ra opd sc] by auto

lemma loc_reg_ok: "sc \<noteq> NO_REG \<Longrightarrow> loc_reg (reg_slot ra d) sc \<noteq> NO_REG"
  using loc_reg_cases [of ra d sc] by auto

section \<open>Addition, subtraction and bitwise operations\<close>

definition imm_val :: "(Register \<Rightarrow> u64) \<Rightarrow> Operand \<Rightarrow> u64" where
  "imm_val \<rho> opd = (case opd of OpConst c \<Rightarrow> scast (ucast c :: i32) | _ \<Rightarrow> opd_val \<rho> opd)"

definition alu_code :: "aluop \<Rightarrow> Operand \<Rightarrow> X86Reg \<Rightarrow> X86Reg \<Rightarrow> xinsn list" where
  "alu_code a opd d s =
     [case opd of OpConst c \<Rightarrow> ALU_rm_i a (RReg (rn d)) (ucast c) | _ \<Rightarrow> ALU_rm_r a (RReg (rn d)) (rn s)]"

lemma const_kind: "opd_ok ra opd \<Longrightarrow> op_kind opd = CONST_INT \<longleftrightarrow> (\<exists>c. opd = OpConst c)"
  by (cases opd) (simp_all add: opd_ok_def)

lemma exec_alu:
  assumes "a \<noteq> A_CMP" "opd_ok ra opd" "\<And>r. opd = OpReg r \<Longrightarrow> regs s (rn x) = opd_val \<rho> opd"
  shows "\<exists>s'. exec_list (alu_code a opd d x) s = Some s' \<and> mem s' = mem s
     \<and> (\<forall>p. regs s' (rn p) = (if p = d then alu_result a (regs s (rn d)) (imm_val \<rho> opd) else regs s (rn p)))"
  using assms by (cases opd) (auto simp: alu_code_def exec_insn_def set_alu_def set_reg_def imm_val_def opd_ok_def reg_num_inj)


lemma lowers_alu:
  assumes ok: "ra_ok ra" and o1: "opd_ok ra (src1 insn)" and o2: "opd_ok ra (src2 insn)"
    and d: "dest insn = OpReg d" "ir_reg ra d" and a: "a \<noteq> A_CMP"
    and rr: "\<And>x y. x \<noteq> NO_REG \<Longrightarrow> y \<noteq> NO_REG \<Longrightarrow> asm (rr x y) () [ALU_rm_r a (RReg (rn x)) (rn y)]"
    and ri: "\<And>x w. x \<noteq> NO_REG \<Longrightarrow> asm (ri x w) () [ALU_rm_i a (RReg (rn x)) w]"
  shows "lowers ra (lower_alu rr ri ra insn) d
    (\<lambda>\<rho>. sext32 (is_i32_op (op insn)) (alu_result a (opd_val \<rho> (src1 insn)) (imm_val \<rho> (src2 insn))))"
proof -
  let ?b = "is_i32_op (op insn)" and ?d = "loc_reg (reg_slot ra d) RCX"
  let ?r1 = "ld_reg ra (src1 insn) RCX" and ?r2 = "ld_reg ra (src2 insn) R11"
  let ?c = "?d = ?r2 \<and> ?r2 \<noteq> R11 \<and> op_kind (src2 insn) \<noteq> CONST_INT"
  let ?x = "if ?c then R11 else ?r2"
  let ?is = "ld_code ra (src2 insn) R11 @ ld_code ra (src1 insn) RCX @ (if ?c then mv_code R11 ?r2 else []) @
      mv_code ?d ?r1 @ alu_code a (src2 insn) ?d ?x @ sx_code ?b ?d @ st_code ra d ?d"
  have nr: "?r1 \<noteq> NO_REG" "?r2 \<noteq> NO_REG" "?d \<noteq> NO_REG" "?x \<noteq> NO_REG"
    using ld_reg_ok [OF o1] ld_reg_ok [OF o2] loc_reg_ok by auto
  have save: "asm (if ?c then do { mov_reg_reg R11 ?r2; State_Monad.return R11 } else State_Monad.return ?r2)
      ?x (if ?c then mv_code R11 ?r2 else [])"
    using asm_bind [OF asm_mv [of R11 ?r2] asm_ret [of R11]] asm_ret [of ?r2] nr by auto
  have alu: "asm (if op_kind (src2 insn) = CONST_INT then ri ?d (ucast (op_const (src2 insn))) else rr ?d ?x) ()
      (alu_code a (src2 insn) ?d ?x)"
    using o2 rr [OF nr(3,4)] ri [OF nr(3)] by (cases "src2 insn") (auto simp: alu_code_def opd_ok_def)
  have "asm (lower_alu rr ri ra insn) () ?is"
    unfolding lower_alu_def dst_reg_eq [OF ok d] Let_def d(1) op_reg.simps
    by (intro asm_bind [OF asm_load [OF ok o2]] asm_bind [OF asm_load [OF ok o1]] asm_bind [OF save]
        asm_bind [OF asm_mv [OF nr(3,1)]] asm_bind [OF alu] asm_bind [OF asm_sx [OF nr(3)]]
        asm_store [OF ok d(2) nr(3)]) simp_all
  moreover have "\<exists>s'. exec_list ?is s = Some s' \<and> writes ra d
      (sext32 ?b (alu_result a (opd_val \<rho> (src1 insn)) (imm_val \<rho> (src2 insn)))) s s'"
    if r: "rep ra \<rho> s" for \<rho> s
  proof -
    have sc: "R11 \<in> scratch" "RCX \<in> scratch"
      by (auto simp: scratch_def)
    obtain s1 where s1: "exec_list (ld_code ra (src2 insn) R11) s = Some s1" "same_frame s s1"
      "regs s1 (rn ?r2) = opd_val \<rho> (src2 insn)"
      using exec_load [OF ok o2 r same_frame_refl sc(1)] by blast
    obtain s2 where s2: "exec_list (ld_code ra (src1 insn) RCX) s1 = Some s2" "same_frame s s2"
      "regs s2 (rn ?r1) = opd_val \<rho> (src1 insn)" "\<forall>p. p \<noteq> RCX \<longrightarrow> regs s2 (rn p) = regs s1 (rn p)"
      using exec_load [OF ok o1 r s1(2) sc(2)] by blast
    have v2: "regs s2 (rn ?r2) = opd_val \<rho> (src2 insn)"
      using s1(3) s2(4) ld_reg_cases [OF o2, of R11] by auto
    obtain s3 where s3: "exec_list (if ?c then mv_code R11 ?r2 else []) s2 = Some s3" "mem s3 = mem s2"
      "\<forall>p. regs s3 (rn p) = (if ?c \<and> p = R11 then regs s2 (rn ?r2) else regs s2 (rn p))"
      using exec_mv [of R11 ?r2 s2] by (cases ?c) auto
    obtain s4 where s4: "exec_list (mv_code ?d ?r1) s3 = Some s4" "mem s4 = mem s3"
      "\<forall>p. regs s4 (rn p) = (if p = ?d then regs s3 (rn ?r1) else regs s3 (rn p))"
      using exec_mv by blast
    have x: "regs s4 (rn ?x) = opd_val \<rho> (src2 insn)" if "src2 insn = OpReg q" for q
      using s3(3) s4(3) v2 that loc_reg_cases [of ra d RCX] ld_reg_cases [OF o2, of R11] by auto
    obtain s5 where s5: "exec_list (alu_code a (src2 insn) ?d ?x) s4 = Some s5" "mem s5 = mem s4"
      "\<forall>p. regs s5 (rn p) = (if p = ?d then alu_result a (regs s4 (rn ?d)) (imm_val \<rho> (src2 insn)) else regs s4 (rn p))"
      using exec_alu [OF a o2, of s4 ?x \<rho> ?d] x by blast
    have "near ?d s s5"
      using s2(2) s3(2,3) s4(2,3) s5(2,3) by (auto simp: near_def same_frame_def scratch_def)
    moreover have "regs s5 (rn ?d) = alu_result a (opd_val \<rho> (src1 insn)) (imm_val \<rho> (src2 insn))"
      using s2(3) s3(3) s4(3) s5(3) ld_reg_cases [OF o1, of RCX] by auto
    ultimately show ?thesis
      using exec_finish [OF ok d(2) sc(2), of s s5 ?b] s1(1) s2(1) s3(1) s4(1) s5(1) by (simp add: exec_append)
  qed
  ultimately show ?thesis
    unfolding lowers_def by blast
qed


section \<open>Multiplication and negation\<close>

lemma exec_imul:
  "\<exists>s'. exec_list [IMUL_r_rm (rn d) (RReg (rn x))] s = Some s' \<and> mem s' = mem s
     \<and> (\<forall>p. regs s' (rn p) = (if p = d then regs s (rn d) * regs s (rn x) else regs s (rn p)))"
  by (auto simp: exec_insn_def set_reg_def reg_num_inj)

lemma asm_mv_unless: "d \<noteq> NO_REG \<Longrightarrow> x \<noteq> NO_REG \<Longrightarrow> asm (if x \<noteq> d then mov_reg_reg d x else skip_emit) () (mv_code d x)"
  using asm_mv [of d x] asm_ret [of "()"] by (cases "d = x") (simp_all add: mv_code_def)

lemma lowers_mul:
  assumes ok: "ra_ok ra" and o1: "opd_ok ra (src1 insn)" and o2: "opd_ok ra (src2 insn)"
    and d: "dest insn = OpReg d" "ir_reg ra d"
  shows "lowers ra (lower_mul ra insn) d
    (\<lambda>\<rho>. sext32 (is_i32_op (op insn)) (opd_val \<rho> (src1 insn) * opd_val \<rho> (src2 insn)))"
proof -
  let ?b = "is_i32_op (op insn)" and ?d = "loc_reg (reg_slot ra d) RCX"
  let ?r1 = "ld_reg ra (src1 insn) RCX" and ?r2 = "ld_reg ra (src2 insn) R11"
  let ?is = "ld_code ra (src2 insn) R11 @ mv_code R11 ?r2 @ ld_code ra (src1 insn) RCX @ mv_code ?d ?r1 @
      [IMUL_r_rm (rn ?d) (RReg (rn R11))] @ sx_code ?b ?d @ st_code ra d ?d"
  have nr: "?r1 \<noteq> NO_REG" "?r2 \<noteq> NO_REG" "?d \<noteq> NO_REG" "R11 \<noteq> NO_REG"
    using ld_reg_ok [OF o1] ld_reg_ok [OF o2] loc_reg_ok by auto
  have "asm (lower_mul ra insn) () ?is"
    unfolding lower_mul_def dst_reg_eq [OF ok d] Let_def d(1) op_reg.simps
    by (intro asm_bind [OF asm_load [OF ok o2]] asm_bind [OF asm_load [OF ok o1]] asm_bind [OF asm_mv_unless [OF nr(4,2)]]
        asm_bind [OF asm_mv [OF nr(3,1)]] asm_bind [OF asm_imul_reg_reg [OF nr(3,4)]] asm_bind [OF asm_sx [OF nr(3)]]
        asm_store [OF ok d(2) nr(3)]) simp_all
  moreover have "\<exists>s'. exec_list ?is s = Some s' \<and> writes ra d
      (sext32 ?b (opd_val \<rho> (src1 insn) * opd_val \<rho> (src2 insn))) s s'"
    if r: "rep ra \<rho> s" for \<rho> s
  proof -
    have sc: "R11 \<in> scratch" "RCX \<in> scratch"
      by (auto simp: scratch_def)
    obtain s1 where s1: "exec_list (ld_code ra (src2 insn) R11) s = Some s1" "same_frame s s1"
      "regs s1 (rn ?r2) = opd_val \<rho> (src2 insn)"
      using exec_load [OF ok o2 r same_frame_refl sc(1)] by blast
    obtain s2 where s2: "exec_list (mv_code R11 ?r2) s1 = Some s2" "mem s2 = mem s1"
      "\<forall>p. regs s2 (rn p) = (if p = R11 then regs s1 (rn ?r2) else regs s1 (rn p))"
      using exec_mv by blast
    have f2: "same_frame s s2"
      using s1(2) s2(2,3) sc by (auto simp: same_frame_def)
    obtain s3 where s3: "exec_list (ld_code ra (src1 insn) RCX) s2 = Some s3" "same_frame s s3"
      "regs s3 (rn ?r1) = opd_val \<rho> (src1 insn)" "\<forall>p. p \<noteq> RCX \<longrightarrow> regs s3 (rn p) = regs s2 (rn p)"
      using exec_load [OF ok o1 r f2 sc(2)] by blast
    obtain s4 where s4: "exec_list (mv_code ?d ?r1) s3 = Some s4" "mem s4 = mem s3"
      "\<forall>p. regs s4 (rn p) = (if p = ?d then regs s3 (rn ?r1) else regs s3 (rn p))"
      using exec_mv by blast
    obtain s5 where s5: "exec_list [IMUL_r_rm (rn ?d) (RReg (rn R11))] s4 = Some s5" "mem s5 = mem s4"
      "\<forall>p. regs s5 (rn p) = (if p = ?d then regs s4 (rn ?d) * regs s4 (rn R11) else regs s4 (rn p))"
      using exec_imul by blast
    have "near ?d s s5"
      using s3(2) s4(2,3) s5(2,3) by (auto simp: near_def same_frame_def scratch_def)
    moreover have "regs s5 (rn ?d) = opd_val \<rho> (src1 insn) * opd_val \<rho> (src2 insn)"
      using s1(3) s2(3) s3(3,4) s4(3) s5(3) loc_reg_cases [of ra d RCX] by auto
    ultimately show ?thesis
      using exec_finish [OF ok d(2) sc(2), of s s5 ?b] s1(1) s2(1) s3(1) s4(1) s5(1)
      by (simp only: exec_append option.case)
  qed
  ultimately show ?thesis
    unfolding lowers_def by blast
qed

section \<open>Instructions with one operand\<close>

text \<open>Code that computes \<open>f\<close> of a register in place of the destination.\<close>

definition computes :: "(X86Reg \<Rightarrow> X86Reg \<Rightarrow> xinsn list) \<Rightarrow> (u64 \<Rightarrow> u64) \<Rightarrow> bool" where
  "computes code f \<longleftrightarrow> (\<forall>d x s. x \<noteq> R11 \<longrightarrow> d \<noteq> R11 \<longrightarrow> (\<exists>s'. exec_list (code d x) s = Some s' \<and> mem s' = mem s
     \<and> regs s' (rn d) = f (regs s (rn x)) \<and> (\<forall>p. p \<notin> {d, R11} \<longrightarrow> regs s' (rn p) = regs s (rn p))))"

lemma lowers_unary:
  assumes ok: "ra_ok ra" and o1: "opd_ok ra (src1 insn)" and d: "dest insn = OpReg d" "ir_reg ra d"
    and sc: "sc \<in> {RAX, RCX}"
    and m: "\<And>x y. x \<noteq> NO_REG \<Longrightarrow> y \<noteq> NO_REG \<Longrightarrow> asm (m x y) () (code x y)" and c: "computes code f"
  shows "lowers ra (do { s1 \<leftarrow> load_operand ra (src1 insn) sc; m (dst_reg ra insn sc) s1;
      (if b then movsxd_reg_reg (dst_reg ra insn sc) (dst_reg ra insn sc) else skip_emit);
      store_operand ra (op_reg (dest insn)) (dst_reg ra insn sc) }) d
    (\<lambda>\<rho>. sext32 b (f (opd_val \<rho> (src1 insn))))"
proof -
  let ?d = "loc_reg (reg_slot ra d) sc" and ?r1 = "ld_reg ra (src1 insn) sc"
  let ?is = "ld_code ra (src1 insn) sc @ code ?d ?r1 @ sx_code b ?d @ st_code ra d ?d"
  have s: "sc \<noteq> NO_REG" "sc \<in> scratch" "sc \<noteq> R11"
    using sc by (auto simp: scratch_def)
  have nr: "?r1 \<noteq> NO_REG" "?d \<noteq> NO_REG" "?r1 \<noteq> R11" "?d \<noteq> R11"
    using ld_reg_ok [OF o1] loc_reg_ok s ld_reg_cases [OF o1, of sc] loc_reg_cases [of ra d sc] by auto
  have "asm (do { s1 \<leftarrow> load_operand ra (src1 insn) sc; m (dst_reg ra insn sc) s1;
      (if b then movsxd_reg_reg (dst_reg ra insn sc) (dst_reg ra insn sc) else skip_emit);
      store_operand ra (op_reg (dest insn)) (dst_reg ra insn sc) }) () ?is"
    unfolding dst_reg_eq [OF ok d] d(1) op_reg.simps
    by (intro asm_bind [OF asm_load [OF ok o1 s(1)]] asm_bind [OF m [OF nr(2,1)]] asm_bind [OF asm_sx [OF nr(2)]]
        asm_store [OF ok d(2) nr(2)])
  moreover have "\<exists>s'. exec_list ?is s = Some s' \<and> writes ra d (sext32 b (f (opd_val \<rho> (src1 insn)))) s s'"
    if r: "rep ra \<rho> s" for \<rho> s
  proof -
    obtain s1 where s1: "exec_list (ld_code ra (src1 insn) sc) s = Some s1" "same_frame s s1"
      "regs s1 (rn ?r1) = opd_val \<rho> (src1 insn)"
      using exec_load [OF ok o1 r same_frame_refl s(2)] by blast
    obtain s2 where s2: "exec_list (code ?d ?r1) s1 = Some s2" "mem s2 = mem s1"
      "regs s2 (rn ?d) = f (regs s1 (rn ?r1))" "\<forall>p. p \<notin> {?d, R11} \<longrightarrow> regs s2 (rn p) = regs s1 (rn p)"
      using c nr(3,4) unfolding computes_def by blast
    have "near ?d s s2"
      using s1(2) s2(2,4) by (auto simp: near_def same_frame_def scratch_def)
    then show ?thesis
      using exec_finish [OF ok d(2) s(2), of s s2 b] s1 s2 by (simp only: exec_append option.case)
  qed
  ultimately show ?thesis
    unfolding lowers_def by blast
qed


lemma bind_skip: "(skip_emit \<bind> (\<lambda>_. m)) = m"
  by simp

lemma computes_mv: "computes (\<lambda>d x. mv_code d x) (\<lambda>v. v)"
  unfolding computes_def using exec_mv by fastforce

lemma computes_popcnt: "computes (\<lambda>d x. [POPCNT (rn d) (RReg (rn x))]) (\<lambda>v. of_nat (popcnt64 v))"
  and computes_lzcnt: "computes (\<lambda>d x. [LZCNT (rn d) (RReg (rn x))]) (\<lambda>v. of_nat (lzcnt64 v))"
  by (auto simp: computes_def exec_insn_def set_reg_def reg_num_inj)

lemma computes_neg:
  "computes (\<lambda>d x. [MOV_ri64 (rn R11) 0, ALU_rm_r A_SUB (RReg (rn R11)) (rn x)] @ mv_code d R11) uminus"
  by (auto simp: computes_def exec_insn_def set_reg_def set_alu_def mv_code_def reg_num_inj)

lemma lowers_popcount:
  assumes "ra_ok ra" "opd_ok ra (src1 insn)" "dest insn = OpReg d" "ir_reg ra d"
  shows "lowers ra (lower_popcount ra insn) d (\<lambda>\<rho>. of_nat (popcnt64 (opd_val \<rho> (src1 insn))))"
  using lowers_unary [OF assms _ asm_popcnt_reg_reg computes_popcnt, of RAX False]
  by (simp add: lower_popcount_def sext32_def Let_def)

lemma lowers_lzcnt:
  assumes "ra_ok ra" "opd_ok ra (src1 insn)" "dest insn = OpReg d" "ir_reg ra d"
  shows "lowers ra (lower_lzcnt ra insn) d (\<lambda>\<rho>. of_nat (lzcnt64 (opd_val \<rho> (src1 insn))))"
  using lowers_unary [OF assms _ asm_lzcnt_reg_reg computes_lzcnt, of RAX False]
  by (simp add: lower_lzcnt_def sext32_def Let_def)

lemma asm_neg:
  assumes "x \<noteq> NO_REG" "y \<noteq> NO_REG"
  shows "asm (do { mov_reg_imm64 R11 0; sub_reg_reg R11 y; mov_reg_reg x R11 }) ()
    ([MOV_ri64 (rn R11) 0, ALU_rm_r A_SUB (RReg (rn R11)) (rn y)] @ mv_code x R11)"
  using asm_bind [OF asm_mov_reg_imm64 [of R11 0] asm_bind [OF asm_sub_reg_reg [of R11 y] asm_mv [of x R11]]] assms by simp

lemma lowers_neg:
  assumes "ra_ok ra" "opd_ok ra (src1 insn)" "dest insn = OpReg d" "ir_reg ra d"
  shows "lowers ra (lower_neg ra insn) d (\<lambda>\<rho>. sext32 (is_i32_op (op insn)) (- opd_val \<rho> (src1 insn)))"
  using lowers_unary [OF assms _ asm_neg computes_neg, of RCX "is_i32_op (op insn)"]
  by (simp add: lower_neg_def Let_def)

lemma lowers_imm:
  assumes ok: "ra_ok ra" and d: "dest insn = OpReg d" "ir_reg ra d"
  shows "lowers ra (do { mov_reg_imm64 (dst_reg ra insn RCX) v; store_operand ra (op_reg (dest insn)) (dst_reg ra insn RCX) })
    d (\<lambda>_. v)"
proof -
  let ?d = "loc_reg (reg_slot ra d) RCX"
  let ?is = "[MOV_ri64 (rn ?d) v] @ st_code ra d ?d"
  have nr: "?d \<noteq> NO_REG"
    using loc_reg_ok by simp
  have "asm (do { mov_reg_imm64 (dst_reg ra insn RCX) v; store_operand ra (op_reg (dest insn)) (dst_reg ra insn RCX) }) () ?is"
    unfolding dst_reg_eq [OF ok d] d(1) op_reg.simps
    by (intro asm_bind [OF asm_mov_reg_imm64 [OF nr]] asm_store [OF ok d(2) nr])
  moreover have "\<exists>s'. exec_list ?is s = Some s' \<and> writes ra d v s s'" for s
  proof -
    have "near ?d s (set_reg (rn ?d) v s)" "RCX \<in> scratch"
      by (auto simp: near_def set_reg_def reg_num_inj scratch_def)
    from exec_finish [OF ok d(2) this(2,1), of False] show ?thesis
      by (simp add: exec_insn_def sx_code_def sext32_def set_reg_def)
  qed
  ultimately show ?thesis
    unfolding lowers_def by blast
qed

lemma lowers_move:
  assumes ok: "ra_ok ra" and o1: "opd_ok ra (src1 insn)" and d: "dest insn = OpReg d" "ir_reg ra d"
  shows "lowers ra (lower_move ra insn) d (\<lambda>\<rho>. opd_val \<rho> (src1 insn))"
proof -
  let ?r1 = "ld_reg ra (src1 insn) RAX"
  have nr: "?r1 \<noteq> NO_REG"
    using ld_reg_ok [OF o1] by simp
  have "asm (lower_move ra insn) () (ld_code ra (src1 insn) RAX @ st_code ra d ?r1)"
    unfolding lower_move_def d(1) op_reg.simps
    by (intro asm_bind [OF asm_load [OF ok o1]] asm_store [OF ok d(2) nr]) simp
  moreover have "\<exists>s'. exec_list (ld_code ra (src1 insn) RAX @ st_code ra d ?r1) s = Some s'
      \<and> writes ra d (opd_val \<rho> (src1 insn)) s s'" if r: "rep ra \<rho> s" for \<rho> s
  proof -
    have "RAX \<in> scratch"
      by (simp add: scratch_def)
    then obtain s1 where s1: "exec_list (ld_code ra (src1 insn) RAX) s = Some s1" "same_frame s s1"
      "regs s1 (rn ?r1) = opd_val \<rho> (src1 insn)"
      using exec_load [OF ok o1 r same_frame_refl] by blast
    have "RBP \<notin> scratch"
      by (simp add: scratch_def)
    then have "\<exists>s'. exec_list (st_code ra d ?r1) s1 = Some s' \<and> writes ra d (opd_val \<rho> (src1 insn)) s s'"
      using s1(2,3) slot_rm_addr [OF slot_spill [OF ok d(2)]]
      by (cases "reg_slot ra d")
        (auto simp: st_code_def exec_insn_def writes_def same_frame_def slot_rm_def set_reg_def reg_num_inj)
    then show ?thesis
      using s1(1) by (simp add: exec_append)
  qed
  ultimately show ?thesis
    unfolding lowers_def by blast
qed

section \<open>Shifts\<close>

definition zx_code :: "bool \<Rightarrow> X86Reg \<Rightarrow> xinsn list" where
  "zx_code b d = (if b then [MOV32_r_rm (rn d) (RReg (rn d))] else [])"

definition zext32 :: "bool \<Rightarrow> u64 \<Rightarrow> u64" where
  "zext32 b v = (if b then ucast (ucast v :: u32) else v)"

definition shift_code :: "shiftop \<Rightarrow> Operand \<Rightarrow> X86Reg \<Rightarrow> xinsn list" where
  "shift_code o' opd d =
     [case opd of OpConst c \<Rightarrow> SHIFT_i o' (RReg (rn d)) (ucast c) | _ \<Rightarrow> SHIFT_cl o' (RReg (rn d))]"

lemma exec_zx: "\<exists>s'. exec_list (zx_code b d) s = Some s' \<and> mem s' = mem s
    \<and> (\<forall>p. regs s' (rn p) = (if p = d then zext32 b (regs s (rn d)) else regs s (rn p)))"
  by (auto simp: zx_code_def zext32_def exec_insn_def set_reg_def reg_num_inj)

lemma asm_zx: "d \<noteq> NO_REG \<Longrightarrow> asm (if b then movzxd_reg_reg d d else skip_emit) () (zx_code b d)"
  using asm_movzxd_reg_reg [of d d] asm_ret [of "()"] by (simp add: zx_code_def)

lemma exec_shift:
  assumes "opd_ok ra opd" "\<And>r. opd = OpReg r \<Longrightarrow> regs s (rn RCX) = opd_val \<rho> opd"
  shows "\<exists>s'. exec_list (shift_code o' opd d) s = Some s' \<and> mem s' = mem s
     \<and> (\<forall>p. regs s' (rn p) = (if p = d then shift_result o' (count6 (ucast (opd_val \<rho> opd))) (regs s (rn d)) else regs s (rn p)))"
  using assms
  by (cases opd) (auto simp: shift_code_def exec_insn_def set_alu_def set_reg_def opd_val_def opd_ok_def reg_num_inj
      reg_num.simps(2))

lemma lowers_shift:
  assumes ok: "ra_ok ra" and o1: "opd_ok ra (src1 insn)" and o2: "opd_ok ra (src2 insn)"
    and d: "dest insn = OpReg d" "ir_reg ra d"
    and cl: "\<And>x. x \<noteq> NO_REG \<Longrightarrow> asm (by_cl x) () [SHIFT_cl o' (RReg (rn x))]"
    and im: "\<And>x w. x \<noteq> NO_REG \<Longrightarrow> asm (by_imm x w) () [SHIFT_i o' (RReg (rn x)) w]"
  shows "lowers ra (lower_shift by_cl by_imm ra insn) d
    (\<lambda>\<rho>. sext32 (is_i32_op (op insn)) (shift_result o' (count6 (ucast (opd_val \<rho> (src2 insn))))
           (zext32 (op insn = USHR_I32) (opd_val \<rho> (src1 insn)))))"
proof -
  let ?b = "is_i32_op (op insn)" and ?z = "op insn = USHR_I32" and ?d = "loc_reg (reg_slot ra d) RAX"
  let ?r1 = "ld_reg ra (src1 insn) RAX" and ?r2 = "ld_reg ra (src2 insn) RCX"
  let ?is = "ld_code ra (src2 insn) RCX @ mv_code RCX ?r2 @ ld_code ra (src1 insn) RAX @ mv_code ?d ?r1 @
      zx_code ?z ?d @ shift_code o' (src2 insn) ?d @ sx_code ?b ?d @ st_code ra d ?d"
  have nr: "?r1 \<noteq> NO_REG" "?r2 \<noteq> NO_REG" "?d \<noteq> NO_REG" "RCX \<noteq> NO_REG"
    using ld_reg_ok [OF o1] ld_reg_ok [OF o2] loc_reg_ok by auto
  have c: "op_kind (src2 insn) = CONST_INT \<Longrightarrow> ?r2 = RCX"
    using o2 by (cases "src2 insn") (auto simp: ld_reg_def)
  have mv: "asm (if op_kind (src2 insn) \<noteq> CONST_INT \<and> ?r2 \<noteq> RCX then mov_reg_reg RCX ?r2 else skip_emit) ()
      (mv_code RCX ?r2)"
    using asm_mv_unless [OF nr(4,2)] c by (cases "op_kind (src2 insn) = CONST_INT") simp_all
  have sh: "asm (if op_kind (src2 insn) = CONST_INT then by_imm ?d (ucast (op_const (src2 insn))) else by_cl ?d) ()
      (shift_code o' (src2 insn) ?d)"
    using o2 cl [OF nr(3)] im [OF nr(3)] by (cases "src2 insn") (auto simp: shift_code_def opd_ok_def)
  have "asm (lower_shift by_cl by_imm ra insn) () ?is"
    unfolding lower_shift_def dst_reg_eq [OF ok d] Let_def d(1) op_reg.simps
    by (intro asm_bind [OF asm_load [OF ok o2 nr(4)]] asm_bind [OF mv] asm_bind [OF asm_load [OF ok o1]]
        asm_bind [OF asm_mv [OF nr(3,1)]] asm_bind [OF asm_zx [OF nr(3)]] asm_bind [OF sh] asm_bind [OF asm_sx [OF nr(3)]]
        asm_store [OF ok d(2) nr(3)]) simp
  moreover have "\<exists>s'. exec_list ?is s = Some s' \<and> writes ra d (sext32 ?b (shift_result o'
      (count6 (ucast (opd_val \<rho> (src2 insn)))) (zext32 ?z (opd_val \<rho> (src1 insn))))) s s'"
    if r: "rep ra \<rho> s" for \<rho> s
  proof -
    have sc: "RCX \<in> scratch" "RAX \<in> scratch"
      by (auto simp: scratch_def)
    obtain s1 where s1: "exec_list (ld_code ra (src2 insn) RCX) s = Some s1" "same_frame s s1"
      "regs s1 (rn ?r2) = opd_val \<rho> (src2 insn)"
      using exec_load [OF ok o2 r same_frame_refl sc(1)] by blast
    obtain s2 where s2: "exec_list (mv_code RCX ?r2) s1 = Some s2" "mem s2 = mem s1"
      "\<forall>p. regs s2 (rn p) = (if p = RCX then regs s1 (rn ?r2) else regs s1 (rn p))"
      using exec_mv by blast
    have f2: "same_frame s s2"
      using s1(2) s2(2,3) sc by (auto simp: same_frame_def)
    obtain s3 where s3: "exec_list (ld_code ra (src1 insn) RAX) s2 = Some s3" "same_frame s s3"
      "regs s3 (rn ?r1) = opd_val \<rho> (src1 insn)" "\<forall>p. p \<noteq> RAX \<longrightarrow> regs s3 (rn p) = regs s2 (rn p)"
      using exec_load [OF ok o1 r f2 sc(2)] by blast
    obtain s4 where s4: "exec_list (mv_code ?d ?r1) s3 = Some s4" "mem s4 = mem s3"
      "\<forall>p. regs s4 (rn p) = (if p = ?d then regs s3 (rn ?r1) else regs s3 (rn p))"
      using exec_mv by blast
    obtain s5 where s5: "exec_list (zx_code ?z ?d) s4 = Some s5" "mem s5 = mem s4"
      "\<forall>p. regs s5 (rn p) = (if p = ?d then zext32 ?z (regs s4 (rn ?d)) else regs s4 (rn p))"
      using exec_zx by blast
    have "regs s5 (rn RCX) = opd_val \<rho> (src2 insn)"
      using s1(3) s2(3) s3(4) s4(3) s5(3) loc_reg_cases [of ra d RAX] by auto
    then obtain s6 where s6: "exec_list (shift_code o' (src2 insn) ?d) s5 = Some s6" "mem s6 = mem s5"
      "\<forall>p. regs s6 (rn p) = (if p = ?d then shift_result o' (count6 (ucast (opd_val \<rho> (src2 insn)))) (regs s5 (rn ?d))
          else regs s5 (rn p))"
      using exec_shift [OF o2, of s5 \<rho> o' ?d] by blast
    have "near ?d s s6"
      using s3(2) s4(2,3) s5(2,3) s6(2,3) by (auto simp: near_def same_frame_def scratch_def)
    moreover have "regs s6 (rn ?d) = shift_result o' (count6 (ucast (opd_val \<rho> (src2 insn))))
        (zext32 ?z (opd_val \<rho> (src1 insn)))"
      using s3(3) s4(3) s5(3) s6(3) by auto
    ultimately show ?thesis
      using exec_finish [OF ok d(2) sc(2), of s s6 ?b] s1(1) s2(1) s3(1) s4(1) s5(1) s6(1)
      by (simp only: exec_append option.case)
  qed
  ultimately show ?thesis
    unfolding lowers_def by blast
qed

section \<open>Agreement with the reference\<close>

text \<open>A value that fits in 32 bits, sign-extended.\<close>

definition norm32 :: "u64 \<Rightarrow> bool" where
  "norm32 v \<longleftrightarrow> scast (ucast v :: i32) = v"

lemma norm32_scast: "norm32 v \<Longrightarrow> \<exists>x :: i32. v = scast x"
  by (metis norm32_def)

lemma ucast_scast: "ucast (scast (x :: i32) :: u64) = x"
  by (rule bit_eqI) (auto simp: bit_simps)

lemma ucast_of_int: "(ucast (word_of_int z :: u64) :: i32) = word_of_int z"
  by (rule bit_eqI) (auto simp: bit_simps)

lemma ucast_uint: "(ucast (a :: u64) :: i32) = word_of_int (uint a)"
  using ucast_of_int [of "uint a"] by simp

lemma ucast_arith:
  "(ucast (a + b :: u64) :: i32) = ucast a + ucast b" "(ucast (a - b :: u64) :: i32) = ucast a - ucast b"
  "(ucast (a * b :: u64) :: i32) = ucast a * ucast b"
  using ucast_of_int [of "uint a + uint b"] ucast_of_int [of "uint a - uint b"] ucast_of_int [of "uint a * uint b"]
  by (simp_all add: ucast_uint [symmetric])

lemma scast_bitwise:
  "scast (x :: i32) AND scast y = (scast (x AND y) :: u64)" "scast (x :: i32) OR scast y = (scast (x OR y) :: u64)"
  "scast (x :: i32) XOR scast y = (scast (x XOR y) :: u64)"
  by (rule bit_eqI; auto simp: bit_simps)+

lemma scast_shl: "n < 32 \<Longrightarrow> (ucast (push_bit n v :: u64) :: i32) = push_bit n (ucast v)"
  by (rule bit_eqI) (auto simp: bit_simps)

lemma scast_sar:
  assumes "n < 32"
  shows "(ucast (signed_drop_bit n (scast (x :: i32)) :: u64) :: i32) = signed_drop_bit n x"
proof (rule bit_word_eqI)
  fix k
  assume k: "k < LENGTH(32)"
  consider "n + k < 31" | "n + k = 31" | "31 < n + k"
    by linarith
  then show "bit (ucast (signed_drop_bit n (scast x :: u64)) :: i32) k = bit (signed_drop_bit n x) k"
    by cases (use assms k in \<open>auto simp: bit_simps min_def\<close>)
qed

lemma scast_shr: "(ucast (drop_bit n (ucast (x :: i32)) :: u64) :: i32) = drop_bit n x"
  by (rule bit_eqI) (auto simp: bit_simps dest: bit_imp_le_length)

lemma count6_count: "count6 (ucast (v :: u64)) = unat ((ucast v :: u32) AND 63)"
proof -
  have "uint ((ucast v :: u8) AND mask 6) = uint ((ucast v :: u32) AND mask 6)"
    by (rule bit_eqI) (auto simp: bit_simps)
  then have "unat ((ucast v :: u8) AND mask 6) = unat ((ucast v :: u32) AND mask 6)"
    by (metis nat_uint_eq)
  then show ?thesis
    by (simp add: count6_def mask_eq_exp_minus_1)
qed


text \<open>When the code for an opcode computes the reference value exactly.\<close>

definition exact :: "Opcode \<Rightarrow> Operand \<Rightarrow> u64 \<Rightarrow> u64 \<Rightarrow> bool" where
  "exact opc opd2 v1 v2 \<longleftrightarrow>
     (opc \<in> {ADD_I64, SUB_I64, AND_I64, OR_I64, XOR_I64} \<and> op_kind opd2 = CONST_INT \<longrightarrow> norm32 v2)
     \<and> (opc \<in> {AND_I32, OR_I32, XOR_I32} \<longrightarrow> norm32 v1 \<and> norm32 v2)
     \<and> (opc = SHR_I32 \<longrightarrow> norm32 v1)
     \<and> (opc \<in> {SHL_I32, SHR_I32, USHR_I32} \<longrightarrow> unat ((ucast v2 :: u32) AND 63) < 32)"

definition lowered_alu :: "Opcode \<Rightarrow> bool" where
  "lowered_alu opc \<longleftrightarrow> opc \<in> {ADD_I32, ADD_I64, SUB_I32, SUB_I64, MUL_I32, MUL_I64, AND_I32, AND_I64, OR_I32, OR_I64,
     XOR_I32, XOR_I64, SHL_I32, SHL_I64, SHR_I32, SHR_I64, USHR_I32, USHR_I64}"

text \<open>The value the lowered code leaves in the destination.\<close>

definition alu_of_op :: "Opcode \<Rightarrow> aluop option" where
  "alu_of_op opc = (if opc \<in> {ADD_I32, ADD_I64} then Some A_ADD else if opc \<in> {SUB_I32, SUB_I64} then Some A_SUB
     else if opc \<in> {AND_I32, AND_I64} then Some A_AND else if opc \<in> {OR_I32, OR_I64} then Some A_OR
     else if opc \<in> {XOR_I32, XOR_I64} then Some A_XOR else None)"

definition shift_of_op :: "Opcode \<Rightarrow> shiftop" where
  "shift_of_op opc = (if opc \<in> {SHL_I32, SHL_I64} then S_SHL else if opc \<in> {SHR_I32, SHR_I64} then S_SAR else S_SHR)"

definition mach_val :: "Instruction \<Rightarrow> (Register \<Rightarrow> u64) \<Rightarrow> u64" where
  "mach_val insn \<rho> =
     (let opc = op insn; v1 = opd_val \<rho> (src1 insn); v2 = opd_val \<rho> (src2 insn) in
      sext32 (is_i32_op opc)
        (case alu_of_op opc of
           Some a \<Rightarrow> alu_result a v1 (imm_val \<rho> (src2 insn))
         | None \<Rightarrow> if opc \<in> {MUL_I32, MUL_I64} then v1 * v2
                  else shift_result (shift_of_op opc) (count6 (ucast v2)) (zext32 (opc = USHR_I32) v1)))"

lemmas lowers_ops = lowers_alu [OF _ _ _ _ _ _ asm_add_reg_reg asm_add_reg_imm32]
  lowers_alu [OF _ _ _ _ _ _ asm_sub_reg_reg asm_sub_reg_imm32]
  lowers_alu [OF _ _ _ _ _ _ asm_and_reg_reg asm_and_reg_imm32]
  lowers_alu [OF _ _ _ _ _ _ asm_or_reg_reg asm_or_reg_imm32]
  lowers_alu [OF _ _ _ _ _ _ asm_xor_reg_reg asm_xor_reg_imm32]
  lowers_mul
  lowers_shift [OF _ _ _ _ _ asm_shl_reg_cl asm_shl_reg_imm8]
  lowers_shift [OF _ _ _ _ _ asm_sar_reg_cl asm_sar_reg_imm8]
  lowers_shift [OF _ _ _ _ _ asm_shr_reg_cl asm_shr_reg_imm8]

lemma lowers_insn:
  assumes "ra_ok (le_ra env)" "opd_ok (le_ra env) (src1 insn)" "opd_ok (le_ra env) (src2 insn)"
    "dest insn = OpReg d" "ir_reg (le_ra env) d" "lowered_alu (op insn)"
  shows "lowers (le_ra env) (lower_insn env nxt insn) d (mach_val insn)"
  using assms(6) lowers_ops [OF assms(1-5)] unfolding lowered_alu_def mach_val_def [abs_def] Let_def
  by (auto simp: lower_insn_def lower_add_def lower_sub_def lower_and_def lower_or_def lower_xor_def
      lower_shl_def lower_shr_def lower_ushr_def alu_of_op_def shift_of_op_def)

lemma norm32_imm:
  "imm_val \<rho> opd = (if op_kind opd = CONST_INT then scast (ucast (opd_val \<rho> opd) :: i32) else opd_val \<rho> opd)"
  by (cases opd) (simp_all add: imm_val_def opd_val_def)

lemma ucast_imm: "(ucast (imm_val \<rho> opd) :: i32) = ucast (opd_val \<rho> opd)"
  by (simp add: norm32_imm ucast_scast)

lemma exact_count:
  assumes "unat ((ucast (v :: u64) :: u32) AND 63) < 32"
  shows "unat ((ucast v :: u32) AND 31) = unat ((ucast v :: u32) AND 63)"
proof -
  have "unat ((ucast v :: u32) AND 63) = nat (sint v mod 64)" "unat ((ucast v :: u32) AND 31) = nat (sint v mod 32)"
    using unat_and_mask_count [of 6 v] unat_and_mask_count [of 5 v] by (simp_all add: mask_eq_exp_minus_1)
  moreover have "(sint v mod 64) mod 32 = sint v mod 32"
    by (simp add: mod_mod_cancel)
  moreover have "0 \<le> sint v mod 64"
    by simp
  ultimately show ?thesis
    using assms by (metis mod_pos_pos_trivial nat_less_iff of_nat_numeral)
qed

lemma mach_val_fold:
  assumes "lowered_alu (op insn)" "exact (op insn) (src2 insn) (opd_val \<rho> (src1 insn)) (opd_val \<rho> (src2 insn))"
  shows "fold_const (op insn) (opd_val \<rho> (src1 insn)) (opd_val \<rho> (src2 insn)) = Some (mach_val insn \<rho>)"
proof -
  let ?v1 = "opd_val \<rho> (src1 insn)" and ?v2 = "opd_val \<rho> (src2 insn)"
  have n: "norm32 ?v2 \<Longrightarrow> imm_val \<rho> (src2 insn) = ?v2" "op_kind (src2 insn) \<noteq> CONST_INT \<Longrightarrow> imm_val \<rho> (src2 insn) = ?v2"
    by (simp_all add: norm32_imm norm32_def)
  have c: "op insn \<in> {SHL_I32, SHR_I32, USHR_I32} \<Longrightarrow> unat ((ucast ?v2 :: u32) AND 31) = count6 (ucast ?v2) \<and> count6 (ucast ?v2) < 32"
    using assms(2) exact_count [of ?v2] by (auto simp: exact_def count6_count)
  consider (add) "op insn \<in> {ADD_I32, SUB_I32, MUL_I32}" | (bits) "op insn \<in> {AND_I32, OR_I32, XOR_I32}"
    | (shift) "op insn \<in> {SHL_I32, SHR_I32, USHR_I32}"
    | (wide) "op insn \<in> {ADD_I64, SUB_I64, AND_I64, OR_I64, XOR_I64}"
    | (wshift) "op insn \<in> {MUL_I64, SHL_I64, SHR_I64, USHR_I64}"
    using assms(1) by (auto simp: lowered_alu_def)
  then show ?thesis
  proof cases
    case add
    then show ?thesis
      by (auto simp: fold_const_def mach_val_def Let_def alu_of_op_def is_i32_op_def sext32_def ucast_arith ucast_imm)
  next
    case bits
    then have v: "norm32 ?v1" "norm32 ?v2"
      using assms(2) by (simp_all add: exact_def)
    obtain x y :: i32 where "?v1 = scast x" "?v2 = scast y"
      using norm32_scast [OF v(1)] norm32_scast [OF v(2)] by blast
    then show ?thesis
      using bits n(1) [OF v(2)]
      by (elim insertE emptyE; simp add: fold_const_def mach_val_def alu_of_op_def is_i32_op_def sext32_def ucast_scast scast_bitwise)
  next
    case shift
    have x: "op insn = SHR_I32 \<Longrightarrow> \<exists>x :: i32. ?v1 = scast x"
      using assms(2) norm32_scast by (auto simp: exact_def)
    have "(ucast (shift_result (shift_of_op (op insn)) (count6 (ucast ?v2)) (zext32 (op insn = USHR_I32) ?v1)) :: i32) =
        (case op insn of SHL_I32 \<Rightarrow> push_bit (count6 (ucast ?v2)) (ucast ?v1)
         | SHR_I32 \<Rightarrow> signed_drop_bit (count6 (ucast ?v2)) (ucast ?v1) | _ \<Rightarrow> drop_bit (count6 (ucast ?v2)) (ucast ?v1))"
      using shift x c [OF shift]
      by (elim insertE emptyE; clarsimp simp: shift_of_op_def zext32_def scast_shl scast_shr scast_sar ucast_scast)
    then show ?thesis
      using shift c [OF shift]
      by (elim insertE emptyE; simp add: fold_const_def mach_val_def alu_of_op_def is_i32_op_def sext32_def)
  next
    case wide
    then have "op_kind (src2 insn) = CONST_INT \<Longrightarrow> norm32 ?v2"
      using assms(2) by (simp add: exact_def)
    then have "imm_val \<rho> (src2 insn) = ?v2"
      using n by blast
    then show ?thesis
      using wide by (elim insertE emptyE; simp add: fold_const_def mach_val_def alu_of_op_def is_i32_op_def sext32_def)
  next
    case wshift
    then show ?thesis
      by (elim insertE emptyE; simp add: fold_const_def mach_val_def alu_of_op_def is_i32_op_def sext32_def zext32_def
          shift_of_op_def count6_count)
  qed
qed


section \<open>Straight-line code\<close>

text \<open>
  The value an instruction assigns to its destination; \<open>None\<close> where the reference has no
  value or the operands are outside the range the code handles exactly.
\<close>

definition ir_result :: "Instruction \<Rightarrow> (Register \<Rightarrow> u64) \<Rightarrow> u64 option" where
  "ir_result insn \<rho> =
     (let a = opd_val \<rho> (src1 insn); b = opd_val \<rho> (src2 insn) in
      if op insn = MOVE then Some a
      else if op insn = MOVE_CONST then Some (op_const (src1 insn))
      else if op insn = NEG_I64 then Some (- a)
      else if op insn = POPCOUNT_I64 then Some (of_nat (popcnt64 a))
      else if op insn = LZCNT_I64 then Some (of_nat (lzcnt64 a))
      else if exact (op insn) (src2 insn) a b then map_option word_of_int (ir_alu (op insn) (sint a) (sint b))
      else None)"

fun ir_run :: "Instruction list \<Rightarrow> (Register \<Rightarrow> u64) \<Rightarrow> (Register \<Rightarrow> u64) option" where
  "ir_run [] \<rho> = Some \<rho>"
| "ir_run (i # is) \<rho> =
     (case ir_result i \<rho> of None \<Rightarrow> None | Some v \<Rightarrow> ir_run is (\<rho>(op_reg (dest i) := v)))"

definition straight :: "AnaRegAlloc \<Rightarrow> Instruction \<Rightarrow> bool" where
  "straight ra insn \<longleftrightarrow> (\<exists>d. dest insn = OpReg d \<and> ir_reg ra d) \<and> opd_ok ra (src1 insn)
     \<and> (op insn \<in> {MOVE, MOVE_CONST, NEG_I64, POPCOUNT_I64, LZCNT_I64} \<or> lowered_alu (op insn) \<and> opd_ok ra (src2 insn))"

lemma lowers_alu_result:
  assumes "lowered_alu (op insn)" "ir_result insn \<rho> = Some v"
  shows "mach_val insn \<rho> = v"
proof -
  let ?a = "opd_val \<rho> (src1 insn)" and ?b = "opd_val \<rho> (src2 insn)"
  have "op insn \<notin> {MOVE, MOVE_CONST, NEG_I64, POPCOUNT_I64, LZCNT_I64}"
    using assms(1) by (auto simp: lowered_alu_def)
  then have e: "exact (op insn) (src2 insn) ?a ?b" "map_option word_of_int (ir_alu (op insn) (sint ?a) (sint ?b)) = Some v"
    using assms(2) by (auto simp: ir_result_def Let_def split: if_splits)
  then show ?thesis
    using mach_val_fold [OF assms(1) e(1)] fold_const_ir [of "op insn" ?a ?b] by auto
qed

lemma lowers_weaken:
  "lowers ra m d f \<Longrightarrow> (\<And>\<rho> v. g \<rho> = Some v \<Longrightarrow> f \<rho> = v) \<Longrightarrow>
   \<exists>code. asm m () code \<and> (\<forall>\<rho> s v. rep ra \<rho> s \<longrightarrow> g \<rho> = Some v \<longrightarrow> (\<exists>s'. exec_list code s = Some s' \<and> writes ra d v s s'))"
  unfolding lowers_def by blast

lemma straight_step:
  assumes ok: "ra_ok (le_ra env)" and st: "straight (le_ra env) insn"
  shows "\<exists>code. asm (lower_insn env nxt insn) () code \<and> (\<forall>\<rho> s v. rep (le_ra env) \<rho> s \<longrightarrow> ir_result insn \<rho> = Some v \<longrightarrow>
    (\<exists>s'. exec_list code s = Some s' \<and> writes (le_ra env) (op_reg (dest insn)) v s s'))"
proof -
  obtain d where d: "dest insn = OpReg d" "ir_reg (le_ra env) d" and o1: "opd_ok (le_ra env) (src1 insn)"
    using st by (auto simp: straight_def)
  note W = lowers_weaken [where g = "ir_result insn"]
  consider "op insn = MOVE" | "op insn = MOVE_CONST" | "op insn = NEG_I64" | "op insn = POPCOUNT_I64"
    | "op insn = LZCNT_I64" | "lowered_alu (op insn)" "opd_ok (le_ra env) (src2 insn)"
    using st by (auto simp: straight_def)
  then show ?thesis
  proof cases
    case 1
    then show ?thesis
      using W [OF lowers_move [OF ok o1 d]] d(1) by (simp add: lower_insn_def ir_result_def)
  next
    case 2
    then show ?thesis
      using W [OF lowers_imm [OF ok d, of "op_const (src1 insn)"]] d(1)
      by (simp add: lower_insn_def lower_move_const_def ir_result_def Let_def)
  next
    case 3
    then show ?thesis
      using W [OF lowers_neg [OF ok o1 d]] d(1) by (simp add: lower_insn_def ir_result_def is_i32_op_def sext32_def)
  next
    case 4
    then show ?thesis
      using W [OF lowers_popcount [OF ok o1 d]] d(1) by (simp add: lower_insn_def ir_result_def)
  next
    case 5
    then show ?thesis
      using W [OF lowers_lzcnt [OF ok o1 d]] d(1) by (simp add: lower_insn_def ir_result_def)
  next
    case 6
    then show ?thesis
      using W [OF lowers_insn [OF ok o1 _ d 6(1)]] lowers_alu_result [OF 6(1)] d(1) by simp
  qed
qed

text \<open>
  What a piece of code leaves alone: every register but the scratch registers and the ones that
  hold locals, and all memory outside the slots of the frame.
\<close>

definition frame_kept :: "AnaRegAlloc \<Rightarrow> mstate \<Rightarrow> mstate \<Rightarrow> bool" where
  "frame_kept ra s s' \<longleftrightarrow>
     (\<forall>p. p \<notin> {RAX, RCX, R11, RBX, R12, R13} \<longrightarrow> regs s' (rn p) = regs s (rn p))
     \<and> (\<forall>x. (\<forall>n. unat (saved_reg_count ra) < n \<and> 8 * n \<le> stack_frame_size ra \<longrightarrow>
               \<not> x - slot_addr (regs s (rn RBP)) n < 8) \<longrightarrow> mem s' x = mem s x)"

lemma frame_kept_refl [simp]: "frame_kept ra s s"
  by (simp add: frame_kept_def)

lemma frame_kept_trans: "frame_kept ra s s' \<Longrightarrow> frame_kept ra s' s'' \<Longrightarrow> frame_kept ra s s''"
  unfolding frame_kept_def by auto

lemma writes_frame_kept:
  assumes "ra_ok ra" "ir_reg ra d" "writes ra d v s s'"
  shows "frame_kept ra s s'"
proof (cases "reg_slot ra d")
  case (Inl q)
  then show ?thesis
    using assms(3) slot_phys [OF Inl] by (auto simp: writes_def frame_kept_def scratch_def)
next
  case (Inr n)
  then have "unat (saved_reg_count ra) < n \<and> 8 * n \<le> stack_frame_size ra"
    using reg_slot_bounds [of ra d] assms(1,2) by (simp add: ir_reg_def)
  then show ?thesis
    using assms(3) Inr by (auto simp: writes_def frame_kept_def scratch_def write64_def)
qed

text \<open>Code for an instruction followed by code for the rest.\<close>

lemma chain_straight:
  assumes ok: "ra_ok ra" and d: "ir_reg ra (op_reg (dest i))"
    and c1: "\<And>\<rho> s v. rep ra \<rho> s \<Longrightarrow> ir_result i \<rho> = Some v \<Longrightarrow> \<exists>s'. exec_list c1 s = Some s' \<and> writes ra (op_reg (dest i)) v s s'"
    and c2: "\<And>\<rho> \<rho>' s. rep ra \<rho> s \<Longrightarrow> ir_run is \<rho> = Some \<rho>' \<Longrightarrow> \<exists>s'. exec_list c2 s = Some s' \<and> rep ra \<rho>' s' \<and> frame_kept ra s s'"
    and r: "rep ra \<rho> s" and run: "ir_run (i # is) \<rho> = Some \<rho>'"
  shows "\<exists>s'. exec_list (c1 @ c2) s = Some s' \<and> rep ra \<rho>' s' \<and> frame_kept ra s s'"
proof -
  obtain v where v: "ir_result i \<rho> = Some v" "ir_run is (\<rho>(op_reg (dest i) := v)) = Some \<rho>'"
    using run by (auto split: option.splits)
  obtain s1 where s1: "exec_list c1 s = Some s1" "writes ra (op_reg (dest i)) v s s1"
    using c1 [OF r v(1)] by blast
  obtain s2 where "exec_list c2 s1 = Some s2" "rep ra \<rho>' s2" "frame_kept ra s1 s2"
    using c2 [OF writes_rep [OF ok d r s1(2)] v(2)] by blast
  then show ?thesis
    using s1(1) frame_kept_trans [OF writes_frame_kept [OF ok d s1(2)]] by (auto simp: exec_append)
qed

lemma straight_line:
  assumes ok: "ra_ok (le_ra env)" and st: "\<forall>i \<in> set is. straight (le_ra env) i"
  shows "\<exists>code. asm (lower_insns env nxt is) () code \<and> (\<forall>\<rho> \<rho>' s. rep (le_ra env) \<rho> s \<longrightarrow> ir_run is \<rho> = Some \<rho>' \<longrightarrow>
    (\<exists>s'. exec_list code s = Some s' \<and> rep (le_ra env) \<rho>' s' \<and> frame_kept (le_ra env) s s'))"
  using st
proof (induction "is")
  case Nil
  then show ?case
    using asm_ret [of "()"] by (auto intro!: exI [of _ "[]"])
next
  case (Cons i "is")
  obtain c1 where c1: "asm (lower_insn env nxt i) () c1" "\<And>\<rho> s v. rep (le_ra env) \<rho> s \<Longrightarrow> ir_result i \<rho> = Some v \<Longrightarrow>
      \<exists>s'. exec_list c1 s = Some s' \<and> writes (le_ra env) (op_reg (dest i)) v s s'"
    using straight_step [OF ok, of i nxt] Cons.prems by auto
  obtain c2 where c2: "asm (lower_insns env nxt is) () c2" "\<And>\<rho> \<rho>' s. rep (le_ra env) \<rho> s \<Longrightarrow> ir_run is \<rho> = Some \<rho>' \<Longrightarrow>
      \<exists>s'. exec_list c2 s = Some s' \<and> rep (le_ra env) \<rho>' s' \<and> frame_kept (le_ra env) s s'"
    using Cons by auto
  have d: "ir_reg (le_ra env) (op_reg (dest i))"
    using Cons.prems by (auto simp: straight_def)
  have "\<exists>s'. exec_list (c1 @ c2) s = Some s' \<and> rep (le_ra env) \<rho>' s' \<and> frame_kept (le_ra env) s s'"
    if r: "rep (le_ra env) \<rho> s" and run: "ir_run (i # is) \<rho> = Some \<rho>'" for \<rho> \<rho>' s
    using chain_straight [OF ok d c1(2) c2(2) r run] .
  then show ?case
    using asm_bind [OF c1(1), of "\<lambda>_. lower_insns env nxt is"] c2(1) by (intro exI [of _ "c1 @ c2"]) simp
qed

section \<open>Properties\<close>

text \<open>Operands within the limits of the allocator's tables.\<close>

definition plain_opd :: "Operand \<Rightarrow> bool" where
  "plain_opd opd \<longleftrightarrow> (case opd of OpConst _ \<Rightarrow> True
     | OpReg r \<Rightarrow> reg_type r \<noteq> RT_NONE \<and> unat (reg_index r) < (if reg_type r = PARAM then 8 else 1024) | _ \<Rightarrow> False)"

definition plain_straight :: "Instruction \<Rightarrow> bool" where
  "plain_straight insn \<longleftrightarrow> op_kind (dest insn) = REGISTER \<and> plain_opd (dest insn) \<and> plain_opd (src1 insn)
     \<and> (op insn \<in> {MOVE, MOVE_CONST, NEG_I64, POPCOUNT_I64, LZCNT_I64} \<or> lowered_alu (op insn) \<and> plain_opd (src2 insn))"

lemma fn_opd_ok:
  assumes "insn \<in> set (all_insns fn)" "opd \<in> {dest insn, src1 insn, src2 insn}" "max_local fn < 0xFFFFFFFF" "plain_opd opd"
  shows "opd_ok (allocate_registers fn) opd"
proof (cases opd)
  case (OpReg r)
  have "opd \<in> set (fn_operands fn)"
    using assms(1,2) by (auto simp: fn_operands_def insn_operands_def)
  then show ?thesis
    using operand_live [of r fn] assms(3,4) OpReg by (simp add: opd_ok_def ir_reg_def plain_opd_def)
qed (use assms(4) in \<open>simp_all add: opd_ok_def plain_opd_def\<close>)

lemma fn_straight:
  assumes "insn \<in> set (all_insns fn)" "max_local fn < 0xFFFFFFFF" "plain_straight insn"
  shows "straight (allocate_registers fn) insn"
proof -
  note o = fn_opd_ok [OF assms(1) _ assms(2)]
  have "\<exists>d. dest insn = OpReg d \<and> ir_reg (allocate_registers fn) d"
    using assms(3) o [of "dest insn"] by (cases "dest insn") (auto simp: plain_straight_def opd_ok_def)
  then show ?thesis
    using assms(3) o by (auto simp: plain_straight_def straight_def)
qed

text \<open>
  Claim C3. Compiled straight-line code is correct. For a sequence of moves, negations, bit
  counts, additions, subtractions, multiplications, shifts and bitwise operations of a function,
  with register or constant operands, the bytes the lowerer emits decode to instructions which,
  run on the machine from any state that represents an assignment of values to the registers of
  the function, end without a fault in a state that represents the assignment the reference
  semantics computes; stack pointer, frame pointer and every other register that holds no local
  are kept up to three scratch registers, and no memory outside the frame's slots changes. The
  reference is defined where the code is exact: 64-bit constants on the right fit in 32 bits,
  operands of 32-bit bitwise operations and arithmetic right shifts are sign-extended, and
  32-bit shift counts are below 32 modulo 64.
\<close>

theorem compiled_straight_line_correct:
  fixes fn env nxt "is"
  defines "ra \<equiv> allocate_registers fn"
  assumes "set is \<subseteq> set (all_insns fn)" "max_local fn < 0xFFFFFFFF" "le_ra env = ra"
    and "list_all plain_straight is"
  shows "\<exists>code. asm (lower_insns env nxt is) () code \<and>
    (\<forall>\<rho> \<rho>' s. rep ra \<rho> s \<and> ir_run is \<rho> = Some \<rho>' \<longrightarrow>
       (\<exists>s'. exec_list code s = Some s' \<and> rep ra \<rho>' s' \<and> frame_kept ra s s'))"
proof -
  have "\<forall>i \<in> set is. straight (le_ra env) i"
    using fn_straight assms by (auto simp: list_all_iff)
  then show ?thesis
    using straight_line [of env "is" nxt] allocate_ok [of fn] assms(1,4) by (simp add: imp_conjL)
qed

definition v0 :: Register where "v0 = \<lparr>reg_type = LOCAL, reg_index = 0\<rparr>"
definition v1 :: Register where "v1 = \<lparr>reg_type = LOCAL, reg_index = 1\<rparr>"

definition sample_add :: Instruction where
  "sample_add = (plain_insn ADD_I64 None)\<lparr>dest := OpReg v0, src1 := OpReg v1, src2 := OpConst 2\<rparr>"

definition sample_shift :: Instruction where
  "sample_shift = (plain_insn SHL_I64 None)\<lparr>dest := OpReg v1, src1 := OpReg v0, src2 := OpConst 2\<rparr>"

definition sample_fn :: Function where
  "sample_fn = \<lparr>fn_name = ''f'', return_type = VOID, params = [], param_count = 0, local_count = 2,
     blocks = [\<lparr>label = ''entry'', insns = [sample_add, sample_shift]\<rparr>]\<rparr>"

definition sample_env :: LowerEnv where
  "sample_env = empty_env\<lparr>le_ra := allocate_registers sample_fn\<rparr>"

definition sample_state :: mstate where
  "sample_state = \<lparr>regs = (\<lambda>_. 0)(rn R12 := 40), mem = (\<lambda>_. 0), flg = None\<rparr>"

lemma sample_counts:
  "max_local sample_fn = 1" "ra_local_count (allocate_registers sample_fn) = 2"
  "ra_param_count (allocate_registers sample_fn) = 0"
  by code_simp+

lemma sample_rep: "rep (allocate_registers sample_fn) (\<lambda>r. if r = v1 then 40 else 0) sample_state"
  unfolding rep_def
proof (intro allI impI)
  fix r
  assume "ir_reg (allocate_registers sample_fn) r"
  then have "reg_type r = LOCAL" "reg_index r = 0 \<or> reg_index r = 1"
    by (cases "reg_type r"; auto simp: ir_reg_def live_reg_def sample_counts word_less_nat_alt word_unat_eq_iff)+
  then have "r = v0 \<or> r = v1"
    by (cases r) (auto simp: v0_def v1_def)
  then show "val_at (reg_slot (allocate_registers sample_fn) r) sample_state = (if r = v1 then 40 else 0)"
    by (auto simp: v0_def v1_def reg_slot_def Let_def val_at_def kAllocatablePhysRegs_def sample_state_def reg_num_inj)
qed

lemma sample_run:
  "ir_run [sample_add, sample_shift] (\<lambda>r. if r = v1 then 40 else 0) = Some ((\<lambda>r. if r = v1 then 40 else 0)(v0 := 42, v1 := 168))"
  by (simp add: ir_result_def sample_add_def sample_shift_def plain_insn_def opd_val_def exact_def norm32_def ir_alu_def
      ir_arith_def is_alu32_def wrap_def v0_def v1_def)

lemma sample_result:
  assumes "rep (allocate_registers sample_fn) (\<rho>(v0 := a, v1 := b)) s"
  shows "regs s (rn RBX) = a \<and> regs s (rn R12) = b"
proof -
  have "reg_slot (allocate_registers sample_fn) v0 = Inl RBX" "reg_slot (allocate_registers sample_fn) v1 = Inl R12"
    by (simp_all add: reg_slot_def v0_def v1_def kAllocatablePhysRegs_def)
  moreover have "ir_reg (allocate_registers sample_fn) v0" "ir_reg (allocate_registers sample_fn) v1" "v0 \<noteq> v1"
    by (simp_all add: ir_reg_def live_reg_def sample_counts v0_def v1_def)
  ultimately show ?thesis
    using assms unfolding rep_def val_at_def by (metis fun_upd_apply sum.simps(5))
qed

theorem compiled_straight_line_correct_witness:
  "\<exists>code s'. asm (lower_insns sample_env None [sample_add, sample_shift]) () code
     \<and> exec_list code sample_state = Some s' \<and> regs s' (rn RBX) = 42 \<and> regs s' (rn R12) = 168"
proof -
  let ?\<rho> = "\<lambda>r. if r = v1 then 40 else (0 :: u64)" and ?is = "[sample_add, sample_shift]"
  have i: "set ?is \<subseteq> set (all_insns sample_fn)" "max_local sample_fn < 0xFFFFFFFF"
    "le_ra sample_env = allocate_registers sample_fn" "list_all plain_straight ?is"
    using sample_counts(1)
    by (simp_all add: all_insns_def sample_fn_def sample_env_def lowered_alu_def plain_straight_def
        sample_add_def sample_shift_def plain_insn_def plain_opd_def v0_def v1_def)
  obtain code s' where c: "asm (lower_insns sample_env None ?is) () code" "exec_list code sample_state = Some s'"
    "rep (allocate_registers sample_fn) (?\<rho>(v0 := 42, v1 := 168)) s'"
    using compiled_straight_line_correct [OF i, of None] sample_rep sample_run by blast
  then show ?thesis
    using sample_result [OF c(3)] by blast
qed

end
