(* ===== verification/Ir_Flow.thy ===== *)
theory Ir_Flow
  imports Lower_Correct
begin

text \<open>
  A reference semantics of whole functions: a step relation on configurations, built on the
  values that \<^theory_text>\<open>Lower_Correct\<close> gives to single instructions. Control moves between
  blocks by label, compared the way the backends compare them, and falls through from a block
  to the next.
\<close>

datatype ir_conf =
    Running nat "Instruction list" "Register \<Rightarrow> u64"
  | Returned "u64 option"

fun block_index :: "BasicBlock list \<Rightarrow> string \<Rightarrow> nat option" where
  "block_index [] t = None"
| "block_index (b # bs) t = (if streq_impl (label b) t then Some 0 else map_option Suc (block_index bs t))"

definition is_cond :: "Opcode \<Rightarrow> bool" where
  "is_cond opc \<longleftrightarrow> opc \<in> {IF_EQ, IF_NE, IF_LT, IF_GE}"

definition cond_holds :: "Opcode \<Rightarrow> u64 \<Rightarrow> u64 \<Rightarrow> bool" where
  "cond_holds opc a b = (if opc = IF_EQ then a = b else if opc = IF_NE then a \<noteq> b
     else if opc = IF_LT then sint a < sint b else sint b \<le> sint a)"

inductive ir_step :: "Function \<Rightarrow> ir_conf \<Rightarrow> ir_conf \<Rightarrow> bool" for fn where
  assign: "ir_result i \<rho> = Some v \<Longrightarrow> ir_step fn (Running k (i # is) \<rho>) (Running k is (\<rho>(op_reg (dest i) := v)))"
| goto: "op i = GOTO \<Longrightarrow> target_label i = Some t \<Longrightarrow> block_index (blocks fn) t = Some j \<Longrightarrow>
    ir_step fn (Running k (i # is) \<rho>) (Running j (insns (blocks fn ! j)) \<rho>)"
| taken: "is_cond (op i) \<Longrightarrow> cond_holds (op i) (opd_val \<rho> (src1 i)) (opd_val \<rho> (src2 i)) \<Longrightarrow>
    target_label i = Some t \<Longrightarrow> block_index (blocks fn) t = Some j \<Longrightarrow>
    ir_step fn (Running k (i # is) \<rho>) (Running j (insns (blocks fn ! j)) \<rho>)"
| not_taken: "is_cond (op i) \<Longrightarrow> \<not> cond_holds (op i) (opd_val \<rho> (src1 i)) (opd_val \<rho> (src2 i)) \<Longrightarrow>
    ir_step fn (Running k (i # is) \<rho>) (Running k is \<rho>)"
| fall: "Suc k < length (blocks fn) \<Longrightarrow> ir_step fn (Running k [] \<rho>) (Running (Suc k) (insns (blocks fn ! Suc k)) \<rho>)"
| ret_val: "op i = RETURN_VAL \<Longrightarrow> ir_step fn (Running k (i # is) \<rho>) (Returned (Some (opd_val \<rho> (src1 i))))"
| ret_void: "op i = RETURN_VOID \<Longrightarrow> ir_step fn (Running k (i # is) \<rho>) (Returned None)"

inductive_cases ir_step_Running: "ir_step fn (Running k is \<rho>) c"
inductive_cases ir_step_Returned: "ir_step fn (Returned r) c"

definition ir_start :: "Function \<Rightarrow> (Register \<Rightarrow> u64) \<Rightarrow> ir_conf" where
  "ir_start fn \<rho> = Running 0 (insns (blocks fn ! 0)) \<rho>"

text \<open>Control instructions assign nothing, so at most one rule applies.\<close>

lemma ir_result_control: "op i \<in> {GOTO, RETURN_VAL, RETURN_VOID} \<or> is_cond (op i) \<Longrightarrow> ir_result i \<rho> = None"
proof -
  assume "op i \<in> {GOTO, RETURN_VAL, RETURN_VOID} \<or> is_cond (op i)"
  then have o: "op i \<in> {GOTO, RETURN_VAL, RETURN_VOID, IF_EQ, IF_NE, IF_LT, IF_GE}"
    by (auto simp: is_cond_def)
  then have "ir_alu (op i) a b = None" for a b
    by (elim insertE emptyE) (simp_all add: ir_alu_def ir_arith_def)
  then show ?thesis
    using o unfolding ir_result_def Let_def by (elim insertE emptyE) simp_all
qed

lemma ir_step_deterministic: "ir_step fn c d \<Longrightarrow> ir_step fn c d' \<Longrightarrow> d = d'"
  by (induction rule: ir_step.induct)
    (erule ir_step_Running; force simp: ir_result_control is_cond_def)+

lemma block_index_less: "block_index bbs t = Some j \<Longrightarrow> j < length bbs"
  by (induction bbs arbitrary: j) (auto split: if_splits)

text \<open>Names are compared up to a colon or a NUL.\<close>

lemma streq_loop_key: "streq_loop s t \<longleftrightarrow> takeWhile (\<lambda>c. c \<noteq> CHR 0x00 \<and> c \<noteq> CHR '':'') s = takeWhile (\<lambda>c. c \<noteq> CHR 0x00 \<and> c \<noteq> CHR '':'') t"
  by (induction s t rule: streq_loop.induct) (auto simp: name_end_def split: list.splits)

text \<open>The flags of a comparison tell the signed order, also when the difference overflows.\<close>

lemma sint_diff_flags: "(sint (a - b :: u64) < 0) \<noteq> (sint (a - b) \<noteq> sint a - sint b) \<longleftrightarrow> sint a < sint b"
proof -
  let ?d = "sint a - sint b"
  define q where "q = (?d + 2 ^ 63) div 2 ^ 64"
  have "sint (a - b) = (?d + 2 ^ 63) mod 2 ^ 64 - 2 ^ 63"
    by (simp add: sint_word_ariths signed_take_bit_eq_take_bit_shift take_bit_eq_mod)
  then have "sint (a - b) = ?d - q * 2 ^ 64"
    using minus_div_mult_eq_mod [of "?d + 2 ^ 63" "2 ^ 64"] unfolding q_def by linarith
  then have s: "sint (a - b) = ?d - q * 18446744073709551616"
    by simp
  have r: "- 9223372036854775808 \<le> sint a" "sint a < 9223372036854775808" "- 9223372036854775808 \<le> sint b"
    "sint b < 9223372036854775808" "- 9223372036854775808 \<le> sint (a - b)" "sint (a - b) < 9223372036854775808"
    using sint_ge [of a] sint_lt [of a] sint_ge [of b] sint_lt [of b] sint_ge [of "a - b"] sint_lt [of "a - b"] by simp_all
  consider "q \<le> - 1" | "q = 0" | "1 \<le> q"
    by linarith
  then show ?thesis
  proof cases
    case 1
    then have "\<not> sint (a - b) < 0" "sint (a - b) \<noteq> ?d" "sint a < sint b"
      using s r by - linarith+
    then show ?thesis by blast
  next
    case 3
    then have "sint (a - b) < 0" "sint (a - b) \<noteq> ?d" "\<not> sint a < sint b"
      using s r by - linarith+
    then show ?thesis by blast
  qed (use s in simp)
qed

text \<open>An executable version with a bound on the number of steps.\<close>

definition ir_next :: "Function \<Rightarrow> ir_conf \<Rightarrow> ir_conf option" where
  "ir_next fn c =
     (case c of
        Returned r \<Rightarrow> None
      | Running k [] \<rho> \<Rightarrow> if Suc k < length (blocks fn) then Some (Running (Suc k) (insns (blocks fn ! Suc k)) \<rho>) else None
      | Running k (i # is) \<rho> \<Rightarrow>
          (let jump = (case target_label i of None \<Rightarrow> None
             | Some t \<Rightarrow> map_option (\<lambda>j. Running j (insns (blocks fn ! j)) \<rho>) (block_index (blocks fn) t)) in
           if op i = GOTO then jump
           else if is_cond (op i)
             then (if cond_holds (op i) (opd_val \<rho> (src1 i)) (opd_val \<rho> (src2 i)) then jump else Some (Running k is \<rho>))
           else if op i = RETURN_VAL then Some (Returned (Some (opd_val \<rho> (src1 i))))
           else if op i = RETURN_VOID then Some (Returned None)
           else map_option (\<lambda>v. Running k is (\<rho>(op_reg (dest i) := v))) (ir_result i \<rho>)))"

fun ir_exec :: "nat \<Rightarrow> Function \<Rightarrow> ir_conf \<Rightarrow> ir_conf option" where
  "ir_exec 0 fn c = Some c"
| "ir_exec (Suc n) fn c = (case ir_next fn c of None \<Rightarrow> None | Some d \<Rightarrow> ir_exec n fn d)"

lemma ir_next_step: "ir_next fn c = Some d \<Longrightarrow> ir_step fn c d"
  by (cases c)
    (auto simp: ir_next_def Let_def intro: ir_step.intros split: list.splits if_splits option.splits)

lemma ir_exec_steps: "ir_exec n fn c = Some d \<Longrightarrow> (ir_step fn)\<^sup>*\<^sup>* c d"
  by (induction n arbitrary: c)
    (auto split: option.splits dest: ir_next_step intro: converse_rtranclp_into_rtranclp)

end
