(* ===== verification/Two_Pass.thy ===== *)
theory Two_Pass
  imports Ir_Flow
begin

text \<open>
  What the backends for other targets share. Each emits a function twice: the first pass
  records at which word the code of every block starts, the second one uses the table for the
  distances of branches. The label table is the same code in each of them. The first locale
  states what makes the passes agree, the second what an instruction's code must do on the
  target's machine for compiled functions to be correct; both are interpreted by the backends.
\<close>

section \<open>Labels\<close>

type_synonym label_table = "(string \<times> nat) list"

fun set_label :: "label_table \<Rightarrow> string \<Rightarrow> nat \<Rightarrow> label_table option" where
  "set_label [] l w = None"
| "set_label ((n, v) # lt) l w =
     (if streq_impl n l then Some ((n, w) # lt) else map_option (Cons (n, v)) (set_label lt l w))"

text \<open>The table has room for 128 labels; more are dropped.\<close>

definition record_label :: "label_table \<Rightarrow> string \<Rightarrow> nat \<Rightarrow> label_table" where
  "record_label lt l w =
     (case set_label lt l w of Some lt' \<Rightarrow> lt' | None \<Rightarrow> if length lt < 128 then lt @ [(l, w)] else lt)"

definition get_label_offset :: "label_table \<Rightarrow> string \<Rightarrow> nat" where
  "get_label_offset lt l = (case find (\<lambda>(n, _). streq_impl n l) lt of Some (_, w) \<Rightarrow> w | None \<Rightarrow> 0)"

section \<open>Emission\<close>

text \<open>
  \<open>ins pos i\<close> is the code of an instruction that starts at word \<open>pos\<close>, for a label
  table and a pass; \<open>sz\<close> is the size that the encoder reports after that
  many words; each pass has its own encoder.
\<close>

fun two_insns :: "(nat \<Rightarrow> Instruction \<Rightarrow> 'w list) \<Rightarrow> nat \<Rightarrow> Instruction list \<Rightarrow> 'w list" where
  "two_insns ins pos [] = []"
| "two_insns ins pos (i # is) = (let c = ins pos i in c @ two_insns ins (pos + length c) is)"

fun two_blocks :: "(nat \<Rightarrow> nat) \<Rightarrow> (label_table \<Rightarrow> nat \<Rightarrow> Instruction \<Rightarrow> 'w list) \<Rightarrow> label_table \<Rightarrow> nat \<Rightarrow> BasicBlock list
    \<Rightarrow> 'w list \<times> label_table" where
  "two_blocks sz ins lt pos [] = ([], lt)"
| "two_blocks sz ins lt pos (bb # bbs) =
     (let lt1 = record_label lt (label bb) (sz pos); c = two_insns (ins lt1) pos (insns bb);
          (c', lt') = two_blocks sz ins lt1 (pos + length c) bbs in
      (c @ c', lt'))"

definition two_passes :: "(nat \<Rightarrow> nat) \<Rightarrow> (nat \<Rightarrow> nat) \<Rightarrow> (label_table \<Rightarrow> bool \<Rightarrow> nat \<Rightarrow> Instruction \<Rightarrow> 'w list) \<Rightarrow> 'w list \<Rightarrow> Function \<Rightarrow> 'w list" where
  "two_passes sz1 sz ins pro fn =
     (let (_, lt) = two_blocks sz1 (\<lambda>lt. ins lt False) [] (length pro) (blocks fn) in
      pro @ fst (two_blocks sz (\<lambda>lt. ins lt True) lt (length pro) (blocks fn)))"

section \<open>Label tables\<close>

definition distinct_labels :: "BasicBlock list \<Rightarrow> bool" where
  "distinct_labels bbs \<longleftrightarrow> sorted_wrt (\<lambda>a b. \<not> streq_impl (label a) (label b)) bbs"

lemma streq_loop_refl: "streq_loop s s"
  by (induction s) auto

lemma streq_refl [simp]: "streq_impl s s"
  by (simp add: streq_impl_def streq_loop_refl)

lemma record_new: "(\<And>n w. (n, w) \<in> set lt \<Longrightarrow> \<not> streq_impl n l) \<Longrightarrow> length lt < 128 \<Longrightarrow> record_label lt l w = lt @ [(l, w)]"
proof -
  assume n: "\<And>n w. (n, w) \<in> set lt \<Longrightarrow> \<not> streq_impl n l" and len: "length lt < 128"
  have "set_label lt l w = None"
    using n by (induction lt l w rule: set_label.induct) (auto split: if_splits)
  then show ?thesis
    using len by (simp add: record_label_def)
qed

lemma record_same: "find (\<lambda>(n, _). streq_impl n l) lt = Some (n, w) \<Longrightarrow> record_label lt l w = lt"
proof -
  assume "find (\<lambda>(n, _). streq_impl n l) lt = Some (n, w)"
  then have "set_label lt l w = Some lt"
    by (induction lt l w rule: set_label.induct) (auto split: if_splits)
  then show ?thesis
    by (simp add: record_label_def)
qed

lemma find_own_label:
  assumes "distinct_labels bbs" "k < length bbs" "length ps = length bbs"
  shows "find (\<lambda>(n, _). streq_impl n (label (bbs ! k))) (zip (map label bbs) ps) = Some (label (bbs ! k), ps ! k)"
  using assms
proof (induction bbs arbitrary: k ps)
  case (Cons b bbs)
  then obtain p qs where ps: "ps = p # qs" "length qs = length bbs"
    by (cases ps) auto
  then show ?case
    using Cons.prems Cons.IH by (cases k) (auto simp: distinct_labels_def)
qed simp

lemma label_offset_index:
  assumes "block_index bbs t = Some j" "length ps = length bbs"
  shows "get_label_offset (zip (map label bbs) ps) t = ps ! j"
  using assms
proof (induction bbs arbitrary: j ps)
  case (Cons b bbs)
  then obtain p qs where ps: "ps = p # qs" "length qs = length bbs"
    by (cases ps) auto
  then show ?case
    using Cons.prems Cons.IH by (auto simp: get_label_offset_def split: if_splits)
qed simp

lemma two_insns_append: "two_insns ins pos (is @ js) = two_insns ins pos is @ two_insns ins (pos + length (two_insns ins pos is)) js"
  by (induction "is" arbitrary: pos) (simp_all add: Let_def add.assoc)

section \<open>Both passes place the blocks alike\<close>

locale two_pass =
  fixes sz :: "nat \<Rightarrow> nat" and ins :: "label_table \<Rightarrow> bool \<Rightarrow> nat \<Rightarrow> Instruction \<Rightarrow> 'w list" and pro :: "'w list" and limit :: nat
  assumes same_length: "length (ins lt p2 pos i) = length (ins lt' p2' pos' i)"
    and sz_exact: "p \<le> limit \<Longrightarrow> sz p = p"
begin

definition len :: "Instruction \<Rightarrow> nat" where
  "len i = length (ins [] False 0 i)"

definition lens :: "Instruction list \<Rightarrow> nat" where
  "lens is = sum_list (map len is)"

lemma lens_simps [simp]: "lens [] = 0" "lens (i # is) = len i + lens is" "lens (is @ js) = lens is + lens js"
  by (simp_all add: lens_def)

lemma length_ins: "length (ins lt p2 pos i) = len i"
  unfolding len_def by (rule same_length)

lemma length_insns: "length (two_insns (ins lt p2) pos is) = lens is"
  by (induction "is" arbitrary: pos) (simp_all add: Let_def length_ins)

fun starts :: "nat \<Rightarrow> BasicBlock list \<Rightarrow> nat list" where
  "starts pos [] = []"
| "starts pos (b # bs) = pos # starts (pos + lens (insns b)) bs"

definition total :: "BasicBlock list \<Rightarrow> nat" where
  "total bbs = sum_list (map (\<lambda>b. lens (insns b)) bbs)"

lemma length_starts [simp]: "length (starts pos bbs) = length bbs"
  by (induction bbs arbitrary: pos) simp_all

lemma pass1_labels:
  assumes "distinct_labels bbs" "\<forall>(n, w) \<in> set lt. \<forall>b \<in> set bbs. \<not> streq_impl n (label b)" "length lt + length bbs \<le> 128"
    and "pos + total bbs \<le> limit"
  shows "snd (two_blocks sz (\<lambda>lt. ins lt p2) lt pos bbs) = lt @ zip (map label bbs) (starts pos bbs)"
  using assms
proof (induction bbs arbitrary: lt pos)
  case (Cons b bbs)
  have r: "record_label lt (label b) (sz pos) = lt @ [(label b, pos)]"
    using Cons.prems sz_exact by (subst record_new) auto
  have "\<forall>(n, w) \<in> set (lt @ [(label b, pos)]). \<forall>b \<in> set bbs. \<not> streq_impl n (label b)"
    using Cons.prems(1,2) by (auto simp: distinct_labels_def)
  then show ?case
    using Cons.IH [of "lt @ [(label b, pos)]"] Cons.prems(1,3,4)
    by (simp add: r Let_def split_beta length_insns distinct_labels_def total_def)
qed simp

text \<open>The second pass leaves the table alone and emits every block at the position recorded for it.\<close>

lemma pass2_code:
  assumes "\<forall>k < length bbs. record_label lt (label (bbs ! k)) (starts pos bbs ! k) = lt" "pos + total bbs \<le> limit"
  shows "fst (two_blocks sz (\<lambda>lt. ins lt True) lt pos bbs) =
    concat (map2 (\<lambda>p b. two_insns (ins lt True) p (insns b)) (starts pos bbs) bbs)"
  using assms
proof (induction bbs arbitrary: pos)
  case (Cons b bbs)
  have "record_label lt (label b) (sz pos) = lt"
    using Cons.prems sz_exact by (auto simp: total_def)
  moreover have "\<forall>k < length bbs. record_label lt (label (bbs ! k)) (starts (pos + lens (insns b)) bbs ! k) = lt"
    using Cons.prems by auto
  ultimately show ?case
    using Cons.IH Cons.prems(2) by (simp add: Let_def split_beta length_insns total_def)
qed simp

definition table :: "Function \<Rightarrow> label_table" where
  "table fn = zip (map label (blocks fn)) (starts (length pro) (blocks fn))"

definition code :: "Function \<Rightarrow> 'w list" where
  "code fn = pro @ concat (map2 (\<lambda>p b. two_insns (ins (table fn) True) p (insns b)) (starts (length pro) (blocks fn)) (blocks fn))"

lemma two_passes_code:
  assumes "distinct_labels (blocks fn)" "length (blocks fn) \<le> 128" "length pro + total (blocks fn) \<le> limit"
  shows "two_passes sz sz ins pro fn = code fn"
proof -
  have 1: "snd (two_blocks sz (\<lambda>lt. ins lt False) [] (length pro) (blocks fn)) = table fn"
    using pass1_labels [OF assms(1), of "[]" "length pro" False] assms(2,3) by (simp add: table_def)
  have "fst (two_blocks sz (\<lambda>lt. ins lt True) (table fn) (length pro) (blocks fn))
      = concat (map2 (\<lambda>p b. two_insns (ins (table fn) True) p (insns b)) (starts (length pro) (blocks fn)) (blocks fn))"
    using pass2_code [of "blocks fn" "table fn" "length pro"] record_same [OF find_own_label [OF assms(1)]] assms(3)
    by (simp add: table_def)
  then show ?thesis
    by (simp add: two_passes_def split_beta 1 code_def)
qed

lemma length_two_blocks: "length (fst (two_blocks s (\<lambda>lt. ins lt p2) lt pos bbs)) = total bbs"
  by (induction bbs arbitrary: lt pos) (simp_all add: Let_def split_beta length_insns total_def)

lemma length_two_passes: "length (two_passes s1 s ins pro fn) = length pro + total (blocks fn)"
  by (simp add: two_passes_def split_beta length_two_blocks)

text \<open>Where the code of a block, and of any tail of it, stands.\<close>

lemma code_at:
  assumes "k < length bbs" "insns (bbs ! k) = pre @ is"
  shows "\<exists>P Q. concat (map2 (\<lambda>p b. two_insns (ins lt True) p (insns b)) (starts pos bbs) bbs)
      = P @ two_insns (ins lt True) (starts pos bbs ! k + lens pre) is @ Q
    \<and> pos + length P = starts pos bbs ! k + lens pre
    \<and> (Suc k < length bbs \<longrightarrow> starts pos bbs ! Suc k = starts pos bbs ! k + lens (insns (bbs ! k)))"
  using assms
proof (induction bbs arbitrary: pos k)
  case (Cons b bbs)
  show ?case
  proof (cases k)
    case 0
    then show ?thesis
      using Cons.prems
      by (intro exI [of _ "two_insns (ins lt True) pos pre"] exI [of _ "concat (map2 (\<lambda>p b. two_insns (ins lt True) p (insns b))
          (starts (pos + lens (insns b)) bbs) bbs)"])
        (cases bbs; simp add: two_insns_append length_insns)
  next
    case (Suc k')
    let ?pos = "pos + lens (insns b)"
    obtain P Q where "concat (map2 (\<lambda>p b. two_insns (ins lt True) p (insns b)) (starts ?pos bbs) bbs)
      = P @ two_insns (ins lt True) (starts ?pos bbs ! k' + lens pre) is @ Q"
      "?pos + length P = starts ?pos bbs ! k' + lens pre"
      "Suc k' < length bbs \<longrightarrow> starts ?pos bbs ! Suc k' = starts ?pos bbs ! k' + lens (insns (bbs ! k'))"
      using Cons.IH [of k' ?pos] Cons.prems Suc by auto
    then show ?thesis
      using Suc by (intro exI [of _ "two_insns (ins lt True) pos (insns b) @ P"] exI [of _ Q]) (simp add: length_insns)
  qed
qed simp

definition position :: "Function \<Rightarrow> nat \<Rightarrow> Instruction list \<Rightarrow> nat" where
  "position fn k pre = starts (length pro) (blocks fn) ! k + lens pre"

lemma position_code:
  assumes "k < length (blocks fn)" "insns (blocks fn ! k) = pre @ is"
  obtains P Q where "code fn = P @ two_insns (ins (table fn) True) (position fn k pre) is @ Q" "length P = position fn k pre"
    "Suc k < length (blocks fn) \<Longrightarrow> position fn (Suc k) [] = position fn k (insns (blocks fn ! k))"
proof -
  obtain P Q where "concat (map2 (\<lambda>p b. two_insns (ins (table fn) True) p (insns b)) (starts (length pro) (blocks fn)) (blocks fn))
      = P @ two_insns (ins (table fn) True) (position fn k pre) is @ Q"
    "length pro + length P = position fn k pre"
    "Suc k < length (blocks fn) \<Longrightarrow> position fn (Suc k) [] = position fn k (insns (blocks fn ! k))"
    using code_at [OF assms, of "table fn" "length pro"] unfolding position_def by auto
  then show ?thesis
    using that [of "pro @ P" Q] by (simp add: code_def)
qed

lemma position_le:
  assumes "k < length (blocks fn)" "insns (blocks fn ! k) = pre @ is"
  shows "position fn k pre \<le> length (code fn)"
  by (rule position_code [OF assms]) simp

lemma table_position: "block_index (blocks fn) t = Some j \<Longrightarrow> get_label_offset (table fn) t = position fn j []"
  by (simp add: table_def label_offset_index position_def)

end

section \<open>Compiled functions on a machine\<close>

text \<open>
  A machine runs code from states. \<open>at p s\<close> says that it stands at word \<open>p\<close>,
  \<open>rep\<close> that the state represents an assignment to the registers, \<open>inv s0 s\<close> that the
  frame of a call from state \<open>s0\<close> is intact, \<open>called\<close> and \<open>returned\<close> are the calling
  convention. The laws say what the code of one instruction does, wherever it stands.
\<close>

locale frame_machine = two_pass sz ins pro limit
  for sz :: "nat \<Rightarrow> nat" and ins :: "label_table \<Rightarrow> bool \<Rightarrow> nat \<Rightarrow> Instruction \<Rightarrow> 'w list" and pro :: "'w list" and limit :: nat +
  fixes run :: "nat \<Rightarrow> 'w list \<Rightarrow> 's \<Rightarrow> 's option" and at :: "nat \<Rightarrow> 's \<Rightarrow> bool" and rep :: "(Register \<Rightarrow> u64) \<Rightarrow> 's \<Rightarrow> bool"
    and inv :: "'s \<Rightarrow> 's \<Rightarrow> bool" and called :: "(Register \<Rightarrow> u64) \<Rightarrow> 's \<Rightarrow> bool"
    and returned :: "'s \<Rightarrow> u64 option \<Rightarrow> 's \<Rightarrow> bool" and supported :: "Instruction \<Rightarrow> bool"
  assumes run_0: "run 0 c s = Some s"
    and run_add: "run n c s = Some s1 \<Longrightarrow> run (n + m) c s = run m c s1"
    and enters: "called \<rho> s \<Longrightarrow> length (pro @ Q) < limit \<Longrightarrow>
      \<exists>n s'. run n (pro @ Q) s = Some s' \<and> at (length pro) s' \<and> rep \<rho> s' \<and> inv s s'"
    and assigns: "supported i \<Longrightarrow> ir_result i \<rho> = Some v \<Longrightarrow> length (P @ ins lt True (length P) i @ Q) < limit \<Longrightarrow>
      at (length P) s \<Longrightarrow> rep \<rho> s \<Longrightarrow> inv s0 s \<Longrightarrow>
      \<exists>n s'. run n (P @ ins lt True (length P) i @ Q) s = Some s' \<and> at (length P + length (ins lt True (length P) i)) s'
        \<and> rep (\<rho>(op_reg (dest i) := v)) s' \<and> inv s0 s'"
    and jumps: "op i = GOTO \<Longrightarrow> target_label i = Some t \<Longrightarrow> get_label_offset lt t < limit \<Longrightarrow>
      length (P @ ins lt True (length P) i @ Q) < limit \<Longrightarrow> at (length P) s \<Longrightarrow> rep \<rho> s \<Longrightarrow> inv s0 s \<Longrightarrow>
      \<exists>n s'. run n (P @ ins lt True (length P) i @ Q) s = Some s' \<and> at (get_label_offset lt t) s' \<and> rep \<rho> s' \<and> inv s0 s'"
    and branches: "supported i \<Longrightarrow> is_cond (op i) \<Longrightarrow> b = cond_holds (op i) (opd_val \<rho> (src1 i)) (opd_val \<rho> (src2 i)) \<Longrightarrow>
      (b \<Longrightarrow> target_label i = Some t \<and> get_label_offset lt t < limit) \<Longrightarrow>
      length (P @ ins lt True (length P) i @ Q) < limit \<Longrightarrow> at (length P) s \<Longrightarrow> rep \<rho> s \<Longrightarrow> inv s0 s \<Longrightarrow>
      \<exists>n s'. run n (P @ ins lt True (length P) i @ Q) s = Some s'
        \<and> at (if b then get_label_offset lt t else length P + length (ins lt True (length P) i)) s' \<and> rep \<rho> s' \<and> inv s0 s'"
    and returns: "supported i \<Longrightarrow> op i = RETURN_VAL \<and> res = Some (opd_val \<rho> (src1 i)) \<or> op i = RETURN_VOID \<and> res = None \<Longrightarrow>
      length (P @ ins lt True (length P) i @ Q) < limit \<Longrightarrow> at (length P) s \<Longrightarrow> rep \<rho> s \<Longrightarrow> inv s0 s \<Longrightarrow>
      \<exists>n s'. run n (P @ ins lt True (length P) i @ Q) s = Some s' \<and> returned s0 res s'"
begin

text \<open>The machine stands at the code of the instructions that are left of block \<open>k\<close>.\<close>

definition sim :: "Function \<Rightarrow> 's \<Rightarrow> nat \<Rightarrow> Instruction list \<Rightarrow> (Register \<Rightarrow> u64) \<Rightarrow> 's \<Rightarrow> bool" where
  "sim fn s0 k is \<rho> s \<longleftrightarrow> k < length (blocks fn) \<and> rep \<rho> s \<and> inv s0 s
     \<and> (\<exists>pre. insns (blocks fn ! k) = pre @ is \<and> at (position fn k pre) s)"

definition matches :: "Function \<Rightarrow> 's \<Rightarrow> ir_conf \<Rightarrow> 's \<Rightarrow> bool" where
  "matches fn s0 c s \<longleftrightarrow> (case c of Running k is \<rho> \<Rightarrow> sim fn s0 k is \<rho> s | Returned res \<Rightarrow> returned s0 res s)"

definition compilable :: "Function \<Rightarrow> bool" where
  "compilable fn \<longleftrightarrow> blocks fn \<noteq> [] \<and> length (blocks fn) \<le> 128 \<and> distinct_labels (blocks fn)
     \<and> list_all (\<lambda>b. list_all supported (insns b)) (blocks fn)"

lemma sim_insn:
  assumes "sim fn s0 k (i # is) \<rho> s"
  obtains pre P Q where "insns (blocks fn ! k) = pre @ i # is" "length P = position fn k pre"
    "code fn = P @ ins (table fn) True (length P) i @ Q" "at (length P) s" "rep \<rho> s" "inv s0 s"
proof -
  obtain pre where pre: "insns (blocks fn ! k) = pre @ i # is" "at (position fn k pre) s"
    and k: "k < length (blocks fn)"
    using assms by (auto simp: sim_def)
  show ?thesis
    by (rule position_code [OF k pre(1)]) (rule that [OF pre(1)], use assms pre(2) in \<open>auto simp: Let_def sim_def\<close>)
qed

lemma sim_next:
  assumes "sim fn s0 k (i # is) \<rho> s" "insns (blocks fn ! k) = pre @ i # is" "length P = position fn k pre"
    and "rep \<rho>' s'" "inv s0 s'" "at (length P + length (ins lt p2 pos i)) s'"
  shows "sim fn s0 k is \<rho>' s'"
  using assms unfolding sim_def by (auto intro!: exI [of _ "pre @ [i]"] simp: position_def length_ins add.assoc)

lemma sim_block: "k < length (blocks fn) \<Longrightarrow> rep \<rho> s \<Longrightarrow> inv s0 s \<Longrightarrow> at (position fn k []) s \<Longrightarrow> sim fn s0 k (insns (blocks fn ! k)) \<rho> s"
  unfolding sim_def by (metis append_Nil)

lemma target_less:
  assumes "block_index (blocks fn) t = Some j" "length (code fn) < limit"
  shows "get_label_offset (table fn) t < limit"
  using position_le [OF block_index_less [OF assms(1)], of "[]"] table_position [OF assms(1)] assms(2) by simp

lemma sim_supported:
  assumes "compilable fn" "sim fn s0 k (i # is) \<rho> s"
  shows "supported i"
proof -
  obtain pre where "k < length (blocks fn)" "insns (blocks fn ! k) = pre @ i # is"
    using assms(2) by (auto simp: sim_def)
  then have "blocks fn ! k \<in> set (blocks fn)" "i \<in> set (insns (blocks fn ! k))"
    by simp_all
  then show ?thesis
    using assms(1) by (auto simp: compilable_def list_all_iff)
qed

lemma sim_fall:
  assumes "sim fn s0 k [] \<rho> s" "Suc k < length (blocks fn)"
  shows "sim fn s0 (Suc k) (insns (blocks fn ! Suc k)) \<rho> s"
proof -
  obtain pre where pre: "insns (blocks fn ! k) = pre @ []" "at (position fn k pre) s"
    and r: "k < length (blocks fn)" "rep \<rho> s" "inv s0 s"
    using assms(1) by (auto simp: sim_def)
  have "position fn (Suc k) [] = position fn k pre"
    by (rule position_code [OF r(1) pre(1)]) (use assms(2) pre(1) in simp)
  then show ?thesis
    using assms(2) r(2,3) pre(2) by (intro sim_block) simp_all
qed

lemma sim_branch:
  assumes sim: "sim fn s0 k (i # is) \<rho> s" and ok: "compilable fn" "length (code fn) < limit" and i: "is_cond (op i)"
    and b: "b = cond_holds (op i) (opd_val \<rho> (src1 i)) (opd_val \<rho> (src2 i))"
    and t: "b \<Longrightarrow> target_label i = Some t \<and> block_index (blocks fn) t = Some j"
  shows "\<exists>n s'. run n (code fn) s = Some s' \<and> (if b then sim fn s0 j (insns (blocks fn ! j)) \<rho> s' else sim fn s0 k is \<rho> s')"
proof -
  obtain pre P Q where p: "insns (blocks fn ! k) = pre @ i # is" "length P = position fn k pre"
    and c: "code fn = P @ ins (table fn) True (length P) i @ Q" and s: "at (length P) s" "rep \<rho> s" "inv s0 s"
    using sim_insn [OF sim] by metis
  have "target_label i = Some t \<and> get_label_offset (table fn) t < limit" if b
    using t [OF that] target_less [OF _ ok(2)] by simp
  then obtain n s' where n: "run n (code fn) s = Some s'" "rep \<rho> s'" "inv s0 s'"
    "at (if b then get_label_offset (table fn) t else length P + length (ins (table fn) True (length P) i)) s'"
    using branches [OF sim_supported [OF ok(1) sim] i b _ _ s, of t "table fn" Q] ok(2) unfolding c by blast
  have "if b then sim fn s0 j (insns (blocks fn ! j)) \<rho> s' else sim fn s0 k is \<rho> s'"
    using n(4) t sim_next [OF sim p n(2,3), of "table fn" True "length P"] sim_block [OF block_index_less n(2,3), of fn t j]
      table_position [of fn t j] by (cases b) simp_all
  then show ?thesis
    using n(1) by blast
qed

text \<open>Every step of the reference is matched by some steps of the machine.\<close>

lemma simulation:
  assumes "ir_step fn c d" "matches fn s0 c s" "compilable fn" "length (code fn) < limit"
  shows "\<exists>n s'. run n (code fn) s = Some s' \<and> matches fn s0 d s'"
  using assms(1)
proof cases
  case (assign i \<rho> v k "is")
  then have sim: "sim fn s0 k (i # is) \<rho> s"
    using assms(2) by (simp add: matches_def)
  obtain pre P Q where p: "insns (blocks fn ! k) = pre @ i # is" "length P = position fn k pre"
    and c: "code fn = P @ ins (table fn) True (length P) i @ Q" and s: "at (length P) s" "rep \<rho> s" "inv s0 s"
    using sim_insn [OF sim] by metis
  obtain n s' where n: "run n (code fn) s = Some s'" "rep (\<rho>(op_reg (dest i) := v)) s'" "inv s0 s'"
    "at (length P + length (ins (table fn) True (length P) i)) s'"
    using assigns [OF sim_supported [OF assms(3) sim] assign(3) _ s, of "table fn" Q] assms(4) unfolding c by blast
  show ?thesis
    using n(1) sim_next [OF sim p n(2-4)] assign(2) by (auto simp: matches_def)
next
  case (goto i t j k "is" \<rho>)
  then have sim: "sim fn s0 k (i # is) \<rho> s"
    using assms(2) by (simp add: matches_def)
  obtain P Q where c: "code fn = P @ ins (table fn) True (length P) i @ Q" and s: "at (length P) s" "rep \<rho> s" "inv s0 s"
    using sim_insn [OF sim] by metis
  obtain n s' where n: "run n (code fn) s = Some s'" "rep \<rho> s'" "inv s0 s'" "at (position fn j []) s'"
    using jumps [OF goto(3,4) target_less [OF goto(5) assms(4)] _ s, of Q] assms(4) table_position [OF goto(5)]
    unfolding c by auto
  show ?thesis
    using n(1) sim_block [OF block_index_less [OF goto(5)] n(2-4)] goto(2) by (auto simp: matches_def)
next
  case (taken i \<rho> t j k "is")
  then show ?thesis
    using sim_branch [of fn s0 k i "is" \<rho> s True t j] assms by (simp add: matches_def)
next
  case (not_taken i \<rho> k "is")
  then show ?thesis
    using sim_branch [of fn s0 k i "is" \<rho> s False] assms by (simp add: matches_def)
next
  case (fall k \<rho>)
  then show ?thesis
    using sim_fall [of fn s0 k \<rho> s] assms(2) run_0 by (intro exI [of _ 0] exI [of _ s]) (simp add: matches_def)
next
  case (ret_val i k "is" \<rho>)
  then have sim: "sim fn s0 k (i # is) \<rho> s"
    using assms(2) by (simp add: matches_def)
  obtain P Q where c: "code fn = P @ ins (table fn) True (length P) i @ Q" and s: "at (length P) s" "rep \<rho> s" "inv s0 s"
    using sim_insn [OF sim] by metis
  show ?thesis
    using returns [OF sim_supported [OF assms(3) sim] _ _ s, of "Some (opd_val \<rho> (src1 i))" "table fn" Q] ret_val assms(4)
    unfolding c by (simp add: matches_def)
next
  case (ret_void i k "is" \<rho>)
  then have sim: "sim fn s0 k (i # is) \<rho> s"
    using assms(2) by (simp add: matches_def)
  obtain P Q where c: "code fn = P @ ins (table fn) True (length P) i @ Q" and s: "at (length P) s" "rep \<rho> s" "inv s0 s"
    using sim_insn [OF sim] by metis
  show ?thesis
    using returns [OF sim_supported [OF assms(3) sim] _ _ s, of None "table fn" Q] ret_void assms(4)
    unfolding c by (simp add: matches_def)
qed

lemma simulations:
  assumes "(ir_step fn)\<^sup>*\<^sup>* c d" "matches fn s0 c s" "compilable fn" "length (code fn) < limit"
  shows "\<exists>n s'. run n (code fn) s = Some s' \<and> matches fn s0 d s'"
  using assms(1)
proof induction
  case base
  then show ?case
    using assms(2) run_0 by (intro exI [of _ 0]) auto
next
  case (step c' d)
  then obtain n s' where "run n (code fn) s = Some s'" "matches fn s0 c' s'"
    by blast
  then show ?case
    using simulation [OF step(2) _ assms(3,4)] run_add by metis
qed

theorem compiled_function:
  assumes "compilable fn" "length (two_passes sz sz ins pro fn) < limit" "called \<rho> s"
    and "(ir_step fn)\<^sup>*\<^sup>* (ir_start fn \<rho>) (Returned res)"
  shows "\<exists>n s'. run n (two_passes sz sz ins pro fn) s = Some s' \<and> returned s res s'"
proof -
  have code: "two_passes sz sz ins pro fn = code fn"
    using two_passes_code [of fn] assms(1,2) by (simp add: compilable_def length_two_passes)
  then have small: "length (code fn) < limit"
    using assms(2) by simp
  obtain n t where t: "run n (code fn) s = Some t" "at (length pro) t" "rep \<rho> t" "inv s t"
    using enters [OF assms(3)] small unfolding code_def by blast
  have "position fn 0 [] = length pro"
    using assms(1) by (cases "blocks fn") (simp_all add: position_def compilable_def)
  then have "matches fn s (ir_start fn \<rho>) t"
    using sim_block [of 0 fn \<rho> t s] t assms(1) by (simp add: matches_def ir_start_def compilable_def)
  then obtain m s' where "run m (code fn) t = Some s'" "matches fn s (Returned res) s'"
    using simulations [OF assms(4) _ assms(1) small] by blast
  then show ?thesis
    using run_add [OF t(1), of m] by (auto simp: code matches_def)
qed

end

end
