(* ===== verification/X86_Machine.thy ===== *)
theory X86_Machine
  imports Ir_Flow Two_Pass
begin

text \<open>
  Running the code of the x86-64 compiler from memory: a step decodes the bytes at the
  instruction pointer, and jumps move it. The second part finds the code of an emitter in the
  final image: emission only appends, and resolving labels changes nothing but the
  displacements of branches.
\<close>

section \<open>The machine\<close>

definition x_step :: "u64 \<Rightarrow> bytes \<Rightarrow> u64 \<times> mstate \<Rightarrow> (u64 \<times> mstate) option" where
  "x_step base code c =
     (let (rip, s) = c in
      case decode (drop (unat (rip - base)) code) of
        None \<Rightarrow> None
      | Some (i, rest) \<Rightarrow>
          (let next = base + of_nat (length code - length rest) in
           case i of
             JMP d \<Rightarrow> Some (next + scast d, s)
           | JCC cc d \<Rightarrow> map_option (\<lambda>f. (if X86.cond_holds cc f then next + scast d else next, s)) (flg s)
           | RET \<Rightarrow> Some (read64 (mem s) (regs s 4), set_reg 4 (regs s 4 + 8) s)
           | _ \<Rightarrow> map_option (Pair next) (exec_insn i s)))"

fun x_run :: "nat \<Rightarrow> u64 \<Rightarrow> bytes \<Rightarrow> u64 \<times> mstate \<Rightarrow> (u64 \<times> mstate) option" where
  "x_run 0 base code c = Some c"
| "x_run (Suc n) base code c = (case x_step base code c of None \<Rightarrow> None | Some d \<Rightarrow> x_run n base code d)"

lemma x_run_add: "x_run n base code c = Some d \<Longrightarrow> x_run (n + m) base code c = x_run m base code d"
  by (induction n arbitrary: c) (auto split: option.splits)

lemma x_run_trans: "x_run n base code c = Some d \<Longrightarrow> x_run m base code d = Some c' \<Longrightarrow> x_run (n + m) base code c = Some c'"
  by (simp only: x_run_add)

section \<open>Decoding consumes a prefix\<close>

definition consumes :: "('a \<times> bytes) option \<Rightarrow> bytes \<Rightarrow> bool" where
  "consumes x bs \<longleftrightarrow> (\<forall>i r. x = Some (i, r) \<longrightarrow> suffix r bs)"

lemma consumes_if: "(b \<Longrightarrow> consumes x bs) \<Longrightarrow> (\<not> b \<Longrightarrow> consumes y bs) \<Longrightarrow> consumes (if b then x else y) bs"
  by simp

lemma consumes_case: "(\<And>v. consumes (f v) bs) \<Longrightarrow> consumes (case x of None \<Rightarrow> None | Some v \<Rightarrow> f v) bs"
  by (cases x) (simp_all add: consumes_def)

lemma consumes_basic: "consumes None bs" "consumes (Some (i, bs)) bs" "consumes (map_option (\<lambda>s. (f s, bs)) z) bs"
  by (auto simp: consumes_def)

lemma consumes_map:
  "consumes x bs \<Longrightarrow> consumes (map_option (\<lambda>(v, t). (f v, t)) x) bs"
  by (auto simp: consumes_def)

lemma consumes_imm: "consumes (dec_imm8 bs) bs" "consumes (dec_imm32 bs) bs" "consumes (dec_imm64 bs) bs"
  by (auto simp: consumes_def dec_imm8_def dec_imm32_def dec_imm64_def suffix_drop suffix_ConsI split: list.splits if_splits)

lemma modrm_suffix:
  assumes "dec_modrm rx b bs = Some (reg, x, r)"
  shows "suffix r bs"
proof -
  have d: "dec_disp md cs = Some (v, r) \<Longrightarrow> suffix r cs" "dec_imm32 cs = Some (v, r) \<Longrightarrow> suffix r cs" for md cs v
    using consumes_imm by (auto simp: dec_disp_def consumes_def split: if_splits)
  show ?thesis
    using assms by (auto simp: dec_modrm_def Let_def suffix_ConsI split: list.splits if_splits dest!: d)
qed

lemma consumes_with_rm:
  assumes "\<And>a x t. consumes (f a x t) t"
  shows "consumes (with_rm rex f bs) bs"
  using assms modrm_suffix suffix_order.trans by (fastforce simp: consumes_def with_rm_def split: prod.splits option.splits)

lemma consumes_byte:
  "consumes (case (z, bs) of (Some s, b # t) \<Rightarrow> Some (f s b, t) | _ \<Rightarrow> None) bs"
  "consumes (case bs of [] \<Rightarrow> None | b # t \<Rightarrow> if c then Some (g b, t) else if d then Some (h b, t) else None) bs"
  by (auto simp: consumes_def suffix_ConsI split: option.splits list.splits if_splits)

lemmas consumes_rules = consumes_if consumes_basic consumes_map consumes_imm consumes_case consumes_byte consumes_with_rm

lemma consumes_fence:
  assumes "consumes x bs"
  shows "consumes (case bs of [] \<Rightarrow> None | b # t \<Rightarrow> if c b then Some (i, t) else if d b then Some (j, t) else x) bs"
  using assms by (auto simp: consumes_def suffix_ConsI split: list.splits if_splits)

lemma consumes_one: "consumes (dec_one rex opc bs) bs"
  unfolding dec_one_def Let_def by (rule consumes_rules)+

lemma consumes_0f: "consumes (dec_0f rex opc bs) bs"
  unfolding dec_0f_def Let_def by (rule consumes_rules consumes_fence)+

lemma consumes_sse: "consumes (dec_f2_0f rex opc bs) bs" "consumes (dec_f3_0f rex opc bs) bs" "consumes (dec_66_0f rex opc bs) bs"
  unfolding dec_f2_0f_def dec_f3_0f_def dec_66_0f_def by (rule consumes_rules)+

lemma consumes_escape:
  assumes "bs = opc # cs" "\<And>b t. cs = b # t \<Longrightarrow> consumes (f b t) t"
  shows "consumes (case cs of [] \<Rightarrow> None | b # t \<Rightarrow> f b t) bs"
  using assms by (cases cs) (auto simp: consumes_def intro: suffix_ConsI)

lemma consumes_later: "consumes x cs \<Longrightarrow> consumes x (b # cs)"
  by (auto simp: consumes_def intro: suffix_ConsI)

lemma consumes_lock: "consumes x cs \<Longrightarrow> consumes (case x of None \<Rightarrow> None | Some (i, r) \<Rightarrow> map_option (\<lambda>j. (j, r)) (f i)) cs"
  by (cases x) (auto simp: consumes_def)

lemma decode_suffix:
  assumes "decode bs = Some (i, r)"
  shows "suffix r bs"
proof -
  obtain p bs1 where p: "take_pfx bs = (p, bs1)" by fastforce
  obtain rex bs2 where x: "take_rex bs1 = (rex, bs2)" by fastforce
  have s: "suffix bs1 bs" "suffix bs2 bs1"
    using p x by (auto simp: take_pfx_def take_rex_def suffix_ConsI split: list.splits if_splits)
  obtain opc cs where bs2: "bs2 = opc # cs"
    using assms by (cases bs2) (auto simp: decode_def p x)
  have "consumes (decode bs) bs2"
    unfolding decode_def p x prod.case Let_def bs2 list.case
    by (intro consumes_if consumes_escape [OF refl] consumes_later consumes_lock consumes_one consumes_0f consumes_sse
        consumes_basic consumes_with_rm)
  then have "suffix r bs2"
    using assms by (simp add: consumes_def)
  with s show ?thesis
    using suffix_order.trans by blast
qed

lemma decode_rest:
  assumes "decode (drop pos code) = Some (i, r)"
  shows "r = drop (length code - length r) code" "length r \<le> length code"
proof -
  have "suffix r code"
    using decode_suffix [OF assms] suffix_drop suffix_order.trans by blast
  then show "r = drop (length code - length r) code" "length r \<le> length code"
    by (auto simp: suffix_def)
qed

section \<open>Straight-line code\<close>

lemma offset_pos: "pos \<le> length code \<Longrightarrow> length code < 2 ^ 64 \<Longrightarrow> unat (base + of_nat pos - base :: u64) = pos"
  by (simp add: unat_of_nat)

lemma x_step_exec:
  assumes "decode (drop pos code) = Some (i, r)" "exec_insn i s = Some s'" "pos \<le> length code" "length code < 2 ^ 64"
  shows "x_step base code (base + of_nat pos, s) = Some (base + of_nat (length code - length r), s')"
  using assms offset_pos [OF assms(3,4), of base] by (cases i) (simp_all add: x_step_def exec_insn_def)

lemma x_run_list:
  assumes "dec_n (length is) (drop pos code) = Some (is, rest)" "exec_list is s = Some s'" "pos \<le> length code" "length code < 2 ^ 64"
  shows "x_run (length is) base code (base + of_nat pos, s) = Some (base + of_nat (length code - length rest), s')"
  using assms
proof (induction "is" arbitrary: pos s)
  case (Cons i "is")
  obtain r where r: "decode (drop pos code) = Some (i, r)" "dec_n (length is) r = Some (is, rest)"
    using Cons.prems(1) by (auto split: option.splits prod.splits)
  obtain s1 where s1: "exec_insn i s = Some s1" "exec_list is s1 = Some s'"
    using Cons.prems(2) by (auto split: option.splits)
  note q = decode_rest [OF r(1)]
  have "x_run (length is) base code (base + of_nat (length code - length r), s1) = Some (base + of_nat (length code - length rest), s')"
    using q(1) r(2) s1(2) Cons.prems(4) by (intro Cons.IH) simp_all
  then show ?case
    using x_step_exec [OF r(1) s1(1) Cons.prems(3,4)] by simp
qed auto

text \<open>The bytes \<open>bs\<close> are at position \<open>pos\<close>.\<close>

definition placed :: "bytes \<Rightarrow> nat \<Rightarrow> bytes \<Rightarrow> bool" where
  "placed code pos bs \<longleftrightarrow> pos + length bs \<le> length code \<and> take (length bs) (drop pos code) = bs"

lemma placed_drop: "placed code pos bs \<Longrightarrow> drop pos code = bs @ drop (pos + length bs) code"
  unfolding placed_def by (metis append_take_drop_id drop_drop add.commute)

lemma placed_append: "placed code pos (bs @ cs) \<longleftrightarrow> placed code pos bs \<and> placed code (pos + length bs) cs"
proof -
  have "take (length bs + length cs) (drop pos code) = take (length bs) (drop pos code) @ take (length cs) (drop (pos + length bs) code)"
    by (simp add: take_add add.commute)
  then show ?thesis
    by (auto simp: placed_def)
qed

lemma run_placed:
  assumes "placed code pos bs" "decodes bs is" "exec_list is s = Some s'" "length code < 2 ^ 64"
  shows "x_run (length is) base code (base + of_nat pos, s) = Some (base + of_nat (pos + length bs), s')"
proof -
  let ?r = "drop (pos + length bs) code"
  have "dec_n (length is) (drop pos code) = Some (is, ?r)"
    using placed_drop [OF assms(1)] assms(2) unfolding decodes_def by metis
  moreover have "length code - length ?r = pos + length bs" "pos \<le> length code"
    using assms(1) by (auto simp: placed_def)
  ultimately show ?thesis
    using x_run_list [of "is" pos code ?r s s' base] assms(3,4) by simp
qed

section \<open>Emitted code in the image\<close>

text \<open>Emission appends code, and branches inside the code it appends.\<close>

definition app :: "AnaEncoder \<Rightarrow> AnaEncoder \<Rightarrow> bool" where
  "app e e' \<longleftrightarrow> (failed e \<longrightarrow> failed e')
     \<and> (\<not> failed e' \<longrightarrow> prefix (buf e) (buf e')
          \<and> (\<exists>rs. relocs e' = relocs e @ rs \<and> (\<forall>r \<in> set rs. length (buf e) \<le> patch_offset r)))"

lemma app_refl: "app e e"
  by (auto simp: app_def)

lemma app_trans:
  assumes "app e f" "app f g"
  shows "app e g"
  unfolding app_def
proof (intro conjI impI)
  show "failed e \<Longrightarrow> failed g"
    using assms by (simp add: app_def)
  assume g: "\<not> failed g"
  then have f: "\<not> failed f"
    using assms(2) by (auto simp: app_def)
  obtain rs qs where r: "relocs f = relocs e @ rs" "\<forall>r \<in> set rs. length (buf e) \<le> patch_offset r"
    "relocs g = relocs f @ qs" "\<forall>r \<in> set qs. length (buf f) \<le> patch_offset r"
    using assms f g by (auto simp: app_def)
  have p: "prefix (buf e) (buf f)" "prefix (buf f) (buf g)"
    using assms f g by (auto simp: app_def)
  then show "prefix (buf e) (buf g)"
    by (rule prefix_order.trans)
  show "\<exists>rs. relocs g = relocs e @ rs \<and> (\<forall>r \<in> set rs. length (buf e) \<le> patch_offset r)"
    using r prefix_length_le [OF p(1)] by (intro exI [of _ "rs @ qs"]) auto
qed

lemma app_put: "app e (exec (put_bytes bs) e)"
  using put_bytes_effect [where bs = bs and e = e] by (auto simp: app_def)

lemma app_reloc: "app e (exec (add_reloc l j) e)"
  using add_reloc_effect [where l = l and jcc = j and e = e] by (auto simp: app_def)

interpretation app: encoder_rel app
proof unfold_locales
  fix e e' e'' bs opc l jcc
  show "app e e" by (rule app_refl)
  show "app e e' \<Longrightarrow> app e' e'' \<Longrightarrow> app e e''" by (rule app_trans)
  show "app e (exec (put_bytes bs) e)" by (rule app_put)
  show "app e (exec new_label e)" by (auto simp: app_def new_label_def)
  show "app e (exec (bind_label l) e)" by (auto simp: app_def bind_label_def)
  show "app e (exec (emit_branch opc l jcc) e)"
    unfolding branch_exec emit32_def by (meson app_put app_reloc app_trans)
qed

text \<open>The final state of an emission and the image that resolution makes of it.\<close>

definition image :: "AnaEncoder \<Rightarrow> bytes \<Rightarrow> bool" where
  "image E code \<longleftrightarrow> \<not> failed E \<and> tables_ok E \<and> resolve_loop (labels E) (relocs E) (buf E) = (True, code)"

lemma image_resolved:
  assumes "image E code"
  shows "length code = length (buf E)" "r \<in> set (relocs E) \<Longrightarrow> reloc_done (labels E) code r"
    "i < length (buf E) \<Longrightarrow> (\<And>r. r \<in> set (relocs E) \<Longrightarrow> i < patch_offset r \<or> patch_offset r + 4 \<le> i) \<Longrightarrow> code ! i = buf E ! i"
  using assms resolve_loop_ok [of "labels E" "relocs E" "buf E" code] by (auto simp: image_def tables_ok_def)

lemma image_bytes:
  assumes "image E code" "prefix (buf e @ bs) (buf E)"
    "\<And>r. r \<in> set (relocs E) \<Longrightarrow> patch_offset r + 4 \<le> length (buf e) \<or> length (buf e) + length bs \<le> patch_offset r"
  shows "placed code (length (buf e)) bs"
proof -
  obtain t where t: "buf E = (buf e @ bs) @ t"
    using assms(2) by (auto simp: prefix_def)
  have "code ! i = buf E ! i" if "length (buf e) \<le> i" "i < length (buf e) + length bs" for i
    using image_resolved(3) [OF assms(1), of i] assms(3) that t by fastforce
  then have "take (length bs) (drop (length (buf e)) code) = bs"
    using image_resolved(1) [OF assms(1)] t by (intro nth_equalityI) (auto simp: nth_append)
  then show ?thesis
    using image_resolved(1) [OF assms(1)] t by (simp add: placed_def)
qed

lemma app_image:
  assumes "image E code" "app e E"
  shows "\<not> failed e" "prefix (buf e) (buf E)"
    "r \<in> set (relocs E) \<Longrightarrow> r \<in> set (relocs e) \<or> length (buf e) \<le> patch_offset r"
    "set (relocs e) \<subseteq> set (relocs E)"
  using assms by (auto simp: image_def app_def)

lemma placed_emits:
  assumes "image E code" "emits m bs" "tables_ok e" "app (exec m e) E"
  shows "placed code (length (buf e)) bs" "length (buf (exec m e)) = length (buf e) + length bs"
    "\<not> failed e" "relocs (exec m e) = relocs e" "labels (exec m e) = labels e"
proof -
  note a = app_image [OF assms(1,4)]
  have m: "buf (exec m e) = buf e @ bs" "relocs (exec m e) = relocs e" "labels (exec m e) = labels e" "\<not> failed e"
    using assms(2) a(1) by (auto simp: emits_def)
  show "length (buf (exec m e)) = length (buf e) + length bs" "\<not> failed e" "relocs (exec m e) = relocs e" "labels (exec m e) = labels e"
    using m by simp_all
  have "patch_offset r + 4 \<le> length (buf e)" if "r \<in> set (relocs e)" for r
    using that assms(3) m(4) by (auto simp: tables_ok_def relocs_ok_def)
  then show "placed code (length (buf e)) bs"
    using a(2,3) m by (intro image_bytes [OF assms(1)]) auto
qed

lemma placed_branch:
  assumes "image E code" "tables_ok e" "app (exec (emit_branch opc l jcc) e) E"
  defines "r \<equiv> \<lparr>label_id = l, patch_offset = length (buf e) + length opc, is_jcc_rel32 = jcc\<rparr>"
  shows "placed code (length (buf e)) (opc @ le32 (word_of_int (reloc_rel (labels E) r)))" "r \<in> set (relocs E)"
    "length (buf (exec (emit_branch opc l jcc) e)) = length (buf e) + length opc + 4"
proof -
  let ?e1 = "exec (put_bytes opc) e"
  let ?e2 = "exec (add_reloc l jcc) ?e1"
  let ?e3 = "exec (emit_branch opc l jcc) e"
  have e3: "?e3 = exec (put_bytes (le32 0)) ?e2"
    by (simp add: branch_exec emit32_def)
  note a3 = app_image [OF assms(1,3)]
  have a2: "app ?e2 E"
    using app_trans [OF app_put assms(3) [unfolded e3]] .
  have a1: "app ?e1 E"
    using app_trans [OF app_reloc a2] .
  have b1: "buf ?e1 = buf e @ opc" "relocs ?e1 = relocs e"
    using app_image(1) [OF assms(1) a1] put_bytes_effect [where bs = opc and e = e] by blast+
  have b2: "buf ?e2 = buf ?e1" "relocs ?e2 = relocs e @ [r]"
    using app_image(1) [OF assms(1) a2] add_reloc_effect [where l = l and jcc = jcc and e = ?e1] b1 by (simp_all add: r_def)
  have b3: "buf ?e3 = buf e @ opc @ le32 0" "relocs ?e3 = relocs e @ [r]"
    using a3(1) put_bytes_effect [where bs = "le32 0" and e = ?e2] b1 b2 unfolding e3 by auto
  show "length (buf ?e3) = length (buf e) + length opc + 4"
    by (simp add: b3)
  show r: "r \<in> set (relocs E)"
    using a3(4) b3(2) by auto
  have "\<not> failed e"
    using app_image(1) [OF assms(1) app_trans [OF app_put a1]] .
  then have old: "patch_offset q + 4 \<le> length (buf e)" if "q \<in> set (relocs e)" for q
    using that assms(2) by (auto simp: tables_ok_def relocs_ok_def)
  have "placed code (length (buf e)) opc"
  proof (rule image_bytes [OF assms(1)])
    show "prefix (buf e @ opc) (buf E)"
      using app_image(2) [OF assms(1) a1] b1 by simp
    show "patch_offset q + 4 \<le> length (buf e) \<or> length (buf e) + length opc \<le> patch_offset q" if "q \<in> set (relocs E)" for q
      using a3(3) [OF that] b3 old by (auto simp: r_def)
  qed
  moreover have "placed code (length (buf e) + length opc) (le32 (word_of_int (reloc_rel (labels E) r)))"
    using image_resolved(1) [OF assms(1)] image_resolved(2) [OF assms(1) r] prefix_length_le [OF a3(2)] b3(1)
    by (simp add: placed_def reloc_done_def r_def)
  ultimately show "placed code (length (buf e)) (opc @ le32 (word_of_int (reloc_rel (labels E) r)))"
    by (simp add: placed_append)
qed

text \<open>An emitter whose code decodes to instructions without jumps runs in the image.\<close>

lemma run_asm:
  assumes "image E code" "asm m x is" "tables_ok e" "app (exec m e) E" "exec_list is s = Some s'" "length code < 2 ^ 64"
  shows "x_run (length is) base code (base + of_nat (length (buf e)), s) = Some (base + of_nat (length (buf (exec m e))), s')"
proof -
  obtain bs where bs: "emits m bs" "decodes bs is"
    using assms(2) by (auto simp: asm_def)
  note p = placed_emits [OF assms(1) bs(1) assms(3,4)]
  show ?thesis
    using run_placed [OF p(1) bs(2) assms(5,6)] by (simp add: p(2))
qed

section \<open>Branches\<close>

definition label_at :: "AnaEncoder \<Rightarrow> u32 \<Rightarrow> nat \<Rightarrow> bool" where
  "label_at E l dst \<longleftrightarrow> labels E ! unat l = \<lparr>loffset = of_nat dst, bound = True\<rparr>"

lemma branch_target:
  assumes "reloc_done (labels E) code r" "label_at E (label_id r) dst" "dst < 2 ^ 31"
  shows "of_nat (patch_offset r + 4) + scast (word_of_int (reloc_rel (labels E) r) :: i32) = (of_nat dst :: u64)"
proof -
  have "sint (of_nat dst :: i32) = int dst"
    using sint_of_int_range [of "int dst"] assms(3) by simp
  then have rel: "reloc_rel (labels E) r = int dst - int (patch_offset r + 4)"
    using assms(2) by (simp add: reloc_rel_def label_at_def)
  have "scast (word_of_int (reloc_rel (labels E) r) :: i32) = (word_of_int (reloc_rel (labels E) r) :: u64)"
    using sint_of_int_range [of "reloc_rel (labels E) r"] assms(1) by (simp add: reloc_done_def scast_eq)
  then show ?thesis
    unfolding rel by simp
qed

lemma decode_branch:
  "decode (0xE9 # le32 d @ rest) = Some (JMP d, rest)"
  "cond_of b = Some c \<Longrightarrow> decode (0x0F # b # le32 d @ rest) = Some (JCC c d, rest)"
proof -
  show "decode (0xE9 # le32 d @ rest) = Some (JMP d, rest)"
    by (simp add: decode_bare dec_plain)
  show "decode (0x0F # b # le32 d @ rest) = Some (JCC c d, rest)" if "cond_of b = Some c"
  proof -
    have "b \<in> {0x84, 0x85, 0x8C, 0x8D}"
      using that by (simp split: if_splits)
    then show ?thesis
      using that by (elim insertE emptyE) (simp_all add: decode_bare dec_0f_def dec_imm32_le32)
  qed
qed

text \<open>One step at code that decodes to a jump.\<close>

lemma x_step_jump:
  assumes "placed code pos bs" "\<And>rest. decode (bs @ rest) = Some (i, rest)" "length code < 2 ^ 64"
  shows "i = JMP d \<Longrightarrow> x_run 1 base code (base + of_nat pos, s) = Some (base + of_nat (pos + length bs) + scast d, s)"
    "i = JCC c d \<Longrightarrow> flg s = Some f \<Longrightarrow> x_run 1 base code (base + of_nat pos, s)
       = Some (if X86.cond_holds c f then base + of_nat (pos + length bs) + scast d else base + of_nat (pos + length bs), s)"
    "i = RET \<Longrightarrow> x_run 1 base code (base + of_nat pos, s) = Some (read64 (mem s) (regs s 4), set_reg 4 (regs s 4 + 8) s)"
proof -
  let ?r = "drop (pos + length bs) code"
  have d: "decode (drop pos code) = Some (i, ?r)"
    using placed_drop [OF assms(1)] assms(2) by metis
  have "length code - length ?r = pos + length bs" "pos \<le> length code"
    using assms(1) by (auto simp: placed_def)
  then show "i = JMP d \<Longrightarrow> x_run 1 base code (base + of_nat pos, s) = Some (base + of_nat (pos + length bs) + scast d, s)"
    "i = JCC c d \<Longrightarrow> flg s = Some f \<Longrightarrow> x_run 1 base code (base + of_nat pos, s)
       = Some (if X86.cond_holds c f then base + of_nat (pos + length bs) + scast d else base + of_nat (pos + length bs), s)"
    "i = RET \<Longrightarrow> x_run 1 base code (base + of_nat pos, s) = Some (read64 (mem s) (regs s 4), set_reg 4 (regs s 4 + 8) s)"
    using d offset_pos [of pos code base] assms(3) unfolding One_nat_def x_run.simps x_step_def by simp_all
qed

lemma run_jmp:
  assumes "image E code" "tables_ok e" "app (exec (jmp_label l) e) E" "label_at E l dst" "dst < 2 ^ 31" "length code < 2 ^ 31"
  shows "x_run 1 base code (base + of_nat (length (buf e)), s) = Some (base + of_nat dst, s)"
proof -
  let ?r = "\<lparr>label_id = l, patch_offset = length (buf e) + length [0xE9 :: u8], is_jcc_rel32 = False\<rparr>"
  let ?d = "word_of_int (reloc_rel (labels E) ?r) :: i32"
  note p = placed_branch [OF assms(1,2) assms(3) [unfolded jmp_label_def]]
  have "x_run 1 base code (base + of_nat (length (buf e)), s)
      = Some (base + of_nat (length (buf e) + length ([0xE9] @ le32 ?d)) + scast ?d, s)"
    using assms(6) by (intro x_step_jump(1) [OF p(1) _ _ refl]) (simp_all add: decode_branch)
  moreover have "of_nat (length (buf e) + 5) + scast ?d = (of_nat dst :: u64)"
    using branch_target [OF image_resolved(2) [OF assms(1) p(2)], of dst] assms(4,5) by (simp add: ac_simps)
  ultimately show ?thesis
    by (simp add: add.assoc del: of_nat_add)
qed

lemma run_jcc:
  fixes b :: u8
  defines "m l \<equiv> emit8 0x0F \<bind> (\<lambda>_. emit_branch [b] l True)"
  assumes "image E code" "tables_ok e" "app (exec (m l) e) E" "cond_of b = Some c" "flg s = Some f"
    and "X86.cond_holds c f \<Longrightarrow> label_at E l dst \<and> dst < 2 ^ 31" "length code < 2 ^ 31"
  shows "x_run 1 base code (base + of_nat (length (buf e)), s)
    = Some (base + of_nat (if X86.cond_holds c f then dst else length (buf (exec (m l) e))), s)"
proof -
  let ?e = "exec (emit8 0x0F) e"
  let ?r = "\<lparr>label_id = l, patch_offset = length (buf ?e) + length [b], is_jcc_rel32 = True\<rparr>"
  let ?d = "word_of_int (reloc_rel (labels E) ?r) :: i32"
  have m: "exec (m l) e = exec (emit_branch [b] l True) ?e"
    by (simp add: m_def case_prod_beta)
  have t: "tables_ok ?e"
    using assms(3) tables.keepsD [OF tables.keeps_emit8] by blast
  note a = assms(4) [unfolded m]
  have "app ?e E"
    using app_trans [OF app.keepsD [OF app.keeps_branch] a] by simp
  note p0 = placed_emits [OF assms(2) emits_emit8 assms(3) this]
  note p = placed_branch [OF assms(2) t a]
  have pl: "placed code (length (buf e)) ([0x0F] @ [b] @ le32 ?d)"
    using p0(1,2) p(1) by (simp only: placed_append)
  have "x_run 1 base code (base + of_nat (length (buf e)), s)
      = Some (if X86.cond_holds c f then base + of_nat (length (buf e) + length ([0x0F] @ [b] @ le32 ?d)) + scast ?d
              else base + of_nat (length (buf e) + length ([0x0F] @ [b] @ le32 ?d)), s)"
    using assms(5,6,8) by (intro x_step_jump(2) [OF pl _ _ refl]) (simp_all add: decode_branch del: cond_of.simps)
  moreover have "of_nat (length (buf e) + 6) + scast ?d = (of_nat dst :: u64)" if "X86.cond_holds c f"
    using branch_target [OF image_resolved(2) [OF assms(2) p(2)], of dst] assms(7) [OF that] p0(2) by (simp add: ac_simps)
  moreover have "length (buf (exec (m l) e)) = length (buf e) + 6"
    using p(3) p0(2) by (simp add: m)
  ultimately show ?thesis
    by (auto simp: add.assoc simp del: of_nat_add)
qed

lemma run_ret:
  assumes "image E code" "tables_ok e" "app (exec ret e) E" "length code < 2 ^ 64"
  shows "x_run 1 base code (base + of_nat (length (buf e)), s) = Some (read64 (mem s) (regs s 4), set_reg 4 (regs s 4 + 8) s)"
proof -
  obtain bs where bs: "emits ret bs" "decodes bs [RET]"
    using asm_bare(1) by (auto simp: asm_def)
  then have "decode (bs @ rest) = Some (RET, rest)" for rest
    by (auto simp: decodes_def split: option.splits dest: spec [of _ rest])
  then show ?thesis
    using placed_emits(1) [OF assms(1) bs(1) assms(2,3)] assms(4) by (intro x_step_jump(3) [OF _ _ _ refl])
qed

end
