(* ===== verification/Sum_Function.thy ===== *)
theory Sum_Function
  imports Two_Pass
begin

text \<open>
  A function with a loop, the sum of the numbers up to its argument, and a run of it, for the
  examples of the backends.
\<close>

definition p0 :: Register where "p0 = \<lparr>reg_type = PARAM, reg_index = 0\<rparr>"

definition sum_init :: Instruction where
  "sum_init = (plain_insn MOVE_CONST None)\<lparr>dest := OpReg v0, src1 := OpConst 0\<rparr>"
definition sum_test :: Instruction where
  "sum_test = (plain_insn IF_LT (Some ''.done''))\<lparr>src1 := OpReg p0, src2 := OpConst 1\<rparr>"
definition sum_add :: Instruction where
  "sum_add = (plain_insn ADD_I64 None)\<lparr>dest := OpReg v0, src1 := OpReg v0, src2 := OpReg p0\<rparr>"
definition sum_dec :: Instruction where
  "sum_dec = (plain_insn SUB_I64 None)\<lparr>dest := OpReg p0, src1 := OpReg p0, src2 := OpConst 1\<rparr>"
definition sum_back :: Instruction where
  "sum_back = plain_insn GOTO (Some ''loop'')"
definition sum_ret :: Instruction where
  "sum_ret = (plain_insn RETURN_VAL None)\<lparr>src1 := OpReg v0\<rparr>"

definition sum_fn :: Function where
  "sum_fn = \<lparr>fn_name = ''sum'', return_type = I64, params = [], param_count = 1, local_count = 1,
     blocks = [\<lparr>label = ''entry'', insns = [sum_init]\<rparr>, \<lparr>label = ''loop'', insns = [sum_test, sum_add, sum_dec, sum_back]\<rparr>,
       \<lparr>label = ''done'', insns = [sum_ret]\<rparr>]\<rparr>"

definition env2 :: "Register \<Rightarrow> u64" where
  "env2 r = (if r = p0 then 2 else 0)"

lemma p0_v0: "p0 \<noteq> v0" "v0 \<noteq> p0"
  by (simp_all add: p0_def v0_def)

lemma sum_next:
  "ir_next sum_fn (Running 0 [sum_init] \<rho>) = Some (Running 0 [] (\<rho>(v0 := 0)))"
  "ir_next sum_fn (Running 0 [] \<rho>) = Some (Running 1 [sum_test, sum_add, sum_dec, sum_back] \<rho>)"
  "ir_next sum_fn (Running 1 (sum_test # is) \<rho>) = Some (if sint (\<rho> p0) < 1 then Running 2 [sum_ret] \<rho> else Running 1 is \<rho>)"
  "ir_next sum_fn (Running 1 (sum_add # is) \<rho>) = Some (Running 1 is (\<rho>(v0 := \<rho> v0 + \<rho> p0)))"
  "ir_next sum_fn (Running 1 (sum_dec # is) \<rho>) = Some (Running 1 is (\<rho>(p0 := \<rho> p0 - 1)))"
  "ir_next sum_fn (Running 1 [sum_back] \<rho>) = Some (Running 1 [sum_test, sum_add, sum_dec, sum_back] \<rho>)"
  "ir_next sum_fn (Running 2 [sum_ret] \<rho>) = Some (Returned (Some (\<rho> v0)))"
proof -
  note defs = sum_init_def sum_test_def sum_add_def sum_dec_def sum_back_def sum_ret_def plain_insn_def is_cond_def
  have t: "block_index (blocks sum_fn) ''.done'' = Some 2" "block_index (blocks sum_fn) ''loop'' = Some 1"
    by (simp_all add: sum_fn_def streq_impl_def skip_dot_def name_end_def)
  have b: "blocks sum_fn ! 1 = \<lparr>label = ''loop'', insns = [sum_test, sum_add, sum_dec, sum_back]\<rparr>"
    "blocks sum_fn ! 2 = \<lparr>label = ''done'', insns = [sum_ret]\<rparr>" "length (blocks sum_fn) = 3"
    by (simp_all add: sum_fn_def)
  have a: "ir_result sum_add \<rho> = Some (\<rho> v0 + \<rho> p0)"
    using fold_const_ir [of ADD_I64 "\<rho> v0" "\<rho> p0"]
    by (simp add: defs ir_result_def opd_val_def exact_def fold_const_def Let_def flip: fold_const_ir)
  have d: "ir_result sum_dec \<rho> = Some (\<rho> p0 - 1)"
    using fold_const_ir [of SUB_I64 "\<rho> p0" 1, symmetric]
    by (simp add: defs ir_result_def opd_val_def exact_def norm32_def fold_const_def Let_def)
  show "ir_next sum_fn (Running 0 [sum_init] \<rho>) = Some (Running 0 [] (\<rho>(v0 := 0)))"
    by (simp add: ir_next_def defs ir_result_def)
  show "ir_next sum_fn (Running 0 [] \<rho>) = Some (Running 1 [sum_test, sum_add, sum_dec, sum_back] \<rho>)"
    using b by (simp add: ir_next_def)
  show "ir_next sum_fn (Running 1 (sum_test # is) \<rho>) = Some (if sint (\<rho> p0) < 1 then Running 2 [sum_ret] \<rho> else Running 1 is \<rho>)"
    using t b by (simp add: ir_next_def sum_test_def plain_insn_def is_cond_def cond_holds_def opd_val_def)
  show "ir_next sum_fn (Running 1 (sum_add # is) \<rho>) = Some (Running 1 is (\<rho>(v0 := \<rho> v0 + \<rho> p0)))"
    using a by (simp add: ir_next_def sum_add_def plain_insn_def is_cond_def)
  show "ir_next sum_fn (Running 1 (sum_dec # is) \<rho>) = Some (Running 1 is (\<rho>(p0 := \<rho> p0 - 1)))"
    using d by (simp add: ir_next_def sum_dec_def plain_insn_def is_cond_def)
  show "ir_next sum_fn (Running 1 [sum_back] \<rho>) = Some (Running 1 [sum_test, sum_add, sum_dec, sum_back] \<rho>)"
    using t b by (simp add: ir_next_def sum_back_def plain_insn_def)
  show "ir_next sum_fn (Running 2 [sum_ret] \<rho>) = Some (Returned (Some (\<rho> v0)))"
    by (simp add: ir_next_def sum_ret_def plain_insn_def is_cond_def opd_val_def)
qed

lemma sum_fn_runs: "ir_exec 12 sum_fn (ir_start sum_fn env2) = Some (Returned (Some 3))"
proof -
  have "ir_start sum_fn env2 = Running 0 [sum_init] env2"
    by (simp add: ir_start_def sum_fn_def)
  then show ?thesis
    by (simp add: numeral_eq_Suc sum_next sum_next(7) [unfolded numeral_2_eq_2] p0_v0 env2_def del: One_nat_def)
qed

lemmas sum_insn_defs = sum_init_def sum_test_def sum_add_def sum_dec_def sum_back_def sum_ret_def plain_insn_def is_cond_def

lemma sum_fn_shape: "blocks sum_fn \<noteq> []" "length (blocks sum_fn) \<le> 128" "distinct_labels (blocks sum_fn)"
  by (simp_all add: sum_fn_def distinct_labels_def streq_impl_def skip_dot_def name_end_def)

lemma sum_fn_insns:
  "list_all P [sum_init, sum_test, sum_add, sum_dec, sum_back, sum_ret] \<Longrightarrow> list_all (\<lambda>b. list_all P (insns b)) (blocks sum_fn)"
  by (simp add: sum_fn_def)

end
