(* ===== verification/X86_Function.thy ===== *)
theory X86_Function
  imports X86_Machine Sum_Function
begin

text \<open>
  Whole functions of the compiler for x86-64: the image that \<open>compile_function\<close> of
  \<^theory_text>\<open>Lowerer\<close> returns, run on the machine of \<^theory_text>\<open>X86_Machine\<close>, computes
  what the reference semantics of \<^theory_text>\<open>Ir_Flow\<close> does and returns to its caller.
\<close>

unbundle bit_operations_syntax

section \<open>Labels\<close>

text \<open>Label comparison is equality of names without a leading dot, up to a colon.\<close>

definition label_key :: "string \<Rightarrow> string" where
  "label_key s = takeWhile (\<lambda>c. c \<noteq> CHR 0x00 \<and> c \<noteq> CHR '':'') (skip_dot s)"

lemma streq_key: "streq_impl s t \<longleftrightarrow> label_key s = label_key t"
  by (simp add: streq_impl_def label_key_def streq_loop_key)

lemma block_index_next:
  assumes "distinct_labels bbs" "block_index bbs t = Some j" "k < length bbs" "streq_impl (label (bbs ! k)) t"
  shows "j = k"
  using assms
proof (induction bbs arbitrary: j k)
  case (Cons b bbs)
  show ?case
  proof (cases k)
    case 0
    then show ?thesis
      using Cons.prems by simp
  next
    case (Suc m)
    then have m: "m < length bbs" "streq_impl (label (bbs ! m)) t"
      using Cons.prems by auto
    have "\<not> streq_impl (label b) (label (bbs ! m))"
      using Cons.prems(1) m(1) by (simp add: distinct_labels_def)
    then have "\<not> streq_impl (label b) t"
      using m(2) by (simp add: streq_key)
    then show ?thesis
      using Cons.IH [of _ m] Cons.prems m Suc by (auto simp: distinct_labels_def)
  qed
qed simp

lemma find_block_label:
  "length ls = length bbs \<Longrightarrow> block_index bbs t = Some j \<Longrightarrow>
   \<exists>n. find (\<lambda>(l, _). streq_impl l t) (zip (map label bbs) ls) = Some (n, ls ! j)"
proof (induction bbs arbitrary: ls j)
  case (Cons b bbs)
  then obtain l ls' where "ls = l # ls'"
    by (cases ls) auto
  then show ?case
    using Cons by (fastforce split: if_splits)
qed simp

section \<open>Points of the emission\<close>

definition x_labels :: "Function \<Rightarrow> u32 list" where
  "x_labels fn = map of_nat [0..<length (blocks fn)]"

definition x_env :: "LowerEnv \<Rightarrow> Function \<Rightarrow> LowerEnv" where
  "x_env env fn = block_env env fn (x_labels fn)"

definition next_label :: "Function \<Rightarrow> nat \<Rightarrow> string option" where
  "next_label fn k = (if Suc k < length (blocks fn) then Some (label (blocks fn ! Suc k)) else None)"

definition rest_blocks :: "LowerEnv \<Rightarrow> Function \<Rightarrow> nat \<Rightarrow> unit emit" where
  "rest_blocks env fn k = lower_blocks (x_env env fn) (drop k (blocks fn)) (drop k (x_labels fn))"

text \<open>The emitter is about to lower \<open>is\<close>, the rest of block \<open>k\<close>, on its way to its final state.\<close>

definition point :: "LowerEnv \<Rightarrow> Function \<Rightarrow> AnaEncoder \<Rightarrow> nat \<Rightarrow> Instruction list \<Rightarrow> AnaEncoder \<Rightarrow> bool" where
  "point env fn E k is e \<longleftrightarrow> k < length (blocks fn) \<and> tables_ok e
     \<and> exec (lower_insns (x_env env fn) (next_label fn k) is \<bind> (\<lambda>_. rest_blocks env fn (Suc k))) e = E"

lemma point_app: "point env fn E k is e \<Longrightarrow> app e E"
  unfolding point_def rest_blocks_def
  by (elim conjE, hypsubst) (intro app.keepsD app.keeps_bind app.keeps_lower_insns app.keeps_lower_blocks)

lemma point_insn:
  assumes "point env fn E k (i # is) e"
  shows "point env fn E k is (exec (lower_insn (x_env env fn) (next_label fn k) i) e)"
  using assms tables.keepsD [OF tables.keeps_lower_insn] by (auto simp: point_def case_prod_beta)

lemma rest_blocks_step:
  assumes "k < length (blocks fn)"
  shows "rest_blocks env fn k = do { bind_label (of_nat k);
    lower_insns (x_env env fn) (next_label fn k) (insns (blocks fn ! k)); rest_blocks env fn (Suc k) }"
proof -
  have "drop k (blocks fn) = blocks fn ! k # drop (Suc k) (blocks fn)" "drop k (x_labels fn) = of_nat k # drop (Suc k) (x_labels fn)"
    using assms by (simp_all add: Cons_nth_drop_Suc [symmetric] x_labels_def)
  moreover have "(case drop (Suc k) (blocks fn) of [] \<Rightarrow> None | b # _ \<Rightarrow> Some (label b)) = next_label fn k"
    by (cases "Suc k < length (blocks fn)") (simp_all add: next_label_def Cons_nth_drop_Suc [symmetric])
  ultimately show ?thesis
    by (simp add: rest_blocks_def)
qed

lemma point_block:
  assumes "k < length (blocks fn)" "tables_ok e" "exec (rest_blocks env fn k) e = E"
  shows "point env fn E k (insns (blocks fn ! k)) (exec (bind_label (of_nat k)) e)" "buf (exec (bind_label (of_nat k)) e) = buf e"
  using assms tables.keepsD [OF tables.keeps_bind_label, of e "of_nat k"]
  by (auto simp: point_def rest_blocks_step case_prod_beta) (simp add: bind_label_def)

lemma point_fall:
  assumes "point env fn E k [] e" "Suc k < length (blocks fn)"
  shows "\<exists>e'. point env fn E (Suc k) (insns (blocks fn ! Suc k)) e' \<and> buf e' = buf e"
  using assms point_block [OF assms(2), of e env E] by (auto simp: point_def)

lemma point_reached:
  assumes "tables_ok c" "exec (rest_blocks env fn 0) c = E" "k \<le> length (blocks fn)"
  shows "\<exists>e. tables_ok e \<and> exec (rest_blocks env fn k) e = E
    \<and> block_starts (x_env env fn) (drop k (blocks fn)) (drop k (x_labels fn)) e = drop k (block_starts (x_env env fn) (blocks fn) (x_labels fn) c)"
  using assms(3)
proof (induction k)
  case 0
  then show ?case
    using assms by auto
next
  case (Suc k)
  then obtain e where e: "tables_ok e" "exec (rest_blocks env fn k) e = E"
    "block_starts (x_env env fn) (drop k (blocks fn)) (drop k (x_labels fn)) e = drop k (block_starts (x_env env fn) (blocks fn) (x_labels fn) c)"
    by auto
  let ?nxt = "case drop (Suc k) (blocks fn) of [] \<Rightarrow> None | b # _ \<Rightarrow> Some (label b)"
  let ?e = "exec (lower_insns (x_env env fn) ?nxt (insns (blocks fn ! k))) (exec (bind_label (of_nat k)) e)"
  have d: "drop k (blocks fn) = blocks fn ! k # drop (Suc k) (blocks fn)" "drop k (x_labels fn) = of_nat k # drop (Suc k) (x_labels fn)"
    using Suc.prems by (simp_all add: Cons_nth_drop_Suc [symmetric] x_labels_def)
  have "tables_ok ?e"
    using e(1) tables.keepsD [OF tables.keeps_bind_label] tables.keepsD [OF tables.keeps_lower_insns] by blast
  moreover have "exec (rest_blocks env fn (Suc k)) ?e = E"
    using e(2) by (simp add: rest_blocks_def d case_prod_beta)
  moreover have "block_starts (x_env env fn) (drop (Suc k) (blocks fn)) (drop (Suc k) (x_labels fn)) ?e
      = drop 1 (drop k (block_starts (x_env env fn) (blocks fn) (x_labels fn) c))"
    unfolding e(3) [symmetric] by (simp add: d)
  ultimately show ?case
    by (intro exI [of _ ?e]) simp
qed

text \<open>What the compiler's result gives: the image, and a point and a label for every block.\<close>

lemma compiled_points:
  assumes "compile_function env mm mp fn = Some (n, code)"
  defines "E \<equiv> exec (emit_function env fn) (new_encoder mm)" and "c \<equiv> exec (entry_code fn) (new_encoder mm)"
  shows "image E code" "tables_ok c" "exec (rest_blocks env fn 0) c = E"
    "j < length (blocks fn) \<Longrightarrow> \<exists>e. point env fn E j (insns (blocks fn ! j)) e \<and> label_at E (of_nat j) (length (buf e))"
proof -
  note r = compile_function_run [OF assms(1), folded E_def]
  show im: "image E code"
    using r(4,5) emit_function_ok(1) [of env fn mm] by (simp add: image_def E_def)
  define ls where "ls = fst (run_state (entry_code fn) (new_encoder mm))"
  have E: "E = exec (lower_blocks (block_env env fn ls) (blocks fn) ls) c"
    by (simp add: E_def c_def ls_def emit_function_alt case_prod_beta)
  have fc: "\<not> failed c"
    using r(4) latch.keepsD [OF latch.keeps_lower_blocks] unfolding E by blast
  have ls: "ls = x_labels fn"
    using entry_code_labels [OF fc [unfolded c_def]] by (simp add: ls_def x_labels_def)
  show t: "tables_ok c"
    unfolding c_def entry_code_def
    by (intro tables.keepsD [THEN mp] tables_ok_new tables.keeps_bind tables.keeps_make_labels tables.keeps_lower_frame tables.keeps_ret)
  show x: "exec (rest_blocks env fn 0) c = E"
    by (simp add: E ls rest_blocks_def x_env_def)
  have starts: "function_starts env fn (new_encoder mm) = block_starts (x_env env fn) (blocks fn) (x_labels fn) c"
    using ls by (simp add: function_starts_def case_prod_beta ls_def c_def x_env_def)
  let ?st = "block_starts (x_env env fn) (blocks fn) (x_labels fn) c"
  have m: "map (\<lambda>i. labels E ! i) [0..<length (blocks fn)] = map (\<lambda>k. \<lparr>loffset = of_nat k, bound = True\<rparr>) ?st" "length (blocks fn) \<le> kMaxLabels"
    using emit_function_labels [OF r(4) [unfolded E_def]] starts by (simp_all add: E_def)
  show "\<exists>e. point env fn E j (insns (blocks fn ! j)) e \<and> label_at E (of_nat j) (length (buf e))" if j: "j < length (blocks fn)"
  proof -
    obtain e where e: "tables_ok e" "exec (rest_blocks env fn j) e = E"
      "block_starts (x_env env fn) (drop j (blocks fn)) (drop j (x_labels fn)) e = drop j ?st"
      using point_reached [OF t x, of j] j by auto
    have "drop j (blocks fn) = blocks fn ! j # drop (Suc j) (blocks fn)" "drop j (x_labels fn) = of_nat j # drop (Suc j) (x_labels fn)"
      using j by (simp_all add: Cons_nth_drop_Suc [symmetric] x_labels_def)
    then have "hd (drop j ?st) = length (buf e)" "drop j ?st \<noteq> []"
      unfolding e(3) [symmetric] by simp_all
    then have s: "?st ! j = length (buf e)" "j < length ?st"
      by (simp_all add: hd_drop_conv_nth)
    have "labels E ! j = \<lparr>loffset = of_nat (length (buf e)), bound = True\<rparr>"
      using arg_cong [OF m(1), of "\<lambda>xs. xs ! j"] j s by simp
    moreover have "unat (of_nat j :: u32) = j"
      using j m(2) by (simp add: kMaxLabels_def unat_of_nat)
    ultimately show ?thesis
      using point_block [OF j e(1,2)] by (intro exI [of _ "exec (bind_label (of_nat j)) e"]) (simp add: label_at_def)
  qed
qed

section \<open>The frame\<close>

text \<open>
  What holds inside the function: the frame pointer, the stack pointer and the saved registers
  of the caller are where the prologue put them, and memory outside the frame is as it was.
\<close>

definition frame_base :: "mstate \<Rightarrow> u64" where
  "frame_base s0 = regs s0 (rn RSP) - 8"

definition x_saved :: "AnaRegAlloc \<Rightarrow> X86Reg set" where
  "x_saved ra = saved_reg ` {..<unat (saved_reg_count ra)}"

definition in_frame :: "AnaRegAlloc \<Rightarrow> mstate \<Rightarrow> u64 \<Rightarrow> bool" where
  "in_frame ra s0 x \<longleftrightarrow> x - (frame_base s0 - of_nat (stack_frame_size ra)) < of_nat (stack_frame_size ra + 8)"

definition x_inv :: "AnaRegAlloc \<Rightarrow> mstate \<Rightarrow> mstate \<Rightarrow> bool" where
  "x_inv ra s0 s \<longleftrightarrow> regs s (rn RBP) = frame_base s0 \<and> regs s (rn RSP) = frame_base s0 - of_nat (stack_frame_size ra)
     \<and> read64 (mem s) (slot_addr (frame_base s0) 0) = regs s0 (rn RBP)
     \<and> (\<forall>i < unat (saved_reg_count ra). read64 (mem s) (slot_addr (frame_base s0) (Suc i)) = regs s0 (rn (saved_reg i)))
     \<and> (\<forall>p. p \<notin> scratch \<union> {RSP, RBP} \<union> x_saved ra \<longrightarrow> regs s (rn p) = regs s0 (rn p))
     \<and> (\<forall>x. \<not> in_frame ra s0 x \<longrightarrow> mem s x = mem s0 x)"

lemma x_inv_same_frame: "same_frame s s' \<Longrightarrow> x_inv ra s0 s \<Longrightarrow> x_inv ra s0 s'"
proof -
  assume f: "same_frame s s'" and i: "x_inv ra s0 s"
  have "RBP \<notin> scratch" "RSP \<notin> scratch"
    by (simp_all add: scratch_def)
  then show ?thesis
    using f i by (simp add: x_inv_def same_frame_def)
qed

lemma saved_count: "ra_ok ra \<Longrightarrow> unat (saved_reg_count ra) \<le> 3"
  by (simp add: ra_ok_def)

lemma slot_in_frame:
  assumes "ra_ok ra" "8 * n \<le> stack_frame_size ra" "\<not> in_frame ra s0 x"
  shows "\<not> x - slot_addr (frame_base s0) n < 8"
proof -
  let ?F = "stack_frame_size ra"
  define y where "y = x - (frame_base s0 - of_nat ?F)"
  have b: "?F \<le> 8256"
    using frame_bound(2) [OF assms(1)] .
  have "x - slot_addr (frame_base s0) n = y - of_nat (?F - 8 * n)"
    using assms(2) by (simp add: y_def slot_addr_def of_nat_diff)
  moreover have "?F + 8 \<le> unat y"
    using assms(3) b by (simp add: in_frame_def y_def [symmetric] word_less_nat_alt unat_of_nat del: of_nat_add)
  moreover have "unat (of_nat (?F - 8 * n) :: u64) = ?F - 8 * n"
    using b by (simp add: unat_of_nat)
  ultimately have "unat (x - slot_addr (frame_base s0) n) = unat y - (?F - 8 * n)" "8 \<le> unat y - (?F - 8 * n)"
    by (simp_all only: unat_sub_if') auto
  then show ?thesis
    by (simp add: word_less_nat_alt)
qed

lemma read_slot_other:
  assumes "n \<noteq> k" "n \<le> 4096" "k \<le> 4096"
  shows "read64 (write64 m (slot_addr bp n) v) (slot_addr bp k) = read64 m (slot_addr bp k)"
  using slot_distance [of n k bp] slot_distance [of k n bp] assms by (intro read_write64_other) auto

lemma x_inv_writes:
  assumes ok: "ra_ok ra" and d: "ir_reg ra d" and w: "writes ra d v s s'" and i: "x_inv ra s0 s"
  shows "x_inv ra s0 s'"
proof (cases "reg_slot ra d")
  case (Inl q)
  have q: "q \<in> x_saved ra" "q \<noteq> RSP" "q \<noteq> RBP"
    using reg_slot_bounds [OF ok, of d] d Inl slot_phys [OF Inl] by (auto simp: ir_reg_def x_saved_def)
  have w': "mem s' = mem s" "\<And>p. p \<notin> insert q scratch \<Longrightarrow> regs s' (rn p) = regs s (rn p)"
    using w Inl by (simp_all add: writes_def)
  moreover have "RBP \<notin> insert q scratch" "RSP \<notin> insert q scratch"
    using q by (auto simp: scratch_def)
  moreover have "regs s' (rn p) = regs s (rn p)" if "p \<notin> scratch" "p \<notin> x_saved ra" for p
    using w'(2) [of p] that q(1) by auto
  ultimately show ?thesis
    using i by (simp add: x_inv_def)
next
  case (Inr n)
  have n: "unat (saved_reg_count ra) < n" "8 * n \<le> stack_frame_size ra" "n \<le> 4096"
    using reg_slot_bounds [OF ok, of d] d Inr slot_spill [OF ok d Inr] by (auto simp: ir_reg_def)
  have w': "mem s' = write64 (mem s) (slot_addr (frame_base s0) n) v" "\<And>p. p \<notin> scratch \<Longrightarrow> regs s' (rn p) = regs s (rn p)"
    using w Inr i by (simp_all add: writes_def x_inv_def)
  moreover have "RBP \<notin> scratch" "RSP \<notin> scratch"
    by (simp_all add: scratch_def)
  moreover have "read64 (mem s') (slot_addr (frame_base s0) k) = read64 (mem s) (slot_addr (frame_base s0) k)" if "k \<le> unat (saved_reg_count ra)" for k
    using read_slot_other [of n k] n that by (simp add: w'(1))
  moreover have "mem s' x = mem s x" if "\<not> in_frame ra s0 x" for x
    using slot_in_frame [OF ok n(2) that] by (simp add: w'(1) write64_def)
  ultimately show ?thesis
    using i by (simp add: x_inv_def)
qed

section \<open>Assignments\<close>

abbreviation x_ra :: "Function \<Rightarrow> AnaRegAlloc" where
  "x_ra \<equiv> allocate_registers"

abbreviation x_insn :: "LowerEnv \<Rightarrow> Function \<Rightarrow> nat \<Rightarrow> Instruction \<Rightarrow> unit emit" where
  "x_insn env fn k i \<equiv> lower_insn (x_env env fn) (next_label fn k) i"

lemma x_env_ra [simp]: "le_ra (x_env env fn) = x_ra fn"
  by (simp add: x_env_def block_env_def)

lemma point_tables: "point env fn E k is e \<Longrightarrow> tables_ok e"
  by (simp add: point_def)

lemma point_less: "point env fn E k is e \<Longrightarrow> k < length (blocks fn)"
  by (simp add: point_def)

lemma x_assigns:
  assumes im: "image E code" "length code < 2 ^ 31" and pt: "point env fn E k (i # is) e"
    and i: "straight (x_ra fn) i" "ir_result i \<rho> = Some v" and s: "rep (x_ra fn) \<rho> s" "x_inv (x_ra fn) s0 s"
  shows "\<exists>n s'. x_run n base code (base + of_nat (length (buf e)), s) = Some (base + of_nat (length (buf (exec (x_insn env fn k i) e))), s')
    \<and> rep (x_ra fn) (\<rho>(op_reg (dest i) := v)) s' \<and> x_inv (x_ra fn) s0 s'"
proof -
  obtain c s' where c: "asm (x_insn env fn k i) () c" "exec_list c s = Some s'" "writes (x_ra fn) (op_reg (dest i)) v s s'"
    using straight_step [of "x_env env fn" i "next_label fn k"] allocate_ok [of fn] i s(1) unfolding x_env_ra by blast
  have d: "ir_reg (x_ra fn) (op_reg (dest i))"
    using i(1) by (auto simp: straight_def)
  show ?thesis
    using run_asm [OF im(1) c(1) point_tables [OF pt] point_app [OF point_insn [OF pt]] c(2)] im(2)
      writes_rep [OF allocate_ok d s(1) c(3)] x_inv_writes [OF allocate_ok d c(3) s(2)]
    by (intro exI [of _ "length c"] exI [of _ s']) simp
qed

section \<open>Jumps\<close>

lemma block_label:
  assumes "block_index (blocks fn) t = Some j"
  shows "get_block_label (x_env env fn) (Some t) = State_Monad.return (of_nat j)"
proof -
  obtain n where "find (\<lambda>(l, _). streq_impl l t) (le_labels (x_env env fn)) = Some (n, x_labels fn ! j)"
    using find_block_label [OF _ assms, of "x_labels fn"] by (auto simp: x_env_def block_env_def x_labels_def)
  then show ?thesis
    using block_index_less [OF assms] by (simp add: get_block_label_def x_labels_def)
qed

lemma x_goto:
  assumes im: "image E code" "length code < 2 ^ 31" and pt: "point env fn E k (i # is) e"
    and i: "op i = GOTO" "target_label i = Some t" "block_index (blocks fn) t = Some j" and d: "distinct_labels (blocks fn)"
    and dst: "point env fn E j js e'" "label_at E (of_nat j) (length (buf e'))" "length (buf e') \<le> length code"
    and last: "is = [] \<or> \<not> (\<exists>l. next_label fn k = Some l \<and> streq_impl l t)"
  shows "(\<exists>n. x_run n base code (base + of_nat (length (buf e)), s) = Some (base + of_nat (length (buf e')), s))
    \<or> is = [] \<and> j = Suc k \<and> Suc k < length (blocks fn) \<and> exec (x_insn env fn k i) e = e"
proof (cases "\<exists>l. next_label fn k = Some l \<and> streq_impl l t")
  case True
  then have "Suc k < length (blocks fn)" "streq_impl (label (blocks fn ! Suc k)) t"
    by (auto simp: next_label_def split: if_splits)
  then show ?thesis
    using block_index_next [OF d i(3)] last True i by (auto simp: lower_insn_def lower_goto_def)
next
  case False
  then have "x_insn env fn k i = jmp_label (of_nat j)"
    using i block_label [OF i(3), of env] by (auto simp: lower_insn_def lower_goto_def split: option.splits)
  then have "app (exec (jmp_label (of_nat j)) e) E"
    using point_app [OF point_insn [OF pt]] by simp
  then show ?thesis
    using run_jmp [OF im(1) point_tables [OF pt] _ dst(2)] dst(3) im(2) by (intro disjI1 exI [of _ 1]) simp
qed

section \<open>Comparisons\<close>

definition cmp_part :: "AnaRegAlloc \<Rightarrow> Instruction \<Rightarrow> unit emit" where
  "cmp_part ra insn = do {
     s1 \<leftarrow> load_operand ra (src1 insn) RAX;
     (if op_kind (src2 insn) = CONST_INT then cmp_reg_imm32 s1 (ucast (op_const (src2 insn)))
      else do { s2 \<leftarrow> load_operand ra (src2 insn) R11; cmp_reg_reg s1 s2 })
   }"

definition jcc_byte :: "Opcode \<Rightarrow> u8" where
  "jcc_byte opc = (if opc = IF_EQ then 0x84 else if opc = IF_NE then 0x85 else if opc = IF_LT then 0x8C else 0x8D)"

definition x_cond :: "Opcode \<Rightarrow> cond" where
  "x_cond opc = (if opc = IF_EQ then C_E else if opc = IF_NE then C_NE else if opc = IF_LT then C_L else C_GE)"

lemma jcc_byte_cond: "cond_of (jcc_byte opc) = Some (x_cond opc)"
  by (simp add: jcc_byte_def x_cond_def)



lemma x_cond_holds: "X86.cond_holds (x_cond opc) (sub_flags a b) \<longleftrightarrow> Ir_Flow.cond_holds opc a b"
proof -
  have "bit (a - b) 63 \<longleftrightarrow> sint (a - b) < 0"
    using bit_last_iff [of "a - b"] by simp
  then have "(bit (a - b) 63 \<noteq> (sint a - sint b \<noteq> sint (a - b))) \<longleftrightarrow> sint a < sint b"
    using sint_diff_flags [of a b] by (metis (no_types))
  then show ?thesis
    by (simp add: x_cond_def sub_flags_def Ir_Flow.cond_holds_def not_less [symmetric]) blast
qed

lemma if_cmp_alt:
  "is_cond (op i) \<Longrightarrow> x_insn env fn k i = do {
     cmp_part (x_ra fn) i;
     l \<leftarrow> get_block_label (x_env env fn) (target_label i);
     emit8 0x0F; emit_branch [jcc_byte (op i)] l True }"
  by (auto simp: is_cond_def lower_insn_def lower_if_cmp_def cmp_part_def jcc_byte_def je_label_def jne_label_def jl_label_def jge_label_def Let_def cong: if_cong)

lemma exec_cmp:
  "exec_insn (ALU_rm_i A_CMP (RReg r) w) s = Some (s\<lparr>flg := Some (sub_flags (regs s r) (scast w))\<rparr>)"
  "exec_insn (ALU_rm_r A_CMP (RReg r) q) s = Some (s\<lparr>flg := Some (sub_flags (regs s r) (regs s q))\<rparr>)"
  by (simp_all add: exec_insn_def set_alu_def set_reg_def)

lemma tables_cmp_part: "tables.keeps (cmp_part ra i)"
  unfolding cmp_part_def by (intro tables.keeps_lower)

lemma x_compare:
  assumes o: "opd_ok ra (src1 i)" "opd_ok ra (src2 i)" "ra_ok ra" and c: "\<And>c. src2 i = OpConst c \<Longrightarrow> norm32 c"
    and s: "rep ra \<rho> s"
  shows "\<exists>is s'. asm (cmp_part ra i) () is \<and> exec_list is s = Some s' \<and> same_frame s s'
    \<and> flg s' = Some (sub_flags (opd_val \<rho> (src1 i)) (opd_val \<rho> (src2 i)))"
proof -
  let ?a = "ld_reg ra (src1 i) RAX" and ?b = "ld_reg ra (src2 i) R11"
  have sc: "RAX \<in> scratch" "R11 \<in> scratch"
    by (simp_all add: scratch_def)
  obtain s1 where s1: "exec_list (ld_code ra (src1 i) RAX) s = Some s1" "same_frame s s1" "regs s1 (rn ?a) = opd_val \<rho> (src1 i)"
    using exec_load [OF o(3,1) s same_frame_refl sc(1)] by blast
  have a: "?a \<noteq> NO_REG" "?a \<in> {RAX, RBX, R12, R13}"
    using ld_reg_ok [OF o(1)] ld_reg_cases [OF o(1)] by auto
  show ?thesis
  proof (cases "\<exists>c. src2 i = OpConst c")
    case True
    then obtain c where k: "src2 i = OpConst c"
      by blast
    have "asm (cmp_part ra i) () (ld_code ra (src1 i) RAX @ [ALU_rm_i A_CMP (RReg (rn ?a)) (ucast c)])"
      unfolding cmp_part_def k by (rule asm_bind [OF asm_load [OF o(3,1)]]) (simp_all add: asm_cmp_reg_imm32 a)
    moreover have "scast (ucast c :: i32) = c"
      using c [OF k] by (simp add: norm32_def)
    ultimately show ?thesis
      using s1 k opd_val_def [of \<rho> "OpConst c"]
      by (intro exI [of _ "ld_code ra (src1 i) RAX @ [ALU_rm_i A_CMP (RReg (rn ?a)) (ucast c)]"]) (simp add: exec_append exec_cmp)
  next
    case False
    then have k: "op_kind (src2 i) \<noteq> CONST_INT"
      using const_kind [OF o(2)] by blast
    obtain s2 where s2: "exec_list (ld_code ra (src2 i) R11) s1 = Some s2" "same_frame s s2" "regs s2 (rn ?b) = opd_val \<rho> (src2 i)"
      "\<And>p. p \<noteq> R11 \<Longrightarrow> regs s2 (rn p) = regs s1 (rn p)"
      using exec_load [OF o(3,2) s s1(2) sc(2)] by blast
    have b: "?b \<noteq> NO_REG"
      using ld_reg_ok [OF o(2)] by simp
    have "asm (cmp_part ra i) () (ld_code ra (src1 i) RAX @ ld_code ra (src2 i) R11 @ [ALU_rm_r A_CMP (RReg (rn ?a)) (rn ?b)])"
      unfolding cmp_part_def if_not_P [OF k]
      by (rule asm_bind [OF asm_load [OF o(3,1)] asm_bind [OF asm_load [OF o(3,2)]]]) (simp_all add: asm_cmp_reg_reg a b)
    moreover have "regs s2 (rn ?a) = opd_val \<rho> (src1 i)"
      using s2(4) [of ?a] s1(3) a(2) by auto
    ultimately show ?thesis
      using s1(1) s2
      by (intro exI [of _ "ld_code ra (src1 i) RAX @ ld_code ra (src2 i) R11 @ [ALU_rm_r A_CMP (RReg (rn ?a)) (rn ?b)]"])
        (simp add: exec_append exec_cmp)
  qed
qed

lemma x_branch:
  assumes im: "image E code" "length code < 2 ^ 31" and pt: "point env fn E k (i # is) e"
    and i: "is_cond (op i)" "opd_ok (x_ra fn) (src1 i)" "opd_ok (x_ra fn) (src2 i)" "\<And>c. src2 i = OpConst c \<Longrightarrow> norm32 c"
    and b: "b = Ir_Flow.cond_holds (op i) (opd_val \<rho> (src1 i)) (opd_val \<rho> (src2 i))"
    and t: "b \<Longrightarrow> \<exists>t j. target_label i = Some t \<and> block_index (blocks fn) t = Some j \<and> label_at E (of_nat j) dst \<and> dst \<le> length code"
    and s: "rep (x_ra fn) \<rho> s" "x_inv (x_ra fn) s0 s"
  shows "\<exists>n s'. x_run n base code (base + of_nat (length (buf e)), s)
      = Some (base + of_nat (if b then dst else length (buf (exec (x_insn env fn k i) e))), s')
    \<and> rep (x_ra fn) \<rho> s' \<and> x_inv (x_ra fn) s0 s'"
proof -
  let ?lab = "get_block_label (x_env env fn) (target_label i)"
  let ?j = "\<lambda>l. emit8 0x0F \<bind> (\<lambda>_. emit_branch [jcc_byte (op i)] l True)"
  define e1 where "e1 = exec (cmp_part (x_ra fn) i) e"
  define l where "l = fst (run_state ?lab e1)"
  define e2 where "e2 = exec ?lab e1"
  have e3: "exec (x_insn env fn k i) e = exec (?j l) e2"
    by (simp add: if_cmp_alt [OF i(1)] e1_def l_def e2_def case_prod_beta)
  have a3: "app (exec (?j l) e2) E"
    using point_app [OF point_insn [OF pt]] by (simp only: e3)
  have "app e2 (exec (?j l) e2)"
    by (intro app.keepsD app.keeps_bind app.keeps_emit8 app.keeps_branch) simp
  then have a2: "app e2 E"
    using a3 app_trans by blast
  have "app e1 e2"
    unfolding e2_def by (intro app.keepsD app.keeps_block_label)
  then have a1: "app e1 E"
    using a2 app_trans by blast
  obtain c s' where c: "asm (cmp_part (x_ra fn) i) () c" "exec_list c s = Some s'" "same_frame s s'"
    "flg s' = Some (sub_flags (opd_val \<rho> (src1 i)) (opd_val \<rho> (src2 i)))"
    using x_compare [OF i(2,3) allocate_ok i(4) s(1)] by blast
  have t1: "tables_ok e1"
    using tables.keepsD [OF tables_cmp_part] point_tables [OF pt] unfolding e1_def by blast
  have t2: "tables_ok e2" "buf e2 = buf e1"
    using t1 tables.keepsD [OF tables.keeps_block_label, of e1 "x_env env fn" "target_label i"] unfolding e2_def
    by (auto simp: get_block_label_def new_label_def split: option.splits)
  have "x_run (length c) base code (base + of_nat (length (buf e)), s) = Some (base + of_nat (length (buf e1)), s')"
    using run_asm [OF im(1) c(1) point_tables [OF pt] a1 [unfolded e1_def] c(2)] im(2) by (simp add: e1_def)
  moreover have "x_run 1 base code (base + of_nat (length (buf e1)), s')
      = Some (base + of_nat (if b then dst else length (buf (exec (x_insn env fn k i) e))), s')"
    unfolding e3 t2(2) [symmetric] b x_cond_holds [symmetric]
  proof (rule run_jcc [OF im(1) t2(1) a3 jcc_byte_cond c(4) _ im(2)])
    assume "X86.cond_holds (x_cond (op i)) (sub_flags (opd_val \<rho> (src1 i)) (opd_val \<rho> (src2 i)))"
    then obtain t j where "target_label i = Some t" "block_index (blocks fn) t = Some j" "label_at E (of_nat j) dst" "dst \<le> length code"
      using t b x_cond_holds by blast
    then show "label_at E l dst \<and> dst < 2 ^ 31"
      using block_label [of fn t j env] im(2) by (simp add: l_def)
  qed
  ultimately show ?thesis
    using x_run_trans rep_same_frame [OF c(3)] x_inv_same_frame [OF c(3)] s by blast
qed

section \<open>Entry\<close>

definition down_slots :: "u64 \<Rightarrow> (nat \<times> u64) list \<Rightarrow> (u64 \<Rightarrow> u8) \<Rightarrow> u64 \<Rightarrow> u8" where
  "down_slots bp ws m = fold (\<lambda>(k, v) m. write64 m (slot_addr bp k) v) ws m"

lemma read_down:
  assumes "distinct (map fst ws)" "\<forall>(k, v) \<in> set ws. k \<le> 4096" "k \<le> 4096"
  shows "read64 (down_slots bp ws m) (slot_addr bp k) = (case map_of ws k of Some v \<Rightarrow> v | None \<Rightarrow> read64 m (slot_addr bp k))"
  using assms
proof (induction ws arbitrary: m)
  case (Cons w ws)
  obtain a v where w: "w = (a, v)"
    by (cases w)
  have "map_of ws a = None"
    using Cons.prems(1) w by (auto simp: map_of_eq_None_iff)
  then show ?case
    using Cons w read_slot_other [of a k m bp v] by (auto simp: down_slots_def read_write64_same split: option.splits)
qed (simp add: down_slots_def)

lemma down_slots_out: "\<forall>(k, v) \<in> set ws. \<not> x - slot_addr bp k < 8 \<Longrightarrow> down_slots bp ws m x = m x"
  by (induction ws arbitrary: m) (auto simp: down_slots_def write64_def)

lemma asm_each:
  assumes "\<And>i. i \<in> set is \<Longrightarrow> asm (f i) () [c i]"
  shows "asm (emit_each f is) () (map c is)"
  using assms
proof (induction "is")
  case (Cons i "is")
  then show ?case
    using asm_bind [of "f i" "()" "[c i]" "\<lambda>_. emit_each f is" "()" "map c is"] by simp
qed (simp add: asm_ret)

lemma exec_stores:
  assumes "\<forall>(k, q) \<in> set ws. k \<le> 4096"
  shows "exec_list (map (\<lambda>(k, q). MOV_rm_r (slot_rm k) (rn q)) ws) s
    = Some (s\<lparr>mem := down_slots (regs s (rn RBP)) (map (\<lambda>(k, q). (k, regs s (rn q))) ws) (mem s)\<rparr>)"
  using assms
proof (induction ws arbitrary: s)
  case (Cons w ws)
  obtain k q where w: "w = (k, q)"
    by (cases w)
  then show ?case
    using Cons slot_rm_addr [of k s] by (simp add: exec_insn_def slot_rm_def down_slots_def)
qed (simp add: down_slots_def)

text \<open>What the prologue stores: saved registers, then parameters.\<close>

definition entry_stores :: "AnaRegAlloc \<Rightarrow> (nat \<times> X86Reg) list" where
  "entry_stores ra = map (\<lambda>i. (Suc i, saved_reg i)) [0..<unat (saved_reg_count ra)]
     @ map (\<lambda>i. (unat (ra_local_count ra) + 1 + i, get_param_raw_reg i)) [0..<unat (ra_param_count ra)]"

definition entry_insns :: "AnaRegAlloc \<Rightarrow> xinsn list" where
  "entry_insns ra = [PUSH (rn RBP), MOV_rm_r (RReg (rn RBP)) (rn RSP), ALU_rm_i A_SUB (RReg (rn RSP)) (of_nat (stack_frame_size ra))]
     @ map (\<lambda>(k, q). MOV_rm_r (slot_rm k) (rn q)) (entry_stores ra)"

lemma param_slot:
  assumes "ra_ok ra" "i < unat (ra_param_count ra)"
  shows "get_param_loc ra (of_nat i) = spill_loc (unat (ra_local_count ra) + 1 + i)"
proof -
  let ?r = "\<lparr>reg_type = PARAM, reg_index = of_nat i\<rparr>"
  have u: "unat (of_nat i :: u32) = i"
    using assms by (simp add: ra_ok_def unat_of_nat)
  then have "live_reg ra ?r"
    using assms(2) by (simp add: live_reg_def word_less_nat_alt)
  then have "get_reg_loc ra ?r = (case reg_slot ra ?r of Inl p \<Rightarrow> phys_loc p | Inr n \<Rightarrow> spill_loc n)"
    using assms(1) by (simp add: ra_ok_def)
  moreover have "reg_slot ra ?r = Inr (unat (ra_local_count ra) + 1 + i)"
    using u by (simp add: reg_slot_def Let_def)
  ultimately show ?thesis
    by (simp add: get_reg_loc_def)
qed

lemma asm_entry:
  assumes "ra_ok ra" "requires_frame ra"
  shows "asm (lower_prologue ra \<bind> (\<lambda>_. lower_save_params ra)) () (entry_insns ra)"
proof -
  have sv: "saved_reg i \<noteq> NO_REG" if "i < unat (saved_reg_count ra)" for i
    using that saved_count [OF assms(1)] by (auto simp: saved_reg_def kAllocatablePhysRegs_def nth_Cons split: nat.splits)
  have "asm (emit_each (\<lambda>i. mov_mem_reg RBP (- saved_reg_disp i) (saved_reg i)) [0..<unat (saved_reg_count ra)]) ()
      (map (\<lambda>i. MOV_rm_r (slot_rm (Suc i)) (rn (saved_reg i))) [0..<unat (saved_reg_count ra)])"
    using asm_mov_mem_reg [of RBP] sv by (intro asm_each) (simp add: slot_rm_def saved_reg_disp_def)
  then have pro: "asm (lower_prologue ra) () ([PUSH (rn RBP)] @ [MOV_rm_r (RReg (rn RBP)) (rn RSP)]
      @ [ALU_rm_i A_SUB (RReg (rn RSP)) (of_nat (stack_frame_size ra))]
      @ map (\<lambda>i. MOV_rm_r (slot_rm (Suc i)) (rn (saved_reg i))) [0..<unat (saved_reg_count ra)])"
    using asm_push_reg [of RBP] asm_mov_reg_reg [of RBP RSP] asm_sub_reg_imm32 [of RSP] assms(2)
    by (simp only: lower_prologue_def if_True) (rule asm_bind | simp)+
  have raw: "get_param_raw_reg i \<noteq> NO_REG" for i
    by (simp add: get_param_raw_reg_def)
  have par: "asm (lower_save_params ra) ()
      (map (\<lambda>i. MOV_rm_r (slot_rm (unat (ra_local_count ra) + 1 + i)) (rn (get_param_raw_reg i))) [0..<unat (ra_param_count ra)])"
    unfolding lower_save_params_def
    using asm_mov_mem_reg [of RBP] raw param_slot [OF assms(1)] by (intro asm_each) (simp add: spill_loc_def slot_rm_def Let_def)
  show ?thesis
    using asm_bind [OF pro par] by (simp add: entry_insns_def entry_stores_def comp_def)
qed

definition entry_slots :: "AnaRegAlloc \<Rightarrow> mstate \<Rightarrow> (nat \<times> u64) list" where
  "entry_slots ra s = (0, regs s (rn RBP)) # map (\<lambda>(k, q). (k, regs s (rn q))) (entry_stores ra)"

lemma entry_slots_ok:
  assumes "ra_ok ra"
  shows "distinct (map fst (entry_slots ra s))" "\<forall>(k, v) \<in> set (entry_slots ra s). k \<le> 4096 \<and> 8 * k \<le> stack_frame_size ra"
proof -
  have sv: "unat (saved_reg_count ra) \<le> unat (ra_local_count ra)" "unat (ra_local_count ra) \<le> 1024" "unat (ra_param_count ra) \<le> 8"
    using assms by (simp_all add: ra_ok_def)
  have f: "map fst (entry_slots ra s) = 0 # map Suc [0..<unat (saved_reg_count ra)] @ map (\<lambda>i. Suc (unat (ra_local_count ra) + i)) [0..<unat (ra_param_count ra)]"
    by (simp add: entry_slots_def entry_stores_def)
  show "distinct (map fst (entry_slots ra s))"
    unfolding f using sv(1) by (auto simp: distinct_map inj_on_def)
  have "8 * (unat (ra_local_count ra) + unat (ra_param_count ra)) \<le> stack_frame_size ra"
    using assms align_up_ge [of 16] by (simp add: ra_ok_def)
  moreover have "k = 0 \<or> k \<le> unat (ra_local_count ra) + unat (ra_param_count ra)" if "k \<in> set (map fst (entry_slots ra s))" for k
    using that sv(1) unfolding f by auto
  ultimately have "k \<le> 4096 \<and> 8 * k \<le> stack_frame_size ra" if "k \<in> set (map fst (entry_slots ra s))" for k
    using that sv(2,3) by fastforce
  then show "\<forall>(k, v) \<in> set (entry_slots ra s). k \<le> 4096 \<and> 8 * k \<le> stack_frame_size ra"
    by force
qed

lemma entry_regs: "(k, q) \<in> set (entry_stores ra) \<Longrightarrow> ra_ok ra \<Longrightarrow> q \<noteq> RBP \<and> q \<noteq> RSP"
  using saved_count [of ra]
  by (auto simp: entry_stores_def saved_reg_def kAllocatablePhysRegs_def get_param_raw_reg_def nth_Cons split: nat.splits if_splits)

lemma exec_entry:
  assumes "ra_ok ra"
  shows "\<exists>s'. exec_list (entry_insns ra) s = Some s' \<and> mem s' = down_slots (frame_base s) (entry_slots ra s) (mem s)
    \<and> regs s' (rn RBP) = frame_base s \<and> regs s' (rn RSP) = frame_base s - of_nat (stack_frame_size ra)
    \<and> (\<forall>p. p \<noteq> RBP \<and> p \<noteq> RSP \<longrightarrow> regs s' (rn p) = regs s (rn p))"
proof -
  let ?F = "stack_frame_size ra"
  define s1 where "s1 = s\<lparr>regs := (regs s)(rn RBP := frame_base s, rn RSP := frame_base s - of_nat ?F),
    mem := write64 (mem s) (frame_base s) (regs s (rn RBP)), flg := Some (sub_flags (frame_base s) (of_nat ?F))\<rparr>"
  have F: "scast (of_nat ?F :: i32) = (of_nat ?F :: u64)"
    using frame_bound(2) [OF assms] sint_of_int_range [of "int ?F"] by (simp add: scast_eq)
  have e1: "exec_list [PUSH (rn RBP), MOV_rm_r (RReg (rn RBP)) (rn RSP), ALU_rm_i A_SUB (RReg (rn RSP)) (of_nat ?F)] s = Some s1"
    by (simp add: exec_insn_def set_alu_def set_reg_def s1_def frame_base_def F fun_upd_twist reg_num.simps)
  have r1: "regs s1 (rn RBP) = frame_base s" "regs s1 (rn RSP) = frame_base s - of_nat ?F"
    "\<And>p. p \<noteq> RBP \<Longrightarrow> p \<noteq> RSP \<Longrightarrow> regs s1 (rn p) = regs s (rn p)"
    by (simp_all add: s1_def reg_num_inj)
  have b: "\<forall>(k, q) \<in> set (entry_stores ra). k \<le> 4096"
    using entry_slots_ok(2) [OF assms, of s] by (force simp: entry_slots_def)
  have ws: "map (\<lambda>(k, q). (k, regs s1 (rn q))) (entry_stores ra) = map (\<lambda>(k, q). (k, regs s (rn q))) (entry_stores ra)"
    using entry_regs [OF _ assms] r1(3) by auto
  have "down_slots (frame_base s) (map (\<lambda>(k, q). (k, regs s1 (rn q))) (entry_stores ra)) (mem s1)
      = down_slots (frame_base s) (entry_slots ra s) (mem s)"
    unfolding ws by (simp add: down_slots_def entry_slots_def s1_def slot_addr_def)
  then have "exec_list (entry_insns ra) s = Some (s1\<lparr>mem := down_slots (frame_base s) (entry_slots ra s) (mem s)\<rparr>)"
    unfolding entry_insns_def exec_append e1 option.case using exec_stores [OF b, of s1] r1(1) by simp
  then show ?thesis
    using r1 by simp
qed

text \<open>Arguments in their registers; locals hold what their register or stack slot holds.\<close>

definition x_called :: "Function \<Rightarrow> (Register \<Rightarrow> u64) \<Rightarrow> mstate \<Rightarrow> bool" where
  "x_called fn \<rho> s \<longleftrightarrow> (\<forall>r. ir_reg (x_ra fn) r \<longrightarrow> \<rho> r =
     (if reg_type r = PARAM then regs s (rn (get_param_raw_reg (unat (reg_index r))))
      else case reg_slot (x_ra fn) r of Inl p \<Rightarrow> regs s (rn p) | Inr n \<Rightarrow> read64 (mem s) (slot_addr (frame_base s) n)))"

lemma entry_lookup:
  assumes "ra_ok ra" "ir_reg ra r" "reg_slot ra r = Inr n"
  shows "map_of (entry_slots ra s) n = (if reg_type r = PARAM then Some (regs s (rn (get_param_raw_reg (unat (reg_index r))))) else None)"
proof (cases "reg_type r = PARAM")
  case True
  have "min l 3 + (l - 3) = l" for l :: nat
    by simp
  then have "n = unat (ra_local_count ra) + 1 + unat (reg_index r)" "unat (reg_index r) < unat (ra_param_count ra)"
    using True assms(2,3) by (auto simp: reg_slot_def Let_def ir_reg_def live_reg_def word_less_nat_alt)
  then have "(n, regs s (rn (get_param_raw_reg (unat (reg_index r))))) \<in> set (entry_slots ra s)"
    by (force simp: entry_slots_def entry_stores_def)
  then show ?thesis
    using map_of_is_SomeI [OF entry_slots_ok(1) [OF assms(1)]] True by simp
next
  case False
  then have "3 < n" "n \<le> unat (ra_local_count ra)"
    using assms(2,3) by (auto simp: reg_slot_def Let_def ir_reg_def live_reg_def word_less_nat_alt split: if_splits)
  then have "n \<notin> fst ` set (entry_slots ra s)"
    using saved_count [OF assms(1)] by (auto simp: entry_slots_def entry_stores_def)
  then show ?thesis
    using False by (simp add: map_of_eq_None_iff)
qed

lemma x_entered:
  assumes ok: "ra_ok (x_ra fn)" and c: "x_called fn \<rho> s"
  shows "\<exists>s'. exec_list (entry_insns (x_ra fn)) s = Some s' \<and> rep (x_ra fn) \<rho> s' \<and> x_inv (x_ra fn) s s'"
proof -
  let ?ra = "x_ra fn" and ?ws = "entry_slots (x_ra fn) s"
  obtain s' where s': "exec_list (entry_insns ?ra) s = Some s'" "mem s' = down_slots (frame_base s) ?ws (mem s)"
    "regs s' (rn RBP) = frame_base s" "regs s' (rn RSP) = frame_base s - of_nat (stack_frame_size ?ra)"
    "\<And>p. p \<noteq> RBP \<Longrightarrow> p \<noteq> RSP \<Longrightarrow> regs s' (rn p) = regs s (rn p)"
    using exec_entry [OF ok, of s] by blast
  note w = entry_slots_ok [OF ok, of s]
  have rd: "read64 (mem s') (slot_addr (frame_base s) k) = (case map_of ?ws k of Some v \<Rightarrow> v | None \<Rightarrow> read64 (mem s) (slot_addr (frame_base s) k))"
    if "k \<le> 4096" for k
    unfolding s'(2) using w that by (intro read_down) auto
  have "rep ?ra \<rho> s'"
    unfolding rep_def
  proof (intro allI impI)
    fix r
    assume r: "ir_reg ?ra r"
    show "val_at (reg_slot ?ra r) s' = \<rho> r"
    proof (cases "reg_slot ?ra r")
      case (Inl p)
      then have "reg_type r \<noteq> PARAM" "p \<noteq> RBP" "p \<noteq> RSP"
        using slot_phys [OF Inl] by (auto simp: reg_slot_def Let_def)
      then show ?thesis
        using c r Inl s'(5) [of p] by (simp add: val_at_def x_called_def)
    next
      case (Inr n)
      then show ?thesis
        using c r s'(3) rd [OF slot_spill [OF ok r Inr]] entry_lookup [OF ok r Inr, of s]
        by (simp add: val_at_def x_called_def)
    qed
  qed
  moreover have "x_inv ?ra s s'"
    unfolding x_inv_def
  proof (intro conjI allI impI)
    show "read64 (mem s') (slot_addr (frame_base s) 0) = regs s (rn RBP)"
      using rd [of 0] by (simp add: entry_slots_def)
    show "read64 (mem s') (slot_addr (frame_base s) (Suc i)) = regs s (rn (saved_reg i))" if "i < unat (saved_reg_count ?ra)" for i
    proof -
      have "(Suc i, regs s (rn (saved_reg i))) \<in> set ?ws"
        using that by (force simp: entry_slots_def entry_stores_def)
      then show ?thesis
        using rd [of "Suc i"] map_of_is_SomeI [OF w(1)] w(2) by auto
    qed
    show "mem s' x = mem s x" if "\<not> in_frame ?ra s x" for x
      unfolding s'(2) using slot_in_frame [OF ok _ that] w(2) by (intro down_slots_out) auto
  qed (use s' in auto)
  ultimately show ?thesis
    using s'(1) by blast
qed

section \<open>Return\<close>

definition restore_part :: "AnaRegAlloc \<Rightarrow> unit emit" where
  "restore_part ra = do {
     emit_each (\<lambda>i. mov_reg_mem (saved_reg i) RBP (- saved_reg_disp i)) [0..<unat (saved_reg_count ra)];
     mov_reg_reg RSP RBP;
     pop_reg RBP
   }"

definition restore_insns :: "AnaRegAlloc \<Rightarrow> xinsn list" where
  "restore_insns ra = map (\<lambda>i. MOV_r_rm (rn (saved_reg i)) (slot_rm (Suc i))) [0..<unat (saved_reg_count ra)]
     @ [MOV_rm_r (RReg (rn RSP)) (rn RBP)] @ [POP (rn RBP)]"

lemma saved_reg_some: "i < 3 \<Longrightarrow> saved_reg i \<in> {RBX, R12, R13}"
  by (auto simp: saved_reg_def kAllocatablePhysRegs_def nth_Cons split: nat.splits)

lemma saved_regs_some: "n \<le> 3 \<Longrightarrow> saved_reg ` {..<n} \<subseteq> {RBX, R12, R13}"
  by (rule image_subsetI, rule saved_reg_some) simp

lemma asm_restore:
  assumes "ra_ok ra"
  shows "asm (restore_part ra) () (restore_insns ra)"
proof -
  have "saved_reg i \<noteq> NO_REG" if "i < unat (saved_reg_count ra)" for i
    using that saved_count [OF assms] saved_reg_some [of i] by auto
  then have "asm (emit_each (\<lambda>i. mov_reg_mem (saved_reg i) RBP (- saved_reg_disp i)) [0..<unat (saved_reg_count ra)]) ()
      (map (\<lambda>i. MOV_r_rm (rn (saved_reg i)) (slot_rm (Suc i))) [0..<unat (saved_reg_count ra)])"
    using asm_mov_reg_mem [of _ RBP] by (intro asm_each) (simp add: slot_rm_def saved_reg_disp_def)
  then show ?thesis
    unfolding restore_part_def restore_insns_def using asm_mov_reg_reg [of RSP RBP] asm_pop_reg [of RBP]
    by (intro asm_bind) simp_all
qed

lemma exec_restores:
  assumes "n \<le> 3"
  shows "\<exists>s'. exec_list (map (\<lambda>i. MOV_r_rm (rn (saved_reg i)) (slot_rm (Suc i))) [0..<n]) s = Some s' \<and> mem s' = mem s
    \<and> (\<forall>i < n. regs s' (rn (saved_reg i)) = read64 (mem s) (slot_addr (regs s (rn RBP)) (Suc i)))
    \<and> (\<forall>p. p \<notin> saved_reg ` {..<n} \<longrightarrow> regs s' (rn p) = regs s (rn p))"
  using assms
proof (induction n)
  case (Suc n)
  then obtain s1 where s1: "exec_list (map (\<lambda>i. MOV_r_rm (rn (saved_reg i)) (slot_rm (Suc i))) [0..<n]) s = Some s1" "mem s1 = mem s"
    "\<And>i. i < n \<Longrightarrow> regs s1 (rn (saved_reg i)) = read64 (mem s) (slot_addr (regs s (rn RBP)) (Suc i))"
    "\<And>p. p \<notin> saved_reg ` {..<n} \<Longrightarrow> regs s1 (rn p) = regs s (rn p)"
    by auto
  have "RBP \<notin> saved_reg ` {..<n}"
    using saved_regs_some [of n] Suc.prems by auto
  then have bp: "regs s1 (rn RBP) = regs s (rn RBP)"
    using s1(4) by blast
  have inj: "saved_reg i \<noteq> saved_reg n" if "i < n" for i
    using that Suc.prems allocatable_inj [of i n] by (simp add: saved_reg_def)
  show ?case
    using s1 inj slot_rm_addr [of "Suc n" s1] Suc.prems
    by (auto simp: exec_append exec_insn_def slot_rm_def set_reg_def bp reg_num_inj less_Suc_eq lessThan_Suc)
qed simp

text \<open>What the caller sees after the return.\<close>

definition x_returned :: "AnaRegAlloc \<Rightarrow> mstate \<Rightarrow> u64 option \<Rightarrow> mstate \<Rightarrow> bool" where
  "x_returned ra s0 res s \<longleftrightarrow> regs s (rn RSP) = regs s0 (rn RSP) + 8 \<and> (\<forall>v. res = Some v \<longrightarrow> regs s (rn RAX) = v)
     \<and> (\<forall>p. p \<notin> {RAX, RCX, R11, RSP} \<longrightarrow> regs s (rn p) = regs s0 (rn p)) \<and> (\<forall>x. \<not> in_frame ra s0 x \<longrightarrow> mem s x = mem s0 x)"

lemma return_address_kept:
  assumes "ra_ok ra" "x_inv ra s0 s"
  shows "read64 (mem s) (regs s0 (rn RSP)) = read64 (mem s0) (regs s0 (rn RSP))"
proof -
  have F: "stack_frame_size ra \<le> 8256"
    using frame_bound(2) [OF assms(1)] .
  have "\<not> in_frame ra s0 (regs s0 (rn RSP) + of_nat i)" if "i < 8" for i
  proof -
    have "regs s0 (rn RSP) + of_nat i - (frame_base s0 - of_nat (stack_frame_size ra)) = (of_nat (stack_frame_size ra + 8 + i) :: u64)"
      by (simp add: frame_base_def)
    then show ?thesis
      using F that unfolding in_frame_def by (simp only: word_less_nat_alt unat_of_nat) simp
  qed
  then have "mem s (regs s0 (rn RSP) + of_nat i) = mem s0 (regs s0 (rn RSP) + of_nat i)" if "i < 8" for i
    using that assms(2) by (simp add: x_inv_def)
  then show ?thesis
    unfolding read64_def by (intro arg_cong [where f = "of_nbytes 8"] map_cong) auto
qed

lemma exec_restore:
  assumes ok: "ra_ok ra" and i: "x_inv ra s0 s" and v: "\<And>v. res = Some v \<Longrightarrow> regs s (rn RAX) = v"
  shows "\<exists>s'. exec_list (restore_insns ra) s = Some s' \<and> regs s' (rn RSP) = regs s0 (rn RSP) \<and> mem s' = mem s
    \<and> x_returned ra s0 res (set_reg (rn RSP) (regs s' (rn RSP) + 8) s')"
proof -
  let ?n = "unat (saved_reg_count ra)"
  obtain s1 where s1: "exec_list (map (\<lambda>i. MOV_r_rm (rn (saved_reg i)) (slot_rm (Suc i))) [0..<?n]) s = Some s1" "mem s1 = mem s"
    "\<And>i. i < ?n \<Longrightarrow> regs s1 (rn (saved_reg i)) = read64 (mem s) (slot_addr (regs s (rn RBP)) (Suc i))"
    "\<And>p. p \<notin> x_saved ra \<Longrightarrow> regs s1 (rn p) = regs s (rn p)"
    using exec_restores [OF saved_count [OF ok], of s] by (auto simp: x_saved_def)
  have sv: "x_saved ra \<subseteq> {RBX, R12, R13}"
    using saved_regs_some [OF saved_count [OF ok]] by (simp add: x_saved_def)
  have bp: "regs s1 (rn RBP) = frame_base s0"
    using s1(4) [of RBP] sv i by (auto simp: x_inv_def)
  have inv: "read64 (mem s) (frame_base s0) = regs s0 (rn RBP)"
    "\<And>i. i < ?n \<Longrightarrow> read64 (mem s) (slot_addr (frame_base s0) (Suc i)) = regs s0 (rn (saved_reg i))"
    using i by (simp_all add: x_inv_def slot_addr_def)
  define s2 where "s2 = s1\<lparr>regs := (regs s1)(rn RSP := frame_base s0 + 8, rn RBP := regs s0 (rn RBP))\<rparr>"
  have e2: "exec_list ([MOV_rm_r (RReg (rn RSP)) (rn RBP)] @ [POP (rn RBP)]) s1 = Some s2"
    using bp inv(1) s1(2) by (simp add: exec_insn_def set_reg_def s2_def reg_num.simps)
  have r2: "regs s2 (rn p) = (if p = RBP then regs s0 (rn RBP) else if p = RSP then frame_base s0 + 8 else regs s1 (rn p))" for p
    by (simp add: s2_def reg_num_inj)
  have keep: "regs s2 (rn p) = regs s0 (rn p)" if "p \<notin> {RAX, RCX, R11, RSP}" for p
  proof (cases "p \<in> x_saved ra")
    case True
    then obtain j where j: "j < ?n" "p = saved_reg j"
      by (auto simp: x_saved_def)
    moreover have "p \<noteq> RBP" "p \<noteq> RSP"
      using True sv by auto
    ultimately show ?thesis
      using s1(3) [OF j(1)] inv(2) [OF j(1)] i by (simp add: r2 x_inv_def)
  next
    case False
    then show ?thesis
      using that s1(4) [OF False] i by (auto simp: r2 x_inv_def scratch_def)
  qed
  have rx: "regs s2 (rn RAX) = regs s (rn RAX)" "regs s2 (rn RSP) = regs s0 (rn RSP)" "mem s2 = mem s"
    using s1(4) [of RAX] sv by (auto simp: r2 frame_base_def) (simp add: s2_def s1(2))
  have "mem s x = mem s0 x" if "\<not> in_frame ra s0 x" for x
    using i that by (simp add: x_inv_def)
  then have "x_returned ra s0 res (set_reg (rn RSP) (regs s2 (rn RSP) + 8) s2)"
    using keep v rx by (simp add: x_returned_def set_reg_def reg_num_inj)
  moreover have "exec_list (restore_insns ra) s = Some s2"
    unfolding restore_insns_def exec_append s1(1) option.case using e2 by (simp only: exec_append)
  ultimately show ?thesis
    using rx by blast
qed

definition value_part :: "AnaRegAlloc \<Rightarrow> Instruction \<Rightarrow> unit emit" where
  "value_part ra i =
     (if op i = RETURN_VAL then do {
        r \<leftarrow> load_operand ra (src1 i) RAX;
        (if r \<noteq> RAX then mov_reg_reg RAX r else skip_emit)
      } else skip_emit)"

lemma return_alt:
  "op i = RETURN_VAL \<or> op i = RETURN_VOID \<Longrightarrow> requires_frame (x_ra fn) \<Longrightarrow>
   x_insn env fn k i = do { value_part (x_ra fn) i; restore_part (x_ra fn); ret }"
  by (auto simp: lower_insn_def lower_return_val_def lower_epilogue_def value_part_def restore_part_def Let_def cong: if_cong)

lemma x_value:
  assumes "ra_ok ra" "rep ra \<rho> s"
    and "op i = RETURN_VAL \<and> opd_ok ra (src1 i) \<and> res = Some (opd_val \<rho> (src1 i)) \<or> op i = RETURN_VOID \<and> res = None"
  shows "\<exists>is s'. asm (value_part ra i) () is \<and> exec_list is s = Some s' \<and> same_frame s s' \<and> (\<forall>v. res = Some v \<longrightarrow> regs s' (rn RAX) = v)"
proof (cases "op i = RETURN_VAL")
  case True
  let ?r = "ld_reg ra (src1 i) RAX"
  have o: "opd_ok ra (src1 i)" "res = Some (opd_val \<rho> (src1 i))"
    using assms(3) True by auto
  have sc: "RAX \<in> scratch"
    by (simp add: scratch_def)
  obtain s1 where s1: "exec_list (ld_code ra (src1 i) RAX) s = Some s1" "same_frame s s1" "regs s1 (rn ?r) = opd_val \<rho> (src1 i)"
    using exec_load [OF assms(1) o(1) assms(2) same_frame_refl sc] by blast
  obtain s2 where s2: "exec_list (mv_code RAX ?r) s1 = Some s2" "mem s2 = mem s1" "regs s2 (rn RAX) = regs s1 (rn ?r)"
    "\<And>p. p \<noteq> RAX \<Longrightarrow> regs s2 (rn p) = regs s1 (rn p)"
    using exec_mv [of RAX ?r s1] by auto
  have "asm (value_part ra i) () (ld_code ra (src1 i) RAX @ mv_code RAX ?r)"
    unfolding value_part_def if_P [OF True]
    by (rule asm_bind [OF asm_load [OF assms(1) o(1)]]) (simp_all add: asm_mv_unless ld_reg_ok [OF o(1)] del: if_not_P)
  moreover have "same_frame s s2"
    using s1(2) s2(2,4) by (auto simp: same_frame_def scratch_def)
  ultimately show ?thesis
    using s1(1,3) s2(1,3) o(2) by (intro exI [of _ "ld_code ra (src1 i) RAX @ mv_code RAX ?r"]) (simp add: exec_append)
next
  case False
  then show ?thesis
    using assms(3) asm_ret [of "()"] by (intro exI [of _ "[]"]) (simp add: value_part_def)
qed

lemma return_parts_kept:
  "tables.keeps (value_part ra i)" "tables.keeps (restore_part ra)" "app.keeps (restore_part ra)" "app.keeps ret"
  unfolding value_part_def restore_part_def
  by (intro tables.keeps_lower tables.keeps_emit_each app.keeps_lower app.keeps_emit_each)+

lemma x_returns:
  assumes im: "image E code" "length code < 2 ^ 31" and pt: "point env fn E k (i # is) e" and f: "requires_frame (x_ra fn)"
    and i: "op i = RETURN_VAL \<and> opd_ok (x_ra fn) (src1 i) \<and> res = Some (opd_val \<rho> (src1 i)) \<or> op i = RETURN_VOID \<and> res = None"
    and s: "rep (x_ra fn) \<rho> s" "x_inv (x_ra fn) s0 s"
  shows "\<exists>n s'. x_run n base code (base + of_nat (length (buf e)), s) = Some (read64 (mem s0) (regs s0 (rn RSP)), s')
    \<and> x_returned (x_ra fn) s0 res s'"
proof -
  let ?ra = "x_ra fn"
  define e1 where "e1 = exec (value_part ?ra i) e"
  define e2 where "e2 = exec (restore_part ?ra) e1"
  have "exec (x_insn env fn k i) e = exec ret e2"
    using return_alt [OF _ f, of i env k] i by (auto simp: e1_def e2_def case_prod_beta)
  then have a3: "app (exec ret e2) E"
    using point_app [OF point_insn [OF pt]] by simp
  have a2: "app e2 E"
    using app_trans [OF app.keepsD [OF return_parts_kept(4)] a3] .
  have a1: "app e1 E"
    using app_trans [OF app.keepsD [OF return_parts_kept(3)] a2 [unfolded e2_def]] .
  have t1: "tables_ok e1" and t2: "tables_ok e2"
    using point_tables [OF pt] tables.keepsD [OF return_parts_kept(1)] tables.keepsD [OF return_parts_kept(2)]
    unfolding e1_def e2_def by blast+
  obtain c1 s1 where c1: "asm (value_part ?ra i) () c1" "exec_list c1 s = Some s1" "same_frame s s1" "\<And>v. res = Some v \<Longrightarrow> regs s1 (rn RAX) = v"
    using x_value [OF allocate_ok s(1) i] by blast
  have i1: "x_inv ?ra s0 s1"
    using x_inv_same_frame [OF c1(3) s(2)] .
  obtain s2 where s2: "exec_list (restore_insns ?ra) s1 = Some s2" "regs s2 (rn RSP) = regs s0 (rn RSP)" "mem s2 = mem s1"
    "x_returned ?ra s0 res (set_reg (rn RSP) (regs s2 (rn RSP) + 8) s2)"
    using exec_restore [OF allocate_ok i1 c1(4)] by blast
  have len: "length code < 2 ^ 64"
    using im(2) by simp
  have "x_run (length c1) base code (base + of_nat (length (buf e)), s) = Some (base + of_nat (length (buf e1)), s1)"
    using run_asm [OF im(1) c1(1) point_tables [OF pt] a1 [unfolded e1_def] c1(2) len] by (simp add: e1_def)
  moreover have "x_run (length (restore_insns ?ra)) base code (base + of_nat (length (buf e1)), s1) = Some (base + of_nat (length (buf e2)), s2)"
    using run_asm [OF im(1) asm_restore [OF allocate_ok] t1 a2 [unfolded e2_def] s2(1) len] by (simp add: e2_def)
  moreover have "x_run 1 base code (base + of_nat (length (buf e2)), s2)
      = Some (read64 (mem s0) (regs s0 (rn RSP)), set_reg (rn RSP) (regs s2 (rn RSP) + 8) s2)"
    using run_ret [OF im(1) t2 a3 len, of base s2] return_address_kept [OF allocate_ok i1] s2(2,3) by (simp add: reg_num.simps)
  ultimately show ?thesis
    using x_run_trans s2(4) by blast
qed

section \<open>Functions\<close>

text \<open>
  A jump to the block that follows is left out, wherever it stands in its block; code after it
  would run.
\<close>

fun jumps_last :: "string option \<Rightarrow> Instruction list \<Rightarrow> bool" where
  "jumps_last nxt [] = True"
| "jumps_last nxt (i # is) = ((case (nxt, target_label i) of (Some l, Some t) \<Rightarrow> op i = GOTO \<and> streq_impl l t \<longrightarrow> is = [] | _ \<Rightarrow> True) \<and> jumps_last nxt is)"

definition x_plain :: "Instruction \<Rightarrow> bool" where
  "x_plain i \<longleftrightarrow> plain_straight i \<or> op i = GOTO \<or> op i = RETURN_VOID \<or> op i = RETURN_VAL \<and> plain_opd (src1 i)
     \<or> is_cond (op i) \<and> plain_opd (src1 i) \<and> plain_opd (src2 i) \<and> (case src2 i of OpConst c \<Rightarrow> norm32 c | _ \<Rightarrow> True)"

definition x_shape :: "Function \<Rightarrow> bool" where
  "x_shape fn \<longleftrightarrow> blocks fn \<noteq> [] \<and> distinct_labels (blocks fn) \<and> max_local fn < 0xFFFFFFFF
     \<and> unat (ra_param_count (x_ra fn)) \<le> 6 \<and> list_all x_plain (all_insns fn)"

definition x_jumps :: "Function \<Rightarrow> bool" where
  "x_jumps fn \<longleftrightarrow> list_all (\<lambda>k. jumps_last (next_label fn k) (insns (blocks fn ! k))) [0..<length (blocks fn)]"

definition x_function :: "Function \<Rightarrow> bool" where
  "x_function fn \<longleftrightarrow> x_shape fn \<and> x_jumps fn"

lemmas x_function_defs = x_function_def x_shape_def x_jumps_def

lemma jumps_last_exits: "\<forall>i \<in> set (butlast is). op i \<noteq> GOTO \<Longrightarrow> jumps_last nxt is"
  by (induction "is") (auto split: option.splits if_splits)

lemma jumps_last_suffix:
  "jumps_last nxt js \<Longrightarrow> suffix (i # is) js \<Longrightarrow> op i = GOTO \<Longrightarrow> target_label i = Some t \<Longrightarrow>
   is = [] \<or> \<not> (\<exists>l. nxt = Some l \<and> streq_impl l t)"
  by (induction js) (auto simp: suffix_Cons split: option.splits)

lemma x_requires_frame: "max_local fn < 0xFFFFFFFF \<Longrightarrow> requires_frame (x_ra fn)"
proof -
  assume m: "max_local fn < 0xFFFFFFFF"
  have "max_local fn + 1 \<noteq> 0"
  proof
    assume "max_local fn + 1 = 0"
    then have "max_local fn = - 1"
      by (simp add: eq_neg_iff_add_eq_0)
    with m show False
      by simp
  qed
  then have "ra_local_count (x_ra fn) \<noteq> 0"
    by (simp add: local_count_eq kMaxLocals_def)
  then show ?thesis
    using allocate_ok [of fn] by (auto simp: ra_ok_def)
qed

text \<open>Executions of the image follow the reference semantics.\<close>

definition x_matches :: "LowerEnv \<Rightarrow> Function \<Rightarrow> AnaEncoder \<Rightarrow> u64 \<Rightarrow> mstate \<Rightarrow> ir_conf \<Rightarrow> u64 \<times> mstate \<Rightarrow> bool" where
  "x_matches env fn E base s0 conf c \<longleftrightarrow>
     (case conf of
        Running k is \<rho> \<Rightarrow> suffix is (insns (blocks fn ! k))
          \<and> (\<exists>e. point env fn E k is e \<and> fst c = base + of_nat (length (buf e))) \<and> rep (x_ra fn) \<rho> (snd c) \<and> x_inv (x_ra fn) s0 (snd c)
      | Returned res \<Rightarrow> fst c = read64 (mem s0) (regs s0 (rn RSP)) \<and> x_returned (x_ra fn) s0 res (snd c))"

lemma suffix_insn: "suffix (i # is) (insns (blocks fn ! k)) \<Longrightarrow> k < length (blocks fn) \<Longrightarrow> i \<in> set (all_insns fn)"
  using set_mono_suffix [of "i # is" "insns (blocks fn ! k)"] by (auto simp: all_insns_def intro!: bexI [of _ "blocks fn ! k"])

lemma x_opd: "x_function fn \<Longrightarrow> i \<in> set (all_insns fn) \<Longrightarrow> opd \<in> {dest i, src1 i, src2 i} \<Longrightarrow> plain_opd opd \<Longrightarrow> opd_ok (x_ra fn) opd"
  using fn_opd_ok by (auto simp: x_function_defs)

lemma x_insn_plain: "x_function fn \<Longrightarrow> i \<in> set (all_insns fn) \<Longrightarrow> x_plain i"
  by (simp add: x_function_defs list_all_iff)

lemma plain_straight_op: "plain_straight i \<Longrightarrow> op i \<noteq> GOTO \<and> op i \<noteq> RETURN_VAL \<and> op i \<noteq> RETURN_VOID \<and> \<not> is_cond (op i)"
  by (auto simp: plain_straight_def lowered_alu_def is_cond_def)

lemma x_plain_operands:
  "x_plain i \<Longrightarrow> is_cond (op i) \<Longrightarrow> plain_opd (src1 i) \<and> plain_opd (src2 i) \<and> (\<forall>c. src2 i = OpConst c \<longrightarrow> norm32 c)"
  "x_plain i \<Longrightarrow> op i = RETURN_VAL \<Longrightarrow> plain_opd (src1 i)"
  using plain_straight_op [of i] unfolding x_plain_def by (elim disjE conjE; auto simp: is_cond_def)+

lemma x_operands:
  assumes "x_function fn" "i \<in> set (all_insns fn)"
  shows "is_cond (op i) \<Longrightarrow> opd_ok (x_ra fn) (src1 i)" "is_cond (op i) \<Longrightarrow> opd_ok (x_ra fn) (src2 i)"
    "is_cond (op i) \<Longrightarrow> src2 i = OpConst c \<Longrightarrow> norm32 c" "op i = RETURN_VAL \<Longrightarrow> opd_ok (x_ra fn) (src1 i)"
  using x_plain_operands [OF x_insn_plain [OF assms]] x_opd [OF assms] by blast+

text \<open>The image of a function, with a point and a label for each of its blocks.\<close>

definition linked :: "LowerEnv \<Rightarrow> Function \<Rightarrow> AnaEncoder \<Rightarrow> bytes \<Rightarrow> bool" where
  "linked env fn E code \<longleftrightarrow> x_function fn \<and> image E code \<and> length code < 2 ^ 31
     \<and> (\<forall>j < length (blocks fn). \<exists>e. point env fn E j (insns (blocks fn ! j)) e \<and> label_at E (of_nat j) (length (buf e)))"

lemma linkedD:
  assumes "linked env fn E code"
  shows "x_function fn" "image E code" "length code < 2 ^ 31"
    "block_index (blocks fn) t = Some j \<Longrightarrow> \<exists>e. point env fn E j (insns (blocks fn ! j)) e \<and> label_at E (of_nat j) (length (buf e))"
  using assms block_index_less by (auto simp: linked_def)

lemma linked_bound: "linked env fn E code \<Longrightarrow> point env fn E k is e \<Longrightarrow> length (buf e) \<le> length code"
  using app_image(2) [of E code e] image_resolved(1) [of E code] point_app prefix_length_le by (fastforce simp: linked_def)

lemma matches_block:
  "point env fn E j (insns (blocks fn ! j)) e \<Longrightarrow> rep (x_ra fn) \<rho> s \<Longrightarrow> x_inv (x_ra fn) s0 s \<Longrightarrow>
   x_matches env fn E base s0 (Running j (insns (blocks fn ! j)) \<rho>) (base + of_nat (length (buf e)), s)"
  by (auto simp: x_matches_def)

lemma matches_later:
  "point env fn E k (i # is) e \<Longrightarrow> suffix (i # is) (insns (blocks fn ! k)) \<Longrightarrow> rep (x_ra fn) \<rho> s \<Longrightarrow> x_inv (x_ra fn) s0 s \<Longrightarrow>
   x_matches env fn E base s0 (Running k is \<rho>) (base + of_nat (length (buf (exec (x_insn env fn k i) e))), s)"
  using point_insn [of env fn E k i "is" e] by (auto simp: x_matches_def dest: suffix_ConsD)

lemma matches_head:
  assumes "x_matches env fn E base s0 (Running k (i # is) \<rho>) cc"
  obtains e s where "cc = (base + of_nat (length (buf e)), s)" "point env fn E k (i # is) e" "suffix (i # is) (insns (blocks fn ! k))"
    "rep (x_ra fn) \<rho> s" "x_inv (x_ra fn) s0 s" "i \<in> set (all_insns fn)"
  using assms suffix_insn [of i "is" fn k] by (cases cc) (auto simp: x_matches_def dest: point_less)

lemma x_sim_assign:
  assumes l: "linked env fn E code" and m: "x_matches env fn E base s0 (Running k (i # is) \<rho>) cc" and v: "ir_result i \<rho> = Some v"
  shows "\<exists>m cc'. x_run m base code cc = Some cc' \<and> x_matches env fn E base s0 (Running k is (\<rho>(op_reg (dest i) := v))) cc'"
proof -
  obtain e s where e: "cc = (base + of_nat (length (buf e)), s)" "point env fn E k (i # is) e" "suffix (i # is) (insns (blocks fn ! k))"
    "rep (x_ra fn) \<rho> s" "x_inv (x_ra fn) s0 s" "i \<in> set (all_insns fn)"
    using matches_head [OF m] .
  have "plain_straight i"
    using x_insn_plain [OF linkedD(1) [OF l] e(6)] ir_result_control [of i \<rho>] v by (auto simp: x_plain_def)
  then have "straight (x_ra fn) i"
    using fn_straight [OF e(6)] linkedD(1) [OF l] by (simp add: x_function_defs)
  then show ?thesis
    using x_assigns [OF linkedD(2,3) [OF l] e(2) _ v e(4,5), of base] matches_later [OF e(2,3)] unfolding e(1) by blast
qed

lemma x_sim_fall:
  assumes "x_matches env fn E base s0 (Running k [] \<rho>) cc" "Suc k < length (blocks fn)"
  shows "x_matches env fn E base s0 (Running (Suc k) (insns (blocks fn ! Suc k)) \<rho>) cc"
proof -
  obtain e where "point env fn E k [] e" "fst cc = base + of_nat (length (buf e))"
    using assms(1) by (auto simp: x_matches_def)
  then obtain e' where "point env fn E (Suc k) (insns (blocks fn ! Suc k)) e'" "buf e' = buf e"
    using point_fall assms(2) by blast
  then show ?thesis
    using assms(1) \<open>fst cc = base + of_nat (length (buf e))\<close> by (auto simp: x_matches_def intro: exI [of _ e'])
qed

lemma x_sim_goto:
  assumes l: "linked env fn E code" and m: "x_matches env fn E base s0 (Running k (i # is) \<rho>) cc"
    and i: "op i = GOTO" "target_label i = Some t" "block_index (blocks fn) t = Some j"
  shows "\<exists>m cc'. x_run m base code cc = Some cc' \<and> x_matches env fn E base s0 (Running j (insns (blocks fn ! j)) \<rho>) cc'"
proof -
  obtain e s where e: "cc = (base + of_nat (length (buf e)), s)" "point env fn E k (i # is) e" "suffix (i # is) (insns (blocks fn ! k))"
    "rep (x_ra fn) \<rho> s" "x_inv (x_ra fn) s0 s"
    using matches_head [OF m] .
  obtain e' where e': "point env fn E j (insns (blocks fn ! j)) e'" "label_at E (of_nat j) (length (buf e'))"
    using linkedD(4) [OF l i(3)] by blast
  have "distinct_labels (blocks fn)" "jumps_last (next_label fn k) (insns (blocks fn ! k))"
    using linkedD(1) [OF l] point_less [OF e(2)] by (simp_all add: x_function_defs list_all_iff)
  from x_goto [OF linkedD(2,3) [OF l] e(2) i this(1) e' linked_bound [OF l e'(1)] jumps_last_suffix [OF this(2) e(3) i(1,2)], of base s]
  show ?thesis
  proof (elim disjE exE conjE)
    fix q
    assume "x_run q base code (base + of_nat (length (buf e)), s) = Some (base + of_nat (length (buf e')), s)"
    then show ?thesis
      using matches_block [OF e'(1) e(4,5)] unfolding e(1) by blast
  next
    assume f: "is = []" "j = Suc k" "Suc k < length (blocks fn)" "exec (x_insn env fn k i) e = e"
    have "x_matches env fn E base s0 (Running k [] \<rho>) cc"
      using matches_later [OF e(2-5), of base] by (simp add: f(1,4) e(1))
    then show ?thesis
      using x_sim_fall [OF _ f(3)] f(2) by (intro exI [of _ 0]) auto
  qed
qed

lemma x_sim_branch:
  assumes l: "linked env fn E code" and m: "x_matches env fn E base s0 (Running k (i # is) \<rho>) cc" and i: "is_cond (op i)"
    and b: "b = Ir_Flow.cond_holds (op i) (opd_val \<rho> (src1 i)) (opd_val \<rho> (src2 i))"
    and t: "b \<Longrightarrow> target_label i = Some t \<and> block_index (blocks fn) t = Some j"
  shows "\<exists>m cc'. x_run m base code cc = Some cc'
    \<and> x_matches env fn E base s0 (if b then Running j (insns (blocks fn ! j)) \<rho> else Running k is \<rho>) cc'"
proof -
  obtain e s where e: "cc = (base + of_nat (length (buf e)), s)" "point env fn E k (i # is) e" "suffix (i # is) (insns (blocks fn ! k))"
    "rep (x_ra fn) \<rho> s" "x_inv (x_ra fn) s0 s" "i \<in> set (all_insns fn)"
    using matches_head [OF m] .
  obtain e' where e': "b \<Longrightarrow> point env fn E j (insns (blocks fn ! j)) e' \<and> label_at E (of_nat j) (length (buf e')) \<and> length (buf e') \<le> length code"
    using linkedD(4) [OF l, of t j] t linked_bound [OF l] by blast
  have "\<exists>t j. target_label i = Some t \<and> block_index (blocks fn) t = Some j \<and> label_at E (of_nat j) (length (buf e')) \<and> length (buf e') \<le> length code" if b
    using t [OF that] e' [OF that] by blast
  from x_branch [OF linkedD(2,3) [OF l] e(2) i x_operands(1-3) [OF linkedD(1) [OF l] e(6) i] b this e(4,5), of base]
  obtain n s' where run: "x_run n base code cc = Some (base + of_nat (if b then length (buf e') else length (buf (exec (x_insn env fn k i) e))), s')"
    "rep (x_ra fn) \<rho> s'" "x_inv (x_ra fn) s0 s'"
    unfolding e(1) by blast
  have "x_matches env fn E base s0 (if b then Running j (insns (blocks fn ! j)) \<rho> else Running k is \<rho>)
      (base + of_nat (if b then length (buf e') else length (buf (exec (x_insn env fn k i) e))), s')"
    using matches_block [OF _ run(2,3), of env E j e' base] matches_later [OF e(2,3) run(2,3), of base] e' by simp
  with run(1) show ?thesis
    by blast
qed

lemma x_sim_return:
  assumes l: "linked env fn E code" and m: "x_matches env fn E base s0 (Running k (i # is) \<rho>) cc"
    and i: "op i = RETURN_VAL \<and> res = Some (opd_val \<rho> (src1 i)) \<or> op i = RETURN_VOID \<and> res = None"
  shows "\<exists>m cc'. x_run m base code cc = Some cc' \<and> x_matches env fn E base s0 (Returned res) cc'"
proof -
  obtain e s where e: "cc = (base + of_nat (length (buf e)), s)" "point env fn E k (i # is) e" "rep (x_ra fn) \<rho> s" "x_inv (x_ra fn) s0 s"
    "i \<in> set (all_insns fn)"
    using matches_head [OF m] .
  have "requires_frame (x_ra fn)"
    using x_requires_frame linkedD(1) [OF l] by (simp add: x_function_defs)
  moreover have "op i = RETURN_VAL \<and> opd_ok (x_ra fn) (src1 i) \<and> res = Some (opd_val \<rho> (src1 i)) \<or> op i = RETURN_VOID \<and> res = None"
    using x_operands(4) [OF linkedD(1) [OF l] e(5)] i by blast
  ultimately obtain n s' where "x_run n base code cc = Some (read64 (mem s0) (regs s0 (rn RSP)), s')" "x_returned (x_ra fn) s0 res s'"
    using x_returns [OF linkedD(2,3) [OF l] e(2) _ _ e(3,4), of res base] unfolding e(1) by blast
  then show ?thesis
    by (auto simp: x_matches_def)
qed

lemma x_simulation:
  assumes l: "linked env fn E code" and step: "ir_step fn conf conf'" and m: "x_matches env fn E base s0 conf cc"
  shows "\<exists>m cc'. x_run m base code cc = Some cc' \<and> x_matches env fn E base s0 conf' cc'"
  using step m
proof cases
  case (taken i \<rho> t j k "is")
  then show ?thesis
    using x_sim_branch [OF l m [unfolded taken(1)], of True t j] by simp
next
  case (not_taken i \<rho> k "is")
  then show ?thesis
    using x_sim_branch [OF l m [unfolded not_taken(1)], of False] by simp
next
  case (fall k \<rho>)
  then show ?thesis
    using x_sim_fall m by (intro exI [of _ 0] exI [of _ cc]) simp
next
  case (assign i \<rho> v k "is")
  then show ?thesis
    using x_sim_assign [OF l m [unfolded assign(1)]] by simp
next
  case (goto i t j k "is" \<rho>)
  then show ?thesis
    using x_sim_goto [OF l m [unfolded goto(1)]] by simp
next
  case (ret_val i k "is" \<rho>)
  then show ?thesis
    using x_sim_return [OF l m [unfolded ret_val(1)]] by simp
next
  case (ret_void i k "is" \<rho>)
  then show ?thesis
    using x_sim_return [OF l m [unfolded ret_void(1)]] by simp
qed

lemma x_simulations:
  assumes "linked env fn E code" "(ir_step fn)\<^sup>*\<^sup>* conf conf'" "x_matches env fn E base s0 conf cc"
  shows "\<exists>m cc'. x_run m base code cc = Some cc' \<and> x_matches env fn E base s0 conf' cc'"
  using assms(2)
proof (induction rule: rtranclp_induct)
  case base
  then show ?case
    using assms(3) by (intro exI [of _ 0]) auto
next
  case (step d d')
  then show ?case
    using x_simulation [OF assms(1) step(2)] x_run_trans by blast
qed

lemma compiled_linked:
  "x_function fn \<Longrightarrow> compile_function env mm mp fn = Some (n, code) \<Longrightarrow> length code < 2 ^ 31 \<Longrightarrow>
   linked env fn (exec (emit_function env fn) (new_encoder mm)) code"
  using compiled_points(1,4) by (simp add: linked_def)

lemma x_enters:
  assumes "x_function fn" "compile_function env mm mp fn = Some (n, code)" "length code < 2 ^ 31" "x_called fn \<rho> s"
  shows "\<exists>m cc. x_run m base code (base, s) = Some cc
    \<and> x_matches env fn (exec (emit_function env fn) (new_encoder mm)) base s (ir_start fn \<rho>) cc"
proof -
  let ?E = "exec (emit_function env fn) (new_encoder mm)" and ?c = "exec (entry_code fn) (new_encoder mm)"
  let ?pro = "lower_prologue (x_ra fn) \<bind> (\<lambda>_. lower_save_params (x_ra fn))"
  define e where "e = exec (make_labels (length (blocks fn))) (new_encoder mm)"
  note c = compiled_points(1-3) [OF assms(2)]
  have b0: "0 < length (blocks fn)" "requires_frame (x_ra fn)"
    using assms(1) x_requires_frame [of fn] unfolding x_function_defs by blast+
  have ec: "?c = exec ?pro e"
    by (simp add: entry_code_def e_def case_prod_beta)
  have a: "app ?c ?E"
    using app.keepsD [OF app.keeps_lower_blocks, of ?c "x_env env fn" "drop 0 (blocks fn)" "drop 0 (x_labels fn)"]
    unfolding c(3) [unfolded rest_blocks_def] .
  then have "\<not> failed ?c"
    using app_image(1) [OF c(1)] by blast
  then have "\<not> failed e"
    unfolding ec using latch.keepsD [of ?pro e] by (blast intro: latch.keeps_bind latch.keeps_lower_frame)
  then have be: "buf e = []"
    using make_labels_effect [of "length (blocks fn)" "new_encoder mm"]
    by (simp add: e_def new_encoder_def reset_def ensure_capacity_def Let_def)
  have te: "tables_ok e"
    unfolding e_def using tables.keepsD [OF tables.keeps_make_labels] tables_ok_new by blast
  obtain s' where s': "exec_list (entry_insns (x_ra fn)) s = Some s'" "rep (x_ra fn) \<rho> s'" "x_inv (x_ra fn) s s'"
    using x_entered [OF allocate_ok assms(4)] by blast
  have "x_run (length (entry_insns (x_ra fn))) base code (base, s) = Some (base + of_nat (length (buf ?c)), s')"
    using run_asm [OF c(1) asm_entry [OF allocate_ok b0(2)] te a [unfolded ec] s'(1), of base] assms(3) be ec by simp
  moreover have "x_matches env fn ?E base s (ir_start fn \<rho>) (base + of_nat (length (buf ?c)), s')"
    using point_block [OF b0(1) c(2,3)] s'(2,3) by (auto simp: x_matches_def ir_start_def)
  ultimately show ?thesis
    by blast
qed

lemma x86_function_runs:
  assumes "x_function fn" "compile_function env mm mp fn = Some (n, code)" "length code < 2 ^ 31"
    and "x_called fn \<rho> s" "(ir_step fn)\<^sup>*\<^sup>* (ir_start fn \<rho>) (Returned res)"
  shows "\<exists>m s'. x_run m base code (base, s) = Some (read64 (mem s) (regs s (rn RSP)), s')
    \<and> x_returned (allocate_registers fn) s res s'"
proof -
  obtain m1 c1 where c1: "x_run m1 base code (base, s) = Some c1"
    "x_matches env fn (exec (emit_function env fn) (new_encoder mm)) base s (ir_start fn \<rho>) c1"
    using x_enters [OF assms(1-4)] by blast
  obtain m2 c2 where "x_run m2 base code c1 = Some c2" "x_matches env fn (exec (emit_function env fn) (new_encoder mm)) base s (Returned res) c2"
    using x_simulations [OF compiled_linked [OF assms(1-3)] assms(5) c1(2)] by blast
  then show ?thesis
    using x_run_trans [OF c1(1), of m2 c2] by (cases c2) (auto simp: x_matches_def intro!: exI [of _ "m1 + m2"])
qed

section \<open>Properties\<close>

text \<open>
  Claim C1. A function compiled for x86-64 is correct. Let a function use moves, negations, bit counts, additions,
  subtractions, multiplications, shifts, bitwise operations, branches on comparisons, jumps and
  returns, with at most six parameters and 1024 locals and blocks of different labels, let constants a branch compares
  with fit into 32 bits, let no instruction follow a jump to the next block, and let
  its image be smaller than two gigabytes. If the reference semantics, started with the arguments
  in the parameter registers, returns, then the image, entered at its first byte, reaches
  the return address on the stack after finitely many steps with the same result in \<open>rax\<close>;
  the return address is popped, every other register but \<open>rcx\<close> and \<open>r11\<close> is as before
  the call, and so is all memory outside the frame.
\<close>

theorem x86_compiled_function_correct:
  assumes "x_function fn" "compile_function env mm mp fn = Some (n, code)" "length code < 2 ^ 31"
    and "x_called fn \<rho> s" "(ir_step fn)\<^sup>*\<^sup>* (ir_start fn \<rho>) (Returned res)"
  shows "\<exists>m s'. x_run m base code (base, s) = Some (read64 (mem s) (regs s (rn RSP)), s')
    \<and> x_returned (allocate_registers fn) s res s'"
  using assms by (rule x86_function_runs)

definition x_call2 :: mstate where
  "x_call2 = \<lparr>regs = (\<lambda>_. 0)(7 := 2, 4 := 0x8000), mem = write64 (\<lambda>_. 0) 0x8000 0x1000, flg = None\<rparr>"

lemma sum_fn_x: "x_function sum_fn"
  by code_simp

lemma sum_fn_compiles: "\<exists>n code. compile_function empty_env (\<lambda>_ _. True) True sum_fn = Some (n, code) \<and> length code < 2 ^ 31"
proof -
  have "case compile_function empty_env (\<lambda>_ _. True) True sum_fn of Some (n, code) \<Rightarrow> length code < 128 | None \<Rightarrow> False"
    by code_simp
  then show ?thesis
    by (auto split: option.splits prod.splits)
qed

lemma x_call2_called:
  assumes "ra_param_count (x_ra fn) = 1" "ra_local_count (x_ra fn) = 1"
  shows "x_called fn env2 x_call2"
proof -
  have "reg_index r = 0" if "ir_reg (x_ra fn) r" for r
    using that assms by (auto simp: ir_reg_def live_reg_def word_less_nat_alt unat_eq_zero split: if_splits)
  then show ?thesis
    unfolding x_called_def
    by (auto simp: env2_def p0_def reg_slot_def Let_def kAllocatablePhysRegs_def get_param_raw_reg_def x_call2_def reg_num.simps ir_reg_def)
qed

lemma x_call2_ok: "x_called sum_fn env2 x_call2"
proof -
  have "ra_param_count (x_ra sum_fn) = 1" "ra_local_count (x_ra sum_fn) = 1"
    by code_simp+
  then show ?thesis
    by (rule x_call2_called)
qed

text \<open>The sum of the numbers up to two, on the machine.\<close>

theorem x86_compiled_function_correct_witness:
  "\<exists>n code m s'. compile_function empty_env (\<lambda>_ _. True) True sum_fn = Some (n, code)
     \<and> x_run m 0x400000 code (0x400000, x_call2) = Some (0x1000, s') \<and> regs s' (rn RAX) = 3 \<and> regs s' (rn RSP) = 0x8008"
proof -
  obtain n code where c: "compile_function empty_env (\<lambda>_ _. True) True sum_fn = Some (n, code)" "length code < 2 ^ 31"
    using sum_fn_compiles by blast
  have "(ir_step sum_fn)\<^sup>*\<^sup>* (ir_start sum_fn env2) (Returned (Some 3))"
    using sum_fn_runs ir_exec_steps by blast
  from x86_compiled_function_correct [OF sum_fn_x c x_call2_ok this, of "0x400000"]
  show ?thesis
    using c(1) by (auto simp: x_returned_def x_call2_def read_write64_same reg_num.simps)
qed

text \<open>
  Why a jump to the next block has to be the last of its block: it is left out, and the code
  after it, which the reference never reaches, runs.
\<close>

definition return_const :: "u64 \<Rightarrow> Instruction" where
  "return_const c = (plain_insn RETURN_VAL None)\<lparr>src1 := OpConst c\<rparr>"

definition dead_fn :: Function where
  "dead_fn = \<lparr>fn_name = ''dead'', return_type = I64, params = [], param_count = 0, local_count = 1,
     blocks = [\<lparr>label = ''entry'', insns = [plain_insn GOTO (Some ''next''), return_const 1]\<rparr>, \<lparr>label = ''next'', insns = [return_const 2]\<rparr>]\<rparr>"

lemma elided_jump_runs_dead_code:
  "\<not> x_function dead_fn \<and> ir_exec 2 dead_fn (ir_start dead_fn (\<lambda>_. 0)) = Some (Returned (Some 2))
   \<and> (case compile_function empty_env (\<lambda>_ _. True) True dead_fn of None \<Rightarrow> False
      | Some (n, code) \<Rightarrow> map_option fst (dec_n 9 code) = Some (entry_insns (x_ra dead_fn) @ MOV_ri64 (rn RAX) 1 # restore_insns (x_ra dead_fn) @ [RET]))"
proof (intro conjI)
  show "\<not> x_function dead_fn"
    by code_simp
  show "ir_exec 2 dead_fn (ir_start dead_fn (\<lambda>_. 0)) = Some (Returned (Some 2))"
    by (simp add: numeral_2_eq_2 ir_start_def dead_fn_def ir_next_def plain_insn_def return_const_def streq_impl_def skip_dot_def
        name_end_def opd_val_def is_cond_def)
  show "case compile_function empty_env (\<lambda>_ _. True) True dead_fn of None \<Rightarrow> False
      | Some (n, code) \<Rightarrow> map_option fst (dec_n 9 code) = Some (entry_insns (x_ra dead_fn) @ MOV_ri64 (rn RAX) 1 # restore_insns (x_ra dead_fn) @ [RET])"
    by code_simp
qed

end
