(* ===== verification/Lexer.thy ===== *)
theory Lexer
  imports Ast
begin

text \<open>
  The lexer (\<open>src/src/frontend/ana_lexer.h\<close>, \<open>ana_lexer.cpp\<close>).
  The source text is a string; reading at or past its end gives the terminating NUL, and a
  NUL inside the text stops the lexer, as for any C string. A \<open>StringView\<close> is the
  substring it denotes. \<open>int64_t\<close> accumulation wraps. Token fields the C++ leaves
  uninitialised hold zero here.

  The static bump pool of string literals is part of the lexer state. \<open>raw_mmap\<close> is not
  modelled: \<open>lx_mmap k n\<close> says whether the \<open>k\<close>-th request, for \<open>n\<close> bytes,
  succeeds.
\<close>

section \<open>State and tokens\<close>

datatype TokenType =
    TOKEN_EOF | TOKEN_FN | TOKEN_END_FN | TOKEN_CLASS | TOKEN_END_CLASS | TOKEN_FIELD
  | TOKEN_REGISTERS | TOKEN_IMPORT_SYS | TOKEN_OPCODE | TOKEN_IDENTIFIER | TOKEN_LABEL
  | TOKEN_REGISTER | TOKEN_INT_LITERAL | TOKEN_LBRACKET | TOKEN_RBRACKET | TOKEN_LPAREN
  | TOKEN_RPAREN | TOKEN_COLON | TOKEN_COMMA | TOKEN_PLUS | TOKEN_MINUS | TOKEN_ARROW
  | TOKEN_TYPE | TOKEN_LIKELY | TOKEN_UNLIKELY | TOKEN_STRING_LITERAL | TOKEN_ERROR

record Token =
  tok_type :: TokenType
  view :: string
  opcode :: Opcode
  data_type :: DataType
  int_val :: i64
  tok_string_val :: "string option"
  tok_string_len :: u64
  tok_string_hash :: u64
  tok_reg :: Register
  tok_line :: u32

record Lexer =
  source :: string
  cursor :: nat
  lx_line :: u32
  str_pool :: bool
  str_pool_cap :: nat
  str_pool_used :: nat
  lx_mmap :: "nat \<Rightarrow> nat \<Rightarrow> bool"
  lx_calls :: nat

abbreviation NUL :: char where
  "NUL \<equiv> CHR 0x00"

definition new_lexer :: "(nat \<Rightarrow> nat \<Rightarrow> bool) \<Rightarrow> string \<Rightarrow> Lexer" where
  "new_lexer mm s = \<lparr>source = s, cursor = 0, lx_line = 1, str_pool = False,
     str_pool_cap = 0, str_pool_used = 0, lx_mmap = mm, lx_calls = 0\<rparr>"

section \<open>The FNV-1a hash\<close>

text \<open>\<open>char\<close> is signed on the supported hosts, so each byte is sign-extended.\<close>

fun fnv1a_loop :: "u64 \<Rightarrow> string \<Rightarrow> u64" where
  "fnv1a_loop h [] = h"
| "fnv1a_loop h (c # cs) = fnv1a_loop ((h XOR scast (of_char c :: u8)) * 1099511628211) cs"

definition fnv1a_hash :: "string \<Rightarrow> u64" where
  "fnv1a_hash s = fnv1a_loop 14695981039346656037 s"

section \<open>The literal pool\<close>

definition lexer_alloc_string :: "nat \<Rightarrow> Lexer \<Rightarrow> bool \<times> Lexer" where
  "lexer_alloc_string len lx =
     (let need = (len + 8) div 8 * 8 in
      if \<not> str_pool lx \<or> str_pool_used lx + need > str_pool_cap lx then
        (let cap = (if need > 65536 then (need + 4095) div 4096 * 4096 else 65536);
             lx' = lx\<lparr>lx_calls := lx_calls lx + 1\<rparr> in
         if \<not> lx_mmap lx (lx_calls lx) cap then (False, lx')
         else (True, lx'\<lparr>str_pool := True, str_pool_cap := cap, str_pool_used := need\<rparr>))
      else (True, lx\<lparr>str_pool_used := str_pool_used lx + need\<rparr>))"

section \<open>Characters\<close>

definition peek :: "Lexer \<Rightarrow> char" where
  "peek lx = (if cursor lx < length (source lx) then source lx ! cursor lx else NUL)"

definition adv :: "Lexer \<Rightarrow> Lexer" where
  "adv lx = (if peek lx = NUL then lx
             else lx\<lparr>cursor := cursor lx + 1,
                     lx_line := (if peek lx = CHR 0x0A then lx_line lx + 1 else lx_line lx)\<rparr>)"

definition is_digit :: "char \<Rightarrow> bool" where
  "is_digit c \<longleftrightarrow> 48 \<le> (of_char c :: nat) \<and> (of_char c :: nat) \<le> 57"

definition is_alpha :: "char \<Rightarrow> bool" where
  "is_alpha c \<longleftrightarrow> 97 \<le> (of_char c :: nat) \<and> (of_char c :: nat) \<le> 122
               \<or> 65 \<le> (of_char c :: nat) \<and> (of_char c :: nat) \<le> 90"

definition is_directive_char :: "char \<Rightarrow> bool" where
  "is_directive_char c \<longleftrightarrow> is_alpha c \<or> c = CHR ''_'' \<or> c = CHR ''-''"

definition is_ident_char :: "char \<Rightarrow> bool" where
  "is_ident_char c \<longleftrightarrow> is_alpha c \<or> is_digit c \<or> c = CHR ''_'' \<or> c = CHR ''-''
                     \<or> c = CHR ''.'' \<or> c = CHR ''/''"

definition is_space :: "char \<Rightarrow> bool" where
  "is_space c \<longleftrightarrow> c = CHR '' '' \<or> c = CHR 0x09 \<or> c = CHR 0x0D \<or> c = CHR 0x0A"

text \<open>The termination measure of every loop over the text.\<close>

definition remaining :: "Lexer \<Rightarrow> nat" where
  "remaining lx = length (source lx) - cursor lx"

lemma adv_source [simp]: "source (adv lx) = source lx"
  by (simp add: adv_def)

lemma remaining_adv_less: "peek lx \<noteq> NUL \<Longrightarrow> remaining (adv lx) < remaining lx"
  by (auto simp: adv_def remaining_def peek_def split: if_splits)

lemma remaining_adv_le [simp]: "remaining (adv lx) \<le> remaining lx"
  by (auto simp: adv_def remaining_def)

section \<open>Loops\<close>

text \<open>\<open>while (p(peek())) advance();\<close> for a predicate that is false at NUL.\<close>

function scan_while :: "(char \<Rightarrow> bool) \<Rightarrow> Lexer \<Rightarrow> Lexer" where
  "scan_while p lx = (if peek lx \<noteq> NUL \<and> p (peek lx) then scan_while p (adv lx) else lx)"
  by pat_completeness auto
termination
  by (relation "measure (\<lambda>(p, lx). remaining lx)") (auto simp: remaining_adv_less)

declare scan_while.simps [simp del]

definition skip_comment :: "Lexer \<Rightarrow> Lexer" where
  "skip_comment lx = scan_while (\<lambda>c. c \<noteq> CHR 0x0A) lx"

lemma scan_while_le: "remaining (scan_while p lx) \<le> remaining lx"
proof (induction p lx rule: scan_while.induct)
  case (1 p lx)
  then show ?case
    by (subst scan_while.simps) (auto intro: order_trans [OF _ remaining_adv_le])
qed

lemma scan_while_less:
  "peek lx \<noteq> NUL \<Longrightarrow> p (peek lx) \<Longrightarrow> remaining (scan_while p lx) < remaining lx"
  by (subst scan_while.simps)
     (auto intro: le_less_trans [OF scan_while_le remaining_adv_less])

function skip_whitespace_and_comments :: "Lexer \<Rightarrow> Lexer" where
  "skip_whitespace_and_comments lx =
     (if is_space (peek lx) then skip_whitespace_and_comments (adv lx)
      else if peek lx = CHR ''#'' \<or> peek lx = CHR '';''
      then skip_whitespace_and_comments (skip_comment lx)
      else lx)"
  by pat_completeness auto
termination
proof (relation "measure remaining", goal_cases)
  case (2 lx)
  then have "peek lx \<noteq> NUL"
    by (auto simp: is_space_def)
  then show ?case
    by (simp add: remaining_adv_less)
next
  case (3 lx)
  then show ?case
    by (auto simp: skip_comment_def intro!: scan_while_less)
qed simp

declare skip_whitespace_and_comments.simps [simp del]

text \<open>\<open>while (isdigit(peek())) val = val * 10 + (advance() - '0');\<close>\<close>

function scan_digits :: "i64 \<Rightarrow> Lexer \<Rightarrow> i64 \<times> Lexer" where
  "scan_digits v lx =
     (if is_digit (peek lx)
      then scan_digits (v * 10 + (of_char (peek lx) - 48)) (adv lx)
      else (v, lx))"
  by pat_completeness auto
termination
proof (relation "measure (\<lambda>(v, lx). remaining lx)", goal_cases)
  case (2 v lx)
  then have "peek lx \<noteq> NUL"
    by (auto simp: is_digit_def)
  then show ?case
    by (simp add: remaining_adv_less)
qed simp

declare scan_digits.simps [simp del]

definition escape_char :: "char \<Rightarrow> char" where
  "escape_char esc =
     (if esc = CHR ''n'' then CHR 0x0A
      else if esc = CHR ''t'' then CHR 0x09
      else if esc = CHR ''r'' then CHR 0x0D
      else if esc = CHR ''0'' then NUL
      else if esc = CHR 0x5C then CHR 0x5C
      else if esc = CHR 0x22 then CHR 0x22
      else esc)"

text \<open>The string-literal loop; \<open>buf\<close> is \<open>temp_buf[0 .. len)\<close>.\<close>

function scan_string :: "string \<Rightarrow> Lexer \<Rightarrow> string \<times> Lexer" where
  "scan_string buf lx =
     (if peek lx \<noteq> CHR 0x22 \<and> peek lx \<noteq> NUL \<and> length buf < 2047 then
        (if peek lx = CHR 0x5C
         then scan_string (buf @ [escape_char (peek (adv lx))]) (adv (adv lx))
         else scan_string (buf @ [peek lx]) (adv lx))
      else (buf, lx))"
  by pat_completeness auto
termination
proof (relation "measure (\<lambda>(b, lx). remaining lx)", goal_cases)
  case (2 buf lx)
  then show ?case
    by (auto intro: le_less_trans [OF remaining_adv_le remaining_adv_less])
next
  case (3 buf lx)
  then show ?case
    by (simp add: remaining_adv_less)
qed simp

declare scan_string.simps [simp del]

text \<open>The register check: all characters after the first are digits.\<close>

fun reg_digits :: "u32 \<Rightarrow> string \<Rightarrow> u32 option" where
  "reg_digits idx [] = Some idx"
| "reg_digits idx (c # cs) =
     (if is_digit c then reg_digits (idx * 10 + (of_char c - 48)) cs else None)"

definition register_of_view :: "string \<Rightarrow> Register option" where
  "register_of_view v =
     (case v of
        c # d # cs \<Rightarrow>
          (if c = CHR ''p'' \<or> c = CHR ''v'' then
             map_option (\<lambda>i. \<lparr>reg_type = (if c = CHR ''p'' then PARAM else LOCAL), reg_index = i\<rparr>)
               (reg_digits 0 (d # cs))
           else None)
      | _ \<Rightarrow> None)"

section \<open>Keyword tables\<close>

text \<open>
  The lexer switches on \<open>fnv1a_hash\<close> of the word; the case labels are the hashes of
  the keywords. C++ rejects equal case labels, so the order of a table does not matter.
\<close>

definition hash_lookup :: "(string \<times> 'a) list \<Rightarrow> u64 \<Rightarrow> 'a option" where
  "hash_lookup tbl h = map_option snd (find (\<lambda>(k, _). fnv1a_hash k = h) tbl)"

definition directive_table :: "(string \<times> TokenType) list" where
  "directive_table =
    [(''fn'', TOKEN_FN), (''end_fn'', TOKEN_END_FN), (''class'', TOKEN_CLASS),
     (''end_class'', TOKEN_END_CLASS), (''field'', TOKEN_FIELD),
     (''registers'', TOKEN_REGISTERS), (''import-sys'', TOKEN_IMPORT_SYS)]"

text \<open>Native types and hints: the token type and the data type it carries.\<close>

definition type_table :: "(string \<times> (TokenType \<times> DataType)) list" where
  "type_table =
    [(''i32'', (TOKEN_TYPE, I32)), (''i64'', (TOKEN_TYPE, I64)), (''ptr'', (TOKEN_TYPE, PTR)),
     (''f32'', (TOKEN_TYPE, F32)), (''void'', (TOKEN_TYPE, VOID)),
     (''likely'', (TOKEN_LIKELY, VOID)), (''unlikely'', (TOKEN_UNLIKELY, VOID))]"

definition opcode_table :: "(string \<times> Opcode) list" where
  "opcode_table =
    [(''add-int/32'', ADD_I32), (''sub-int/32'', SUB_I32), (''neg-int/32'', NEG_I32),
     (''mul-int/32'', MUL_I32), (''div-int/32'', DIV_I32), (''add-int/64'', ADD_I64),
     (''sub-int/64'', SUB_I64), (''neg-int/64'', NEG_I64), (''mul-int/64'', MUL_I64),
     (''div-int/64'', DIV_I64), (''and-int/32'', AND_I32), (''and-int/64'', AND_I64),
     (''or-int/32'', OR_I32), (''or-int/64'', OR_I64), (''xor-int/32'', XOR_I32),
     (''xor-int/64'', XOR_I64), (''shl-int/32'', SHL_I32), (''shl-int/64'', SHL_I64),
     (''shr-int/32'', SHR_I32), (''shr-int/64'', SHR_I64), (''ushr-int/32'', USHR_I32),
     (''ushr-int/64'', USHR_I64), (''bts-int/64'', BTS_I64), (''btr-int/64'', BTR_I64),
     (''popcount-int/64'', POPCOUNT_I64), (''lzcnt-int/64'', LZCNT_I64), (''move'', MOVE),
     (''move-const'', MOVE_CONST), (''move_const'', MOVE_CONST),
     (''sys-call'', SYS_CALL), (''sys_call'', SYS_CALL),
     (''load-mem'', LOAD_MEM), (''load_mem'', LOAD_MEM),
     (''store-mem'', STORE_MEM), (''store_mem'', STORE_MEM),
     (''bind-vtable'', BIND_VTABLE), (''bind_vtable'', BIND_VTABLE),
     (''call-virt'', CALL_VIRT), (''call_virt'', CALL_VIRT),
     (''call-virt-fast'', CALL_VIRT_FAST), (''call_virt_fast'', CALL_VIRT_FAST),
     (''return-void'', RETURN_VOID), (''return_void'', RETURN_VOID),
     (''return-val'', RETURN_VAL), (''return_val'', RETURN_VAL),
     (''goto'', GOTO), (''if-eq'', IF_EQ), (''if-ne'', IF_NE), (''if-lt'', IF_LT),
     (''if-ge'', IF_GE), (''if-z'', IF_Z), (''if-nz'', IF_NZ),
     (''atomic-cas/64'', ATOMIC_CAS_I64), (''atomic-xchg/64'', ATOMIC_XCHG_I64),
     (''atomic-add/64'', ATOMIC_ADD_I64), (''atomic-and/64'', ATOMIC_AND_I64),
     (''atomic-or/64'', ATOMIC_OR_I64), (''fence'', FENCE), (''new-instance'', NEW_INSTANCE),
     (''add-float/32'', ADD_FLOAT_32), (''add-float/64'', ADD_FLOAT_64),
     (''sub-float/64'', SUB_FLOAT_64), (''mul-float/64'', MUL_FLOAT_64),
     (''div-float/64'', DIV_FLOAT_64), (''add-vector/i32x4'', ADD_VECTOR_I32X4),
     (''sub-vector/i32x4'', SUB_VECTOR_I32X4), (''add-vector/i32x8'', ADD_VECTOR_I32X8),
     (''add-vector/i32x16'', ADD_VECTOR_I32X16), (''mul-vector/i32x8'', MUL_VECTOR_I32X8),
     (''load-vector/256'', LOAD_VECTOR_256), (''load-vector/512'', LOAD_VECTOR_512),
     (''sink-mem'', SINK_MEM), (''const-string'', CONST_STRING), (''str-len'', STR_LEN)]"

section \<open>\<open>next_token\<close>\<close>

text \<open>\<open>Token tok;\<close> and the assignments before the first branch.\<close>

definition init_token :: "Lexer \<Rightarrow> Token" where
  "init_token lx = \<lparr>tok_type = TOKEN_EOF, view = [], opcode = ADD_I32, data_type = VOID,
     int_val = 0, tok_string_val = None, tok_string_len = 0, tok_string_hash = 0,
     tok_reg = zero_reg, tok_line = lx_line lx\<rparr>"

definition text_between :: "Lexer \<Rightarrow> Lexer \<Rightarrow> string" where
  "text_between lx lx' = take (cursor lx' - cursor lx) (drop (cursor lx) (source lx))"

definition lex_string :: "Token \<Rightarrow> Lexer \<Rightarrow> Token \<times> Lexer" where
  "lex_string tok lx =
     (let (buf, lx1) = scan_string [] (adv lx);
          lx2 = (if peek lx1 = CHR 0x22 then adv lx1 else lx1);
          (ok, lx3) = lexer_alloc_string (length buf) lx2 in
      if \<not> ok then (tok\<lparr>tok_type := TOKEN_ERROR\<rparr>, lx3)
      else (tok\<lparr>tok_type := TOKEN_STRING_LITERAL, tok_string_val := Some buf,
                tok_string_len := of_nat (length buf), tok_string_hash := fnv1a_hash buf,
                view := text_between lx lx3\<rparr>, lx3))"

definition lex_punct :: "char \<Rightarrow> TokenType option" where
  "lex_punct c =
     (if c = CHR ''['' then Some TOKEN_LBRACKET
      else if c = CHR '']'' then Some TOKEN_RBRACKET
      else if c = CHR ''('' then Some TOKEN_LPAREN
      else if c = CHR '')'' then Some TOKEN_RPAREN
      else if c = CHR '':'' then Some TOKEN_COLON
      else if c = CHR '','' then Some TOKEN_COMMA
      else if c = CHR ''+'' then Some TOKEN_PLUS
      else None)"

definition lex_minus :: "Token \<Rightarrow> Lexer \<Rightarrow> Token \<times> Lexer" where
  "lex_minus tok lx =
     (let lx1 = adv lx in
      if peek lx1 = CHR ''>'' then
        (tok\<lparr>tok_type := TOKEN_ARROW, view := text_between lx (adv lx1)\<rparr>, adv lx1)
      else if is_digit (peek lx1) then
        (let (v, lx2) = scan_digits 0 lx1 in
         (tok\<lparr>tok_type := TOKEN_INT_LITERAL, int_val := - v, view := text_between lx lx2\<rparr>, lx2))
      else (tok\<lparr>tok_type := TOKEN_MINUS, view := text_between lx lx1\<rparr>, lx1))"

definition lex_number :: "Token \<Rightarrow> Lexer \<Rightarrow> Token \<times> Lexer" where
  "lex_number tok lx =
     (let (v, lx1) = scan_digits 0 lx in
      (tok\<lparr>tok_type := TOKEN_INT_LITERAL, int_val := v, view := text_between lx lx1\<rparr>, lx1))"

definition lex_directive :: "Token \<Rightarrow> Lexer \<Rightarrow> Token \<times> Lexer" where
  "lex_directive tok lx =
     (let lx1 = adv lx; lx2 = scan_while is_directive_char lx1;
          tok' = tok\<lparr>view := text_between lx lx2\<rparr> in
      (case hash_lookup directive_table (fnv1a_hash (text_between lx1 lx2)) of
         Some t \<Rightarrow> (tok'\<lparr>tok_type := t\<rparr>, lx2)
       | None \<Rightarrow> (tok'\<lparr>tok_type := TOKEN_IDENTIFIER\<rparr>, lx2)))"

text \<open>A word that is neither a label nor a register: types, hints, opcodes, identifiers.\<close>

definition classify_word :: "Token \<Rightarrow> string \<Rightarrow> Token" where
  "classify_word tok w =
     (let h = fnv1a_hash w in
      case hash_lookup type_table h of
        Some (t, d) \<Rightarrow> tok\<lparr>tok_type := t, data_type := d\<rparr>
      | None \<Rightarrow>
          (case hash_lookup opcode_table h of
             Some opc \<Rightarrow> tok\<lparr>tok_type := TOKEN_OPCODE, opcode := opc\<rparr>
           | None \<Rightarrow> tok\<lparr>tok_type := TOKEN_IDENTIFIER\<rparr>))"

definition lex_word :: "Token \<Rightarrow> Lexer \<Rightarrow> Token \<times> Lexer" where
  "lex_word tok lx =
     (let lx1 = scan_while is_ident_char lx; w = text_between lx lx1; tok' = tok\<lparr>view := w\<rparr> in
      if peek lx1 = CHR '':'' then (tok'\<lparr>tok_type := TOKEN_LABEL\<rparr>, adv lx1)
      else (case register_of_view w of
              Some r \<Rightarrow> (tok'\<lparr>tok_type := TOKEN_REGISTER, tok_reg := r\<rparr>, lx1)
            | None \<Rightarrow> (classify_word tok' w, lx1)))"

definition next_token :: "Lexer \<Rightarrow> Token \<times> Lexer" where
  "next_token lx0 =
     (let lx = skip_whitespace_and_comments lx0; tok = init_token lx; c = peek lx in
      if c = NUL then (tok, lx)
      else if c = CHR 0x22 then lex_string tok lx
      else case lex_punct c of
        Some t \<Rightarrow> (tok\<lparr>tok_type := t, view := [c]\<rparr>, adv lx)
      | None \<Rightarrow>
          if c = CHR ''-'' then lex_minus tok lx
          else if is_digit c then lex_number tok lx
          else if c = CHR ''.'' then lex_directive tok lx
          else if is_alpha c \<or> c = CHR ''_'' then lex_word tok lx
          else (tok\<lparr>tok_type := TOKEN_ERROR, view := [c]\<rparr>, adv lx))"

section \<open>Progress\<close>

lemma skip_ws_le: "remaining (skip_whitespace_and_comments lx) \<le> remaining lx"
proof (induction lx rule: skip_whitespace_and_comments.induct)
  case (1 lx)
  then show ?case
    by (subst skip_whitespace_and_comments.simps)
       (auto simp: skip_comment_def intro: order_trans [OF _ remaining_adv_le]
             order_trans [OF _ scan_while_le])
qed

lemma scan_digits_le: "remaining (snd (scan_digits v lx)) \<le> remaining lx"
proof (induction v lx rule: scan_digits.induct)
  case (1 v lx)
  then show ?case
    by (subst scan_digits.simps) (auto intro: order_trans [OF _ remaining_adv_le])
qed

lemma scan_digits_less: "is_digit (peek lx) \<Longrightarrow> remaining (snd (scan_digits v lx)) < remaining lx"
proof -
  assume d: "is_digit (peek lx)"
  then have "peek lx \<noteq> NUL"
    by (auto simp: is_digit_def)
  with d show ?thesis
    by (subst scan_digits.simps) (simp add: le_less_trans [OF scan_digits_le remaining_adv_less])
qed

lemma scan_string_le: "remaining (snd (scan_string buf lx)) \<le> remaining lx"
proof (induction buf lx rule: scan_string.induct)
  case (1 buf lx)
  then show ?case
    by (subst scan_string.simps)
       (auto intro: order_trans [OF _ remaining_adv_le] order_trans [OF _ order_trans [OF remaining_adv_le remaining_adv_le]])
qed

lemma remaining_alloc [simp]: "remaining (snd (lexer_alloc_string n lx)) = remaining lx"
  by (simp add: lexer_alloc_string_def remaining_def Let_def)


lemma lex_punct_not_EOF: "lex_punct c = Some t \<Longrightarrow> t \<noteq> TOKEN_EOF"
  by (auto simp: lex_punct_def split: if_splits)

lemma hash_lookup_range: "hash_lookup tbl h = Some x \<Longrightarrow> x \<in> snd ` set tbl"
  by (force simp: hash_lookup_def find_Some_iff in_set_conv_nth)

lemma directive_not_EOF: "hash_lookup directive_table h = Some t \<Longrightarrow> t \<noteq> TOKEN_EOF"
  by (drule hash_lookup_range) (auto simp: directive_table_def)

lemma type_table_not_EOF: "hash_lookup type_table h = Some (t, d) \<Longrightarrow> t \<noteq> TOKEN_EOF"
  by (drule hash_lookup_range) (auto simp: type_table_def)

lemma classify_word_not_EOF: "tok_type (classify_word tok w) \<noteq> TOKEN_EOF"
  by (auto simp: classify_word_def Let_def dest: type_table_not_EOF split: option.splits)

lemma ident_start: "is_alpha c \<or> c = CHR ''_'' \<Longrightarrow> is_ident_char c \<and> c \<noteq> NUL"
  by (auto simp: is_ident_char_def is_alpha_def)

lemma lex_string_progress:
  assumes "peek lx \<noteq> NUL"
  shows "remaining (snd (lex_string tok lx)) < remaining lx"
proof -
  obtain buf lx1 where sc: "scan_string [] (adv lx) = (buf, lx1)"
    by (cases "scan_string [] (adv lx)")
  have "remaining lx1 \<le> remaining (adv lx)"
    using scan_string_le [of "[]" "adv lx"] by (simp add: sc)
  then have "remaining lx1 < remaining lx"
    using remaining_adv_less [OF assms] by simp
  then have "remaining (if peek lx1 = CHR 0x22 then adv lx1 else lx1) < remaining lx"
    by (auto intro: le_less_trans [OF remaining_adv_le])
  then show ?thesis
    by (simp add: lex_string_def sc Let_def case_prod_beta)
qed

lemma lex_minus_progress:
  assumes "peek lx \<noteq> NUL"
  shows "remaining (snd (lex_minus tok lx)) < remaining lx"
  using remaining_adv_less [OF assms]
  by (auto simp: lex_minus_def Let_def case_prod_beta
      intro: le_less_trans [OF remaining_adv_le] le_less_trans [OF scan_digits_le])

lemma lex_directive_progress:
  assumes "peek lx \<noteq> NUL"
  shows "remaining (snd (lex_directive tok lx)) < remaining lx"
  using remaining_adv_less [OF assms]
  by (auto simp: lex_directive_def Let_def split: option.splits
      intro: le_less_trans [OF scan_while_le])

lemma lex_word_progress:
  assumes "is_alpha (peek lx) \<or> peek lx = CHR ''_''"
  shows "remaining (snd (lex_word tok lx)) < remaining lx"
proof -
  have "remaining (scan_while is_ident_char lx) < remaining lx"
    using ident_start [OF assms] by (intro scan_while_less) auto
  then show ?thesis
    by (auto simp: lex_word_def Let_def split: option.splits
        intro: le_less_trans [OF remaining_adv_le])
qed

lemma init_token_EOF: "tok_type (init_token lx) = TOKEN_EOF"
  by (simp add: init_token_def)

lemma lex_string_not_EOF: "tok_type (fst (lex_string tok lx)) \<noteq> TOKEN_EOF"
  by (simp add: lex_string_def Let_def case_prod_beta)

lemma lex_minus_not_EOF: "tok_type (fst (lex_minus tok lx)) \<noteq> TOKEN_EOF"
  by (simp add: lex_minus_def Let_def case_prod_beta)

lemma lex_number_not_EOF: "tok_type (fst (lex_number tok lx)) \<noteq> TOKEN_EOF"
  by (simp add: lex_number_def Let_def case_prod_beta)

lemma lex_directive_not_EOF: "tok_type (fst (lex_directive tok lx)) \<noteq> TOKEN_EOF"
  by (simp add: lex_directive_def Let_def directive_not_EOF split: option.split)

lemma lex_word_not_EOF: "tok_type (fst (lex_word tok lx)) \<noteq> TOKEN_EOF"
  by (simp add: lex_word_def Let_def classify_word_not_EOF split: option.split)

lemmas lex_not_EOF = lex_string_not_EOF lex_minus_not_EOF lex_number_not_EOF
  lex_directive_not_EOF lex_word_not_EOF

lemma next_token_EOF_iff:
  "tok_type (fst (next_token lx)) = TOKEN_EOF \<longleftrightarrow>
   peek (skip_whitespace_and_comments lx) = NUL"
  by (simp add: next_token_def Let_def init_token_EOF lex_not_EOF split: option.split)
     (auto dest: lex_punct_not_EOF)

lemma next_token_less:
  assumes "tok_type (fst (next_token lx)) \<noteq> TOKEN_EOF"
  shows "remaining (snd (next_token lx)) < remaining lx"
proof -
  define lx1 where "lx1 = skip_whitespace_and_comments lx"
  have nn: "peek lx1 \<noteq> NUL"
    using assms by (simp add: next_token_EOF_iff lx1_def)
  have "remaining (snd (next_token lx)) < remaining lx1"
    unfolding next_token_def lx1_def [symmetric]
    using nn lex_string_progress [OF nn] lex_minus_progress [OF nn]
      lex_directive_progress [OF nn] lex_word_progress [of lx1] remaining_adv_less [OF nn]
    by (auto simp: Let_def lex_number_def case_prod_beta scan_digits_less split: option.splits)
  then show ?thesis
    using skip_ws_le [of lx] by (simp add: lx1_def)
qed

lemma next_token_le: "remaining (snd (next_token lx)) \<le> remaining lx"
proof (cases "tok_type (fst (next_token lx)) = TOKEN_EOF")
  case True
  then show ?thesis
    by (simp add: next_token_EOF_iff) (simp add: next_token_def Let_def skip_ws_le)
next
  case False
  then show ?thesis
    by (simp add: next_token_less less_imp_le)
qed

section \<open>Scanning a known text\<close>

text \<open>\<open>rest lx\<close> is the text from the cursor on; every loop is described through it.\<close>

definition rest :: "Lexer \<Rightarrow> string" where
  "rest lx = drop (cursor lx) (source lx)"

lemma peek_rest: "peek lx = (case rest lx of [] \<Rightarrow> NUL | c # _ \<Rightarrow> c)"
  by (auto simp: peek_def rest_def Cons_nth_drop_Suc [symmetric] split: list.splits)

lemma peek_Cons [simp]: "rest lx = c # cs \<Longrightarrow> peek lx = c"
  by (simp add: peek_rest)

lemma peek_Nil [simp]: "rest lx = [] \<Longrightarrow> peek lx = NUL"
  by (simp add: peek_rest)

lemma rest_adv: "rest lx = c # cs \<Longrightarrow> c \<noteq> NUL \<Longrightarrow> rest (adv lx) = cs"
  by (simp add: adv_def rest_def drop_Suc flip: tl_drop)

lemma cursor_adv: "rest lx = c # cs \<Longrightarrow> c \<noteq> NUL \<Longrightarrow> cursor (adv lx) = Suc (cursor lx)"
  by (simp add: adv_def)

text \<open>\<open>advances lx w lx'\<close>: the lexer moved over exactly the characters \<open>w\<close>.\<close>

definition advances :: "Lexer \<Rightarrow> string \<Rightarrow> Lexer \<Rightarrow> bool" where
  "advances lx w lx' \<longleftrightarrow> rest lx = w @ rest lx' \<and> cursor lx' = cursor lx + length w
     \<and> source lx' = source lx \<and> lx_mmap lx' = lx_mmap lx \<and> lx_calls lx' = lx_calls lx
     \<and> str_pool lx' = str_pool lx \<and> str_pool_cap lx' = str_pool_cap lx
     \<and> str_pool_used lx' = str_pool_used lx"

lemma advances_refl [simp]: "advances lx [] lx"
  by (simp add: advances_def)

lemma advances_adv: "rest lx = c # cs \<Longrightarrow> c \<noteq> NUL \<Longrightarrow> advances lx [c] (adv lx)"
  by (simp add: advances_def rest_adv cursor_adv) (simp add: adv_def)

lemma advances_trans: "advances lx v lx1 \<Longrightarrow> advances lx1 w lx2 \<Longrightarrow> advances lx (v @ w) lx2"
  by (simp add: advances_def)

lemma text_between_advances: "advances lx w lx' \<Longrightarrow> text_between lx lx' = w"
  by (simp add: advances_def text_between_def rest_def)

definition stops :: "(char \<Rightarrow> bool) \<Rightarrow> string \<Rightarrow> bool" where
  "stops p r \<longleftrightarrow> (case r of [] \<Rightarrow> True | c # _ \<Rightarrow> c = NUL \<or> \<not> p c)"

lemma stops_peek: "stops p (rest lx) \<Longrightarrow> peek lx = NUL \<or> \<not> p (peek lx)"
  by (auto simp: stops_def peek_rest split: list.splits)

lemma scan_while_advances:
  "rest lx = w @ r \<Longrightarrow> (\<forall>c\<in>set w. p c \<and> c \<noteq> NUL) \<Longrightarrow> stops p r \<Longrightarrow>
   advances lx w (scan_while p lx)"
proof (induction w arbitrary: lx)
  case Nil
  then have "scan_while p lx = lx"
    using stops_peek [of p lx] by (subst scan_while.simps) auto
  then show ?case
    by simp
next
  case (Cons c w)
  then have r: "rest lx = c # (w @ r)" and c: "c \<noteq> NUL" "p c"
    by auto
  have "advances (adv lx) w (scan_while p (adv lx))"
    using Cons rest_adv [OF r c(1)] by auto
  moreover have "scan_while p lx = scan_while p (adv lx)"
    using r c by (subst scan_while.simps) simp
  ultimately show ?case
    using advances_trans [OF advances_adv [OF r c(1)]] by simp
qed

lemma skip_ws_none:
  "rest lx = c # cs \<Longrightarrow> \<not> is_space c \<Longrightarrow> c \<noteq> CHR ''#'' \<Longrightarrow> c \<noteq> CHR '';'' \<Longrightarrow>
   skip_whitespace_and_comments lx = lx"
  by (subst skip_whitespace_and_comments.simps) simp


section \<open>Keywords\<close>

lemma hash_lookup_mem:
  assumes "distinct (map (\<lambda>(k, _). fnv1a_hash k) tbl)" "(k, v) \<in> set tbl"
  shows "hash_lookup tbl (fnv1a_hash k) = Some v"
  using assms by (induction tbl) (auto simp: hash_lookup_def image_iff)

lemma hash_lookup_notin:
  "h \<notin> set (map (\<lambda>(k, _). fnv1a_hash k) tbl) \<Longrightarrow> hash_lookup tbl h = None"
  by (induction tbl) (auto simp: hash_lookup_def)

definition keyword_hashes :: "u64 list" where
  "keyword_hashes = map (\<lambda>(k, _). fnv1a_hash k) type_table @ map (\<lambda>(k, _). fnv1a_hash k) opcode_table"


text \<open>The residues of the hashes already tell the keywords apart.\<close>

lemma keyword_residues:
  "map (\<lambda>h. uint h mod 655) keyword_hashes =
    [580, 264, 379, 107, 287, 145, 478, 435, 546, 616, 538, 346, 398, 452, 153, 75,
     289, 58, 152, 73, 36, 585, 126, 415, 509, 349, 312, 567, 251, 224, 441, 104,
     443, 404, 180, 114, 397, 549, 539, 581, 86, 583, 191, 154, 429, 106, 229, 297,
     431, 39, 483, 447, 388, 487, 109, 288, 342, 6, 34, 281, 591, 327, 8, 334, 282,
     151, 627, 33, 189, 303, 197, 181, 97, 383, 535, 98, 464, 9, 442, 505, 156]"
  by code_simp

lemma keyword_hashes_distinct: "distinct keyword_hashes"
proof -
  have "distinct (map (\<lambda>h. uint h mod 655) keyword_hashes)"
    by (simp add: keyword_residues)
  then show ?thesis
    by (rule distinct_map [THEN iffD1, THEN conjunct1])
qed

lemma directive_hashes_distinct: "distinct (map (\<lambda>(k, _). fnv1a_hash k) directive_table)"
  by code_simp

lemma opcode_lookup:
  assumes "(k, opc) \<in> set opcode_table"
  shows "hash_lookup opcode_table (fnv1a_hash k) = Some opc"
    and "hash_lookup type_table (fnv1a_hash k) = None"
proof -
  have d: "distinct (map (\<lambda>(k, _). fnv1a_hash k) opcode_table)"
    and disj: "set (map (\<lambda>(k, _). fnv1a_hash k) type_table)
             \<inter> set (map (\<lambda>(k, _). fnv1a_hash k) opcode_table) = {}"
    using keyword_hashes_distinct unfolding keyword_hashes_def distinct_append by auto
  show "hash_lookup opcode_table (fnv1a_hash k) = Some opc"
    by (rule hash_lookup_mem [OF d assms])
  have "fnv1a_hash k \<in> set (map (\<lambda>(k, _). fnv1a_hash k) opcode_table)"
    using assms by force
  with disj show "hash_lookup type_table (fnv1a_hash k) = None"
    by (intro hash_lookup_notin) blast
qed

definition is_word :: "string \<Rightarrow> bool" where
  "is_word w \<longleftrightarrow> w \<noteq> [] \<and> (is_alpha (hd w) \<or> hd w = CHR ''_'') \<and> list_all is_ident_char w"

lemma is_ident_char_NUL [simp]: "\<not> is_ident_char NUL"
  by (simp add: is_ident_char_def is_alpha_def is_digit_def)

lemma opcode_table_words:
  "list_all (\<lambda>(k, _). is_word k \<and> register_of_view k = None) opcode_table"
  by code_simp

lemma word_start:
  assumes "is_alpha c \<or> c = CHR ''_''"
  shows "lex_punct c = None" "c \<noteq> NUL" "c \<noteq> CHR 0x22" "c \<noteq> CHR ''-''" "\<not> is_digit c" "c \<noteq> CHR ''.''"
    "\<not> is_space c" "c \<noteq> CHR ''#''" "c \<noteq> CHR '';''"
proof -
  have "c \<notin> set ''[]():,+''"
    using assms by (auto simp: is_alpha_def)
  then show "lex_punct c = None"
    by (simp add: lex_punct_def)
  show "\<not> is_digit c"
    using assms by (auto simp: is_alpha_def is_digit_def)
  show "\<not> is_space c"
    using assms by (auto simp: is_alpha_def is_space_def)
qed (use assms in \<open>auto simp: is_alpha_def\<close>)

text \<open>A word followed by a character that ends it is scanned exactly.\<close>

lemma next_token_word:
  assumes "is_word w" "rest lx = w @ r" "stops is_ident_char r"
  obtains lx' where "advances lx w lx'"
    "next_token lx = lex_word (init_token lx) lx" "scan_while is_ident_char lx = lx'"
proof -
  obtain c cs where w: "w = c # cs" and c: "is_alpha c \<or> c = CHR ''_''"
    using assms(1) by (cases w) (auto simp: is_word_def)
  have all: "\<forall>c\<in>set w. is_ident_char c \<and> c \<noteq> NUL"
    using assms(1) by (auto simp: is_word_def list_all_iff)
  have r: "rest lx = c # (cs @ r)"
    using assms(2) w by simp
  have skip: "skip_whitespace_and_comments lx = lx"
    using skip_ws_none [OF r] word_start [OF c] by blast
  have "next_token lx = lex_word (init_token lx) lx"
    using word_start [OF c] c by (simp add: next_token_def skip Let_def peek_Cons [OF r])
  then show ?thesis
    using that scan_while_advances [OF assms(2) all assms(3)] by blast
qed


section \<open>Numbers, registers and strings\<close>

text \<open>Decimal notation, the printer the number and register theorems are stated against.\<close>

definition digit_char :: "nat \<Rightarrow> char" where
  "digit_char d = char_of (48 + d)"

fun show_nat :: "nat \<Rightarrow> string" where
  "show_nat n = (if n < 10 then [digit_char n] else show_nat (n div 10) @ [digit_char (n mod 10)])"

declare show_nat.simps [simp del]

definition digits_value :: "'a::len word \<Rightarrow> string \<Rightarrow> 'a word" where
  "digits_value = foldl (\<lambda>v c. v * 10 + (of_char c - 48))"

lemma of_char_digit: "d < 10 \<Longrightarrow> (of_char (digit_char d) :: nat) = 48 + d"
  by (simp add: digit_char_def take_bit_eq_mod)

lemma of_char_digit_word:
  "d < 10 \<Longrightarrow> (of_char (digit_char d) :: 'a::len word) = 48 + of_nat d"
  using arg_cong [OF of_char_digit, of d "of_nat :: nat \<Rightarrow> 'a word"] by (simp add: of_nat_of_char)

lemma is_digit_digit: "d < 10 \<Longrightarrow> is_digit (digit_char d)"
  by (simp add: is_digit_def of_char_digit)

lemma show_nat_digits: "\<forall>c\<in>set (show_nat n). is_digit c"
proof (induction n rule: show_nat.induct)
  case (1 n)
  then show ?case
    by (subst show_nat.simps) (auto simp: is_digit_digit)
qed

lemma show_nat_nonempty: "show_nat n \<noteq> []"
  by (subst show_nat.simps) simp

lemma digits_value_show: "digits_value 0 (show_nat n) = (of_nat n :: 'a::len word)"
proof (induction n rule: show_nat.induct)
  case (1 n)
  show ?case
  proof (cases "n < 10")
    case True
    then show ?thesis
      by (subst show_nat.simps) (simp add: digits_value_def of_char_digit_word)
  next
    case False
    then have "digits_value 0 (show_nat n) = of_nat (n div 10) * 10 + (of_nat (n mod 10) :: 'a word)"
      using 1 by (subst show_nat.simps) (simp add: digits_value_def of_char_digit_word)
    also have "\<dots> = of_nat (n div 10 * 10 + n mod 10)"
      by (simp only: of_nat_add of_nat_mult of_nat_numeral)
    finally show ?thesis
      by simp
  qed
qed

lemma is_digit_not_NUL: "is_digit c \<Longrightarrow> c \<noteq> NUL"
  by (auto simp: is_digit_def)

lemma scan_digits_advances:
  "rest lx = ds @ r \<Longrightarrow> (\<forall>c\<in>set ds. is_digit c) \<Longrightarrow> stops is_digit r \<Longrightarrow>
   \<exists>lx'. scan_digits v lx = (digits_value v ds, lx') \<and> advances lx ds lx'"
proof (induction ds arbitrary: v lx)
  case Nil
  then have "\<not> is_digit (peek lx)"
    using stops_peek [of is_digit lx] is_digit_not_NUL by fastforce
  then show ?case
    by (subst scan_digits.simps) (simp add: digits_value_def)
next
  case (Cons c ds)
  then have r: "rest lx = c # (ds @ r)" and c: "is_digit c" "c \<noteq> NUL"
    by (auto dest: is_digit_not_NUL)
  obtain lx' where "scan_digits (v * 10 + (of_char c - 48)) (adv lx) = (digits_value v (c # ds), lx')"
      "advances (adv lx) ds lx'"
    using Cons.IH [of "adv lx" "v * 10 + (of_char c - 48)"] Cons.prems rest_adv [OF r c(2)]
    by (auto simp: digits_value_def)
  then show ?case
    using c advances_trans [OF advances_adv [OF r c(2)], of ds lx']
    by (subst scan_digits.simps) (simp add: peek_Cons [OF r])
qed

lemma digit_start:
  assumes "is_digit c"
  shows "lex_punct c = None" "c \<noteq> CHR 0x22" "c \<noteq> CHR ''-''" "\<not> is_space c" "c \<noteq> CHR ''#''" "c \<noteq> CHR '';''"
proof -
  have "c \<notin> set ''[]():,+''"
    using assms by (auto simp: is_digit_def)
  then show "lex_punct c = None"
    by (simp add: lex_punct_def)
  show "\<not> is_space c"
    using assms by (auto simp: is_digit_def is_space_def)
qed (use assms in \<open>auto simp: is_digit_def\<close>)


lemma next_token_number:
  assumes "rest lx = show_nat n @ r" "stops is_digit r"
  shows "\<exists>lx'. next_token lx = ((init_token lx)\<lparr>tok_type := TOKEN_INT_LITERAL,
           int_val := of_nat n, view := show_nat n\<rparr>, lx') \<and> advances lx (show_nat n) lx'"
proof -
  obtain c cs where ds: "show_nat n = c # cs" and c: "is_digit c"
    using show_nat_nonempty [of n] show_nat_digits [of n] by (cases "show_nat n") auto
  have r: "rest lx = c # (cs @ r)"
    using assms(1) ds by simp
  have skip: "skip_whitespace_and_comments lx = lx"
    using skip_ws_none [OF r] digit_start [OF c] by blast
  have "next_token lx = lex_number (init_token lx) lx"
    using digit_start [OF c] c is_digit_not_NUL [OF c]
    by (simp add: next_token_def skip Let_def peek_Cons [OF r])
  moreover obtain lx' where "scan_digits 0 lx = (of_nat n, lx')" "advances lx (show_nat n) lx'"
    using scan_digits_advances [OF assms(1) show_nat_digits assms(2), of 0]
    by (auto simp: digits_value_show)
  ultimately show ?thesis
    by (simp add: lex_number_def text_between_advances)
qed

lemma next_token_negative:
  assumes "rest lx = CHR ''-'' # show_nat n @ r" "stops is_digit r"
  shows "\<exists>lx'. next_token lx = ((init_token lx)\<lparr>tok_type := TOKEN_INT_LITERAL,
           int_val := - of_nat n, view := CHR ''-'' # show_nat n\<rparr>, lx')
         \<and> advances lx (CHR ''-'' # show_nat n) lx'"
proof -
  have skip: "skip_whitespace_and_comments lx = lx"
    using skip_ws_none [OF assms(1)] by (simp add: is_space_def)
  have r1: "rest (adv lx) = show_nat n @ r" and a1: "advances lx [CHR ''-''] (adv lx)"
    using rest_adv [OF assms(1)] advances_adv [OF assms(1)] by simp_all
  obtain c cs where ds: "show_nat n = c # cs" and c: "is_digit c"
    using show_nat_nonempty [of n] show_nat_digits [of n] by (cases "show_nat n") auto
  obtain lx' where sc: "scan_digits 0 (adv lx) = (of_nat n, lx')" "advances (adv lx) (show_nat n) lx'"
    using scan_digits_advances [OF r1 show_nat_digits assms(2), of 0]
    by (auto simp: digits_value_show)
  have a: "advances lx (CHR ''-'' # show_nat n) lx'"
    using advances_trans [OF a1 sc(2)] by simp
  have "peek (adv lx) = c"
    using r1 ds by simp
  moreover have "c \<noteq> CHR ''>''"
    using c by (auto simp: is_digit_def)
  ultimately have "lex_minus (init_token lx) lx = ((init_token lx)\<lparr>tok_type := TOKEN_INT_LITERAL,
           int_val := - of_nat n, view := CHR ''-'' # show_nat n\<rparr>, lx')"
    using c by (simp add: lex_minus_def sc(1) Let_def text_between_advances [OF a])
  then show ?thesis
    using a by (simp add: next_token_def skip Let_def peek_Cons [OF assms(1)] lex_punct_def)
qed

lemma reg_digits_value: "\<forall>c\<in>set ds. is_digit c \<Longrightarrow> reg_digits v ds = Some (digits_value v ds)"
  by (induction ds arbitrary: v) (auto simp: digits_value_def)

definition reg_prefix :: "RegisterType \<Rightarrow> char" where
  "reg_prefix t = (if t = PARAM then CHR ''p'' else CHR ''v'')"

lemma register_of_view_show:
  "t \<noteq> RT_NONE \<Longrightarrow>
   register_of_view (reg_prefix t # show_nat n) = Some \<lparr>reg_type = t, reg_index = of_nat n\<rparr>"
  using show_nat_nonempty [of n] reg_digits_value [OF show_nat_digits, of 0 n, unfolded digits_value_show]
  by (cases "show_nat n"; cases t) (auto simp: register_of_view_def reg_prefix_def)

text \<open>Quoting, the printer for string literals.\<close>

definition quote_char :: "char \<Rightarrow> string" where
  "quote_char c =
     (if c = CHR 0x0A then [CHR 0x5C, CHR ''n'']
      else if c = CHR 0x09 then [CHR 0x5C, CHR ''t'']
      else if c = CHR 0x0D then [CHR 0x5C, CHR ''r'']
      else if c = NUL then [CHR 0x5C, CHR ''0'']
      else if c = CHR 0x5C then [CHR 0x5C, CHR 0x5C]
      else if c = CHR 0x22 then [CHR 0x5C, CHR 0x22]
      else [c])"

definition quote_string :: "string \<Rightarrow> string" where
  "quote_string s = CHR 0x22 # concat (map quote_char s) @ [CHR 0x22]"

lemma quote_char_cases:
  obtains (plain) "quote_char c = [c]" "c \<noteq> CHR 0x5C" "c \<noteq> CHR 0x22" "c \<noteq> NUL"
  | (escaped) e where "quote_char c = [CHR 0x5C, e]" "escape_char e = c" "e \<noteq> NUL"
  by (cases "c \<in> {CHR 0x0A, CHR 0x09, CHR 0x0D, NUL, CHR 0x5C, CHR 0x22}")
     (auto simp: quote_char_def escape_char_def)

lemma scan_string_quoted:
  "rest lx = concat (map quote_char s) @ CHR 0x22 # r \<Longrightarrow> length buf + length s \<le> 2047 \<Longrightarrow>
   \<exists>lx'. scan_string buf lx = (buf @ s, lx') \<and> advances lx (concat (map quote_char s)) lx'"
proof (induction s arbitrary: buf lx)
  case Nil
  then show ?case
    by (subst scan_string.simps) simp
next
  case (Cons c s)
  let ?qs = "concat (map quote_char s)"
  show ?case
  proof (cases c rule: quote_char_cases)
    case plain
    then have r: "rest lx = c # (?qs @ CHR 0x22 # r)"
      using Cons.prems(1) by simp
    obtain lx' where "scan_string (buf @ [c]) (adv lx) = ((buf @ [c]) @ s, lx')" "advances (adv lx) ?qs lx'"
      using Cons.IH [of "adv lx" "buf @ [c]"] Cons.prems(2) rest_adv [OF r] plain by auto
    then show ?thesis
      using plain Cons.prems(2) advances_trans [OF advances_adv [OF r]]
      by (subst scan_string.simps) (simp add: peek_Cons [OF r])
  next
    case (escaped e)
    then have r: "rest lx = CHR 0x5C # e # (?qs @ CHR 0x22 # r)"
      using Cons.prems(1) by simp
    have r1: "rest (adv lx) = e # (?qs @ CHR 0x22 # r)"
      using rest_adv [OF r] by simp
    have r2: "rest (adv (adv lx)) = ?qs @ CHR 0x22 # r"
      using rest_adv [OF r1] escaped by simp
    obtain lx' where sc: "scan_string (buf @ [c]) (adv (adv lx)) = ((buf @ [c]) @ s, lx')"
        "advances (adv (adv lx)) ?qs lx'"
      using Cons.IH [OF r2, of "buf @ [c]"] Cons.prems(2) by auto
    have "advances lx ([CHR 0x5C] @ [e] @ ?qs) lx'"
      using escaped by (intro advances_trans [OF advances_adv [OF r]]
          advances_trans [OF advances_adv [OF r1]] sc(2)) simp_all
    then show ?thesis
      using escaped Cons.prems(2) sc(1)
      by (subst scan_string.simps) (simp add: peek_Cons [OF r] peek_Cons [OF r1])
  qed
qed

lemma scan_string_bound:
  "length buf \<le> 2047 \<Longrightarrow> length (fst (scan_string buf lx)) \<le> 2047"
proof (induction buf lx rule: scan_string.induct)
  case (1 buf lx)
  then show ?case
    by (subst scan_string.simps) auto
qed


lemma lexer_alloc_string_ok:
  assumes "len \<le> 2047"
    "str_pool lx \<and> str_pool_used lx + (len + 8) \<le> str_pool_cap lx
     \<or> lx_mmap lx (lx_calls lx) 65536"
  shows "\<exists>lx'. lexer_alloc_string len lx = (True, lx') \<and> rest lx' = rest lx
    \<and> cursor lx' = cursor lx \<and> source lx' = source lx"
proof -
  define need where "need = (len + 8) div 8 * 8"
  have "need \<le> len + 8" unfolding need_def by simp
  moreover from this have "\<not> need > 65536" using assms(1) by simp
  ultimately show ?thesis
    using assms(2) unfolding lexer_alloc_string_def Let_def
    by (auto simp: rest_def need_def)
qed

lemma next_token_string:
  assumes r: "rest lx = quote_string s @ r" and len: "length s \<le> 2047"
    and ok: "str_pool lx \<and> str_pool_used lx + (length s + 8) \<le> str_pool_cap lx
             \<or> lx_mmap lx (lx_calls lx) 65536"
  shows "\<exists>lx'. next_token lx = ((init_token lx)\<lparr>tok_type := TOKEN_STRING_LITERAL,
           tok_string_val := Some s, tok_string_len := of_nat (length s),
           tok_string_hash := fnv1a_hash s, view := quote_string s\<rparr>, lx')
         \<and> rest lx' = r"
proof -
  let ?qs = "concat (map quote_char s)"
  have r0: "rest lx = CHR 0x22 # (?qs @ CHR 0x22 # r)"
    using r by (simp add: quote_string_def)
  have skip: "skip_whitespace_and_comments lx = lx"
    using skip_ws_none [OF r0] by (simp add: is_space_def)
  have a0: "advances lx [CHR 0x22] (adv lx)" and r1: "rest (adv lx) = ?qs @ CHR 0x22 # r"
    using advances_adv [OF r0] rest_adv [OF r0] by simp_all
  obtain lx1 where sc: "scan_string [] (adv lx) = (s, lx1)" and a1: "advances (adv lx) ?qs lx1"
    using scan_string_quoted [OF r1, of "[]"] len by auto
  have r2: "rest lx1 = CHR 0x22 # r"
    using a1 r1 by (simp add: advances_def)
  have a2: "advances lx1 [CHR 0x22] (adv lx1)" and r3: "rest (adv lx1) = r"
    using advances_adv [OF r2] rest_adv [OF r2] by simp_all
  have a: "advances lx (quote_string s) (adv lx1)"
    using advances_trans [OF a0 advances_trans [OF a1 a2]] by (simp add: quote_string_def)
  obtain lx3 where al: "lexer_alloc_string (length s) (adv lx1) = (True, lx3)"
    and same: "rest lx3 = r" "cursor lx3 = cursor (adv lx1)" "source lx3 = source (adv lx1)"
    using lexer_alloc_string_ok [of "length s" "adv lx1"] ok a r3 len unfolding advances_def
    by auto
  have "text_between lx lx3 = quote_string s"
    using text_between_advances [OF a] same by (simp add: text_between_def)
  then have "lex_string (init_token lx) lx = ((init_token lx)\<lparr>tok_type := TOKEN_STRING_LITERAL,
           tok_string_val := Some s, tok_string_len := of_nat (length s),
           tok_string_hash := fnv1a_hash s, view := quote_string s\<rparr>, lx3)"
    by (simp add: lex_string_def sc peek_Cons [OF r2] al)
  then show ?thesis
    using same by (simp add: next_token_def skip Let_def peek_Cons [OF r0])
qed

section \<open>Properties\<close>

text \<open>
  The lexer always makes progress: reading a token never moves the cursor
  backwards, and every token other than end-of-file consumes at least one character of the
  source, so repeated calls of \<open>next_token\<close> reach end-of-file.
\<close>
theorem next_token_progress:
  "remaining (snd (next_token lx)) \<le> remaining lx \<and>
   (tok_type (fst (next_token lx)) \<noteq> TOKEN_EOF \<longrightarrow>
    remaining (snd (next_token lx)) < remaining lx)"
  by (simp add: next_token_le next_token_less)

theorem next_token_progress_witness:
  "remaining (snd (next_token (new_lexer (\<lambda>_ _. True) '':''))) < remaining (new_lexer (\<lambda>_ _. True) '':'')"
proof -
  have "tok_type (fst (next_token (new_lexer (\<lambda>_ _. True) '':''))) \<noteq> TOKEN_EOF"
    by code_simp
  then show ?thesis
    using next_token_progress [of "new_lexer (\<lambda>_ _. True) '':''"] by simp
qed

text \<open>
  Every mnemonic of the opcode table is recognised: a keyword followed by a
  character that cannot continue a word, and that is not a colon, is lexed as the opcode
  token the table names, and exactly its characters are consumed. In particular no two
  keywords collide under the 64-bit FNV-1a hash the lexer switches on, and no opcode is
  shadowed by a type name or a branch hint.
\<close>
theorem opcode_mnemonics_recognised:
  assumes "(k, opc) \<in> set opcode_table" "rest lx = k @ r" "stops is_ident_char r"
    "r = [] \<or> hd r \<noteq> CHR '':''"
  shows "\<exists>lx'. next_token lx = ((init_token lx)\<lparr>view := k, tok_type := TOKEN_OPCODE,
           opcode := opc\<rparr>, lx') \<and> advances lx k lx'"
proof -
  have k: "is_word k" "register_of_view k = None"
    using opcode_table_words assms(1) by (auto simp: list_all_iff)
  obtain lx' where a: "advances lx k lx'"
    and t: "next_token lx = lex_word (init_token lx) lx" "scan_while is_ident_char lx = lx'"
    using next_token_word [OF k(1) assms(2,3)] .
  have "rest lx' = r"
    using a assms(2) by (simp add: advances_def)
  then have "peek lx' \<noteq> CHR '':''"
    using assms(4) by (cases r) simp_all
  then show ?thesis
    using a k(2) opcode_lookup [OF assms(1)]
    by (simp add: t lex_word_def Let_def text_between_advances [OF a] classify_word_def)
qed

theorem opcode_mnemonics_recognised_witness:
  "\<exists>lx'. next_token (new_lexer (\<lambda>_ _. True) ''fence '') =
     ((init_token (new_lexer (\<lambda>_ _. True) ''fence ''))\<lparr>view := ''fence'', tok_type := TOKEN_OPCODE,
           opcode := FENCE\<rparr>, lx') \<and> advances (new_lexer (\<lambda>_ _. True) ''fence '') ''fence'' lx'"
proof (rule opcode_mnemonics_recognised)
  show "(''fence'', FENCE) \<in> set opcode_table"
    by (simp add: opcode_table_def)
  show "rest (new_lexer (\<lambda>_ _. True) ''fence '') = ''fence'' @ '' ''"
    by (simp add: rest_def new_lexer_def)
  show "stops is_ident_char '' ''"
    by (simp add: stops_def is_ident_char_def is_alpha_def is_digit_def)
qed simp

text \<open>
  Integer literals round-trip: the decimal notation of any integer, followed by a
  character that is not a digit, is lexed as one integer token whose value is that integer
  in 64-bit two's complement (so every value of \<open>int64_t\<close> is read back exactly, the
  most negative one included).
\<close>
theorem integer_literal_roundtrip:
  assumes "rest lx = (if z < 0 then CHR ''-'' # show_nat (nat (- z)) else show_nat (nat z)) @ r"
    "stops is_digit r"
  shows "tok_type (fst (next_token lx)) = TOKEN_INT_LITERAL
       \<and> int_val (fst (next_token lx)) = of_int z \<and> rest (snd (next_token lx)) = r"
proof (cases "z < 0")
  case True
  then obtain lx' where "next_token lx = ((init_token lx)\<lparr>tok_type := TOKEN_INT_LITERAL,
           int_val := - of_nat (nat (- z)), view := CHR ''-'' # show_nat (nat (- z))\<rparr>, lx')"
      "advances lx (CHR ''-'' # show_nat (nat (- z))) lx'"
    using next_token_negative [of lx "nat (- z)" r] assms by auto
  then show ?thesis
    using True assms(1) by (simp add: advances_def of_nat_nat)
next
  case False
  then obtain lx' where "next_token lx = ((init_token lx)\<lparr>tok_type := TOKEN_INT_LITERAL,
           int_val := of_nat (nat z), view := show_nat (nat z)\<rparr>, lx')"
      "advances lx (show_nat (nat z)) lx'"
    using next_token_number [of lx "nat z" r] assms by auto
  then show ?thesis
    using False assms(1) by (simp add: advances_def of_nat_nat)
qed

theorem integer_literal_roundtrip_witness:
  "int_val (fst (next_token (new_lexer (\<lambda>_ _. True) ''-42,''))) = - 42"
proof -
  have "show_nat 42 = ''42''" by code_simp
  then have "rest (new_lexer (\<lambda>_ _. True) ''-42,'') =
      (if (-42::int) < 0 then CHR ''-'' # show_nat (nat (- (-42))) else show_nat (nat (-42))) @ '',''"
    by (simp add: rest_def new_lexer_def)
  moreover have "stops is_digit '',''"
    by (simp add: stops_def is_digit_def)
  ultimately show ?thesis
    using integer_literal_roundtrip [of "new_lexer (\<lambda>_ _. True) ''-42,''" "-42" "'',''"] by simp
qed

text \<open>
  String literals round-trip: for every string of at most 2047 characters (the
  size of the lexer's buffer), lexing its quoted form yields one string token that carries
  exactly that string, its length and its FNV-1a hash, whenever the literal pool has room or
  a fresh 64 KiB mapping succeeds. Newlines, tabs, carriage returns, NULs, backslashes and
  double quotes go through their escapes.
\<close>
theorem string_literal_roundtrip:
  assumes "rest lx = quote_string s @ r" "length s \<le> 2047"
    "str_pool lx \<and> str_pool_used lx + (length s + 8) \<le> str_pool_cap lx
     \<or> lx_mmap lx (lx_calls lx) 65536"
  shows "tok_type (fst (next_token lx)) = TOKEN_STRING_LITERAL
       \<and> tok_string_val (fst (next_token lx)) = Some s
       \<and> unat (tok_string_len (fst (next_token lx))) = length s
       \<and> tok_string_hash (fst (next_token lx)) = fnv1a_hash s
       \<and> rest (snd (next_token lx)) = r"
proof -
  have "unat (of_nat (length s) :: u64) = length s"
    using assms(2) by (simp add: unsigned_of_nat take_bit_nat_eq_self)
  then show ?thesis
    using next_token_string [OF assms] by auto
qed

theorem string_literal_roundtrip_witness:
  "tok_string_val (fst (next_token (new_lexer (\<lambda>_ _. True) (quote_string [CHR ''a'', CHR 0x0A])))) =
   Some [CHR ''a'', CHR 0x0A]"
  using string_literal_roundtrip
    [of "new_lexer (\<lambda>_ _. True) (quote_string [CHR ''a'', CHR 0x0A])" "[CHR ''a'', CHR 0x0A]" "[]"]
  by (simp add: rest_def new_lexer_def)

text \<open>
  Register names round-trip: \<open>p<n>\<close> and \<open>v<n>\<close> followed by a character
  that ends the word (and is not a colon) are lexed as the parameter respectively local
  register of index \<open>n\<close> modulo 2^32, and as nothing else.
\<close>
theorem register_name_roundtrip:
  assumes "t \<noteq> RT_NONE" "rest lx = reg_prefix t # show_nat n @ r" "stops is_ident_char r"
    "r = [] \<or> hd r \<noteq> CHR '':''"
  shows "tok_type (fst (next_token lx)) = TOKEN_REGISTER
       \<and> tok_reg (fst (next_token lx)) = \<lparr>reg_type = t, reg_index = of_nat n\<rparr>
       \<and> rest (snd (next_token lx)) = r"
proof -
  let ?w = "reg_prefix t # show_nat n"
  have "is_word ?w"
    using show_nat_digits [of n]
    by (auto simp: is_word_def reg_prefix_def is_ident_char_def is_alpha_def list_all_iff)
  then obtain lx' where a: "advances lx ?w lx'"
    and t: "next_token lx = lex_word (init_token lx) lx" "scan_while is_ident_char lx = lx'"
    using next_token_word [of ?w lx r] assms(2,3) by auto
  have r: "rest lx' = r"
    using a assms(2) by (simp add: advances_def)
  then have "peek lx' \<noteq> CHR '':''"
    using assms(4) by (cases r) simp_all
  then show ?thesis
    using r by (simp add: t lex_word_def Let_def text_between_advances [OF a]
        register_of_view_show [OF assms(1)])
qed

theorem register_name_roundtrip_witness:
  "tok_reg (fst (next_token (new_lexer (\<lambda>_ _. True) ''v7,''))) = \<lparr>reg_type = LOCAL, reg_index = 7\<rparr>"
proof -
  have "show_nat 7 = ''7''" by code_simp
  then show ?thesis
    using register_name_roundtrip [of LOCAL "new_lexer (\<lambda>_ _. True) ''v7,''" 7 "'',''"]
    by (simp add: rest_def new_lexer_def reg_prefix_def stops_def is_ident_char_def is_alpha_def
        is_digit_def)
qed

end
