(* ===== verification/Parser.thy ===== *)
theory Parser
  imports Lexer Ast_Opt
begin

text \<open>
  The recursive-descent parser (\<open>src/src/frontend/ana_parser.cpp\<close>, \<open>ana_parser.h\<close>).
  A method that reads tokens is a computation in the state monad over the record
  \<open>Parser\<close>; a loop is a recursive function on the parser state that terminates
  because every iteration consumes a token. A list linked through \<open>next\<close> pointers is
  a list. The arena (modelled on its own in the theory of the allocators) is taken to satisfy
  every request, so \<open>create\<close> gives a zeroed object and \<open>allocate_string\<close> copies its
  view. Register and integer fields of a token that is not a register or an integer are
  indeterminate in the source and zero here.
\<close>

section \<open>State and primitives\<close>

record Parser =
  p_lexer :: Lexer
  current_tok :: Token
  had_error :: bool
  error_msg :: "string option"
  error_line :: u32

type_synonym 'a parser = "(Parser, 'a) state"

abbreviation ptok :: "Parser \<Rightarrow> TokenType" where
  "ptok p \<equiv> tok_type (current_tok p)"

abbreviation ret :: "'a \<Rightarrow> 'a parser" where
  "ret \<equiv> State_Monad.return"

definition p_get :: "(Token \<Rightarrow> 'a) \<Rightarrow> 'a parser" where
  "p_get f = State (\<lambda>p. (f (current_tok p), p))"

text \<open>\<open>if (!had_error_) { had_error_ = true; error_msg_ = m; [error_line_ = ...;] }\<close>\<close>

definition latch_error :: "string \<Rightarrow> (Parser \<Rightarrow> u32) \<Rightarrow> Parser \<Rightarrow> Parser" where
  "latch_error m ln p =
     (if had_error p then p else p\<lparr>had_error := True, error_msg := Some m, error_line := ln p\<rparr>)"

definition p_advance :: "Parser \<Rightarrow> Token \<times> Parser" where
  "p_advance p =
     (let (t, lx) = next_token (p_lexer p); p' = p\<lparr>p_lexer := lx, current_tok := t\<rparr> in
      (current_tok p,
       if tok_type t = TOKEN_ERROR
       then latch_error ''Invalid character in source'' (\<lambda>_. tok_line t) p' else p'))"

definition advance :: "Token parser" where
  "advance = State p_advance"

definition p_match :: "TokenType \<Rightarrow> bool parser" where
  "p_match ty = do {
     t \<leftarrow> p_get tok_type;
     if t = ty then do { advance; ret True } else ret False
   }"

definition expect :: "TokenType \<Rightarrow> string \<Rightarrow> bool parser" where
  "expect ty errmsg = do {
     t \<leftarrow> p_get tok_type;
     if t = ty then do { advance; ret True }
     else State (\<lambda>p. (False, latch_error errmsg (\<lambda>p. tok_line (current_tok p)) p))
   }"

text \<open>The error sites that record a message but no line.\<close>

definition fail_msg :: "string \<Rightarrow> unit parser" where
  "fail_msg m = State (\<lambda>p. ((), latch_error m error_line p))"

section \<open>Operands\<close>

text \<open>The operand forms that the cases of \<open>parse_instruction\<close> are built from.\<close>

definition parse_reg :: "Operand option parser" where
  "parse_reg = do {
     t \<leftarrow> p_get tok_type;
     if t = TOKEN_REGISTER then do {
       r \<leftarrow> p_get tok_reg;
       advance;
       ret (Some (make_reg (reg_type r) (reg_index r)))
     } else ret None
   }"

definition parse_int :: "Operand option parser" where
  "parse_int = do {
     t \<leftarrow> p_get tok_type;
     if t = TOKEN_INT_LITERAL then do {
       v \<leftarrow> p_get int_val;
       advance;
       ret (Some (make_const v))
     } else ret None
   }"

definition parse_reg_or_int :: "Operand option parser" where
  "parse_reg_or_int = do {
     r \<leftarrow> parse_reg;
     case r of Some x \<Rightarrow> ret (Some x) | None \<Rightarrow> parse_int
   }"

text \<open>A register followed by a mandatory comma.\<close>

definition parse_reg_comma :: "Operand option parser" where
  "parse_reg_comma = do {
     r \<leftarrow> parse_reg;
     case r of
       Some x \<Rightarrow> do { expect TOKEN_COMMA ''Expected ,''; ret (Some x) }
     | None \<Rightarrow> ret None
   }"

text \<open>\<open>[base]\<close> or \<open>[base + offset]\<close>.\<close>

definition parse_mem :: "Operand option parser" where
  "parse_mem = do {
     b \<leftarrow> p_match TOKEN_LBRACKET;
     if b then do {
       base \<leftarrow> p_get tok_reg;
       advance;
       plus \<leftarrow> p_match TOKEN_PLUS;
       off \<leftarrow> (if plus then do { v \<leftarrow> p_get int_val; advance; ret (ucast v) } else ret (0 :: i32));
       expect TOKEN_RBRACKET ''Expected ]'';
       ret (Some (make_mem (reg_type base) (reg_index base) off))
     } else ret None
   }"

definition parse_mem_comma :: "Operand option parser" where
  "parse_mem_comma = do {
     m \<leftarrow> parse_mem;
     case m of
       Some x \<Rightarrow> do { expect TOKEN_COMMA ''Expected ,''; ret (Some x) }
     | None \<Rightarrow> ret None
   }"

text \<open>A branch target or class name: an identifier or a label.\<close>

definition parse_name :: "string option parser" where
  "parse_name = do {
     t \<leftarrow> p_get tok_type;
     if t = TOKEN_IDENTIFIER \<or> t = TOKEN_LABEL then do {
       v \<leftarrow> p_get view;
       advance;
       ret (Some v)
     } else ret None
   }"

definition parse_hint :: "Instruction \<Rightarrow> Instruction parser" where
  "parse_hint i = do {
     t \<leftarrow> p_get tok_type;
     if t = TOKEN_LIKELY then do { advance; ret (i\<lparr>is_likely := True\<rparr>) }
     else if t = TOKEN_UNLIKELY then do { advance; ret (i\<lparr>is_likely := False\<rparr>) }
     else ret i
   }"

definition parse_string :: "Instruction \<Rightarrow> Instruction parser" where
  "parse_string i = do {
     t \<leftarrow> p_get id;
     if tok_type t = TOKEN_STRING_LITERAL then do {
       advance;
       ret (i\<lparr>string_val := tok_string_val t, string_len := tok_string_len t,
              string_hash := tok_string_hash t\<rparr>)
     } else ret i
   }"

text \<open>Storing a parsed operand; an absent one leaves the field as it was.\<close>

definition put_dest :: "Operand option \<Rightarrow> Instruction \<Rightarrow> Instruction" where
  "put_dest x i = (case x of Some v \<Rightarrow> i\<lparr>dest := v\<rparr> | None \<Rightarrow> i)"

definition put_src1 :: "Operand option \<Rightarrow> Instruction \<Rightarrow> Instruction" where
  "put_src1 x i = (case x of Some v \<Rightarrow> i\<lparr>src1 := v\<rparr> | None \<Rightarrow> i)"

definition put_src2 :: "Operand option \<Rightarrow> Instruction \<Rightarrow> Instruction" where
  "put_src2 x i = (case x of Some v \<Rightarrow> i\<lparr>src2 := v\<rparr> | None \<Rightarrow> i)"

definition put_target :: "string option \<Rightarrow> Instruction \<Rightarrow> Instruction" where
  "put_target x i = (case x of Some v \<Rightarrow> i\<lparr>target_label := Some v\<rparr> | None \<Rightarrow> i)"

section \<open>Instructions\<close>

definition parse_arith :: "Instruction \<Rightarrow> Instruction parser" where
  "parse_arith i = do {
     d \<leftarrow> parse_reg_comma;
     s1 \<leftarrow> parse_reg_or_int;
     (if d = None \<or> s1 = None then fail_msg ''Missing operand in arithmetic instruction''
      else ret ());
     c \<leftarrow> p_match TOKEN_COMMA;
     s2 \<leftarrow> (if c then parse_reg_or_int else ret None);
     ret (put_src2 s2 (put_src1 s1 (put_dest d i)))
   }"

definition parse_unary :: "Instruction \<Rightarrow> Instruction parser" where
  "parse_unary i = do {
     d \<leftarrow> parse_reg_comma;
     s1 \<leftarrow> parse_reg_or_int;
     ret (put_src1 s1 (put_dest d i))
   }"

definition parse_const_string :: "Instruction \<Rightarrow> Instruction parser" where
  "parse_const_string i = do {
     d \<leftarrow> parse_reg_comma;
     parse_string (put_dest d i)
   }"

definition parse_str_len :: "Instruction \<Rightarrow> Instruction parser" where
  "parse_str_len i = do {
     d \<leftarrow> parse_reg_comma;
     s1 \<leftarrow> parse_reg;
     let i' = put_dest d i;
     case s1 of Some x \<Rightarrow> ret (i'\<lparr>src1 := x\<rparr>) | None \<Rightarrow> parse_string i'
   }"

definition parse_goto :: "Instruction \<Rightarrow> Instruction parser" where
  "parse_goto i = do { t \<leftarrow> parse_name; ret (put_target t i) }"

definition parse_if_cmp :: "Instruction \<Rightarrow> Instruction parser" where
  "parse_if_cmp i0 = do {
     i \<leftarrow> parse_hint i0;
     s1 \<leftarrow> parse_reg_comma;
     s2 \<leftarrow> parse_reg_or_int;
     c \<leftarrow> p_match TOKEN_COMMA;
     t \<leftarrow> (if c then parse_name else ret None);
     ret (put_target t (put_src2 s2 (put_src1 s1 i)))
   }"

definition parse_if_zero :: "Instruction \<Rightarrow> Instruction parser" where
  "parse_if_zero i0 = do {
     i \<leftarrow> parse_hint i0;
     s1 \<leftarrow> parse_reg;
     c \<leftarrow> p_match TOKEN_COMMA;
     t \<leftarrow> (if c then parse_name else ret None);
     ret (put_target t (put_src1 s1 i))
   }"

definition parse_cas :: "Instruction \<Rightarrow> Instruction parser" where
  "parse_cas i = do {
     d \<leftarrow> parse_reg_comma;
     m \<leftarrow> parse_mem_comma;
     s2 \<leftarrow> parse_reg;
     ret (put_src2 s2 (put_src1 m (put_dest d i)))
   }"

definition parse_atomic :: "Instruction \<Rightarrow> Instruction parser" where
  "parse_atomic i = do {
     m \<leftarrow> parse_mem_comma;
     s1 \<leftarrow> parse_reg_or_int;
     ret (put_src1 s1 (put_dest m i))
   }"

definition parse_new_instance :: "Instruction \<Rightarrow> Instruction parser" where
  "parse_new_instance i = do {
     d \<leftarrow> parse_reg_comma;
     t \<leftarrow> parse_name;
     ret (put_target t (put_dest d i))
   }"

definition parse_move_const :: "Instruction \<Rightarrow> Instruction parser" where
  "parse_move_const i = do {
     d \<leftarrow> parse_reg_comma;
     s1 \<leftarrow> parse_int;
     ret (put_src1 s1 (put_dest d i))
   }"

definition parse_move :: "Instruction \<Rightarrow> Instruction parser" where
  "parse_move i = do {
     d \<leftarrow> parse_reg_comma;
     s1 \<leftarrow> parse_reg;
     ret (put_src1 s1 (put_dest d i))
   }"

definition parse_load :: "Instruction \<Rightarrow> Instruction parser" where
  "parse_load i = do {
     d \<leftarrow> parse_reg_comma;
     m \<leftarrow> parse_mem;
     ret (put_src1 m (put_dest d i))
   }"

definition parse_store :: "Instruction \<Rightarrow> Instruction parser" where
  "parse_store i = do {
     s \<leftarrow> parse_reg_comma;
     case s of
       Some src_op \<Rightarrow> do {
         m \<leftarrow> parse_mem;
         ret (case m of Some x \<Rightarrow> i\<lparr>dest := x, src1 := src_op\<rparr> | None \<Rightarrow> i)
       }
     | None \<Rightarrow> do {
         m \<leftarrow> parse_mem_comma;
         case m of
           Some x \<Rightarrow> do { s1 \<leftarrow> parse_reg_or_int; ret (put_src1 s1 (i\<lparr>dest := x\<rparr>)) }
         | None \<Rightarrow> ret i
       }
   }"

definition parse_call_virt :: "Instruction \<Rightarrow> Instruction parser" where
  "parse_call_virt i = do {
     s1 \<leftarrow> parse_reg_comma;
     sl \<leftarrow> parse_int;
     a \<leftarrow> p_match TOKEN_ARROW;
     d \<leftarrow> (if a then parse_reg else ret None);
     ret (put_dest d
       (let i' = put_src1 s1 i in
        case sl of Some v \<Rightarrow> i'\<lparr>vtable_slot := ucast (op_const v)\<rparr> | None \<Rightarrow> i'))
   }"

definition parse_bind_vtable :: "Instruction \<Rightarrow> Instruction parser" where
  "parse_bind_vtable i = do {
     d \<leftarrow> parse_reg_comma;
     s1 \<leftarrow> parse_int;
     ret (put_src1 s1 (put_dest d i))
   }"

definition parse_return_val :: "Instruction \<Rightarrow> Instruction parser" where
  "parse_return_val i = do { s1 \<leftarrow> parse_reg_or_int; ret (put_src1 s1 i) }"

definition new_instruction :: "Opcode \<Rightarrow> Instruction" where
  "new_instruction opc = \<lparr>op = opc, dest = OpNone, src1 = OpNone, src2 = OpNone, vtable_slot = 0,
     target_label = None, string_val = None, string_len = 0, string_hash = 0, is_likely = False\<rparr>"

text \<open>The switch on the opcode.\<close>

definition is_arith :: "Opcode \<Rightarrow> bool" where
  "is_arith opc \<longleftrightarrow> opc \<in> {ADD_I32, SUB_I32, MUL_I32, DIV_I32, ADD_I64, SUB_I64, MUL_I64, DIV_I64,
     AND_I32, AND_I64, OR_I32, OR_I64, XOR_I32, XOR_I64, SHL_I32, SHL_I64, SHR_I32, SHR_I64,
     USHR_I32, USHR_I64, BTS_I64, BTR_I64, ADD_FLOAT_32, ADD_FLOAT_64, SUB_FLOAT_64, MUL_FLOAT_64,
     DIV_FLOAT_64, ADD_VECTOR_I32X4, SUB_VECTOR_I32X4}"

definition parse_operands :: "Instruction \<Rightarrow> Instruction parser" where
  "parse_operands i =
     (let opc = op i in
      if is_arith opc then parse_arith i
      else if opc \<in> {NEG_I32, NEG_I64, POPCOUNT_I64, LZCNT_I64} then parse_unary i
      else if opc = CONST_STRING then parse_const_string i
      else if opc = STR_LEN then parse_str_len i
      else if opc = GOTO then parse_goto i
      else if opc \<in> {IF_EQ, IF_NE, IF_LT, IF_GE} then parse_if_cmp i
      else if opc \<in> {IF_Z, IF_NZ} then parse_if_zero i
      else if opc = ATOMIC_CAS_I64 then parse_cas i
      else if opc \<in> {ATOMIC_XCHG_I64, ATOMIC_ADD_I64, ATOMIC_AND_I64, ATOMIC_OR_I64} then parse_atomic i
      else if opc = NEW_INSTANCE then parse_new_instance i
      else if opc = MOVE_CONST then parse_move_const i
      else if opc = MOVE then parse_move i
      else if opc = LOAD_MEM then parse_load i
      else if opc = STORE_MEM then parse_store i
      else if opc \<in> {CALL_VIRT, CALL_VIRT_FAST} then parse_call_virt i
      else if opc = BIND_VTABLE then parse_bind_vtable i
      else if opc = RETURN_VAL then parse_return_val i
      else ret i)"

definition parse_instruction :: "Instruction parser" where
  "parse_instruction = do {
     opc \<leftarrow> p_get opcode;
     advance;
     parse_operands (new_instruction opc)
   }"

section \<open>Relations that every parsing step respects\<close>

text \<open>
  What all parsing functions have in common is proved once, for any reflexive and transitive
  relation between parser states that holds across \<open>advance\<close> and across recording an
  error. The instances below are: the unread input never grows, the first error is kept, and
  the lexer stays on the same source.
\<close>

locale parser_rel = state_rel R for R :: "Parser \<Rightarrow> Parser \<Rightarrow> bool" +
  assumes R_advance: "R p (snd (p_advance p))"
    and R_latch: "R p (latch_error m ln p)"
begin

lemma keeps_get: "keeps (p_get f)"
  by (simp add: keeps_def p_get_def R_refl)

lemma keeps_advance: "keeps advance"
  by (simp add: keeps_def advance_def R_advance)

lemma keeps_fail: "keeps (fail_msg m)"
  by (simp add: keeps_def fail_msg_def R_latch)

lemma keeps_latch: "keeps (State (\<lambda>p. (x, latch_error m ln p)))"
  by (simp add: keeps_def R_latch)

lemmas keeps_intros = keeps_monad keeps_get keeps_advance keeps_fail keeps_latch

lemma keeps_match: "keeps (p_match ty)"
  unfolding p_match_def by (intro keeps_intros)

lemma keeps_expect: "keeps (expect ty m)"
  unfolding expect_def by (intro keeps_intros)

lemma keeps_reg: "keeps parse_reg" and keeps_int: "keeps parse_int"
  and keeps_name: "keeps parse_name" and keeps_hint: "keeps (parse_hint i)"
  and keeps_string: "keeps (parse_string i)"
  unfolding parse_reg_def parse_int_def parse_name_def parse_hint_def parse_string_def
  by (intro keeps_intros)+

lemma keeps_mem: "keeps parse_mem"
  unfolding parse_mem_def by (intro keeps_intros keeps_match keeps_expect)

lemma keeps_reg_or_int: "keeps parse_reg_or_int" and keeps_reg_comma: "keeps parse_reg_comma"
  and keeps_mem_comma: "keeps parse_mem_comma"
  unfolding parse_reg_or_int_def parse_reg_comma_def parse_mem_comma_def
  by (intro keeps_intros keeps_reg keeps_int keeps_mem keeps_expect)+

lemmas keeps_operand = keeps_intros keeps_match keeps_expect keeps_reg keeps_int keeps_name
  keeps_hint keeps_string keeps_mem keeps_reg_or_int keeps_reg_comma keeps_mem_comma

lemma keeps_operands: "keeps (parse_operands i)"
  unfolding parse_operands_def Let_def parse_arith_def parse_unary_def parse_const_string_def
    parse_str_len_def parse_goto_def parse_if_cmp_def parse_if_zero_def parse_cas_def
    parse_atomic_def parse_new_instance_def parse_move_const_def parse_move_def parse_load_def
    parse_store_def parse_call_virt_def parse_bind_vtable_def parse_return_val_def
  by (intro keeps_operand)

lemma keeps_instruction: "keeps parse_instruction"
  unfolding parse_instruction_def by (intro keeps_operand keeps_operands)

end

section \<open>Progress\<close>

text \<open>The termination measure of the parser's loops: the unread text and the current token.\<close>

definition p_size :: "Parser \<Rightarrow> nat" where
  "p_size p = remaining (p_lexer p) + (if ptok p = TOKEN_EOF then 0 else 1)"

lemma latch_error_simps [simp]:
  "p_lexer (latch_error m ln p) = p_lexer p"
  "current_tok (latch_error m ln p) = current_tok p"
  by (simp_all add: latch_error_def)

lemma p_advance_le: "p_size (snd (p_advance p)) \<le> p_size p"
  using next_token_le [of "p_lexer p"] next_token_less [of "p_lexer p"]
  by (auto simp: p_advance_def p_size_def Let_def split: prod.splits)

lemma p_advance_less: "ptok p \<noteq> TOKEN_EOF \<Longrightarrow> p_size (snd (p_advance p)) < p_size p"
  using next_token_le [of "p_lexer p"] next_token_less [of "p_lexer p"]
  by (auto simp: p_advance_def p_size_def Let_def split: prod.splits)

lemma p_size_latch [simp]: "p_size (latch_error m ln p) = p_size p"
  by (simp add: p_size_def)

interpretation consume: parser_rel "\<lambda>p q. p_size q \<le> p_size p"
  by unfold_locales (auto simp: p_advance_le)

text \<open>A computation that begins by consuming a token makes progress.\<close>

lemma advance_first_less:
  assumes "ptok p \<noteq> TOKEN_EOF" "\<And>x. consume.keeps (f x)"
  shows "p_size (snd (run_state (advance \<bind> f) p)) < p_size p"
proof -
  obtain t q where q: "p_advance p = (t, q)"
    by fastforce
  then show ?thesis
    using p_advance_less [OF assms(1)] consume.keepsD [OF assms(2), of t q]
    by (simp add: advance_def)
qed

lemma parse_instruction_less:
  assumes "ptok p \<noteq> TOKEN_EOF"
  shows "p_size (snd (run_state parse_instruction p)) < p_size p"
  using advance_first_less [OF assms, of "\<lambda>_. parse_operands (new_instruction (opcode (current_tok p)))"]
    consume.keeps_operands
  by (simp add: parse_instruction_def p_get_def)

lemma less_step: "(x, q) = f p \<Longrightarrow> p_size (snd (f p)) < n \<Longrightarrow> p_size q < n"
  by (metis snd_conv)

section \<open>Blocks, functions, classes, programs\<close>

function block_loop :: "Instruction list \<Rightarrow> Parser \<Rightarrow> Instruction list \<times> Parser" where
  "block_loop is p =
     (if ptok p = TOKEN_END_FN \<or> ptok p = TOKEN_LABEL \<or> ptok p = TOKEN_EOF then (is, p)
      else if ptok p = TOKEN_OPCODE then
        (let (insn, q) = run_state parse_instruction p in
         block_loop (is @ [optimize_instruction insn]) q)
      else block_loop is (snd (p_advance p)))"
  by pat_completeness auto
termination
  by (relation "measure (\<lambda>(is, p). p_size p)")
     (auto simp: p_advance_less parse_instruction_less elim!: less_step)

declare block_loop.simps [simp del]

definition parse_basic_block :: "Parser \<Rightarrow> BasicBlock \<times> Parser" where
  "parse_basic_block p =
     (let (l, q) = (if ptok p = TOKEN_LABEL then (view (current_tok p), snd (p_advance p))
                    else (''entry'', p));
          (is, r) = block_loop [] q in
      (\<lparr>label = l, insns = is\<rparr>, r))"

context parser_rel
begin

lemma R_block_loop: "R p (snd (block_loop is p))"
proof (induction "is" p rule: block_loop.induct)
  case (1 "is" p)
  obtain insn q where q: "run_state parse_instruction p = (insn, q)"
    by fastforce
  show ?case
    using 1 keepsD [OF keeps_instruction, of p] R_advance [of p] R_refl
    by (subst block_loop.simps) (auto simp: q intro: R_trans)
qed

lemma R_basic_block: "R p (snd (parse_basic_block p))"
  using R_block_loop R_advance [of p]
  by (auto simp: parse_basic_block_def case_prod_beta Let_def intro: R_trans)

end

lemma parse_basic_block_less:
  assumes "ptok p \<noteq> TOKEN_END_FN" "ptok p \<noteq> TOKEN_EOF"
  shows "p_size (snd (parse_basic_block p)) < p_size p"
proof (cases "ptok p = TOKEN_LABEL")
  case True
  then show ?thesis
    using p_advance_less [OF assms(2)] consume.R_block_loop [of "[]" "snd (p_advance p)"]
    by (simp add: parse_basic_block_def case_prod_beta)
next
  case False
  have "p_size (snd (block_loop [] p)) < p_size p"
    using assms False parse_instruction_less [OF assms(2)] p_advance_less [OF assms(2)]
    by (subst block_loop.simps)
       (auto simp: Let_def case_prod_beta intro: le_less_trans [OF consume.R_block_loop])
  then show ?thesis
    using False by (simp add: parse_basic_block_def case_prod_beta)
qed

definition parse_param :: "u32 \<Rightarrow> Parameter parser" where
  "parse_param idx = do {
     t \<leftarrow> advance;
     expect TOKEN_COLON ''Expected :'';
     ty \<leftarrow> p_get data_type;
     advance;
     p_match TOKEN_COMMA;
     ret \<lparr>pname = view t, ptype = ty, preg = \<lparr>reg_type = PARAM, reg_index = idx\<rparr>\<rparr>
   }"

lemma parse_param_less:
  "ptok p \<noteq> TOKEN_EOF \<Longrightarrow> p_size (snd (run_state (parse_param idx) p)) < p_size p"
  unfolding parse_param_def
  by (erule advance_first_less) (intro consume.keeps_operand)

function param_loop :: "Parameter list \<Rightarrow> u32 \<Rightarrow> Parser \<Rightarrow> (Parameter list \<times> u32) \<times> Parser" where
  "param_loop ps idx p =
     (if ptok p = TOKEN_RPAREN \<or> ptok p = TOKEN_EOF then ((ps, idx), p)
      else if ptok p = TOKEN_REGISTER \<or> ptok p = TOKEN_IDENTIFIER then
        (let (pm, q) = run_state (parse_param idx) p in param_loop (ps @ [pm]) (idx + 1) q)
      else param_loop ps idx (snd (p_advance p)))"
  by pat_completeness auto
termination
  by (relation "measure (\<lambda>(ps, idx, p). p_size p)")
     (auto simp: p_advance_less parse_param_less elim!: less_step)

declare param_loop.simps [simp del]

definition parse_registers :: "Function \<Rightarrow> Function parser" where
  "parse_registers fn = do {
     advance;
     t \<leftarrow> p_get id;
     if tok_type t = TOKEN_INT_LITERAL then do {
       advance;
       ret (fn\<lparr>local_count := ucast (int_val t)\<rparr>)
     } else ret fn
   }"

lemma parse_registers_less:
  "ptok p \<noteq> TOKEN_EOF \<Longrightarrow> p_size (snd (run_state (parse_registers fn) p)) < p_size p"
  unfolding parse_registers_def
  by (erule advance_first_less) (intro consume.keeps_operand)

function body_loop :: "Function \<Rightarrow> Parser \<Rightarrow> Function \<times> Parser" where
  "body_loop fn p =
     (if ptok p = TOKEN_END_FN \<or> ptok p = TOKEN_EOF then (fn, p)
      else if ptok p = TOKEN_REGISTERS then
        (let (fn', q) = run_state (parse_registers fn) p in body_loop fn' q)
      else
        (let (bb, q) = parse_basic_block p in
         body_loop (fn\<lparr>blocks := blocks fn @ [apply_dce bb]\<rparr>) q))"
  by pat_completeness auto
termination
  by (relation "measure (\<lambda>(fn, p). p_size p)")
     (auto simp: case_prod_beta parse_registers_less parse_basic_block_less elim!: less_step)

declare body_loop.simps [simp del]

definition parse_signature_end :: "DataType parser" where
  "parse_signature_end = do {
     expect TOKEN_RPAREN ''Expected )'';
     a \<leftarrow> p_match TOKEN_ARROW;
     if a then do { ty \<leftarrow> p_get data_type; advance; ret ty } else ret VOID
   }"

definition parse_function :: "Parser \<Rightarrow> Function option \<times> Parser" where
  "parse_function p =
     (let p1 = snd (run_state (expect TOKEN_FN ''Expected .fn'') p) in
      if ptok p1 \<noteq> TOKEN_IDENTIFIER then (None, p1)
      else
        (let name = view (current_tok p1);
             p2 = snd (run_state (expect TOKEN_LPAREN ''Expected ('') (snd (p_advance p1)));
             ((ps, n), p3) = param_loop [] 0 p2;
             (rt, p4) = run_state parse_signature_end p3;
             (fn, p5) = body_loop \<lparr>fn_name = name, return_type = rt, params = ps, param_count = n,
                                    local_count = 0, blocks = []\<rparr> p4 in
         (Some fn, snd (run_state (expect TOKEN_END_FN ''Expected .end_fn'') p5))))"

definition parse_field :: "ClassDecl \<Rightarrow> ClassDecl option parser" where
  "parse_field cls = do {
     advance;
     n \<leftarrow> p_get id;
     if tok_type n = TOKEN_LABEL \<or> tok_type n = TOKEN_IDENTIFIER then do {
       advance;
       (if tok_type n = TOKEN_LABEL then ret True
        else expect TOKEN_COLON ''Expected : after field name'');
       t \<leftarrow> p_get id;
       if tok_type t \<noteq> TOKEN_TYPE then do { fail_msg ''Expected field type''; ret None }
       else do {
         advance;
         let off = place_offset (data_type t) (csize cls);
         ret (Some (cls\<lparr>cfields := cfields cls @ [\<lparr>fname = view n, ftype = data_type t, foffset = off\<rparr>],
                        csize := off + type_size (data_type t)\<rparr>))
       }
     } else do { fail_msg ''Expected field name after .field''; ret None }
   }"

lemma parse_field_less:
  "ptok p \<noteq> TOKEN_EOF \<Longrightarrow> p_size (snd (run_state (parse_field cls) p)) < p_size p"
  unfolding parse_field_def Let_def
  by (erule advance_first_less) (intro consume.keeps_operand)

function class_loop :: "ClassDecl \<Rightarrow> Parser \<Rightarrow> ClassDecl option \<times> Parser" where
  "class_loop cls p =
     (if ptok p = TOKEN_END_CLASS \<or> ptok p = TOKEN_EOF then (Some cls, p)
      else if ptok p = TOKEN_FIELD then
        (let (r, q) = run_state (parse_field cls) p in
         case r of None \<Rightarrow> (None, q) | Some cls' \<Rightarrow> class_loop cls' q)
      else class_loop cls (snd (p_advance p)))"
  by pat_completeness auto
termination
  by (relation "measure (\<lambda>(cls, p). p_size p)")
     (auto simp: p_advance_less parse_field_less elim!: less_step)

declare class_loop.simps [simp del]

definition parse_class :: "Parser \<Rightarrow> ClassDecl option \<times> Parser" where
  "parse_class p =
     (let p1 = snd (run_state (expect TOKEN_CLASS ''Expected .class'') p) in
      if ptok p1 \<noteq> TOKEN_IDENTIFIER then
        (None, snd (run_state (fail_msg ''Expected class name after .class'') p1))
      else
        (let (r, p2) = class_loop \<lparr>cname = view (current_tok p1), cfields = [], csize = 8,
                                   vtable_size = 0\<rparr> (snd (p_advance p1)) in
         case r of
           None \<Rightarrow> (None, p2)
         | Some cls \<Rightarrow> (Some (cls\<lparr>vtable_size := 16\<rparr>),
                        snd (run_state (expect TOKEN_END_CLASS ''Expected .end_class'') p2))))"

context parser_rel
begin

lemma R_param_loop: "R p (snd (param_loop ps idx p))"
proof (induction ps idx p rule: param_loop.induct)
  case (1 ps idx p)
  obtain pm q where q: "run_state (parse_param idx) p = (pm, q)"
    by fastforce
  have "keeps (parse_param idx)"
    unfolding parse_param_def by (intro keeps_operand)
  then have "R p q"
    using keepsD [of "parse_param idx" p] q by simp
  then show ?case
    using 1 R_advance [of p] R_refl
    by (subst param_loop.simps) (auto simp: q intro: R_trans)
qed

lemma R_body_loop: "R p (snd (body_loop fn p))"
proof (induction fn p rule: body_loop.induct)
  case (1 fn p)
  obtain fn' q where q: "run_state (parse_registers fn) p = (fn', q)"
    by fastforce
  obtain bb r where r: "parse_basic_block p = (bb, r)"
    by fastforce
  have "keeps (parse_registers fn)"
    unfolding parse_registers_def by (intro keeps_operand)
  then have "R p q" "R p r"
    using keepsD [of "parse_registers fn" p] R_basic_block [of p] q r by simp_all
  then show ?case
    using 1 R_refl by (subst body_loop.simps) (auto simp: q r intro: R_trans)
qed

lemma R_adv: "R p q \<Longrightarrow> R p (snd (p_advance q))"
  using R_trans R_advance by blast

lemma keeps_signature_end: "keeps parse_signature_end"
  unfolding parse_signature_end_def by (intro keeps_operand)

lemmas R_steps = R_refl R_run R_adv keeps_expect keeps_fail keeps_signature_end
  R_trans [OF _ R_param_loop] R_trans [OF _ R_body_loop]

lemma R_function: "R p (snd (parse_function p))"
  unfolding parse_function_def Let_def case_prod_beta
  by (auto intro!: R_steps)

lemma R_class_loop: "R p (snd (class_loop cls p))"
proof (induction cls p rule: class_loop.induct)
  case (1 cls p)
  obtain r q where q: "run_state (parse_field cls) p = (r, q)"
    by fastforce
  have "keeps (parse_field cls)"
    unfolding parse_field_def Let_def by (intro keeps_operand)
  then have "R p q"
    using keepsD [of "parse_field cls" p] q by simp
  then show ?case
    using 1 R_advance [of p] R_refl
    by (subst class_loop.simps) (auto simp: q intro: R_trans split: option.splits)
qed

lemma R_class: "R p (snd (parse_class p))"
  unfolding parse_class_def Let_def case_prod_beta
  by (auto intro!: R_steps R_trans [OF _ R_class_loop] split: option.split)

end

lemma expect_match [simp]:
  "ptok p = ty \<Longrightarrow> snd (run_state (expect ty m) p) = snd (p_advance p)"
  by (simp add: expect_def p_get_def advance_def case_prod_beta)

lemma parse_function_less:
  assumes "ptok p = TOKEN_FN"
  shows "p_size (snd (parse_function p)) < p_size p"
proof -
  have l: "p_size (snd (p_advance p)) < p_size p"
    using p_advance_less [of p] assms by simp
  have "p_size (snd (parse_function p)) \<le> p_size (snd (p_advance p))"
    using assms unfolding parse_function_def Let_def case_prod_beta
    by (simp split del: if_split) (auto intro!: consume.R_steps)
  then show ?thesis
    using l by simp
qed

lemma parse_class_less:
  assumes "ptok p = TOKEN_CLASS"
  shows "p_size (snd (parse_class p)) < p_size p"
proof -
  have l: "p_size (snd (p_advance p)) < p_size p"
    using p_advance_less [of p] assms by simp
  have "p_size (snd (parse_class p)) \<le> p_size (snd (p_advance p))"
    using assms unfolding parse_class_def Let_def case_prod_beta
    by (simp split del: if_split)
       (auto intro!: consume.R_steps consume.R_trans [OF _ consume.R_class_loop] split: option.split)
  then show ?thesis
    using l by simp
qed

function program_loop :: "Program \<Rightarrow> Parser \<Rightarrow> Program \<times> Parser" where
  "program_loop prog p =
     (if ptok p = TOKEN_EOF then (prog, p)
      else if ptok p = TOKEN_CLASS then
        (let (c, q) = parse_class p in
         program_loop (case c of None \<Rightarrow> prog
           | Some cls \<Rightarrow> prog\<lparr>prog_classes := prog_classes prog @ [cls]\<rparr>) q)
      else if ptok p = TOKEN_FN then
        (let (f, q) = parse_function p in
         program_loop (case f of None \<Rightarrow> prog
           | Some fn \<Rightarrow> prog\<lparr>prog_functions := prog_functions prog @ [fn]\<rparr>) q)
      else program_loop prog (snd (p_advance p)))"
  by pat_completeness auto
termination
  by (relation "measure (\<lambda>(prog, p). p_size p)")
     (auto simp: p_advance_less parse_class_less parse_function_less elim!: less_step)

declare program_loop.simps [simp del]

definition parse_program :: "Parser \<Rightarrow> Program option \<times> Parser" where
  "parse_program p =
     (let (prog, q) = program_loop \<lparr>prog_classes = [], prog_functions = []\<rparr> p;
          prog' = resolve_class_layouts prog in
      (if had_error q then None else Some prog', q))"

definition zero_token :: Token where
  "zero_token = \<lparr>tok_type = TOKEN_EOF, view = [], opcode = ADD_I32, data_type = VOID,
     int_val = 0, tok_string_val = None, tok_string_len = 0, tok_string_hash = 0,
     tok_reg = zero_reg, tok_line = 0\<rparr>"

definition new_parser :: "Lexer \<Rightarrow> Parser" where
  "new_parser lx = snd (p_advance \<lparr>p_lexer = lx, current_tok = zero_token, had_error = False,
     error_msg = None, error_line = 0\<rparr>)"

definition error_message :: "Parser \<Rightarrow> string" where
  "error_message p = (case error_msg p of Some m \<Rightarrow> m | None \<Rightarrow> [])"

context parser_rel
begin

lemma R_program_loop: "R p (snd (program_loop prog p))"
proof (induction prog p rule: program_loop.induct)
  case (1 prog p)
  obtain c q where q: "parse_class p = (c, q)"
    by fastforce
  obtain f r where r: "parse_function p = (f, r)"
    by fastforce
  have "R p q" "R p r"
    using R_class [of p] R_function [of p] q r by simp_all
  then show ?case
    using 1 R_advance [of p] R_refl
    by (subst program_loop.simps) (auto simp: q r intro: R_trans)
qed

lemma R_program: "R p (snd (parse_program p))"
  using R_program_loop by (simp add: parse_program_def Let_def case_prod_beta)

end

section \<open>Errors\<close>

text \<open>The first error is kept: message and line are never overwritten.\<close>

definition error_kept :: "Parser \<Rightarrow> Parser \<Rightarrow> bool" where
  "error_kept p q \<longleftrightarrow> (had_error p \<longrightarrow>
     had_error q \<and> error_msg q = error_msg p \<and> error_line q = error_line p)"

interpretation first_error: parser_rel error_kept
  by unfold_locales
     (auto simp: error_kept_def latch_error_def p_advance_def Let_def case_prod_beta)

text \<open>
  \<open>skip n lx\<close> is the lexer after \<open>n\<close> tokens. While no error is recorded, none of
  the tokens read so far is an error token.
\<close>

definition skip :: "nat \<Rightarrow> Lexer \<Rightarrow> Lexer" where
  "skip n = (\<lambda>lx. snd (next_token lx)) ^^ n"

definition nth_token :: "Lexer \<Rightarrow> nat \<Rightarrow> Token" where
  "nth_token lx n = fst (next_token (skip n lx))"

definition clean_run :: "Parser \<Rightarrow> Parser \<Rightarrow> bool" where
  "clean_run p q \<longleftrightarrow> (had_error p \<longrightarrow> had_error q) \<and>
     (\<exists>n. p_lexer q = skip n (p_lexer p) \<and>
          (0 < n \<longrightarrow> current_tok q = nth_token (p_lexer p) (n - 1)) \<and>
          (n = 0 \<longrightarrow> current_tok q = current_tok p) \<and>
          (\<not> had_error q \<longrightarrow> (\<forall>k < n. tok_type (nth_token (p_lexer p) k) \<noteq> TOKEN_ERROR)))"

lemma skip_0 [simp]: "skip 0 lx = lx"
  by (simp add: skip_def)

lemma skip_add: "skip (m + n) lx = skip n (skip m lx)"
  by (simp add: skip_def add.commute [of m n] funpow_add)

lemma nth_token_skip: "nth_token (skip m lx) n = nth_token lx (m + n)"
  by (simp add: nth_token_def skip_add)

lemma clean_run_trans:
  assumes "clean_run p q" "clean_run q r"
  shows "clean_run p r"
proof -
  from assms(1) obtain m where m: "had_error p \<longrightarrow> had_error q" "p_lexer q = skip m (p_lexer p)"
      "0 < m \<longrightarrow> current_tok q = nth_token (p_lexer p) (m - 1)" "m = 0 \<longrightarrow> current_tok q = current_tok p"
      "\<not> had_error q \<longrightarrow> (\<forall>k < m. tok_type (nth_token (p_lexer p) k) \<noteq> TOKEN_ERROR)"
    unfolding clean_run_def by blast
  from assms(2) obtain n where n: "had_error q \<longrightarrow> had_error r" "p_lexer r = skip n (p_lexer q)"
      "0 < n \<longrightarrow> current_tok r = nth_token (p_lexer q) (n - 1)" "n = 0 \<longrightarrow> current_tok r = current_tok q"
      "\<not> had_error r \<longrightarrow> (\<forall>k < n. tok_type (nth_token (p_lexer q) k) \<noteq> TOKEN_ERROR)"
    unfolding clean_run_def by blast
  have "tok_type (nth_token (p_lexer p) k) \<noteq> TOKEN_ERROR" if "\<not> had_error r" "k < m + n" for k
  proof (cases "k < m")
    case False
    then have "nth_token (p_lexer p) k = nth_token (p_lexer q) (k - m)"
      using m(2) by (simp add: nth_token_skip)
    then show ?thesis
      using that False n(5) by (auto simp: less_diff_conv2)
  qed (use that m(5) n(1) in auto)
  moreover have "0 < m + n \<longrightarrow> current_tok r = nth_token (p_lexer p) (m + n - 1)"
    using m n by (cases n) (auto simp: nth_token_skip)
  ultimately show ?thesis
    unfolding clean_run_def using m n
    by (intro conjI exI [of _ "m + n"]) (auto simp: skip_add)
qed

lemma clean_run_advance: "clean_run p (snd (p_advance p))"
  unfolding clean_run_def
  by (intro conjI exI [of _ 1])
     (auto simp: p_advance_def Let_def case_prod_beta latch_error_def nth_token_def skip_def)

interpretation clean: parser_rel clean_run
proof unfold_locales
  fix p q r m ln
  show "clean_run p p" "clean_run p (latch_error m ln p)"
    by (auto simp: clean_run_def latch_error_def intro: exI [of _ 0])
  show "clean_run p q \<Longrightarrow> clean_run q r \<Longrightarrow> clean_run p r"
    by (rule clean_run_trans)
  show "clean_run p (snd (p_advance p))"
    by (rule clean_run_advance)
qed

section \<open>The shape of what is parsed\<close>

lemma optimize_idem [simp]: "optimize_instruction (optimize_instruction i) = optimize_instruction i"
  by (auto simp: optimize_instruction_def fold_const_def make_const_def
      split: option.splits Operand.splits)

definition folded :: "Instruction \<Rightarrow> bool" where
  "folded i \<longleftrightarrow> optimize_instruction i = i"

definition block_ok :: "BasicBlock \<Rightarrow> bool" where
  "block_ok bb \<longleftrightarrow> list_all folded (insns bb)
     \<and> (\<forall>i \<in> set (butlast (insns bb)). \<not> is_block_exit (op i))"

definition params_ok :: "Parameter list \<Rightarrow> bool" where
  "params_ok ps \<longleftrightarrow>
     (\<forall>i < length ps. preg (ps ! i) = \<lparr>reg_type = PARAM, reg_index = of_nat i\<rparr>)"

definition function_ok :: "Function \<Rightarrow> bool" where
  "function_ok fn \<longleftrightarrow> params_ok (params fn) \<and> param_count fn = of_nat (length (params fn))
     \<and> (\<forall>bb \<in> set (blocks fn). block_ok bb)"

definition class_ok :: "ClassDecl \<Rightarrow> bool" where
  "class_ok cls \<longleftrightarrow> vtable_size cls = 16
     \<and> (\<exists>off. layout_fields 8 (cfields cls) = (cfields cls, off)
          \<and> csize cls = (let sz = (off + 7) AND NOT 7 in if sz < 8 then 8 else sz))"

lemma block_loop_folded:
  "list_all folded is \<Longrightarrow> list_all folded (fst (block_loop is p))"
proof (induction "is" p rule: block_loop.induct)
  case (1 "is" p)
  obtain insn q where q: "run_state parse_instruction p = (insn, q)"
    by fastforce
  have "folded (optimize_instruction insn)"
    by (simp add: folded_def)
  then show ?case
    using 1 by (subst block_loop.simps) (auto simp: q)
qed

lemma set_dce_insns: "set (dce_insns is) \<subseteq> set is"
  by (induction "is") auto

lemma block_ok_parsed: "block_ok (apply_dce (fst (parse_basic_block p)))"
proof -
  obtain q where "insns (fst (parse_basic_block p)) = fst (block_loop [] q)"
    by (auto simp: parse_basic_block_def case_prod_beta Let_def)
  then show ?thesis
    using block_loop_folded [of "[]" q] set_dce_insns [of "fst (block_loop [] q)"]
      dce_insns_shape [of "fst (block_loop [] q)"]
    by (auto simp: block_ok_def apply_dce_def list_all_iff)
qed

lemma param_loop_ok:
  assumes "params_ok ps" "idx = of_nat (length ps)" "param_loop ps idx p = ((ps', n), q)"
  shows "params_ok ps' \<and> n = of_nat (length ps')"
  using assms
proof (induction ps idx p arbitrary: ps' n q rule: param_loop.induct)
  case (1 ps idx p)
  obtain pm r where r: "run_state (parse_param idx) p = (pm, r)"
    by fastforce
  then have "preg pm = \<lparr>reg_type = PARAM, reg_index = idx\<rparr>"
    by (auto simp: parse_param_def split: prod.splits)
  then have ok: "params_ok (ps @ [pm])" "idx + 1 = of_nat (length (ps @ [pm]))"
    using 1(3,4) by (auto simp: params_ok_def nth_append less_Suc_eq)
  note e = 1(5) [unfolded param_loop.simps [of ps idx p]]
  consider "ptok p = TOKEN_RPAREN \<or> ptok p = TOKEN_EOF"
    | "\<not> (ptok p = TOKEN_RPAREN \<or> ptok p = TOKEN_EOF)" "ptok p = TOKEN_REGISTER \<or> ptok p = TOKEN_IDENTIFIER"
    | "\<not> (ptok p = TOKEN_RPAREN \<or> ptok p = TOKEN_EOF)" "\<not> (ptok p = TOKEN_REGISTER \<or> ptok p = TOKEN_IDENTIFIER)"
    by blast
  then show ?case
  proof cases
    case 1
    with e show ?thesis
      using \<open>params_ok ps\<close> \<open>idx = of_nat (length ps)\<close> by auto
  next
    case 2
    with e r have "param_loop (ps @ [pm]) (idx + 1) r = ((ps', n), q)"
      by simp
    then show ?thesis
      using "1.IH"(1) [OF 2 r [symmetric] refl ok] by simp
  next
    case 3
    with e have "param_loop ps idx (snd (p_advance p)) = ((ps', n), q)"
      by simp
    then show ?thesis
      using "1.IH"(2) [OF 3 "1.prems"(1,2)] by simp
  qed
qed

lemma body_loop_ok:
  "function_ok fn \<Longrightarrow> function_ok (fst (body_loop fn p))"
proof (induction fn p rule: body_loop.induct)
  case (1 fn p)
  obtain fn' q where q: "run_state (parse_registers fn) p = (fn', q)"
    by fastforce
  then have fn': "function_ok fn'"
    using 1(3) by (auto simp: parse_registers_def p_get_def function_ok_def split: prod.splits if_splits)
  obtain bb r where r: "parse_basic_block p = (bb, r)"
    by fastforce
  then have "function_ok (fn\<lparr>blocks := blocks fn @ [apply_dce bb]\<rparr>)"
    using 1(3) block_ok_parsed [of p] by (auto simp: function_ok_def)
  then show ?case
    using 1 fn' by (subst body_loop.simps) (auto simp: q r)
qed

lemma parse_function_ok:
  assumes "fst (parse_function p) = Some fn"
  shows "function_ok fn"
proof -
  obtain ps n q p2 rt p4 name where pl: "param_loop [] 0 p2 = ((ps, n), q)"
    and fn: "fn = fst (body_loop \<lparr>fn_name = name, return_type = rt, params = ps, param_count = n,
                                    local_count = 0, blocks = []\<rparr> p4)"
    using assms
    by (auto simp: parse_function_def Let_def case_prod_beta split: if_splits) (metis prod.collapse)
  show ?thesis
    unfolding fn using param_loop_ok [OF _ _ pl]
    by (intro body_loop_ok) (auto simp: function_ok_def params_ok_def)
qed

lemma layout_fields_append:
  assumes "layout_fields off fs = (fs', off')"
  shows "layout_fields off (fs @ [f]) =
    (fs' @ [f\<lparr>foffset := place_offset (ftype f) off'\<rparr>], place_offset (ftype f) off' + type_size (ftype f))"
  using assms
  by (induction fs arbitrary: off fs') (auto simp: Let_def split: prod.splits)

lemma class_loop_layout:
  "layout_fields 8 (cfields cls) = (cfields cls, csize cls) \<Longrightarrow>
   fst (class_loop cls p) = Some cls' \<Longrightarrow>
   layout_fields 8 (cfields cls') = (cfields cls', csize cls')"
proof (induction cls p rule: class_loop.induct)
  case (1 cls p)
  obtain r q where q: "run_state (parse_field cls) p = (r, q)"
    by fastforce
  then have "layout_fields 8 (cfields c) = (cfields c, csize c)" if "r = Some c" for c
    using that layout_fields_append [OF 1(3)]
    by (auto simp: parse_field_def p_get_def Let_def split: prod.splits if_splits)
  then show ?case
    using 1(1,2,3) 1(4) [unfolded class_loop.simps [of cls p]]
    by (auto simp: q split: if_splits option.splits)
qed

lemma parse_class_ok:
  assumes "fst (parse_class p) = Some cls"
  shows "class_ok (resolve_class cls)"
proof -
  obtain cls0 p1 name where cl: "fst (class_loop \<lparr>cname = name, cfields = [], csize = 8, vtable_size = 0\<rparr> p1) = Some cls0"
    and cls: "cls = cls0\<lparr>vtable_size := 16\<rparr>"
    using assms by (auto simp: parse_class_def Let_def case_prod_beta split: if_splits option.splits)
  have "layout_fields 8 (cfields cls0) = (cfields cls0, csize cls0)"
    by (rule class_loop_layout [OF _ cl]) simp
  then show ?thesis
    by (simp add: class_ok_def resolve_class_def cls Let_def)
qed

definition program_ok :: "Program \<Rightarrow> bool" where
  "program_ok prog \<longleftrightarrow> (\<forall>c \<in> set (prog_classes prog). class_ok c)
     \<and> (\<forall>f \<in> set (prog_functions prog). function_ok f)"

lemma program_loop_ok:
  "program_ok (resolve_class_layouts prog) \<Longrightarrow>
   program_ok (resolve_class_layouts (fst (program_loop prog p)))"
proof (induction prog p rule: program_loop.induct)
  case (1 prog p)
  obtain c q where q: "parse_class p = (c, q)"
    by fastforce
  obtain f r where r: "parse_function p = (f, r)"
    by fastforce
  have "program_ok (resolve_class_layouts
      (case c of None \<Rightarrow> prog | Some cls \<Rightarrow> prog\<lparr>prog_classes := prog_classes prog @ [cls]\<rparr>))"
    using 1(4) parse_class_ok [of p] q
    by (auto simp: program_ok_def resolve_class_layouts_def split: option.split)
  moreover have "program_ok (resolve_class_layouts
      (case f of None \<Rightarrow> prog | Some fn \<Rightarrow> prog\<lparr>prog_functions := prog_functions prog @ [fn]\<rparr>))"
    using 1(4) parse_function_ok [of p] r
    by (auto simp: program_ok_def resolve_class_layouts_def split: option.split)
  ultimately show ?case
    using 1 by (subst program_loop.simps) (auto simp: q r)
qed

lemma program_loop_EOF: "ptok (snd (program_loop prog p)) = TOKEN_EOF"
proof (induction prog p rule: program_loop.induct)
  case (1 prog p)
  then show ?case
    by (subst program_loop.simps) (simp add: case_prod_beta)
qed

section \<open>Properties\<close>

text \<open>
  Claim C17. Parsing always finishes and reads the whole text: from any state the parser
  stops with the end-of-file token as its current token, whatever the input.
\<close>
theorem parse_program_reads_all: "ptok (snd (parse_program p)) = TOKEN_EOF"
  using program_loop_EOF by (simp add: parse_program_def Let_def case_prod_beta)

text \<open>
  Claim C10. A program is handed back only when no error was recorded, and the first error
  recorded is the one reported: once an error is latched the parser returns no program and
  message and line stay as they were.
\<close>
theorem parse_program_errors:
  "(fst (parse_program p) = None \<longleftrightarrow> had_error (snd (parse_program p)))
   \<and> (had_error p \<longrightarrow> fst (parse_program p) = None
        \<and> error_message (snd (parse_program p)) = error_message p
        \<and> error_line (snd (parse_program p)) = error_line p)"
proof -
  have "fst (parse_program p) = None \<longleftrightarrow> had_error (snd (parse_program p))"
    by (simp add: parse_program_def Let_def case_prod_beta)
  then show ?thesis
    using first_error.R_program [of p] by (auto simp: error_kept_def error_message_def)
qed

definition failed_parser :: Parser where
  "failed_parser = \<lparr>p_lexer = new_lexer (\<lambda>_ _. True) '':'', current_tok = zero_token, had_error = True,
     error_msg = Some ''Expected ,'', error_line = 7\<rparr>"

theorem parse_program_errors_witness:
  "fst (parse_program failed_parser) = None
   \<and> error_message (snd (parse_program failed_parser)) = ''Expected ,''"
  using parse_program_errors [of failed_parser] by (simp add: failed_parser_def error_message_def)

text \<open>
  Claim C16. No program text with an invalid token is accepted: when the parser returns a
  program, the tokens of its text up to some end-of-file token contain no error token.
\<close>
theorem accepted_text_is_clean:
  assumes "fst (parse_program (new_parser lx)) = Some prog"
  shows "\<exists>n. tok_type (nth_token lx n) = TOKEN_EOF
           \<and> (\<forall>k < n. tok_type (nth_token lx k) \<noteq> TOKEN_ERROR)"
proof -
  let ?p = "new_parser lx" and ?q = "snd (parse_program (new_parser lx))"
  have eof: "ptok ?q = TOKEN_EOF"
    using program_loop_EOF by (simp add: parse_program_def Let_def case_prod_beta)
  have ok: "\<not> had_error ?q"
    using assms by (simp add: parse_program_def Let_def case_prod_beta split: if_splits)
  have p: "p_lexer ?p = skip 1 lx" "current_tok ?p = nth_token lx 0"
      "tok_type (nth_token lx 0) = TOKEN_ERROR \<longrightarrow> had_error ?p"
    by (simp_all add: new_parser_def p_advance_def Let_def case_prod_beta latch_error_def
        nth_token_def skip_def)
  obtain n where n: "0 < n \<longrightarrow> current_tok ?q = nth_token (skip 1 lx) (n - 1)"
      "n = 0 \<longrightarrow> current_tok ?q = nth_token lx 0" "had_error ?p \<longrightarrow> had_error ?q"
      "\<forall>k < n. tok_type (nth_token (skip 1 lx) k) \<noteq> TOKEN_ERROR"
    using clean.R_program [of ?p] ok p unfolding clean_run_def by auto
  have "tok_type (nth_token lx k) \<noteq> TOKEN_ERROR" if "k < n" for k
    using n(3,4) ok p(3) that by (cases k) (auto simp: nth_token_skip)
  moreover have "tok_type (nth_token lx n) = TOKEN_EOF"
    using n(1,2) eof by (cases n) (auto simp: nth_token_skip)
  ultimately show ?thesis
    by blast
qed

theorem accepted_text_is_clean_witness:
  "\<exists>n. tok_type (nth_token (new_lexer (\<lambda>_ _. True) '':'') n) = TOKEN_EOF
     \<and> (\<forall>k < n. tok_type (nth_token (new_lexer (\<lambda>_ _. True) '':'') k) \<noteq> TOKEN_ERROR)"
proof -
  have "fst (parse_program (new_parser (new_lexer (\<lambda>_ _. True) '':''))) =
      Some \<lparr>prog_classes = [], prog_functions = []\<rparr>"
    by code_simp
  then show ?thesis
    using accepted_text_is_clean by blast
qed

lemma parse_program_ok:
  assumes "fst (parse_program p) = Some prog"
  shows "program_ok prog"
proof -
  have "program_ok (resolve_class_layouts \<lparr>prog_classes = [], prog_functions = []\<rparr>)"
    by (simp add: program_ok_def resolve_class_layouts_def)
  then show ?thesis
    using assms program_loop_ok [of "\<lparr>prog_classes = [], prog_functions = []\<rparr>" p]
    by (auto simp: parse_program_def Let_def case_prod_beta split: if_splits)
qed

text \<open>
  Claim C11. What the parser hands back is well formed. In every function the parameters are
  numbered consecutively as \<open>p0, p1, ...\<close> and counted, no instruction with a foldable
  pair of constants remains, and a return or an unconditional jump occurs only at the end of
  a block; in every class the offsets given while parsing are those the layout pass computes,
  the size is the rounded end of the last field, and the vtable has 16 slots.
\<close>
theorem parsed_program_ok:
  assumes "fst (parse_program p) = Some prog"
  shows "program_ok prog"
  using assms by (rule parse_program_ok)

definition sample_source :: string where
  "sample_source = ''.fn .f(.a : i64) add-int/32 v0, 2, 3 .end_fn''"

definition sample_fn :: Function where
  "sample_fn = \<lparr>fn_name = ''.f'', return_type = VOID,
     params = [\<lparr>pname = ''.a'', ptype = I64, preg = \<lparr>reg_type = PARAM, reg_index = 0\<rparr>\<rparr>],
     param_count = 1, local_count = 0,
     blocks = [\<lparr>label = ''entry'', insns =
       [(new_instruction MOVE_CONST)\<lparr>dest := OpReg \<lparr>reg_type = LOCAL, reg_index = 0\<rparr>,
           src1 := OpConst 5, src2 := OpConst 0\<rparr>]\<rparr>]\<rparr>"

theorem parsed_program_ok_witness:
  "function_ok sample_fn"
proof -
  have "fst (parse_program (new_parser (new_lexer (\<lambda>_ _. True) sample_source))) =
    Some \<lparr>prog_classes = [], prog_functions = [sample_fn]\<rparr>"
    by code_simp
  then show ?thesis
    using parsed_program_ok by (fastforce simp: program_ok_def)
qed

end
