(* ===== verification/Source_To_Machine.thy ===== *)
theory Source_To_Machine
  imports X86_Function Parser
begin

text \<open>
  The path from a source text to running machine code: the parser of \<^theory_text>\<open>Parser\<close>, whose
  elimination of dead code gives the functions the shape that the lowering of
  \<^theory_text>\<open>Lowerer\<close> relies on, and the correctness of compiled functions of
  \<^theory_text>\<open>X86_Function\<close>.
\<close>

text \<open>The parser cuts a block after its first jump.\<close>

lemma parsed_jumps: "function_ok fn \<Longrightarrow> x_jumps fn"
  by (auto simp: x_jumps_def list_all_iff function_ok_def block_ok_def is_block_exit_def intro!: jumps_last_exits)

text \<open>
  Claim C2. A source text that parses runs as written. Let the parser accept a text, and let one of the
  functions of the program use moves, negations, bit counts, additions, subtractions, multiplications, shifts, bitwise
  operations, branches, jumps and returns, with at most six parameters and 1024 locals and labels that
  differ. If the compiler returns an image of it, smaller than two gigabytes, and the reference semantics of the
  function returns for the given arguments, then the image, called with these arguments, returns to its caller with the same
  result and leaves the caller's registers and memory alone; the jumps the compiler leaves
  out need no hypothesis, since the parser's functions have no instruction after a jump.
\<close>

theorem source_text_runs:
  assumes "fst (parse_program (new_parser (new_lexer grow src))) = Some prog" "fn \<in> set (prog_functions prog)" "x_shape fn"
    and "compile_function env mm mp fn = Some (n, code)" "length code < 2 ^ 31"
    and "x_called fn \<rho> s" "(ir_step fn)\<^sup>*\<^sup>* (ir_start fn \<rho>) (Returned res)"
  shows "\<exists>m s'. x_run m base code (base, s) = Some (read64 (mem s) (regs s (rn RSP)), s')
    \<and> x_returned (allocate_registers fn) s res s'"
proof -
  have "function_ok fn"
    using parse_program_ok [OF assms(1)] assms(2) by (simp add: program_ok_def)
  then have "x_function fn"
    using parsed_jumps assms(3) by (simp add: x_function_def)
  then show ?thesis
    using assms(4-7) by (rule x86_function_runs)
qed

text \<open>A text, the function it parses to, and a run of its code.\<close>

definition plus_source :: string where
  "plus_source = ''.fn .f(.a : i64) add-int/64 v0, p0, 3 return-val v0 .end_fn''"

definition plus_add :: Instruction where
  "plus_add = (new_instruction ADD_I64)\<lparr>dest := OpReg v0, src1 := OpReg p0, src2 := OpConst 3\<rparr>"

definition plus_ret :: Instruction where
  "plus_ret = (new_instruction RETURN_VAL)\<lparr>src1 := OpReg v0\<rparr>"

definition plus_fn :: Function where
  "plus_fn = \<lparr>fn_name = ''.f'', return_type = VOID,
     params = [\<lparr>pname = ''.a'', ptype = I64, preg = p0\<rparr>], param_count = 1, local_count = 0,
     blocks = [\<lparr>label = ''entry'', insns = [plus_add, plus_ret]\<rparr>]\<rparr>"

lemma plus_parsed:
  "fst (parse_program (new_parser (new_lexer (\<lambda>_ _. True) plus_source))) = Some \<lparr>prog_classes = [], prog_functions = [plus_fn]\<rparr>"
  by code_simp

lemma plus_shape: "x_shape plus_fn"
  by code_simp

lemma plus_compiles:
  "\<exists>n code. compile_function empty_env (\<lambda>_ _. True) True plus_fn = Some (n, code) \<and> length code < 2 ^ 31"
proof -
  have "case compile_function empty_env (\<lambda>_ _. True) True plus_fn of Some (n, code) \<Rightarrow> length code < 128 | None \<Rightarrow> False"
    by code_simp
  then show ?thesis
    by (auto split: option.splits prod.splits)
qed

lemma plus_runs: "(ir_step plus_fn)\<^sup>*\<^sup>* (ir_start plus_fn env2) (Returned (Some 5))"
proof -
  have "ir_result plus_add env2 = Some 5"
    using fold_const_ir [of ADD_I64 2 3, symmetric]
    by (simp add: plus_add_def new_instruction_def ir_result_def opd_val_def exact_def norm32_def fold_const_def Let_def env2_def)
  from ir_step.assign [OF this, of plus_fn 0 "[plus_ret]"]
  have "ir_step plus_fn (ir_start plus_fn env2) (Running 0 [plus_ret] (env2(v0 := 5)))"
    by (simp add: ir_start_def plus_fn_def) (simp add: plus_add_def)
  moreover have "ir_step plus_fn (Running 0 [plus_ret] (env2(v0 := 5))) (Returned (Some 5))"
    using ir_step.ret_val [of plus_ret plus_fn 0 "[]" "env2(v0 := 5)"] by (simp add: plus_ret_def new_instruction_def opd_val_def)
  ultimately show ?thesis
    by (meson converse_rtranclp_into_rtranclp r_into_rtranclp)
qed

lemma plus_called: "x_called plus_fn env2 x_call2"
proof -
  have "ra_param_count (x_ra plus_fn) = 1" "ra_local_count (x_ra plus_fn) = 1"
    by code_simp+
  then show ?thesis
    by (rule x_call2_called)
qed

theorem source_text_runs_witness:
  "\<exists>n code m s'. compile_function empty_env (\<lambda>_ _. True) True plus_fn = Some (n, code)
     \<and> x_run m 0x400000 code (0x400000, x_call2) = Some (0x1000, s') \<and> regs s' (rn RAX) = 5"
proof -
  obtain n code where c: "compile_function empty_env (\<lambda>_ _. True) True plus_fn = Some (n, code)" "length code < 2 ^ 31"
    using plus_compiles by blast
  from source_text_runs [OF plus_parsed _ plus_shape c plus_called plus_runs, of "0x400000"]
  show ?thesis
    using c(1) by (auto simp: x_returned_def x_call2_def read_write64_same reg_num.simps)
qed

end
