(* ===== verification/Ssa.thy ===== *)
theory Ssa
  imports Lower_Correct
begin

text \<open>
  The optimiser (\<open>src/src/optimizer/ana_ssa.cpp\<close>): seven passes over the blocks of a
  function with counters of what they did. The linked lists of blocks and instructions are
  lists; a pass returns whether it changed anything, the function and the counters. The
  value-numbering and self-move passes are compared with the reference semantics of
  straight-line code.
\<close>

section \<open>State\<close>

record AnaSSAIR =
  promoted_stack_slots :: u32
  hoisted_invariants :: u32
  eliminated_gvn_exprs :: u32
  scalar_replaced_objects :: u32
  vectorized_loops :: u32
  non_temporal_streams :: u32
  folded_string_lengths :: u32

definition new_ssa :: AnaSSAIR where
  "new_ssa = \<lparr>promoted_stack_slots = 0, hoisted_invariants = 0, eliminated_gvn_exprs = 0, scalar_replaced_objects = 0,
     vectorized_loops = 0, non_temporal_streams = 0, folded_string_lengths = 0\<rparr>"

type_synonym pass = "Function \<Rightarrow> AnaSSAIR \<Rightarrow> bool \<times> Function \<times> AnaSSAIR"

text \<open>\<open>Register::operator==\<close> on the storage of a register operand and a register.\<close>

definition reg_is :: "Operand \<Rightarrow> Register \<Rightarrow> bool" where
  "reg_is opd r \<longleftrightarrow> op_reg opd = r"

section \<open>String lengths\<close>

text \<open>
  \<open>known\<close> holds at most 64 entries in order. The result is the new instruction, the
  table and whether a length was folded.
\<close>

definition fold_length :: "(Register \<times> u64) list \<Rightarrow> Instruction \<Rightarrow> Instruction \<times> (Register \<times> u64) list \<times> bool" where
  "fold_length known insn =
     (if op insn = CONST_STRING \<and> op_kind (dest insn) = REGISTER
      then (insn, if length known < 64 then known @ [(op_reg (dest insn), string_len insn)] else known, False)
      else if op insn = STR_LEN then
        (let found = (if string_val insn \<noteq> None then Some (string_len insn)
                      else if op_kind (src1 insn) = REGISTER
                      then map_option snd (find (\<lambda>(r, _). r = op_reg (src1 insn)) known)
                      else None) in
         case found of
           Some len \<Rightarrow> (insn\<lparr>op := MOVE_CONST, src1 := OpConst len\<rparr>, known, True)
         | None \<Rightarrow> (insn, known, False))
      else (insn, known, False))"

fun fold_lengths :: "(Register \<times> u64) list \<Rightarrow> Instruction list \<Rightarrow> Instruction list \<times> (Register \<times> u64) list \<times> nat" where
  "fold_lengths known [] = ([], known, 0)"
| "fold_lengths known (i # is) =
     (let (i', known', hit) = fold_length known i; (is', known'', n) = fold_lengths known' is in
      (i' # is', known'', (if hit then 1 else 0) + n))"

fun fold_length_blocks :: "(Register \<times> u64) list \<Rightarrow> BasicBlock list \<Rightarrow> BasicBlock list \<times> nat" where
  "fold_length_blocks known [] = ([], 0)"
| "fold_length_blocks known (b # bs) =
     (let (is', known', n) = fold_lengths known (insns b); (bs', m) = fold_length_blocks known' bs in
      (b\<lparr>insns := is'\<rparr> # bs', n + m))"

definition run_length_folding :: pass where
  "run_length_folding fn st =
     (let (bs, n) = fold_length_blocks [] (blocks fn) in
      (n > 0, fn\<lparr>blocks := bs\<rparr>, st\<lparr>folded_string_lengths := folded_string_lengths st + of_nat n\<rparr>))"

section \<open>Passes that look at one instruction at a time\<close>

definition is_stream :: "Instruction \<Rightarrow> bool" where
  "is_stream i \<longleftrightarrow> op i = ADD_VECTOR_I32X8 \<or> op i = ADD_VECTOR_I32X16"

definition run_stream_analysis :: pass where
  "run_stream_analysis fn st =
     (let n = length (filter is_stream (all_insns fn)) in
      (n > 0, fn, st\<lparr>non_temporal_streams := non_temporal_streams st + of_nat n\<rparr>))"

definition map_insns :: "(Instruction \<Rightarrow> Instruction) \<Rightarrow> Function \<Rightarrow> Function" where
  "map_insns f fn = fn\<lparr>blocks := map (\<lambda>b. b\<lparr>insns := map f (insns b)\<rparr>) (blocks fn)\<rparr>"

definition run_autovectorizer :: pass where
  "run_autovectorizer fn st =
     (let n = length (filter (\<lambda>i. op i = ADD_VECTOR_I32X4) (all_insns fn)) in
      (n > 0, map_insns (\<lambda>i. if op i = ADD_VECTOR_I32X4 then i\<lparr>op := ADD_VECTOR_I32X8\<rparr> else i) fn,
       st\<lparr>vectorized_loops := vectorized_loops st + of_nat n\<rparr>))"

definition is_invariant :: "Instruction \<Rightarrow> bool" where
  "is_invariant i \<longleftrightarrow> op i = MOVE_CONST \<or> op i = ADD_I64 \<and> op_kind (src1 i) = CONST_INT"

definition run_licm :: pass where
  "run_licm fn st =
     (let n = length (filter is_invariant (all_insns fn)) in
      (n > 0, fn, st\<lparr>hoisted_invariants := hoisted_invariants st + of_nat n\<rparr>))"

section \<open>Escape analysis\<close>

definition escapes_at :: "Register \<Rightarrow> Instruction \<Rightarrow> bool" where
  "escapes_at r i \<longleftrightarrow> op i = RETURN_VAL \<and> op_kind (dest i) = REGISTER \<and> reg_is (dest i) r
     \<or> op i = STORE_MEM \<and> op_kind (src1 i) = REGISTER \<and> reg_is (src1 i) r"

definition is_replaced :: "Function \<Rightarrow> Instruction \<Rightarrow> bool" where
  "is_replaced fn i \<longleftrightarrow> op i = NEW_INSTANCE \<and> \<not> list_ex (escapes_at (op_reg (dest i))) (all_insns fn)"

text \<open>
  Replacing an allocation changes neither a return nor a store, so whether an allocation
  escapes can be decided on the function the pass started with.
\<close>

definition run_escape_analysis :: pass where
  "run_escape_analysis fn st =
     (let n = length (filter (is_replaced fn) (all_insns fn)) in
      (n > 0, map_insns (\<lambda>i. if is_replaced fn i then i\<lparr>op := MOVE_CONST, src1 := OpConst 0\<rparr> else i) fn,
       st\<lparr>scalar_replaced_objects := scalar_replaced_objects st + of_nat n\<rparr>))"

section \<open>Self-moves\<close>

definition is_self_move :: "Instruction \<Rightarrow> bool" where
  "is_self_move i \<longleftrightarrow> op i = MOVE \<and> op_kind (dest i) = REGISTER \<and> op_kind (src1 i) = REGISTER
     \<and> op_reg (dest i) = op_reg (src1 i)"

definition run_mem2reg :: pass where
  "run_mem2reg fn st =
     (let n = length (filter is_self_move (all_insns fn)) in
      (n > 0, fn\<lparr>blocks := map (\<lambda>b. b\<lparr>insns := filter (\<lambda>i. \<not> is_self_move i) (insns b)\<rparr>) (blocks fn)\<rparr>,
       st\<lparr>promoted_stack_slots := promoted_stack_slots st + of_nat n\<rparr>))"

section \<open>Value numbering\<close>

definition congruent :: "Instruction \<Rightarrow> Instruction \<Rightarrow> bool" where
  "congruent i j \<longleftrightarrow> op i = op j
     \<and> op_kind (src1 i) = op_kind (src1 j) \<and> op_reg_eq (src1 i) (src1 j)
     \<and> op_kind (src2 i) = op_kind (src2 j) \<and> op_reg_eq (src2 i) (src2 j)"

definition reuse :: "Instruction \<Rightarrow> Instruction \<Rightarrow> Instruction" where
  "reuse i j = (if congruent i j then j\<lparr>op := MOVE, src1 := dest i, src2 := OpNone\<rparr> else j)"

text \<open>The outer loop; the inner loop rewrites the rest of the block in place.\<close>

function gvn_insns :: "Instruction list \<Rightarrow> Instruction list \<times> nat" where
  "gvn_insns [] = ([], 0)"
| "gvn_insns (i # is) =
     (if op i \<noteq> ADD_I64 \<and> op i \<noteq> SUB_I64
      then (let (is', n) = gvn_insns is in (i # is', n))
      else (let (is', n) = gvn_insns (map (reuse i) is) in
            (i # is', length (filter (congruent i) is) + n)))"
  by pat_completeness auto
termination
  by (relation "measure length") auto

fun gvn_blocks :: "BasicBlock list \<Rightarrow> BasicBlock list \<times> nat" where
  "gvn_blocks [] = ([], 0)"
| "gvn_blocks (b # bs) =
     (let (is', n) = gvn_insns (insns b); (bs', m) = gvn_blocks bs in (b\<lparr>insns := is'\<rparr> # bs', n + m))"

definition run_gvn :: pass where
  "run_gvn fn st =
     (let (bs, n) = gvn_blocks (blocks fn) in
      (n > 0, fn\<lparr>blocks := bs\<rparr>, st\<lparr>eliminated_gvn_exprs := eliminated_gvn_exprs st + of_nat n\<rparr>))"

section \<open>The pipeline\<close>

definition then_pass :: "pass \<Rightarrow> pass \<Rightarrow> pass" where
  "then_pass p q fn st =
     (let (c, fn', st') = p fn st; (c', fn'', st'') = q fn' st' in (c \<or> c', fn'', st''))"

definition optimize_function :: pass where
  "optimize_function fn st =
     (if blocks fn = [] then (False, fn, st)
      else then_pass run_length_folding (then_pass run_escape_analysis (then_pass run_autovectorizer
             (then_pass run_stream_analysis (then_pass run_mem2reg (then_pass run_licm run_gvn))))) fn st)"

fun optimize_functions :: "Function list \<Rightarrow> AnaSSAIR \<Rightarrow> bool \<times> Function list \<times> AnaSSAIR" where
  "optimize_functions [] st = (False, [], st)"
| "optimize_functions (f # fs) st =
     (let (c, f', st') = optimize_function f st; (c', fs', st'') = optimize_functions fs st' in
      (c \<or> c', f' # fs', st''))"

definition optimize_program :: "Program option \<Rightarrow> AnaSSAIR \<Rightarrow> bool \<times> Program option \<times> AnaSSAIR" where
  "optimize_program prog st =
     (case prog of
        None \<Rightarrow> (False, None, st)
      | Some p \<Rightarrow>
          (let (c, fs, st') = optimize_functions (prog_functions p) st in (c, Some (p\<lparr>prog_functions := fs\<rparr>), st')))"

section \<open>Self-moves do nothing\<close>

lemma self_move_result:
  assumes "is_self_move i"
  shows "ir_result i \<rho> = Some (\<rho> (op_reg (dest i)))"
  using assms by (cases "src1 i"; cases "dest i") (auto simp: is_self_move_def ir_result_def opd_val_def)

lemma run_without_self_moves: "ir_run (filter (\<lambda>i. \<not> is_self_move i) is) \<rho> = ir_run is \<rho>"
  by (induction "is" arbitrary: \<rho>) (auto simp: self_move_result split: option.split)

section \<open>Value numbering is correct on single-assignment code\<close>

definition opd_regs :: "Operand \<Rightarrow> Register list" where
  "opd_regs opd = (case opd of OpReg r \<Rightarrow> [r] | _ \<Rightarrow> [])"

definition src_regs :: "Instruction \<Rightarrow> Register list" where
  "src_regs i = opd_regs (src1 i) @ opd_regs (src2 i)"

text \<open>No instruction assigns a register that an earlier or the same instruction reads or an earlier one assigns.\<close>

fun ssa_form :: "Instruction list \<Rightarrow> bool" where
  "ssa_form [] = True"
| "ssa_form (i # is) \<longleftrightarrow> op_reg (dest i) \<notin> set (src_regs i)
     \<and> (\<forall>j \<in> set is. op_reg (dest j) \<notin> insert (op_reg (dest i)) (set (src_regs i))) \<and> ssa_form is"

lemma opd_val_upd: "r \<notin> set (opd_regs opd) \<Longrightarrow> opd_val (\<rho>(r := v)) opd = opd_val \<rho> opd"
  by (cases opd) (auto simp: opd_val_def opd_regs_def)

lemma ir_result_upd: "r \<notin> set (src_regs i) \<Longrightarrow> ir_result i (\<rho>(r := v)) = ir_result i \<rho>"
  by (simp add: src_regs_def ir_result_def opd_val_upd)

lemma plain_opd_eq:
  assumes "plain_opd a" "plain_opd b" "op_kind a = op_kind b" "op_reg_eq a b"
  shows "a = b"
  using assms by (cases a; cases b) (auto simp: plain_opd_def op_reg_eq_def reg_bits_inj)

lemma alu_plain: "plain_straight i \<Longrightarrow> op i = ADD_I64 \<or> op i = SUB_I64 \<Longrightarrow> plain_opd (src1 i) \<and> plain_opd (src2 i)"
  by (auto simp: plain_straight_def)

lemma congruent_result:
  assumes "plain_straight i" "plain_straight j" "op i = ADD_I64 \<or> op i = SUB_I64" "congruent i j"
  shows "ir_result j \<rho> = ir_result i \<rho>"
proof -
  have "op j = op i" "src1 j = src1 i" "src2 j = src2 i"
    using assms alu_plain [OF assms(1,3)] alu_plain [OF assms(2)] plain_opd_eq [of "src1 i" "src1 j"] plain_opd_eq [of "src2 i" "src2 j"]
    by (auto simp: congruent_def)
  then show ?thesis
    unfolding ir_result_def by (simp only:)
qed

lemma plain_dest: "plain_straight i \<Longrightarrow> \<exists>d. dest i = OpReg d"
  by (cases "dest i") (auto simp: plain_straight_def)

lemma reuse_dest [simp]: "dest (reuse i j) = dest j"
  by (simp add: reuse_def)

lemma run_reuse:
  assumes "plain_straight i" "op i = ADD_I64 \<or> op i = SUB_I64"
    and "\<forall>j \<in> set is. plain_straight j \<and> op_reg (dest j) \<notin> insert (op_reg (dest i)) (set (src_regs i))"
    and "ir_result i \<rho> = Some (\<rho> (op_reg (dest i)))"
  shows "ir_run (map (reuse i) is) \<rho> = ir_run is \<rho>"
  using assms(3,4)
proof (induction "is" arbitrary: \<rho>)
  case (Cons j "is")
  obtain d where d: "dest i = OpReg d"
    using plain_dest [OF assms(1)] by blast
  have "ir_result (reuse i j) \<rho> = ir_result j \<rho>"
  proof (cases "congruent i j")
    case True
    then show ?thesis
      using congruent_result [OF assms(1) _ assms(2) True] Cons.prems d by (simp add: reuse_def ir_result_def [of "_\<lparr>src2 := _\<rparr>"] opd_val_def)
  qed (simp add: reuse_def)
  moreover have "ir_run (map (reuse i) is) (\<rho>(op_reg (dest j) := v)) = ir_run is (\<rho>(op_reg (dest j) := v))" for v
  proof (rule Cons.IH)
    show "ir_result i (\<rho>(op_reg (dest j) := v)) = Some ((\<rho>(op_reg (dest j) := v)) (op_reg (dest i)))"
      using Cons.prems by (auto simp: ir_result_upd simp del: fun_upd_apply)
        (auto simp: fun_upd_apply)
  qed (use Cons.prems in simp)
  ultimately show ?case
    by (simp split: option.split)
qed simp

lemma reuse_plain: "plain_straight i \<Longrightarrow> plain_straight j \<Longrightarrow> plain_straight (reuse i j)"
  by (auto simp: reuse_def plain_straight_def)

lemma reuse_src: "plain_straight i \<Longrightarrow> set (src_regs (reuse i j)) \<subseteq> insert (op_reg (dest i)) (set (src_regs j))"
  using plain_dest [of i] by (auto simp: reuse_def src_regs_def opd_regs_def)

lemma reuse_ssa:
  assumes "plain_straight i" "ssa_form is" "\<forall>j \<in> set is. op_reg (dest j) \<noteq> op_reg (dest i)"
  shows "ssa_form (map (reuse i) is)"
  using assms(2,3)
proof (induction "is")
  case (Cons j "is")
  then show ?case
    using reuse_src [OF assms(1), of j] by auto
qed simp

lemma gvn_run:
  assumes "ssa_form is" "list_all plain_straight is"
  shows "ir_run (fst (gvn_insns is)) \<rho> = ir_run is \<rho> \<and> list_all plain_straight (fst (gvn_insns is))"
  using assms
proof (induction "is" arbitrary: \<rho> rule: gvn_insns.induct)
  case (2 i "is")
  show ?case
  proof (cases "op i \<noteq> ADD_I64 \<and> op i \<noteq> SUB_I64")
    case True
    then show ?thesis
      using 2(1) 2(3,4) by (auto simp: case_prod_beta split: option.split)
  next
    case False
    have i: "plain_straight i" "op i = ADD_I64 \<or> op i = SUB_I64"
      and js: "\<forall>j \<in> set is. plain_straight j \<and> op_reg (dest j) \<notin> insert (op_reg (dest i)) (set (src_regs i))"
      using 2(3,4) False by (auto simp: list_all_iff)
    have "ssa_form (map (reuse i) is)" "list_all plain_straight (map (reuse i) is)"
      using reuse_ssa [OF i(1)] reuse_plain [OF i(1)] 2(3) js by (auto simp: list_all_iff)
    then have IH: "ir_run (fst (gvn_insns (map (reuse i) is))) \<rho>' = ir_run (map (reuse i) is) \<rho>'"
      "list_all plain_straight (fst (gvn_insns (map (reuse i) is)))" for \<rho>'
      using 2(2) False by auto
    have "ir_run (map (reuse i) is) (\<rho>(op_reg (dest i) := v)) = ir_run is (\<rho>(op_reg (dest i) := v))"
      if "ir_result i \<rho> = Some v" for v
    proof (rule run_reuse [OF i js])
      show "ir_result i (\<rho>(op_reg (dest i) := v)) = Some ((\<rho>(op_reg (dest i) := v)) (op_reg (dest i)))"
        using 2(3) that by (simp add: ir_result_upd)
    qed
    then show ?thesis
      using IH False i(1) by (auto simp: case_prod_beta split: option.split)
  qed
qed simp


section \<open>The pipeline on straight-line code\<close>

lemma plain_ops: "plain_straight i \<Longrightarrow> op i \<notin> {CONST_STRING, STR_LEN, NEW_INSTANCE, ADD_VECTOR_I32X4}"
  by (auto simp: plain_straight_def lowered_alu_def)

lemma fold_lengths_plain: "list_all plain_straight is \<Longrightarrow> fold_lengths known is = (is, known, 0)"
  by (induction "is") (auto simp: fold_length_def dest: plain_ops)

definition plain_function :: "Function \<Rightarrow> bool" where
  "plain_function fn \<longleftrightarrow> list_all (\<lambda>b. list_all plain_straight (insns b)) (blocks fn)"

lemma plain_insns: "plain_function fn \<Longrightarrow> i \<in> set (all_insns fn) \<Longrightarrow> plain_straight i"
  by (auto simp: plain_function_def all_insns_def list_all_iff)

lemma fold_length_blocks_plain: "list_all (\<lambda>b. list_all plain_straight (insns b)) bs \<Longrightarrow> fold_length_blocks known bs = (bs, 0)"
  by (induction bs arbitrary: known) (simp_all add: fold_lengths_plain)

lemma map_insns_id: "(\<And>i. i \<in> set (all_insns fn) \<Longrightarrow> f i = i) \<Longrightarrow> map_insns f fn = fn"
proof -
  assume "\<And>i. i \<in> set (all_insns fn) \<Longrightarrow> f i = i"
  then have "map f (insns b) = insns b" if "b \<in> set (blocks fn)" for b
    using that by (intro map_idI) (auto simp: all_insns_def)
  then have "map (\<lambda>b. b\<lparr>insns := map f (insns b)\<rparr>) (blocks fn) = blocks fn"
    by (intro map_idI) simp
  then show ?thesis
    by (simp add: map_insns_def)
qed

lemma early_passes:
  assumes "plain_function fn"
  shows "fst (snd (run_length_folding fn st)) = fn" "fst (snd (run_escape_analysis fn st)) = fn"
    "fst (snd (run_autovectorizer fn st)) = fn" "fst (snd (run_stream_analysis fn st)) = fn" "fst (snd (run_licm fn st)) = fn"
  using assms plain_ops [OF plain_insns [OF assms]]
  by (auto simp: run_length_folding_def run_escape_analysis_def run_autovectorizer_def run_stream_analysis_def run_licm_def
      fold_length_blocks_plain plain_function_def Let_def is_replaced_def intro!: map_insns_id)

definition strip_moves :: "Instruction list \<Rightarrow> Instruction list" where
  "strip_moves is = filter (\<lambda>i. \<not> is_self_move i) is"

lemma gvn_blocks_eq: "fst (gvn_blocks bs) = map (\<lambda>b. b\<lparr>insns := fst (gvn_insns (insns b))\<rparr>) bs"
  by (induction bs) (auto simp: case_prod_beta)

lemma then_pass_fn: "fst (snd (then_pass p q fn st)) = fst (snd (q (fst (snd (p fn st))) (snd (snd (p fn st)))))"
  by (simp add: then_pass_def case_prod_beta)

lemma plain_strip: "plain_function fn \<Longrightarrow> plain_function (fn\<lparr>blocks := map (\<lambda>b. b\<lparr>insns := strip_moves (insns b)\<rparr>) (blocks fn)\<rparr>)"
  by (auto simp: plain_function_def list_all_iff strip_moves_def)

lemma optimize_plain:
  assumes "plain_function fn"
  shows "fst (snd (optimize_function fn st)) =
    fn\<lparr>blocks := map (\<lambda>b. b\<lparr>insns := fst (gvn_insns (strip_moves (insns b)))\<rparr>) (blocks fn)\<rparr>"
proof -
  let ?f = "fn\<lparr>blocks := map (\<lambda>b. b\<lparr>insns := strip_moves (insns b)\<rparr>) (blocks fn)\<rparr>"
  have m: "fst (snd (run_mem2reg fn st')) = ?f" for st'
    by (simp add: run_mem2reg_def strip_moves_def Let_def)
  have g: "fst (snd (run_gvn ?f st')) = fn\<lparr>blocks := map (\<lambda>b. b\<lparr>insns := fst (gvn_insns (strip_moves (insns b)))\<rparr>) (blocks fn)\<rparr>" for st'
    using gvn_blocks_eq [of "blocks ?f"] by (simp add: run_gvn_def case_prod_beta comp_def)
  show ?thesis
  proof (cases "blocks fn = []")
    case True
    then show ?thesis
      by (simp add: optimize_function_def)
  next
    case False
    then show ?thesis
      by (simp add: optimize_function_def then_pass_fn early_passes [OF assms] m early_passes(5) [OF plain_strip [OF assms]] g)
  qed
qed

lemma optimized_block:
  assumes "list_all plain_straight is" "ssa_form (strip_moves is)"
  shows "ir_run (fst (gvn_insns (strip_moves is))) \<rho> = ir_run is \<rho>"
    and "list_all plain_straight (fst (gvn_insns (strip_moves is)))"
proof -
  have "list_all plain_straight (strip_moves is)"
    using assms(1) by (auto simp: strip_moves_def list_all_iff)
  from gvn_run [OF assms(2) this, of \<rho>] run_without_self_moves [of "is" \<rho>]
  show "ir_run (fst (gvn_insns (strip_moves is))) \<rho> = ir_run is \<rho>"
    and "list_all plain_straight (fst (gvn_insns (strip_moves is)))"
    by (simp_all add: strip_moves_def)
qed

text \<open>
  Claim C7. Optimised code is correct. For a function of straight-line blocks whose registers
  are assigned once, before they are read, in each block, the optimiser keeps the number and the
  labels of the blocks, and the machine code compiled from each optimised block, run from a
  state that represents an assignment of values to the registers of the optimised function,
  computes what the block had computed before optimisation.
\<close>

theorem optimized_code_correct:
  assumes "plain_function fn" "list_all (\<lambda>b. ssa_form (strip_moves (insns b))) (blocks fn)"
    and "optimize_function fn st = (changed, fn', st')" "k < length (blocks fn)"
    and "max_local fn' < 0xFFFFFFFF" "le_ra env = allocate_registers fn'"
  shows "map label (blocks fn') = map label (blocks fn) \<and>
    (\<exists>code. asm (lower_insns env nxt (insns (blocks fn' ! k))) () code \<and>
      (\<forall>\<rho> \<rho>' s. rep (le_ra env) \<rho> s \<and> ir_run (insns (blocks fn ! k)) \<rho> = Some \<rho>' \<longrightarrow>
         (\<exists>s'. exec_list code s = Some s' \<and> rep (le_ra env) \<rho>' s' \<and> frame_kept (le_ra env) s s')))"
proof -
  let ?is = "insns (blocks fn ! k)"
  have fn': "fn' = fn\<lparr>blocks := map (\<lambda>b. b\<lparr>insns := fst (gvn_insns (strip_moves (insns b)))\<rparr>) (blocks fn)\<rparr>"
    using optimize_plain [OF assms(1), of st] assms(3) by simp
  have b: "insns (blocks fn' ! k) = fst (gvn_insns (strip_moves ?is))" "length (blocks fn') = length (blocks fn)"
    using assms(4) by (simp_all add: fn')
  have k: "list_all plain_straight ?is" "ssa_form (strip_moves ?is)"
    using assms(1,2,4) by (auto simp: plain_function_def list_all_iff)
  have "blocks fn' ! k \<in> set (blocks fn')"
    using assms(4) b(2) by simp
  then have "set (insns (blocks fn' ! k)) \<subseteq> set (all_insns fn')"
    by (auto simp: all_insns_def)
  then have "\<forall>i \<in> set (insns (blocks fn' ! k)). straight (le_ra env) i"
    using fn_straight assms(5,6) optimized_block(2) [OF k] b(1) by (auto simp: list_all_iff)
  from straight_line [OF _ this, of nxt] have
    "\<exists>code. asm (lower_insns env nxt (insns (blocks fn' ! k))) () code \<and>
      (\<forall>\<rho> \<rho>' s. rep (le_ra env) \<rho> s \<longrightarrow> ir_run ?is \<rho> = Some \<rho>' \<longrightarrow>
         (\<exists>s'. exec_list code s = Some s' \<and> rep (le_ra env) \<rho>' s' \<and> frame_kept (le_ra env) s s'))"
    using allocate_ok [of fn'] assms(6) optimized_block(1) [OF k] b(1) by simp
  then show ?thesis
    by (simp add: imp_conjL fn')
qed


definition sample_sub :: Instruction where
  "sample_sub = (plain_insn SUB_I64 None)\<lparr>dest := OpReg v1, src1 := OpConst 9, src2 := OpConst 2\<rparr>"

definition sample_again :: Instruction where
  "sample_again = sample_sub\<lparr>dest := OpReg v0\<rparr>"

definition twice_fn :: Function where
  "twice_fn = sample_fn\<lparr>blocks := [\<lparr>label = ''entry'', insns = [sample_sub, sample_again]\<rparr>]\<rparr>"

definition twice_opt :: Function where
  "twice_opt = sample_fn\<lparr>blocks := [\<lparr>label = ''entry'',
     insns = [sample_sub, sample_again\<lparr>op := MOVE, src1 := OpReg v1, src2 := OpNone\<rparr>]\<rparr>]\<rparr>"

lemma twice_optimized: "fst (snd (optimize_function twice_fn new_ssa)) = twice_opt"
  by code_simp

theorem optimized_code_correct_witness:
  "\<exists>code s'. asm (lower_insns (empty_env\<lparr>le_ra := allocate_registers twice_opt\<rparr>) None (insns (blocks twice_opt ! 0))) () code
     \<and> exec_list code sample_state = Some s' \<and> regs s' (rn RBX) = 7"
proof -
  let ?env = "empty_env\<lparr>le_ra := allocate_registers twice_opt\<rparr>" and ?is = "[sample_sub, sample_again]"
  let ?\<rho> = "\<lambda>r. if r = v1 then 40 else (0 :: u64)"
  have p: "plain_function twice_fn" "list_all (\<lambda>b. ssa_form (strip_moves (insns b))) (blocks twice_fn)"
    "max_local twice_opt < 0xFFFFFFFF" "ra_local_count (allocate_registers twice_opt) = 2"
    "ra_param_count (allocate_registers twice_opt) = 0" "0 < length (blocks twice_fn)"
    by code_simp+
  have o: "optimize_function twice_fn new_ssa = (fst (optimize_function twice_fn new_ssa), twice_opt,
      snd (snd (optimize_function twice_fn new_ssa)))"
    using twice_optimized by (metis prod.collapse)
  have rep: "rep (allocate_registers twice_opt) ?\<rho> sample_state"
  proof -
    have "reg_slot (allocate_registers twice_opt) r = reg_slot (allocate_registers sample_fn) r"
      "ir_reg (allocate_registers twice_opt) r = ir_reg (allocate_registers sample_fn) r" for r
      using p(4,5) sample_counts(2,3) by (simp_all add: ir_reg_def live_reg_def reg_slot_def)
    then show ?thesis
      using sample_rep by (simp add: rep_def)
  qed
  have run: "ir_run (insns (blocks twice_fn ! 0)) ?\<rho> = Some (?\<rho>(v1 := 7, v0 := 7))"
    by (simp add: twice_fn_def ir_result_def sample_sub_def sample_again_def plain_insn_def opd_val_def exact_def norm32_def
        ir_alu_def ir_arith_def is_alu32_def wrap_def)
  have le: "le_ra ?env = allocate_registers twice_opt"
    by simp
  obtain code s' where c: "asm (lower_insns ?env None (insns (blocks twice_opt ! 0))) () code"
    "exec_list code sample_state = Some s'" "rep (le_ra ?env) (?\<rho>(v1 := 7, v0 := 7)) s'"
    using optimized_code_correct [OF p(1,2) o p(6,3) le, of None] rep run unfolding le by blast
  have "ir_reg (le_ra ?env) v0" "reg_slot (le_ra ?env) v0 = Inl RBX"
    using p(4) by (simp_all add: ir_reg_def live_reg_def v0_def reg_slot_def kAllocatablePhysRegs_def)
  then have "regs s' (rn RBX) = 7"
    using c(3) by (auto simp: rep_def val_at_def)
  then show ?thesis
    using c(1,2) by blast
qed

text \<open>
  Without the single-assignment condition value numbering is wrong: in \<open>v1 := v0 + 1; v0 := 5;
  v2 := v0 + 1\<close> the last addition is replaced by \<open>v1\<close> although \<open>v0\<close> has changed.
\<close>

definition v2 :: Register where "v2 = \<lparr>reg_type = LOCAL, reg_index = 2\<rparr>"

definition reassigned :: "Instruction list" where
  "reassigned = [(plain_insn ADD_I64 None)\<lparr>dest := OpReg v1, src1 := OpReg v0, src2 := OpConst 1\<rparr>,
     (plain_insn MOVE_CONST None)\<lparr>dest := OpReg v0, src1 := OpConst 5\<rparr>,
     (plain_insn ADD_I64 None)\<lparr>dest := OpReg v2, src1 := OpReg v0, src2 := OpConst 1\<rparr>]"

lemma gvn_ignores_reassignment:
  "map_option (\<lambda>\<rho>. \<rho> v2) (ir_run reassigned (\<lambda>_. 0)) = Some 6
   \<and> map_option (\<lambda>\<rho>. \<rho> v2) (ir_run (fst (gvn_insns reassigned)) (\<lambda>_. 0)) = Some 1"
  by code_simp

end
