(* ===== verification/Alloc.thy ===== *)
theory Alloc
  imports Prelude
begin

text \<open>
  The allocators of the program: the object heap of the running code
  (\<open>src/src/sys/object_heap.cpp\<close>), the arena of the front end
  (\<open>src/src/frontend/arena_allocator.h\<close>), the string pool of the just-in-time compiler
  (\<open>src/src/backend/jit_string_pool.cpp\<close>) and the thread-local buffer
  (\<open>src/src/sys/tlab_provider.cpp\<close>). Sizes and addresses are 64-bit words with the
  source's overflow checks; a null pointer is address 0. Chunk headers are kept as records.
  The kernel's \<open>mmap\<close> is an oracle field of the state, a function of the live mappings
  and the requested size; \<open>mmap_ok\<close> states what the program relies on.
\<close>

unbundle bit_operations_syntax

section \<open>The operating system\<close>

record OS =
  os_mmap :: "(u64 \<times> u64) list \<Rightarrow> u64 \<Rightarrow> u64"
  os_live :: "(u64 \<times> u64) list"

definition mmap_failed :: "u64 \<Rightarrow> bool" where
  "mmap_failed p \<longleftrightarrow> p = 0 \<or> p = - 1"

text \<open>\<open>raw_mmap\<close> with the test of its result; a failure is \<open>None\<close>.\<close>

definition raw_mmap :: "u64 \<Rightarrow> OS \<Rightarrow> u64 option \<times> OS" where
  "raw_mmap sz s =
     (let p = os_mmap s (os_live s) sz in
      if mmap_failed p then (None, s) else (Some p, s\<lparr>os_live := (p, sz) # os_live s\<rparr>))"

definition raw_munmap :: "u64 \<Rightarrow> u64 \<Rightarrow> OS \<Rightarrow> OS" where
  "raw_munmap p sz s = s\<lparr>os_live := removeAll (p, sz) (os_live s)\<rparr>"

definition span :: "u64 \<Rightarrow> nat \<Rightarrow> nat set" where
  "span p n = {unat p ..< unat p + n}"

text \<open>
  Documented behaviour of an anonymous private mapping without an address hint: page aligned,
  below the user-space limit of 2^47, and disjoint from every mapping that is live.
\<close>

definition mmap_ok :: "((u64 \<times> u64) list \<Rightarrow> u64 \<Rightarrow> u64) \<Rightarrow> bool" where
  "mmap_ok f \<longleftrightarrow> (\<forall>ms sz. \<not> mmap_failed (f ms sz) \<longrightarrow>
     4096 dvd unat (f ms sz) \<and> 0 < unat (f ms sz) \<and> unat (f ms sz) + unat sz \<le> 2 ^ 47
     \<and> (\<forall>(q, n) \<in> set ms. span (f ms sz) (unat sz) \<inter> span q (unat n) = {}))"

text \<open>Byte memory.\<close>

type_synonym memory = "u64 \<Rightarrow> u8"

definition store_bytes :: "u64 \<Rightarrow> bytes \<Rightarrow> memory \<Rightarrow> memory" where
  "store_bytes a bs m = (\<lambda>x. if unat (x - a) < length bs then bs ! unat (x - a) else m x)"

definition load_bytes :: "u64 \<Rightarrow> nat \<Rightarrow> memory \<Rightarrow> bytes" where
  "load_bytes a n m = map (\<lambda>i. m (a + of_nat i)) [0..<n]"

text \<open>\<open>(n + 4095) & ~4095\<close>\<close>

definition page_round :: "u64 \<Rightarrow> u64" where
  "page_round n = (n + 4095) AND NOT 4095"

section \<open>Object heap\<close>

record HeapChunk =
  c_base :: u64
  mapping_size :: u64
  c_capacity :: u64
  c_offset :: u64

text \<open>The list \<open>head_ ... current_\<close>, the kernel and the memory the objects live in.\<close>

record ObjectHeap =
  chunks :: "HeapChunk list"
  oh_os :: OS
  oh_mem :: memory

definition kChunkHeaderBytes :: u64 where "kChunkHeaderBytes = 64"
definition kDefaultChunkBytes :: u64 where "kDefaultChunkBytes = 65536"
definition kMaxSingleObject :: u64 where "kMaxSingleObject = 0x40000000"

text \<open>Size and rounding of a new chunk, \<open>None\<close> on overflow; shared with the string pool.\<close>

definition chunk_size :: "u64 \<Rightarrow> u64 option" where
  "chunk_size min_usable =
     (let needed = min_usable + kChunkHeaderBytes in
      if needed < min_usable then None
      else
        (let mapping = (if needed > kDefaultChunkBytes then needed else kDefaultChunkBytes);
             rounded = page_round mapping in
         if rounded < mapping then None else Some rounded))"

definition new_chunk :: "u64 \<Rightarrow> HeapChunk list \<Rightarrow> OS \<Rightarrow> HeapChunk list option \<times> OS" where
  "new_chunk min_usable cs s =
     (case chunk_size min_usable of
        None \<Rightarrow> (None, s)
      | Some rounded \<Rightarrow>
          (case raw_mmap rounded s of
             (None, s') \<Rightarrow> (None, s')
           | (Some p, s') \<Rightarrow>
               (Some (cs @ [\<lparr>c_base = p, mapping_size = rounded, c_capacity = rounded - kChunkHeaderBytes,
                             c_offset = 0\<rparr>]), s')))"

text \<open>
  Bump allocation of \<open>need\<close> bytes in the current chunk, or in a new one: the tail that
  \<open>allocate_object\<close> and \<open>get_or_intern\<close> share. The result is the address, \<open>None\<close> when no chunk can be mapped.
\<close>

definition bump :: "u64 \<Rightarrow> HeapChunk list \<Rightarrow> OS \<Rightarrow> u64 option \<times> HeapChunk list \<times> OS" where
  "bump need cs s =
     (let (r, s') = (if cs = [] \<or> need > c_capacity (last cs) - c_offset (last cs)
                     then new_chunk need cs s else (Some cs, s)) in
      case r of
        None \<Rightarrow> (None, cs, s')
      | Some cs' \<Rightarrow>
          (let c = last cs' in
           (Some (c_base c + kChunkHeaderBytes + c_offset c),
            butlast cs' @ [c\<lparr>c_offset := c_offset c + need\<rparr>], s')))"

definition object_size :: "u32 \<Rightarrow> u64" where
  "object_size instance_size = (16 + ucast instance_size + 63) AND NOT 63"

definition allocate_object :: "u32 \<Rightarrow> u64 \<Rightarrow> u32 \<Rightarrow> ObjectHeap \<Rightarrow> u64 \<times> ObjectHeap" where
  "allocate_object instance_size vtable_ptr class_id h =
     (let total = object_size instance_size in
      if total > kMaxSingleObject then (0, h)
      else
        (case bump total (chunks h) (oh_os h) of
           (None, cs, s) \<Rightarrow> (0, h\<lparr>chunks := cs, oh_os := s\<rparr>)
         | (Some obj, cs, s) \<Rightarrow>
             (obj, h\<lparr>chunks := cs, oh_os := s,
                     oh_mem := store_bytes (obj + 16) (replicate (unat instance_size) 0)
                       (store_bytes obj (le64 vtable_ptr @ le32 class_id @ le32 instance_size) (oh_mem h))\<rparr>)))"

fun unmap_chunks :: "HeapChunk list \<Rightarrow> OS \<Rightarrow> OS" where
  "unmap_chunks [] s = s"
| "unmap_chunks (c # cs) s = unmap_chunks cs (raw_munmap (c_base c) (mapping_size c) s)"

definition heap_reset :: "ObjectHeap \<Rightarrow> ObjectHeap" where
  "heap_reset h =
     (case chunks h of
        [] \<Rightarrow> h
      | c # cs \<Rightarrow> h\<lparr>chunks := [c\<lparr>c_offset := 0\<rparr>], oh_os := unmap_chunks cs (oh_os h)\<rparr>)"

definition heap_destroy :: "ObjectHeap \<Rightarrow> ObjectHeap" where
  "heap_destroy h = h\<lparr>chunks := [], oh_os := unmap_chunks (chunks h) (oh_os h)\<rparr>"

definition heap_chunk_count :: "ObjectHeap \<Rightarrow> nat" where
  "heap_chunk_count h = length (chunks h)"

definition bytes_allocated :: "ObjectHeap \<Rightarrow> u64" where
  "bytes_allocated h = sum_list (map c_offset (chunks h))"

definition new_heap :: "((u64 \<times> u64) list \<Rightarrow> u64 \<Rightarrow> u64) \<Rightarrow> ObjectHeap" where
  "new_heap f = \<lparr>chunks = [], oh_os = \<lparr>os_mmap = f, os_live = []\<rparr>, oh_mem = (\<lambda>_. 0)\<rparr>"

section \<open>Arena\<close>

record Chunk =
  a_base :: u64
  a_capacity :: u64
  a_used :: u64

text \<open>The list starts at \<open>head_\<close>; the header of a chunk takes 32 bytes.\<close>

record ArenaAllocator =
  a_chunks :: "Chunk list"
  default_chunk_size :: u64
  a_os :: OS

definition chunk_data :: "Chunk \<Rightarrow> u64" where
  "chunk_data c = a_base c + 32"

definition allocate_chunk :: "u64 \<Rightarrow> ArenaAllocator \<Rightarrow> Chunk option \<times> ArenaAllocator" where
  "allocate_chunk sz a =
     (if sz > (- 1) - 32 - 4096 then (None, a)
      else
        (let need = sz + 32;
             alloc_size = page_round (if need > default_chunk_size a then need else default_chunk_size a) in
         case raw_mmap alloc_size (a_os a) of
           (None, s) \<Rightarrow> (None, a\<lparr>a_os := s\<rparr>)
         | (Some p, s) \<Rightarrow>
             (Some \<lparr>a_base = p, a_capacity = alloc_size - 32, a_used = 0\<rparr>, a\<lparr>a_os := s\<rparr>)))"

definition align_ptr :: "u64 \<Rightarrow> u64 \<Rightarrow> u64" where
  "align_ptr p alignment = (p + (alignment - 1)) AND NOT (alignment - 1)"

text \<open>The part of \<open>alloc\<close> that follows the creation of the first chunk.\<close>

definition arena_bump :: "u64 \<Rightarrow> u64 \<Rightarrow> ArenaAllocator \<Rightarrow> u64 \<times> ArenaAllocator" where
  "arena_bump bytes alignment a =
     (let cur = hd (a_chunks a);
          current_ptr = chunk_data cur + a_used cur;
          aligned_ptr = align_ptr current_ptr alignment;
          padding = aligned_ptr - current_ptr in
      if a_used cur + padding + bytes > a_capacity cur then
        (case allocate_chunk (bytes + alignment) a of
           (None, a') \<Rightarrow> (0, a')
         | (Some c, a') \<Rightarrow>
             (let p = align_ptr (chunk_data c) alignment; pad = p - chunk_data c in
              if pad + bytes > a_capacity c then (0, a'\<lparr>a_chunks := c # a_chunks a'\<rparr>)
              else (p, a'\<lparr>a_chunks := c\<lparr>a_used := pad + bytes\<rparr> # a_chunks a'\<rparr>)))
      else (aligned_ptr, a\<lparr>a_chunks := cur\<lparr>a_used := a_used cur + (padding + bytes)\<rparr> # tl (a_chunks a)\<rparr>))"

definition arena_alloc :: "u64 \<Rightarrow> u64 \<Rightarrow> ArenaAllocator \<Rightarrow> u64 \<times> ArenaAllocator" where
  "arena_alloc bytes alignment a =
     (if bytes = 0 then (0, a)
      else if alignment = 0 \<or> alignment AND (alignment - 1) \<noteq> 0 then (0, a)
      else if bytes > (- 1) - alignment - 4096 then (0, a)
      else if a_chunks a \<noteq> [] then arena_bump bytes alignment a
      else
        (case allocate_chunk (bytes + alignment) a of
           (None, a') \<Rightarrow> (0, a')
         | (Some c, a') \<Rightarrow> arena_bump bytes alignment (a'\<lparr>a_chunks := [c]\<rparr>)))"

fun arena_unmap :: "Chunk list \<Rightarrow> OS \<Rightarrow> OS" where
  "arena_unmap [] s = s"
| "arena_unmap (c # cs) s = arena_unmap cs (raw_munmap (a_base c) (a_capacity c + 32) s)"

definition arena_reset :: "ArenaAllocator \<Rightarrow> ArenaAllocator" where
  "arena_reset a = a\<lparr>a_chunks := [], a_os := arena_unmap (a_chunks a) (a_os a)\<rparr>"

definition new_arena :: "u64 \<Rightarrow> ((u64 \<times> u64) list \<Rightarrow> u64 \<Rightarrow> u64) \<Rightarrow> ArenaAllocator" where
  "new_arena sz f = \<lparr>a_chunks = [], default_chunk_size = sz, a_os = \<lparr>os_mmap = f, os_live = []\<rparr>\<rparr>"

section \<open>String pool\<close>

record JitStringEntry =
  e_hash :: u64
  e_len :: u64
  e_ptr :: u64

record JitStringPool =
  p_chunks :: "HeapChunk list"
  entries :: "JitStringEntry list"
  entry_base :: u64
  entries_mapping :: u64
  entry_capacity :: u32
  p_os :: OS
  p_mem :: memory

text \<open>The table of entries is copied to a mapping twice as large; an entry takes 24 bytes.\<close>

definition grow_entries :: "JitStringPool \<Rightarrow> bool \<times> JitStringPool" where
  "grow_entries p =
     (let new_cap = (if entry_capacity p \<noteq> 0 then entry_capacity p * 2 else 256) in
      if new_cap \<le> entry_capacity p then (False, p)
      else
        (let nbytes = ucast new_cap * 24; rounded = page_round nbytes in
         if rounded < nbytes then (False, p)
         else
           (case raw_mmap rounded (p_os p) of
              (None, s) \<Rightarrow> (False, p\<lparr>p_os := s\<rparr>)
            | (Some q, s) \<Rightarrow>
                (True, p\<lparr>p_os := (if entry_base p \<noteq> 0 \<and> entries_mapping p \<noteq> 0
                                  then raw_munmap (entry_base p) (entries_mapping p) s else s),
                         entry_base := q, entries_mapping := rounded, entry_capacity := new_cap\<rparr>))))"

text \<open>Recording an interned string; when the table cannot grow, only deduplication suffers.\<close>

definition record_entry :: "u64 \<Rightarrow> u64 \<Rightarrow> u64 \<Rightarrow> JitStringPool \<Rightarrow> JitStringPool" where
  "record_entry hash len dst p =
     (let (ok, p') = (if length (entries p) = unat (entry_capacity p) then grow_entries p else (True, p)) in
      if ok then p'\<lparr>entries := entries p' @ [\<lparr>e_hash = hash, e_len = len, e_ptr = dst\<rparr>]\<rparr> else p')"

text \<open>
  \<open>None\<close> is the address of the static empty string, returned for a null argument and when
  memory runs out. The characters of the argument are given as bytes; \<open>len\<close> is their number.
\<close>

definition get_or_intern :: "bytes option \<Rightarrow> u64 \<Rightarrow> u64 \<Rightarrow> JitStringPool \<Rightarrow> u64 option \<times> JitStringPool" where
  "get_or_intern str len hash p =
     (case str of
        None \<Rightarrow> (None, p)
      | Some bs \<Rightarrow>
          (case find (\<lambda>e. e_hash e = hash \<and> e_len e = len
                          \<and> load_bytes (e_ptr e) (unat len) (p_mem p) = take (unat len) bs) (entries p) of
             Some e \<Rightarrow> (Some (e_ptr e), p)
           | None \<Rightarrow>
               (let need = len + 1 in
                if need < len then (None, p)
                else
                  (case bump need (p_chunks p) (p_os p) of
                     (None, cs, s) \<Rightarrow> (None, p\<lparr>p_chunks := cs, p_os := s\<rparr>)
                   | (Some dst, cs, s) \<Rightarrow>
                       (Some dst, record_entry hash len dst
                          (p\<lparr>p_chunks := cs, p_os := s,
                             p_mem := store_bytes dst (take (unat len) bs @ [0]) (p_mem p)\<rparr>))))))"

definition pool_destroy :: "JitStringPool \<Rightarrow> JitStringPool" where
  "pool_destroy p =
     (let s = unmap_chunks (p_chunks p) (p_os p) in
      p\<lparr>p_chunks := [], entries := [], entry_base := 0, entries_mapping := 0, entry_capacity := 0,
        p_os := (if entry_base p \<noteq> 0 \<and> entries_mapping p \<noteq> 0
                 then raw_munmap (entry_base p) (entries_mapping p) s else s)\<rparr>)"

definition new_pool :: "((u64 \<times> u64) list \<Rightarrow> u64 \<Rightarrow> u64) \<Rightarrow> JitStringPool" where
  "new_pool f = \<lparr>p_chunks = [], entries = [], entry_base = 0, entries_mapping = 0, entry_capacity = 0,
     p_os = \<lparr>os_mmap = f, os_live = []\<rparr>, p_mem = (\<lambda>_. 0)\<rparr>"

section \<open>Thread-local buffer\<close>

record TLAB =
  tl_top :: u64
  tl_end :: u64
  slab_start :: u64
  tl_os :: OS
  tl_mem :: memory

definition TLAB_SLAB_SIZE :: u64 where "TLAB_SLAB_SIZE = 65536"

text \<open>The refill: a new slab followed by a guard page; on failure the buffer stays as it is.\<close>

definition tlab_refill :: "TLAB \<Rightarrow> TLAB" where
  "tlab_refill t =
     (case raw_mmap (TLAB_SLAB_SIZE + 4096) (tl_os t) of
        (None, s) \<Rightarrow> t\<lparr>tl_os := s\<rparr>
      | (Some p, s) \<Rightarrow> t\<lparr>slab_start := p, tl_top := p, tl_end := p + TLAB_SLAB_SIZE, tl_os := s\<rparr>)"

definition get_thread_tlab :: "TLAB \<Rightarrow> TLAB" where
  "get_thread_tlab t = (if slab_start t = 0 then tlab_refill t else t)"

definition tlab_size :: "u32 \<Rightarrow> u32" where
  "tlab_size instance_size = (16 + instance_size + 7) AND NOT 7"

definition tlab_allocate :: "u32 \<Rightarrow> u64 \<Rightarrow> u32 \<Rightarrow> TLAB \<Rightarrow> u64 \<times> TLAB" where
  "tlab_allocate instance_size vtable_ptr class_id t0 =
     (let t1 = get_thread_tlab t0;
          total = ucast (tlab_size instance_size);
          t2 = (if tl_top t1 + total \<ge> tl_end t1 then tlab_refill t1 else t1);
          obj = tl_top t2 in
      (obj, t2\<lparr>tl_top := tl_top t2 + total,
              tl_mem := store_bytes obj (le64 vtable_ptr @ le32 class_id @ le32 instance_size) (tl_mem t2)\<rparr>))"
section \<open>Memory\<close>

lemma unat_add_nat: "unat (a :: u64) + i < 2 ^ 64 \<Longrightarrow> unat (a + of_nat i) = unat a + i"
  by (simp add: unat_plus_if' unat_of_nat)

lemma unat_add: "unat (a :: u64) + unat b < 2 ^ 64 \<Longrightarrow> unat (a + b) = unat a + unat b"
  by (simp add: unat_plus_if')

lemma load_store_same:
  assumes "length bs \<le> 2 ^ 64" "n = length bs"
  shows "load_bytes a n (store_bytes a bs m) = bs"
  using assms by (auto simp: load_bytes_def store_bytes_def unat_of_nat intro!: nth_equalityI)

lemma store_bytes_other:
  assumes "unat x \<notin> span a (length bs)" "unat a + length bs \<le> 2 ^ 64"
  shows "store_bytes a bs m x = m x"
proof -
  have "\<not> unat (x - a) < length bs"
  proof
    assume l: "unat (x - a) < length bs"
    then have "unat (a + (x - a)) = unat a + unat (x - a)"
      using assms(2) by (intro unat_add) simp
    then show False
      using assms(1) l by (simp add: span_def)
  qed
  then show ?thesis
    by (simp add: store_bytes_def)
qed

lemma load_bytes_cong:
  assumes "unat a + n \<le> 2 ^ 64" "\<And>x. unat x \<in> span a n \<Longrightarrow> m x = m' x"
  shows "load_bytes a n m = load_bytes a n m'"
  using assms by (auto simp: load_bytes_def span_def unat_add_nat)

lemma load_bytes_prefix:
  "k \<le> n \<Longrightarrow> load_bytes a k m = take k (load_bytes a n m)"
  by (simp add: load_bytes_def take_map)

lemma page_round_unat:
  assumes "unat n + 4095 < 2 ^ 64"
  shows "unat (page_round n) = align_up 4096 (unat n)"
  using unat_align_word [of 12 n] assms by (simp add: page_round_def mask_eq_exp_minus_1)

lemma page_round_wrap:
  assumes "2 ^ 64 \<le> unat (n :: u64) + 4095"
  shows "page_round n = 0"
proof -
  have "unat (n + 4095) < 4096"
    using assms unsigned_less [of n, where ?'a = nat] by (simp add: unat_plus_if')
  then have "unat (page_round n) = 0"
    using unat_and_not_mask [of "n + 4095" 12] by (simp add: page_round_def mask_eq_exp_minus_1)
  then show ?thesis
    by (simp add: unat_eq_zero)
qed

lemma page_round_not_less:
  assumes "\<not> page_round n < n" "n \<noteq> 0"
  shows "unat n \<le> unat (page_round n)" "unat n + 4095 < 2 ^ 64"
proof -
  show le: "unat n \<le> unat (page_round n)"
    using assms(1) by (simp add: word_less_nat_alt not_less)
  show "unat n + 4095 < 2 ^ 64"
    using le assms(2) page_round_wrap [of n] by (metis le_zero_eq not_less unat_0 unat_eq_zero)
qed

section \<open>Chunks\<close>

definition chunk_ok :: "HeapChunk \<Rightarrow> bool" where
  "chunk_ok c \<longleftrightarrow> 4096 dvd unat (c_base c) \<and> 0 < unat (c_base c)
     \<and> unat (c_base c) + unat (mapping_size c) \<le> 2 ^ 47
     \<and> unat (c_capacity c) + 64 = unat (mapping_size c) \<and> unat (c_offset c) \<le> unat (c_capacity c)"

definition chunk_span :: "HeapChunk \<Rightarrow> nat set" where
  "chunk_span c = span (c_base c) (unat (mapping_size c))"

definition chunks_ok :: "HeapChunk list \<Rightarrow> OS \<Rightarrow> bool" where
  "chunks_ok cs s \<longleftrightarrow> (\<forall>c \<in> set cs. chunk_ok c \<and> (c_base c, mapping_size c) \<in> set (os_live s))
     \<and> sorted_wrt (\<lambda>c d. chunk_span c \<inter> chunk_span d = {}) cs"

definition chunks_used :: "HeapChunk list \<Rightarrow> nat set" where
  "chunks_used cs = (\<Union>c \<in> set cs. span (c_base c) (64 + unat (c_offset c)))"

definition offsets_dvd :: "nat \<Rightarrow> HeapChunk list \<Rightarrow> bool" where
  "offsets_dvd k cs \<longleftrightarrow> (\<forall>c \<in> set cs. k dvd unat (c_offset c))"

lemma raw_mmap_ok:
  assumes "mmap_ok (os_mmap s)" "raw_mmap sz s = (Some p, s')"
  shows "4096 dvd unat p" "0 < unat p" "unat p + unat sz \<le> 2 ^ 47" "os_mmap s' = os_mmap s"
    "os_live s' = (p, sz) # os_live s" "\<forall>(q, n) \<in> set (os_live s). span p (unat sz) \<inter> span q (unat n) = {}"
proof -
  have p: "p = os_mmap s (os_live s) sz" "\<not> mmap_failed p" "s' = s\<lparr>os_live := (p, sz) # os_live s\<rparr>"
    using assms(2) by (auto simp: raw_mmap_def Let_def split: if_splits)
  then show "4096 dvd unat p" "0 < unat p" "unat p + unat sz \<le> 2 ^ 47" "os_mmap s' = os_mmap s"
      "os_live s' = (p, sz) # os_live s" "\<forall>(q, n) \<in> set (os_live s). span p (unat sz) \<inter> span q (unat n) = {}"
    using assms(1) unfolding mmap_ok_def by auto
qed

lemma raw_mmap_None: "raw_mmap sz s = (None, s') \<Longrightarrow> s' = s"
  by (auto simp: raw_mmap_def Let_def split: if_splits)

lemma chunk_size_ge:
  assumes "chunk_size n = Some r"
  shows "unat n + 64 \<le> unat r" "65536 \<le> unat r"
proof -
  let ?m = "if n + 64 > 65536 then n + 64 else 65536 :: u64"
  have r: "r = page_round ?m" "\<not> page_round ?m < ?m" "\<not> n + 64 < n"
    using assms by (auto simp: chunk_size_def kChunkHeaderBytes_def kDefaultChunkBytes_def Let_def split: if_splits)
  have n: "unat (n + 64) = unat n + 64"
    using r(3) by (simp add: unat_plus_if' word_less_nat_alt split: if_splits)
  have m: "unat n + 64 \<le> unat ?m" "65536 \<le> unat ?m"
    using n by (simp_all add: word_less_nat_alt)
  then have "?m \<noteq> 0"
    by (intro notI) (simp add: unat_0)
  then have "unat ?m \<le> unat r"
    using page_round_not_less [OF r(2)] r(1) by simp
  then show "unat n + 64 \<le> unat r" "65536 \<le> unat r"
    using m by linarith+
qed
lemma new_chunk_ok:
  assumes "mmap_ok (os_mmap s)" "chunks_ok cs s" "new_chunk n cs s = (r, s')"
  shows "os_mmap s' = os_mmap s \<and> (case r of None \<Rightarrow> s' = s
    | Some cs' \<Rightarrow> (\<exists>c. cs' = cs @ [c] \<and> c_offset c = 0 \<and> unat n \<le> unat (c_capacity c) \<and> chunks_ok cs' s'
                    \<and> chunk_span c \<inter> (\<Union>d \<in> set cs. chunk_span d) = {}))"
proof (cases r)
  case None
  then show ?thesis
    using assms(3) by (auto simp: new_chunk_def dest: raw_mmap_None split: option.splits prod.splits)
next
  case (Some cs')
  then obtain sz p where sz: "chunk_size n = Some sz" and m: "raw_mmap sz s = (Some p, s')"
      and cs': "cs' = cs @ [\<lparr>c_base = p, mapping_size = sz, c_capacity = sz - 64, c_offset = 0\<rparr>]"
    using assms(3) by (auto simp: new_chunk_def kChunkHeaderBytes_def split: option.splits prod.splits)
  let ?c = "\<lparr>c_base = p, mapping_size = sz, c_capacity = sz - 64, c_offset = 0\<rparr> :: HeapChunk"
  note p = raw_mmap_ok [OF assms(1) m] and ge = chunk_size_ge [OF sz]
  have cap: "unat (sz - 64) + 64 = unat sz"
    using ge by (simp add: unat_sub word_le_nat_alt)
  have dis: "chunk_span ?c \<inter> chunk_span d = {}" if "d \<in> set cs" for d
    using p(6) assms(2) that unfolding chunks_ok_def chunk_span_def by fastforce
  have "chunk_ok ?c"
    using p(1-3) cap by (simp add: chunk_ok_def)
  then have "chunks_ok cs' s'"
    using assms(2) p(5) dis unfolding chunks_ok_def cs' by (auto simp: sorted_wrt_append Int_commute)
  moreover have "unat n \<le> unat (sz - 64)"
    using ge cap by linarith
  ultimately show ?thesis
    using p(4) dis unfolding Some cs' by auto
qed

lemma span_mono: "m \<le> n \<Longrightarrow> span p m \<subseteq> span p n"
  by (auto simp: span_def)

lemma chunk_used_span: "chunk_ok c \<Longrightarrow> span (c_base c) (64 + unat (c_offset c)) \<subseteq> chunk_span c"
  unfolding chunk_span_def chunk_ok_def by (rule span_mono) simp

text \<open>The effect of a bump on the last chunk.\<close>

lemma bump_last:
  assumes "chunks_ok (cs @ [c]) s" "unat need \<le> unat (c_capacity c) - unat (c_offset c)"
  defines "p \<equiv> c_base c + 64 + c_offset c" and "cs' \<equiv> cs @ [c\<lparr>c_offset := c_offset c + need\<rparr>]"
  shows "chunks_ok cs' s \<and> unat p = unat (c_base c) + 64 + unat (c_offset c)
    \<and> unat p + unat need \<le> 2 ^ 47 \<and> 0 < unat p
    \<and> unat (c_offset c + need) = unat (c_offset c) + unat need
    \<and> span p (unat need) \<inter> chunks_used (cs @ [c]) = {}
    \<and> chunks_used cs' = chunks_used (cs @ [c]) \<union> span p (unat need)"
proof -
  have c: "chunk_ok c" and cs: "\<forall>d \<in> set cs. chunk_ok d \<and> chunk_span d \<inter> chunk_span c = {}"
    using assms(1) by (auto simp: chunks_ok_def sorted_wrt_append)
  have b: "unat (c_base c) + 64 + unat (c_offset c) + unat need \<le> unat (c_base c) + unat (mapping_size c)"
      "unat (c_base c) + unat (mapping_size c) \<le> 2 ^ 47"
    using c assms(2) by (auto simp: chunk_ok_def)
  then have p: "unat p = unat (c_base c) + 64 + unat (c_offset c)"
      and o: "unat (c_offset c + need) = unat (c_offset c) + unat need"
    unfolding p_def by (simp_all add: unat_add)
  have sp: "span p (unat need) \<subseteq> chunk_span c"
    using b unfolding p span_def chunk_span_def by auto
  have "chunk_ok (c\<lparr>c_offset := c_offset c + need\<rparr>)"
    using c assms(2) o by (auto simp: chunk_ok_def)
  then have ok: "chunks_ok cs' s"
    using assms(1) by (auto simp: chunks_ok_def cs'_def sorted_wrt_append chunk_span_def)
  have "span p (unat need) \<inter> span (c_base d) (64 + unat (c_offset d)) = {}" if "d \<in> set cs" for d
    using cs that sp chunk_used_span [of d] by blast
  moreover have "span p (unat need) \<inter> span (c_base c) (64 + unat (c_offset c)) = {}"
    by (auto simp: span_def p)
  ultimately have "span p (unat need) \<inter> chunks_used (cs @ [c]) = {}"
    by (auto simp: chunks_used_def)
  moreover have "chunks_used cs' = chunks_used (cs @ [c]) \<union> span p (unat need)"
    by (auto simp: chunks_used_def cs'_def span_def p o)
  ultimately show ?thesis
    using ok p o b c by (auto simp: chunk_ok_def)
qed

lemma bump_ok:
  assumes "mmap_ok (os_mmap s)" "chunks_ok cs s" "bump need cs s = (r, cs', s')"
  shows "os_mmap s' = os_mmap s \<and> chunks_ok cs' s' \<and> chunks_used cs \<subseteq> chunks_used cs'
    \<and> (r = None \<longrightarrow> cs' = cs)
    \<and> (\<forall>p. r = Some p \<longrightarrow> 0 < unat p \<and> unat p + unat need \<le> 2 ^ 47
         \<and> span p (unat need) \<inter> chunks_used cs = {} \<and> span p (unat need) \<subseteq> chunks_used cs'
         \<and> (\<forall>k. k dvd 64 \<longrightarrow> k dvd unat need \<longrightarrow> offsets_dvd k cs \<longrightarrow> offsets_dvd k cs' \<and> k dvd unat p))"
proof -
  let ?full = "cs = [] \<or> need > c_capacity (last cs) - c_offset (last cs)"
  obtain q s1 where q: "(if ?full then new_chunk need cs s else (Some cs, s)) = (q, s1)"
    by fastforce
  show ?thesis
  proof (cases q)
    case None
    then have "new_chunk need cs s = (None, s1)"
      using q by (auto split: if_splits)
    then show ?thesis
      using new_chunk_ok [OF assms(1,2)] assms q None by (fastforce simp: bump_def)
  next
    case (Some ds)
    obtain es c where ds: "ds = es @ [c]" and ok: "chunks_ok (es @ [c]) s1" "os_mmap s1 = os_mmap s"
        and need: "unat need \<le> unat (c_capacity c) - unat (c_offset c)"
        and used: "chunks_used cs \<subseteq> chunks_used (es @ [c])"
        and dvd: "\<And>k. offsets_dvd k cs \<Longrightarrow> offsets_dvd k (es @ [c])"
    proof (cases ?full)
      case True
      then have "new_chunk need cs s = (Some ds, s1)"
        using q Some by simp
      then obtain c where "ds = cs @ [c]" "c_offset c = 0" "unat need \<le> unat (c_capacity c)" "chunks_ok ds s1"
          "os_mmap s1 = os_mmap s"
        using new_chunk_ok [OF assms(1,2)] by fastforce
      then show ?thesis
        by (intro that [of cs c]) (auto simp: chunks_used_def offsets_dvd_def)
    next
      case False
      then have ds: "ds = cs" "s1 = s" "cs = butlast cs @ [last cs]"
        using q Some by auto
      have "chunk_ok (last cs)"
        using False assms(2) by (simp add: chunks_ok_def)
      then have "unat (c_capacity (last cs) - c_offset (last cs))
          = unat (c_capacity (last cs)) - unat (c_offset (last cs))"
        by (simp add: chunk_ok_def unat_sub word_le_nat_alt)
      then have "unat need \<le> unat (c_capacity (last cs)) - unat (c_offset (last cs))"
        using False by (simp add: word_less_nat_alt not_less)
      then show ?thesis
        using that [of "butlast cs" "last cs"] ds assms(2) by simp
    qed
    have r: "r = Some (c_base c + 64 + c_offset c)" "cs' = es @ [c\<lparr>c_offset := c_offset c + need\<rparr>]" "s' = s1"
      using assms(3) q Some ds by (auto simp: bump_def kChunkHeaderBytes_def)
    note b = bump_last [OF ok(1) need]
    have "k dvd unat (c_base c)" if "k dvd 64" for k
    proof -
      have "(64 :: nat) dvd 4096"
        by simp
      then show ?thesis
        using that ok(1) by (metis (no_types, lifting) chunk_ok_def chunks_ok_def dvd_trans in_set_conv_decomp)
    qed
    then have "offsets_dvd k cs' \<and> k dvd unat (c_base c + 64 + c_offset c)"
      if "k dvd 64" "k dvd unat need" "offsets_dvd k cs" for k
      using that dvd [of k] b unfolding r by (auto simp: offsets_dvd_def)
    then show ?thesis
      using b used ok(2) unfolding r by auto
  qed
qed
section \<open>The contract of an allocator\<close>

text \<open>
  An allocator hands out spans of addresses that nothing handed out before, and 0 when it cannot;
  \<open>used\<close> are the addresses that are taken, \<open>req\<close> the requests it is meant for. A
  sequence of requests then gives pairwise disjoint blocks.
\<close>

fun alloc_run :: "('q \<Rightarrow> 's \<Rightarrow> u64 \<times> 's) \<Rightarrow> 'q list \<Rightarrow> 's \<Rightarrow> (u64 \<times> 'q) list \<times> 's" where
  "alloc_run f [] s = ([], s)"
| "alloc_run f (q # qs) s =
     (let (p, s') = f q s; (r, s'') = alloc_run f qs s' in ((p, q) # r, s''))"

definition blocks_disjoint :: "('q \<Rightarrow> nat) \<Rightarrow> (u64 \<times> 'q) list \<Rightarrow> bool" where
  "blocks_disjoint sz = sorted_wrt (\<lambda>(p, q) (p', q').
     p = 0 \<or> p' = 0 \<or> span p (sz q) \<inter> span p' (sz q') = {})"

locale allocator =
  fixes alloc :: "'q \<Rightarrow> 's \<Rightarrow> u64 \<times> 's"
    and sz :: "'q \<Rightarrow> nat"
    and req :: "'q \<Rightarrow> bool"
    and inv :: "'s \<Rightarrow> bool"
    and used :: "'s \<Rightarrow> nat set"
  assumes alloc_inv: "inv s \<Longrightarrow> req q \<Longrightarrow> inv (snd (alloc q s))"
    and alloc_used: "inv s \<Longrightarrow> req q \<Longrightarrow> used s \<subseteq> used (snd (alloc q s))"
    and alloc_fresh: "inv s \<Longrightarrow> req q \<Longrightarrow> fst (alloc q s) \<noteq> 0 \<Longrightarrow>
          span (fst (alloc q s)) (sz q) \<inter> used s = {}
          \<and> span (fst (alloc q s)) (sz q) \<subseteq> used (snd (alloc q s))"
begin

lemma run_blocks:
  assumes "inv s" "\<forall>q \<in> set qs. req q"
  shows "inv (snd (alloc_run alloc qs s)) \<and> used s \<subseteq> used (snd (alloc_run alloc qs s))
    \<and> (\<forall>(p, q) \<in> set (fst (alloc_run alloc qs s)). p \<noteq> 0 \<longrightarrow>
         span p (sz q) \<inter> used s = {} \<and> span p (sz q) \<subseteq> used (snd (alloc_run alloc qs s)))
    \<and> blocks_disjoint sz (fst (alloc_run alloc qs s))"
  using assms
proof (induction qs arbitrary: s)
  case (Cons q qs)
  let ?s = "snd (alloc q s)" and ?p = "fst (alloc q s)"
  have run: "alloc_run alloc (q # qs) s = ((?p, q) # fst (alloc_run alloc qs ?s), snd (alloc_run alloc qs ?s))"
    by (simp add: case_prod_beta Let_def)
  have a: "inv ?s" "used s \<subseteq> used ?s"
      "?p \<noteq> 0 \<Longrightarrow> span ?p (sz q) \<inter> used s = {} \<and> span ?p (sz q) \<subseteq> used ?s"
    using Cons.prems alloc_inv alloc_used alloc_fresh by auto
  have IH: "inv (snd (alloc_run alloc qs ?s))" "used ?s \<subseteq> used (snd (alloc_run alloc qs ?s))"
      "blocks_disjoint sz (fst (alloc_run alloc qs ?s))"
      "\<forall>(p, q) \<in> set (fst (alloc_run alloc qs ?s)). p \<noteq> 0 \<longrightarrow>
         span p (sz q) \<inter> used ?s = {} \<and> span p (sz q) \<subseteq> used (snd (alloc_run alloc qs ?s))"
    using Cons.IH [OF a(1)] Cons.prems(2) by auto
  have "p' = 0 \<or> ?p = 0 \<or> span ?p (sz q) \<inter> span p' (sz q') = {}"
    if "(p', q') \<in> set (fst (alloc_run alloc qs ?s))" for p' q'
    using IH(4) a(3) that by fast
  then have "blocks_disjoint sz ((?p, q) # fst (alloc_run alloc qs ?s))"
    using IH(3) by (auto simp: blocks_disjoint_def)
  moreover have "span p' (sz q') \<inter> used s = {} \<and> span p' (sz q') \<subseteq> used (snd (alloc_run alloc qs ?s))"
    if "(p', q') \<in> set ((?p, q) # fst (alloc_run alloc qs ?s))" "p' \<noteq> 0" for p' q'
  proof (cases "(p', q') = (?p, q)")
    case True
    then show ?thesis
      using a(3) IH(2) that(2) by blast
  next
    case False
    then show ?thesis
      using IH(4) a(2) that by fastforce
  qed
  ultimately show ?case
    unfolding run fst_conv snd_conv using IH(1,2) a(2) by (intro conjI ballI) auto
qed (simp add: blocks_disjoint_def)

end

text \<open>An allocator that initialises its blocks leaves all memory in use as it was.\<close>

locale memory_allocator = allocator alloc sz req inv used
  for alloc :: "'q \<Rightarrow> 's \<Rightarrow> u64 \<times> 's" and sz req inv used +
  fixes mem :: "'s \<Rightarrow> memory"
  assumes alloc_mem: "inv s \<Longrightarrow> req q \<Longrightarrow> unat x \<in> used s \<Longrightarrow> mem (snd (alloc q s)) x = mem s x"
begin

lemma run_mem:
  assumes "inv s" "\<forall>q \<in> set qs. req q" "unat x \<in> used s"
  shows "mem (snd (alloc_run alloc qs s)) x = mem s x"
  using assms
proof (induction qs arbitrary: s)
  case (Cons q qs)
  let ?s = "snd (alloc q s)"
  have "inv ?s" "unat x \<in> used ?s" "mem ?s x = mem s x"
    using Cons.prems alloc_inv alloc_used [of s q] alloc_mem by auto
  then show ?case
    using Cons.IH [of ?s] Cons.prems(2) by (simp add: case_prod_beta Let_def)
qed simp

end

section \<open>The object heap is an allocator\<close>

type_synonym object_request = "u32 \<times> u64 \<times> u32"

definition heap_alloc :: "object_request \<Rightarrow> ObjectHeap \<Rightarrow> u64 \<times> ObjectHeap" where
  "heap_alloc = (\<lambda>(i, v, c) h. allocate_object i v c h)"

definition object_bytes :: "object_request \<Rightarrow> nat" where
  "object_bytes = (\<lambda>(i, v, c). unat (object_size i))"

definition heap_ok :: "ObjectHeap \<Rightarrow> bool" where
  "heap_ok h \<longleftrightarrow> mmap_ok (os_mmap (oh_os h)) \<and> chunks_ok (chunks h) (oh_os h) \<and> offsets_dvd 64 (chunks h)"

lemma object_size_unat: "unat (object_size i) = align_up 64 (16 + unat i)"
proof -
  have i: "unat (ucast i :: u64) = unat i" "unat i < 2 ^ 32"
    using unsigned_less [of i, where ?'a = nat] by (simp_all add: unsigned_ucast_eq take_bit_nat_eq_self)
  then have "unat (16 + ucast i :: u64) = 16 + unat i"
    by (simp add: unat_plus_if')
  then show ?thesis
    using unat_align_word [of 6 "16 + ucast i :: u64"] i(2)
    by (simp add: object_size_def mask_eq_exp_minus_1)
qed

lemma allocate_object_cases:
  assumes "heap_ok h" "allocate_object i v c h = (p, h')"
  shows "heap_ok h' \<and> chunks_used (chunks h) \<subseteq> chunks_used (chunks h')
    \<and> (p = 0 \<longrightarrow> oh_mem h' = oh_mem h)
    \<and> (p \<noteq> 0 \<longrightarrow> unat p + unat (object_size i) \<le> 2 ^ 47 \<and> 64 dvd unat p
         \<and> span p (unat (object_size i)) \<inter> chunks_used (chunks h) = {}
         \<and> span p (unat (object_size i)) \<subseteq> chunks_used (chunks h')
         \<and> oh_mem h' = store_bytes (p + 16) (replicate (unat i) 0)
             (store_bytes p (le64 v @ le32 c @ le32 i) (oh_mem h)))"
proof (cases "object_size i > kMaxSingleObject")
  case True
  then show ?thesis
    using assms by (auto simp: allocate_object_def)
next
  case False
  obtain r cs s where b: "bump (object_size i) (chunks h) (oh_os h) = (r, cs, s)"
    by (cases "bump (object_size i) (chunks h) (oh_os h)") auto
  have "mmap_ok (os_mmap (oh_os h))" "chunks_ok (chunks h) (oh_os h)" "offsets_dvd 64 (chunks h)"
    using assms(1) by (auto simp: heap_ok_def)
  note k = bump_ok [OF this(1,2) b] and this
  moreover have "64 dvd unat (object_size i)"
    by (simp add: object_size_unat)
  ultimately show ?thesis
    using assms(2) False b
    by (cases r) (auto simp: allocate_object_def heap_ok_def)
qed
lemma load_bytes_append: "load_bytes a (k + n) m = load_bytes a k m @ load_bytes (a + of_nat k) n m"
  by (rule nth_equalityI) (auto simp: load_bytes_def nth_append add.assoc of_nat_diff)

lemma object_in_bounds: "16 + unat i \<le> unat (object_size i)"
  by (simp add: object_size_unat align_up_ge)

definition init_object :: "u64 \<Rightarrow> u32 \<Rightarrow> u64 \<Rightarrow> u32 \<Rightarrow> memory \<Rightarrow> memory" where
  "init_object p i v c m = store_bytes (p + 16) (replicate (unat i) 0)
     (store_bytes p (le64 v @ le32 c @ le32 i) m)"

definition object_image :: "u32 \<Rightarrow> u64 \<Rightarrow> u32 \<Rightarrow> bytes" where
  "object_image i v c = le64 v @ le32 c @ le32 i @ replicate (unat i) 0"

lemma init_object:
  assumes "unat p + unat (object_size i) \<le> 2 ^ 47"
  shows "load_bytes p (16 + unat i) (init_object p i v c m) = object_image i v c"
    and "unat x \<notin> span p (unat (object_size i)) \<Longrightarrow> init_object p i v c m x = m x"
proof -
  let ?h = "le64 v @ le32 c @ le32 i" and ?m = "init_object p i v c m"
  have b: "unat p + 16 + unat i \<le> 2 ^ 47" and p16: "unat (p + 16) = unat p + 16"
    using assms object_in_bounds [of i] by (auto simp: unat_add)
  have hd: "load_bytes p 16 ?m = ?h"
  proof -
    have "load_bytes p 16 ?m = load_bytes p 16 (store_bytes p ?h m)"
      unfolding init_object_def using b by (intro load_bytes_cong store_bytes_other) (auto simp: span_def p16)
    then show ?thesis
      by (simp add: load_store_same)
  qed
  have tl: "load_bytes (p + 16) (unat i) ?m = replicate (unat i) 0"
    unfolding init_object_def using b by (intro load_store_same) auto
  have "load_bytes p (16 + unat i) ?m = load_bytes p 16 ?m @ load_bytes (p + 16) (unat i) ?m"
    using load_bytes_append [of p 16 "unat i"] by simp
  then show "load_bytes p (16 + unat i) ?m = object_image i v c"
    by (simp add: hd tl object_image_def)
  show "?m x = m x" if "unat x \<notin> span p (unat (object_size i))"
  proof -
    have "unat x \<notin> span (p + 16) (length (replicate (unat i) 0 :: bytes))" "unat x \<notin> span p (length ?h)"
      using that object_in_bounds [of i] by (auto simp: span_def p16)
    then show ?thesis
      unfolding init_object_def using b p16 by (simp add: store_bytes_other)
  qed
qed

interpretation heap: memory_allocator heap_alloc object_bytes "\<lambda>_. True" heap_ok "\<lambda>h. chunks_used (chunks h)" oh_mem
proof unfold_locales
  fix h :: ObjectHeap and q :: object_request and x :: u64
  assume h: "heap_ok h"
  obtain i v c where q: "q = (i, v, c)"
    by (cases q) auto
  obtain p h' where a: "allocate_object i v c h = (p, h')"
    by fastforce
  note f = allocate_object_cases [OF h a]
  have e: "heap_alloc q h = (p, h')" "object_bytes q = unat (object_size i)"
    by (simp_all add: q heap_alloc_def a object_bytes_def)
  show "heap_ok (snd (heap_alloc q h))" "chunks_used (chunks h) \<subseteq> chunks_used (chunks (snd (heap_alloc q h)))"
    using f e by simp_all
  show "span (fst (heap_alloc q h)) (object_bytes q) \<inter> chunks_used (chunks h) = {}
      \<and> span (fst (heap_alloc q h)) (object_bytes q) \<subseteq> chunks_used (chunks (snd (heap_alloc q h)))"
    if "fst (heap_alloc q h) \<noteq> 0"
    using f e that by simp
  show "oh_mem (snd (heap_alloc q h)) x = oh_mem h x" if "unat x \<in> chunks_used (chunks h)"
  proof (cases "p = 0")
    case False
    then have "oh_mem h' = init_object p i v c (oh_mem h)" "unat x \<notin> span p (unat (object_size i))"
        "unat p + unat (object_size i) \<le> 2 ^ 47"
      using f that by (auto simp: init_object_def)
    then show ?thesis
      using init_object(2) e by simp
  qed (use f e in simp)
qed

lemma new_heap_ok: "mmap_ok f \<Longrightarrow> heap_ok (new_heap f)"
  by (simp add: new_heap_def heap_ok_def chunks_ok_def offsets_dvd_def)

lemma blocks_disjoint_mono:
  assumes "blocks_disjoint sz xs" "\<And>q. sz' q \<le> sz q"
  shows "blocks_disjoint sz' xs"
proof -
  have "span p (sz' q) \<inter> span p' (sz' q') = {}" if "span p (sz q) \<inter> span p' (sz q') = {}" for p q p' q'
    using that span_mono [OF assms(2), of p q] span_mono [OF assms(2), of p' q'] by blast
  then show ?thesis
    using assms(1) unfolding blocks_disjoint_def by (elim sorted_wrt_mono_rel [rotated]) (simp add: case_prod_beta, blast)
qed

text \<open>
  Claim C19. Objects never move and are never overwritten: an object that \<open>allocate_object\<close>
  returns is aligned to a cache line, lies apart from everything allocated before it, and after
  any number of further allocations, however often the heap has grown, its header and its zeroed
  fields still read as they were initialised.
\<close>
theorem objects_are_stable:
  assumes "mmap_ok f" "h = snd (alloc_run heap_alloc before (new_heap f))"
    "allocate_object i v c h = (p, h1)" "p \<noteq> 0"
  shows "64 dvd unat p \<and> span p (unat (object_size i)) \<inter> chunks_used (chunks h) = {}
    \<and> load_bytes p (16 + unat i) (oh_mem (snd (alloc_run heap_alloc after h1))) = object_image i v c"
proof -
  have "heap_ok h"
    using heap.run_blocks [OF new_heap_ok [OF assms(1)], of before] assms(2) by simp
  note a = allocate_object_cases [OF this assms(3)]
  have b: "unat p + unat (object_size i) \<le> 2 ^ 47" "heap_ok h1" "span p (unat (object_size i)) \<subseteq> chunks_used (chunks h1)"
    using a assms(4) by auto
  have "load_bytes p (16 + unat i) (oh_mem (snd (alloc_run heap_alloc after h1))) = load_bytes p (16 + unat i) (oh_mem h1)"
  proof (rule load_bytes_cong)
    show "unat p + (16 + unat i) \<le> 2 ^ 64"
      using b(1) object_in_bounds [of i] by simp
    show "oh_mem (snd (alloc_run heap_alloc after h1)) x = oh_mem h1 x" if "unat x \<in> span p (16 + unat i)" for x
      using that b(2,3) span_mono [OF object_in_bounds, of p i] by (intro heap.run_mem) auto
  qed
  moreover have "oh_mem h1 = init_object p i v c (oh_mem h)"
    using a assms(4) by (simp add: init_object_def)
  ultimately show ?thesis
    using a assms(4) init_object(1) [OF b(1)] by simp
qed

text \<open>
  Any sequence of object allocations on a fresh heap yields pairwise disjoint blocks,
  each large enough for the header and the fields of its request.
\<close>
theorem heap_blocks_disjoint:
  assumes "mmap_ok f"
  shows "blocks_disjoint (\<lambda>(i, v, c). 16 + unat i) (fst (alloc_run heap_alloc qs (new_heap f)))"
proof -
  have "blocks_disjoint object_bytes (fst (alloc_run heap_alloc qs (new_heap f)))"
    using heap.run_blocks [OF new_heap_ok [OF assms]] by blast
  then show ?thesis
    by (rule blocks_disjoint_mono) (auto simp: object_bytes_def object_in_bounds)
qed

text \<open>A kernel that maps upwards from page one.\<close>

definition upward_mmap :: "(u64 \<times> u64) list \<Rightarrow> u64 \<Rightarrow> u64" where
  "upward_mmap ms sz =
     (let t = fold (\<lambda>(q, n) m. max (unat q + unat n) m) ms 4096; p = align_up 4096 t in
      if p + unat sz \<le> 2 ^ 47 then of_nat p else - 1)"

lemma fold_max_ge:
  "(m :: nat) \<le> fold (\<lambda>(q, n) m. max (unat q + unat n) m) ms m \<and>
   (\<forall>(q, n) \<in> set ms. unat (q :: u64) + unat (n :: u64) \<le> fold (\<lambda>(q, n) m. max (unat q + unat n) m) ms m)"
proof (induction ms arbitrary: m)
  case (Cons x ms)
  obtain q n where x: "x = (q, n)"
    by fastforce
  show ?case
    using Cons.IH [of "max (unat q + unat n) m"] by (auto simp: x)
qed simp

lemma upward_mmap_ok: "mmap_ok upward_mmap"
  unfolding mmap_ok_def
proof (intro allI impI)
  fix ms :: "(u64 \<times> u64) list" and sz :: u64
  let ?t = "fold (\<lambda>(q, n) m. max (unat q + unat n) m) ms 4096"
  let ?p = "align_up 4096 ?t"
  assume "\<not> mmap_failed (upward_mmap ms sz)"
  then have l: "?p + unat sz \<le> 2 ^ 47" and e: "upward_mmap ms sz = of_nat ?p"
    by (auto simp: upward_mmap_def mmap_failed_def Let_def split: if_splits)
  have t: "4096 \<le> ?t" "\<forall>(q, n) \<in> set ms. unat q + unat n \<le> ?t" and p: "?t \<le> ?p"
    using fold_max_ge [of 4096 ms] align_up_ge [of 4096 ?t] by auto
  have u: "unat (upward_mmap ms sz) = ?p"
    using l unfolding e by (simp add: unat_of_nat)
  have "span (upward_mmap ms sz) (unat sz) \<inter> span q (unat n) = {}" if "(q, n) \<in> set ms" for q n
    using t(2) p that by (fastforce simp: span_def u)
  then show "4096 dvd unat (upward_mmap ms sz) \<and> 0 < unat (upward_mmap ms sz)
      \<and> unat (upward_mmap ms sz) + unat sz \<le> 2 ^ 47
      \<and> (\<forall>(q, n) \<in> set ms. span (upward_mmap ms sz) (unat sz) \<inter> span q (unat n) = {})"
    using l t(1) p unfolding u by auto
qed

lemmas heap_eval = allocate_object_def bump_def new_chunk_def chunk_size_def raw_mmap_def mmap_failed_def
  object_size_def new_heap_def upward_mmap_def align_up_def page_round_def kMaxSingleObject_def
  kChunkHeaderBytes_def kDefaultChunkBytes_def heap_alloc_def Let_def

theorem objects_are_stable_witness:
  "fst (allocate_object 24 7 1 (new_heap upward_mmap)) = 4160
   \<and> load_bytes 4160 40 (oh_mem (snd (alloc_run heap_alloc [(8, 9, 2)]
       (snd (allocate_object 24 7 1 (new_heap upward_mmap)))))) = object_image 24 7 1"
proof -
  have p: "fst (allocate_object 24 7 1 (new_heap upward_mmap)) = 4160"
    by (simp add: heap_eval)
  show ?thesis
    using objects_are_stable [OF upward_mmap_ok, of _ "[]" 24 7 1 4160 _ "[(8, 9, 2)]"] p
    by (simp add: prod_eq_iff)
qed

theorem heap_blocks_disjoint_witness:
  "blocks_disjoint (\<lambda>(i, v, c). 16 + unat i)
     (fst (alloc_run heap_alloc [(24, 7, 1), (70000, 8, 2), (8, 9, 3)] (new_heap upward_mmap)))
   \<and> map fst (fst (alloc_run heap_alloc [(24, 7, 1), (70000, 8, 2), (8, 9, 3)] (new_heap upward_mmap)))
       = [4160, 69696, 139712]"
proof -
  have "map fst (fst (alloc_run heap_alloc [(24, 7, 1), (70000, 8, 2), (8, 9, 3)] (new_heap upward_mmap)))
      = [4160, 69696, 139712]"
    by (simp add: heap_eval)
  then show ?thesis
    using heap_blocks_disjoint [OF upward_mmap_ok] by blast
qed
section \<open>The arena is an allocator\<close>

definition achunk_ok :: "Chunk \<Rightarrow> bool" where
  "achunk_ok c \<longleftrightarrow> 0 < unat (a_base c) \<and> unat (a_base c) + 32 + unat (a_capacity c) \<le> 2 ^ 47
     \<and> unat (a_used c) \<le> unat (a_capacity c)"

definition achunk_span :: "Chunk \<Rightarrow> nat set" where
  "achunk_span c = span (a_base c) (32 + unat (a_capacity c))"

definition arena_used :: "ArenaAllocator \<Rightarrow> nat set" where
  "arena_used a = (\<Union>c \<in> set (a_chunks a). span (a_base c) (32 + unat (a_used c)))"

definition arena_ok :: "ArenaAllocator \<Rightarrow> bool" where
  "arena_ok a \<longleftrightarrow> mmap_ok (os_mmap (a_os a)) \<and> unat (default_chunk_size a) \<le> 2 ^ 47
     \<and> (\<forall>c \<in> set (a_chunks a). achunk_ok c \<and> (a_base c, a_capacity c + 32) \<in> set (os_live (a_os a)))
     \<and> sorted_wrt (\<lambda>c d. achunk_span c \<inter> achunk_span d = {}) (a_chunks a)"

lemma achunk_mapping: "achunk_ok c \<Longrightarrow> achunk_span c = span (a_base c) (unat (a_capacity c + 32))"
proof -
  assume "achunk_ok c"
  then have "unat (a_capacity c + 32) = unat (a_capacity c) + 32"
    by (simp add: achunk_ok_def unat_plus_if')
  then show ?thesis
    by (simp add: achunk_span_def add.commute)
qed

lemma allocate_chunk_ok:
  assumes "arena_ok a" "allocate_chunk sz a = (r, a')"
  shows "arena_ok a' \<and> a_chunks a' = a_chunks a \<and> (\<forall>c. r = Some c \<longrightarrow>
    a_used c = 0 \<and> unat sz \<le> unat (a_capacity c) \<and> arena_ok (a'\<lparr>a_chunks := c # a_chunks a'\<rparr>))"
proof (cases r)
  case None
  then show ?thesis
    using assms by (auto simp: allocate_chunk_def arena_ok_def Let_def dest: raw_mmap_None split: if_splits prod.splits option.splits)
next
  case (Some c)
  let ?m = "if sz + 32 > default_chunk_size a then sz + 32 else default_chunk_size a"
  obtain p s where g: "\<not> sz > (- 1) - 32 - 4096" and m: "raw_mmap (page_round ?m) (a_os a) = (Some p, s)"
      and c: "c = \<lparr>a_base = p, a_capacity = page_round ?m - 32, a_used = 0\<rparr>" and a': "a' = a\<lparr>a_os := s\<rparr>"
    using assms(2) Some by (auto simp: allocate_chunk_def Let_def split: if_splits prod.splits option.splits)
  note o = raw_mmap_ok [OF _ m]
  have ok: "mmap_ok (os_mmap (a_os a))" "unat (default_chunk_size a) \<le> 2 ^ 47"
    using assms(1) by (auto simp: arena_ok_def)
  have sz: "unat sz + 32 + 4096 < 2 ^ 64"
    using g by (simp add: word_less_nat_alt)
  then have n: "unat (sz + 32) = unat sz + 32"
    by (simp add: unat_plus_if')
  have ge: "unat sz + 32 \<le> unat ?m" "unat ?m + 4095 < 2 ^ 64"
    using sz n ok(2) by (auto simp: word_less_nat_alt not_less)
  then have r: "unat sz + 32 \<le> unat (page_round ?m)"
    using align_up_ge [of 4096 "unat ?m"] by (simp add: page_round_unat)
  then have cap: "unat (page_round ?m - 32) + 32 = unat (page_round ?m)" "page_round ?m - 32 + 32 = page_round ?m"
    by (simp_all add: unat_sub word_le_nat_alt)
  have cok: "achunk_ok c"
    using o(2,3) ok(1) cap(1) by (simp add: achunk_ok_def c)
  have "achunk_span c \<inter> achunk_span d = {}" if "d \<in> set (a_chunks a)" for d
  proof -
    have "(a_base d, a_capacity d + 32) \<in> set (os_live (a_os a))" "achunk_ok d"
      using assms(1) that by (auto simp: arena_ok_def)
    moreover have "achunk_span c = span p (unat (page_round ?m))"
      using achunk_mapping [OF cok] unfolding c by (simp add: cap(2))
    ultimately show ?thesis
      using o(6) [OF ok(1)] achunk_mapping [of d] by fast
  qed
  then show ?thesis
    using assms(1) cok o(4,5) ok r cap unfolding Some a' by (auto simp: arena_ok_def c)
qed

text \<open>Placing a block in a chunk, and the arithmetic of the fit test.\<close>

lemma align_ptr_unat:
  assumes "n \<le> 62" "unat p \<le> 2 ^ 47"
  shows "unat (align_ptr p (2 ^ n)) = align_up (2 ^ n) (unat p)"
proof -
  have "(2 :: nat) ^ n \<le> 2 ^ 62"
    using assms(1) by (intro power_increasing) auto
  then show ?thesis
    using assms unat_align_word [of n p] by (simp add: align_ptr_def mask_eq_exp_minus_1)
qed

lemma fit_arith:
  assumes "achunk_ok c" "n \<le> 62" "unat bytes \<le> 2 ^ 63"
  defines "cur \<equiv> chunk_data c + a_used c" and "p \<equiv> align_ptr (chunk_data c + a_used c) (2 ^ n)"
  shows "unat cur = unat (a_base c) + 32 + unat (a_used c)"
    "unat p = unat cur + unat (p - cur)" "2 ^ n dvd unat p" "unat (p - cur) < 2 ^ n"
    "unat (a_used c + (p - cur) + bytes) = unat (a_used c) + unat (p - cur) + unat bytes"
proof -
  have c: "unat (a_base c) + 32 + unat (a_used c) \<le> 2 ^ 47"
    using assms(1) by (auto simp: achunk_ok_def)
  then show cur: "unat cur = unat (a_base c) + 32 + unat (a_used c)"
    by (simp add: cur_def chunk_data_def unat_add)
  have p: "unat p = align_up (2 ^ n) (unat cur)"
    unfolding p_def cur_def [symmetric] using assms(2) cur c by (simp add: align_ptr_unat)
  have le: "unat cur \<le> unat p" "unat p < unat cur + 2 ^ n"
    unfolding p by (simp_all add: align_up_ge align_up_less)
  then have d: "unat (p - cur) = unat p - unat cur"
    by (simp add: unat_sub word_le_nat_alt)
  show "2 ^ n dvd unat p"
    unfolding p by simp
  show "unat p = unat cur + unat (p - cur)" and s: "unat (p - cur) < 2 ^ n"
    using d le by linarith+
  have "(2 :: nat) ^ n \<le> 2 ^ 62"
    using assms(2) by (intro power_increasing) auto
  then have "unat (a_used c) + unat (p - cur) + unat bytes < 2 ^ 64"
    using s c assms(3) by simp
  then show "unat (a_used c + (p - cur) + bytes) = unat (a_used c) + unat (p - cur) + unat bytes"
    by (simp add: unat_add)
qed

lemma place_ok:
  assumes "arena_ok a" "a_chunks a = c # cs" "n \<le> 62" "unat bytes \<le> 2 ^ 63"
  defines "p \<equiv> align_ptr (chunk_data c + a_used c) (2 ^ n)"
  defines "pad \<equiv> p - (chunk_data c + a_used c)"
  assumes "\<not> a_used c + pad + bytes > a_capacity c"
  defines "a' \<equiv> a\<lparr>a_chunks := c\<lparr>a_used := a_used c + (pad + bytes)\<rparr> # cs\<rparr>"
  shows "arena_ok a' \<and> arena_used a \<subseteq> arena_used a' \<and> 2 ^ n dvd unat p \<and> p \<noteq> 0
    \<and> span p (unat bytes) \<inter> arena_used a = {} \<and> span p (unat bytes) \<subseteq> arena_used a'"
proof -
  have c: "achunk_ok c" and cs: "\<forall>d \<in> set cs. achunk_ok d \<and> achunk_span c \<inter> achunk_span d = {}"
    using assms(1,2) by (auto simp: arena_ok_def)
  note f = fit_arith [OF c assms(3,4), folded p_def, folded pad_def]
  have fit: "unat (a_used c) + unat pad + unat bytes \<le> unat (a_capacity c)"
    using assms(7) f(5) by (simp add: word_less_nat_alt not_less)
  have u: "unat (a_used c + (pad + bytes)) = unat (a_used c) + unat pad + unat bytes"
    using f(5) by (simp add: add.assoc)
  have sp: "span p (unat bytes) \<subseteq> achunk_span c"
    using f(1,2) fit by (auto simp: span_def achunk_span_def)
  have "span (a_base d) (32 + unat (a_used d)) \<subseteq> achunk_span d" if "d \<in> set cs" for d
    unfolding achunk_span_def using cs that by (intro span_mono) (simp add: achunk_ok_def)
  then have "span p (unat bytes) \<inter> span (a_base d) (32 + unat (a_used d)) = {}" if "d \<in> set cs" for d
    using that cs sp by blast
  moreover have "span p (unat bytes) \<inter> span (a_base c) (32 + unat (a_used c)) = {}"
    using f(1,2) by (auto simp: span_def)
  ultimately have "span p (unat bytes) \<inter> arena_used a = {}"
    unfolding arena_used_def assms(2) by (simp add: Int_Un_distrib Int_UN_distrib)
  moreover have "arena_ok a'"
    using assms(1,2) c fit u by (auto simp: arena_ok_def a'_def achunk_ok_def achunk_span_def)
  moreover have "arena_used a \<union> span p (unat bytes) \<subseteq> arena_used a'"
    using f(1,2) u by (auto simp: arena_used_def a'_def assms(2) span_def)
  moreover have "p \<noteq> 0"
    using f(1,2) by (auto simp: unat_eq_zero [symmetric])
  ultimately show ?thesis
    using f(3) by simp
qed
definition arena_post :: "nat \<Rightarrow> u64 \<Rightarrow> ArenaAllocator \<Rightarrow> u64 \<times> ArenaAllocator \<Rightarrow> bool" where
  "arena_post n bytes a r \<longleftrightarrow> arena_ok (snd r) \<and> arena_used a \<subseteq> arena_used (snd r)
     \<and> (fst r \<noteq> 0 \<longrightarrow> 2 ^ n dvd unat (fst r) \<and> span (fst r) (unat bytes) \<inter> arena_used a = {}
          \<and> span (fst r) (unat bytes) \<subseteq> arena_used (snd r))"

lemma arena_post_null: "arena_ok a' \<Longrightarrow> arena_used a \<subseteq> arena_used a' \<Longrightarrow> arena_post n bytes a (0, a')"
  by (simp add: arena_post_def)

lemma arena_post_mono: "arena_post n bytes b r \<Longrightarrow> arena_used a \<subseteq> arena_used b \<Longrightarrow> arena_post n bytes a r"
  unfolding arena_post_def by blast

lemma arena_add_chunk:
  assumes "arena_ok a" "allocate_chunk sz a = (Some c, a')"
  defines "b \<equiv> a'\<lparr>a_chunks := c # a_chunks a'\<rparr>"
  shows "arena_ok b" "a_chunks b = c # a_chunks a" "arena_used a \<subseteq> arena_used b" "a_used c = 0"
  using allocate_chunk_ok [OF assms(1,2)] by (auto simp: b_def arena_used_def)

lemma arena_place:
  assumes "arena_ok a" "a_chunks a = k # cs" "n \<le> 62" "unat bytes \<le> 2 ^ 63"
  shows "arena_post n bytes a (arena_bump bytes (2 ^ n) a)"
proof (cases "a_used k + (align_ptr (chunk_data k + a_used k) (2 ^ n) - (chunk_data k + a_used k)) + bytes > a_capacity k")
  case False
  then show ?thesis
    using place_ok [OF assms False] unfolding arena_bump_def assms(2) Let_def list.sel if_not_P [OF False]
    by (simp only: arena_post_def fst_conv snd_conv) blast
next
  case True
  obtain r a2 where r: "allocate_chunk (bytes + 2 ^ n) a = (r, a2)"
    by fastforce
  show ?thesis
  proof (cases r)
    case None
    have "arena_bump bytes (2 ^ n) a = (0, a2)"
      unfolding arena_bump_def assms(2) Let_def list.sel if_P [OF True] by (simp add: r None)
    then show ?thesis
      using allocate_chunk_ok [OF assms(1) r] by (auto simp: arena_used_def intro!: arena_post_null)
  next
    case (Some c)
    let ?b = "a2\<lparr>a_chunks := c # a_chunks a2\<rparr>" and ?p = "align_ptr (chunk_data c) (2 ^ n)"
    let ?r = "(?p, a2\<lparr>a_chunks := c\<lparr>a_used := ?p - chunk_data c + bytes\<rparr> # a_chunks a2\<rparr>)"
    note b = arena_add_chunk [OF assms(1) r [unfolded Some]]
    have post: "arena_post n bytes ?b ?r" if "\<not> ?p - chunk_data c + bytes > a_capacity c"
      using place_ok [of ?b c "a_chunks a2" n bytes] that b(1,4) assms(3,4) by (simp add: arena_post_def)
    have "arena_bump bytes (2 ^ n) a = (if ?p - chunk_data c + bytes > a_capacity c then (0, ?b) else ?r)"
      unfolding arena_bump_def assms(2) Let_def list.sel if_P [OF True] by (simp add: r Some)
    then show ?thesis
      using arena_post_mono [OF post b(3)] arena_post_null [OF b(1,3)] by simp
  qed
qed

lemma arena_alloc_post:
  assumes "arena_ok a" "n \<le> 62" "unat bytes \<le> 2 ^ 63"
  shows "arena_post n bytes a (arena_alloc bytes (2 ^ n) a)"
proof (cases "bytes = 0 \<or> (2 ^ n :: u64) = 0 \<or> (2 ^ n :: u64) AND (2 ^ n - 1) \<noteq> 0 \<or> bytes > (- 1) - 2 ^ n - 4096")
  case True
  then show ?thesis
    using assms(1) by (auto simp: arena_alloc_def arena_post_null)
next
  case False
  show ?thesis
  proof (cases "a_chunks a")
    case (Cons c cs)
    then show ?thesis
      using arena_place [OF assms(1) Cons assms(2,3)] False by (simp add: arena_alloc_def)
  next
    case Nil
    obtain r a2 where r: "allocate_chunk (bytes + 2 ^ n) a = (r, a2)"
      by fastforce
    have e: "arena_alloc bytes (2 ^ n) a =
        (case r of None \<Rightarrow> (0, a2) | Some c \<Rightarrow> arena_bump bytes (2 ^ n) (a2\<lparr>a_chunks := [c]\<rparr>))"
      using False Nil by (simp add: arena_alloc_def r)
    show ?thesis
    proof (cases r)
      case None
      then show ?thesis
        using e allocate_chunk_ok [OF assms(1) r] by (auto simp: arena_used_def intro!: arena_post_null)
    next
      case (Some c)
      note b = arena_add_chunk [OF assms(1) r [unfolded Some]]
      have "a_chunks a2 = []"
        using b(2) Nil by simp
      then show ?thesis
        using arena_post_mono [OF arena_place [OF b(1,2) assms(2,3)] b(3)] e Some by simp
    qed
  qed
qed

definition arena_req :: "u64 \<times> u64 \<Rightarrow> bool" where
  "arena_req = (\<lambda>(bytes, alignment). unat bytes \<le> 2 ^ 63 \<and> (\<exists>n \<le> 62. alignment = 2 ^ n))"

interpretation arena: allocator "\<lambda>(b, n). arena_alloc b n" "\<lambda>(b, n). unat b" arena_req arena_ok arena_used
proof unfold_locales
  fix a and q :: "u64 \<times> u64"
  assume a: "arena_ok a" and q: "arena_req q"
  then obtain b n where n: "q = (b, 2 ^ n)" "n \<le> 62" "unat b \<le> 2 ^ 63"
    by (auto simp: arena_req_def)
  note p = arena_alloc_post [OF a n(2,3), unfolded arena_post_def]
  show "arena_ok (snd ((\<lambda>(b, n). arena_alloc b n) q a))"
    "arena_used a \<subseteq> arena_used (snd ((\<lambda>(b, n). arena_alloc b n) q a))"
    using p by (simp_all add: n(1))
  show "span (fst ((\<lambda>(b, n). arena_alloc b n) q a)) ((\<lambda>(b, n). unat b) q) \<inter> arena_used a = {}
      \<and> span (fst ((\<lambda>(b, n). arena_alloc b n) q a)) ((\<lambda>(b, n). unat b) q) \<subseteq> arena_used (snd ((\<lambda>(b, n). arena_alloc b n) q a))"
    if "fst ((\<lambda>(b, n). arena_alloc b n) q a) \<noteq> 0"
    using p that by (simp add: n(1))
qed

lemma new_arena_ok: "mmap_ok f \<Longrightarrow> unat d \<le> 2 ^ 47 \<Longrightarrow> arena_ok (new_arena d f)"
  by (simp add: new_arena_def arena_ok_def)

text \<open>
  The arena hands out disjoint blocks: any sequence of requests of at most 2^63 bytes
  at power-of-two alignments, on an arena with any default chunk size up to 2^47, yields
  pairwise disjoint blocks.
\<close>
theorem arena_blocks_disjoint:
  assumes "mmap_ok f" "unat d \<le> 2 ^ 47"
    "\<forall>(bytes, alignment) \<in> set qs. unat bytes \<le> 2 ^ 63 \<and> (\<exists>n \<le> 62. alignment = 2 ^ n)"
  shows "blocks_disjoint (\<lambda>(b, n). unat b) (fst (alloc_run (\<lambda>(b, n). arena_alloc b n) qs (new_arena d f)))"
  using arena.run_blocks [OF new_arena_ok [OF assms(1,2)]] assms(3) unfolding arena_req_def by blast

lemmas arena_eval = arena_alloc_def arena_bump_def allocate_chunk_def new_arena_def raw_mmap_def mmap_failed_def
  upward_mmap_def align_up_def page_round_def align_ptr_def chunk_data_def Let_def

theorem arena_blocks_disjoint_witness:
  "blocks_disjoint (\<lambda>(b, n). unat b)
     (fst (alloc_run (\<lambda>(b, n). arena_alloc b n) [(5, 1), (40, 8)] (new_arena 65536 upward_mmap)))
   \<and> map fst (fst (alloc_run (\<lambda>(b, n). arena_alloc b n) [(5, 1), (40, 8)] (new_arena 65536 upward_mmap)))
       = [4128, 4136]"
proof -
  have "map fst (fst (alloc_run (\<lambda>(b, n). arena_alloc b n) [(5, 1), (40, 8)] (new_arena 65536 upward_mmap)))
      = [4128, 4136]"
    by (simp add: arena_eval)
  moreover have "\<exists>n \<le> 62. (1 :: u64) = 2 ^ n" "\<exists>n \<le> 62. (8 :: u64) = 2 ^ n"
    by (rule exI [of _ 0], simp) (rule exI [of _ 3], simp)
  ultimately show ?thesis
    using arena_blocks_disjoint [OF upward_mmap_ok, of 65536 "[(5, 1), (40, 8)]"] by simp
qed

text \<open>
  The fit test of the arena can wrap: after 8000 bytes have been handed out, a request of
  2^64 - 5000 bytes is granted from the same chunk, and the next block overlaps the first one.
\<close>
theorem arena_fit_test_wraps:
  "map fst (fst (alloc_run (\<lambda>(b, n). arena_alloc b n) [(8000, 8), (- 5000, 8), (100, 8)]
     (new_arena 65536 upward_mmap))) = [4128, 12128, 7128]"
  by (simp add: arena_eval)
section \<open>The string pool keeps its strings\<close>

text \<open>
  The contract generated code relies on: a pointer the pool returned holds its string for as long
  as the pool lives, whatever is interned later.
\<close>

fun intern_run :: "('k \<Rightarrow> 's \<Rightarrow> u64 option \<times> 's) \<Rightarrow> 'k list \<Rightarrow> 's \<Rightarrow> 's" where
  "intern_run f [] s = s"
| "intern_run f (k # ks) s = intern_run f ks (snd (f k s))"

locale interner =
  fixes intern :: "'k \<Rightarrow> 's \<Rightarrow> u64 option \<times> 's"
    and req :: "'k \<Rightarrow> bool"
    and inv :: "'s \<Rightarrow> bool"
    and holds :: "'s \<Rightarrow> u64 \<Rightarrow> 'k \<Rightarrow> bool"
  assumes intern_inv: "inv s \<Longrightarrow> req k \<Longrightarrow> inv (snd (intern k s))"
    and intern_holds: "inv s \<Longrightarrow> req k \<Longrightarrow> intern k s = (Some q, s') \<Longrightarrow> holds s' q k"
    and intern_keeps: "inv s \<Longrightarrow> req k \<Longrightarrow> holds s q k' \<Longrightarrow> holds (snd (intern k s)) q k'"
begin

lemma run_inv: "inv s \<Longrightarrow> \<forall>k \<in> set ks. req k \<Longrightarrow> inv (intern_run intern ks s)"
  by (induction ks arbitrary: s) (simp_all add: intern_inv)

lemma run_holds: "inv s \<Longrightarrow> \<forall>k \<in> set ks. req k \<Longrightarrow> holds s q k \<Longrightarrow> holds (intern_run intern ks s) q k"
  by (induction ks arbitrary: s) (simp_all add: intern_inv intern_keeps)

lemma interned_forever:
  "inv s \<Longrightarrow> \<forall>k \<in> set (k # ks). req k \<Longrightarrow> intern k s = (Some q, s') \<Longrightarrow> holds (intern_run intern ks s') q k"
  using intern_inv [of s k] intern_holds run_holds by simp

end

definition entry_ok :: "JitStringPool \<Rightarrow> JitStringEntry \<Rightarrow> bool" where
  "entry_ok p e \<longleftrightarrow> unat (e_ptr e) + unat (e_len e) + 1 \<le> 2 ^ 47
     \<and> span (e_ptr e) (unat (e_len e) + 1) \<subseteq> chunks_used (p_chunks p)
     \<and> p_mem p (e_ptr e + e_len e) = 0"

definition pool_ok :: "JitStringPool \<Rightarrow> bool" where
  "pool_ok p \<longleftrightarrow> mmap_ok (os_mmap (p_os p)) \<and> chunks_ok (p_chunks p) (p_os p)
     \<and> (entry_base p \<noteq> 0 \<longrightarrow> (entry_base p, entries_mapping p) \<in> set (os_live (p_os p))
          \<and> (\<forall>c \<in> set (p_chunks p). span (entry_base p) (unat (entries_mapping p)) \<inter> chunk_span c = {}))
     \<and> (\<forall>e \<in> set (entries p). entry_ok p e)"

definition pool_holds :: "JitStringPool \<Rightarrow> u64 \<Rightarrow> bytes \<times> u64 \<Rightarrow> bool" where
  "pool_holds p q = (\<lambda>(bs, hash). unat q + length bs + 1 \<le> 2 ^ 47
     \<and> span q (length bs + 1) \<subseteq> chunks_used (p_chunks p)
     \<and> load_bytes q (length bs + 1) (p_mem p) = bs @ [0])"

definition pool_intern :: "bytes \<times> u64 \<Rightarrow> JitStringPool \<Rightarrow> u64 option \<times> JitStringPool" where
  "pool_intern = (\<lambda>(bs, hash). get_or_intern (Some bs) (of_nat (length bs)) hash)"

definition apart :: "OS \<Rightarrow> nat set \<Rightarrow> bool" where
  "apart s X \<longleftrightarrow> (\<forall>(q, n) \<in> set (os_live s). X \<inter> span q (unat n) = {})"

lemma bump_live:
  assumes "mmap_ok (os_mmap s)" "bump need cs s = (r, cs', s')"
  shows "set (os_live s) \<subseteq> set (os_live s') \<and> (\<forall>c \<in> set cs'. chunk_span c \<in> chunk_span ` set cs
    \<or> apart s (chunk_span c))"
proof -
  have new: "set (os_live s) \<subseteq> set (os_live s1) \<and> (\<forall>ds. q = Some ds \<longrightarrow>
      (\<exists>c. ds = cs @ [c] \<and> apart s (chunk_span c)))"
    if m: "new_chunk need cs s = (q, s1)" for q s1
  proof (cases q)
    case None
    then show ?thesis
      using m by (auto simp: new_chunk_def dest: raw_mmap_None split: option.splits prod.splits)
  next
    case (Some ds)
    then obtain sz p where "raw_mmap sz s = (Some p, s1)"
        "ds = cs @ [\<lparr>c_base = p, mapping_size = sz, c_capacity = sz - 64, c_offset = 0\<rparr>]"
      using m by (auto simp: new_chunk_def kChunkHeaderBytes_def split: option.splits prod.splits)
    then show ?thesis
      using raw_mmap_ok [OF assms(1)] Some by (fastforce simp: chunk_span_def apart_def)
  qed
  obtain q s1 where q: "(if cs = [] \<or> need > c_capacity (last cs) - c_offset (last cs)
      then new_chunk need cs s else (Some cs, s)) = (q, s1)"
    by fastforce
  have span_upd: "chunk_span (c\<lparr>c_offset := v\<rparr>) = chunk_span c" for c v
    by (simp add: chunk_span_def)
  have old: "set (os_live s) \<subseteq> set (os_live s1) \<and> (\<forall>ds. q = Some ds \<longrightarrow> ds \<noteq> [] \<and> (\<forall>c \<in> set ds.
      chunk_span c \<in> chunk_span ` set cs \<or> apart s (chunk_span c)))"
    using q new by (auto split: if_splits)
  show ?thesis
  proof (cases q)
    case None
    then show ?thesis
      using assms(2) q old by (auto simp: bump_def)
  next
    case (Some ds)
    then have "s' = s1" "cs' = butlast ds @ [last ds\<lparr>c_offset := c_offset (last ds) + need\<rparr>]"
      using assms(2) q by (auto simp: bump_def Let_def)
    then show ?thesis
      using old Some by (auto simp: span_upd dest: in_set_butlastD)
  qed
qed

lemma chunks_ok_live:
  assumes "chunks_ok cs s" "\<And>c. c \<in> set cs \<Longrightarrow> (c_base c, mapping_size c) \<in> set (os_live s')"
  shows "chunks_ok cs s'"
  using assms by (auto simp: chunks_ok_def)

lemma grow_entries_ok:
  assumes "pool_ok p" "grow_entries p = (ok, p')"
  shows "pool_ok p' \<and> p_chunks p' = p_chunks p \<and> p_mem p' = p_mem p \<and> entries p' = entries p"
proof (cases "p' = p")
  case False
  define cap where "cap = (if entry_capacity p \<noteq> 0 then entry_capacity p * 2 else 256)"
  define sz where "sz = page_round (ucast cap * 24)"
  obtain mq s where m0: "raw_mmap sz (p_os p) = (mq, s)"
    by fastforce
  have g: "grow_entries p = (if cap \<le> entry_capacity p \<or> sz < ucast cap * 24 then (False, p)
      else (case mq of None \<Rightarrow> (False, p\<lparr>p_os := s\<rparr>)
        | Some q \<Rightarrow> (True, p\<lparr>p_os := (if entry_base p \<noteq> 0 \<and> entries_mapping p \<noteq> 0
                      then raw_munmap (entry_base p) (entries_mapping p) s else s),
                      entry_base := q, entries_mapping := sz, entry_capacity := cap\<rparr>)))"
    unfolding grow_entries_def Let_def cap_def [symmetric] sz_def [symmetric] by (simp add: m0)
  have "mq \<noteq> None"
  proof
    assume "mq = None"
    then have "p' = p \<or> p' = p\<lparr>p_os := s\<rparr>" "s = p_os p"
      using g assms(2) m0 raw_mmap_None by (auto split: if_splits)
    then show False
      using False by auto
  qed
  then obtain q where m: "raw_mmap sz (p_os p) = (Some q, s)"
      and p': "p' = p\<lparr>p_os := (if entry_base p \<noteq> 0 \<and> entries_mapping p \<noteq> 0
                      then raw_munmap (entry_base p) (entries_mapping p) s else s),
                      entry_base := q, entries_mapping := sz, entry_capacity := cap\<rparr>"
    using g assms(2) m0 False by (auto split: if_splits)
  have ok: "mmap_ok (os_mmap (p_os p))" "chunks_ok (p_chunks p) (p_os p)"
      "entry_base p \<noteq> 0 \<Longrightarrow> (\<forall>c \<in> set (p_chunks p). span (entry_base p) (unat (entries_mapping p)) \<inter> chunk_span c = {})"
    using assms(1) by (auto simp: pool_ok_def)
  note o = raw_mmap_ok [OF ok(1) m]
  have dis: "span q (unat sz) \<inter> chunk_span c = {}" if "c \<in> set (p_chunks p)" for c
    using o(6) ok(2) that unfolding chunks_ok_def chunk_span_def by fast
  have live: "(c_base c, mapping_size c) \<in> set (os_live (p_os p'))" if c: "c \<in> set (p_chunks p)" for c
  proof -
    have l: "(c_base c, mapping_size c) \<in> set (os_live s)" and k: "chunk_ok c"
      using ok(2) o(5) c by (auto simp: chunks_ok_def)
    have "unat (c_base c) \<in> chunk_span c"
      using k by (auto simp: chunk_ok_def chunk_span_def span_def)
    then have "(c_base c, mapping_size c) \<noteq> (entry_base p, entries_mapping p)" if "entry_base p \<noteq> 0"
      using ok(3) that c by (auto simp: chunk_span_def)
    then show ?thesis
      using l unfolding p' by (auto simp: raw_munmap_def)
  qed
  have "(q, sz) \<in> set (os_live (p_os p'))"
  proof -
    have "(q, sz) \<noteq> (entry_base p, entries_mapping p)" if "entry_base p \<noteq> 0" "entries_mapping p \<noteq> 0"
    proof
      assume e: "(q, sz) = (entry_base p, entries_mapping p)"
      have "(entry_base p, entries_mapping p) \<in> set (os_live (p_os p))"
        using assms(1) that by (simp add: pool_ok_def)
      then have "span q (unat sz) \<inter> span q (unat sz) = {}"
        using o(6) e by fast
      then show False
        using e that(2) by (auto simp: span_def unat_eq_zero)
    qed
    then show ?thesis
      unfolding p' using o(5) by (auto simp: raw_munmap_def)
  qed
  moreover have "os_mmap (p_os p') = os_mmap (p_os p)"
    unfolding p' using o(4) by (simp add: raw_munmap_def)
  moreover have "chunks_ok (p_chunks p) (p_os p')"
    using live by (rule chunks_ok_live [OF ok(2)])
  moreover have f: "p_chunks p' = p_chunks p" "p_mem p' = p_mem p" "entries p' = entries p"
      "entry_base p' = q" "entries_mapping p' = sz"
    unfolding p' by simp_all
  moreover have "\<forall>e \<in> set (entries p'). entry_ok p' e"
    using assms(1) f by (simp add: pool_ok_def entry_ok_def)
  ultimately have "pool_ok p'"
    using ok(1) dis unfolding pool_ok_def by simp
  then show ?thesis
    unfolding p' by simp
qed (use assms in auto)

lemma chunks_used_bound: "chunks_ok cs s \<Longrightarrow> x \<in> chunks_used cs \<Longrightarrow> x < 2 ^ 47"
  unfolding chunks_used_def chunks_ok_def chunk_ok_def span_def by fastforce

lemma pool_ok_bumped:
  assumes "pool_ok p"
    and k: "os_mmap s = os_mmap (p_os p) \<and> chunks_ok cs s \<and> chunks_used (p_chunks p) \<subseteq> chunks_used cs \<and> R"
    and l: "set (os_live (p_os p)) \<subseteq> set (os_live s) \<and> (\<forall>c \<in> set cs. chunk_span c \<in> chunk_span ` set (p_chunks p)
      \<or> apart (p_os p) (chunk_span c))"
    and m: "\<And>x. unat x \<in> chunks_used (p_chunks p) \<Longrightarrow> m x = p_mem p x"
  shows "pool_ok (p\<lparr>p_chunks := cs, p_os := s, p_mem := m\<rparr>)"
proof -
  let ?p = "p\<lparr>p_chunks := cs, p_os := s, p_mem := m\<rparr>"
  have "entry_ok ?p e" if e: "e \<in> set (entries p)" for e
  proof -
    have o: "entry_ok p e"
      using assms(1) e by (simp add: pool_ok_def)
    then have "unat (e_ptr e + e_len e) \<in> span (e_ptr e) (unat (e_len e) + 1)"
      by (simp add: entry_ok_def span_def unat_add)
    then show ?thesis
      using o m k unfolding entry_ok_def by (auto simp: subset_eq)
  qed
  moreover have "span (entry_base p) (unat (entries_mapping p)) \<inter> chunk_span c = {}"
    if "entry_base p \<noteq> 0" "c \<in> set cs" for c
    using assms(1) l that unfolding pool_ok_def apart_def by fast
  ultimately show ?thesis
    using assms(1) k l unfolding pool_ok_def by auto
qed

lemma load_bytes_snoc: "load_bytes a (Suc n) m = load_bytes a n m @ [m (a + of_nat n)]"
  by (simp add: load_bytes_def)

lemma get_or_intern_cases:
  assumes "pool_ok p" "length bs < 2 ^ 47" "get_or_intern (Some bs) (of_nat (length bs)) hash p = (r, p')"
  shows "pool_ok p' \<and> chunks_used (p_chunks p) \<subseteq> chunks_used (p_chunks p')
    \<and> (\<forall>x. unat x \<in> chunks_used (p_chunks p) \<longrightarrow> p_mem p' x = p_mem p x)
    \<and> (\<forall>q. r = Some q \<longrightarrow> pool_holds p' q (bs, hash))"
proof -
  let ?len = "of_nat (length bs) :: u64"
  have len: "unat ?len = length bs" "unat (?len + 1) = length bs + 1" "\<not> ?len + 1 < ?len"
    using assms(2) by (simp_all add: unat_of_nat unat_plus_if' word_less_nat_alt)
  show ?thesis
  proof (cases "find (\<lambda>e. e_hash e = hash \<and> e_len e = ?len
      \<and> load_bytes (e_ptr e) (unat ?len) (p_mem p) = take (unat ?len) bs) (entries p)")
    case (Some e)
    then have e: "e \<in> set (entries p)" "e_len e = ?len" "load_bytes (e_ptr e) (length bs) (p_mem p) = bs"
      using len(1) by (auto simp: find_Some_iff)
    have "r = Some (e_ptr e)" "p' = p"
      using assms(3) Some by (simp_all add: get_or_intern_def)
    moreover have "entry_ok p e"
      using assms(1) e(1) by (simp add: pool_ok_def)
    then have "pool_holds p (e_ptr e) (bs, hash)"
      using e(2,3) len(1) by (auto simp: entry_ok_def pool_holds_def load_bytes_snoc)
    ultimately show ?thesis
      using assms(1) by simp
  next
    case None
    obtain d cs s where b: "bump (?len + 1) (p_chunks p) (p_os p) = (d, cs, s)"
      by (cases "bump (?len + 1) (p_chunks p) (p_os p)") auto
    have ok: "mmap_ok (os_mmap (p_os p))" "chunks_ok (p_chunks p) (p_os p)"
      using assms(1) by (auto simp: pool_ok_def)
    note k = bump_ok [OF ok b] and l = bump_live [OF ok(1) b]
    have base: "pool_ok (p\<lparr>p_chunks := cs, p_os := s, p_mem := m\<rparr>)"
      if m: "\<And>x. unat x \<in> chunks_used (p_chunks p) \<Longrightarrow> m x = p_mem p x" for m
      using assms(1) k l m by (rule pool_ok_bumped)
    show ?thesis
    proof (cases d)
      case None
      then have "r = None" "p' = p\<lparr>p_chunks := cs, p_os := s\<rparr>"
        using assms(3) \<open>find _ _ = None\<close> b len(3) by (auto simp: get_or_intern_def)
      then show ?thesis
        using base [of "p_mem p"] k by simp
    next
      case (Some dst)
      let ?m = "store_bytes dst (bs @ [0]) (p_mem p)"
      let ?p2 = "p\<lparr>p_chunks := cs, p_os := s, p_mem := ?m\<rparr>"
      have d: "unat dst + (length bs + 1) \<le> 2 ^ 47" "span dst (length bs + 1) \<inter> chunks_used (p_chunks p) = {}"
          "span dst (length bs + 1) \<subseteq> chunks_used cs"
        using k Some len(2) by auto
      have m: "?m x = p_mem p x" if "unat x \<in> chunks_used (p_chunks p)" for x
        using d(1,2) that by (intro store_bytes_other) auto
      have h: "load_bytes dst (Suc (length bs)) ?m = bs @ [0]"
        using d(1) by (intro load_store_same) auto
      obtain ok3 p3 where g: "(if length (entries ?p2) = unat (entry_capacity ?p2) then grow_entries ?p2 else (True, ?p2)) = (ok3, p3)"
        by fastforce
      have p3: "pool_ok p3 \<and> p_chunks p3 = cs \<and> p_mem p3 = ?m \<and> entries p3 = entries p"
        using g grow_entries_ok [OF base [OF m], of ok3 p3] base [OF m] by (auto split: if_splits)
      have "?m (dst + ?len) = 0"
        using h by (simp add: load_bytes_snoc)
      then have e: "entry_ok p3 \<lparr>e_hash = hash, e_len = ?len, e_ptr = dst\<rparr>"
        using d p3 len(1) by (simp add: entry_ok_def)
      have r: "r = Some dst" "p' = record_entry hash ?len dst ?p2"
        using assms(3) \<open>find _ _ = None\<close> b len Some by (auto simp: get_or_intern_def)
      have p': "p' = (if ok3 then p3\<lparr>entries := entries p3 @ [\<lparr>e_hash = hash, e_len = ?len, e_ptr = dst\<rparr>]\<rparr> else p3)"
        unfolding r record_entry_def g by simp
      have "pool_ok p'" "p_chunks p' = cs" "p_mem p' = ?m"
        using p3 e unfolding p' by (auto simp: pool_ok_def entry_ok_def)
      moreover from this have "pool_holds p' dst (bs, hash)"
        using d h by (simp add: pool_holds_def)
      ultimately show ?thesis
        using k m r(1) by auto
    qed
  qed
qed

definition pool_req :: "bytes \<times> u64 \<Rightarrow> bool" where
  "pool_req = (\<lambda>(bs, hash). length bs < 2 ^ 47)"

interpretation pool: interner pool_intern pool_req pool_ok pool_holds
proof unfold_locales
  fix p p' :: JitStringPool and k k' :: "bytes \<times> u64" and q
  assume p: "pool_ok p" and k: "pool_req k"
  obtain bs hash where e: "k = (bs, hash)"
    by fastforce
  obtain r p1 where i: "get_or_intern (Some bs) (of_nat (length bs)) hash p = (r, p1)"
    by fastforce
  have "length bs < 2 ^ 47"
    using k by (simp add: pool_req_def e)
  note c = get_or_intern_cases [OF p this i]
  have run: "pool_intern k p = (r, p1)"
    by (simp add: pool_intern_def e i)
  show "pool_ok (snd (pool_intern k p))"
    using c run by simp
  show "pool_holds p' q k" if "pool_intern k p = (Some q, p')"
    using c run that e by simp
  show "pool_holds (snd (pool_intern k p)) q k'" if h: "pool_holds p q k'"
  proof -
    obtain cs hs where k': "k' = (cs, hs)"
      by fastforce
    have s: "span q (length cs + 1) \<subseteq> chunks_used (p_chunks p)" "unat q + length cs + 1 \<le> 2 ^ 47"
      using h by (auto simp: pool_holds_def k')
    have "load_bytes q (length cs + 1) (p_mem p1) = load_bytes q (length cs + 1) (p_mem p)"
      using c s by (intro load_bytes_cong) auto
    then show ?thesis
      using h c run by (auto simp: pool_holds_def k')
  qed
qed
lemma new_pool_ok: "mmap_ok f \<Longrightarrow> pool_ok (new_pool f)"
  by (simp add: new_pool_def pool_ok_def chunks_ok_def)

text \<open>
  Claim C20. Addresses baked into generated code stay valid: a pointer the pool returned for a
  string points to that string followed by a NUL byte, and still does after any number of further
  strings have been interned and the pool and its table have grown.
\<close>
theorem interned_strings_stable:
  assumes "mmap_ok f" "\<forall>(bs, hash) \<in> set (before @ (str, h) # after). length bs < 2 ^ 47"
    "pool_intern (str, h) (intern_run pool_intern before (new_pool f)) = (Some q, p)"
  shows "load_bytes q (length str + 1) (p_mem (intern_run pool_intern after p)) = str @ [0]"
proof -
  have "pool_ok (intern_run pool_intern before (new_pool f))"
    using assms(2) by (intro pool.run_inv new_pool_ok [OF assms(1)]) (auto simp: pool_req_def)
  then have "pool_holds (intern_run pool_intern after p) q (str, h)"
    using assms(2,3) by (intro pool.interned_forever) (auto simp: pool_req_def)
  then show ?thesis
    by (simp add: pool_holds_def)
qed

text \<open>Interning a string again finds the entry that was recorded for it.\<close>

abbreviation entry_matches :: "bytes \<Rightarrow> u64 \<Rightarrow> JitStringPool \<Rightarrow> JitStringEntry \<Rightarrow> bool" where
  "entry_matches bs h p e \<equiv> e_hash e = h \<and> e_len e = of_nat (length bs)
     \<and> load_bytes (e_ptr e) (unat (of_nat (length bs) :: u64)) (p_mem p) = take (unat (of_nat (length bs) :: u64)) bs"

lemma grow_entries_entries: "entries (snd (grow_entries p)) = entries p"
  by (simp add: record_entry_def grow_entries_def Let_def split: prod.split option.split)

lemma get_or_intern_entries:
  assumes "find (entry_matches bs h p) (entries p) = None"
    "get_or_intern (Some bs) (of_nat (length bs)) h p = (Some q, p')"
  shows "entries p' = entries p \<or> entries p' = entries p @ [\<lparr>e_hash = h, e_len = of_nat (length bs), e_ptr = q\<rparr>]"
proof -
  obtain dst cs s where "bump (of_nat (length bs) + 1) (p_chunks p) (p_os p) = (Some dst, cs, s)"
    using assms by (auto simp: get_or_intern_def Let_def split: if_splits prod.splits option.splits)
  then have "p' = record_entry h (of_nat (length bs)) q (p\<lparr>p_chunks := cs, p_os := s,
      p_mem := store_bytes q (take (unat (of_nat (length bs) :: u64)) bs @ [0]) (p_mem p)\<rparr>)" (is "p' = record_entry h _ q ?p2")
    using assms by (auto simp: get_or_intern_def Let_def split: if_splits)
  then show ?thesis
    using grow_entries_entries [of ?p2] by (auto simp: record_entry_def case_prod_beta)
qed

lemma find_same: "(\<And>x. x \<in> set xs \<Longrightarrow> P x = Q x) \<Longrightarrow> find P xs = find Q xs"
  by (induction xs) auto

lemma find_append: "find P (xs @ ys) = (case find P xs of None \<Rightarrow> find P ys | r \<Rightarrow> r)"
  by (induction xs) auto

lemma intern_twice:
  assumes "pool_ok p" "length bs < 2 ^ 47" "pool_intern (bs, h) p = (Some q, p')"
    "\<lparr>e_hash = h, e_len = of_nat (length bs), e_ptr = q\<rparr> \<in> set (entries p')"
  shows "pool_intern (bs, h) p' = (Some q, p')"
proof -
  let ?len = "of_nat (length bs) :: u64" and ?e = "\<lparr>e_hash = h, e_len = of_nat (length bs), e_ptr = q\<rparr>"
  have len: "unat ?len = length bs"
    using assms(2) by (simp add: unat_of_nat)
  have g: "get_or_intern (Some bs) ?len h p = (Some q, p')"
    using assms(3) by (simp add: pool_intern_def)
  note c = get_or_intern_cases [OF assms(1,2) g]
  have hit: "pool_intern (bs, h) p1 = (Some (e_ptr e), p1)" if "find (entry_matches bs h p1) (entries p1) = Some e" for p1 e
    using that by (simp add: pool_intern_def get_or_intern_def)
  show ?thesis
  proof (cases "find (entry_matches bs h p) (entries p)")
    case (Some e)
    then show ?thesis
      using hit [OF Some] assms(3) by simp
  next
    case None
    have "entry_matches bs h p e = entry_matches bs h p' e" if "e \<in> set (entries p)" for e
    proof (cases "e_len e = ?len")
      case True
      have "entry_ok p e"
        using assms(1) that by (simp add: pool_ok_def)
      then have "load_bytes (e_ptr e) (length bs) (p_mem p') = load_bytes (e_ptr e) (length bs) (p_mem p)"
        using c True len by (intro load_bytes_cong) (auto simp: entry_ok_def span_def subset_eq)
      then show ?thesis
        by (simp add: len)
    qed simp
    then have n: "find (entry_matches bs h p') (entries p) = None"
      using None find_same [of "entries p" "entry_matches bs h p" "entry_matches bs h p'"] by simp
    have "pool_holds p' q (bs, h)"
      using c by simp
    then have m: "entry_matches bs h p' ?e"
      by (simp add: pool_holds_def load_bytes_snoc len)
    have "entries p' = entries p @ [?e]"
    proof (rule ccontr)
      assume "entries p' \<noteq> entries p @ [?e]"
      then have "?e \<in> set (entries p)"
        using get_or_intern_entries [OF None g] assms(4) by auto
      moreover have "\<forall>e \<in> set (entries p). \<not> entry_matches bs h p' e"
        using n by (simp only: find_None_iff) blast
      ultimately show False
        using m by blast
    qed
    then have "find (entry_matches bs h p') (entries p') = Some ?e"
      using m by (simp add: find_append n)
    then show ?thesis
      using hit [of p' ?e] by simp
  qed
qed

text \<open>
  Interning deduplicates: once a string has an entry in the table, interning it again,
  with the same hash, returns the same pointer and leaves the pool as it is.
\<close>
theorem interning_deduplicates:
  assumes "mmap_ok f" "\<forall>(bs, hash) \<in> set before. length bs < 2 ^ 47" "length str < 2 ^ 47"
    "pool_intern (str, h) (intern_run pool_intern before (new_pool f)) = (Some q, p)"
    "\<lparr>e_hash = h, e_len = of_nat (length str), e_ptr = q\<rparr> \<in> set (entries p)"
  shows "pool_intern (str, h) p = (Some q, p)"
proof -
  have "pool_ok (intern_run pool_intern before (new_pool f))"
    using assms(2) by (intro pool.run_inv new_pool_ok [OF assms(1)]) (auto simp: pool_req_def)
  then show ?thesis
    using assms by (intro intern_twice)
qed

lemmas pool_eval = pool_intern_def get_or_intern_def new_pool_def bump_def new_chunk_def chunk_size_def
  raw_mmap_def mmap_failed_def upward_mmap_def align_up_def page_round_def kChunkHeaderBytes_def
  kDefaultChunkBytes_def record_entry_def grow_entries_def Let_def

theorem interned_strings_stable_witness:
  "fst (pool_intern ([72, 105], 5) (new_pool upward_mmap)) = Some 4160
   \<and> load_bytes 4160 3 (p_mem (intern_run pool_intern [([65], 6)]
       (snd (pool_intern ([72, 105], 5) (new_pool upward_mmap))))) = [72, 105, 0]"
proof -
  have p: "fst (pool_intern ([72, 105], 5) (new_pool upward_mmap)) = Some 4160"
    by (simp add: pool_eval)
  then show ?thesis
    using interned_strings_stable [OF upward_mmap_ok, of "[]" "[72, 105]" 5 "[([65], 6)]" 4160
        "snd (pool_intern ([72, 105], 5) (new_pool upward_mmap))"]
    by (simp add: prod_eq_iff numeral_3_eq_3)
qed

theorem interning_deduplicates_witness:
  "fst (pool_intern ([72, 105], 5) (snd (pool_intern ([72, 105], 5) (new_pool upward_mmap)))) = Some 4160"
proof -
  have p: "fst (pool_intern ([72, 105], 5) (new_pool upward_mmap)) = Some 4160"
      "\<lparr>e_hash = 5, e_len = of_nat (length [72 :: u8, 105]), e_ptr = 4160\<rparr>
         \<in> set (entries (snd (pool_intern ([72, 105], 5) (new_pool upward_mmap))))"
    by (simp_all add: pool_eval)
  then show ?thesis
    using interning_deduplicates [OF upward_mmap_ok, of "[]" "[72, 105]" 5 4160
        "snd (pool_intern ([72, 105], 5) (new_pool upward_mmap))"]
    by (simp add: prod_eq_iff)
qed
section \<open>The thread-local buffer\<close>

definition new_tlab :: "((u64 \<times> u64) list \<Rightarrow> u64 \<Rightarrow> u64) \<Rightarrow> TLAB" where
  "new_tlab f = \<lparr>tl_top = 0, tl_end = 0, slab_start = 0, tl_os = \<lparr>os_mmap = f, os_live = []\<rparr>, tl_mem = (\<lambda>_. 0)\<rparr>"

definition tlab_ok :: "TLAB \<Rightarrow> bool" where
  "tlab_ok t \<longleftrightarrow> mmap_ok (os_mmap (tl_os t))
     \<and> (slab_start t \<noteq> 0 \<longrightarrow> unat (slab_start t) + 69632 \<le> 2 ^ 47 \<and> unat (tl_end t) = unat (slab_start t) + 65536
          \<and> unat (slab_start t) \<le> unat (tl_top t) \<and> unat (tl_top t) \<le> unat (tl_end t))"

lemma tlab_size_unat: "unat i < 65513 \<Longrightarrow> unat (tlab_size i) = align_up 8 (16 + unat i)"
proof -
  assume i: "unat i < 65513"
  then have "unat (16 + i) = 16 + unat i"
    by (simp add: unat_plus_if')
  then show ?thesis
    using unat_align8 [of "16 + i"] i by (simp add: tlab_size_def)
qed

lemma tlab_refill_ok:
  assumes "tlab_ok t" "\<not> mmap_failed (os_mmap (tl_os t) (os_live (tl_os t)) 69632)"
  shows "tlab_ok (tlab_refill t) \<and> slab_start (tlab_refill t) \<noteq> 0
    \<and> tl_top (tlab_refill t) = slab_start (tlab_refill t) \<and> tl_mem (tlab_refill t) = tl_mem t"
proof -
  obtain p s where m: "raw_mmap 69632 (tl_os t) = (Some p, s)"
    using assms(2) by (auto simp: raw_mmap_def Let_def)
  have "mmap_ok (os_mmap (tl_os t))"
    using assms(1) by (simp add: tlab_ok_def)
  note o = raw_mmap_ok [OF this m] and this
  moreover have r: "tlab_refill t = t\<lparr>slab_start := p, tl_top := p, tl_end := p + 65536, tl_os := s\<rparr>"
    by (simp add: tlab_refill_def TLAB_SLAB_SIZE_def m)
  moreover have "unat (p + 65536) = unat p + 65536"
    using o(3) by (simp add: unat_plus_if')
  ultimately show ?thesis
    by (auto simp: tlab_ok_def)
qed

text \<open>
  A thread-local object fits its slab: for an instance of less than 65513 bytes, as long
  as the kernel grants a slab when one is asked for, the header and the fields lie inside the
  current slab and end before its guard page, and the header reads back as written.
\<close>
theorem tlab_object_in_slab:
  assumes "tlab_ok t" "unat i < 65513" "\<not> mmap_failed (os_mmap (tl_os t) (os_live (tl_os t)) 69632)"
    "tlab_allocate i v c t = (p, t')"
  shows "tlab_ok t' \<and> slab_start t' \<noteq> 0 \<and> unat (slab_start t') \<le> unat p
    \<and> unat p + 16 + unat i \<le> unat (tl_end t') \<and> load_bytes p 16 (tl_mem t') = le64 v @ le32 c @ le32 i"
proof -
  define t1 where "t1 = get_thread_tlab t"
  define t2 where "t2 = (if tl_top t1 + ucast (tlab_size i) \<ge> tl_end t1 then tlab_refill t1 else t1)"
  let ?n = "unat (tlab_size i)"
  have n: "?n = align_up 8 (16 + unat i)" "16 + unat i \<le> ?n" "?n < 65536"
    using tlab_size_unat [OF assms(2)] align_up_ge [of 8 "16 + unat i"] align_up_less [of 8 "16 + unat i"]
      align_up_dvd [of 8 "16 + unat i"] assms(2) by (auto elim!: dvdE)
  have u: "unat (ucast (tlab_size i) :: u64) = ?n"
    using n(3) by (simp add: unsigned_ucast_eq take_bit_nat_eq_self)
  note r = tlab_refill_ok [OF assms(1,3)]
  have t2: "tlab_ok t2 \<and> slab_start t2 \<noteq> 0 \<and> unat (tl_top t2) + ?n \<le> unat (tl_end t2)"
  proof (cases "slab_start t = 0 \<or> \<not> tl_top t + ucast (tlab_size i) \<ge> tl_end t")
    case True
    then have t1: "tlab_ok t1 \<and> slab_start t1 \<noteq> 0"
        and room: "slab_start t = 0 \<Longrightarrow> tl_top t1 = slab_start t1" "slab_start t \<noteq> 0 \<Longrightarrow> t1 = t"
      using assms(1) r by (auto simp: t1_def get_thread_tlab_def)
    have s: "unat (tl_top t1 + ucast (tlab_size i)) = unat (tl_top t1) + ?n"
      using t1 u n(3) by (auto simp: unat_plus_if' tlab_ok_def)
    have "unat (tl_top t1) + ?n < unat (tl_end t1)"
      using True t1 room n(3) s by (cases "slab_start t = 0") (auto simp: tlab_ok_def word_le_nat_alt not_le)
    then show ?thesis
      using t1 s by (auto simp: t2_def word_le_nat_alt)
  next
    case False
    then have "t2 = tlab_refill t"
      by (simp add: t2_def t1_def get_thread_tlab_def)
    then show ?thesis
      using r n(3) by (auto simp: tlab_ok_def)
  qed
  have e: "p = tl_top t2" "t' = t2\<lparr>tl_top := tl_top t2 + ucast (tlab_size i),
      tl_mem := store_bytes p (le64 v @ le32 c @ le32 i) (tl_mem t2)\<rparr>"
    using assms(4) by (auto simp: tlab_allocate_def t2_def t1_def Let_def)
  have "unat (tl_top t2 + ucast (tlab_size i)) = unat (tl_top t2) + ?n"
    using t2 u by (auto simp: unat_plus_if' tlab_ok_def)
  then show ?thesis
    using t2 n(2) unfolding e by (auto simp: tlab_ok_def load_store_same)
qed

lemma new_tlab_ok: "mmap_ok f \<Longrightarrow> tlab_ok (new_tlab f)"
  by (simp add: new_tlab_def tlab_ok_def)

theorem tlab_object_in_slab_witness:
  "fst (tlab_allocate 40 7 1 (new_tlab upward_mmap)) = 4096
   \<and> load_bytes 4096 16 (tl_mem (snd (tlab_allocate 40 7 1 (new_tlab upward_mmap)))) = le64 7 @ le32 1 @ le32 40"
proof -
  have "\<not> mmap_failed (os_mmap (tl_os (new_tlab upward_mmap)) (os_live (tl_os (new_tlab upward_mmap))) 69632)"
      "fst (tlab_allocate 40 7 1 (new_tlab upward_mmap)) = 4096"
    by (simp_all add: new_tlab_def upward_mmap_def mmap_failed_def align_up_def tlab_allocate_def
        get_thread_tlab_def tlab_refill_def raw_mmap_def TLAB_SLAB_SIZE_def tlab_size_def Let_def)
  then show ?thesis
    using tlab_object_in_slab [OF new_tlab_ok [OF upward_mmap_ok], of 40 7 1 4096
        "snd (tlab_allocate 40 7 1 (new_tlab upward_mmap))"]
    by (simp add: prod_eq_iff)
qed

text \<open>
  When the kernel refuses the second slab, the buffer is used past its end: the second object
  of 40000 bytes starts inside the slab and ends 14496 bytes behind it.
\<close>

definition one_slab_mmap :: "(u64 \<times> u64) list \<Rightarrow> u64 \<Rightarrow> u64" where
  "one_slab_mmap ms sz = (if ms = [] then 4096 else - 1)"

lemma tlab_overrun:
  "fst (tlab_allocate 40000 0 0 (snd (tlab_allocate 40000 0 0 (new_tlab one_slab_mmap)))) = 44112
   \<and> tl_end (snd (tlab_allocate 40000 0 0 (snd (tlab_allocate 40000 0 0 (new_tlab one_slab_mmap))))) = 69632"
  by (simp add: new_tlab_def one_slab_mmap_def mmap_failed_def tlab_allocate_def get_thread_tlab_def
      tlab_refill_def raw_mmap_def TLAB_SLAB_SIZE_def tlab_size_def Let_def)

end
