(* ===== verification/Tables.thy ===== *)
theory Tables
  imports Prelude
begin

text \<open>
  Tables of fixed capacity. Several parts of the program record entries in a global array with
  a counter and ignore what does not fit. The locale states the contract of such an operation;
  its lemma describes any sequence of calls.
\<close>

text \<open>
  \<open>add\<close> appends \<open>entry x\<close> when \<open>valid x\<close> holds and there is room, and
  changes nothing of the table otherwise.
\<close>

locale bounded_table =
  fixes add :: "'x \<Rightarrow> 's \<Rightarrow> 's"
    and inv :: "'s \<Rightarrow> bool"
    and contents :: "'s \<Rightarrow> 'e list"
    and cap :: nat
    and valid :: "'x \<Rightarrow> bool"
    and entry :: "'x \<Rightarrow> 'e"
  assumes inv_add: "inv s \<Longrightarrow> inv (add x s)"
    and contents_bound: "inv s \<Longrightarrow> length (contents s) \<le> cap"
    and contents_add: "inv s \<Longrightarrow> contents (add x s) =
          (if valid x \<and> length (contents s) < cap then contents s @ [entry x] else contents s)"
begin

lemma inv_run: "inv s \<Longrightarrow> inv (fold add xs s)"
  by (induction xs arbitrary: s) (simp_all add: inv_add)

lemma contents_run:
  assumes "inv s"
  shows "contents (fold add xs s) = take cap (contents s @ map entry (filter valid xs))"
  using assms
proof (induction xs arbitrary: s)
  case Nil
  then show ?case
    using contents_bound by simp
next
  case (Cons x xs)
  show ?case
  proof (cases "valid x \<and> length (contents s) < cap")
    case True
    then show ?thesis
      using Cons.IH [OF inv_add] Cons.prems by (simp add: contents_add take_Cons')
  next
    case False
    then have "valid x \<Longrightarrow> cap \<le> length (contents s)"
      by simp
    then show ?thesis
      using Cons.IH [OF inv_add] Cons.prems False by (cases "valid x") (simp_all add: contents_add)
  qed
qed

lemma contents_prefix:
  assumes "inv s"
  shows "take (length (contents s)) (contents (fold add xs s)) = contents s"
  using contents_run [OF assms, of xs] contents_bound [OF assms] by (simp add: min_def)

end

end
