(* ===== verification/Dispatch.thy ===== *)
theory Dispatch
  imports Alloc X86 Tables
begin

text \<open>
  Call dispatch at run time: the registry of generated code and the miss handler of the
  monomorphic inline cache (\<open>src/src/backend/inline_cache.cpp\<close>), the polymorphic
  inline cache (\<open>src/src/backend/pic_dispatcher.cpp\<close>) and the trampolines to host
  functions (\<open>src/src/backend/host_interop.cpp\<close>). Pointers are 64-bit words into a byte
  memory; global variables are fields of a state record; the outcome of
  \<open>mprotect\<close> is an oracle field, every successful call changes the protection of its page and is kept in a trace. A store to a page
  that is not writable is a fault, the value \<open>None\<close>; reads are taken not to fault.
\<close>

unbundle bit_operations_syntax

section \<open>Words in memory\<close>

definition load64 :: "u64 \<Rightarrow> memory \<Rightarrow> u64" where
  "load64 a m = of_nbytes 8 (load_bytes a 8 m)"

definition store64 :: "u64 \<Rightarrow> u64 \<Rightarrow> memory \<Rightarrow> memory" where
  "store64 a v m = store_bytes a (le64 v) m"

definition vtable_entry :: "u64 \<Rightarrow> i32 \<Rightarrow> memory \<Rightarrow> u64" where
  "vtable_entry vtable slot m = load64 (vtable + scast slot * 8) m"

section \<open>Registry of generated code\<close>

record JitRegion =
  rg_start :: u64
  rg_end :: u64

datatype Prot = PROT_RW | PROT_RX

record DispatchState =
  mic_misses :: u32
  jit_regions :: "JitRegion list"
  jit_region_count :: u32
  d_mem :: memory
  mprotect_ok :: "u64 \<Rightarrow> Prot \<Rightarrow> bool"
  page_prot :: "u64 \<Rightarrow> Prot"
  prot_trace :: "(u64 \<times> Prot) list"

definition kMaxJitRegions :: u32 where "kMaxJitRegions = 512"

definition new_dispatch :: "memory \<Rightarrow> (u64 \<Rightarrow> Prot \<Rightarrow> bool) \<Rightarrow> (u64 \<Rightarrow> Prot) \<Rightarrow> DispatchState" where
  "new_dispatch m f pp = \<lparr>mic_misses = 0, jit_regions = replicate 512 \<lparr>rg_start = 0, rg_end = 0\<rparr>,
     jit_region_count = 0, d_mem = m, mprotect_ok = f, page_prot = pp, prot_trace = []\<rparr>"

definition register_jit_code_region :: "u64 \<Rightarrow> u64 \<Rightarrow> DispatchState \<Rightarrow> DispatchState" where
  "register_jit_code_region base sz s =
     (if base = 0 \<or> sz = 0 then s
      else
        (let idx = jit_region_count s in
         if idx \<ge> kMaxJitRegions then s\<lparr>jit_region_count := kMaxJitRegions\<rparr>
         else s\<lparr>jit_region_count := idx + 1,
                jit_regions := (jit_regions s)[unat idx := \<lparr>rg_start = base, rg_end = base + sz\<rparr>]\<rparr>))"

definition is_jit_code_address :: "u64 \<Rightarrow> DispatchState \<Rightarrow> bool" where
  "is_jit_code_address a s =
     (let n = (if jit_region_count s > kMaxJitRegions then kMaxJitRegions else jit_region_count s) in
      list_ex (\<lambda>r. rg_start r \<le> a \<and> a < rg_end r) (take (unat n) (jit_regions s)))"

definition get_mic_miss_count :: "DispatchState \<Rightarrow> u32" where
  "get_mic_miss_count s = mic_misses s"

definition reset_mic_miss_count :: "DispatchState \<Rightarrow> DispatchState" where
  "reset_mic_miss_count s = s\<lparr>mic_misses := 0\<rparr>"

section \<open>Monomorphic inline cache\<close>

definition raw_mprotect :: "u64 \<Rightarrow> Prot \<Rightarrow> DispatchState \<Rightarrow> bool \<times> DispatchState" where
  "raw_mprotect page pr s =
     (if mprotect_ok s page pr
      then (True, s\<lparr>page_prot := (page_prot s)(page := pr), prot_trace := prot_trace s @ [(page, pr)]\<rparr>)
      else (False, s))"

text \<open>
  The store of eight bytes at the site. It faults, which ends the process and is the value \<open>None\<close>, unless the
  page of its first byte and the page of its last byte are writable.
\<close>

definition publish :: "u64 \<Rightarrow> u64 \<Rightarrow> DispatchState \<Rightarrow> DispatchState option" where
  "publish patch_addr vtable s =
     (if page_prot s (patch_addr AND NOT 4095) = PROT_RW \<and> page_prot s (patch_addr + 7 AND NOT 4095) = PROT_RW
      then Some (s\<lparr>d_mem := store64 patch_addr vtable (d_mem s)\<rparr>)
      else None)"

definition handle_mic_miss :: "u64 \<Rightarrow> i32 \<Rightarrow> u64 \<Rightarrow> DispatchState \<Rightarrow> (u64 \<times> DispatchState) option" where
  "handle_mic_miss obj_ptr vtable_slot patch_addr s0 =
     (let s = s0\<lparr>mic_misses := mic_misses s0 + 1\<rparr> in
      if obj_ptr = 0 \<or> patch_addr = 0 then Some (0, s)
      else
        (let vtable_ptr = load64 obj_ptr (d_mem s) in
         if vtable_ptr = 0 then Some (0, s)
         else if sint vtable_slot < 0 \<or> sint vtable_slot \<ge> 16 then Some (0, s)
         else
           (let target_fn = vtable_entry vtable_ptr vtable_slot (d_mem s);
                page_addr = patch_addr AND NOT 4095 in
            if \<not> is_jit_code_address patch_addr s
            then map_option (Pair target_fn) (publish patch_addr vtable_ptr s)
            else
              (let (ok, s1) = raw_mprotect page_addr PROT_RW s in
               if ok
               then (case publish patch_addr vtable_ptr s1 of
                       None \<Rightarrow> None
                     | Some s2 \<Rightarrow> Some (target_fn, snd (raw_mprotect page_addr PROT_RX s2)))
               else Some (target_fn, s1)))))"

section \<open>Polymorphic inline cache\<close>

datatype PICState = MONOMORPHIC | POLYMORPHIC | MEGAMORPHIC

record PolymorphicICSite =
  pic_patch_addr :: u64
  pic_slot :: i32
  pic_state :: PICState
  type_count :: u32
  receiver_types :: "u64 list"
  method_targets :: "u64 list"

text \<open>A null site is \<open>None\<close>; the arrays have eight elements.\<close>

definition pic_record :: "u64 \<Rightarrow> u64 \<Rightarrow> PolymorphicICSite \<Rightarrow> PolymorphicICSite" where
  "pic_record receiver target site =
     (if type_count site < 8
      then site\<lparr>receiver_types := (receiver_types site)[unat (type_count site) := receiver],
                method_targets := (method_targets site)[unat (type_count site) := target],
                type_count := type_count site + 1\<rparr>
      else site)"

definition pic_transition :: "PolymorphicICSite \<Rightarrow> PolymorphicICSite" where
  "pic_transition site =
     site\<lparr>pic_state := (if type_count site = 1 then MONOMORPHIC
                       else if type_count site \<le> 3 then POLYMORPHIC else MEGAMORPHIC)\<rparr>"

definition resolve_and_patch :: "memory \<Rightarrow> PolymorphicICSite option \<Rightarrow> u64 \<Rightarrow> u64 \<times> PolymorphicICSite option" where
  "resolve_and_patch m site receiver_vtable =
     (case site of
        None \<Rightarrow> (0, None)
      | Some st \<Rightarrow>
          if receiver_vtable = 0 then (0, Some st)
          else
            (let target_fn = vtable_entry receiver_vtable (pic_slot st) m in
             (target_fn, Some (pic_transition (pic_record receiver_vtable target_fn st)))))"

definition handle_pic_miss :: "memory \<Rightarrow> PolymorphicICSite option \<Rightarrow> u64 \<Rightarrow> u64 \<times> PolymorphicICSite option" where
  "handle_pic_miss = resolve_and_patch"

section \<open>Host functions\<close>

record HostFuncEntry =
  hf_name :: string
  host_fn_ptr :: u64
  JIT_trampoline_ptr :: u64
  requires_unboxing :: bool

record HostInterop =
  hi_funcs :: "HostFuncEntry list"
  hi_os :: OS
  hi_mem :: memory

definition new_host_interop :: "((u64 \<times> u64) list \<Rightarrow> u64 \<Rightarrow> u64) \<Rightarrow> HostInterop" where
  "new_host_interop f = \<lparr>hi_funcs = [], hi_os = \<lparr>os_mmap = f, os_live = []\<rparr>, hi_mem = (\<lambda>_. 0)\<rparr>"

definition trampoline :: "u64 \<Rightarrow> bool \<Rightarrow> bytes" where
  "trampoline fn_ptr unboxing =
     (if unboxing then [0x48, 0xC1, 0xFF, 0x03, 0x66, 0x48, 0x0F, 0x6E, 0xC7] else [])
       @ [0x48, 0xB8] @ le64 fn_ptr @ [0xFF, 0xE0]"

text \<open>Null names are \<open>None\<close>.\<close>

definition register_host_function :: "string option \<Rightarrow> u64 \<Rightarrow> bool \<Rightarrow> HostInterop \<Rightarrow> u64 \<times> HostInterop" where
  "register_host_function name fn_ptr unboxing h =
     (case name of
        None \<Rightarrow> (0, h)
      | Some n \<Rightarrow>
          if fn_ptr = 0 \<or> length (hi_funcs h) \<ge> 128 then (0, h)
          else
            (case raw_mmap 4096 (hi_os h) of
               (None, s) \<Rightarrow> (0, h\<lparr>hi_os := s\<rparr>)
             | (Some stub, s) \<Rightarrow>
                 (stub, h\<lparr>hi_os := s, hi_mem := store_bytes stub (trampoline fn_ptr unboxing) (hi_mem h),
                          hi_funcs := hi_funcs h @ [\<lparr>hf_name = n, host_fn_ptr = fn_ptr,
                                                    JIT_trampoline_ptr = stub, requires_unboxing = unboxing\<rparr>]\<rparr>)))"

text \<open>\<open>memcmp\<close> over the length of the argument, which NUL ends: a prefix test.\<close>

definition name_matches :: "string \<Rightarrow> string \<Rightarrow> bool" where
  "name_matches registered name \<longleftrightarrow> take (length name) registered = name"

definition get_trampoline :: "string option \<Rightarrow> HostInterop \<Rightarrow> u64" where
  "get_trampoline name h =
     (case name of
        None \<Rightarrow> 0
      | Some n \<Rightarrow> (case find (\<lambda>f. name_matches (hf_name f) n) (hi_funcs h) of
                    Some f \<Rightarrow> JIT_trampoline_ptr f | None \<Rightarrow> 0))"

definition ana_register_host_func :: "string option \<Rightarrow> u64 \<Rightarrow> HostInterop \<Rightarrow> u64 \<times> HostInterop" where
  "ana_register_host_func name fn_ptr = register_host_function name fn_ptr False"


section \<open>The registry holds the first 512 regions\<close>

definition registry_ok :: "DispatchState \<Rightarrow> bool" where
  "registry_ok s \<longleftrightarrow> length (jit_regions s) = 512 \<and> unat (jit_region_count s) \<le> 512"

definition registered :: "DispatchState \<Rightarrow> JitRegion list" where
  "registered s = take (unat (jit_region_count s)) (jit_regions s)"

definition region_of :: "u64 \<times> u64 \<Rightarrow> JitRegion" where
  "region_of r = \<lparr>rg_start = fst r, rg_end = fst r + snd r\<rparr>"

lemma count_cmp: "n \<ge> kMaxJitRegions \<longleftrightarrow> 512 \<le> unat n" "n > kMaxJitRegions \<longleftrightarrow> 512 < unat n"
  by (simp_all add: kMaxJitRegions_def word_le_nat_alt word_less_nat_alt)

lemma count_Suc: "unat (n :: u32) < 512 \<Longrightarrow> unat (n + 1) = Suc (unat n)"
  by (simp add: unat_plus_if')

interpretation registry: bounded_table "\<lambda>r. register_jit_code_region (fst r) (snd r)" registry_ok registered
  512 "\<lambda>r. fst r \<noteq> 0 \<and> snd r \<noteq> 0" region_of
proof
  fix s x
  assume ok: "registry_ok s"
  let ?n = "unat (jit_region_count s)"
  show "length (registered s) \<le> 512"
    using ok by (simp add: registry_ok_def registered_def)
  have "registry_ok (register_jit_code_region (fst x) (snd x) s)
      \<and> registered (register_jit_code_region (fst x) (snd x) s) =
      (if (fst x \<noteq> 0 \<and> snd x \<noteq> 0) \<and> length (registered s) < 512 then registered s @ [region_of x]
       else registered s)"
  proof (cases "?n < 512")
    case True
    then show ?thesis
      using ok count_Suc [OF True]
      by (simp add: registry_ok_def register_jit_code_region_def Let_def count_cmp
          registered_def region_of_def take_Suc_conv_app_nth)
  next
    case False
    then have "jit_region_count s = kMaxJitRegions"
      using ok by (simp add: registry_ok_def kMaxJitRegions_def word_unat_eq_iff)
    then show ?thesis
      using ok by (simp add: registry_ok_def register_jit_code_region_def Let_def registered_def kMaxJitRegions_def)
  qed
  then show "registry_ok (register_jit_code_region (fst x) (snd x) s)"
    and "registered (register_jit_code_region (fst x) (snd x) s) =
      (if (fst x \<noteq> 0 \<and> snd x \<noteq> 0) \<and> length (registered s) < 512 then registered s @ [region_of x]
       else registered s)"
    by simp_all
qed

lemma is_jit_code_address_registered:
  "registry_ok s \<Longrightarrow> is_jit_code_address a s \<longleftrightarrow> (\<exists>r \<in> set (registered s). rg_start r \<le> a \<and> a < rg_end r)"
  by (auto simp: is_jit_code_address_def count_cmp registry_ok_def registered_def list_ex_iff Let_def)

lemma registry_ok_new: "registry_ok (new_dispatch m f pp)" "registered (new_dispatch m f pp) = []"
  by (simp_all add: registry_ok_def new_dispatch_def registered_def)

text \<open>
  After any sequence of registrations exactly the addresses of the first 512 valid
  regions are recognised as generated code: later regions are dropped, none is overwritten, and
  the counter never wraps.
\<close>

theorem registered_code_recognised:
  "is_jit_code_address a (fold (\<lambda>r. register_jit_code_region (fst r) (snd r)) rs (new_dispatch m f pp)) \<longleftrightarrow>
     (\<exists>(b, n) \<in> set (take 512 (filter (\<lambda>r. fst r \<noteq> 0 \<and> snd r \<noteq> 0) rs)). b \<le> a \<and> a < b + n)"
  using registry.contents_run [OF registry_ok_new(1), of rs m f pp]
  by (simp add: is_jit_code_address_registered registry.inv_run registry_ok_new take_map region_of_def
      case_prod_unfold)

section \<open>A miss of the monomorphic cache\<close>

lemma load_store64_same [simp]: "load64 a (store64 a v m) = v"
proof -
  have "load_bytes a 8 (store_bytes a (le64 v) m) = le64 v @ []"
    by (simp only: append_Nil2, rule load_store_same) simp_all
  then show ?thesis
    unfolding load64_def store64_def by (simp only: of_nbytes_le64)
qed

lemma store64_other: "8 \<le> unat (x - a) \<Longrightarrow> store64 a v m x = m x"
  by (simp add: store64_def store_bytes_def)

lemma registry_of_patch:
  "is_jit_code_address a (s\<lparr>mic_misses := k\<rparr>) = is_jit_code_address a s"
  by (simp add: is_jit_code_address_def)

lemma handle_mic_miss_cases:
  "handle_mic_miss obj slot patch s =
     (let s1 = s\<lparr>mic_misses := mic_misses s + 1\<rparr>; v = load64 obj (d_mem s); page = patch AND NOT 4095 in
      if obj \<noteq> 0 \<and> patch \<noteq> 0 \<and> v \<noteq> 0 \<and> 0 \<le> sint slot \<and> sint slot < 16
      then map_option (Pair (vtable_entry v slot (d_mem s)))
            (if \<not> is_jit_code_address patch s then publish patch v s1
             else if mprotect_ok s page PROT_RW
             then map_option (\<lambda>s2. snd (raw_mprotect page PROT_RX s2)) (publish patch v (snd (raw_mprotect page PROT_RW s1)))
             else Some s1)
      else Some (0, s1))"
  unfolding handle_mic_miss_def Let_def raw_mprotect_def
  by (simp add: registry_of_patch map_option_case del: word_and_not not_less not_le split: option.split)

text \<open>The page after the site's own matters for the last seven bytes of a page only.\<close>

lemma page_number_add: "(n + 7) div 4096 = n div 4096" if "n mod 4096 \<le> 4088" for n :: nat
proof -
  have "(n + 7) div 4096 = (4096 * (n div 4096) + (n mod 4096 + 7)) div 4096"
    by (simp only: add.assoc [symmetric] mult_div_mod_eq)
  also have "\<dots> = n div 4096 + (n mod 4096 + 7) div 4096"
    by (rule div_mult_self4) simp
  finally show ?thesis
    using that by simp
qed

lemma same_page:
  fixes a :: u64
  assumes "unat a mod 4096 \<le> 4088"
  shows "(a + 7) AND NOT 4095 = a AND NOT 4095"
proof -
  have m: "mask 12 = (4095 :: u64)"
    by (simp add: mask_eq_exp_minus_1)
  have q: "x AND NOT (mask k) = push_bit k (drop_bit k x)" for x :: u64 and k
    by (auto simp: bit_eq_iff bit_simps)
  note p = q [of _ 12, unfolded m]
  have "unat a < 4096 * 2 ^ 52"
    using unsigned_less [of a, where ?'a = nat] by simp
  then have "unat a div 4096 < 2 ^ 52"
    by (simp add: less_mult_imp_div_less)
  moreover have "n + 7 < 4096 * k" if "n div 4096 < k" "n mod 4096 \<le> 4088" for n k :: nat
    using that mult_le_mono2 [of "Suc (n div 4096)" k 4096] mult_div_mod_eq [of 4096 n] by linarith
  ultimately have "unat a + 7 < 4096 * 2 ^ 52"
    using assms by blast
  then have n: "unat (a + 7) = unat a + 7"
    by (simp add: unat_word_ariths)
  have d: "unat (drop_bit 12 x) = unat x div 4096" for x :: u64
    by (simp add: drop_bit_eq_div unat_div_distrib)
  have "unat (drop_bit 12 (a + 7)) = unat (drop_bit 12 a)"
    unfolding d n by (rule page_number_add [OF assms])
  then show ?thesis
    unfolding p by (simp only: word_unat_eq_iff [symmetric])
qed

text \<open>
  Claim C21. A miss returns the method of the receiver's table, or null for a null receiver,
  site or table and for a slot outside 0 to 15. It faults exactly when it writes the site and a page of the site is not
  writable: for a site outside generated code any of its pages; for a site in generated code only the following page, since the handler makes
  just the page of the first byte writable, so that no site before the last seven bytes of a page faults. When it does not fault, memory
  changes in the eight bytes of the site at most, a site that could be written holds the table of the receiver, and protection
  is touched only for the page of a site in generated code, which is made writable and then, when the
  kernel grants it, executable again.
\<close>

theorem mic_miss_dispatch:
  fixes obj slot patch s
  defines "page \<equiv> patch AND NOT 4095" and "next_page \<equiv> patch + 7 AND NOT 4095"
    and "jit \<equiv> \<exists>r \<in> set (take (unat (jit_region_count s)) (jit_regions s)). rg_start r \<le> patch \<and> patch < rg_end r"
    and "ok \<equiv> obj \<noteq> 0 \<and> patch \<noteq> 0 \<and> load64 obj (d_mem s) \<noteq> 0 \<and> 0 \<le> sint slot \<and> sint slot < 16"
  defines "writes \<equiv> ok \<and> (jit \<longrightarrow> mprotect_ok s page PROT_RW)"
  assumes "length (jit_regions s) = 512" "unat (jit_region_count s) \<le> 512"
  shows "(handle_mic_miss obj slot patch s = None \<longleftrightarrow>
      writes \<and> (if jit then next_page \<noteq> page \<and> page_prot s next_page \<noteq> PROT_RW
                else page_prot s page \<noteq> PROT_RW \<or> page_prot s next_page \<noteq> PROT_RW))
    \<and> (unat patch mod 4096 \<le> 4088 \<longrightarrow> next_page = page)
    \<and> (\<forall>fn s'. handle_mic_miss obj slot patch s = Some (fn, s') \<longrightarrow>
        fn = (if ok then load64 (load64 obj (d_mem s) + 8 * scast slot) (d_mem s) else 0)
        \<and> mic_misses s' = mic_misses s + 1
        \<and> (\<forall>x. 8 \<le> unat (x - patch) \<longrightarrow> d_mem s' x = d_mem s x)
        \<and> (if writes then load64 patch (d_mem s') = load64 obj (d_mem s) else d_mem s' = d_mem s)
        \<and> page_prot s' = (if writes \<and> jit
            then (page_prot s)(page := if mprotect_ok s page PROT_RX then PROT_RX else PROT_RW) else page_prot s)
        \<and> prot_trace s' = prot_trace s @ (if writes \<and> jit
            then (page, PROT_RW) # (if mprotect_ok s page PROT_RX then [(page, PROT_RX)] else []) else []))"
proof -
  have j: "is_jit_code_address patch s \<longleftrightarrow> jit"
    using assms(6,7) by (simp add: is_jit_code_address_registered registry_ok_def registered_def jit_def)
  have p: "publish patch v t = (if page_prot t page = PROT_RW \<and> page_prot t next_page = PROT_RW
      then Some (t\<lparr>d_mem := store64 patch v (d_mem t)\<rparr>) else None)" for v t
    by (simp only: publish_def page_def next_page_def)
  have n: "unat patch mod 4096 \<le> 4088 \<Longrightarrow> next_page = page"
    unfolding page_def next_page_def by (rule same_page)
  note eq = handle_mic_miss_cases [of obj slot patch s, unfolded Let_def, folded page_def ok_def, unfolded j]
  show ?thesis
  proof (cases ok)
    case True
    then show ?thesis
      using n unfolding eq writes_def
      by (cases jit; cases "mprotect_ok s page PROT_RW")
        (auto simp: raw_mprotect_def p store64_other vtable_entry_def mult.commute split: if_splits)
  next
    case False
    then show ?thesis
      using n unfolding eq writes_def by auto
  qed
qed

text \<open>A site inside a page of generated code, and one in its last bytes.\<close>

definition sample_dispatch :: DispatchState where
  "sample_dispatch = register_jit_code_region 0x8000 0x2000
     (new_dispatch (\<lambda>x. if x = 0x1001 then 0x20 else if x = 0x2008 then 0x77 else 0) (\<lambda>_ _. True) (\<lambda>_. PROT_RX))"

lemma sample_dispatch_eq:
  "take (unat (jit_region_count sample_dispatch)) (jit_regions sample_dispatch) = [\<lparr>rg_start = 0x8000, rg_end = 0xA000\<rparr>]"
  "length (jit_regions sample_dispatch) = 512" "unat (jit_region_count sample_dispatch) \<le> 512"
  "load64 0x1000 (d_mem sample_dispatch) = 0x2000" "load64 0x2008 (d_mem sample_dispatch) = 0x77"
  "mprotect_ok sample_dispatch p r" "prot_trace sample_dispatch = []" "page_prot sample_dispatch p = PROT_RX"
  by code_simp+

theorem mic_miss_dispatch_witness:
  "handle_mic_miss 0x1000 1 0x8FFC sample_dispatch = None
   \<and> fst (the (handle_mic_miss 0x1000 1 0x8010 sample_dispatch)) = 0x77
   \<and> load64 0x8010 (d_mem (snd (the (handle_mic_miss 0x1000 1 0x8010 sample_dispatch)))) = 0x2000
   \<and> prot_trace (snd (the (handle_mic_miss 0x1000 1 0x8010 sample_dispatch))) = [(0x8000, PROT_RW), (0x8000, PROT_RX)]"
proof -
  have p: "(0x8010 :: u64) AND NOT 4095 = 0x8000" "(0x8010 :: u64) + 7 AND NOT 4095 = 0x8000"
    "(0x8FFC :: u64) AND NOT 4095 = 0x8000" "(0x8FFC :: u64) + 7 AND NOT 4095 = 0x9000"
    by simp_all
  have "handle_mic_miss 0x1000 1 0x8FFC sample_dispatch = None"
    using mic_miss_dispatch [OF sample_dispatch_eq(2,3), of "0x1000" 1 "0x8FFC"]
    by (simp add: sample_dispatch_eq p del: word_and_not)
  moreover obtain fn s' where "handle_mic_miss 0x1000 1 0x8010 sample_dispatch = Some (fn, s')"
    using mic_miss_dispatch [OF sample_dispatch_eq(2,3), of "0x1000" 1 "0x8010"]
    by (auto simp: sample_dispatch_eq p simp del: word_and_not)
  ultimately show ?thesis
    using mic_miss_dispatch [OF sample_dispatch_eq(2,3), of "0x1000" 1 "0x8010"]
    by (simp add: sample_dispatch_eq p del: word_and_not)
qed

section \<open>The polymorphic cache\<close>

definition site_entries :: "PolymorphicICSite \<Rightarrow> (u64 \<times> u64) list" where
  "site_entries site = take (unat (type_count site)) (zip (receiver_types site) (method_targets site))"

definition pic_step :: "memory \<Rightarrow> i32 \<Rightarrow> u64 \<Rightarrow> PolymorphicICSite \<Rightarrow> PolymorphicICSite" where
  "pic_step m slot r site = the (snd (resolve_and_patch m (Some site) r))"

definition pic_inv :: "i32 \<Rightarrow> PolymorphicICSite \<Rightarrow> bool" where
  "pic_inv slot site \<longleftrightarrow> length (receiver_types site) = 8 \<and> length (method_targets site) = 8
     \<and> unat (type_count site) \<le> 8 \<and> pic_slot site = slot"

lemma type_count_less: "type_count s < 8 \<longleftrightarrow> unat (type_count s) < 8"
  by (simp add: word_less_nat_alt)

lemma type_count_Suc: "unat (n :: u32) < 8 \<Longrightarrow> unat (n + 1) = Suc (unat n)"
  by (simp add: unat_plus_if')

lemma pic_step_eq:
  "pic_step m slot r s = (if r = 0 then s
     else pic_transition (pic_record r (vtable_entry r (pic_slot s) m) s))"
  by (simp add: pic_step_def resolve_and_patch_def Let_def)

lemma zip_update_last:
  assumes "n < length xs" "length xs = length ys"
  shows "take (Suc n) (zip (xs[n := x]) (ys[n := y])) = take n (zip xs ys) @ [(x, y)]"
  using assms by (simp add: take_Suc_conv_app_nth take_zip)

interpretation pic: bounded_table "pic_step m slot" "pic_inv slot" site_entries 8 "\<lambda>r. r \<noteq> 0"
  "\<lambda>r. (r, vtable_entry r slot m)" for m slot
proof
  fix s x
  assume ok: "pic_inv slot s"
  show "length (site_entries s) \<le> 8"
    using ok by (simp add: pic_inv_def site_entries_def)
  show "pic_inv slot (pic_step m slot x s)"
    using ok type_count_Suc [of "type_count s"]
    by (simp add: pic_inv_def pic_step_eq pic_transition_def pic_record_def type_count_less)
  show "site_entries (pic_step m slot x s) = (if x \<noteq> 0 \<and> length (site_entries s) < 8
      then site_entries s @ [(x, vtable_entry x slot m)] else site_entries s)"
    using ok type_count_Suc [of "type_count s"]
    by (simp add: pic_inv_def pic_step_eq pic_transition_def pic_record_def type_count_less
        site_entries_def zip_update_last)
qed


definition state_of_count :: "nat \<Rightarrow> PICState" where
  "state_of_count n = (if n = 1 then MONOMORPHIC else if n \<le> 3 then POLYMORPHIC else MEGAMORPHIC)"

lemma pic_step_state:
  "x \<noteq> 0 \<Longrightarrow> pic_state (pic_step m slot x s) = state_of_count (unat (type_count (pic_step m slot x s)))"
  by (simp add: pic_step_eq pic_transition_def state_of_count_def word_le_nat_alt word_unat_eq_iff)

lemma pic_run_state:
  assumes "filter (\<lambda>r. r \<noteq> 0) rs \<noteq> []"
  shows "pic_state (fold (pic_step m slot) rs s)
    = state_of_count (unat (type_count (fold (pic_step m slot) rs s)))"
  using assms
proof (induction rs rule: rev_induct)
  case (snoc r rs)
  show ?case
  proof (cases "r = 0")
    case True
    then show ?thesis
      using snoc by (simp add: pic_step_eq)
  next
    case False
    then show ?thesis
      by (simp add: pic_step_state)
  qed
qed simp

lemma length_site_entries: "pic_inv slot s \<Longrightarrow> length (site_entries s) = unat (type_count s)"
  by (simp add: pic_inv_def site_entries_def)

definition new_site :: "u64 \<Rightarrow> i32 \<Rightarrow> PolymorphicICSite" where
  "new_site patch slot = \<lparr>pic_patch_addr = patch, pic_slot = slot, pic_state = MONOMORPHIC, type_count = 0,
     receiver_types = replicate 8 0, method_targets = replicate 8 0\<rparr>"

lemma pic_inv_new: "pic_inv slot (new_site patch slot)" "site_entries (new_site patch slot) = []"
  by (simp_all add: pic_inv_def new_site_def site_entries_def)

text \<open>
  Claim C22. After misses with the receivers \<open>rs\<close> a site holds the first eight non-null
  receivers with the method each one's table has in the slot of the site, in order, and its
  state is the one for their number: one is monomorphic, two and three polymorphic, more
  megamorphic. The next miss returns the method of its own receiver whatever is recorded.
\<close>

theorem pic_records_receivers:
  fixes m slot patch rs
  defines "site \<equiv> fold (\<lambda>r s. the (snd (handle_pic_miss m (Some s) r))) rs (new_site patch slot)"
    and "seen \<equiv> take 8 (filter (\<lambda>r. r \<noteq> 0) rs)"
  shows "site_entries site = map (\<lambda>r. (r, vtable_entry r slot m)) seen
    \<and> (seen \<noteq> [] \<longrightarrow> pic_state site = (if length seen = 1 then MONOMORPHIC
                        else if length seen \<le> 3 then POLYMORPHIC else MEGAMORPHIC))
    \<and> fst (handle_pic_miss m (Some site) r) = (if r = 0 then 0 else vtable_entry r slot m)"
proof -
  have site: "site = fold (pic_step m slot) rs (new_site patch slot)"
    unfolding site_def handle_pic_miss_def by (simp add: pic_step_def [abs_def])
  have inv: "pic_inv slot site"
    unfolding site by (rule pic.inv_run [OF pic_inv_new(1)])
  have ents: "site_entries site = map (\<lambda>r. (r, vtable_entry r slot m)) seen"
    unfolding site seen_def using pic.contents_run [OF pic_inv_new(1), of m slot rs patch]
    by (simp add: pic_inv_new take_map)
  then have "unat (type_count site) = length seen"
    using length_site_entries [OF inv] by simp
  moreover have "seen \<noteq> [] \<Longrightarrow> pic_state site = state_of_count (unat (type_count site))"
    unfolding site by (rule pic_run_state) (auto simp: seen_def)
  moreover have "pic_slot site = slot"
    using inv by (simp add: pic_inv_def)
  ultimately show ?thesis
    using ents by (simp add: state_of_count_def handle_pic_miss_def resolve_and_patch_def Let_def)
qed

text \<open>The receiver is not looked up before it is recorded: four misses with one receiver are megamorphic.\<close>

theorem pic_records_receivers_witness:
  "site_entries (fold (\<lambda>r s. the (snd (handle_pic_miss (\<lambda>_. 0) (Some s) r))) [0x40, 0x40, 0x40, 0x40] (new_site 0x10 2))
     = [(0x40, 0), (0x40, 0), (0x40, 0), (0x40, 0)]
   \<and> pic_state (fold (\<lambda>r s. the (snd (handle_pic_miss (\<lambda>_. 0) (Some s) r))) [0x40, 0x40, 0x40, 0x40] (new_site 0x10 2))
     = MEGAMORPHIC"
proof -
  have "vtable_entry 0x40 2 (\<lambda>_. 0) = 0"
    by code_simp
  then show ?thesis
    using pic_records_receivers [of "\<lambda>_. 0" "[0x40, 0x40, 0x40, 0x40]" "0x10" 2 0] by simp
qed

section \<open>Trampolines\<close>

lemma trampoline_length: "length (trampoline fn u) \<le> 21"
  by (simp add: trampoline_def)


text \<open>The stub loads the address of the host function and jumps to it, after unboxing if asked.\<close>

lemma trampoline_decodes:
  "decode (drop (if u then 9 else 0) (trampoline fn u) @ rest) = Some (MOV_ri64 0 fn, [0xFF, 0xE0] @ rest)"
  "decode ([0xFF, 0xE0] @ rest) = Some (JMP_rm (RReg 0), rest)"
proof -
  have d: "dec_imm64 (le64 fn @ r) = Some (fn, r)" for r
    by (simp add: dec_imm64_def)
  show "decode (drop (if u then 9 else 0) (trampoline fn u) @ rest) = Some (MOV_ri64 0 fn, [0xFF, 0xE0] @ rest)"
    by (simp add: trampoline_def decode_def take_pfx_def take_rex_def dec_one_def d X86.ext_def)
  show "decode ([0xFF, 0xE0] @ rest) = Some (JMP_rm (RReg 0), rest)"
    by (simp add: decode_def take_pfx_def take_rex_def dec_one_def with_rm_def dec_modrm_def X86.ext_def
        low3_def Let_def)
qed

definition stub_ok :: "HostInterop \<Rightarrow> HostFuncEntry \<Rightarrow> bool" where
  "stub_ok h f \<longleftrightarrow> (JIT_trampoline_ptr f, 4096) \<in> set (os_live (hi_os h))
     \<and> unat (JIT_trampoline_ptr f) + 4096 \<le> 2 ^ 47
     \<and> load_bytes (JIT_trampoline_ptr f) (length (trampoline (host_fn_ptr f) (requires_unboxing f))) (hi_mem h)
         = trampoline (host_fn_ptr f) (requires_unboxing f)"

definition host_ok :: "HostInterop \<Rightarrow> bool" where
  "host_ok h \<longleftrightarrow> mmap_ok (os_mmap (hi_os h)) \<and> length (hi_funcs h) \<le> 128 \<and> (\<forall>f \<in> set (hi_funcs h). stub_ok h f)"

lemma host_ok_new: "mmap_ok f \<Longrightarrow> host_ok (new_host_interop f)"
  by (simp add: host_ok_def new_host_interop_def)

lemma store_stub:
  assumes ok: "mmap_ok (os_mmap (hi_os h))" and m: "raw_mmap 4096 (hi_os h) = (Some stub, s)"
    and h': "hi_os h' = s" "hi_mem h' = store_bytes stub (trampoline fn u) (hi_mem h)"
  shows "stub_ok h' \<lparr>hf_name = n, host_fn_ptr = fn, JIT_trampoline_ptr = stub, requires_unboxing = u\<rparr>"
    and "stub_ok h f \<Longrightarrow> stub_ok h' f"
proof -
  note M = raw_mmap_ok [OF ok m]
  show "stub_ok h' \<lparr>hf_name = n, host_fn_ptr = fn, JIT_trampoline_ptr = stub, requires_unboxing = u\<rparr>"
    using M(3,5) trampoline_length [of fn u] by (simp add: stub_ok_def h' load_store_same)
  assume f: "stub_ok h f"
  let ?q = "JIT_trampoline_ptr f" and ?t = "trampoline (host_fn_ptr f) (requires_unboxing f)"
  have q: "unat ?q + 4096 \<le> 2 ^ 47" "span stub 4096 \<inter> span ?q 4096 = {}"
    using f bspec [OF M(6), of "(?q, 4096)"] by (simp_all add: stub_ok_def)
  have "load_bytes ?q (length ?t) (hi_mem h') = load_bytes ?q (length ?t) (hi_mem h)"
  proof (rule load_bytes_cong)
    show "unat ?q + length ?t \<le> 2 ^ 64"
      using q(1) trampoline_length [of "host_fn_ptr f" "requires_unboxing f"] by simp
    fix x :: u64
    assume "unat x \<in> span ?q (length ?t)"
    then have "unat x \<in> span ?q 4096"
      using trampoline_length [of "host_fn_ptr f" "requires_unboxing f"] by (auto simp: span_def)
    then have "unat x \<notin> span stub (length (trampoline fn u))"
      using q(2) trampoline_length [of fn u] by (auto simp: span_def)
    then show "hi_mem h' x = hi_mem h x"
      unfolding h' using M(3) trampoline_length [of fn u] by (intro store_bytes_other) simp_all
  qed
  then show "stub_ok h' f"
    using f M(5) by (simp add: stub_ok_def h'(1))
qed

lemma register_host_function_ok:
  assumes ok: "host_ok h" and r: "register_host_function name fn u h = (p, h')"
  shows "host_ok h' \<and> (if p = 0 then hi_funcs h' = hi_funcs h
           else name \<noteq> None \<and> length (hi_funcs h) < 128 \<and> hi_funcs h' = hi_funcs h @
             [\<lparr>hf_name = the name, host_fn_ptr = fn, JIT_trampoline_ptr = p, requires_unboxing = u\<rparr>])"
proof (cases "name = None \<or> fn = 0 \<or> length (hi_funcs h) \<ge> 128")
  case True
  then show ?thesis
    using ok r by (auto simp: register_host_function_def split: option.splits)
next
  case False
  then obtain n where n: "name = Some n" "fn \<noteq> 0" "length (hi_funcs h) < 128"
    by auto
  obtain q s where m: "raw_mmap 4096 (hi_os h) = (q, s)"
    by fastforce
  show ?thesis
  proof (cases q)
    case None
    then show ?thesis
      using ok r m n raw_mmap_None [of 4096 "hi_os h" s] by (simp add: register_host_function_def)
  next
    case (Some stub)
    have M: "raw_mmap 4096 (hi_os h) = (Some stub, s)"
      using m Some by simp
    have r': "p = stub" "hi_funcs h' = hi_funcs h @
        [\<lparr>hf_name = n, host_fn_ptr = fn, JIT_trampoline_ptr = stub, requires_unboxing = u\<rparr>]"
      and h': "hi_os h' = s" "hi_mem h' = store_bytes stub (trampoline fn u) (hi_mem h)"
      using r n M by (auto simp: register_host_function_def)
    have mo: "mmap_ok (os_mmap (hi_os h))"
      using ok by (simp add: host_ok_def)
    note S = store_stub [OF mo M h'] and A = raw_mmap_ok [OF mo M]
    have "stub \<noteq> 0"
      using A(2) by (metis unat_0 less_irrefl)
    then show ?thesis
      using ok n r' A(4) S h'(1) by (auto simp: host_ok_def)
  qed
qed

text \<open>
  In a state that satisfies the invariant, which registrations keep, a registration that returns a non-null
  trampoline has written code there that loads the address of the host function and jumps to
  it (after unboxing the argument if asked to); every earlier trampoline still holds its code;
  and the trampoline is found again by its name unless the name is a prefix of one registered
  before.
\<close>

theorem host_trampolines:
  assumes "host_ok h" "register_host_function (Some n) fn u h = (p, h')" "p \<noteq> 0"
  shows "load_bytes p (length (trampoline fn u)) (hi_mem h') = trampoline fn u
    \<and> decode (drop (if u then 9 else 0) (trampoline fn u)) = Some (MOV_ri64 0 fn, [0xFF, 0xE0])
    \<and> decode [0xFF, 0xE0] = Some (JMP_rm (RReg 0), [])
    \<and> host_ok h'
    \<and> get_trampoline (Some n) h' =
        (case find (\<lambda>f. take (length n) (hf_name f) = n) (hi_funcs h) of None \<Rightarrow> p | Some f \<Rightarrow> JIT_trampoline_ptr f)"
proof -
  have ok: "host_ok h'" and f: "hi_funcs h' = hi_funcs h @
      [\<lparr>hf_name = n, host_fn_ptr = fn, JIT_trampoline_ptr = p, requires_unboxing = u\<rparr>]"
    using register_host_function_ok [OF assms(1,2)] assms(3) by auto
  have "stub_ok h' \<lparr>hf_name = n, host_fn_ptr = fn, JIT_trampoline_ptr = p, requires_unboxing = u\<rparr>"
    using ok f by (simp add: host_ok_def)
  then show ?thesis
    using ok trampoline_decodes(1) [of u fn "[]"] trampoline_decodes(2) [of "[]"]
    by (auto simp: stub_ok_def get_trampoline_def name_matches_def f find_append split: option.split)
qed


text \<open>\<open>log\<close> is a prefix of \<open>log2\<close>, so it is looked up as \<open>log2\<close>.\<close>

definition sample_host :: HostInterop where
  "sample_host = snd (register_host_function (Some ''log2'') 0x5000 False (new_host_interop upward_mmap))"

lemma sample_host_ok: "host_ok sample_host"
  unfolding sample_host_def
  using register_host_function_ok [OF host_ok_new [OF upward_mmap_ok] surjective_pairing] by blast

theorem host_trampolines_witness:
  "get_trampoline (Some ''log'') (snd (register_host_function (Some ''log'') 0x6000 True sample_host)) \<noteq>
     fst (register_host_function (Some ''log'') 0x6000 True sample_host)
   \<and> load_bytes (fst (register_host_function (Some ''log'') 0x6000 True sample_host)) 21
       (hi_mem (snd (register_host_function (Some ''log'') 0x6000 True sample_host)))
     = [0x48, 0xC1, 0xFF, 0x03, 0x66, 0x48, 0x0F, 0x6E, 0xC7] @ [0x48, 0xB8] @ le64 0x6000 @ [0xFF, 0xE0]"
proof -
  let ?r = "register_host_function (Some ''log'') 0x6000 True sample_host"
  have p: "fst ?r \<noteq> 0" "fst ?r \<noteq> JIT_trampoline_ptr (hd (hi_funcs sample_host))"
    by (simp_all add: sample_host_def new_host_interop_def register_host_function_def raw_mmap_def
        upward_mmap_def mmap_failed_def align_up_def Let_def)
  have q: "find (\<lambda>f. take (length ''log'') (hf_name f) = ''log'') (hi_funcs sample_host)
      = Some (hd (hi_funcs sample_host))"
    by (simp add: sample_host_def new_host_interop_def register_host_function_def raw_mmap_def
        upward_mmap_def mmap_failed_def align_up_def Let_def)
  have "load_bytes (fst ?r) (length (trampoline 0x6000 True)) (hi_mem (snd ?r)) = trampoline 0x6000 True"
    "get_trampoline (Some ''log'') (snd ?r) = JIT_trampoline_ptr (hd (hi_funcs sample_host))"
    using host_trampolines [OF sample_host_ok surjective_pairing p(1)] unfolding q by (simp_all only: option.case)
  moreover have "length (trampoline 0x6000 True) = 21"
    by (simp add: trampoline_def)
  ultimately show ?thesis
    using p(2) by (simp only: trampoline_def if_True) simp
qed

end
