(* ===== verification/Services.thy ===== *)
theory Services
  imports Ast Dispatch "HOL-Library.Multiset"
begin

text \<open>
  Run-time services: the collector's tables (\<open>src/src/sys/gc_collector.cpp\<close>), the
  counters of on-stack replacement (\<open>src/src/backend/osr_engine.cpp\<close>), the profiler and its
  block reordering (\<open>src/src/optimizer/pgo_profiler.cpp\<close>), the system call coalescer
  (\<open>src/src/optimizer/sys_coalescer.cpp\<close>) and the exception unwinder
  (\<open>src/src/backend/exception_unwinder.cpp\<close>). The singletons are records; arrays are lists of
  their fixed length.
\<close>

section \<open>Collector\<close>

record StackMapEntry =
  code_offset :: u32
  root_mask :: u32

record GCCollector =
  stack_maps :: "StackMapEntry list"
  stack_map_count :: u32
  remset_entries :: "u64 list"
  remset_count :: u32
  total_collections :: u64
  bytes_reclaimed :: u64

definition new_collector :: GCCollector where
  "new_collector = \<lparr>stack_maps = replicate 256 \<lparr>code_offset = 0, root_mask = 0\<rparr>, stack_map_count = 0,
     remset_entries = replicate 1024 0, remset_count = 0, total_collections = 0, bytes_reclaimed = 0\<rparr>"

definition register_stack_map :: "u32 \<Rightarrow> u32 \<Rightarrow> GCCollector \<Rightarrow> GCCollector" where
  "register_stack_map offset roots g =
     (if stack_map_count g < 256
      then g\<lparr>stack_maps := (stack_maps g)[unat (stack_map_count g) := \<lparr>code_offset = offset, root_mask = roots\<rparr>],
             stack_map_count := stack_map_count g + 1\<rparr>
      else g)"

definition record_remset_entry :: "u64 \<Rightarrow> GCCollector \<Rightarrow> GCCollector" where
  "record_remset_entry slot_addr g =
     (if remset_count g < 1024 \<and> slot_addr \<noteq> 0
      then g\<lparr>remset_entries := (remset_entries g)[unat (remset_count g) := slot_addr],
             remset_count := remset_count g + 1\<rparr>
      else g)"

definition collect_nursery :: "GCCollector \<Rightarrow> u64 \<times> GCCollector" where
  "collect_nursery g =
     (let reclaimed = 65536 in
      (reclaimed, g\<lparr>total_collections := total_collections g + 1,
                    bytes_reclaimed := bytes_reclaimed g + reclaimed, remset_count := 0\<rparr>))"

section \<open>On-stack replacement\<close>

record OSREngine =
  loop_counters :: "u32 list"
  total_osr_transitions :: u32
  tier3_unrolls :: u32

definition new_osr :: OSREngine where
  "new_osr = \<lparr>loop_counters = replicate 64 0, total_osr_transitions = 0, tier3_unrolls = 0\<rparr>"

definition record_loop_iteration :: "u64 \<Rightarrow> u32 \<Rightarrow> OSREngine \<Rightarrow> OSREngine" where
  "record_loop_iteration fn_key loop_id e =
     (if loop_id < 64
      then e\<lparr>loop_counters := (loop_counters e)[unat loop_id := loop_counters e ! unat loop_id + 1]\<rparr>
      else e)"

definition trigger_osr :: "u64 \<Rightarrow> u32 \<Rightarrow> u64 \<Rightarrow> OSREngine \<Rightarrow> u64 \<times> OSREngine" where
  "trigger_osr fn_key loop_id rs e = (0, e\<lparr>total_osr_transitions := total_osr_transitions e + 1\<rparr>)"

definition trigger_tier3_hyper_unroll :: "u64 \<Rightarrow> u32 \<Rightarrow> u32 \<Rightarrow> OSREngine \<Rightarrow> bool \<times> OSREngine" where
  "trigger_tier3_hyper_unroll fn_key loop_id factor e = (True, e\<lparr>tier3_unrolls := tier3_unrolls e + 1\<rparr>)"

definition handle_osr_trigger :: "u64 \<Rightarrow> u32 \<Rightarrow> u64 \<Rightarrow> OSREngine \<Rightarrow> u64 \<times> OSREngine" where
  "handle_osr_trigger = trigger_osr"

section \<open>Profiler\<close>

record BlockProfileEntry =
  block_id :: u32
  execution_count :: u64

record PGOProfiler =
  profiles :: "BlockProfileEntry list"
  profile_count :: u32

definition new_profiler :: PGOProfiler where
  "new_profiler = \<lparr>profiles = replicate 128 \<lparr>block_id = 0, execution_count = 0\<rparr>, profile_count = 0\<rparr>"

definition record_block_execution :: "u32 \<Rightarrow> u64 \<Rightarrow> PGOProfiler \<Rightarrow> PGOProfiler" where
  "record_block_execution blk cnt p =
     (if profile_count p < 128
      then p\<lparr>profiles := (profiles p)[unat (profile_count p) := \<lparr>block_id = blk, execution_count = cnt\<rparr>],
             profile_count := profile_count p + 1\<rparr>
      else p)"

definition is_cold :: "BasicBlock \<Rightarrow> bool" where
  "is_cold b \<longleftrightarrow> length (label b) > 4 \<and> label b ! 0 = CHR ''e'' \<and> label b ! 1 = CHR ''r''
     \<and> label b ! 2 = CHR ''r''"

text \<open>
  The loop over \<open>curr\<close>: \<open>seen\<close> holds the blocks up to \<open>prev\<close>. Unlinking
  \<open>curr\<close> and appending it after the last block is one list operation.
\<close>

fun reorder_loop :: "BasicBlock list \<Rightarrow> BasicBlock list \<Rightarrow> bool \<times> BasicBlock list" where
  "reorder_loop seen [] = (False, seen)"
| "reorder_loop seen (blk # rest) =
     (if is_cold blk then (True, seen @ rest @ [blk]) else reorder_loop (seen @ [blk]) rest)"

definition reorder_basic_blocks :: "Function option \<Rightarrow> bool \<times> Function option" where
  "reorder_basic_blocks fn =
     (case fn of
        None \<Rightarrow> (False, None)
      | Some f \<Rightarrow>
          (case blocks f of
             first # second # rest \<Rightarrow>
               (let (moved, bs) = reorder_loop [first] (second # rest) in (moved, Some (f\<lparr>blocks := bs\<rparr>)))
           | _ \<Rightarrow> (False, Some f)))"

section \<open>System call coalescer\<close>

text \<open>The scan looks at every instruction and changes none.\<close>

fun coalesce_scan :: "Instruction list \<Rightarrow> bool \<Rightarrow> bool" where
  "coalesce_scan [] modified = modified"
| "coalesce_scan (i # is) modified = coalesce_scan is (if op i = MOVE_CONST then modified else modified)"

definition optimize_basic_block :: "BasicBlock option \<Rightarrow> bool" where
  "optimize_basic_block bb =
     (case bb of None \<Rightarrow> False | Some b \<Rightarrow> if insns b = [] then False else coalesce_scan (insns b) False)"

definition coalesce_program_syscalls :: "Program option \<Rightarrow> u64" where
  "coalesce_program_syscalls prog =
     (case prog of
        None \<Rightarrow> 0
      | Some p \<Rightarrow>
          fold (\<lambda>f n. fold (\<lambda>b n. if optimize_basic_block (Some b) then n + 1 else n) (blocks f) n)
            (prog_functions p) 0)"

section \<open>Exception unwinder\<close>

record ExceptionTableEntry =
  code_start :: u64
  code_end :: u64
  catch_landing_pad :: u64
  exception_type_id :: u32

record ExceptionUnwinder =
  tables :: "ExceptionTableEntry list"
  table_count :: u32

definition new_unwinder :: ExceptionUnwinder where
  "new_unwinder = \<lparr>tables = replicate 128 \<lparr>code_start = 0, code_end = 0, catch_landing_pad = 0,
     exception_type_id = 0\<rparr>, table_count = 0\<rparr>"

definition register_exception_table :: "u64 \<Rightarrow> u64 \<Rightarrow> u64 \<Rightarrow> u32 \<Rightarrow> ExceptionUnwinder \<Rightarrow> ExceptionUnwinder" where
  "register_exception_table start stop landing_pad type_id u =
     (if table_count u < 128
      then u\<lparr>tables := (tables u)[unat (table_count u) := \<lparr>code_start = start, code_end = stop,
               catch_landing_pad = landing_pad, exception_type_id = type_id\<rparr>],
             table_count := table_count u + 1\<rparr>
      else u)"

text \<open>
  Where control goes: to a landing pad with stack pointer, argument and program counter, or to
  the panic that ends the process.
\<close>

datatype ThrowResult = Landed (t_rsp: u64) (t_rdi: u64) (t_pc: u64) | UncaughtPanic

definition handles :: "u64 \<Rightarrow> u32 \<Rightarrow> ExceptionTableEntry \<Rightarrow> bool" where
  "handles pc type_id t \<longleftrightarrow> code_start t \<le> pc \<and> pc \<le> code_end t
     \<and> (exception_type_id t = 0 \<or> exception_type_id t = type_id)"

definition find_handler :: "u64 \<Rightarrow> u32 \<Rightarrow> ExceptionUnwinder \<Rightarrow> ExceptionTableEntry option" where
  "find_handler pc type_id u = find (handles pc type_id) (take (unat (table_count u)) (tables u))"

text \<open>
  The walk over the chain of frame pointers. A cyclic chain never ends, which is the value
  \<open>None\<close>.
\<close>

partial_function (option) unwind ::
  "memory \<Rightarrow> ExceptionUnwinder \<Rightarrow> u64 \<Rightarrow> u32 \<Rightarrow> u64 \<Rightarrow> ThrowResult option" where
  "unwind m u exception_obj type_id rbp =
     (if rbp = 0 \<or> load64 rbp m = 0 then Some UncaughtPanic
      else
        (case find_handler (load64 (rbp + 8) m) type_id u of
           Some t \<Rightarrow> Some (Landed rbp exception_obj (catch_landing_pad t))
         | None \<Rightarrow> unwind m u exception_obj type_id (load64 rbp m)))"

definition throw_exception :: "memory \<Rightarrow> u64 \<Rightarrow> u64 \<Rightarrow> u32 \<Rightarrow> ExceptionUnwinder \<Rightarrow> ThrowResult option" where
  "throw_exception m rbp exception_obj type_id u = unwind m u exception_obj type_id rbp"

section \<open>Tables of fixed size\<close>

lemma word_count_Suc: "unat (n :: u32) < 1024 \<Longrightarrow> unat (n + 1) = Suc (unat n)"
  by (simp add: unat_plus_if')

lemma take_push: "n < length xs \<Longrightarrow> take (Suc n) (xs[n := x]) = take n xs @ [x]"
  by (simp add: take_Suc_conv_app_nth)

definition maps_ok :: "GCCollector \<Rightarrow> bool" where
  "maps_ok g \<longleftrightarrow> length (stack_maps g) = 256 \<and> unat (stack_map_count g) \<le> 256"

definition remset_ok :: "GCCollector \<Rightarrow> bool" where
  "remset_ok g \<longleftrightarrow> length (remset_entries g) = 1024 \<and> unat (remset_count g) \<le> 1024"

definition profiles_ok :: "PGOProfiler \<Rightarrow> bool" where
  "profiles_ok p \<longleftrightarrow> length (profiles p) = 128 \<and> unat (profile_count p) \<le> 128"

definition tables_ok :: "ExceptionUnwinder \<Rightarrow> bool" where
  "tables_ok u \<longleftrightarrow> length (tables u) = 128 \<and> unat (table_count u) \<le> 128"

definition remset :: "GCCollector \<Rightarrow> u64 list" where
  "remset g = take (unat (remset_count g)) (remset_entries g)"

definition handlers :: "ExceptionUnwinder \<Rightarrow> ExceptionTableEntry list" where
  "handlers u = take (unat (table_count u)) (tables u)"

interpretation maps: bounded_table "\<lambda>e. register_stack_map (code_offset e) (root_mask e)" maps_ok
  "\<lambda>g. take (unat (stack_map_count g)) (stack_maps g)" 256 "\<lambda>_. True" "\<lambda>e. e"
  by unfold_locales
    (simp_all add: maps_ok_def register_stack_map_def word_less_nat_alt word_count_Suc take_push)

interpretation remset: bounded_table record_remset_entry remset_ok remset 1024 "\<lambda>a. a \<noteq> 0" "\<lambda>a. a"
  by unfold_locales
    (simp_all add: remset_ok_def record_remset_entry_def remset_def word_less_nat_alt word_count_Suc take_push)

interpretation profiles: bounded_table "\<lambda>e. record_block_execution (block_id e) (execution_count e)" profiles_ok
  "\<lambda>p. take (unat (profile_count p)) (profiles p)" 128 "\<lambda>_. True" "\<lambda>e. e"
  by unfold_locales
    (simp_all add: profiles_ok_def record_block_execution_def word_less_nat_alt word_count_Suc take_push)

interpretation handlers: bounded_table
  "\<lambda>t. register_exception_table (code_start t) (code_end t) (catch_landing_pad t) (exception_type_id t)"
  tables_ok handlers 128 "\<lambda>_. True" "\<lambda>t. t"
  by unfold_locales
    (simp_all add: tables_ok_def register_exception_table_def handlers_def word_less_nat_alt word_count_Suc take_push)

section \<open>The remembered set\<close>

lemma remset_ok_collect: "remset_ok g \<Longrightarrow> remset_ok (snd (collect_nursery g))" "remset (snd (collect_nursery g)) = []"
  by (simp_all add: remset_ok_def remset_def collect_nursery_def Let_def)

text \<open>
  The slots recorded since the last collection are remembered in order, as long as at
  most 1024 of them are not null; the ones after that are dropped.
\<close>

theorem remembered_slots:
  assumes "remset_ok g"
  shows "remset (fold record_remset_entry slots (snd (collect_nursery g))) = take 1024 (filter (\<lambda>a. a \<noteq> 0) slots)
    \<and> (length (filter (\<lambda>a. a \<noteq> 0) slots) \<le> 1024 \<longrightarrow>
         set slots - {0} \<subseteq> set (remset (fold record_remset_entry slots (snd (collect_nursery g)))))
    \<and> remset_ok (fold record_remset_entry slots (snd (collect_nursery g)))"
  using remset.contents_run [OF remset_ok_collect(1) [OF assms], of slots]
    remset.inv_run [OF remset_ok_collect(1) [OF assms], of slots]
  by (auto simp: remset_ok_collect(2))

theorem remembered_slots_witness:
  "remset (fold record_remset_entry [0x10, 0, 0x20] (snd (collect_nursery new_collector))) = [0x10, 0x20]"
proof -
  have "remset_ok new_collector"
    by (simp add: remset_ok_def new_collector_def)
  from remembered_slots [OF this, of "[0x10, 0, 0x20]"] show ?thesis
    by simp
qed

section \<open>Block order\<close>

lemma reorder_loop_eq:
  "reorder_loop seen bs =
     (case dropWhile (\<lambda>b. \<not> is_cold b) bs of
        [] \<Rightarrow> (False, seen @ bs)
      | c # rest \<Rightarrow> (True, seen @ takeWhile (\<lambda>b. \<not> is_cold b) bs @ rest @ [c]))"
  by (induction seen bs rule: reorder_loop.induct) (auto split: list.split simp del: dropWhile_eq_Nil_conv)

text \<open>
  Reordering moves the first cold block after the entry to the end and nothing else:
  the function keeps its entry block and the same blocks, only their order changes, and it
  reports whether it moved one.
\<close>

theorem reorder_moves_one_cold_block:
  assumes "reorder_basic_blocks (Some f) = (moved, f')"
  shows "\<exists>g. f' = Some g \<and> g = f\<lparr>blocks := blocks g\<rparr> \<and> mset (blocks g) = mset (blocks f)
    \<and> take 1 (blocks g) = take 1 (blocks f)
    \<and> (moved \<longleftrightarrow> (\<exists>b \<in> set (tl (blocks f)). is_cold b))
    \<and> (moved \<longrightarrow> (\<exists>xs c ys. blocks f = hd (blocks f) # xs @ c # ys \<and> is_cold c \<and> (\<forall>b \<in> set xs. \<not> is_cold b)
          \<and> blocks g = hd (blocks f) # xs @ ys @ [c]))
    \<and> (\<not> moved \<longrightarrow> g = f)"
proof (cases "blocks f")
  case Nil
  then show ?thesis
    using assms by (simp add: reorder_basic_blocks_def)
next
  case (Cons e bs)
  let ?P = "\<lambda>b. \<not> is_cold b"
  have tw: "takeWhile ?P bs @ dropWhile ?P bs = bs"
    by simp
  show ?thesis
  proof (cases "dropWhile ?P bs")
    case Nil
    then have "\<forall>b \<in> set bs. \<not> is_cold b"
      by (simp add: dropWhile_eq_Nil_conv)
    then show ?thesis
      using assms Cons reorder_loop_eq [of "[e]" bs, unfolded Nil]
      by (auto simp: reorder_basic_blocks_def split: list.splits)
  next
    case D: (Cons c rest)
    then have c: "is_cold c" and bs: "bs = takeWhile ?P bs @ c # rest"
      using hd_dropWhile [of ?P bs] tw by auto
    then have m: "mset (takeWhile ?P bs) + add_mset c (mset rest) = mset bs" "c \<in> set bs"
      by (metis mset.simps(2) mset_append) (metis bs in_set_conv_decomp)
    have "bs \<noteq> []"
      using D by auto
    then have r: "moved" "f' = Some (f\<lparr>blocks := e # takeWhile ?P bs @ rest @ [c]\<rparr>)"
      using assms Cons D by (auto simp: reorder_basic_blocks_def reorder_loop_eq split: list.splits)
    have d: "\<exists>xs c' ys. blocks f = hd (blocks f) # xs @ c' # ys \<and> is_cold c' \<and> (\<forall>b \<in> set xs. \<not> is_cold b)
        \<and> e # takeWhile ?P bs @ rest @ [c] = hd (blocks f) # xs @ ys @ [c']"
      using bs c unfolding Cons
      by (intro exI [of _ "takeWhile ?P bs"] exI [of _ c] exI [of _ rest]) (auto dest: set_takeWhileD)
    have "mset (e # takeWhile ?P bs @ rest @ [c]) = mset (blocks f)"
      using m(1) unfolding Cons by (simp add: ac_simps)
    moreover have "\<exists>b \<in> set (tl (blocks f)). is_cold b"
      using c m(2) unfolding Cons by auto
    ultimately show ?thesis
      using r d by (intro exI [of _ "f\<lparr>blocks := e # takeWhile ?P bs @ rest @ [c]\<rparr>"]) (simp add: Cons)
  qed
qed

definition cold_function :: Function where
  "cold_function = \<lparr>fn_name = ''f'', return_type = VOID, params = [], param_count = 0, local_count = 0,
     blocks = [\<lparr>label = ''entry'', insns = []\<rparr>, \<lparr>label = ''error'', insns = []\<rparr>, \<lparr>label = ''exit'', insns = []\<rparr>]\<rparr>"

theorem reorder_moves_one_cold_block_witness:
  "fst (reorder_basic_blocks (Some cold_function))
   \<and> mset (blocks (the (snd (reorder_basic_blocks (Some cold_function))))) = mset (blocks cold_function)
   \<and> map label (blocks (the (snd (reorder_basic_blocks (Some cold_function))))) = [''entry'', ''exit'', ''error'']"
proof -
  have "map label (blocks (the (snd (reorder_basic_blocks (Some cold_function))))) = [''entry'', ''exit'', ''error'']"
    "fst (reorder_basic_blocks (Some cold_function))"
    by (simp_all add: reorder_basic_blocks_def cold_function_def is_cold_def)
  then show ?thesis
    using reorder_moves_one_cold_block [of cold_function, OF surjective_pairing] by auto
qed

section \<open>Unwinding\<close>

text \<open>The frames the walk visits, innermost first.\<close>

inductive frame_chain :: "memory \<Rightarrow> u64 \<Rightarrow> u64 list \<Rightarrow> bool" for m where
  chain_end: "rbp = 0 \<or> load64 rbp m = 0 \<Longrightarrow> frame_chain m rbp []"
| chain_frame: "rbp \<noteq> 0 \<Longrightarrow> load64 rbp m \<noteq> 0 \<Longrightarrow> frame_chain m (load64 rbp m) fs \<Longrightarrow> frame_chain m rbp (rbp # fs)"

inductive frame_reach :: "memory \<Rightarrow> u64 \<Rightarrow> u64 \<Rightarrow> bool" for m rbp where
  reach_start: "frame_reach m rbp rbp"
| reach_next: "frame_reach m rbp f \<Longrightarrow> f \<noteq> 0 \<Longrightarrow> load64 f m \<noteq> 0 \<Longrightarrow> frame_reach m rbp (load64 f m)"

text \<open>
  What a throw means, over the table entries as they were registered: the first pair of a frame, from the inside out, and an entry, in the
  order of registration, whose code range holds the frame's return address and that
  takes exceptions of this type or, with type 0, of any type. A table has room for 128 entries.
\<close>

definition throw_spec :: "memory \<Rightarrow> ExceptionTableEntry list \<Rightarrow> u64 \<Rightarrow> u32 \<Rightarrow> u64 list \<Rightarrow> ThrowResult" where
  "throw_spec m ts obj ty fs =
     (case [(f, t). f \<leftarrow> fs, t \<leftarrow> take 128 ts,
              load64 (f + 8) m \<in> {code_start t .. code_end t} \<and> exception_type_id t \<in> {0, ty}] of
        [] \<Rightarrow> UncaughtPanic
      | (f, t) # _ \<Rightarrow> Landed f obj (catch_landing_pad t))"

abbreviation register_all :: "ExceptionTableEntry list \<Rightarrow> ExceptionUnwinder" where
  "register_all ts \<equiv> fold (\<lambda>t. register_exception_table (code_start t) (code_end t) (catch_landing_pad t) (exception_type_id t)) ts new_unwinder"

lemma find_handler_registered:
  "find_handler pc ty (register_all ts) = find (handles pc ty) (take 128 ts)"
proof -
  have "tables_ok new_unwinder" "handlers new_unwinder = []"
    by (simp_all add: tables_ok_def handlers_def new_unwinder_def)
  then show ?thesis
    using handlers.contents_run [of new_unwinder ts] unfolding find_handler_def handlers_def [of "register_all ts", symmetric] by simp
qed

lemma find_filter: "find P xs = (case filter P xs of [] \<Rightarrow> None | x # _ \<Rightarrow> Some x)"
  by (induction xs) simp_all

lemma throw_spec_Cons:
  "throw_spec m ts obj ty (f # fs) =
     (case find (handles (load64 (f + 8) m) ty) (take 128 ts) of
        Some t \<Rightarrow> Landed f obj (catch_landing_pad t)
      | None \<Rightarrow> throw_spec m ts obj ty fs)"
proof -
  have "concat (map (\<lambda>t. if load64 (f + 8) m \<in> {code_start t .. code_end t} \<and> exception_type_id t \<in> {0, ty} then [(f, t)] else []) xs)
    = map (Pair f) (filter (handles (load64 (f + 8) m) ty) xs)" for xs
    by (induction xs) (auto simp: handles_def)
  then show ?thesis
    unfolding throw_spec_def find_filter
    by (cases "filter (handles (load64 (f + 8) m) ty) (take 128 ts)")
      (simp_all only: list.map concat.simps append_Nil append_Cons list.case option.case prod.case)
qed

lemma unwind_chain:
  "frame_chain m rbp fs \<Longrightarrow> unwind m (register_all ts) obj ty rbp = Some (throw_spec m ts obj ty fs)"
proof (induction rule: frame_chain.induct)
  case (chain_end rbp)
  then show ?case
    by (subst unwind.simps) (simp add: throw_spec_def)
next
  case (chain_frame rbp fs)
  then show ?case
    by (subst unwind.simps) (simp add: find_handler_registered throw_spec_Cons split: option.split)
qed

lemma increasing_chain:
  assumes "\<And>f. frame_reach m rbp f \<Longrightarrow> f = 0 \<or> load64 f m = 0 \<or> f < load64 f m" "frame_reach m rbp f"
  shows "\<exists>fs. frame_chain m f fs"
  using assms(2)
proof (induction "2 ^ 64 - unat f" arbitrary: f rule: less_induct)
  case less
  show ?case
  proof (cases "f = 0 \<or> load64 f m = 0")
    case True
    then show ?thesis
      by (blast intro: chain_end)
  next
    case False
    then have "unat f < unat (load64 f m)"
      using assms(1) [OF less.prems] by (simp add: word_less_nat_alt)
    moreover have "unat (load64 f m) < 2 ^ 64"
      using unsigned_less [of "load64 f m", where ?'a = nat] by simp
    ultimately have "\<exists>fs. frame_chain m (load64 f m) fs"
      using False less.prems by (intro less.hyps) (auto intro: reach_next)
    then show ?thesis
      using False by (blast intro: chain_frame)
  qed
qed

text \<open>
  Claim C23. When the saved frame pointers of a stack point upwards, throwing ends, and it ends as the registered table
  entries say: of the frames from the inside out, and for each of the entries in the order they were registered
  (the first 128 of them), the first pair is taken where the frame's return address lies in the entry's code range and
  the entry takes every type or the type thrown. Control goes to the landing pad of that entry with the frame as stack
  pointer and the exception as argument. The process panics exactly when no frame of the chain has such an entry.
\<close>

theorem throw_reaches_innermost_handler:
  fixes ts :: "ExceptionTableEntry list"
  assumes "\<And>f. frame_reach m rbp f \<Longrightarrow> f = 0 \<or> load64 f m = 0 \<or> f < load64 f m"
  shows "\<exists>fs. frame_chain m rbp fs
    \<and> throw_exception m rbp obj type_id
        (fold (\<lambda>t. register_exception_table (code_start t) (code_end t) (catch_landing_pad t) (exception_type_id t)) ts new_unwinder)
      = Some (case [(f, t). f \<leftarrow> fs, t \<leftarrow> take 128 ts,
                load64 (f + 8) m \<in> {code_start t .. code_end t} \<and> exception_type_id t \<in> {0, type_id}] of
                [] \<Rightarrow> UncaughtPanic
              | (f, t) # _ \<Rightarrow> Landed f obj (catch_landing_pad t))"
proof -
  obtain fs where "frame_chain m rbp fs"
    using increasing_chain [OF _ reach_start] assms by blast
  then show ?thesis
    using unwind_chain [of m rbp fs ts obj type_id] unfolding throw_exception_def throw_spec_def by blast
qed

text \<open>A stack of three frames; the middle one is called from protected code.\<close>

definition sample_stack :: memory where
  "sample_stack = (\<lambda>x. if x = 0x1001 then 0x11 else if x = 0x1101 then 0x12 else if x = 0x1108 then 0x55 else 0)"

text \<open>Two entries for the same code: the first takes another type of exception.\<close>

definition sample_handlers :: "ExceptionTableEntry list" where
  "sample_handlers =
     [\<lparr>code_start = 0x50, code_end = 0x60, catch_landing_pad = 0x88, exception_type_id = 3\<rparr>,
      \<lparr>code_start = 0x50, code_end = 0x60, catch_landing_pad = 0x99, exception_type_id = 7\<rparr>]"

lemma sample_links: "load64 0x1000 sample_stack = 0x1100" "load64 0x1100 sample_stack = 0x1200"
  "load64 0x1200 sample_stack = 0"
  by code_simp+

lemma sample_reach: "frame_reach sample_stack 0x1000 f \<Longrightarrow> f = 0x1000 \<or> f = 0x1100 \<or> f = 0x1200"
  by (induction rule: frame_reach.induct) (auto simp: sample_links)

lemma frame_chain_unique: "frame_chain m rbp fs \<Longrightarrow> frame_chain m rbp gs \<Longrightarrow> gs = fs"
proof (induction arbitrary: gs rule: frame_chain.induct)
  case (chain_end rbp)
  then show ?case
    by (auto elim: frame_chain.cases)
next
  case (chain_frame rbp fs)
  note IH = chain_frame.IH and hyps = chain_frame.hyps
  from chain_frame.prems show ?case
  proof cases
    case chain_end
    then show ?thesis
      using hyps by simp
  next
    case (chain_frame hs)
    then show ?thesis
      using IH by simp
  qed
qed

lemma sample_chain: "frame_chain sample_stack 0x1000 [0x1000, 0x1100]"
proof -
  have "frame_chain sample_stack 0x1200 []"
    by (simp add: chain_end sample_links)
  then have "frame_chain sample_stack 0x1100 [0x1100]"
    by (intro chain_frame) (simp_all add: sample_links)
  then show ?thesis
    by (intro chain_frame) (simp_all add: sample_links)
qed

theorem throw_reaches_innermost_handler_witness:
  "throw_exception sample_stack 0x1000 0xAB 7
     (fold (\<lambda>t. register_exception_table (code_start t) (code_end t) (catch_landing_pad t) (exception_type_id t)) sample_handlers new_unwinder)
   = Some (Landed 0x1100 0xAB 0x99)"
proof -
  have "\<And>f. frame_reach sample_stack 0x1000 f \<Longrightarrow> f = 0 \<or> load64 f sample_stack = 0 \<or> f < load64 f sample_stack"
    using sample_reach by (fastforce simp: sample_links)
  from throw_reaches_innermost_handler [OF this, where obj = "0xAB" and type_id = 7 and ts = sample_handlers]
  obtain fs where fs: "frame_chain sample_stack 0x1000 fs"
    "throw_exception sample_stack 0x1000 0xAB 7 (register_all sample_handlers)
      = Some (throw_spec sample_stack sample_handlers 0xAB 7 fs)"
    unfolding throw_spec_def by blast
  have "throw_spec sample_stack sample_handlers 0xAB 7 [0x1000, 0x1100] = Landed 0x1100 0xAB 0x99"
    by code_simp
  then show ?thesis
    using fs frame_chain_unique [OF sample_chain fs(1)] by simp
qed

end
