(* ===== verification/Queues.thy ===== *)
theory Queues
  imports Prelude
begin

text \<open>
  Two linked run-time structures. The submission ring of asynchronous I/O
  (\<open>src/src/sys/io_ring.cpp\<close>) is a circular array; the list of code entries a debugger
  reads (\<open>src/src/backend/gdb_jit.cpp\<close>) is a doubly linked list in an explicit store. An
  access through a null or freed pointer and a division by zero are the value \<open>None\<close>.
\<close>

section \<open>Submission ring\<close>

type_synonym u16 = "16 word"

record io_uring_sqe_raw =
  sqe_opcode :: u8
  sqe_flags :: u8
  sqe_ioprio :: u16
  sqe_fd :: i32
  sqe_off :: u64
  sqe_addr :: u64
  sqe_len :: u32
  sqe_op_flags :: u32
  sqe_user_data :: u64
  sqe_buf_index :: u16
  sqe_personality :: u16
  sqe_file_index :: i32
  sqe_pad2 :: "u64 list"

record io_uring_cqe_raw =
  cqe_user_data :: u64
  cqe_res :: i32
  cqe_flags :: u32

text \<open>
  The fields of \<open>IoRing\<close>, then the environment: which sizes \<open>malloc\<close> grants,
  what fresh memory holds, and the result of the setup system call.
\<close>

record IoRing =
  ring_fd :: i32
  sqes :: "io_uring_sqe_raw list option"
  cqes :: "io_uring_cqe_raw list option"
  sq_head :: u32
  sq_tail :: u32
  cq_head :: u32
  cq_tail :: u32
  ring_entries :: u32
  total_submissions :: u64
  total_completions :: u64
  malloc_grants :: "u64 \<Rightarrow> bool"
  junk_sqe :: io_uring_sqe_raw
  junk_cqe :: io_uring_cqe_raw
  setup_result :: "u32 \<Rightarrow> 64 word"

definition zero_sqe :: io_uring_sqe_raw where
  "zero_sqe = \<lparr>sqe_opcode = 0, sqe_flags = 0, sqe_ioprio = 0, sqe_fd = 0, sqe_off = 0, sqe_addr = 0,
     sqe_len = 0, sqe_op_flags = 0, sqe_user_data = 0, sqe_buf_index = 0, sqe_personality = 0,
     sqe_file_index = 0, sqe_pad2 = [0, 0]\<rparr>"

definition zero_cqe :: io_uring_cqe_raw where
  "zero_cqe = \<lparr>cqe_user_data = 0, cqe_res = 0, cqe_flags = 0\<rparr>"

definition new_ring :: "(u64 \<Rightarrow> bool) \<Rightarrow> io_uring_sqe_raw \<Rightarrow> io_uring_cqe_raw \<Rightarrow> (u32 \<Rightarrow> 64 word) \<Rightarrow> IoRing" where
  "new_ring grants js jc setup = \<lparr>ring_fd = - 1, sqes = None, cqes = None, sq_head = 0, sq_tail = 0,
     cq_head = 0, cq_tail = 0, ring_entries = 32, total_submissions = 0, total_completions = 0,
     malloc_grants = grants, junk_sqe = js, junk_cqe = jc, setup_result = setup\<rparr>"

text \<open>\<open>sizeof\<close> is 64 for a submission entry and 16 for a completion entry.\<close>

definition ring_init :: "u32 \<Rightarrow> IoRing \<Rightarrow> bool \<times> IoRing" where
  "ring_init entries r =
     (let n = unat entries;
          sq = (if malloc_grants r (64 * ucast entries) then Some (replicate n (junk_sqe r)) else None);
          cq = (if malloc_grants r (16 * ucast entries) then Some (replicate n (junk_cqe r)) else None);
          r1 = r\<lparr>ring_entries := entries, sqes := sq, cqes := cq\<rparr> in
      if sq = None \<or> cq = None then (False, r1)
      else
        (let r2 = r1\<lparr>sqes := Some (replicate n zero_sqe), cqes := Some (replicate n zero_cqe)\<rparr>;
             ret = setup_result r entries in
         (True, if 0 \<le> sint ret then r2\<lparr>ring_fd := ucast ret\<rparr> else r2)))"

definition submit_sqe :: "u8 \<Rightarrow> i32 \<Rightarrow> u64 \<Rightarrow> u32 \<Rightarrow> u64 \<Rightarrow> IoRing \<Rightarrow> (i32 \<times> IoRing) option" where
  "submit_sqe opcode fd addr len user_data r0 =
     (let r = (if sqes r0 = None then snd (ring_init 32 r0) else r0) in
      if ring_entries r = 0 then None
      else
        (case sqes r of
           None \<Rightarrow> None
         | Some q \<Rightarrow>
             (let idx = sq_tail r mod ring_entries r in
              Some (0, r\<lparr>sqes := Some (q[unat idx := zero_sqe\<lparr>sqe_opcode := opcode, sqe_fd := fd, sqe_addr := addr,
                                          sqe_len := len, sqe_user_data := user_data\<rparr>]),
                         sq_tail := sq_tail r + 1, total_submissions := total_submissions r + 1\<rparr>))))"

text \<open>The result, and what is stored through the output pointers.\<close>

definition poll_cqe :: "IoRing \<Rightarrow> (i32 \<times> (u64 \<times> i32) option \<times> IoRing) option" where
  "poll_cqe r =
     (if sq_head r < sq_tail r then
        (if ring_entries r = 0 then None
         else
           (case sqes r of
              None \<Rightarrow> None
            | Some q \<Rightarrow>
                (let e = q ! unat (sq_head r mod ring_entries r) in
                 Some (1, Some (sqe_user_data e, sqe_len e),
                       r\<lparr>sq_head := sq_head r + 1, total_completions := total_completions r + 1\<rparr>))))
      else Some (0, None, r))"

definition sys_io_submit :: "u8 \<Rightarrow> i32 \<Rightarrow> u64 \<Rightarrow> u32 \<Rightarrow> u64 \<Rightarrow> IoRing \<Rightarrow> (i32 \<times> IoRing) option" where
  "sys_io_submit = submit_sqe"

definition sys_io_poll :: "IoRing \<Rightarrow> (i32 \<times> (u64 \<times> i32) option \<times> IoRing) option" where
  "sys_io_poll = poll_cqe"

section \<open>Debugger list\<close>

datatype jit_actions_t = JIT_NOACTION | JIT_REGISTER_FN | JIT_UNREGISTER_FN

record jit_code_entry =
  next_entry :: u64
  prev_entry :: u64
  symfile_addr :: u64
  symfile_size :: u64

record jit_descriptor =
  version :: u32
  action_flag :: jit_actions_t
  relevant_entry :: u64
  first_entry :: u64

text \<open>The descriptor, the store of entries and the symbol files that are allocated.\<close>

record GdbState =
  jit_debug_descriptor :: jit_descriptor
  jit_store :: "u64 \<rightharpoonup> jit_code_entry"
  symfiles :: "u64 set"

definition new_gdb :: GdbState where
  "new_gdb = \<lparr>jit_debug_descriptor = \<lparr>version = 1, action_flag = JIT_NOACTION, relevant_entry = 0, first_entry = 0\<rparr>,
     jit_store = Map.empty, symfiles = {}\<rparr>"

text \<open>Writing a field of the entry at an address.\<close>

definition modify :: "u64 \<Rightarrow> (jit_code_entry \<Rightarrow> jit_code_entry) \<Rightarrow> (u64 \<rightharpoonup> jit_code_entry) \<Rightarrow> (u64 \<rightharpoonup> jit_code_entry) option" where
  "modify p f h = (case h p of None \<Rightarrow> None | Some e \<Rightarrow> Some (h(p \<mapsto> f e)))"

definition describe :: "jit_actions_t \<Rightarrow> u64 \<Rightarrow> u64 \<Rightarrow> jit_descriptor \<Rightarrow> jit_descriptor" where
  "describe act rel first d = d\<lparr>action_flag := act, relevant_entry := rel, first_entry := first\<rparr>"

text \<open>
  \<open>p\<close> is what \<open>malloc\<close> returns and \<open>elf\<close> the address and size of the
  symbol file the object emitter returns for the code.
\<close>

definition register_jit_code :: "u64 \<Rightarrow> u64 \<times> u64 \<Rightarrow> u64 \<Rightarrow> u64 \<Rightarrow> GdbState \<Rightarrow> (u64 \<times> GdbState) option" where
  "register_jit_code p elf code_ptr code_size s =
     (if code_ptr = 0 \<or> code_size = 0 then Some (0, s)
      else if p = 0 then Some (0, s)
      else
        (let d = jit_debug_descriptor s;
             h = (jit_store s)(p \<mapsto> \<lparr>next_entry = first_entry d, prev_entry = 0, symfile_addr = fst elf,
                                     symfile_size = snd elf\<rparr>);
             h' = (if first_entry d \<noteq> 0 then modify (first_entry d) (\<lambda>e. e\<lparr>prev_entry := p\<rparr>) h else Some h) in
         case h' of
           None \<Rightarrow> None
         | Some h'' \<Rightarrow> Some (p, s\<lparr>jit_store := h'', symfiles := insert (fst elf) (symfiles s) - {0},
                                 jit_debug_descriptor := describe JIT_REGISTER_FN p p d\<rparr>)))"

definition unregister_jit_code :: "u64 \<Rightarrow> GdbState \<Rightarrow> GdbState option" where
  "unregister_jit_code entry s =
     (if entry = 0 then Some s
      else
        (case jit_store s entry of
           None \<Rightarrow> None
         | Some e \<Rightarrow>
             (let d = jit_debug_descriptor s;
                  h1 = (if prev_entry e \<noteq> 0
                        then modify (prev_entry e) (\<lambda>x. x\<lparr>next_entry := next_entry e\<rparr>) (jit_store s)
                        else Some (jit_store s));
                  first = (if prev_entry e \<noteq> 0 then first_entry d else next_entry e) in
              case h1 of
                None \<Rightarrow> None
              | Some h1' \<Rightarrow>
                  (let e' = the (h1' entry) in
                   case (if next_entry e' \<noteq> 0
                         then modify (next_entry e') (\<lambda>x. x\<lparr>prev_entry := prev_entry e'\<rparr>) h1' else Some h1') of
                     None \<Rightarrow> None
                   | Some h2 \<Rightarrow>
                       Some (s\<lparr>jit_debug_descriptor := describe JIT_UNREGISTER_FN entry first d,
                               jit_store := h2(entry := None),
                               symfiles := symfiles s - {symfile_addr e}\<rparr>)))))"


section \<open>Queues\<close>

datatype 'x qop = Enq 'x | Deq

text \<open>
  A first-in first-out queue: the outputs of a sequence of operations, as long as at most
  \<open>cap\<close> elements are waiting and at most \<open>lim\<close> are entered in all.
\<close>

fun qspec :: "('x \<Rightarrow> 'e) \<Rightarrow> nat \<Rightarrow> nat \<Rightarrow> 'x qop list \<Rightarrow> 'e list \<Rightarrow> ('e option list \<times> 'e list) option" where
  "qspec ent cap lim [] q = Some ([], q)"
| "qspec ent cap lim (Enq x # ops) q =
     (if length q < cap \<and> 0 < lim then qspec ent cap (lim - 1) ops (q @ [ent x]) else None)"
| "qspec ent cap lim (Deq # ops) q =
     (case q of
        [] \<Rightarrow> map_option (\<lambda>(outs, q'). (None # outs, q')) (qspec ent cap lim ops [])
      | e # es \<Rightarrow> map_option (\<lambda>(outs, q'). (Some e # outs, q')) (qspec ent cap lim ops es))"

fun qrun :: "('x \<Rightarrow> 's \<Rightarrow> 's option) \<Rightarrow> ('s \<Rightarrow> ('e option \<times> 's) option) \<Rightarrow> 'x qop list \<Rightarrow> 's \<Rightarrow> ('e option list \<times> 's) option" where
  "qrun enq deq [] s = Some ([], s)"
| "qrun enq deq (Enq x # ops) s = (case enq x s of None \<Rightarrow> None | Some s' \<Rightarrow> qrun enq deq ops s')"
| "qrun enq deq (Deq # ops) s =
     (case deq s of None \<Rightarrow> None
      | Some (e, s') \<Rightarrow> map_option (\<lambda>(outs, s''). (e # outs, s'')) (qrun enq deq ops s'))"

locale fifo =
  fixes enq :: "'x \<Rightarrow> 's \<Rightarrow> 's option"
    and deq :: "'s \<Rightarrow> ('e option \<times> 's) option"
    and inv :: "'s \<Rightarrow> bool"
    and pending :: "'s \<Rightarrow> 'e list"
    and issued :: "'s \<Rightarrow> nat"
    and cap :: nat
    and lim :: nat
    and ent :: "'x \<Rightarrow> 'e"
  assumes enq_ok: "inv s \<Longrightarrow> length (pending s) < cap \<Longrightarrow> issued s < lim \<Longrightarrow>
      \<exists>s'. enq x s = Some s' \<and> inv s' \<and> pending s' = pending s @ [ent x] \<and> issued s' = Suc (issued s)"
    and deq_empty: "inv s \<Longrightarrow> pending s = [] \<Longrightarrow> deq s = Some (None, s)"
    and deq_ok: "inv s \<Longrightarrow> pending s = e # es \<Longrightarrow>
      \<exists>s'. deq s = Some (Some e, s') \<and> inv s' \<and> pending s' = es \<and> issued s' = issued s"
begin

lemma run_refines:
  assumes "inv s" "qspec ent cap (lim - issued s) ops (pending s) = Some (outs, q)"
  shows "\<exists>s'. qrun enq deq ops s = Some (outs, s') \<and> inv s' \<and> pending s' = q"
  using assms
proof (induction ops arbitrary: s outs)
  case (Cons a ops)
  show ?case
  proof (cases a)
    case (Enq x)
    then have l: "length (pending s) < cap" "issued s < lim"
      and q: "qspec ent cap (lim - Suc (issued s)) ops (pending s @ [ent x]) = Some (outs, q)"
      using Cons.prems(2) by (auto split: if_splits)
    obtain s' where s': "enq x s = Some s'" "inv s'" "pending s' = pending s @ [ent x]"
      "issued s' = Suc (issued s)"
      using enq_ok [OF Cons.prems(1) l] by blast
    show ?thesis
      using Cons.IH [of s' outs] s' q Enq by simp
  next
    case Deq
    show ?thesis
    proof (cases "pending s")
      case Nil
      then show ?thesis
        using Cons.IH [OF Cons.prems(1)] Cons.prems Deq deq_empty by fastforce
    next
      case p: (Cons e es)
      obtain s' where s': "deq s = Some (Some e, s')" "inv s'" "pending s' = es" "issued s' = issued s"
        using deq_ok [OF Cons.prems(1) p] by blast
      show ?thesis
        using Cons.IH [OF s'(2)] s' Cons.prems(2) Deq p by fastforce
    qed
  qed
qed simp

end

section \<open>The ring is a queue\<close>

definition sqe_entry :: "io_uring_sqe_raw \<Rightarrow> u64 \<times> u32" where
  "sqe_entry e = (sqe_user_data e, sqe_len e)"

definition ring_pending :: "IoRing \<Rightarrow> (u64 \<times> u32) list" where
  "ring_pending r = map (\<lambda>i. sqe_entry (the (sqes r) ! (i mod unat (ring_entries r)))) [unat (sq_head r)..<unat (sq_tail r)]"

definition ring_ok :: "nat \<Rightarrow> IoRing \<Rightarrow> bool" where
  "ring_ok n r \<longleftrightarrow> unat (ring_entries r) = n \<and> 0 < n \<and> sq_head r \<le> sq_tail r
     \<and> unat (sq_tail r) - unat (sq_head r) \<le> n
     \<and> (case sqes r of
          None \<Rightarrow> n = 32 \<and> sq_head r = sq_tail r \<and> malloc_grants r (64 * 32) \<and> malloc_grants r (16 * 32)
        | Some q \<Rightarrow> length q = n)"

type_synonym request = "u8 \<times> i32 \<times> u64 \<times> u32 \<times> u64"

definition ring_enq :: "request \<Rightarrow> IoRing \<Rightarrow> IoRing option" where
  "ring_enq x r = (case x of (opcode, fd, addr, len, ud) \<Rightarrow> map_option snd (sys_io_submit opcode fd addr len ud r))"

definition ring_deq :: "IoRing \<Rightarrow> ((u64 \<times> u32) option \<times> IoRing) option" where
  "ring_deq r = map_option snd (sys_io_poll r)"

definition request_entry :: "request \<Rightarrow> u64 \<times> u32" where
  "request_entry x = (case x of (opcode, fd, addr, len, ud) \<Rightarrow> (ud, len))"

lemma mod_neq: "(i :: nat) < t \<Longrightarrow> t - i < n \<Longrightarrow> i mod n \<noteq> t mod n"
  by (metis dvd_imp_le less_or_eq_imp_le mod_eq_dvd_iff_nat not_le zero_less_diff)

text \<open>Initialisation on demand makes the ring ready without changing what is pending.\<close>

lemma ring_ready:
  assumes "ring_ok n r"
  obtains r' q where "(if sqes r = None then snd (ring_init 32 r) else r) = r'" "sqes r' = Some q" "length q = n"
    "ring_entries r' = ring_entries r" "sq_head r' = sq_head r" "sq_tail r' = sq_tail r"
    "ring_pending r' = ring_pending r"
proof (cases "sqes r")
  case None
  then have n: "ring_entries r = 32" "n = 32"
    using assms by (auto simp: ring_ok_def word_unat_eq_iff)
  have "sqes (snd (ring_init 32 r)) = Some (replicate 32 zero_sqe)" "ring_entries (snd (ring_init 32 r)) = 32"
    "sq_head (snd (ring_init 32 r)) = sq_head r" "sq_tail (snd (ring_init 32 r)) = sq_tail r"
    using assms None by (auto simp: ring_init_def Let_def ring_ok_def)
  then show ?thesis
    using assms None n by (intro that [of "snd (ring_init 32 r)"]) (auto simp: ring_ok_def ring_pending_def)
next
  case (Some q)
  then show ?thesis
    using assms by (intro that [of r q]) (auto simp: ring_ok_def)
qed

lemma ring_enq_ok:
  assumes ok: "ring_ok n r" and room: "length (ring_pending r) < n" and lim: "unat (sq_tail r) < 2 ^ 32 - 1"
  shows "\<exists>r'. ring_enq x r = Some r' \<and> ring_ok n r' \<and> ring_pending r' = ring_pending r @ [request_entry x]
     \<and> unat (sq_tail r') = Suc (unat (sq_tail r))"
proof -
  obtain opcode fd addr len ud where x: "x = (opcode, fd, addr, len, ud)"
    by (cases x)
  obtain r1 q where r1: "(if sqes r = None then snd (ring_init 32 r) else r) = r1" "sqes r1 = Some q" "length q = n"
    "ring_entries r1 = ring_entries r" "sq_head r1 = sq_head r" "sq_tail r1 = sq_tail r"
    "ring_pending r1 = ring_pending r"
    by (rule ring_ready [OF ok])
  let ?h = "unat (sq_head r)" and ?t = "unat (sq_tail r)"
  let ?e = "zero_sqe\<lparr>sqe_opcode := opcode, sqe_fd := fd, sqe_addr := addr, sqe_len := len, sqe_user_data := ud\<rparr>"
  let ?r = "r1\<lparr>sqes := Some (q[?t mod n := ?e]), sq_tail := sq_tail r + 1, total_submissions := total_submissions r1 + 1\<rparr>"
  have n: "unat (ring_entries r) = n" "0 < n" "?h \<le> ?t"
    using ok by (auto simp: ring_ok_def word_le_nat_alt)
  have t: "unat (sq_tail r + 1) = Suc ?t"
    using lim by (simp add: unat_plus_if')
  have d: "?t - ?h < n"
    using room by (simp add: ring_pending_def)
  have run: "ring_enq x r = Some ?r"
    using r1 n by (auto simp: ring_enq_def sys_io_submit_def submit_sqe_def x Let_def unat_mod)
  have same: "map (\<lambda>i. sqe_entry (q[?t mod n := ?e] ! (i mod n))) [?h..<?t] = map (\<lambda>i. sqe_entry (q ! (i mod n))) [?h..<?t]"
  proof (rule map_cong [OF refl])
    fix i
    assume "i \<in> set [?h..<?t]"
    then have "i < ?t" "?t - i < n"
      using d by auto
    then have "?t mod n \<noteq> i mod n"
      using mod_neq [of i ?t n] by auto
    then show "sqe_entry (q[?t mod n := ?e] ! (i mod n)) = sqe_entry (q ! (i mod n))"
      by simp
  qed
  have "ring_pending ?r = map (\<lambda>i. sqe_entry (q[?t mod n := ?e] ! (i mod n))) [?h..<Suc ?t]"
    using r1 n t by (simp add: ring_pending_def)
  also have "\<dots> = map (\<lambda>i. sqe_entry (q ! (i mod n))) [?h..<?t] @ [sqe_entry ?e]"
    using n r1(3) same by simp
  also have "map (\<lambda>i. sqe_entry (q ! (i mod n))) [?h..<?t] = ring_pending r"
    using r1 n by (simp add: ring_pending_def)
  finally have p: "ring_pending ?r = ring_pending r @ [request_entry x]"
    by (simp add: sqe_entry_def request_entry_def x)
  have "ring_ok n ?r"
    using r1 n t d by (auto simp: ring_ok_def word_le_nat_alt)
  then show ?thesis
    using run p t by (intro exI [of _ ?r]) simp
qed

lemma ring_deq_ok:
  assumes ok: "ring_ok n r" and p: "ring_pending r = e # es"
  shows "\<exists>r'. ring_deq r = Some (Some e, r') \<and> ring_ok n r' \<and> ring_pending r' = es \<and> sq_tail r' = sq_tail r"
proof -
  let ?h = "unat (sq_head r)" and ?t = "unat (sq_tail r)"
  have l: "?h < ?t"
    using p by (cases "?h < ?t") (auto simp: ring_pending_def)
  then have "sq_head r \<noteq> sq_tail r"
    by auto
  then obtain q where q: "sqes r = Some q" "length q = n"
    using ok by (auto simp: ring_ok_def split: option.splits)
  have n: "unat (ring_entries r) = n" "0 < n"
    using ok by (auto simp: ring_ok_def)
  have h: "unat (sq_head r + 1) = Suc ?h"
    using l unsigned_less [of "sq_tail r", where ?'a = nat] by (simp add: unat_plus_if')
  let ?r = "r\<lparr>sq_head := sq_head r + 1, total_completions := total_completions r + 1\<rparr>"
  have es: "e = sqe_entry (q ! (?h mod n))" "es = map (\<lambda>i. sqe_entry (q ! (i mod n))) [Suc ?h..<?t]"
    using p l q n by (simp_all add: ring_pending_def upt_conv_Cons)
  have "ring_deq r = Some (Some e, ?r)"
    using l q n es by (auto simp: ring_deq_def sys_io_poll_def poll_cqe_def Let_def unat_mod sqe_entry_def word_less_nat_alt)
  moreover have "ring_ok n ?r"
    using ok l h q by (auto simp: ring_ok_def word_le_nat_alt)
  moreover have "ring_pending ?r = es"
    using h q n es by (simp add: ring_pending_def)
  ultimately show ?thesis
    by (intro exI [of _ ?r]) simp
qed

interpretation ring: fifo ring_enq ring_deq "ring_ok n" ring_pending "\<lambda>r. unat (sq_tail r)" n "2 ^ 32 - 1" request_entry for n
proof
  fix s e es x
  assume ok: "ring_ok n s"
  show "length (ring_pending s) < n \<Longrightarrow> unat (sq_tail s) < 2 ^ 32 - 1 \<Longrightarrow>
      \<exists>s'. ring_enq x s = Some s' \<and> ring_ok n s' \<and> ring_pending s' = ring_pending s @ [request_entry x]
        \<and> unat (sq_tail s') = Suc (unat (sq_tail s))"
    by (rule ring_enq_ok [OF ok])
  show "ring_deq s = Some (None, s)" if "ring_pending s = []"
    using that ok by (auto simp: ring_pending_def ring_deq_def sys_io_poll_def poll_cqe_def word_less_nat_alt)
  show "\<exists>s'. ring_deq s = Some (Some e, s') \<and> ring_ok n s' \<and> ring_pending s' = es \<and> unat (sq_tail s') = unat (sq_tail s)"
    if "ring_pending s = e # es"
    using ring_deq_ok [OF ok that] by auto
qed

text \<open>
  Claim C25. From a new ring, any sequence of submissions and polls in which at most 32
  submissions are waiting at a time, and fewer than 2^32 are made in all, runs without a fault
  and returns the submissions in order: each poll gives the user data and length of the oldest
  one that waits, or nothing when none waits.
\<close>

theorem ring_refines_queue:
  assumes "grants (64 * 32)" "grants (16 * 32)"
    and "qspec request_entry 32 (2 ^ 32 - 1) ops [] = Some (outs, q)"
  shows "\<exists>r. qrun ring_enq ring_deq ops (new_ring grants js jc setup) = Some (outs, r) \<and> ring_pending r = q"
proof -
  have "ring_ok 32 (new_ring grants js jc setup)" "ring_pending (new_ring grants js jc setup) = []"
    "unat (sq_tail (new_ring grants js jc setup)) = 0"
    using assms(1,2) by (simp_all add: ring_ok_def new_ring_def ring_pending_def)
  then show ?thesis
    using ring.run_refines [of 32 "new_ring grants js jc setup" ops outs q] assms(3) by auto
qed

theorem ring_refines_queue_witness:
  "\<exists>r. qrun ring_enq ring_deq [Enq (1, 0, 0, 4, 7), Enq (1, 0, 0, 5, 8), Deq, Deq, Deq]
      (new_ring (\<lambda>_. True) zero_sqe zero_cqe (\<lambda>_. - 1)) = Some ([Some (7, 4), Some (8, 5), None], r)
    \<and> ring_pending r = []"
proof -
  have "qspec request_entry 32 (2 ^ 32 - 1) [Enq (1, 0, 0, 4, 7), Enq (1, 0, 0, 5, 8), Deq, Deq, Deq] []
      = Some ([Some (7, 4), Some (8, 5), None], [])"
    by (simp add: request_entry_def)
  from ring_refines_queue [OF _ _ this, of "\<lambda>_. True"] show ?thesis
    by simp
qed

text \<open>A full ring does not refuse: the 33rd waiting submission takes the place of the first.\<close>

lemma full_ring_overwrites:
  "map_option fst (qrun ring_enq ring_deq (map (\<lambda>k. Enq (1, 0, 0, 0, of_nat k)) [0..<33] @ [Deq])
     (new_ring (\<lambda>_. True) zero_sqe zero_cqe (\<lambda>_. - 1))) = Some [Some (32, 0)]"
  by code_simp

section \<open>The debugger list\<close>

text \<open>A segment of the list from \<open>p\<close> to \<open>q\<close> with the predecessor \<open>prev\<close>.\<close>

fun dseg :: "(u64 \<rightharpoonup> jit_code_entry) \<Rightarrow> u64 \<Rightarrow> u64 \<Rightarrow> u64 list \<Rightarrow> u64 \<Rightarrow> bool" where
  "dseg h prev p [] q \<longleftrightarrow> p = q"
| "dseg h prev p (x # xs) q \<longleftrightarrow>
     p = x \<and> x \<noteq> 0 \<and> (\<exists>e. h x = Some e \<and> prev_entry e = prev \<and> dseg h x (next_entry e) xs q)"

definition listed :: "GdbState \<Rightarrow> u64 list \<Rightarrow> bool" where
  "listed s xs \<longleftrightarrow> distinct xs \<and> dom (jit_store s) = set xs
     \<and> dseg (jit_store s) 0 (first_entry (jit_debug_descriptor s)) xs 0"

datatype gdb_op = Register u64 "u64 \<times> u64" u64 u64 | Unregister u64

fun gdb_exec :: "gdb_op \<Rightarrow> GdbState \<Rightarrow> GdbState option" where
  "gdb_exec (Register p elf c n) s = map_option snd (register_jit_code p elf c n s)"
| "gdb_exec (Unregister e) s = unregister_jit_code e s"

text \<open>The specification: registering adds in front, unregistering a listed entry removes it.\<close>

fun gdb_spec :: "gdb_op \<Rightarrow> u64 list \<Rightarrow> u64 list option" where
  "gdb_spec (Register p elf c n) xs =
     (if c = 0 \<or> n = 0 \<or> p = 0 then Some xs else if p \<in> set xs then None else Some (p # xs))"
| "gdb_spec (Unregister e) xs = (if e = 0 then Some xs else if e \<in> set xs then Some (remove1 e xs) else None)"

fun run_ops :: "('o \<Rightarrow> 's \<Rightarrow> 's option) \<Rightarrow> 'o list \<Rightarrow> 's \<Rightarrow> 's option" where
  "run_ops f [] s = Some s"
| "run_ops f (x # xs) s = (case f x s of None \<Rightarrow> None | Some s' \<Rightarrow> run_ops f xs s')"

locale simulation =
  fixes impl :: "'o \<Rightarrow> 's \<Rightarrow> 's option" and spec :: "'o \<Rightarrow> 'a \<Rightarrow> 'a option" and rel :: "'s \<Rightarrow> 'a \<Rightarrow> bool"
  assumes sim_step: "rel s a \<Longrightarrow> spec x a = Some a' \<Longrightarrow> \<exists>s'. impl x s = Some s' \<and> rel s' a'"
begin

lemma sim_run: "rel s a \<Longrightarrow> run_ops spec xs a = Some a' \<Longrightarrow> \<exists>s'. run_ops impl xs s = Some s' \<and> rel s' a'"
proof (induction xs arbitrary: s a)
  case (Cons x xs)
  then obtain b where b: "spec x a = Some b" "run_ops spec xs b = Some a'"
    by (auto split: option.splits)
  then show ?case
    using sim_step [OF Cons.prems(1) b(1)] Cons.IH by fastforce
qed simp

end

lemma dseg_cong: "(\<And>x. x \<in> set xs \<Longrightarrow> h x = h' x) \<Longrightarrow> dseg h prev p xs q = dseg h' prev p xs q"
  by (induction h prev p xs q rule: dseg.induct) auto

lemma dseg_upd: "y \<notin> set xs \<Longrightarrow> dseg (h(y := v)) prev p xs q = dseg h prev p xs q"
  by (rule dseg_cong) auto

lemma dseg_append:
  "dseg h prev p (xs @ ys) q \<longleftrightarrow> (\<exists>r. dseg h prev p xs r \<and> dseg h (last (prev # xs)) r ys q)"
  by (induction h prev p xs q rule: dseg.induct) (auto split: if_splits)

lemma dseg_pos: "dseg h prev p xs q \<Longrightarrow> 0 \<notin> set xs"
  by (induction h prev p xs q rule: dseg.induct) auto

lemma dseg_set_next:
  assumes "dseg h prev p (xs @ [a]) q" "a \<notin> set xs" "h a = Some e"
  shows "dseg (h(a \<mapsto> e\<lparr>next_entry := q'\<rparr>)) prev p (xs @ [a]) q'"
  using assms by (auto simp: dseg_append dseg_upd)

lemma dseg_set_prev:
  assumes "dseg h prev p (b # ys) q" "b \<notin> set ys" "h b = Some e"
  shows "dseg (h(b \<mapsto> e\<lparr>prev_entry := prev'\<rparr>)) prev' p (b # ys) q"
  using assms by (auto simp: dseg_upd)

lemma register_sim:
  assumes l: "listed s xs" and g: "gdb_spec (Register p elf c n) xs = Some xs'"
  shows "\<exists>s'. gdb_exec (Register p elf c n) s = Some s' \<and> listed s' xs'"
proof (cases "c = 0 \<or> n = 0 \<or> p = 0")
  case True
  then show ?thesis
    using l g by (auto simp: register_jit_code_def)
next
  case False
  then have p: "p \<notin> set xs" "xs' = p # xs" "p \<noteq> 0"
    using g by (auto split: if_splits)
  let ?h = "jit_store s" and ?f = "first_entry (jit_debug_descriptor s)"
  let ?e = "\<lparr>next_entry = ?f, prev_entry = 0, symfile_addr = fst elf, symfile_size = snd elf\<rparr>"
  show ?thesis
  proof (cases xs)
    case Nil
    then show ?thesis
      using l p False by (auto simp: register_jit_code_def listed_def describe_def Let_def)
  next
    case (Cons x ys)
    then obtain e where e: "?f = x" "x \<noteq> 0" "?h x = Some e" "dseg ?h x (next_entry e) ys 0" "x \<notin> set ys" "x \<noteq> p" "p \<notin> set ys"
      using l p by (auto simp: listed_def)
    then show ?thesis
      using l p False Cons
      by (auto simp: register_jit_code_def listed_def describe_def modify_def Let_def dseg_upd)
  qed
qed


lemma unlink_before:
  assumes "dseg h 0 p xs q" "distinct xs"
  shows "\<exists>h1. (if last (0 # xs) \<noteq> 0 then modify (last (0 # xs)) (\<lambda>x. x\<lparr>next_entry := q'\<rparr>) h else Some h) = Some h1
     \<and> dseg h1 0 (if last (0 # xs) \<noteq> 0 then p else q') xs q'
     \<and> (\<forall>y. y \<notin> set xs \<longrightarrow> h1 y = h y) \<and> dom h1 = dom h"
proof (cases xs rule: rev_cases)
  case Nil
  then show ?thesis
    by simp
next
  case (snoc ys a)
  then obtain e where e: "h a = Some e" "a \<noteq> 0"
    using assms(1) by (auto simp: dseg_append)
  then show ?thesis
    using dseg_set_next [of h 0 p ys a q e q'] assms snoc by (auto simp: modify_def)
qed

lemma unlink_after:
  assumes "dseg h x p ys 0" "distinct ys"
  shows "\<exists>h2. (if p \<noteq> 0 then modify p (\<lambda>x. x\<lparr>prev_entry := r\<rparr>) h else Some h) = Some h2
     \<and> dseg h2 r p ys 0 \<and> (\<forall>y. y \<notin> set ys \<longrightarrow> h2 y = h y) \<and> dom h2 = dom h"
proof (cases ys)
  case Nil
  then show ?thesis
    using assms by simp
next
  case (Cons b zs)
  then obtain e where e: "h b = Some e" "b \<noteq> 0" "p = b"
    using assms(1) by auto
  then show ?thesis
    using dseg_set_prev [of h x p b zs 0 e r] assms Cons by (auto simp: modify_def)
qed

lemma unregister_sim:
  assumes l: "listed s xs" and g: "gdb_spec (Unregister x) xs = Some xs'"
  shows "\<exists>s'. gdb_exec (Unregister x) s = Some s' \<and> listed s' xs'"
proof (cases "x = 0")
  case True
  then show ?thesis
    using l g by (simp add: unregister_jit_code_def)
next
  case False
  then have "x \<in> set xs" and xs': "xs' = remove1 x xs"
    using g by (auto split: if_splits)
  then obtain as bs where xs: "xs = as @ x # bs"
    by (auto dest: split_list)
  let ?h = "jit_store s" and ?f = "first_entry (jit_debug_descriptor s)"
  have d: "distinct as" "distinct bs" "x \<notin> set as" "x \<notin> set bs" "set as \<inter> set bs = {}" "dom ?h = insert x (set as \<union> set bs)"
    using l by (auto simp: listed_def xs)
  obtain e where e: "?h x = Some e" "prev_entry e = last (0 # as)" "dseg ?h 0 ?f as x" "dseg ?h x (next_entry e) bs 0"
    using l by (auto simp: listed_def xs dseg_append)
  let ?p = "last (0 # as)" and ?n = "next_entry e"
  obtain h1 where h1: "(if ?p \<noteq> 0 then modify ?p (\<lambda>y. y\<lparr>next_entry := ?n\<rparr>) ?h else Some ?h) = Some h1"
    "dseg h1 0 (if ?p \<noteq> 0 then ?f else ?n) as ?n" "\<And>y. y \<notin> set as \<Longrightarrow> h1 y = ?h y" "dom h1 = dom ?h"
    using unlink_before [OF e(3) d(1), of ?n] by blast
  have b: "dseg h1 x ?n bs 0" "h1 x = Some e"
    using e(1,4) h1(3) d(3,5) dseg_cong [of bs h1 ?h x ?n 0] by auto
  obtain h2 where h2: "(if ?n \<noteq> 0 then modify ?n (\<lambda>y. y\<lparr>prev_entry := ?p\<rparr>) h1 else Some h1) = Some h2"
    "dseg h2 ?p ?n bs 0" "\<And>y. y \<notin> set bs \<Longrightarrow> h2 y = h1 y" "dom h2 = dom h1"
    using unlink_after [OF b(1) d(2), of ?p] by blast
  have "dseg h2 0 (if ?p \<noteq> 0 then ?f else ?n) as ?n"
    using h1(2) h2(3) d(5) dseg_cong [of as h2 h1 0 _ ?n] by blast
  then have "dseg h2 0 (if ?p \<noteq> 0 then ?f else ?n) (as @ bs) 0"
    using h2(2) by (auto simp: dseg_append)
  then have seg: "dseg (h2(x := None)) 0 (if ?p \<noteq> 0 then ?f else ?n) (as @ bs) 0"
    using d(3,4) by (simp add: dseg_upd)
  let ?s = "s\<lparr>jit_debug_descriptor := describe JIT_UNREGISTER_FN x (if ?p \<noteq> 0 then ?f else ?n) (jit_debug_descriptor s),
              jit_store := h2(x := None), symfiles := symfiles s - {symfile_addr e}\<rparr>"
  have "unregister_jit_code x s = Some ?s"
    unfolding unregister_jit_code_def Let_def e(2) using False
    by (simp only: if_False e(1) option.case e(2) h1(1) b(2) option.sel h2(1))
  moreover have "listed ?s (as @ bs)"
    using d h1(4) h2(4) seg by (auto simp: listed_def describe_def)
  ultimately show ?thesis
    using d(3) by (simp add: xs' xs remove1_append)
qed

interpretation gdb: simulation gdb_exec gdb_spec listed
proof
  fix s a x a'
  show "listed s a \<Longrightarrow> gdb_spec x a = Some a' \<Longrightarrow> \<exists>s'. gdb_exec x s = Some s' \<and> listed s' a'"
    by (cases x) (metis register_sim, metis unregister_sim)
qed

text \<open>
  Claim C24. Registering entries at fresh addresses and unregistering listed ones, in any order,
  never follows a null or freed pointer, and the descriptor then heads a doubly linked list of
  exactly the entries that are registered and not yet unregistered, newest first, each with the
  right successor and predecessor; nothing else stays allocated.
\<close>

theorem gdb_list_refines:
  assumes "run_ops gdb_spec ops [] = Some xs"
  shows "\<exists>s. run_ops gdb_exec ops new_gdb = Some s \<and> distinct xs \<and> dom (jit_store s) = set xs
    \<and> dseg (jit_store s) 0 (first_entry (jit_debug_descriptor s)) xs 0"
proof -
  have "listed new_gdb []"
    by (simp add: listed_def new_gdb_def)
  from gdb.sim_run [OF this assms] show ?thesis
    by (auto simp: listed_def)
qed

theorem gdb_list_refines_witness:
  "\<exists>s. run_ops gdb_exec [Register 8 (80, 1) 1 1, Register 16 (90, 1) 1 1, Register 24 (100, 1) 1 1, Unregister 16] new_gdb = Some s
    \<and> dseg (jit_store s) 0 (first_entry (jit_debug_descriptor s)) [24, 8] 0"
  using gdb_list_refines [of "[Register 8 (80, 1) 1 1, Register 16 (90, 1) 1 1, Register 24 (100, 1) 1 1, Unregister 16]" "[24, 8]"]
  by (simp add: numeral_eq_iff) blast

end
