(* ===== verification/Elf.thy ===== *)
theory Elf
  imports Prelude
begin

text \<open>
  The object file emitter (\<open>src/src/backend/elf_emitter.cpp\<close>): growing byte buffers, symbols,
  relocations, and the two writers, of files and of images in memory. Sizes are naturals;
  fields of the file format keep their width. \<open>grants\<close> says which mapping sizes the
  kernel grants; allocation of the emitter's own objects is taken to succeed; a written file
  is the concatenation of the blocks passed to \<open>raw_write\<close>.
\<close>

definition le16 :: "u16 \<Rightarrow> bytes" where
  "le16 w = nbytes 2 w"

definition cstring :: "string \<Rightarrow> bytes" where
  "cstring s = map of_char s @ [0]"

section \<open>Byte buffers\<close>

record SimpleByteBuffer =
  sb_data :: bytes
  sb_capacity :: nat

definition new_buffer :: "(nat \<Rightarrow> bool) \<Rightarrow> SimpleByteBuffer" where
  "new_buffer grants = \<lparr>sb_data = [], sb_capacity = (if grants 65536 then 65536 else 0)\<rparr>"

function double_until :: "nat \<Rightarrow> nat \<Rightarrow> nat" where
  "double_until need c = (if c = 0 \<or> need \<le> c then c else double_until need (2 * c))"
  by pat_completeness auto
termination
  by (relation "measure (\<lambda>(need, c). need - c)") auto

definition buf_write :: "(nat \<Rightarrow> bool) \<Rightarrow> bytes \<Rightarrow> SimpleByteBuffer \<Rightarrow> SimpleByteBuffer" where
  "buf_write grants bs b =
     (if bs = [] then b
      else if length (sb_data b) + length bs > sb_capacity b then
        (let new_cap = double_until (length (sb_data b) + length bs)
                         (if sb_capacity b = 0 then 4096 else 2 * sb_capacity b) in
         if grants new_cap then b\<lparr>sb_data := sb_data b @ bs, sb_capacity := new_cap\<rparr> else b)
      else b\<lparr>sb_data := sb_data b @ bs\<rparr>)"

definition buf_size :: "SimpleByteBuffer \<Rightarrow> nat" where
  "buf_size b = length (sb_data b)"

text \<open>A null string is written as the empty one.\<close>

definition buf_write_string :: "(nat \<Rightarrow> bool) \<Rightarrow> string option \<Rightarrow> SimpleByteBuffer \<Rightarrow> u32 \<times> SimpleByteBuffer" where
  "buf_write_string grants str b =
     (of_nat (buf_size b),
      (case str of None \<Rightarrow> buf_write grants [0] b
       | Some s \<Rightarrow> buf_write grants [0] (buf_write grants (map of_char s) b)))"

section \<open>Format\<close>

record Elf64Sym =
  st_name :: u32
  st_info :: u8
  st_other :: u8
  st_shndx :: u16
  st_value :: u64
  st_size :: u64

definition sym64_bytes :: "Elf64Sym \<Rightarrow> bytes" where
  "sym64_bytes s = le32 (st_name s) @ [st_info s, st_other s] @ le16 (st_shndx s) @ le64 (st_value s) @ le64 (st_size s)"

text \<open>The 32-bit entry has the same fields in another order and width.\<close>

definition sym32_bytes :: "u32 \<Rightarrow> u32 \<Rightarrow> u32 \<Rightarrow> u8 \<Rightarrow> u16 \<Rightarrow> bytes" where
  "sym32_bytes nm value sz info shndx = le32 nm @ le32 value @ le32 sz @ [info, 0] @ le16 shndx"

definition rela64_bytes :: "u64 \<Rightarrow> u64 \<Rightarrow> u64 \<Rightarrow> bytes" where
  "rela64_bytes off info addend = le64 off @ le64 info @ le64 addend"

definition rela32_bytes :: "u32 \<Rightarrow> u32 \<Rightarrow> u32 \<Rightarrow> bytes" where
  "rela32_bytes off info addend = le32 off @ le32 info @ le32 addend"

record Shdr =
  sh_name :: nat
  sh_type :: nat
  sh_flags :: nat
  sh_addr :: nat
  sh_offset :: nat
  sh_size :: nat
  sh_link :: nat
  sh_info :: nat
  sh_addralign :: nat
  sh_entsize :: nat

definition null_shdr :: Shdr where
  "null_shdr = \<lparr>sh_name = 0, sh_type = 0, sh_flags = 0, sh_addr = 0, sh_offset = 0, sh_size = 0, sh_link = 0,
     sh_info = 0, sh_addralign = 0, sh_entsize = 0\<rparr>"

definition shdr64_bytes :: "Shdr \<Rightarrow> bytes" where
  "shdr64_bytes h = le32 (of_nat (sh_name h)) @ le32 (of_nat (sh_type h)) @ le64 (of_nat (sh_flags h))
     @ le64 (of_nat (sh_addr h)) @ le64 (of_nat (sh_offset h)) @ le64 (of_nat (sh_size h))
     @ le32 (of_nat (sh_link h)) @ le32 (of_nat (sh_info h)) @ le64 (of_nat (sh_addralign h)) @ le64 (of_nat (sh_entsize h))"

definition shdr32_bytes :: "Shdr \<Rightarrow> bytes" where
  "shdr32_bytes h = le32 (of_nat (sh_name h)) @ le32 (of_nat (sh_type h)) @ le32 (of_nat (sh_flags h))
     @ le32 (of_nat (sh_addr h)) @ le32 (of_nat (sh_offset h)) @ le32 (of_nat (sh_size h))
     @ le32 (of_nat (sh_link h)) @ le32 (of_nat (sh_info h)) @ le32 (of_nat (sh_addralign h)) @ le32 (of_nat (sh_entsize h))"

definition elf_ident :: "u8 \<Rightarrow> bytes" where
  "elf_ident cls = [0x7F, 0x45, 0x4C, 0x46, cls, 1, 1, 0] @ replicate 8 0"

definition ehdr64_bytes :: "u16 \<Rightarrow> nat \<Rightarrow> nat \<Rightarrow> nat \<Rightarrow> bytes" where
  "ehdr64_bytes machine shoff shnum shstrndx =
     elf_ident 2 @ le16 1 @ le16 machine @ le32 1 @ le64 0 @ le64 0 @ le64 (of_nat shoff) @ le32 0
       @ le16 64 @ le16 0 @ le16 0 @ le16 64 @ le16 (of_nat shnum) @ le16 (of_nat shstrndx)"

definition ehdr32_bytes :: "u16 \<Rightarrow> bool \<Rightarrow> u32 \<Rightarrow> nat \<Rightarrow> nat \<Rightarrow> nat \<Rightarrow> bytes" where
  "ehdr32_bytes machine has_phdr entry shoff shnum shstrndx =
     elf_ident 1 @ le16 (if has_phdr then 2 else 1) @ le16 machine @ le32 1 @ le32 entry
       @ le32 (if has_phdr then 52 else 0) @ le32 (of_nat shoff) @ le32 0
       @ le16 52 @ le16 32 @ le16 (if has_phdr then 1 else 0) @ le16 40 @ le16 (of_nat shnum) @ le16 (of_nat shstrndx)"

definition phdr32_bytes :: "u32 \<Rightarrow> nat \<Rightarrow> nat \<Rightarrow> bytes" where
  "phdr32_bytes base off sz = le32 1 @ le32 (of_nat off) @ le32 base @ le32 base @ le32 (of_nat sz) @ le32 (of_nat sz)
     @ le32 7 @ le32 4"

definition EM_X86_64 :: u16 where "EM_X86_64 = 62"
definition EM_ARM :: u16 where "EM_ARM = 40"
definition EM_XTENSA :: u16 where "EM_XTENSA = 94"

section \<open>Emitter\<close>

record ElfEmitter =
  machine_arch :: u16
  text_section :: SimpleByteBuffer
  rodata_section :: SimpleByteBuffer
  strtab_section :: SimpleByteBuffer
  shstrtab_section :: SimpleByteBuffer
  symtab_section :: SimpleByteBuffer
  rela_section :: SimpleByteBuffer

definition is_32bit :: "ElfEmitter \<Rightarrow> bool" where
  "is_32bit e \<longleftrightarrow> machine_arch e = EM_XTENSA \<or> machine_arch e = EM_ARM"

definition base_addr :: "ElfEmitter \<Rightarrow> u32" where
  "base_addr e = (if machine_arch e = EM_XTENSA then 0x40370000 else 0)"

definition st_info_of :: "u8 \<Rightarrow> u8 \<Rightarrow> u8" where
  "st_info_of binding ty = push_bit 4 binding + (and ty 0xF)"

definition add_symbol :: "(nat \<Rightarrow> bool) \<Rightarrow> string option \<Rightarrow> u8 \<Rightarrow> u8 \<Rightarrow> u16 \<Rightarrow> u64 \<Rightarrow> u64 \<Rightarrow> ElfEmitter \<Rightarrow> u32 \<times> ElfEmitter" where
  "add_symbol grants nm binding ty shndx value sz e =
     (let (name_off, strtab) = buf_write_string grants nm (strtab_section e);
          symtab = symtab_section e; info = st_info_of binding ty in
      if is_32bit e
      then (of_nat (buf_size symtab div 16),
            e\<lparr>strtab_section := strtab,
              symtab_section := buf_write grants (sym32_bytes name_off (base_addr e + ucast value) (ucast sz) info shndx) symtab\<rparr>)
      else (of_nat (buf_size symtab div 24),
            e\<lparr>strtab_section := strtab,
              symtab_section := buf_write grants (sym64_bytes \<lparr>st_name = name_off, st_info = info, st_other = 0,
                st_shndx = shndx, st_value = value, st_size = sz\<rparr>) symtab\<rparr>))"

definition add_function_symbol :: "(nat \<Rightarrow> bool) \<Rightarrow> string option \<Rightarrow> u64 \<Rightarrow> u64 \<Rightarrow> bool \<Rightarrow> ElfEmitter \<Rightarrow> u32 \<times> ElfEmitter" where
  "add_function_symbol grants nm value sz is_global = add_symbol grants nm (if is_global then 1 else 0) 2 1 value sz"

definition new_emitter :: "(nat \<Rightarrow> bool) \<Rightarrow> ElfEmitter" where
  "new_emitter grants =
     (let b = new_buffer grants;
          e = \<lparr>machine_arch = EM_X86_64, text_section = b, rodata_section = b, strtab_section = buf_write grants [0] b,
               shstrtab_section = buf_write grants [0] b, symtab_section = buf_write grants (replicate 24 0) b,
               rela_section = b\<rparr> in
      snd (add_symbol grants (Some ''.rodata'') 0 3 2 0 0 (snd (add_symbol grants (Some ''.text'') 0 3 1 0 0 e))))"

definition set_machine_arch :: "u16 \<Rightarrow> ElfEmitter \<Rightarrow> ElfEmitter" where
  "set_machine_arch arch e = e\<lparr>machine_arch := arch\<rparr>"

definition add_relocation :: "(nat \<Rightarrow> bool) \<Rightarrow> u64 \<Rightarrow> u32 \<Rightarrow> u32 \<Rightarrow> u64 \<Rightarrow> ElfEmitter \<Rightarrow> ElfEmitter" where
  "add_relocation grants off symi ty addend e =
     e\<lparr>rela_section := buf_write grants
        (if is_32bit e
         then rela32_bytes (ucast off) (push_bit 8 symi + (and ty 0xFF)) (ucast addend)
         else rela64_bytes off (push_bit 32 (ucast symi) + ucast ty) addend) (rela_section e)\<rparr>"

definition append_text :: "(nat \<Rightarrow> bool) \<Rightarrow> bytes \<Rightarrow> ElfEmitter \<Rightarrow> ElfEmitter" where
  "append_text grants bs e = e\<lparr>text_section := buf_write grants bs (text_section e)\<rparr>"

definition append_rodata :: "(nat \<Rightarrow> bool) \<Rightarrow> bytes \<Rightarrow> ElfEmitter \<Rightarrow> u64 \<times> ElfEmitter" where
  "append_rodata grants bs e =
     (if bs = [] then (0, e)
      else (of_nat (buf_size (rodata_section e)), e\<lparr>rodata_section := buf_write grants bs (rodata_section e)\<rparr>))"

section \<open>Writing an object file\<close>

text \<open>Names of the sections that are present, with the offsets they get in the table of section names.\<close>

record SectionNames =
  name_text :: u32
  name_rodata :: u32
  name_shstrtab :: u32
  name_strtab :: u32
  name_symtab :: u32
  name_rela_text :: u32

definition write_names :: "(nat \<Rightarrow> bool) \<Rightarrow> bool \<Rightarrow> bool \<Rightarrow> SimpleByteBuffer \<Rightarrow> SectionNames \<times> SimpleByteBuffer" where
  "write_names grants has_rodata has_rela b0 =
     (let (nt, b1) = buf_write_string grants (Some ''.text'') b0;
          (nr, b2) = (if has_rodata then buf_write_string grants (Some ''.rodata'') b1 else (0, b1));
          (nh, b3) = buf_write_string grants (Some ''.shstrtab'') b2;
          (ns, b4) = buf_write_string grants (Some ''.strtab'') b3;
          (ny, b5) = buf_write_string grants (Some ''.symtab'') b4;
          (na, b6) = (if has_rela then buf_write_string grants (Some ''.rela.text'') b5 else (0, b5)) in
      (\<lparr>name_text = nt, name_rodata = nr, name_shstrtab = nh, name_strtab = ns, name_symtab = ny, name_rela_text = na\<rparr>, b6))"

definition has_rodata :: "ElfEmitter \<Rightarrow> bool" where
  "has_rodata e \<longleftrightarrow> buf_size (rodata_section e) > 0"

definition has_rela :: "ElfEmitter \<Rightarrow> bool" where
  "has_rela e \<longleftrightarrow> buf_size (rela_section e) > 0"

definition opt_size :: "bool \<Rightarrow> SimpleByteBuffer \<Rightarrow> nat" where
  "opt_size c b = (if c then buf_size b else 0)"

definition num_sections :: "ElfEmitter \<Rightarrow> nat" where
  "num_sections e = 5 + (if has_rodata e then 1 else 0) + (if has_rela e then 1 else 0)"

text \<open>
  The section headers, for both classes: \<open>hdr\<close> is the size of the headers before the text,
  \<open>al\<close> the alignments of text and of the tables and \<open>es\<close> the sizes of symbols and relocations.
\<close>

definition section_headers :: "nat \<Rightarrow> nat \<Rightarrow> nat \<Rightarrow> nat \<Rightarrow> nat \<Rightarrow> nat \<Rightarrow> SectionNames \<Rightarrow> ElfEmitter \<Rightarrow> Shdr list" where
  "section_headers hdr base text_al al sym_sz rela_sz nm e =
     (let ro = has_rodata e; re = has_rela e; k = (if ro then 1 else 0);
          text_offset = hdr;
          rodata_offset = text_offset + buf_size (text_section e);
          shstrtab_offset = rodata_offset + opt_size ro (rodata_section e);
          strtab_offset = shstrtab_offset + buf_size (shstrtab_section e);
          symtab_offset = strtab_offset + buf_size (strtab_section e);
          rela_offset = symtab_offset + buf_size (symtab_section e) in
      [null_shdr,
       null_shdr\<lparr>sh_name := unat (name_text nm), sh_type := 1, sh_flags := 6, sh_addr := base, sh_offset := text_offset,
                 sh_size := buf_size (text_section e), sh_addralign := text_al\<rparr>]
      @ (if ro then [null_shdr\<lparr>sh_name := unat (name_rodata nm), sh_type := 1, sh_flags := 2, sh_offset := rodata_offset,
                               sh_size := buf_size (rodata_section e), sh_addralign := al\<rparr>] else [])
      @ [null_shdr\<lparr>sh_name := unat (name_shstrtab nm), sh_type := 3, sh_offset := shstrtab_offset,
                   sh_size := buf_size (shstrtab_section e), sh_addralign := 1\<rparr>,
         null_shdr\<lparr>sh_name := unat (name_strtab nm), sh_type := 3, sh_offset := strtab_offset,
                   sh_size := buf_size (strtab_section e), sh_addralign := 1\<rparr>,
         null_shdr\<lparr>sh_name := unat (name_symtab nm), sh_type := 2, sh_offset := symtab_offset,
                   sh_size := buf_size (symtab_section e), sh_link := k + 3, sh_info := 3, sh_addralign := al,
                   sh_entsize := sym_sz\<rparr>]
      @ (if re then [null_shdr\<lparr>sh_name := unat (name_rela_text nm), sh_type := 4, sh_offset := rela_offset,
                               sh_size := buf_size (rela_section e), sh_link := k + 4, sh_info := 1, sh_addralign := al,
                               sh_entsize := rela_sz\<rparr>] else []))"

definition table_offset :: "nat \<Rightarrow> nat \<Rightarrow> ElfEmitter \<Rightarrow> nat" where
  "table_offset al hdr e =
     align_up al (hdr + buf_size (text_section e) + opt_size (has_rodata e) (rodata_section e) + buf_size (shstrtab_section e)
       + buf_size (strtab_section e) + buf_size (symtab_section e) + opt_size (has_rela e) (rela_section e))"

text \<open>The payload up to the table of section headers; the 64-bit writer leaves out the read-only data.\<close>

definition payload :: "bool \<Rightarrow> ElfEmitter \<Rightarrow> bytes" where
  "payload with_rodata e =
     sb_data (text_section e) @ (if with_rodata \<and> has_rodata e then sb_data (rodata_section e) else [])
       @ sb_data (shstrtab_section e) @ sb_data (strtab_section e) @ sb_data (symtab_section e)
       @ (if has_rela e then sb_data (rela_section e) else [])"

definition pad_to :: "nat \<Rightarrow> bytes \<Rightarrow> bytes" where
  "pad_to n bs = bs @ replicate (n - length bs) 0"

definition file32 :: "SectionNames \<Rightarrow> ElfEmitter \<Rightarrow> bytes" where
  "file32 nm e =
     (let has_phdr = (machine_arch e = EM_XTENSA); hdr = 52 + (if has_phdr then 32 else 0); shoff = table_offset 4 hdr e in
      pad_to shoff (ehdr32_bytes (machine_arch e) has_phdr (base_addr e) shoff (num_sections e) (if has_rodata e then 3 else 2)
        @ (if has_phdr then phdr32_bytes (base_addr e) hdr (buf_size (text_section e)) else [])
        @ payload True e)
      @ concat (map shdr32_bytes (section_headers hdr (unat (base_addr e)) 4 4 16 12 nm e)))"

definition file64 :: "SectionNames \<Rightarrow> ElfEmitter \<Rightarrow> bytes" where
  "file64 nm e =
     (let shoff = table_offset 8 64 e in
      pad_to shoff (ehdr64_bytes (machine_arch e) shoff (num_sections e) (if has_rodata e then 3 else 2) @ payload False e)
      @ concat (map shdr64_bytes (section_headers 64 0 16 8 24 24 nm e)))"

text \<open>\<open>opens\<close> is whether the file can be opened; a missing name or a failure writes no file.\<close>

definition write_elf_object :: "(nat \<Rightarrow> bool) \<Rightarrow> bool \<Rightarrow> string option \<Rightarrow> bytes \<Rightarrow> ElfEmitter \<Rightarrow> bytes option \<times> ElfEmitter" where
  "write_elf_object grants opens filename code e0 =
     (if filename = None then (None, e0)
      else
        (let e1 = e0\<lparr>text_section := buf_write grants code (text_section e0)\<rparr>;
             (nm, shstrtab) = write_names grants (has_rodata e1) (has_rela e1) (shstrtab_section e1);
             e = e1\<lparr>shstrtab_section := shstrtab\<rparr> in
         (if opens then Some (if is_32bit e then file32 nm e else file64 nm e) else None, e)))"


section \<open>Images in memory\<close>

text \<open>
  \<open>finalize\<close> names both optional sections and counts them, but copies neither and fills in
  five headers only: the image is zero where they would be. \<open>allocs\<close> is whether the buffer of
  the image can be allocated.
\<close>

definition finalize_headers :: "SectionNames \<Rightarrow> ElfEmitter \<Rightarrow> Shdr list" where
  "finalize_headers nm e =
     (let shstrtab_offset = 64 + buf_size (text_section e) + opt_size (has_rodata e) (rodata_section e);
          strtab_offset = shstrtab_offset + buf_size (shstrtab_section e);
          symtab_offset = strtab_offset + buf_size (strtab_section e) in
      [null_shdr,
       null_shdr\<lparr>sh_name := unat (name_text nm), sh_type := 1, sh_flags := 6, sh_offset := 64,
                 sh_size := buf_size (text_section e), sh_addralign := 16\<rparr>,
       null_shdr\<lparr>sh_name := unat (name_shstrtab nm), sh_type := 3, sh_offset := shstrtab_offset,
                 sh_size := buf_size (shstrtab_section e), sh_addralign := 1\<rparr>,
       null_shdr\<lparr>sh_name := unat (name_strtab nm), sh_type := 3, sh_offset := strtab_offset,
                 sh_size := buf_size (strtab_section e), sh_addralign := 1\<rparr>,
       null_shdr\<lparr>sh_name := unat (name_symtab nm), sh_type := 2, sh_offset := symtab_offset,
                 sh_size := buf_size (symtab_section e), sh_link := 3, sh_info := 1, sh_addralign := 8, sh_entsize := 24\<rparr>]
      @ replicate (num_sections e - 5) null_shdr)"

definition finalize_image :: "SectionNames \<Rightarrow> ElfEmitter \<Rightarrow> bytes" where
  "finalize_image nm e =
     (let shoff = table_offset 8 64 e in
      pad_to shoff (ehdr64_bytes (machine_arch e) shoff (num_sections e) 2
        @ sb_data (text_section e) @ sb_data (shstrtab_section e) @ sb_data (strtab_section e) @ sb_data (symtab_section e))
      @ concat (map shdr64_bytes (finalize_headers nm e)))"

definition finalize :: "(nat \<Rightarrow> bool) \<Rightarrow> (nat \<Rightarrow> bool) \<Rightarrow> ElfEmitter \<Rightarrow> (nat \<times> bytes) option \<times> ElfEmitter" where
  "finalize grants allocs e0 =
     (let (nm, shstrtab) = write_names grants True (has_rela e0) (shstrtab_section e0);
          e = e0\<lparr>shstrtab_section := shstrtab\<rparr>;
          total_elf_size = table_offset 8 64 e + 64 * num_sections e in
      (if allocs total_elf_size then Some (total_elf_size, finalize_image nm e) else None, e))"

section \<open>Buffers only grow\<close>

lemma unat_fits: "n < 2 ^ 32 \<Longrightarrow> unat (of_nat n :: u32) = n"
  by (simp add: unsigned_of_nat take_bit_nat_eq_self)

lemma buf_write_data: "(\<And>n. grants n) \<Longrightarrow> sb_data (buf_write grants bs b) = sb_data b @ bs"
  by (simp add: buf_write_def Let_def del: double_until.simps)

lemma buf_write_string_data:
  "(\<And>n. grants n) \<Longrightarrow> sb_data (snd (buf_write_string grants (Some s) b)) = sb_data b @ cstring s"
  by (simp add: buf_write_string_def buf_write_data cstring_def)

lemma double_until_ge: "0 < c \<Longrightarrow> need \<le> double_until need c"
  by (induction need c rule: double_until.induct) (subst double_until.simps, auto simp del: double_until.simps)

lemma buf_write_fits:
  "length (sb_data b) \<le> sb_capacity b \<Longrightarrow> length (sb_data (buf_write grants bs b)) \<le> sb_capacity (buf_write grants bs b)"
  using double_until_ge [of "if sb_capacity b = 0 then 4096 else 2 * sb_capacity b" "length (sb_data b) + length bs"]
  by (auto simp: buf_write_def Let_def simp del: double_until.simps)

section \<open>A reader\<close>

text \<open>
  Reading a file back, from the specification of the format: the little-endian number of
  \<open>n\<close> bytes at an offset, and the content of a section through its header.
\<close>

definition rd32 :: "nat \<Rightarrow> bytes \<Rightarrow> nat" where
  "rd32 off bs = unat (of_nbytes 4 (drop off bs) :: u32)"

definition rd64 :: "nat \<Rightarrow> bytes \<Rightarrow> nat" where
  "rd64 off bs = unat (of_nbytes 8 (drop off bs) :: u64)"

definition sec64 :: "bytes \<Rightarrow> nat \<Rightarrow> bytes" where
  "sec64 f k = (let h = rd64 40 f + 64 * k in take (rd64 (h + 32) f) (drop (rd64 (h + 24) f) f))"

definition sec32 :: "bytes \<Rightarrow> nat \<Rightarrow> bytes" where
  "sec32 f k = (let h = rd32 32 f + 40 * k in take (rd32 (h + 20) f) (drop (rd32 (h + 16) f) f))"

definition sec_name64 :: "bytes \<Rightarrow> nat \<Rightarrow> nat" where
  "sec_name64 f k = rd32 (rd64 40 f + 64 * k) f"

definition sec_name32 :: "bytes \<Rightarrow> nat \<Rightarrow> nat" where
  "sec_name32 f k = rd32 (rd32 32 f + 40 * k) f"

definition name_in :: "bytes \<Rightarrow> nat \<Rightarrow> string \<Rightarrow> bool" where
  "name_in tab off s \<longleftrightarrow> take (length s + 1) (drop off tab) = cstring s"

lemma rd64_le64: "n < 2 ^ 64 \<Longrightarrow> drop off bs = le64 (of_nat n) @ r \<Longrightarrow> rd64 off bs = n"
  by (simp add: rd64_def unat_of_nat)

lemma rd32_le32: "n < 2 ^ 32 \<Longrightarrow> drop off bs = le32 (of_nat n) @ r \<Longrightarrow> rd32 off bs = n"
  by (simp add: rd32_def unat_of_nat)

lemma slice_concat:
  assumes "k < length cs"
  shows "take (length (cs ! k)) (drop (length h + sum_list (map length (take k cs))) (h @ concat cs @ r)) = cs ! k"
proof -
  have "concat cs = concat (take k cs) @ cs ! k @ concat (drop (Suc k) cs)"
    using id_take_nth_drop [OF assms] by (metis append_Cons append_Nil concat.simps(2) concat_append)
  then show ?thesis
    by (simp add: length_concat take_map)
qed

lemma drop_headers:
  assumes "\<And>x. length (f x) = n" "k < length hs"
  shows "drop (length p + n * k) (p @ concat (map f hs)) = f (hs ! k) @ concat (map f (drop (Suc k) hs))"
proof -
  have "concat (map f hs) = concat (map f (take k hs)) @ f (hs ! k) @ concat (map f (drop (Suc k) hs))"
    using id_take_nth_drop [OF assms(2)] by (metis append_Cons append_Nil concat.simps(2) concat_append list.simps(9) map_append)
  moreover have "length (concat (map f (take k hs))) = n * k"
    using assms by (simp add: length_concat comp_def sum_list_triv)
  ultimately show ?thesis
    by simp
qed

section \<open>The headers describe the sections\<close>

definition section_contents :: "ElfEmitter \<Rightarrow> bytes list" where
  "section_contents e = [sb_data (text_section e)] @ (if has_rodata e then [sb_data (rodata_section e)] else [])
     @ [sb_data (shstrtab_section e), sb_data (strtab_section e), sb_data (symtab_section e)]
     @ (if has_rela e then [sb_data (rela_section e)] else [])"

definition section_names :: "bool \<Rightarrow> bool \<Rightarrow> string list" where
  "section_names ro re = [''.text''] @ (if ro then [''.rodata''] else [])
     @ [''.shstrtab'', ''.strtab'', ''.symtab''] @ (if re then [''.rela.text''] else [])"

lemma payload_contents: "payload True e = concat (section_contents e)" "\<not> has_rodata e \<Longrightarrow> payload False e = concat (section_contents e)"
  by (simp_all add: payload_def section_contents_def)

lemma headers_spec:
  fixes hdr base tal al ss rs nm e
  defines "hs \<equiv> section_headers hdr base tal al ss rs nm e" and "cs \<equiv> section_contents e"
  shows "length hs = Suc (length cs)"
    and "k < length cs \<Longrightarrow> sh_offset (hs ! Suc k) = hdr + sum_list (map length (take k cs)) \<and> sh_size (hs ! Suc k) = length (cs ! k)"
proof -
  show "length hs = Suc (length cs)"
    by (simp add: hs_def cs_def section_headers_def section_contents_def Let_def)
  assume "k < length cs"
  then show "sh_offset (hs ! Suc k) = hdr + sum_list (map length (take k cs)) \<and> sh_size (hs ! Suc k) = length (cs ! k)"
    by (cases "has_rodata e"; cases "has_rela e")
      (auto simp: hs_def cs_def section_headers_def section_contents_def Let_def less_Suc_eq buf_size_def opt_size_def)
qed


lemma length_shdr64: "length (shdr64_bytes h) = 64"
  by (simp add: shdr64_bytes_def)

lemma length_shdr32: "length (shdr32_bytes h) = 40"
  by (simp add: shdr32_bytes_def)

lemma length_ehdr64: "length (ehdr64_bytes m a b c) = 64"
  by (simp add: ehdr64_bytes_def elf_ident_def le16_def)

lemma length_ehdr32: "length (ehdr32_bytes m p en a b c) = 52"
  by (simp add: ehdr32_bytes_def elf_ident_def le16_def)

lemma length_phdr32: "length (phdr32_bytes b off sz) = 32"
  by (simp add: phdr32_bytes_def)

lemma header64:
  assumes "k < length hs" "sh_offset (hs ! k) < 2 ^ 64" "sh_size (hs ! k) < 2 ^ 64" "sh_name (hs ! k) < 2 ^ 32"
  shows "rd64 (length p + 64 * k + 24) (p @ concat (map shdr64_bytes hs)) = sh_offset (hs ! k)"
    and "rd64 (length p + 64 * k + 32) (p @ concat (map shdr64_bytes hs)) = sh_size (hs ! k)"
    and "rd32 (length p + 64 * k) (p @ concat (map shdr64_bytes hs)) = sh_name (hs ! k)"
proof -
  have d: "drop (length p + 64 * k + j) (p @ concat (map shdr64_bytes hs)) =
      drop j (shdr64_bytes (hs ! k) @ concat (map shdr64_bytes (drop (Suc k) hs)))" for j
    using drop_headers [of shdr64_bytes 64 k hs p] assms(1)
    by (metis (no_types, lifting) add.commute drop_drop length_shdr64)
  show "rd64 (length p + 64 * k + 24) (p @ concat (map shdr64_bytes hs)) = sh_offset (hs ! k)"
    using assms(2) d [of 24] by (intro rd64_le64) (simp_all add: shdr64_bytes_def)
  show "rd64 (length p + 64 * k + 32) (p @ concat (map shdr64_bytes hs)) = sh_size (hs ! k)"
    using assms(3) d [of 32] by (intro rd64_le64) (simp_all add: shdr64_bytes_def)
  show "rd32 (length p + 64 * k) (p @ concat (map shdr64_bytes hs)) = sh_name (hs ! k)"
    using assms(4) d [of 0] by (intro rd32_le32) (simp_all add: shdr64_bytes_def)
qed

lemma header32:
  assumes "k < length hs" "sh_offset (hs ! k) < 2 ^ 32" "sh_size (hs ! k) < 2 ^ 32" "sh_name (hs ! k) < 2 ^ 32"
  shows "rd32 (length p + 40 * k + 16) (p @ concat (map shdr32_bytes hs)) = sh_offset (hs ! k)"
    and "rd32 (length p + 40 * k + 20) (p @ concat (map shdr32_bytes hs)) = sh_size (hs ! k)"
    and "rd32 (length p + 40 * k) (p @ concat (map shdr32_bytes hs)) = sh_name (hs ! k)"
proof -
  have d: "drop (length p + 40 * k + j) (p @ concat (map shdr32_bytes hs)) =
      drop j (shdr32_bytes (hs ! k) @ concat (map shdr32_bytes (drop (Suc k) hs)))" for j
    using drop_headers [of shdr32_bytes 40 k hs p] assms(1)
    by (metis (no_types, lifting) add.commute drop_drop length_shdr32)
  show "rd32 (length p + 40 * k + 16) (p @ concat (map shdr32_bytes hs)) = sh_offset (hs ! k)"
    using assms(2) d [of 16] by (intro rd32_le32) (simp_all add: shdr32_bytes_def)
  show "rd32 (length p + 40 * k + 20) (p @ concat (map shdr32_bytes hs)) = sh_size (hs ! k)"
    using assms(3) d [of 20] by (intro rd32_le32) (simp_all add: shdr32_bytes_def)
  show "rd32 (length p + 40 * k) (p @ concat (map shdr32_bytes hs)) = sh_name (hs ! k)"
    using assms(4) d [of 0] by (intro rd32_le32) (simp_all add: shdr32_bytes_def)
qed


lemma length_pad_to: "length bs \<le> n \<Longrightarrow> length (pad_to n bs) = n"
  by (simp add: pad_to_def)

lemma table_offset_contents: "0 < al \<Longrightarrow> hdr + length (concat (section_contents e)) \<le> table_offset al hdr e"
  using align_up_ge [of al "hdr + length (concat (section_contents e))"]
  by (cases "has_rodata e"; cases "has_rela e")
    (simp_all add: table_offset_def section_contents_def opt_size_def buf_size_def algebra_simps)

lemma write_names_data:
  assumes "\<And>n. grants n"
  shows "sb_data (snd (write_names grants ro re b)) = sb_data b @ concat (map cstring (section_names ro re))"
  using assms by (simp add: write_names_def Let_def split_beta section_names_def buf_write_string_data)

text \<open>The headers carry the positions of the names in the table.\<close>

lemma headers_names:
  assumes g: "\<And>n. grants n"
    and b: "length (sb_data b) + length (concat (map cstring (section_names (has_rodata e) (has_rela e)))) < 2 ^ 32"
    and nm: "nm = fst (write_names grants (has_rodata e) (has_rela e) b)"
    and k: "k < length (section_names (has_rodata e) (has_rela e))"
  shows "sh_name (section_headers hdr base tal al ss rs nm e ! Suc k) =
    length (sb_data b) + sum_list (map length (take k (map cstring (section_names (has_rodata e) (has_rela e)))))"
proof -
  have f: "unat (fst (buf_write_string grants (Some s) c)) = length (sb_data c) mod 4294967296" for s c
    by (simp add: buf_write_string_def buf_size_def unat_of_nat)
  show ?thesis
    using b k unfolding nm
    by (cases "has_rodata e"; cases "has_rela e")
      (auto simp: section_headers_def write_names_def Let_def split_beta section_names_def f buf_write_string_data g
        less_Suc_eq cstring_def)
qed


text \<open>
  What both writers produce: headers of \<open>hdr\<close> bytes, the contents, padding to the table of
  section headers, and the table.
\<close>

lemma file64_shape:
  assumes "\<not> has_rodata e"
  obtains z where
    "file64 nm e = (ehdr64_bytes (machine_arch e) (table_offset 8 64 e) (num_sections e) 2 @ concat (section_contents e) @ z)
       @ concat (map shdr64_bytes (section_headers 64 0 16 8 24 24 nm e))"
    "length (ehdr64_bytes (machine_arch e) (table_offset 8 64 e) (num_sections e) 2 @ concat (section_contents e) @ z)
       = table_offset 8 64 e"
  using that [OF _, of "replicate (table_offset 8 64 e - (64 + length (concat (section_contents e)))) 0"]
    table_offset_contents [of 8 64 e] assms
  by (auto simp: file64_def Let_def payload_contents pad_to_def length_ehdr64 simp del: length_concat)

definition hdr32 :: "ElfEmitter \<Rightarrow> bytes" where
  "hdr32 e = (let has_phdr = (machine_arch e = EM_XTENSA); hdr = 52 + (if has_phdr then 32 else 0) in
     ehdr32_bytes (machine_arch e) has_phdr (base_addr e) (table_offset 4 hdr e) (num_sections e) (if has_rodata e then 3 else 2)
       @ (if has_phdr then phdr32_bytes (base_addr e) hdr (buf_size (text_section e)) else []))"

lemma length_hdr32: "length (hdr32 e) = (if machine_arch e = EM_XTENSA then 84 else 52)"
  by (simp add: hdr32_def Let_def length_ehdr32 length_phdr32)

lemma file32_shape:
  obtains z where
    "file32 nm e = (hdr32 e @ concat (section_contents e) @ z)
       @ concat (map shdr32_bytes (section_headers (length (hdr32 e)) (unat (base_addr e)) 4 4 16 12 nm e))"
    "length (hdr32 e @ concat (section_contents e) @ z) = table_offset 4 (length (hdr32 e)) e"
  using that [OF _, of "replicate (table_offset 4 (length (hdr32 e)) e - (length (hdr32 e) + length (concat (section_contents e)))) 0"]
    table_offset_contents [of 4 "length (hdr32 e)" e]
  by (cases "machine_arch e = EM_XTENSA")
    (auto simp: file32_def Let_def payload_contents pad_to_def hdr32_def length_ehdr32 length_phdr32 simp del: length_concat)

lemma section_slice:
  assumes "k < length (section_contents e)"
  shows "take (sh_size (section_headers (length h) base tal al ss rs nm e ! Suc k))
      (drop (sh_offset (section_headers (length h) base tal al ss rs nm e ! Suc k)) (h @ concat (section_contents e) @ r))
    = section_contents e ! k"
  using slice_concat [OF assms, of h r] headers_spec(2) [OF assms, of "length h" base tal al ss rs nm] by simp

lemma section_in_contents:
  assumes "k < length (section_contents e)"
  shows "sh_offset (section_headers hdr base tal al ss rs nm e ! Suc k) + sh_size (section_headers hdr base tal al ss rs nm e ! Suc k)
    \<le> hdr + length (concat (section_contents e))"
proof -
  have "concat (section_contents e) = concat (take k (section_contents e)) @ section_contents e ! k
      @ concat (drop (Suc k) (section_contents e))"
    using id_take_nth_drop [OF assms] by (metis append_Cons append_Nil concat.simps(2) concat_append)
  then have "length (concat (section_contents e)) = sum_list (map length (take k (section_contents e)))
      + length (section_contents e ! k) + length (concat (drop (Suc k) (section_contents e)))"
    by (simp only: length_append length_concat add.assoc)
  then show ?thesis
    using headers_spec(2) [OF assms, of hdr base tal al ss rs nm] by linarith
qed

lemma length_section_names: "length (section_names (has_rodata e) (has_rela e)) = length (section_contents e)"
  by (simp add: section_names_def section_contents_def)

lemma file64_reads:
  assumes "\<not> has_rodata e" "length (file64 nm e) < 2 ^ 32" "k < length (section_contents e)"
    "sh_name (section_headers 64 0 16 8 24 24 nm e ! Suc k) < 2 ^ 32"
  shows "sec64 (file64 nm e) (Suc k) = section_contents e ! k"
    and "sec_name64 (file64 nm e) (Suc k) = sh_name (section_headers 64 0 16 8 24 24 nm e ! Suc k)"
proof -
  let ?hs = "section_headers 64 0 16 8 24 24 nm e" and ?h = "ehdr64_bytes (machine_arch e) (table_offset 8 64 e) (num_sections e) 2"
  obtain z where f: "file64 nm e = (?h @ concat (section_contents e) @ z) @ concat (map shdr64_bytes ?hs)"
    and l: "length (?h @ concat (section_contents e) @ z) = table_offset 8 64 e"
    using file64_shape [OF assms(1)] by blast
  have k: "Suc k < length ?hs"
    using assms(3) headers_spec(1) by simp
  have t: "table_offset 8 64 e < 2 ^ 32"
    using assms(2) l unfolding f by (simp only: length_append)
  have shoff: "rd64 40 (file64 nm e) = table_offset 8 64 e"
    using t by (intro rd64_le64) (simp_all add: f ehdr64_bytes_def elf_ident_def le16_def)
  have b: "sh_offset (?hs ! Suc k) < 2 ^ 64" "sh_size (?hs ! Suc k) < 2 ^ 64"
    using section_in_contents [OF assms(3), of 64 0 16 8 24 24 nm] table_offset_contents [of 8 64 e] t by simp_all
  note h = header64 [OF k b assms(4), of "?h @ concat (section_contents e) @ z", unfolded l, folded f]
  show "sec64 (file64 nm e) (Suc k) = section_contents e ! k"
    using section_slice [OF assms(3), of ?h 0 16 8 24 24 nm "z @ concat (map shdr64_bytes ?hs)"]
    by (simp only: sec64_def Let_def shoff h length_ehdr64) (simp only: f append_assoc)
  show "sec_name64 (file64 nm e) (Suc k) = sh_name (?hs ! Suc k)"
    by (simp only: sec_name64_def shoff h)
qed

lemma file32_reads:
  fixes nm e
  defines "hs \<equiv> section_headers (length (hdr32 e)) (unat (base_addr e)) 4 4 16 12 nm e"
  assumes "length (file32 nm e) < 2 ^ 32" "k < length (section_contents e)" "sh_name (hs ! Suc k) < 2 ^ 32"
  shows "sec32 (file32 nm e) (Suc k) = section_contents e ! k"
    and "sec_name32 (file32 nm e) (Suc k) = sh_name (hs ! Suc k)"
proof -
  let ?o = "table_offset 4 (length (hdr32 e)) e"
  obtain z where f: "file32 nm e = (hdr32 e @ concat (section_contents e) @ z) @ concat (map shdr32_bytes hs)"
    and l: "length (hdr32 e @ concat (section_contents e) @ z) = ?o"
    using file32_shape unfolding hs_def by blast
  have k: "Suc k < length hs"
    using assms(3) headers_spec(1) by (simp add: hs_def)
  have t: "?o < 2 ^ 32"
    using assms(2) l unfolding f by (simp only: length_append)
  have shoff: "rd32 32 (file32 nm e) = ?o"
    using t by (cases "machine_arch e = EM_XTENSA"; cases "has_rodata e")
      (simp_all add: rd32_def unat_of_nat f hdr32_def Let_def length_ehdr32 length_phdr32 ehdr32_bytes_def elf_ident_def le16_def)
  have b: "sh_offset (hs ! Suc k) < 2 ^ 32" "sh_size (hs ! Suc k) < 2 ^ 32"
    using section_in_contents [OF assms(3), of "length (hdr32 e)" "unat (base_addr e)" 4 4 16 12 nm]
      table_offset_contents [of 4 "length (hdr32 e)" e] t unfolding hs_def by linarith+
  note h = header32 [OF k b assms(4), of "hdr32 e @ concat (section_contents e) @ z", unfolded l, folded f]
  show "sec32 (file32 nm e) (Suc k) = section_contents e ! k"
    using section_slice [OF assms(3), of "hdr32 e" "unat (base_addr e)" 4 4 16 12 nm "z @ concat (map shdr32_bytes hs)", folded hs_def]
    by (simp only: sec32_def Let_def shoff h) (simp only: f append_assoc)
  show "sec_name32 (file32 nm e) (Suc k) = sh_name (hs ! Suc k)"
    by (simp only: sec_name32_def shoff h)
qed

text \<open>A reader of either class: the fifth byte of the file says which.\<close>

definition elf_section :: "bytes \<Rightarrow> nat \<Rightarrow> bytes" where
  "elf_section f k = (if f ! 4 = 1 then sec32 f k else sec64 f k)"

definition elf_section_name :: "bytes \<Rightarrow> nat \<Rightarrow> nat" where
  "elf_section_name f k = (if f ! 4 = 1 then sec_name32 f k else sec_name64 f k)"

definition elf_shstrndx :: "bytes \<Rightarrow> nat" where
  "elf_shstrndx f = unat (of_nbytes 2 (drop (if f ! 4 = 1 then 50 else 62) f) :: u16)"

lemma file_class: "file32 nm e ! 4 = 1" "file64 nm e ! 4 = 2"
  by (simp_all add: file32_def file64_def Let_def pad_to_def ehdr32_bytes_def ehdr64_bytes_def elf_ident_def nth_append)

lemma file_shstrndx: "elf_shstrndx (file32 nm e) = (if has_rodata e then 3 else 2)"
    "elf_shstrndx (file64 nm e) = (if has_rodata e then 3 else 2)"
  by (simp_all add: elf_shstrndx_def file_class)
    (simp_all add: file32_def file64_def Let_def pad_to_def ehdr32_bytes_def ehdr64_bytes_def elf_ident_def le16_def
      of_nbytes_nbytes take_bit_word_eq_self)


definition elf_file :: "SectionNames \<Rightarrow> ElfEmitter \<Rightarrow> bytes" where
  "elf_file nm e = (if is_32bit e then file32 nm e else file64 nm e)"

definition file_headers :: "SectionNames \<Rightarrow> ElfEmitter \<Rightarrow> Shdr list" where
  "file_headers nm e =
     (if is_32bit e then section_headers (length (hdr32 e)) (unat (base_addr e)) 4 4 16 12 nm e
      else section_headers 64 0 16 8 24 24 nm e)"

lemma elf_file_reads:
  assumes "is_32bit e \<or> \<not> has_rodata e" "length (elf_file nm e) < 2 ^ 32" "k < length (section_contents e)"
    "sh_name (file_headers nm e ! Suc k) < 2 ^ 32"
  shows "elf_section (elf_file nm e) (Suc k) = section_contents e ! k"
    and "elf_section_name (elf_file nm e) (Suc k) = sh_name (file_headers nm e ! Suc k)"
  using assms file32_reads [of nm e k] file64_reads [of e nm k]
  by (cases "is_32bit e"; simp add: elf_file_def file_headers_def elf_section_def elf_section_name_def file_class)+

lemma contents_in_file:
  assumes "is_32bit e \<or> \<not> has_rodata e"
  shows "length (concat (section_contents e)) \<le> length (elf_file nm e)"
proof (cases "is_32bit e")
  case True
  then show ?thesis
    by (simp add: elf_file_def) (rule file32_shape [of nm e], simp del: length_concat)
next
  case False
  then show ?thesis
    using assms by (simp add: elf_file_def) (rule file64_shape [of e nm], simp_all del: length_concat)
qed

lemma shstrtab_position: "section_contents e ! (if has_rodata e then 2 else 1) = sb_data (shstrtab_section e)"
    "(if has_rodata e then 2 else 1) < length (section_contents e)"
  by (simp_all add: section_contents_def)

lemma shstrtab_length: "length (sb_data (shstrtab_section e)) \<le> length (concat (section_contents e))"
  by (simp add: section_contents_def)

lemma write_elf_object_emitter:
  assumes "write_elf_object grants True (Some fn) code e0 = (Some f, e)"
  obtains nm b where "nm = fst (write_names grants (has_rodata e) (has_rela e) b)"
    "sb_data (shstrtab_section e) = sb_data (snd (write_names grants (has_rodata e) (has_rela e) b))"
    "b = shstrtab_section e0" "f = elf_file nm e" "is_32bit e = is_32bit e0" "has_rodata e = has_rodata e0"
    "text_section e = buf_write grants code (text_section e0)"
  using assms
  by (auto simp: write_elf_object_def Let_def split_beta elf_file_def is_32bit_def has_rodata_def has_rela_def)

text \<open>
  Claim C26. A written object file can be read back: through its header, every section of the
  file is the content the emitter holds for it, under the name it has in the format; the text
  section is what was collected, followed by the code. For 64-bit files this needs that there is
  no read-only data, which their writer leaves out.
\<close>

theorem written_sections_read_back:
  assumes grants: "\<And>n. grants n" and w: "write_elf_object grants True (Some fn) code e0 = (Some f, e)"
    and small: "length f < 2 ^ 32" and ro: "is_32bit e0 \<or> \<not> has_rodata e0" and k: "k < length (section_contents e)"
  shows "elf_section f (Suc k) = section_contents e ! k
    \<and> name_in (elf_section f (elf_shstrndx f)) (elf_section_name f (Suc k)) (section_names (has_rodata e) (has_rela e) ! k)
    \<and> sb_data (text_section e) = sb_data (text_section e0) @ code"
proof -
  let ?names = "map cstring (section_names (has_rodata e) (has_rela e))"
  obtain nm b where nm: "nm = fst (write_names grants (has_rodata e) (has_rela e) b)"
    and tab: "sb_data (shstrtab_section e) = sb_data b @ concat ?names"
    and f: "f = elf_file nm e" and r: "is_32bit e \<or> \<not> has_rodata e"
    and t: "text_section e = buf_write grants code (text_section e0)"
    using write_elf_object_emitter [OF w] ro by (metis write_names_data grants)
  have len: "length (concat (section_contents e)) < 2 ^ 32"
    using contents_in_file [OF r, of nm] small unfolding f by linarith
  then have tab_len: "length (sb_data b) + length (concat ?names) < 2 ^ 32"
    using shstrtab_length [of e] unfolding tab length_append by linarith
  have hn: "sh_name (file_headers nm e ! Suc j) = length (sb_data b) + sum_list (map length (take j ?names))"
    if "j < length (section_contents e)" for j
    using headers_names [OF grants tab_len nm, of j] that by (simp add: file_headers_def length_section_names del: take_map)
  have less: "sh_name (file_headers nm e ! Suc j) < 2 ^ 32" if "j < length (section_contents e)" for j
  proof -
    have "sum_list (map length (take j ?names)) \<le> length (concat ?names)"
      by (metis append_take_drop_id concat_append le_add1 length_append length_concat)
    then show ?thesis
      using hn [OF that] tab_len by linarith
  qed
  note reads = elf_file_reads [OF r small [unfolded f] _ less, folded f]
  have "elf_section f (elf_shstrndx f) = sb_data b @ concat ?names"
    using reads(1) [OF shstrtab_position(2) shstrtab_position(2)] shstrtab_position(1) [of e] tab
    by (simp add: f elf_file_def file_shstrndx numeral_eq_Suc split: if_splits)
  moreover have "take (length (?names ! k)) (drop (length (sb_data b) + sum_list (map length (take k ?names)))
      (sb_data b @ concat ?names)) = ?names ! k"
    using slice_concat [of k ?names "sb_data b" "[]"] k by (simp add: length_section_names)
  ultimately show ?thesis
    using reads [OF k k] hn [OF k] k t grants
    by (simp add: name_in_def buf_write_data length_section_names cstring_def)
qed


definition ret_object :: "bytes option \<times> ElfEmitter" where
  "ret_object = write_elf_object (\<lambda>_. True) True (Some ''a.o'') [0xC3] (new_emitter (\<lambda>_. True))"

lemma new_emitter_True:
  fixes e defines "e \<equiv> new_emitter (\<lambda>_. True)"
  shows "machine_arch e = 62" "sb_data (text_section e) = []" "sb_data (rodata_section e) = []" "sb_data (rela_section e) = []"
    "length (sb_data (strtab_section e)) = 15" "length (sb_data (shstrtab_section e)) = 1" "length (sb_data (symtab_section e)) = 72"
  unfolding e_def
  by (simp_all add: new_emitter_def add_symbol_def Let_def split_beta is_32bit_def EM_XTENSA_def EM_ARM_def EM_X86_64_def
      buf_write_data buf_write_string_def new_buffer_def sym64_bytes_def le16_def)

lemma ret_object_hyps:
  "\<exists>f e. ret_object = (Some f, e) \<and> length f < 2 ^ 32 \<and> 0 < length (section_contents e)"
  "\<not> has_rodata (new_emitter (\<lambda>_. True))"
  by (simp_all add: ret_object_def write_elf_object_def Let_def split_beta is_32bit_def EM_XTENSA_def EM_ARM_def new_emitter_True
      has_rodata_def has_rela_def buf_size_def buf_write_data file64_def pad_to_def length_ehdr64 length_concat length_shdr64
      comp_def sum_list_triv section_headers_def table_offset_def payload_def opt_size_def align_up_def write_names_data
      section_names_def cstring_def section_contents_def)

theorem written_sections_read_back_witness:
  "(\<exists>f e. write_elf_object (\<lambda>_. True) True (Some ''a.o'') [0xC3] (new_emitter (\<lambda>_. True)) = (Some f, e)
     \<and> length f < 2 ^ 32 \<and> elf_section f 1 = [0xC3] \<and> name_in (elf_section f (elf_shstrndx f)) (elf_section_name f 1) ''.text'')"
proof -
  obtain f e where fe: "ret_object = (Some f, e)" and small: "length f < 2 ^ 32"
    and k: "0 < length (section_contents e)"
    using ret_object_hyps(1) by blast
  then show ?thesis
    using written_sections_read_back [OF _ fe [unfolded ret_object_def] small, of 0] ret_object_hyps(2) new_emitter_True(2)
    by (simp add: ret_object_def section_contents_def section_names_def)
qed

text \<open>An image has the size it is reported with, and its text section starts behind the header.\<close>

lemma finalize_size:
  assumes "finalize grants allocs e0 = (Some (n, img), e)"
  shows "length img = n \<and> take (buf_size (text_section e)) (drop 64 img) = sb_data (text_section e)"
proof -
  let ?b = "sb_data (text_section e) @ sb_data (shstrtab_section e) @ sb_data (strtab_section e) @ sb_data (symtab_section e)"
  obtain nm where img: "img = finalize_image nm e" and n: "n = table_offset 8 64 e + 64 * num_sections e"
    using assms by (auto simp: finalize_def Let_def split_beta split: if_splits)
  have "64 + length ?b \<le> table_offset 8 64 e"
    by (rule order_trans [OF _ table_offset_contents]) (simp_all add: section_contents_def)
  moreover have "length (concat (map shdr64_bytes (finalize_headers nm e))) = 64 * num_sections e"
    by (simp add: length_concat comp_def length_shdr64 sum_list_triv finalize_headers_def Let_def num_sections_def)
  ultimately show ?thesis
    by (simp add: img n finalize_image_def Let_def pad_to_def length_ehdr64 buf_size_def)
qed

text \<open>
  The constructor runs while the machine is still x86-64, so the table of a 32-bit file opens with
  three 24-byte entries: the index reported for the first symbol added, 4, is not the index of
  the entry, which starts at byte 72 of a table of 16-byte entries.
\<close>

lemma xtensa_symbol_misplaced:
  fixes e0 defines "e0 \<equiv> set_machine_arch EM_XTENSA (new_emitter (\<lambda>_. True))"
  assumes "add_symbol (\<lambda>_. True) nm binding ty shndx value sz e0 = (i, e)"
  shows "i = 4" "\<exists>n. drop 72 (sb_data (symtab_section e)) = sym32_bytes n (0x40370000 + ucast value) (ucast sz) (st_info_of binding ty) shndx"
  using assms new_emitter_True(7)
  by (auto simp: add_symbol_def Let_def split_beta set_machine_arch_def is_32bit_def base_addr_def buf_size_def buf_write_data)

end
