(* ===== verification/Bit_Fields.thy ===== *)
theory Bit_Fields
  imports Prelude
begin

text \<open>Bit fields of 32-bit instruction words, for the decoders of the fixed-width targets.\<close>

unbundle bit_operations_syntax

definition fld :: "nat \<Rightarrow> nat \<Rightarrow> u32 \<Rightarrow> u32" where
  "fld lo n w = take_bit n (drop_bit lo w)"

lemma and_masks:
  "(x :: 'a::len word) AND 0x7F = take_bit 7 x" "x AND 0x1F = take_bit 5 x" "x AND 7 = take_bit 3 x" "x AND 0xFFF = take_bit 12 x"
  "x AND 1 = take_bit 1 x" "x AND 0x3F = take_bit 6 x" "x AND 0xF = take_bit 4 x" "x AND 0xFFFFF = take_bit 20 x"
  "x AND 0xFF = take_bit 8 x" "x AND 0x3FF = take_bit 10 x"
  by (simp_all add: take_bit_eq_mask mask_eq_exp_minus_1)

lemma fld_or [simp]: "fld lo n (a OR b) = fld lo n a OR fld lo n b"
  by (simp add: fld_def drop_bit_or take_bit_or)

lemma fld_above: "lo + n \<le> k \<Longrightarrow> fld lo n (push_bit k x) = 0"
  by (rule bit_eqI) (auto simp: fld_def bit_simps)

lemma fld_below: "k + m \<le> lo \<Longrightarrow> fld lo n (push_bit k (take_bit m x)) = 0"
  by (rule bit_eqI) (auto simp: fld_def bit_simps)

lemma fld_below0: "m \<le> lo \<Longrightarrow> fld lo n (take_bit m x) = 0"
  using fld_below [of 0 m lo n x] by simp

lemma fld_at: "lo + n \<le> 32 \<Longrightarrow> n \<le> m \<Longrightarrow> fld lo n (push_bit lo (take_bit m x)) = take_bit n x"
  by (rule bit_eqI) (auto simp: fld_def bit_simps)

lemma fld_at0: "n \<le> m \<Longrightarrow> fld 0 n (take_bit m x) = take_bit n x"
  by (simp add: fld_def)

lemmas fld_simps = fld_above fld_below fld_below0 fld_at fld_at0

lemma ucast_reg: "ucast (take_bit 5 (ucast (r :: u8) :: u32)) = (take_bit 5 r :: u8)"
  by (rule bit_eqI) (auto simp: bit_simps)

lemma ucast_take_signed:
  "n < 31 \<Longrightarrow> signed_take_bit n (ucast (take_bit (Suc n) (i :: u32)) :: u64) = scast (signed_take_bit n i)"
  by (rule bit_eqI) (auto simp: bit_simps min_def)

lemma fld_numeral: "fld lo n (numeral k) = take_bit n (drop_bit lo (numeral k))"
  by (simp add: fld_def)

lemma byte_back: "(ucast (ucast (r :: u8) :: u32) :: u8) = r"
  by (rule bit_eqI) (auto simp: bit_simps)

lemma sint_field:
  assumes "n \<le> 31" "- (2 ^ n) \<le> z" "z < 2 ^ n"
  shows "sint (signed_take_bit n (word_of_int z :: u32)) = z"
proof -
  have "(2 :: int) ^ n \<le> 2 ^ 31"
    using assms(1) by (rule power_increasing) simp
  then have "signed_take_bit n z = z" "signed_take_bit 31 z = z"
    using assms by (simp_all add: signed_take_bit_int_eq_self)
  moreover have "signed_take_bit n (word_of_int z :: u32) = word_of_int (signed_take_bit n z)"
    using assms(1) by (intro bit_eqI) (auto simp: bit_simps min_def)
  ultimately show ?thesis
    by (simp add: signed_of_int)
qed

end
