(* ===== verification/Rv64.thy ===== *)
theory Rv64
  imports Two_Pass Elf Bit_Fields
begin

text \<open>
  The RISC-V backend (\<open>src/src/backend/rv64_backend.cpp\<close>): the instruction encodings,
  the compiler of functions, in the two passes of \<^theory_text>\<open>Two_Pass\<close>, and the object file path. The encoder's buffer of
  32-bit words is a list; an emitter is the list of words it appends, given, where it
  matters, the number of words before it. A decoder and a semantics of the instructions
  used, written from the architecture manual, say what the words mean. Addresses that the
  code embeds are parameters, held in the record \<open>Rv64Env\<close>.
\<close>

unbundle bit_operations_syntax

section \<open>Encodings\<close>

type_synonym Rv64Reg = u8

abbreviation RV_ZERO :: Rv64Reg where "RV_ZERO \<equiv> 0"
abbreviation RV_RA :: Rv64Reg where "RV_RA \<equiv> 1"
abbreviation RV_SP :: Rv64Reg where "RV_SP \<equiv> 2"
abbreviation RV_T0 :: Rv64Reg where "RV_T0 \<equiv> 5"
abbreviation RV_T1 :: Rv64Reg where "RV_T1 \<equiv> 6"
abbreviation RV_FP :: Rv64Reg where "RV_FP \<equiv> 8"
abbreviation RV_A0 :: Rv64Reg where "RV_A0 \<equiv> 10"
abbreviation RV_A1 :: Rv64Reg where "RV_A1 \<equiv> 11"
abbreviation RV_A2 :: Rv64Reg where "RV_A2 \<equiv> 12"

definition encode_r :: "u8 \<Rightarrow> u8 \<Rightarrow> u8 \<Rightarrow> u8 \<Rightarrow> u8 \<Rightarrow> u8 \<Rightarrow> u32" where
  "encode_r funct7 rs2 rs1 funct3 rd opc =
     push_bit 25 (ucast (funct7 AND 0x7F)) OR push_bit 20 (ucast (rs2 AND 0x1F)) OR push_bit 15 (ucast (rs1 AND 0x1F))
       OR push_bit 12 (ucast (funct3 AND 0x7)) OR push_bit 7 (ucast (rd AND 0x1F)) OR ucast (opc AND 0x7F)"

definition encode_i :: "i32 \<Rightarrow> u8 \<Rightarrow> u8 \<Rightarrow> u8 \<Rightarrow> u8 \<Rightarrow> u32" where
  "encode_i imm12 rs1 funct3 rd opc =
     push_bit 20 (imm12 AND 0xFFF) OR push_bit 15 (ucast (rs1 AND 0x1F))
       OR push_bit 12 (ucast (funct3 AND 0x7)) OR push_bit 7 (ucast (rd AND 0x1F)) OR ucast (opc AND 0x7F)"

definition encode_s :: "i32 \<Rightarrow> u8 \<Rightarrow> u8 \<Rightarrow> u8 \<Rightarrow> u8 \<Rightarrow> u32" where
  "encode_s imm rs2 rs1 funct3 opc =
     push_bit 25 (drop_bit 5 imm AND 0x7F) OR push_bit 20 (ucast (rs2 AND 0x1F)) OR push_bit 15 (ucast (rs1 AND 0x1F))
       OR push_bit 12 (ucast (funct3 AND 0x7)) OR push_bit 7 (imm AND 0x1F) OR ucast (opc AND 0x7F)"

definition encode_b :: "i32 \<Rightarrow> u8 \<Rightarrow> u8 \<Rightarrow> u8 \<Rightarrow> u8 \<Rightarrow> u32" where
  "encode_b imm rs1 rs2 funct3 opc =
     (let imm12 = drop_bit 12 imm AND 1; imm11 = drop_bit 11 imm AND 1;
          imm10_5 = drop_bit 5 imm AND 0x3F; imm4_1 = drop_bit 1 imm AND 0xF in
      push_bit 31 imm12 OR push_bit 25 imm10_5 OR push_bit 20 (ucast (rs2 AND 0x1F)) OR push_bit 15 (ucast (rs1 AND 0x1F))
        OR push_bit 12 (ucast (funct3 AND 0x7)) OR push_bit 8 imm4_1 OR push_bit 7 imm11 OR ucast (opc AND 0x7F))"

definition encode_u :: "i32 \<Rightarrow> u8 \<Rightarrow> u8 \<Rightarrow> u32" where
  "encode_u imm20 rd opc =
     push_bit 12 (imm20 AND 0xFFFFF) OR push_bit 7 (ucast (rd AND 0x1F)) OR ucast (opc AND 0x7F)"

definition encode_j :: "i32 \<Rightarrow> u8 \<Rightarrow> u8 \<Rightarrow> u32" where
  "encode_j imm rd opc =
     (let imm20 = drop_bit 20 imm AND 1; imm19_12 = drop_bit 12 imm AND 0xFF;
          imm11 = drop_bit 11 imm AND 1; imm10_1 = drop_bit 1 imm AND 0x3FF in
      push_bit 31 imm20 OR push_bit 21 imm10_1 OR push_bit 20 imm11 OR push_bit 12 imm19_12
        OR push_bit 7 (ucast (rd AND 0x1F)) OR ucast (opc AND 0x7F))"

section \<open>Emitters\<close>

type_synonym rv_words = "u32 list"

definition rv_add :: "Rv64Reg \<Rightarrow> Rv64Reg \<Rightarrow> Rv64Reg \<Rightarrow> rv_words" where
  "rv_add rd rs1 rs2 = [encode_r 0x00 rs2 rs1 0x0 rd 0x33]"

definition rv_sub :: "Rv64Reg \<Rightarrow> Rv64Reg \<Rightarrow> Rv64Reg \<Rightarrow> rv_words" where
  "rv_sub rd rs1 rs2 = [encode_r 0x20 rs2 rs1 0x0 rd 0x33]"

definition rv_mul :: "Rv64Reg \<Rightarrow> Rv64Reg \<Rightarrow> Rv64Reg \<Rightarrow> rv_words" where
  "rv_mul rd rs1 rs2 = [encode_r 0x01 rs2 rs1 0x0 rd 0x33]"

definition rv_div :: "Rv64Reg \<Rightarrow> Rv64Reg \<Rightarrow> Rv64Reg \<Rightarrow> rv_words" where
  "rv_div rd rs1 rs2 = [encode_r 0x01 rs2 rs1 0x4 rd 0x33]"

definition rv_and :: "Rv64Reg \<Rightarrow> Rv64Reg \<Rightarrow> Rv64Reg \<Rightarrow> rv_words" where
  "rv_and rd rs1 rs2 = [encode_r 0x00 rs2 rs1 0x7 rd 0x33]"

definition rv_or :: "Rv64Reg \<Rightarrow> Rv64Reg \<Rightarrow> Rv64Reg \<Rightarrow> rv_words" where
  "rv_or rd rs1 rs2 = [encode_r 0x00 rs2 rs1 0x6 rd 0x33]"

definition rv_xor :: "Rv64Reg \<Rightarrow> Rv64Reg \<Rightarrow> Rv64Reg \<Rightarrow> rv_words" where
  "rv_xor rd rs1 rs2 = [encode_r 0x00 rs2 rs1 0x4 rd 0x33]"

definition rv_sll :: "Rv64Reg \<Rightarrow> Rv64Reg \<Rightarrow> Rv64Reg \<Rightarrow> rv_words" where
  "rv_sll rd rs1 rs2 = [encode_r 0x00 rs2 rs1 0x1 rd 0x33]"

definition rv_srl :: "Rv64Reg \<Rightarrow> Rv64Reg \<Rightarrow> Rv64Reg \<Rightarrow> rv_words" where
  "rv_srl rd rs1 rs2 = [encode_r 0x00 rs2 rs1 0x5 rd 0x33]"

definition rv_addi :: "Rv64Reg \<Rightarrow> Rv64Reg \<Rightarrow> i32 \<Rightarrow> rv_words" where
  "rv_addi rd rs1 imm12 = [encode_i imm12 rs1 0x0 rd 0x13]"

definition rv_ld :: "Rv64Reg \<Rightarrow> Rv64Reg \<Rightarrow> i32 \<Rightarrow> rv_words" where
  "rv_ld rd rs1 offset12 = [encode_i offset12 rs1 0x3 rd 0x03]"

definition rv_jalr :: "Rv64Reg \<Rightarrow> Rv64Reg \<Rightarrow> i32 \<Rightarrow> rv_words" where
  "rv_jalr rd rs1 offset12 = [encode_i offset12 rs1 0x0 rd 0x67]"

definition rv_sd :: "Rv64Reg \<Rightarrow> Rv64Reg \<Rightarrow> i32 \<Rightarrow> rv_words" where
  "rv_sd rs2 rs1 offset12 = [encode_s offset12 rs2 rs1 0x3 0x23]"

definition rv_lui :: "Rv64Reg \<Rightarrow> i32 \<Rightarrow> rv_words" where
  "rv_lui rd imm20 = [encode_u imm20 rd 0x37]"

definition rv_beq :: "Rv64Reg \<Rightarrow> Rv64Reg \<Rightarrow> i32 \<Rightarrow> rv_words" where
  "rv_beq rs1 rs2 off = [encode_b off rs1 rs2 0x0 0x63]"

definition rv_bne :: "Rv64Reg \<Rightarrow> Rv64Reg \<Rightarrow> i32 \<Rightarrow> rv_words" where
  "rv_bne rs1 rs2 off = [encode_b off rs1 rs2 0x1 0x63]"

definition rv_blt :: "Rv64Reg \<Rightarrow> Rv64Reg \<Rightarrow> i32 \<Rightarrow> rv_words" where
  "rv_blt rs1 rs2 off = [encode_b off rs1 rs2 0x4 0x63]"

definition rv_bge :: "Rv64Reg \<Rightarrow> Rv64Reg \<Rightarrow> i32 \<Rightarrow> rv_words" where
  "rv_bge rs1 rs2 off = [encode_b off rs1 rs2 0x5 0x63]"

definition rv_jal :: "Rv64Reg \<Rightarrow> i32 \<Rightarrow> rv_words" where
  "rv_jal rd off = [encode_j off rd 0x6F]"

text \<open>\<open>lui\<close> with the upper bits, rounded, and \<open>addi\<close> with the lower twelve, sign extended.\<close>

definition rv_mov_imm64 :: "Rv64Reg \<Rightarrow> u64 \<Rightarrow> rv_words" where
  "rv_mov_imm64 rd val =
     (let hi20 = ucast (drop_bit 12 (val + 0x800)) AND 0xFFFFF :: i32;
          lo = ucast (val AND 0xFFF) :: i32;
          lo12 = (if lo AND 0x800 \<noteq> 0 then lo OR 0xFFFFF000 else lo) in
      rv_lui rd hi20 @ (if lo12 \<noteq> 0 \<or> val = 0 then rv_addi rd rd lo12 else []))"

definition rv_mov :: "Rv64Reg \<Rightarrow> Rv64Reg \<Rightarrow> rv_words" where
  "rv_mov rd rs1 = rv_addi rd rs1 0"

definition rv_push_fp_ra :: rv_words where
  "rv_push_fp_ra = rv_addi RV_SP RV_SP (- 16) @ rv_sd RV_RA RV_SP 8 @ rv_sd RV_FP RV_SP 0 @ rv_mov RV_FP RV_SP"

definition rv_pop_fp_ra :: rv_words where
  "rv_pop_fp_ra = rv_ld RV_FP RV_SP 0 @ rv_ld RV_RA RV_SP 8 @ rv_addi RV_SP RV_SP 16"

definition rv_ret :: rv_words where
  "rv_ret = rv_jalr RV_ZERO RV_RA 0"

definition rv_nop :: rv_words where
  "rv_nop = rv_addi RV_ZERO RV_ZERO 0"

section \<open>Lowering\<close>

record Rv64Env =
  rv_classes :: "ClassDecl list option"
  rv_vtable :: "ClassDecl \<Rightarrow> u64"
  rv_string :: "string option \<Rightarrow> u64 \<Rightarrow> u64 \<Rightarrow> u64"
  rv_popcnt_fn :: u64
  rv_alloc_obj :: u64

definition rv_slot :: "Register \<Rightarrow> u32" where
  "rv_slot r = (if reg_type r = PARAM then 192 + (reg_index r AND 7) * 8 else (reg_index r AND 23) * 8)"

text \<open>An operand is always loaded into the scratch register; other kinds load nothing.\<close>

definition rv_load_op :: "Operand \<Rightarrow> Rv64Reg \<Rightarrow> rv_words" where
  "rv_load_op opd scratch_reg =
     (case opd of OpConst c \<Rightarrow> rv_mov_imm64 scratch_reg c
      | OpReg r \<Rightarrow> rv_ld scratch_reg RV_SP (rv_slot r)
      | _ \<Rightarrow> [])"

definition rv_store_reg :: "Register \<Rightarrow> Rv64Reg \<Rightarrow> rv_words" where
  "rv_store_reg r src = rv_sd src RV_SP (rv_slot r)"

definition rv_binop :: "(Rv64Reg \<Rightarrow> Rv64Reg \<Rightarrow> Rv64Reg \<Rightarrow> rv_words) \<Rightarrow> Instruction \<Rightarrow> rv_words" where
  "rv_binop f insn = rv_load_op (src1 insn) RV_T0 @ rv_load_op (src2 insn) RV_T1 @ f RV_T0 RV_T0 RV_T1
     @ rv_store_reg (op_reg (dest insn)) RV_T0"

definition rv_neg :: "Instruction \<Rightarrow> rv_words" where
  "rv_neg insn = rv_load_op (src1 insn) RV_T0 @ rv_sub RV_T0 RV_ZERO RV_T0 @ rv_store_reg (op_reg (dest insn)) RV_T0"

text \<open>The helper that the code for a bit count calls; the compiler embeds its address.\<close>

function popcnt_fn :: "u64 \<Rightarrow> u64 \<Rightarrow> u64" where
  "popcnt_fn v c = (if v = 0 then c else popcnt_fn (drop_bit 1 v) (c + (v AND 1)))"
  by pat_completeness auto
termination
proof (relation "measure (\<lambda>(v, c). unat v)")
  fix v c :: u64
  assume "v \<noteq> 0"
  then have "0 < unat v"
    by (simp add: unat_gt_0)
  then show "((drop_bit 1 v, c + (v AND 1)), (v, c)) \<in> measure (\<lambda>(v, c). unat v)"
    by (simp add: drop_bit_eq_div unat_div_distrib)
qed simp

definition rv_popcount :: "Rv64Env \<Rightarrow> Instruction \<Rightarrow> rv_words" where
  "rv_popcount env insn = rv_load_op (src1 insn) RV_A0 @ rv_mov_imm64 RV_T0 (rv_popcnt_fn env) @ rv_jalr RV_RA RV_T0 0
     @ rv_store_reg (op_reg (dest insn)) RV_A0"

definition rv_load_mem :: "Instruction \<Rightarrow> rv_words" where
  "rv_load_mem insn = rv_load_op (OpReg (op_mem_base (src1 insn))) RV_T0 @ rv_ld RV_T1 RV_T0 (op_mem_offset (src1 insn))
     @ rv_store_reg (op_reg (dest insn)) RV_T1"

definition rv_store_mem :: "Instruction \<Rightarrow> rv_words" where
  "rv_store_mem insn = rv_load_op (OpReg (op_mem_base (dest insn))) RV_T0 @ rv_load_op (src1 insn) RV_T1
     @ rv_sd RV_T1 RV_T0 (op_mem_offset (dest insn))"

definition rv_call_virt :: "Instruction \<Rightarrow> rv_words" where
  "rv_call_virt insn = rv_load_op (src1 insn) RV_A0 @ rv_ld RV_T0 RV_A0 0 @ rv_ld RV_T1 RV_T0 (vtable_slot insn * 8)
     @ rv_jalr RV_RA RV_T1 0
     @ (if op_kind (dest insn) = REGISTER then rv_store_reg (op_reg (dest insn)) RV_A0 else [])"

definition rv_find_class :: "Rv64Env \<Rightarrow> Instruction \<Rightarrow> ClassDecl option" where
  "rv_find_class env insn =
     (case (rv_classes env, target_label insn) of
        (Some cs, Some n) \<Rightarrow> find (\<lambda>c. streq_impl (cname c) n) cs
      | _ \<Rightarrow> None)"

definition rv_new_instance :: "Rv64Env \<Rightarrow> Instruction \<Rightarrow> rv_words" where
  "rv_new_instance env insn =
     (let c = rv_find_class env insn;
          inst_size = (case c of Some d \<Rightarrow> if csize d > 0 then csize d + 16 else 32 | None \<Rightarrow> 32);
          vtable = (case c of Some d \<Rightarrow> rv_vtable env d | None \<Rightarrow> 0) in
      rv_mov_imm64 RV_A0 (ucast inst_size) @ rv_mov_imm64 RV_A1 vtable @ rv_mov_imm64 RV_A2 1
        @ rv_mov_imm64 RV_T0 (rv_alloc_obj env) @ rv_jalr RV_RA RV_T0 0 @ rv_store_reg (op_reg (dest insn)) RV_A0)"

text \<open>Distance to a label, known in the second pass; \<open>pos\<close> is the position of the branch.\<close>

definition rv_delta :: "label_table \<Rightarrow> bool \<Rightarrow> i32 \<Rightarrow> nat \<Rightarrow> Instruction \<Rightarrow> i32" where
  "rv_delta lt is_pass2 dflt pos insn =
     (case target_label insn of
        Some l \<Rightarrow> if is_pass2 then (of_nat (get_label_offset lt l) - of_nat pos) * 4 else dflt
      | None \<Rightarrow> dflt)"

definition rv_branch :: "Opcode \<Rightarrow> Rv64Reg \<Rightarrow> Rv64Reg \<Rightarrow> i32 \<Rightarrow> rv_words" where
  "rv_branch opc = (if opc = IF_EQ then rv_beq else if opc = IF_NE then rv_bne else if opc = IF_LT then rv_blt else rv_bge)"

definition rv_if :: "label_table \<Rightarrow> bool \<Rightarrow> nat \<Rightarrow> Instruction \<Rightarrow> rv_words" where
  "rv_if lt is_pass2 pos insn =
     (let l = rv_load_op (src1 insn) RV_T0 @ rv_load_op (src2 insn) RV_T1 in
      l @ rv_branch (op insn) RV_T0 RV_T1 (rv_delta lt is_pass2 8 (pos + length l) insn))"

definition rv_epilogue :: rv_words where
  "rv_epilogue = rv_addi RV_SP RV_SP 256 @ rv_pop_fp_ra @ rv_ret"

definition rv_insn :: "Rv64Env \<Rightarrow> label_table \<Rightarrow> bool \<Rightarrow> nat \<Rightarrow> Instruction \<Rightarrow> rv_words" where
  "rv_insn env lt is_pass2 pos insn =
     (case op insn of
        MOVE_CONST \<Rightarrow> rv_mov_imm64 RV_T0 (op_const (src1 insn)) @ rv_store_reg (op_reg (dest insn)) RV_T0
      | MOVE \<Rightarrow> rv_load_op (src1 insn) RV_T0 @ rv_store_reg (op_reg (dest insn)) RV_T0
      | ADD_I64 \<Rightarrow> rv_binop rv_add insn | ADD_I32 \<Rightarrow> rv_binop rv_add insn
      | SUB_I64 \<Rightarrow> rv_binop rv_sub insn | SUB_I32 \<Rightarrow> rv_binop rv_sub insn
      | NEG_I64 \<Rightarrow> rv_neg insn | NEG_I32 \<Rightarrow> rv_neg insn
      | MUL_I64 \<Rightarrow> rv_binop rv_mul insn | MUL_I32 \<Rightarrow> rv_binop rv_mul insn
      | DIV_I64 \<Rightarrow> rv_binop rv_div insn | DIV_I32 \<Rightarrow> rv_binop rv_div insn
      | AND_I64 \<Rightarrow> rv_binop rv_and insn | AND_I32 \<Rightarrow> rv_binop rv_and insn
      | OR_I64 \<Rightarrow> rv_binop rv_or insn | OR_I32 \<Rightarrow> rv_binop rv_or insn
      | XOR_I64 \<Rightarrow> rv_binop rv_xor insn | XOR_I32 \<Rightarrow> rv_binop rv_xor insn
      | SHL_I64 \<Rightarrow> rv_binop rv_sll insn | SHL_I32 \<Rightarrow> rv_binop rv_sll insn
      | SHR_I64 \<Rightarrow> rv_binop rv_srl insn | SHR_I32 \<Rightarrow> rv_binop rv_srl insn
      | USHR_I64 \<Rightarrow> rv_binop rv_srl insn | USHR_I32 \<Rightarrow> rv_binop rv_srl insn
      | POPCOUNT_I64 \<Rightarrow> rv_popcount env insn
      | LOAD_MEM \<Rightarrow> rv_load_mem insn
      | STORE_MEM \<Rightarrow> rv_store_mem insn
      | CALL_VIRT \<Rightarrow> rv_call_virt insn | CALL_VIRT_FAST \<Rightarrow> rv_call_virt insn
      | NEW_INSTANCE \<Rightarrow> rv_new_instance env insn
      | CONST_STRING \<Rightarrow> rv_mov_imm64 RV_T0 (rv_string env (string_val insn) (string_len insn) (string_hash insn))
                         @ rv_store_reg (op_reg (dest insn)) RV_T0
      | IF_GE \<Rightarrow> rv_if lt is_pass2 pos insn | IF_LT \<Rightarrow> rv_if lt is_pass2 pos insn
      | IF_EQ \<Rightarrow> rv_if lt is_pass2 pos insn | IF_NE \<Rightarrow> rv_if lt is_pass2 pos insn
      | GOTO \<Rightarrow> rv_jal RV_ZERO (rv_delta lt is_pass2 (- 20) pos insn)
      | STR_LEN \<Rightarrow> rv_mov_imm64 RV_T0 (string_len insn) @ rv_store_reg (op_reg (dest insn)) RV_T0
      | RETURN_VAL \<Rightarrow> rv_load_op (src1 insn) RV_A0 @ rv_epilogue
      | RETURN_VOID \<Rightarrow> rv_epilogue
      | _ \<Rightarrow> [])"

definition rv_prologue :: rv_words where
  "rv_prologue = rv_push_fp_ra @ rv_addi RV_SP RV_SP (- 256)
     @ concat (map (\<lambda>i. rv_sd (RV_A0 + of_nat i) RV_SP (192 + of_nat i * 8)) [0..<8])"

text \<open>\<open>mm\<close> is whether the kernel maps that many bytes; the result of \<open>make_rx\<close> is not looked at.\<close>

definition rv_compile_function :: "Rv64Env \<Rightarrow> (nat \<Rightarrow> bool) \<Rightarrow> Function \<Rightarrow> bytes option" where
  "rv_compile_function env mm fn =
     (let code = two_passes id id (rv_insn env) rv_prologue fn; sz = 4 * length code in
      if sz = 0 then None else if \<not> mm sz then None else Some (concat (map le32 code)))"

section \<open>Object files\<close>

definition rv_elf_insn :: "Instruction \<Rightarrow> rv_words" where
  "rv_elf_insn insn =
     (case op insn of
        ADD_I64 \<Rightarrow> rv_add RV_A0 RV_A0 RV_A1 | ADD_I32 \<Rightarrow> rv_add RV_A0 RV_A0 RV_A1
      | SUB_I64 \<Rightarrow> rv_sub RV_A0 RV_A0 RV_A1 | SUB_I32 \<Rightarrow> rv_sub RV_A0 RV_A0 RV_A1
      | MUL_I32 \<Rightarrow> rv_mul RV_A0 RV_A0 RV_A1
      | RETURN_VAL \<Rightarrow> rv_pop_fp_ra @ rv_ret | RETURN_VOID \<Rightarrow> rv_pop_fp_ra @ rv_ret
      | _ \<Rightarrow> [])"

definition rv_elf_function :: "Function \<Rightarrow> rv_words" where
  "rv_elf_function fn = rv_push_fp_ra @ concat (map (\<lambda>bb. concat (map rv_elf_insn (insns bb))) (blocks fn))"

fun rv_elf_functions :: "(nat \<Rightarrow> bool) \<Rightarrow> Function list \<Rightarrow> SimpleByteBuffer \<Rightarrow> ElfEmitter \<Rightarrow> SimpleByteBuffer \<times> ElfEmitter" where
  "rv_elf_functions grants [] text_buf elf = (text_buf, elf)"
| "rv_elf_functions grants (fn # fns) text_buf elf =
     (let func_offset = buf_size text_buf; code = concat (map le32 (rv_elf_function fn)) in
      rv_elf_functions grants fns (buf_write grants code text_buf)
        (snd (add_symbol grants (Some (fn_name fn)) 1 2 1 (of_nat func_offset) (of_nat (length code)) elf)))"

definition rv_compile_to_elf :: "(nat \<Rightarrow> bool) \<Rightarrow> bool \<Rightarrow> Program \<Rightarrow> string option \<Rightarrow> bytes option" where
  "rv_compile_to_elf grants opens prog out_filename =
     (if out_filename = None then None
      else
        (let (text_buf, elf) = rv_elf_functions grants (prog_functions prog) (new_buffer grants)
               (set_machine_arch 243 (new_emitter grants)) in
         fst (write_elf_object grants opens out_filename (sb_data text_buf) elf)))"

section \<open>The architecture\<close>

text \<open>The fields of an instruction word and the instructions used, from the RISC-V manual.\<close>

datatype rvop = RV_ADD | RV_SUB | RV_MUL | RV_DIV | RV_AND | RV_OR | RV_XOR | RV_SLL | RV_SRL

datatype rvcond = RV_EQ | RV_NE | RV_LT | RV_GE

datatype rvinsn =
    ROP rvop u8 u8 u8
  | ADDI u8 u8 u64
  | LD u8 u8 u64
  | SD u8 u8 u64
  | LUI u8 u64
  | BRANCH rvcond u8 u8 u64
  | JAL u8 u64
  | JALR u8 u8 u64

definition imm_i :: "u32 \<Rightarrow> u64" where
  "imm_i w = signed_take_bit 11 (ucast (fld 20 12 w))"

definition imm_s :: "u32 \<Rightarrow> u64" where
  "imm_s w = signed_take_bit 11 (ucast (fld 7 5 w OR push_bit 5 (fld 25 7 w)))"

definition imm_b :: "u32 \<Rightarrow> u64" where
  "imm_b w = signed_take_bit 12
     (ucast (push_bit 1 (fld 8 4 w) OR push_bit 5 (fld 25 6 w) OR push_bit 11 (fld 7 1 w) OR push_bit 12 (fld 31 1 w)))"

definition imm_u :: "u32 \<Rightarrow> u64" where
  "imm_u w = scast (push_bit 12 (fld 12 20 w))"

definition imm_j :: "u32 \<Rightarrow> u64" where
  "imm_j w = signed_take_bit 20
     (ucast (push_bit 1 (fld 21 10 w) OR push_bit 11 (fld 20 1 w) OR push_bit 12 (fld 12 8 w) OR push_bit 20 (fld 31 1 w)))"

definition rv_rop :: "u32 \<Rightarrow> u32 \<Rightarrow> rvop option" where
  "rv_rop f7 f3 =
     (if f7 = 0 then map_of [(0, RV_ADD), (1, RV_SLL), (4, RV_XOR), (5, RV_SRL), (6, RV_OR), (7, RV_AND)] f3
      else if f7 = 0x20 then map_of [(0, RV_SUB)] f3
      else if f7 = 1 then map_of [(0, RV_MUL), (4, RV_DIV)] f3
      else None)"

definition rv_decode :: "u32 \<Rightarrow> rvinsn option" where
  "rv_decode w =
     (let opc = fld 0 7 w; rd = ucast (fld 7 5 w); f3 = fld 12 3 w; rs1 = ucast (fld 15 5 w); rs2 = ucast (fld 20 5 w) in
      if opc = 0x33 then map_option (\<lambda>i. ROP i rd rs1 rs2) (rv_rop (fld 25 7 w) f3)
      else if opc = 0x13 \<and> f3 = 0 then Some (ADDI rd rs1 (imm_i w))
      else if opc = 0x03 \<and> f3 = 3 then Some (LD rd rs1 (imm_i w))
      else if opc = 0x23 \<and> f3 = 3 then Some (SD rs2 rs1 (imm_s w))
      else if opc = 0x37 then Some (LUI rd (imm_u w))
      else if opc = 0x63 then map_option (\<lambda>c. BRANCH c rs1 rs2 (imm_b w)) (map_of [(0, RV_EQ), (1, RV_NE), (4, RV_LT), (5, RV_GE)] f3)
      else if opc = 0x6F then Some (JAL rd (imm_j w))
      else if opc = 0x67 \<and> f3 = 0 then Some (JALR rd rs1 (imm_i w))
      else None)"

section \<open>Words decode to the instructions they are named after\<close>

lemmas encode_defs = encode_r_def encode_i_def encode_s_def encode_b_def encode_u_def encode_j_def Let_def and_masks
  unsigned_take_bit_eq

lemma fields_r:
  fixes f7 rs2 rs1 f3 rd opc
  defines "w \<equiv> encode_r f7 rs2 rs1 f3 rd opc"
  shows "fld 0 7 w = take_bit 7 (ucast opc)" "fld 7 5 w = take_bit 5 (ucast rd)" "fld 12 3 w = take_bit 3 (ucast f3)"
    "fld 15 5 w = take_bit 5 (ucast rs1)" "fld 20 5 w = take_bit 5 (ucast rs2)" "fld 25 7 w = take_bit 7 (ucast f7)"
  unfolding w_def encode_defs by (simp_all add: fld_simps)

lemma fields_i:
  fixes imm rs1 f3 rd opc
  defines "w \<equiv> encode_i imm rs1 f3 rd opc"
  shows "fld 0 7 w = take_bit 7 (ucast opc)" "fld 7 5 w = take_bit 5 (ucast rd)" "fld 12 3 w = take_bit 3 (ucast f3)"
    "fld 15 5 w = take_bit 5 (ucast rs1)" "fld 20 12 w = take_bit 12 imm"
  unfolding w_def encode_defs by (simp_all add: fld_simps)

lemma fields_s:
  fixes imm rs2 rs1 f3 opc
  defines "w \<equiv> encode_s imm rs2 rs1 f3 opc"
  shows "fld 0 7 w = take_bit 7 (ucast opc)" "fld 12 3 w = take_bit 3 (ucast f3)" "fld 15 5 w = take_bit 5 (ucast rs1)"
    "fld 20 5 w = take_bit 5 (ucast rs2)" "fld 7 5 w = take_bit 5 imm" "fld 25 7 w = take_bit 7 (drop_bit 5 imm)"
  unfolding w_def encode_defs by (simp_all add: fld_simps)

lemma fields_b:
  fixes imm rs1 rs2 f3 opc
  defines "w \<equiv> encode_b imm rs1 rs2 f3 opc"
  shows "fld 0 7 w = take_bit 7 (ucast opc)" "fld 12 3 w = take_bit 3 (ucast f3)" "fld 15 5 w = take_bit 5 (ucast rs1)"
    "fld 20 5 w = take_bit 5 (ucast rs2)" "fld 8 4 w = take_bit 4 (drop_bit 1 imm)" "fld 25 6 w = take_bit 6 (drop_bit 5 imm)"
    "fld 7 1 w = take_bit 1 (drop_bit 11 imm)" "fld 31 1 w = take_bit 1 (drop_bit 12 imm)"
  unfolding w_def encode_defs by (simp_all add: fld_simps del: One_nat_def take_bit_Suc_0)

lemma fields_u:
  fixes imm rd opc
  defines "w \<equiv> encode_u imm rd opc"
  shows "fld 0 7 w = take_bit 7 (ucast opc)" "fld 7 5 w = take_bit 5 (ucast rd)" "fld 12 20 w = take_bit 20 imm"
  unfolding w_def encode_defs by (simp_all add: fld_simps)

lemma fields_j:
  fixes imm rd opc
  defines "w \<equiv> encode_j imm rd opc"
  shows "fld 0 7 w = take_bit 7 (ucast opc)" "fld 7 5 w = take_bit 5 (ucast rd)" "fld 12 8 w = take_bit 8 (drop_bit 12 imm)"
    "fld 20 1 w = take_bit 1 (drop_bit 11 imm)" "fld 21 10 w = take_bit 10 (drop_bit 1 imm)" "fld 31 1 w = take_bit 1 (drop_bit 20 imm)"
  unfolding w_def encode_defs by (simp_all add: fld_simps del: One_nat_def take_bit_Suc_0)

text \<open>The immediates are those of the operand as far as the format holds them.\<close>

lemma split_s: "take_bit 5 (i :: u32) OR push_bit 5 (take_bit 7 (drop_bit 5 i)) = take_bit 12 i"
  by (rule bit_eqI) (auto simp: bit_simps)

lemma ucast_take12: "signed_take_bit 11 (ucast (take_bit 12 (i :: u32)) :: u64) = scast (signed_take_bit 11 i)"
  by (rule bit_eqI) (auto simp: bit_simps min_def)

lemma imm_i_encode: "imm_i (encode_i imm rs1 f3 rd opc) = scast (signed_take_bit 11 imm)"
  by (simp add: imm_i_def fields_i ucast_take12)

lemma imm_s_encode: "imm_s (encode_s imm rs2 rs1 f3 opc) = scast (signed_take_bit 11 imm)"
  by (simp add: imm_s_def fields_s split_s ucast_take12)

lemma split_b: "\<not> bit i 0 \<Longrightarrow> push_bit 1 (take_bit 4 (drop_bit 1 i)) OR push_bit 5 (take_bit 6 (drop_bit 5 i))
    OR push_bit 11 (take_bit 1 (drop_bit 11 i)) OR push_bit 12 (take_bit 1 (drop_bit 12 i)) = take_bit 13 (i :: u32)"
proof (rule bit_eqI)
  fix n
  assume e: "\<not> bit i 0" and n: "possible_bit TYPE(u32) n"
  consider "n = 0" | "n = 11" | "n = 12" | "0 < n" "n < 5" | "5 \<le> n" "n < 11" | "13 \<le> n"
    by linarith
  then show "bit (push_bit 1 (take_bit 4 (drop_bit 1 i)) OR push_bit 5 (take_bit 6 (drop_bit 5 i))
    OR push_bit 11 (take_bit 1 (drop_bit 11 i)) OR push_bit 12 (take_bit 1 (drop_bit 12 i))) n = bit (take_bit 13 i) n"
    using e n by cases (auto simp: bit_simps simp del: One_nat_def take_bit_Suc_0 push_bit_Suc)
qed

lemma split_j: "\<not> bit i 0 \<Longrightarrow> push_bit 1 (take_bit 10 (drop_bit 1 i)) OR push_bit 11 (take_bit 1 (drop_bit 11 i))
    OR push_bit 12 (take_bit 8 (drop_bit 12 i)) OR push_bit 20 (take_bit 1 (drop_bit 20 i)) = take_bit 21 (i :: u32)"
proof (rule bit_eqI)
  fix n
  assume e: "\<not> bit i 0" and n: "possible_bit TYPE(u32) n"
  consider "n = 0" | "n = 11" | "n = 20" | "0 < n" "n < 11" | "12 \<le> n" "n < 20" | "21 \<le> n"
    by linarith
  then show "bit (push_bit 1 (take_bit 10 (drop_bit 1 i)) OR push_bit 11 (take_bit 1 (drop_bit 11 i))
    OR push_bit 12 (take_bit 8 (drop_bit 12 i)) OR push_bit 20 (take_bit 1 (drop_bit 20 i))) n = bit (take_bit 21 i) n"
    using e n by cases (auto simp: bit_simps simp del: One_nat_def take_bit_Suc_0 push_bit_Suc)
qed

lemma imm_b_encode: "\<not> bit imm 0 \<Longrightarrow> imm_b (encode_b imm rs1 rs2 f3 opc) = scast (signed_take_bit 12 imm)"
  using ucast_take_signed [of 12 imm] by (simp add: imm_b_def fields_b split_b del: One_nat_def take_bit_Suc_0)

lemma imm_j_encode: "\<not> bit imm 0 \<Longrightarrow> imm_j (encode_j imm rd opc) = scast (signed_take_bit 20 imm)"
  using ucast_take_signed [of 20 imm] by (simp add: imm_j_def fields_j split_j del: One_nat_def take_bit_Suc_0)

lemma imm_u_encode: "imm_u (encode_u imm rd opc) = scast (push_bit 12 (take_bit 20 imm))"
  by (simp add: imm_u_def fields_u)

definition rv_decodes :: "rv_words \<Rightarrow> rvinsn list \<Rightarrow> bool" where
  "rv_decodes ws is \<longleftrightarrow> map rv_decode ws = map Some is"

lemma rv_decodes_append: "rv_decodes ws is \<Longrightarrow> rv_decodes vs js \<Longrightarrow> rv_decodes (ws @ vs) (is @ js)"
  by (simp add: rv_decodes_def)

lemma rv_decodes_Nil [simp]: "rv_decodes [] []"
  by (simp add: rv_decodes_def)

definition regs5 :: "u8 list \<Rightarrow> bool" where
  "regs5 rs \<longleftrightarrow> list_all (\<lambda>r. take_bit 5 r = r) rs"

lemmas decode_r = rv_decodes_def rv_decode_def Let_def fields_r ucast_reg rv_rop_def regs5_def
lemmas decode_i = rv_decodes_def rv_decode_def Let_def fields_i ucast_reg imm_i_encode regs5_def

lemma rv_decodes_rop:
  assumes "regs5 [rd, rs1, rs2]"
  shows "rv_decodes (rv_add rd rs1 rs2) [ROP RV_ADD rd rs1 rs2]" "rv_decodes (rv_sub rd rs1 rs2) [ROP RV_SUB rd rs1 rs2]"
    "rv_decodes (rv_mul rd rs1 rs2) [ROP RV_MUL rd rs1 rs2]" "rv_decodes (rv_div rd rs1 rs2) [ROP RV_DIV rd rs1 rs2]"
    "rv_decodes (rv_and rd rs1 rs2) [ROP RV_AND rd rs1 rs2]" "rv_decodes (rv_or rd rs1 rs2) [ROP RV_OR rd rs1 rs2]"
    "rv_decodes (rv_xor rd rs1 rs2) [ROP RV_XOR rd rs1 rs2]" "rv_decodes (rv_sll rd rs1 rs2) [ROP RV_SLL rd rs1 rs2]"
    "rv_decodes (rv_srl rd rs1 rs2) [ROP RV_SRL rd rs1 rs2]"
  using assms by (simp_all add: rv_add_def rv_sub_def rv_mul_def rv_div_def rv_and_def rv_or_def rv_xor_def rv_sll_def
      rv_srl_def decode_r)

lemma rv_decodes_imm:
  assumes "regs5 [rd, rs1]"
  shows "rv_decodes (rv_addi rd rs1 imm) [ADDI rd rs1 (scast (signed_take_bit 11 imm))]"
    "rv_decodes (rv_ld rd rs1 imm) [LD rd rs1 (scast (signed_take_bit 11 imm))]"
    "rv_decodes (rv_jalr rd rs1 imm) [JALR rd rs1 (scast (signed_take_bit 11 imm))]"
    "rv_decodes (rv_sd rd rs1 imm) [SD rd rs1 (scast (signed_take_bit 11 imm))]"
    "rv_decodes (rv_lui rd imm) [LUI rd (scast (push_bit 12 (take_bit 20 imm)))]"
  using assms by (simp_all add: rv_addi_def rv_ld_def rv_jalr_def rv_sd_def rv_lui_def decode_i fields_s imm_s_encode
      fields_u imm_u_encode)

lemma rv_decodes_jump:
  assumes "regs5 [rs1, rs2]" "\<not> bit off 0"
  shows "rv_decodes (rv_beq rs1 rs2 off) [BRANCH RV_EQ rs1 rs2 (scast (signed_take_bit 12 off))]"
    "rv_decodes (rv_bne rs1 rs2 off) [BRANCH RV_NE rs1 rs2 (scast (signed_take_bit 12 off))]"
    "rv_decodes (rv_blt rs1 rs2 off) [BRANCH RV_LT rs1 rs2 (scast (signed_take_bit 12 off))]"
    "rv_decodes (rv_bge rs1 rs2 off) [BRANCH RV_GE rs1 rs2 (scast (signed_take_bit 12 off))]"
    "rv_decodes (rv_jal rs1 off) [JAL rs1 (scast (signed_take_bit 20 off))]"
  using assms by (simp_all add: rv_beq_def rv_bne_def rv_blt_def rv_bge_def rv_jal_def rv_decodes_def rv_decode_def Let_def
      fields_b fields_j imm_b_encode imm_j_encode ucast_reg regs5_def)

end
