(* ===== verification/Slots.thy ===== *)
theory Slots
  imports Lower_Correct
begin

text \<open>Eight-byte slots of a stack frame in byte memory.\<close>

text \<open>Writes to numbered eight-byte slots above an address.\<close>

definition slots :: "u64 \<Rightarrow> (nat \<times> u64) list \<Rightarrow> (u64 \<Rightarrow> u8) \<Rightarrow> u64 \<Rightarrow> u8" where
  "slots sp ws m = fold (\<lambda>(k, v) m. write64 m (sp + of_nat (8 * k)) v) ws m"

lemma word_slots_apart:
  assumes "a \<noteq> b" "a < 64" "b < 64"
  shows "8 \<le> unat ((sp + of_nat (8 * a)) - (sp + of_nat (8 * b)) :: u64)"
proof -
  have "(sp + of_nat (8 * a)) - (sp + of_nat (8 * b)) = (of_nat (8 * a) - of_nat (8 * b) :: u64)"
    by simp
  moreover have "unat (of_nat (8 * k) :: u64) = 8 * k" if "k < 64" for k
    using that by (simp add: unat_of_nat del: of_nat_mult)
  ultimately show ?thesis
    using assms by (simp only: unat_sub_if') auto
qed

lemma read_write_slot:
  assumes "a < 64" "b < 64"
  shows "read64 (write64 m (sp + of_nat (8 * a)) v) (sp + of_nat (8 * b)) = (if a = b then v else read64 m (sp + of_nat (8 * b)))"
  using read_write64_same read_write64_other word_slots_apart [of b a sp] word_slots_apart [of a b sp] assms
  by (simp del: of_nat_mult)

lemma read_slots:
  assumes "distinct (map fst ws)" "\<forall>(k, v) \<in> set ws. k < 64" "k < 64"
  shows "read64 (slots sp ws m) (sp + of_nat (8 * k)) = (case map_of ws k of Some v \<Rightarrow> v | None \<Rightarrow> read64 m (sp + of_nat (8 * k)))"
  using assms
proof (induction ws arbitrary: m)
  case (Cons w ws)
  obtain a v where w: "w = (a, v)"
    by (cases w)
  have "map_of ws a = None"
    using Cons.prems(1) w by (auto simp: map_of_eq_None_iff)
  then show ?case
    using Cons w read_write_slot [of a k m sp v] by (auto simp: slots_def simp del: of_nat_mult split: option.splits)
qed (simp add: slots_def)

lemma write64_out:
  assumes "a < n" "n < 64" "\<not> x - sp < of_nat (8 * n)"
  shows "write64 m (sp + of_nat (8 * a)) v x = m x"
proof -
  have u: "unat (of_nat (8 * k) :: u64) = 8 * k" if "k < 64" for k
    using that by (simp add: unat_of_nat del: of_nat_mult)
  define y where "y = x - sp"
  have "x - (sp + of_nat (8 * a)) = y - of_nat (8 * a)"
    by (simp add: y_def)
  moreover have "8 * n \<le> unat y"
    using assms(3) u [OF assms(2)] by (simp add: y_def word_less_nat_alt del: of_nat_mult)
  ultimately have "unat (x - (sp + of_nat (8 * a))) = unat y - 8 * a" "8 \<le> unat y - 8 * a"
    using assms(1,2) u [of a] by (simp_all only: unat_sub_if') auto
  then show ?thesis
    by (simp add: write64_def word_less_nat_alt del: of_nat_mult)
qed

lemma slots_out:
  assumes "\<forall>(k, v) \<in> set ws. k < n" "n < 64" "\<not> x - sp < of_nat (8 * n)"
  shows "slots sp ws m x = m x"
  using assms
proof (induction ws arbitrary: m)
  case (Cons w ws)
  then show ?case
    using write64_out [of "fst w" n x sp m "snd w"] by (auto simp: slots_def split_beta simp del: of_nat_mult)
qed (simp add: slots_def)

end
