(* ===== verification/Spill_Machine.thy ===== *)
theory Spill_Machine
  imports Ir_Flow Slots
begin

text \<open>
  Straight-line code that keeps every register of the intermediate representation in a slot of
  the frame. The backends for other targets all work this way: operands are loaded into two
  scratch registers, one instruction computes, and the result is stored. The first locale says
  how a machine state represents an assignment to the registers; the second, from laws on
  loading, storing and the single instructions, that the code of an instruction assigns
  what the reference semantics says.
\<close>

section \<open>Machines with fixed-width instructions\<close>

text \<open>One step of a program whose first word is at address \<open>base\<close>.\<close>

definition wm_step :: "('w \<Rightarrow> 'i option) \<Rightarrow> ('i \<Rightarrow> 's \<Rightarrow> 's) \<Rightarrow> ('s \<Rightarrow> u64) \<Rightarrow> u64 \<Rightarrow> 'w list \<Rightarrow> 's \<Rightarrow> 's option" where
  "wm_step dec ex pc base code s =
     (let k = unat (pc s - base) in
      if k mod 4 = 0 \<and> k div 4 < length code then map_option (\<lambda>i. ex i s) (dec (code ! (k div 4))) else None)"

fun wm_run :: "('w \<Rightarrow> 'i option) \<Rightarrow> ('i \<Rightarrow> 's \<Rightarrow> 's) \<Rightarrow> ('s \<Rightarrow> u64) \<Rightarrow> nat \<Rightarrow> u64 \<Rightarrow> 'w list \<Rightarrow> 's \<Rightarrow> 's option" where
  "wm_run dec ex pc 0 base code s = Some s"
| "wm_run dec ex pc (Suc n) base code s =
     (case wm_step dec ex pc base code s of None \<Rightarrow> None | Some s' \<Rightarrow> wm_run dec ex pc n base code s')"

lemma wm_run_add: "wm_run d e pc n base c s = Some t \<Longrightarrow> wm_run d e pc (n + m) base c s = wm_run d e pc m base c t"
  by (induction n arbitrary: s) (auto split: option.splits)

definition wm_at :: "('s \<Rightarrow> u64) \<Rightarrow> u64 \<Rightarrow> nat \<Rightarrow> 's \<Rightarrow> bool" where
  "wm_at pc base p s \<longleftrightarrow> pc s = base + of_nat (4 * p)"

lemma wm_at_word:
  assumes "wm_at pc base p s" "4 * p < 2 ^ 64"
  shows "unat (pc s - base) = 4 * p"
  using assms by (simp add: wm_at_def unat_of_nat take_bit_nat_eq_self del: of_nat_mult)

text \<open>Instructions that fall through run one after the other, wherever they stand in a program.\<close>

locale word_machine =
  fixes decode :: "'w \<Rightarrow> 'i option" and plain :: "'i \<Rightarrow> bool" and exec :: "'i \<Rightarrow> 's \<Rightarrow> 's" and pc :: "'s \<Rightarrow> u64"
  assumes plain_pc: "plain i \<Longrightarrow> pc (exec i s) = pc s + 4"
begin

abbreviation run :: "nat \<Rightarrow> u64 \<Rightarrow> 'w list \<Rightarrow> 's \<Rightarrow> 's option" where
  "run \<equiv> wm_run decode exec pc"

lemma run_straight:
  assumes "map decode ws = map Some is" "list_all plain is" "4 * length (P @ ws @ Q) < 2 ^ 64" "wm_at pc base (length P) s"
  shows "run (length ws) base (P @ ws @ Q) s = Some (fold exec is s) \<and> wm_at pc base (length P + length ws) (fold exec is s)"
  using assms
proof (induction ws arbitrary: "is" P s)
  case (Cons w ws)
  obtain i js where i: "is = i # js" "decode w = Some i" "map decode ws = map Some js"
    using Cons.prems(1) by (cases "is") auto
  have k: "unat (pc s - base) = 4 * length P"
    using Cons.prems(3) by (intro wm_at_word [OF Cons.prems(4)]) simp
  have "wm_at pc base (length (P @ [w])) (exec i s)"
    using plain_pc [of i s] Cons.prems(2,4) i(1) by (simp add: wm_at_def algebra_simps)
  then show ?case
    using Cons.IH [OF i(3), of "P @ [w]" "exec i s"] Cons.prems(2,3) i k by (simp add: wm_step_def Let_def nth_append)
qed simp

text \<open>A piece of code that ends in a jump.\<close>

lemma run_jump:
  assumes "map decode ws = map Some is" "list_all plain is" "decode w = Some j" "4 * length (P @ ws @ [w] @ Q) < 2 ^ 64"
    and "wm_at pc base (length P) s"
  shows "run (Suc (length ws)) base (P @ ws @ [w] @ Q) s = Some (exec j (fold exec is s))
    \<and> wm_at pc base (length P + length ws) (fold exec is s)"
proof -
  have r: "run (length ws) base (P @ ws @ [w] @ Q) s = Some (fold exec is s)" "wm_at pc base (length P + length ws) (fold exec is s)"
    using run_straight [OF assms(1,2), of P "[w] @ Q" base s] assms(4,5) by simp_all
  have "unat (pc (fold exec is s) - base) = 4 * (length P + length ws)"
    using assms(4) by (intro wm_at_word [OF r(2)]) simp
  then have "wm_step decode exec pc base (P @ ws @ [w] @ Q) (fold exec is s) = Some (exec j (fold exec is s))"
    using assms(3) by (simp add: wm_step_def Let_def nth_append)
  then show ?thesis
    using wm_run_add [OF r(1), of 1] r(2) by simp
qed

end

section \<open>Spilled registers\<close>

locale spill_state =
  fixes reg :: "'s \<Rightarrow> u8 \<Rightarrow> u64" and sp :: "'s \<Rightarrow> u64" and memo :: "'s \<Rightarrow> u64 \<Rightarrow> u8"
    and slot :: "Register \<Rightarrow> nat" and reg_ok :: "Register \<Rightarrow> bool" and const_ok :: "u64 \<Rightarrow> bool" and t0 :: u8 and t1 :: u8
  assumes slot_less: "reg_ok r \<Longrightarrow> slot r < 64"
    and slot_inj: "reg_ok r \<Longrightarrow> reg_ok q \<Longrightarrow> slot r = slot q \<Longrightarrow> r = q"
    and scratch: "t0 \<noteq> t1"
begin

definition opd_ok :: "Operand \<Rightarrow> bool" where
  "opd_ok opd \<longleftrightarrow> (case opd of OpConst c \<Rightarrow> const_ok c | OpReg r \<Rightarrow> reg_ok r | _ \<Rightarrow> False)"

definition addr :: "'s \<Rightarrow> Register \<Rightarrow> u64" where
  "addr s r = sp s + of_nat (8 * slot r)"

definition rep :: "(Register \<Rightarrow> u64) \<Rightarrow> 's \<Rightarrow> bool" where
  "rep \<rho> s \<longleftrightarrow> (\<forall>r. reg_ok r \<longrightarrow> read64 (memo s) (addr s r) = \<rho> r)"

text \<open>\<open>r\<close> gets \<open>v\<close>; memory and all other registers stay.\<close>

definition sets :: "u8 \<Rightarrow> u64 \<Rightarrow> 's \<Rightarrow> 's \<Rightarrow> bool" where
  "sets r v s s' \<longleftrightarrow> memo s' = memo s \<and> sp s' = sp s \<and> reg s' = (reg s)(r := v)"

text \<open>The value is in the first scratch register, and nothing but the two scratch registers changed.\<close>

definition computes :: "u64 \<Rightarrow> 's \<Rightarrow> 's \<Rightarrow> bool" where
  "computes v s s' \<longleftrightarrow> memo s' = memo s \<and> sp s' = sp s \<and> reg s' t0 = v \<and> (\<forall>r. r \<noteq> t0 \<longrightarrow> r \<noteq> t1 \<longrightarrow> reg s' r = reg s r)"

text \<open>\<open>v\<close> is stored in the slot of \<open>d\<close>; only the two scratch registers change otherwise.\<close>

definition writes :: "Register \<Rightarrow> u64 \<Rightarrow> 's \<Rightarrow> 's \<Rightarrow> bool" where
  "writes d v s s' \<longleftrightarrow> memo s' = write64 (memo s) (addr s d) v \<and> sp s' = sp s \<and> (\<forall>r. r \<noteq> t0 \<longrightarrow> r \<noteq> t1 \<longrightarrow> reg s' r = reg s r)"

lemma rep_cong: "memo s' = memo s \<Longrightarrow> sp s' = sp s \<Longrightarrow> rep \<rho> s' = rep \<rho> s"
  by (simp add: rep_def addr_def)

lemma set_computes: "sets t0 v s s' \<Longrightarrow> computes v s s'"
  by (simp add: sets_def computes_def)

text \<open>Storing to the slot of one register changes the value of that one only.\<close>

lemma rep_writes:
  assumes "rep \<rho> s" "reg_ok d" "writes d v s s'"
  shows "rep (\<rho>(d := v)) s'"
  unfolding rep_def
proof (intro allI impI)
  fix r
  assume r: "reg_ok r"
  have "addr s' r = addr s r" "memo s' = write64 (memo s) (sp s + of_nat (8 * slot d)) v"
    using assms(3) by (simp_all add: addr_def writes_def)
  then show "read64 (memo s') (addr s' r) = (\<rho>(d := v)) r"
    using read_write_slot [OF slot_less [OF assms(2)] slot_less [OF r], of "memo s" "sp s" v] slot_inj [OF r assms(2)] assms(1) r
    by (auto simp: rep_def addr_def simp del: of_nat_mult)
qed

end

locale spill_machine = spill_state reg sp memo slot reg_ok const_ok t0 t1
  for reg :: "'s \<Rightarrow> u8 \<Rightarrow> u64" and sp and memo and slot and reg_ok and const_ok and t0 and t1 +
  fixes decode :: "'w \<Rightarrow> 'i option" and plain :: "'i \<Rightarrow> bool" and exec :: "'i \<Rightarrow> 's \<Rightarrow> 's"
    and load :: "Operand \<Rightarrow> u8 \<Rightarrow> 'w list" and store :: "Register \<Rightarrow> u8 \<Rightarrow> 'w list" and alu :: "Opcode \<Rightarrow> 'w list option" and negate :: "'w list"
  assumes loads: "opd_ok opd \<Longrightarrow> r = t0 \<or> r = t1 \<Longrightarrow> \<exists>is. map decode (load opd r) = map Some is \<and> list_all plain is \<and>
      (\<forall>\<rho> s. rep \<rho> s \<longrightarrow> sets r (opd_val \<rho> opd) s (fold exec is s))"
    and stores: "reg_ok d \<Longrightarrow> \<exists>is. map decode (store d t0) = map Some is \<and> list_all plain is \<and>
      (\<forall>s. memo (fold exec is s) = write64 (memo s) (addr s d) (reg s t0) \<and> sp (fold exec is s) = sp s \<and> reg (fold exec is s) = reg s)"
    and alus: "alu opc = Some ws \<Longrightarrow> \<exists>is. map decode ws = map Some is \<and> list_all plain is \<and>
      (\<forall>s v. fold_const opc (reg s t0) (reg s t1) = Some v \<longrightarrow> sets t0 v s (fold exec is s))"
    and alu_ops: "alu opc = Some ws \<Longrightarrow> opc \<notin> {MOVE, MOVE_CONST, NEG_I64, POPCOUNT_I64, LZCNT_I64}"
    and negs: "\<exists>is. map decode negate = map Some is \<and> list_all plain is \<and> (\<forall>s. sets t0 (- reg s t0) s (fold exec is s))"
begin

text \<open>The words decode to instructions that fall through and assign the value of the reference.\<close>

definition lowers :: "'w list \<Rightarrow> Instruction \<Rightarrow> bool" where
  "lowers ws i \<longleftrightarrow> (\<exists>is. map decode ws = map Some is \<and> list_all plain is \<and>
     (\<forall>\<rho> s v. rep \<rho> s \<longrightarrow> ir_result i \<rho> = Some v \<longrightarrow> writes (op_reg (dest i)) v s (fold exec is s)))"

lemma code_store:
  assumes "map decode ws = map Some is" "list_all plain is" "reg_ok (op_reg (dest i))"
    and "\<And>\<rho> s v. rep \<rho> s \<Longrightarrow> ir_result i \<rho> = Some v \<Longrightarrow> computes v s (fold exec is s)"
  shows "lowers (ws @ store (op_reg (dest i)) t0) i"
proof -
  obtain js where js: "map decode (store (op_reg (dest i)) t0) = map Some js" "list_all plain js"
    "\<And>s. memo (fold exec js s) = write64 (memo s) (addr s (op_reg (dest i))) (reg s t0) \<and> sp (fold exec js s) = sp s
      \<and> reg (fold exec js s) = reg s"
    using stores [OF assms(3)] by blast
  then show ?thesis
    unfolding lowers_def using assms(1,2,4)
    by (intro exI [of _ "is @ js"]) (auto simp: computes_def writes_def addr_def)
qed

lemma code_move:
  assumes "op i = MOVE" "opd_ok (src1 i)" "reg_ok (op_reg (dest i))"
  shows "lowers (load (src1 i) t0 @ store (op_reg (dest i)) t0) i"
proof -
  obtain js where "map decode (load (src1 i) t0) = map Some js" "list_all plain js"
    "\<And>\<rho> s. rep \<rho> s \<Longrightarrow> sets t0 (opd_val \<rho> (src1 i)) s (fold exec js s)"
    using loads [OF assms(2), of t0] by blast
  then show ?thesis
    using assms(1,3) set_computes by (intro code_store) (auto simp: ir_result_def)
qed

lemma code_move_const:
  assumes "op i = MOVE_CONST" "const_ok (op_const (src1 i))" "reg_ok (op_reg (dest i))"
  shows "lowers (load (OpConst (op_const (src1 i))) t0 @ store (op_reg (dest i)) t0) i"
proof -
  obtain js where "map decode (load (OpConst (op_const (src1 i))) t0) = map Some js" "list_all plain js"
    "\<And>\<rho> s. rep \<rho> s \<Longrightarrow> sets t0 (opd_val \<rho> (OpConst (op_const (src1 i)))) s (fold exec js s)"
    using loads [of "OpConst (op_const (src1 i))" t0] assms(2) by (auto simp: opd_ok_def)
  then show ?thesis
    using assms(1,3) set_computes by (intro code_store) (auto simp: ir_result_def Let_def opd_val_def)
qed

lemma code_neg:
  assumes "op i = NEG_I64" "opd_ok (src1 i)" "reg_ok (op_reg (dest i))"
  shows "lowers ((load (src1 i) t0 @ negate) @ store (op_reg (dest i)) t0) i"
proof -
  obtain js where js: "map decode (load (src1 i) t0) = map Some js" "list_all plain js"
    "\<And>\<rho> s. rep \<rho> s \<Longrightarrow> sets t0 (opd_val \<rho> (src1 i)) s (fold exec js s)"
    using loads [OF assms(2), of t0] by blast
  obtain ks where ks: "map decode negate = map Some ks" "list_all plain ks" "\<And>s. sets t0 (- reg s t0) s (fold exec ks s)"
    using negs by blast
  have "computes v s (fold exec (js @ ks) s)" if "rep \<rho> s" "ir_result i \<rho> = Some v" for \<rho> s v
    using js(3) [OF that(1)] ks(3) [of "fold exec js s"] that(2) assms(1)
    by (auto simp: ir_result_def Let_def sets_def computes_def)
  then show ?thesis
    using js(1,2) ks(1,2) assms(3) by (intro code_store [of _ "js @ ks"]) auto
qed

lemma load_both:
  assumes "opd_ok a" "opd_ok b"
  obtains "is" where "map decode (load a t0 @ load b t1) = map Some is" "list_all plain is"
    "\<And>\<rho> s. rep \<rho> s \<Longrightarrow> memo (fold exec is s) = memo s \<and> sp (fold exec is s) = sp s
       \<and> reg (fold exec is s) = (reg s)(t0 := opd_val \<rho> a, t1 := opd_val \<rho> b)"
proof -
  obtain js where js: "map decode (load a t0) = map Some js" "list_all plain js"
    "\<And>\<rho> s. rep \<rho> s \<Longrightarrow> sets t0 (opd_val \<rho> a) s (fold exec js s)"
    using loads [OF assms(1), of t0] by blast
  obtain ks where ks: "map decode (load b t1) = map Some ks" "list_all plain ks"
    "\<And>\<rho> s. rep \<rho> s \<Longrightarrow> sets t1 (opd_val \<rho> b) s (fold exec ks s)"
    using loads [OF assms(2), of t1] by blast
  show ?thesis
  proof (rule that [of "js @ ks"])
    fix \<rho> s
    assume r: "rep \<rho> s"
    then have a: "sets t0 (opd_val \<rho> a) s (fold exec js s)"
      by (rule js(3))
    then have "rep \<rho> (fold exec js s)"
      using r rep_cong [of "fold exec js s" s \<rho>] by (simp add: sets_def)
    then show "memo (fold exec (js @ ks) s) = memo s \<and> sp (fold exec (js @ ks) s) = sp s
        \<and> reg (fold exec (js @ ks) s) = (reg s)(t0 := opd_val \<rho> a, t1 := opd_val \<rho> b)"
      using a ks(3) [of \<rho> "fold exec js s"] by (simp add: sets_def)
  qed (use js ks in simp_all)
qed

lemma alu_value:
  assumes "alu (op i) = Some ws" "ir_result i \<rho> = Some v"
  shows "fold_const (op i) (opd_val \<rho> (src1 i)) (opd_val \<rho> (src2 i)) = Some v"
proof -
  have "map_option word_of_int (ir_alu (op i) (sint (opd_val \<rho> (src1 i))) (sint (opd_val \<rho> (src2 i)))) = Some v"
    using assms(2) alu_ops [OF assms(1)] by (auto simp: ir_result_def Let_def split: if_splits)
  then show ?thesis
    unfolding fold_const_ir [symmetric] by (auto simp: option.map_comp)
qed

lemma code_alu:
  assumes a: "alu (op i) = Some ws" and o: "opd_ok (src1 i)" "opd_ok (src2 i)" and d: "reg_ok (op_reg (dest i))"
  shows "lowers (((load (src1 i) t0 @ load (src2 i) t1) @ ws) @ store (op_reg (dest i)) t0) i"
proof (rule load_both [OF o])
  fix js
  assume js: "map decode (load (src1 i) t0 @ load (src2 i) t1) = map Some js" "list_all plain js"
    "\<And>\<rho> s. rep \<rho> s \<Longrightarrow> memo (fold exec js s) = memo s \<and> sp (fold exec js s) = sp s
       \<and> reg (fold exec js s) = (reg s)(t0 := opd_val \<rho> (src1 i), t1 := opd_val \<rho> (src2 i))"
  obtain ks where ks: "map decode ws = map Some ks" "list_all plain ks"
    "\<And>s v. fold_const (op i) (reg s t0) (reg s t1) = Some v \<Longrightarrow> sets t0 v s (fold exec ks s)"
    using alus [OF a] by blast
  have "computes v s (fold exec (js @ ks) s)" if "rep \<rho> s" "ir_result i \<rho> = Some v" for \<rho> s v
  proof -
    have "reg (fold exec js s) t0 = opd_val \<rho> (src1 i)" "reg (fold exec js s) t1 = opd_val \<rho> (src2 i)"
      using js(3) [OF that(1)] scratch by simp_all
    then have "sets t0 v (fold exec js s) (fold exec ks (fold exec js s))"
      using ks(3) [of "fold exec js s" v] alu_value [OF a that(2)] by simp
    then show ?thesis
      using js(3) [OF that(1)] by (simp add: sets_def computes_def)
  qed
  then show ?thesis
    using js(1,2) ks(1,2) d by (intro code_store [of _ "js @ ks"]) auto
qed

definition straight :: "Instruction \<Rightarrow> bool" where
  "straight i \<longleftrightarrow> (case dest i of OpReg d \<Rightarrow> reg_ok d | _ \<Rightarrow> False)
     \<and> (op i \<in> {MOVE, NEG_I64} \<and> opd_ok (src1 i) \<or> op i = MOVE_CONST \<and> const_ok (op_const (src1 i))
        \<or> alu (op i) \<noteq> None \<and> opd_ok (src1 i) \<and> opd_ok (src2 i))"

lemma code_straight:
  assumes "straight i"
    and "op i = MOVE \<Longrightarrow> ws = load (src1 i) t0 @ store (op_reg (dest i)) t0"
    and "op i = MOVE_CONST \<Longrightarrow> ws = load (OpConst (op_const (src1 i))) t0 @ store (op_reg (dest i)) t0"
    and "op i = NEG_I64 \<Longrightarrow> ws = (load (src1 i) t0 @ negate) @ store (op_reg (dest i)) t0"
    and "\<And>vs. alu (op i) = Some vs \<Longrightarrow> ws = ((load (src1 i) t0 @ load (src2 i) t1) @ vs) @ store (op_reg (dest i)) t0"
  shows "lowers ws i" "reg_ok (op_reg (dest i))"
proof -
  show d: "reg_ok (op_reg (dest i))"
    using assms(1) by (auto simp: straight_def split: Operand.splits)
  consider "op i = MOVE" "opd_ok (src1 i)" | "op i = NEG_I64" "opd_ok (src1 i)" | "op i = MOVE_CONST" "const_ok (op_const (src1 i))"
    | vs where "alu (op i) = Some vs" "opd_ok (src1 i)" "opd_ok (src2 i)"
    using assms(1) unfolding straight_def by blast
  then show "lowers ws i"
    using assms(2-5) d by cases (simp_all only: code_move code_neg code_move_const code_alu)
qed

end

section \<open>Frames\<close>

text \<open>
  The frame of a call takes \<open>n\<close> slots below the caller's stack pointer. The slots \<open>saved\<close>
  hold values of the caller; registers other than the \<open>dirty\<close> ones, and memory outside the
  frame, are the caller's. \<open>s0\<close> is the state at the entry of the function.
\<close>

locale spill_frame = spill_machine reg sp memo slot reg_ok const_ok t0 t1 decode plain exec load store alu negate
    + word_machine decode plain exec pc
  for reg :: "'s \<Rightarrow> u8 \<Rightarrow> u64" and sp and memo and slot and reg_ok and const_ok and t0 and t1
    and decode :: "'w \<Rightarrow> 'i option" and plain and exec and load and store and alu and negate and pc +
  fixes n :: nat and saved :: "'s \<Rightarrow> (nat \<times> u64) list" and dirty :: "u8 set"
  assumes frame_size: "n < 64"
    and saved_slots: "(k, v) \<in> set (saved s) \<Longrightarrow> k < n \<and> (reg_ok r \<longrightarrow> slot r \<noteq> k)"
    and slot_frame: "reg_ok r \<Longrightarrow> slot r < n"
    and dirty_scratch: "t0 \<in> dirty" "t1 \<in> dirty"
begin

definition fsp :: "'s \<Rightarrow> u64" where
  "fsp s0 = sp s0 - of_nat (8 * n)"

definition inv :: "'s \<Rightarrow> 's \<Rightarrow> bool" where
  "inv s0 s \<longleftrightarrow> sp s = fsp s0 \<and> (\<forall>(k, v) \<in> set (saved s0). read64 (memo s) (fsp s0 + of_nat (8 * k)) = v)
     \<and> (\<forall>r. r \<notin> dirty \<longrightarrow> reg s r = reg s0 r) \<and> (\<forall>x. \<not> x - fsp s0 < of_nat (8 * n) \<longrightarrow> memo s x = memo s0 x)"

lemma inv_cong:
  "inv s0 s \<Longrightarrow> sp s' = sp s \<Longrightarrow> memo s' = memo s \<Longrightarrow> (\<And>r. r \<notin> dirty \<Longrightarrow> reg s' r = reg s r) \<Longrightarrow> inv s0 s'"
  by (simp add: inv_def)

lemma inv_writes:
  assumes "inv s0 s" "writes d v s s'" "reg_ok d"
  shows "inv s0 s'"
proof -
  have m: "memo s' = write64 (memo s) (fsp s0 + of_nat (8 * slot d)) v"
    using assms(1,2) by (simp add: inv_def writes_def addr_def)
  have r: "read64 (memo s') (fsp s0 + of_nat (8 * k)) = w" if "(k, w) \<in> set (saved s0)" for k w
    using read_write_slot [OF slot_less [OF assms(3)], of k "memo s" "fsp s0" v] saved_slots [OF that, of d] frame_size assms(1,3) that
    unfolding m by (auto simp: inv_def simp del: of_nat_mult)
  have o: "memo s' x = memo s x" if "\<not> x - fsp s0 < of_nat (8 * n)" for x
    unfolding m by (rule write64_out [OF slot_frame [OF assms(3)] frame_size that])
  have "reg s' q = reg s q" if "q \<notin> dirty" for q
    using assms(2) that dirty_scratch by (auto simp: writes_def)
  then show ?thesis
    using assms(1,2) r o unfolding inv_def writes_def by auto
qed

lemma run_assigns:
  assumes l: "lowers ws i" "reg_ok (op_reg (dest i))" "ir_result i \<rho> = Some v" and small: "4 * length (P @ ws @ Q) < 2 ^ 64"
    and s: "wm_at pc base (length P) s" "rep \<rho> s" "inv s0 s"
  shows "\<exists>k s'. run k base (P @ ws @ Q) s = Some s' \<and> wm_at pc base (length P + length ws) s'
    \<and> rep (\<rho>(op_reg (dest i) := v)) s' \<and> inv s0 s'"
proof -
  obtain js where js: "map decode ws = map Some js" "list_all plain js" "writes (op_reg (dest i)) v s (fold exec js s)"
    using l(1,3) s(2) unfolding lowers_def by blast
  show ?thesis
    using run_straight [OF js(1,2) small s(1)] rep_writes [OF s(2) l(2) js(3)] inv_writes [OF s(3) js(3) l(2)] by blast
qed

text \<open>Entry: the saved slots and the parameters, whose slots hold what the convention passes.\<close>

lemma enters_frame:
  assumes s: "memo s' = slots (fsp s) ws (memo s)" "sp s' = fsp s" "\<And>r. r \<notin> dirty \<Longrightarrow> reg s' r = reg s r"
    and ws: "distinct (map fst ws)" "\<forall>(k, v) \<in> set ws. k < n" "set (saved s) \<subseteq> set ws"
    and \<rho>: "\<And>r. reg_ok r \<Longrightarrow> \<rho> r = (case map_of ws (slot r) of Some v \<Rightarrow> v | None \<Rightarrow> read64 (memo s) (fsp s + of_nat (8 * slot r)))"
  shows "rep \<rho> s' \<and> inv s s'"
proof
  have k: "\<forall>(k, v) \<in> set ws. k < 64"
    using ws(2) frame_size by auto
  have r: "read64 (memo s') (fsp s + of_nat (8 * j)) = (case map_of ws j of Some v \<Rightarrow> v | None \<Rightarrow> read64 (memo s) (fsp s + of_nat (8 * j)))"
    if "j < n" for j
    unfolding s(1) by (rule read_slots [OF ws(1) k]) (use that frame_size in simp)
  show "rep \<rho> s'"
    unfolding rep_def addr_def s(2) using r [OF slot_frame] \<rho> by simp
  have "read64 (memo s') (fsp s + of_nat (8 * j)) = v" if "(j, v) \<in> set (saved s)" for j v
    using r [of j] saved_slots [OF that] map_of_is_SomeI [OF ws(1), of j v] that ws(3) by auto
  then show "inv s s'"
    using s slots_out [OF ws(2) frame_size] unfolding inv_def by auto
qed

end

end
