(* ===== verification/Rv64_Correct.thy ===== *)
theory Rv64_Correct
  imports Rv64 Spill_Machine
begin

text \<open>
  Correctness of the RISC-V backend: a machine that runs the decoded words, what the
  composite emitters compute on it, and that a compiled sequence of instructions computes
  what the reference semantics of the intermediate representation computes.
\<close>

unbundle bit_operations_syntax

section \<open>Execution\<close>

record rvstate =
  xr :: "u8 \<Rightarrow> u64"
  xm :: "u64 \<Rightarrow> u8"
  xpc :: u64

definition rget :: "rvstate \<Rightarrow> u8 \<Rightarrow> u64" where
  "rget s r = (if r = 0 then 0 else xr s r)"

definition rset :: "u8 \<Rightarrow> u64 \<Rightarrow> rvstate \<Rightarrow> rvstate" where
  "rset r v s = (if r = 0 then s else s\<lparr>xr := (xr s)(r := v)\<rparr>)"

definition rv_next :: "rvstate \<Rightarrow> rvstate" where
  "rv_next s = s\<lparr>xpc := xpc s + 4\<rparr>"

fun rv_alu :: "rvop \<Rightarrow> u64 \<Rightarrow> u64 \<Rightarrow> u64" where
  "rv_alu RV_ADD a b = a + b"
| "rv_alu RV_SUB a b = a - b"
| "rv_alu RV_MUL a b = a * b"
| "rv_alu RV_DIV a b = (if b = 0 then - 1 else word_sdiv a b)"
| "rv_alu RV_AND a b = a AND b"
| "rv_alu RV_OR a b = a OR b"
| "rv_alu RV_XOR a b = a XOR b"
| "rv_alu RV_SLL a b = push_bit (unat (take_bit 6 b)) a"
| "rv_alu RV_SRL a b = drop_bit (unat (take_bit 6 b)) a"

fun rv_taken :: "rvcond \<Rightarrow> u64 \<Rightarrow> u64 \<Rightarrow> bool" where
  "rv_taken RV_EQ a b = (a = b)"
| "rv_taken RV_NE a b = (a \<noteq> b)"
| "rv_taken RV_LT a b = (a <s b)"
| "rv_taken RV_GE a b = (b \<le>s a)"

fun rv_exec :: "rvinsn \<Rightarrow> rvstate \<Rightarrow> rvstate" where
  "rv_exec (ROP f rd rs1 rs2) s = rv_next (rset rd (rv_alu f (rget s rs1) (rget s rs2)) s)"
| "rv_exec (ADDI rd rs1 i) s = rv_next (rset rd (rget s rs1 + i) s)"
| "rv_exec (LD rd rs1 i) s = rv_next (rset rd (read64 (xm s) (rget s rs1 + i)) s)"
| "rv_exec (SD rs2 rs1 i) s = rv_next (s\<lparr>xm := write64 (xm s) (rget s rs1 + i) (rget s rs2)\<rparr>)"
| "rv_exec (LUI rd i) s = rv_next (rset rd i s)"
| "rv_exec (BRANCH c rs1 rs2 i) s = (if rv_taken c (rget s rs1) (rget s rs2) then s\<lparr>xpc := xpc s + i\<rparr> else rv_next s)"
| "rv_exec (JAL rd i) s = rset rd (xpc s + 4) (s\<lparr>xpc := xpc s + i\<rparr>)"
| "rv_exec (JALR rd rs1 i) s = rset rd (xpc s + 4) (s\<lparr>xpc := (rget s rs1 + i) AND NOT 1\<rparr>)"

fun falls_through :: "rvinsn \<Rightarrow> bool" where
  "falls_through (BRANCH _ _ _ _) = False"
| "falls_through (JAL _ _) = False"
| "falls_through (JALR _ _ _) = False"
| "falls_through _ = True"

lemma falls_through_pc: "falls_through i \<Longrightarrow> xpc (rv_exec i s) = xpc s + 4"
  by (cases i) (simp_all add: rv_next_def rset_def)

section \<open>Constants\<close>

lemma word_signed_shift: "signed_take_bit n (w :: u64) = take_bit (Suc n) (w + 2 ^ n) - 2 ^ n" if "n < 63"
proof -
  have "signed_take_bit n (word_of_int k :: u64) = word_of_int (signed_take_bit n k)" if "n < 63" for k
    using that by (intro bit_eqI) (auto simp: bit_simps min_def)
  moreover have "take_bit (Suc n) (word_of_int k :: u64) = word_of_int (take_bit (Suc n) k)" for k
    by (rule bit_eqI) (auto simp: bit_simps)
  moreover obtain k where "w = word_of_int k"
    by (metis word_of_int_uint)
  ultimately show ?thesis
    using that signed_take_bit_eq_take_bit_shift [of n k] by (metis of_int_add of_int_diff of_int_power of_int_numeral)
qed

text \<open>The range of constants that two instructions can build.\<close>

definition rv_imm_ok :: "u64 \<Rightarrow> bool" where
  "rv_imm_ok v \<longleftrightarrow> - (2 ^ 31) \<le> sint v \<and> sint v < 2 ^ 31 - 2 ^ 11"

definition rv_hi :: "u64 \<Rightarrow> u64" where
  "rv_hi v = scast (push_bit 12 (take_bit 20 (ucast (drop_bit 12 (v + 0x800)) :: u32)))"

definition rv_lo :: "u64 \<Rightarrow> u64" where
  "rv_lo v = scast (signed_take_bit 11 (ucast v :: u32))"

lemma rv_lo_signed: "rv_lo v = signed_take_bit 11 v"
  unfolding rv_lo_def by (rule bit_eqI) (auto simp: bit_simps min_def)

lemma signed_31:
  fixes u :: u64
  assumes "- (2 ^ 31) \<le> sint u" "sint u < 2 ^ 31"
  shows "signed_take_bit 31 u = u"
proof -
  have "signed_take_bit 31 (sint u) = sint u"
    using assms by (intro signed_take_bit_int_eq_self) simp_all
  moreover have "signed_take_bit 31 u = word_of_int (signed_take_bit 31 (sint u))"
    by (rule bit_eqI) (auto simp: bit_simps min_def bit_sint_iff)
  ultimately show ?thesis
    by simp
qed

lemma rv_hi_mask:
  fixes u :: u64
  assumes "signed_take_bit 31 u = u"
  shows "scast (push_bit 12 (take_bit 20 (ucast (drop_bit 12 u) :: u32))) = u AND NOT (mask 12)"
proof (rule bit_eqI)
  fix n
  assume n: "possible_bit TYPE(u64) n"
  then have b: "bit u n \<longleftrightarrow> bit u (min n 31)"
    by (subst assms [symmetric]) (simp add: bit_simps min.commute)
  consider "n < 12" | "12 \<le> n" "n < 31" | "31 \<le> n" by linarith
  then show "bit (scast (push_bit 12 (take_bit 20 (ucast (drop_bit 12 u) :: u32))) :: u64) n = bit (u AND NOT (mask 12)) n"
    using b n by cases (auto simp: bit_simps min_def)
qed

lemma rv_hi_lo:
  assumes "rv_imm_ok v"
  shows "rv_hi v + rv_lo v = v"
proof -
  let ?u = "v + 0x800 :: u64"
  have "sint ?u = sint v + 2 ^ 11"
    using assms by (simp add: rv_imm_ok_def sint_word_ariths signed_take_bit_int_eq_self_iff)
  then have "signed_take_bit 31 ?u = ?u"
    using assms by (intro signed_31) (simp_all add: rv_imm_ok_def)
  then have "rv_hi v = ?u AND NOT (mask 12)"
    unfolding rv_hi_def by (rule rv_hi_mask)
  also have "\<dots> = ?u - take_bit 12 ?u"
    by (metis add_diff_cancel_right' and_not_mask_eq bits_ident take_bit_eq_mask)
  finally show ?thesis
    using word_signed_shift [of 11 v] by (simp add: rv_lo_signed)
qed

text \<open>The sign-extended low part, as the emitter computes it.\<close>

lemma lo12_signed:
  fixes v :: u64
  defines "lo \<equiv> ucast (v AND 0xFFF) :: u32"
  shows "(if lo AND 0x800 \<noteq> 0 then lo OR 0xFFFFF000 else lo) = signed_take_bit 11 (ucast v)"
proof -
  have c: "lo AND 0x800 \<noteq> 0 \<longleftrightarrow> bit v 11"
    using bit_iff_and_push_bit_not_eq_0 [of lo 11] by (simp add: lo_def and_masks bit_simps)
  have m: "(0xFFFFF000 :: u32) = NOT (mask 12)"
    by (simp add: mask_eq_exp_minus_1)
  show ?thesis
  proof (rule bit_eqI)
    fix n
    assume "possible_bit TYPE(u32) n"
    then show "bit (if lo AND 0x800 \<noteq> 0 then lo OR 0xFFFFF000 else lo) n = bit (signed_take_bit 11 (ucast v :: u32)) n"
      unfolding c m by (cases "n < 12"; cases "n = 11"; cases "bit v 11") (auto simp: lo_def and_masks bit_simps min_def)
  qed
qed

definition rv_mov_code :: "u8 \<Rightarrow> u64 \<Rightarrow> rvinsn list" where
  "rv_mov_code rd v = LUI rd (rv_hi v) # (if rv_lo v \<noteq> 0 \<or> v = 0 then [ADDI rd rd (rv_lo v)] else [])"

lemma rv_decodes_mov_imm: "regs5 [rd] \<Longrightarrow> rv_decodes (rv_mov_imm64 rd v) (rv_mov_code rd v)"
proof -
  assume r: "regs5 [rd]"
  let ?lo = "signed_take_bit 11 (ucast v :: u32)"
  have z: "rv_lo v = 0 \<longleftrightarrow> ?lo = 0"
    unfolding rv_lo_def by (metis scast_0 ucast_scast unsigned_0)
  have "signed_take_bit 11 ?lo = ?lo"
    by simp
  then have "rv_decodes (rv_addi rd rd ?lo) [ADDI rd rd (rv_lo v)]"
    using rv_decodes_imm(1) [of rd rd ?lo] r by (simp add: rv_lo_def regs5_def)
  moreover have "rv_decodes (rv_lui rd (ucast (drop_bit 12 (v + 0x800)) AND 0xFFFFF)) [LUI rd (rv_hi v)]"
    using rv_decodes_imm(5) [of rd rd "ucast (drop_bit 12 (v + 0x800)) AND 0xFFFFF"] r
    by (simp add: rv_hi_def regs5_def and_masks)
  ultimately show ?thesis
    using z unfolding rv_mov_imm64_def Let_def lo12_signed rv_mov_code_def
    by (auto intro: rv_decodes_append [of _ "[_]" _ "[_]", simplified] )
qed

lemma mov_code_effect:
  fixes rd v s defines "s' \<equiv> fold rv_exec (rv_mov_code rd v) s"
  assumes "rd \<noteq> 0" "rv_imm_ok v"
  shows "xm s' = xm s" "xr s' = (xr s)(rd := v)"
  using rv_hi_lo [OF assms(3)] assms(2) by (auto simp: s'_def rv_mov_code_def rv_next_def rset_def rget_def)

lemma mov_code_falls: "list_all falls_through (rv_mov_code rd v)"
  by (simp add: rv_mov_code_def)

section \<open>Spill slots\<close>

text \<open>
  Registers with a slot of their own. The mask 23 clears bit 3 of the index of a local, so
  locals whose index has that bit share the slot of another.
\<close>

definition rv_reg :: "Register \<Rightarrow> bool" where
  "rv_reg r \<longleftrightarrow> (case reg_type r of PARAM \<Rightarrow> unat (reg_index r) < 8
     | LOCAL \<Rightarrow> unat (reg_index r) < 24 \<and> \<not> bit (reg_index r) 3 | RT_NONE \<Rightarrow> False)"

definition slot_no :: "Register \<Rightarrow> nat" where
  "slot_no r = (if reg_type r = PARAM then 24 else 0) + unat (reg_index r)"

lemma slot_no_inj: "rv_reg r \<Longrightarrow> rv_reg q \<Longrightarrow> slot_no r = slot_no q \<Longrightarrow> r = q"
  by (cases r; cases q; cases "reg_type r"; cases "reg_type q") (auto simp: rv_reg_def slot_no_def intro: word_unat_eq_iff [THEN iffD2])

lemma slot_no_less: "rv_reg r \<Longrightarrow> slot_no r < 32"
  by (auto simp: rv_reg_def slot_no_def split: RegisterType.splits)

lemma and_23:
  fixes i :: u32
  assumes "unat i < 24" "\<not> bit i 3"
  shows "i AND 23 = i"
proof -
  have "list_all (\<lambda>k. bit (of_nat k :: u32) 3 \<or> of_nat k AND 23 = (of_nat k :: u32)) [0..<24]"
    by code_simp
  then have "bit (of_nat (unat i) :: u32) 3 \<or> of_nat (unat i) AND 23 = (of_nat (unat i) :: u32)"
    unfolding list_all_iff by (rule bspec) (use assms(1) in simp)
  then show ?thesis
    using assms(2) by simp
qed

lemma and_7: "unat (i :: u32) < 8 \<Longrightarrow> i AND 7 = i"
  by (simp add: and_masks word_unat_eq_iff unsigned_take_bit_eq take_bit_nat_eq_self)

lemma slot_offset:
  assumes "rv_reg r"
  shows "scast (signed_take_bit 11 (rv_slot r)) = (of_nat (8 * slot_no r) :: u64)"
proof -
  have "rv_slot r = of_nat (8 * slot_no r)"
    using assms by (cases "reg_type r") (auto simp: rv_reg_def rv_slot_def slot_no_def and_23 and_7)
  moreover have "list_all (\<lambda>k. scast (signed_take_bit 11 (of_nat (8 * k) :: u32)) = (of_nat (8 * k) :: u64)) [0..<32]"
    by code_simp
  ultimately show ?thesis
    using slot_no_less [OF assms] by (simp only: list_all_iff set_upt) auto
qed

section \<open>Straight-line code\<close>

lemma rv_decodes_store_reg: "rv_reg d \<Longrightarrow> regs5 [r] \<Longrightarrow> rv_decodes (rv_store_reg d r) [SD r 2 (of_nat (8 * slot_no d))]"
  using rv_decodes_imm(4) [of r 2 "rv_slot d"] by (simp add: rv_store_reg_def slot_offset regs5_def)

definition rv_op_of :: "Opcode \<Rightarrow> rvop option" where
  "rv_op_of opc = map_of [(ADD_I64, RV_ADD), (SUB_I64, RV_SUB), (MUL_I64, RV_MUL), (DIV_I64, RV_DIV), (AND_I64, RV_AND),
     (OR_I64, RV_OR), (XOR_I64, RV_XOR), (SHL_I64, RV_SLL), (USHR_I64, RV_SRL)] opc"

definition rv_emit_of :: "rvop \<Rightarrow> Rv64Reg \<Rightarrow> Rv64Reg \<Rightarrow> Rv64Reg \<Rightarrow> rv_words" where
  "rv_emit_of f = (case f of RV_ADD \<Rightarrow> rv_add | RV_SUB \<Rightarrow> rv_sub | RV_MUL \<Rightarrow> rv_mul | RV_DIV \<Rightarrow> rv_div | RV_AND \<Rightarrow> rv_and
     | RV_OR \<Rightarrow> rv_or | RV_XOR \<Rightarrow> rv_xor | RV_SLL \<Rightarrow> rv_sll | RV_SRL \<Rightarrow> rv_srl)"

lemma rv_decodes_emit_of: "regs5 [a, b, c] \<Longrightarrow> rv_decodes (rv_emit_of f a b c) [ROP f a b c]"
  using rv_decodes_rop [of a b c] by (cases f) (simp_all add: rv_emit_of_def)

definition rv_alu_words :: "Opcode \<Rightarrow> rv_words option" where
  "rv_alu_words opc = map_option (\<lambda>f. rv_emit_of f RV_T0 RV_T0 RV_T1) (rv_op_of opc)"

lemma word_sdiv_minus_1: "word_sdiv a (- 1 :: u64) = 0 - a"
  by (simp add: word_sdiv_def)

lemma count_take: "unat ((ucast (b :: u64) :: u32) AND 63) = unat (take_bit 6 b)"
proof -
  have "unat (take_bit 6 (ucast b :: u32)) = unat (take_bit 6 b)"
    by (simp add: unsigned_take_bit_eq unsigned_ucast_eq)
  then show ?thesis
    by (simp add: and_masks)
qed

lemma rv_alu_value: "rv_op_of opc = Some f \<Longrightarrow> fold_const opc a b = Some v \<Longrightarrow> rv_alu f a b = v"
  by (auto simp: rv_op_of_def fold_const_def Let_def count_take word_sdiv_minus_1 split: if_splits)

lemma regs5_all: "regs5 [5]" "regs5 [6]" "regs5 [10]" "regs5 [5, 5, 6]" "regs5 [5, 0, 5]"
  by (simp_all add: regs5_def)

abbreviation rv_sp :: "rvstate \<Rightarrow> u64" where
  "rv_sp s \<equiv> xr s 2"

definition rv_saved :: "rvstate \<Rightarrow> (nat \<times> u64) list" where
  "rv_saved s = [(32, xr s 8), (33, xr s 1)]"

interpretation rvs: spill_state xr rv_sp xm slot_no rv_reg rv_imm_ok RV_T0 RV_T1
  by unfold_locales (use slot_no_less in \<open>force simp: slot_no_inj\<close>)+

text \<open>A loaded operand is in the register; the frame is untouched.\<close>

lemma rv_load_sets:
  assumes "rvs.opd_ok opd" "regs5 [t]" "t \<noteq> 0" "t \<noteq> 2"
  shows "\<exists>is. map rv_decode (rv_load_op opd t) = map Some is \<and> list_all falls_through is
    \<and> (\<forall>\<rho> s. rvs.rep \<rho> s \<longrightarrow> rvs.sets t (opd_val \<rho> opd) s (fold rv_exec is s))"
proof (cases opd)
  case (OpConst c)
  then show ?thesis
    using rv_decodes_mov_imm [OF assms(2), of c] mov_code_falls mov_code_effect [OF assms(3), of c] assms(1,4)
    by (intro exI [of _ "rv_mov_code t c"]) (simp add: rv_load_op_def rv_decodes_def rvs.sets_def rvs.opd_ok_def opd_val_def)
next
  case (OpReg r)
  then have r: "rv_reg r"
    using assms(1) by (simp add: rvs.opd_ok_def)
  then have "map rv_decode (rv_load_op opd t) = map Some [LD t 2 (of_nat (8 * slot_no r))]"
    using OpReg rv_decodes_imm(2) [of t 2 "rv_slot r"] assms(2) by (simp add: rv_load_op_def rv_decodes_def slot_offset regs5_def)
  then show ?thesis
    using OpReg assms(3,4) r by (intro exI [of _ "[LD t 2 (of_nat (8 * slot_no r))]"])
      (simp add: rvs.sets_def rvs.rep_def rvs.addr_def opd_val_def rv_next_def rset_def rget_def)
qed (use assms(1) in \<open>simp_all add: rvs.opd_ok_def\<close>)

section \<open>The backend as a spilling compiler\<close>

interpretation rvf: spill_frame xr rv_sp xm slot_no rv_reg rv_imm_ok RV_T0 RV_T1 rv_decode falls_through rv_exec rv_load_op
  rv_store_reg rv_alu_words "rv_sub RV_T0 RV_ZERO RV_T0" xpc 34 rv_saved "{2, 5, 6, 8}"
proof unfold_locales
  show "\<exists>is. map rv_decode (rv_load_op opd r) = map Some is \<and> list_all falls_through is
      \<and> (\<forall>\<rho> s. rvs.rep \<rho> s \<longrightarrow> rvs.sets r (opd_val \<rho> opd) s (fold rv_exec is s))"
    if "rvs.opd_ok opd" "r = RV_T0 \<or> r = RV_T1" for opd r
    using rv_load_sets [OF that(1), of r] that(2) regs5_all by auto
  show "\<exists>is. map rv_decode (rv_store_reg d RV_T0) = map Some is \<and> list_all falls_through is
      \<and> (\<forall>s. xm (fold rv_exec is s) = write64 (xm s) (rvs.addr s d) (xr s RV_T0) \<and> rv_sp (fold rv_exec is s) = rv_sp s
        \<and> xr (fold rv_exec is s) = xr s)" if "rv_reg d" for d
    using rv_decodes_store_reg [OF that regs5_all(1)]
    by (intro exI [of _ "[SD 5 2 (of_nat (8 * slot_no d))]"]) (simp add: rv_decodes_def rvs.addr_def rv_next_def rget_def)
  show "\<exists>is. map rv_decode ws = map Some is \<and> list_all falls_through is
      \<and> (\<forall>s v. fold_const opc (xr s RV_T0) (xr s RV_T1) = Some v \<longrightarrow> rvs.sets RV_T0 v s (fold rv_exec is s))"
    if a: "rv_alu_words opc = Some ws" for opc ws
  proof -
    obtain f where f: "rv_op_of opc = Some f" "ws = rv_emit_of f RV_T0 RV_T0 RV_T1"
      using a by (auto simp: rv_alu_words_def)
    then show ?thesis
      using rv_decodes_emit_of [OF regs5_all(4), of f] rv_alu_value [OF f(1)]
      by (intro exI [of _ "[ROP f 5 5 6]"]) (simp add: rv_decodes_def rvs.sets_def rv_next_def rset_def rget_def)
  qed
  show "\<exists>is. map rv_decode (rv_sub RV_T0 RV_ZERO RV_T0) = map Some is \<and> list_all falls_through is
      \<and> (\<forall>s. rvs.sets RV_T0 (- xr s RV_T0) s (fold rv_exec is s))"
    using rv_decodes_rop(2) [OF regs5_all(5)]
    by (intro exI [of _ "[ROP RV_SUB 5 0 5]"]) (simp add: rv_decodes_def rvs.sets_def rv_next_def rset_def rget_def)
  show "opc \<notin> {MOVE, MOVE_CONST, NEG_I64, POPCOUNT_I64, LZCNT_I64}" if "rv_alu_words opc = Some ws" for opc ws
    using that by (auto simp: rv_alu_words_def rv_op_of_def)
  show "k < 34 \<and> (rv_reg r \<longrightarrow> slot_no r \<noteq> k)" if "(k, v) \<in> set (rv_saved s)" for k v s r
    using that slot_no_less [of r] by (auto simp: rv_saved_def)
  show "slot_no r < 34" if "rv_reg r" for r
    using slot_no_less [OF that] by simp
qed (simp_all add: falls_through_pc)

end
