(* ===== verification/Rv64_Function.thy ===== *)
theory Rv64_Function
  imports Rv64_Correct Sum_Function
begin

text \<open>
  Whole functions on RISC-V: the backend is an instance of the machines of
  \<^theory_text>\<open>Two_Pass\<close>, so the compiled function, called like a function of the platform,
  returns what the reference semantics computes.
\<close>

unbundle bit_operations_syntax

section \<open>Code lengths\<close>

lemma length_rv_if: "length (rv_if lt p2 pos i) = Suc (length (rv_load_op (src1 i) RV_T0 @ rv_load_op (src2 i) RV_T1))"
  by (simp add: rv_if_def Let_def rv_branch_def rv_beq_def rv_bne_def rv_blt_def rv_bge_def)

lemma length_rv_insn: "length (rv_insn env lt p2 pos i) = length (rv_insn env lt' p2' pos' i)"
  by (cases "op i") (simp_all add: rv_insn_def length_rv_if rv_jal_def)

abbreviation rv_run :: "nat \<Rightarrow> u64 \<Rightarrow> rv_words \<Rightarrow> rvstate \<Rightarrow> rvstate option" where
  "rv_run \<equiv> wm_run rv_decode rv_exec xpc"

section \<open>Entry and return\<close>

definition prologue_code :: "rvinsn list" where
  "prologue_code = [ADDI 2 2 (- 16), SD 1 2 8, SD 8 2 0, ADDI 8 2 0, ADDI 2 2 (- 256), SD 10 2 192, SD 11 2 200, SD 12 2 208,
     SD 13 2 216, SD 14 2 224, SD 15 2 232, SD 16 2 240, SD 17 2 248]"

definition return_code :: "rvinsn list" where
  "return_code = [ADDI 2 2 256, LD 8 2 0, LD 1 2 8, ADDI 2 2 16]"

lemma rv_decodes_prologue: "rv_decodes rv_prologue prologue_code" "list_all falls_through prologue_code"
  unfolding rv_decodes_def by code_simp+

lemma rv_epilogue_ret: "rv_epilogue = (rv_addi RV_SP RV_SP 256 @ rv_pop_fp_ra) @ rv_ret"
  by (simp add: rv_epilogue_def)

lemma rv_decodes_return: "rv_decodes (rv_addi RV_SP RV_SP 256 @ rv_pop_fp_ra) return_code" "list_all falls_through return_code"
  "rv_decode (hd rv_ret) = Some (JALR 0 1 0)" "length rv_ret = 1"
  unfolding rv_decodes_def by code_simp+

definition entry_slots :: "rvstate \<Rightarrow> (nat \<times> u64) list" where
  "entry_slots s = [(33, xr s 1), (32, xr s 8), (24, xr s 10), (25, xr s 11), (26, xr s 12), (27, xr s 13), (28, xr s 14),
     (29, xr s 15), (30, xr s 16), (31, xr s 17)]"

lemma prologue_effect:
  fixes s defines "s' \<equiv> fold rv_exec prologue_code s"
  shows "xm s' = slots (rvf.fsp s) (entry_slots s) (xm s)" "xr s' = (xr s)(2 := rvf.fsp s, 8 := xr s 2 - 16)"
proof -
  show "xm s' = slots (rvf.fsp s) (entry_slots s) (xm s)"
    unfolding s'_def prologue_code_def entry_slots_def slots_def rvf.fsp_def
    by (simp add: rv_next_def rset_def rget_def)
  show "xr s' = (xr s)(2 := rvf.fsp s, 8 := xr s 2 - 16)"
    unfolding s'_def prologue_code_def rvf.fsp_def by (auto simp: rv_next_def rset_def rget_def)
qed

lemma jump_imm:
  assumes "a < 1024" "b < 1024" "12 \<le> n" "n < 31"
  shows "scast (signed_take_bit n ((of_nat a - of_nat b) * 4 :: u32)) = (of_nat (4 * a) - of_nat (4 * b) :: u64)"
proof -
  define z where "z = 4 * (int a - int b)"
  have b: "- (2 ^ k) \<le> z \<and> z < 2 ^ k" if "12 \<le> k" for k
    using power_increasing [OF that, of "2 :: int"] assms(1,2) by (simp add: z_def)
  have "signed_take_bit n (word_of_int z :: u32) = word_of_int (signed_take_bit n z)"
    using assms(4) by (intro bit_eqI) (auto simp: bit_simps min_def)
  moreover have "signed_take_bit n z = z" "signed_take_bit 31 z = z"
    using b [of n] b [of 31] assms(3) by (simp_all add: signed_take_bit_int_eq_self)
  moreover have "scast (word_of_int z :: u32) = (word_of_int (signed_take_bit 31 z) :: u64)"
    by (rule bit_eqI) (auto simp: bit_simps min_def)
  moreover have "(of_nat a - of_nat b) * 4 = (word_of_int z :: u32)" "of_nat (4 * a) - of_nat (4 * b) = (word_of_int z :: u64)"
    by (simp_all add: z_def algebra_simps)
  ultimately show ?thesis
    by simp
qed

lemma jump_even: "\<not> bit ((x :: u32) * 4) 0"
  by (simp add: bit_0)

section \<open>Single instructions\<close>

definition rv_supported :: "Instruction \<Rightarrow> bool" where
  "rv_supported i \<longleftrightarrow> rvf.straight i \<or> op i = GOTO \<or> is_cond (op i) \<and> rvs.opd_ok (src1 i) \<and> rvs.opd_ok (src2 i)
     \<or> op i = RETURN_VAL \<and> rvs.opd_ok (src1 i) \<or> op i = RETURN_VOID"

lemma supported_assign: "rv_supported i \<Longrightarrow> ir_result i \<rho> = Some v \<Longrightarrow> rvf.straight i"
  using ir_result_control [of i \<rho>] by (auto simp: rv_supported_def)

lemma supported_operands:
  "rv_supported i \<Longrightarrow> is_cond (op i) \<Longrightarrow> rvs.opd_ok (src1 i) \<and> rvs.opd_ok (src2 i)"
  "rv_supported i \<Longrightarrow> op i = RETURN_VAL \<Longrightarrow> rvs.opd_ok (src1 i)"
  by (auto simp: rv_supported_def is_cond_def rvf.straight_def rv_alu_words_def rv_op_of_def)

lemma rv_insn_alu:
  assumes "rv_alu_words (op i) = Some vs"
  shows "rv_insn env lt p2 pos i = ((rv_load_op (src1 i) RV_T0 @ rv_load_op (src2 i) RV_T1) @ vs) @ rv_store_reg (op_reg (dest i)) RV_T0"
  using assms by (auto simp: rv_alu_words_def rv_op_of_def rv_emit_of_def rv_insn_def rv_binop_def split: if_splits)

lemma rv_insn_moves:
  "op i = MOVE \<Longrightarrow> rv_insn env lt p2 pos i = rv_load_op (src1 i) RV_T0 @ rv_store_reg (op_reg (dest i)) RV_T0"
  "op i = MOVE_CONST \<Longrightarrow> rv_insn env lt p2 pos i = rv_load_op (OpConst (op_const (src1 i))) RV_T0 @ rv_store_reg (op_reg (dest i)) RV_T0"
  "op i = NEG_I64 \<Longrightarrow> rv_insn env lt p2 pos i = (rv_load_op (src1 i) RV_T0 @ rv_sub RV_T0 RV_ZERO RV_T0) @ rv_store_reg (op_reg (dest i)) RV_T0"
  by (simp_all add: rv_insn_def rv_load_op_def rv_neg_def)

lemma rv_lowers:
  assumes "rvf.straight i"
  shows "rvf.lowers (rv_insn env lt p2 pos i) i" "rv_reg (op_reg (dest i))"
proof -
  show "rvf.lowers (rv_insn env lt p2 pos i) i"
    by (rule rvf.code_straight(1) [OF assms rv_insn_moves rv_insn_alu])
  show "rv_reg (op_reg (dest i))"
    using assms by (auto simp: rvf.straight_def split: Operand.splits)
qed

lemma rv_assigns:
  assumes "rvf.straight i" "ir_result i \<rho> = Some v" "length (P @ rv_insn env lt True (length P) i @ Q) < 1024"
    and "wm_at xpc base (length P) s" "rvs.rep \<rho> s" "rvf.inv s0 s"
  shows "\<exists>n s'. rv_run n base (P @ rv_insn env lt True (length P) i @ Q) s = Some s'
    \<and> wm_at xpc base (length P + length (rv_insn env lt True (length P) i)) s'
    \<and> rvs.rep (\<rho>(op_reg (dest i) := v)) s' \<and> rvf.inv s0 s'"
  using assms(3) by (intro rvf.run_assigns [OF rv_lowers [OF assms(1)] assms(2) _ assms(4-6)]) simp

lemma jal_decode: "\<not> bit off 0 \<Longrightarrow> rv_decode (encode_j off 0 0x6F) = Some (JAL 0 (scast (signed_take_bit 20 off)))"
  using rv_decodes_jump(5) [of 0 0 off] by (simp add: rv_decodes_def rv_jal_def regs5_def)

lemma rv_jump_at:
  assumes "wm_at xpc base pos s" "dst < 1024" "pos < 1024" "12 \<le> n" "n < 31"
  shows "wm_at xpc base dst (s\<lparr>xpc := xpc s + scast (signed_take_bit n ((of_nat dst - of_nat pos) * 4 :: u32))\<rparr>)"
  using jump_imm [of dst pos n] assms by (simp add: wm_at_def)

lemma rv_pc_irrelevant [simp]: "rvs.rep \<rho> (s\<lparr>xpc := a\<rparr>) = rvs.rep \<rho> s" "rvf.inv s0 (s\<lparr>xpc := a\<rparr>) = rvf.inv s0 s"
  by (simp_all add: rvs.rep_def rvs.addr_def rvf.inv_def)

lemma rv_delta_pass2: "target_label i = Some t \<Longrightarrow> rv_delta lt True d pos i = (of_nat (get_label_offset lt t) - of_nat pos) * 4"
  by (simp add: rv_delta_def)

lemma rv_jumps:
  assumes i: "op i = GOTO" "target_label i = Some t" "get_label_offset lt t < 1024"
    and small: "length (P @ rv_insn env lt True (length P) i @ Q) < 1024"
    and s: "wm_at xpc base (length P) s" "rvs.rep \<rho> s" "rvf.inv s0 s"
  shows "\<exists>n s'. rv_run n base (P @ rv_insn env lt True (length P) i @ Q) s = Some s'
    \<and> wm_at xpc base (get_label_offset lt t) s' \<and> rvs.rep \<rho> s' \<and> rvf.inv s0 s'"
proof -
  let ?d = "(of_nat (get_label_offset lt t) - of_nat (length P)) * 4 :: u32"
  have w: "rv_insn env lt True (length P) i = [encode_j ?d 0 0x6F]"
    using i rv_delta_pass2 [OF i(2)] by (simp add: rv_insn_def rv_jal_def)
  have run: "rv_run 1 base (P @ rv_insn env lt True (length P) i @ Q) s = Some (s\<lparr>xpc := xpc s + scast (signed_take_bit 20 ?d)\<rparr>)"
    using rvf.run_jump [of "[]" "[]" "encode_j ?d 0 0x6F" _ P Q base s, OF _ _ jal_decode [OF jump_even]] small s(1) unfolding w
    by (simp add: rset_def)
  have "wm_at xpc base (get_label_offset lt t) (s\<lparr>xpc := xpc s + scast (signed_take_bit 20 ?d)\<rparr>)"
    using small by (intro rv_jump_at [OF s(1) i(3)]) (simp_all add: w)
  moreover have "rvs.rep \<rho> (s\<lparr>xpc := xpc s + scast (signed_take_bit 20 ?d)\<rparr>)" "rvf.inv s0 (s\<lparr>xpc := xpc s + scast (signed_take_bit 20 ?d)\<rparr>)"
    using s(2,3) by simp_all
  ultimately show ?thesis
    using run by blast
qed

text \<open>The instruction of a conditional branch.\<close>

definition rv_cond_of :: "Opcode \<Rightarrow> rvcond" where
  "rv_cond_of opc = (if opc = IF_EQ then RV_EQ else if opc = IF_NE then RV_NE else if opc = IF_LT then RV_LT else RV_GE)"

lemma rv_taken_cond: "rv_taken (rv_cond_of opc) a b = cond_holds opc a b"
  by (simp add: rv_cond_of_def cond_holds_def word_sless_alt word_sle_eq)

lemma rv_branch_decode:
  assumes "\<not> bit off 0"
  obtains w where "rv_branch opc RV_T0 RV_T1 off = [w]" "rv_decode w = Some (BRANCH (rv_cond_of opc) 5 6 (scast (signed_take_bit 12 off)))"
proof -
  have "regs5 [5, 6]"
    by (simp add: regs5_def)
  note d = rv_decodes_jump [OF this assms]
  show ?thesis
    using d by (intro that [of "hd (rv_branch opc RV_T0 RV_T1 off)"])
      (simp_all add: rv_branch_def rv_cond_of_def rv_decodes_def rv_beq_def rv_bne_def rv_blt_def rv_bge_def)
qed

lemma rv_branches:
  assumes o: "rvs.opd_ok (src1 i)" "rvs.opd_ok (src2 i)" and i: "is_cond (op i)"
    and b: "b = cond_holds (op i) (opd_val \<rho> (src1 i)) (opd_val \<rho> (src2 i))"
    and t: "b \<Longrightarrow> target_label i = Some t \<and> get_label_offset lt t < 1024"
    and small: "length (P @ rv_insn env lt True (length P) i @ Q) < 1024"
    and s: "wm_at xpc base (length P) s" "rvs.rep \<rho> s" "rvf.inv s0 s"
  shows "\<exists>n s'. rv_run n base (P @ rv_insn env lt True (length P) i @ Q) s = Some s'
    \<and> wm_at xpc base (if b then get_label_offset lt t else length P + length (rv_insn env lt True (length P) i)) s'
    \<and> rvs.rep \<rho> s' \<and> rvf.inv s0 s'"
proof (rule rvf.load_both [OF o])
  fix js
  assume js: "map rv_decode (rv_load_op (src1 i) RV_T0 @ rv_load_op (src2 i) RV_T1) = map Some js" "list_all falls_through js"
    "\<And>\<rho> s. rvs.rep \<rho> s \<Longrightarrow> xm (fold rv_exec js s) = xm s \<and> rv_sp (fold rv_exec js s) = rv_sp s
       \<and> xr (fold rv_exec js s) = (xr s)(RV_T0 := opd_val \<rho> (src1 i), RV_T1 := opd_val \<rho> (src2 i))"
  let ?l = "rv_load_op (src1 i) RV_T0 @ rv_load_op (src2 i) RV_T1"
  let ?off = "rv_delta lt True 8 (length P + length ?l) i" and ?s = "fold rv_exec js s"
  have e: "\<not> bit ?off 0"
    by (auto simp: rv_delta_def bit_0 split: option.splits)
  obtain w where w: "rv_branch (op i) RV_T0 RV_T1 ?off = [w]"
    "rv_decode w = Some (BRANCH (rv_cond_of (op i)) 5 6 (scast (signed_take_bit 12 ?off)))"
    using rv_branch_decode [OF e] by blast
  have ws: "rv_insn env lt True (length P) i = ?l @ [w]"
    using i w(1) by (auto simp: is_cond_def rv_insn_def rv_if_def Let_def)
  have regs: "xr ?s = (xr s)(5 := opd_val \<rho> (src1 i), 6 := opd_val \<rho> (src2 i))" "xm ?s = xm s"
    using js(3) [OF s(2)] by simp_all
  then have r: "rvs.rep \<rho> ?s" "rvf.inv s0 ?s"
    using s(2,3) rvs.rep_cong [of ?s s \<rho>] by (auto intro: rvf.inv_cong)
  have run: "rv_run (Suc (length ?l)) base (P @ rv_insn env lt True (length P) i @ Q) s
      = Some (rv_exec (BRANCH (rv_cond_of (op i)) 5 6 (scast (signed_take_bit 12 ?off))) ?s)"
    "wm_at xpc base (length P + length ?l) ?s"
    using rvf.run_jump [OF js(1,2) w(2), of P Q base s] small s(1) unfolding ws by simp_all
  have step: "rv_exec (BRANCH (rv_cond_of (op i)) 5 6 (scast (signed_take_bit 12 ?off))) ?s
      = (if b then ?s\<lparr>xpc := xpc ?s + scast (signed_take_bit 12 ?off)\<rparr> else ?s\<lparr>xpc := xpc ?s + 4\<rparr>)"
    using regs by (simp add: rv_taken_cond b rget_def rv_next_def)
  have "wm_at xpc base (get_label_offset lt t) (?s\<lparr>xpc := xpc ?s + scast (signed_take_bit 12 ?off)\<rparr>)" if b
    using t [OF that] small unfolding ws
    by (simp only: rv_delta_pass2 [of i t lt]) (intro rv_jump_at [OF run(2)]; simp)
  moreover have "wm_at xpc base (length P + length (rv_insn env lt True (length P) i)) (?s\<lparr>xpc := xpc ?s + 4\<rparr>)"
    using run(2) unfolding ws by (simp add: wm_at_def algebra_simps)
  ultimately show ?thesis
    using run(1) r unfolding step by (intro exI [of _ "Suc (length ?l)"] exI) (auto simp del: wm_run.simps)
qed

text \<open>What the caller sees after the return.\<close>

definition rv_returned :: "rvstate \<Rightarrow> u64 option \<Rightarrow> rvstate \<Rightarrow> bool" where
  "rv_returned s0 res s \<longleftrightarrow> xpc s = xr s0 1 AND NOT 1 \<and> (\<forall>v. res = Some v \<longrightarrow> xr s 10 = v)
     \<and> (\<forall>r. r \<notin> {5, 6, 10} \<longrightarrow> xr s r = xr s0 r) \<and> (\<forall>x. \<not> x - (xr s0 2 - 272) < 272 \<longrightarrow> xm s x = xm s0 x)"

lemma return_effect:
  assumes "xr s 2 = rvf.fsp s0" "read64 (xm s) (rvf.fsp s0 + 256) = xr s0 8" "read64 (xm s) (rvf.fsp s0 + 264) = xr s0 1"
    "\<And>r. r \<notin> {2, 5, 6, 8, 10} \<Longrightarrow> xr s r = xr s0 r" "\<And>x. \<not> x - rvf.fsp s0 < 272 \<Longrightarrow> xm s x = xm s0 x"
    "\<And>v. res = Some v \<Longrightarrow> xr s 10 = v"
  shows "rv_returned s0 res (rv_exec (JALR 0 1 0) (fold rv_exec return_code s))"
  using assms by (auto simp: rv_returned_def return_code_def rvf.fsp_def rv_next_def rset_def rget_def)

lemma rv_returns:
  assumes i: "op i = RETURN_VAL \<and> rvs.opd_ok (src1 i) \<and> res = Some (opd_val \<rho> (src1 i)) \<or> op i = RETURN_VOID \<and> res = None"
    and small: "length (P @ rv_insn env lt True (length P) i @ Q) < 1024"
    and s: "wm_at xpc base (length P) s" "rvs.rep \<rho> s" "rvf.inv s0 s"
  shows "\<exists>n s'. rv_run n base (P @ rv_insn env lt True (length P) i @ Q) s = Some s' \<and> rv_returned s0 res s'"
proof -
  define l where "l = (if op i = RETURN_VAL then rv_load_op (src1 i) RV_A0 else [])"
  obtain ld where ld: "map rv_decode l = map Some ld" "list_all falls_through ld" "xm (fold rv_exec ld s) = xm s"
    "\<And>v. res = Some v \<Longrightarrow> xr (fold rv_exec ld s) 10 = v" "\<And>q. q \<noteq> 10 \<Longrightarrow> xr (fold rv_exec ld s) q = xr s q"
  proof (cases "op i = RETURN_VAL")
    case True
    then obtain ld where "map rv_decode l = map Some ld" "list_all falls_through ld" "rvs.sets RV_A0 (opd_val \<rho> (src1 i)) s (fold rv_exec ld s)"
      using rv_load_sets [OF _ regs5_all(3), of "src1 i"] i s(2) by (auto simp: l_def)
    then show ?thesis
      using that [of ld] True i by (auto simp: rvs.sets_def)
  next
    case False
    then show ?thesis
      using that [of "[]"] i by (auto simp: l_def)
  qed
  have d: "map rv_decode (l @ rv_addi RV_SP RV_SP 256 @ rv_pop_fp_ra) = map Some (ld @ return_code)"
    "list_all falls_through (ld @ return_code)"
    using ld(1,2) rv_decodes_return(1,2) by (simp_all add: rv_decodes_def)
  have ws: "rv_insn env lt True (length P) i = (l @ rv_addi RV_SP RV_SP 256 @ rv_pop_fp_ra) @ [hd rv_ret]"
    using i by (auto simp: rv_insn_def rv_epilogue_def l_def rv_ret_def rv_jalr_def)
  have "rv_returned s0 res (rv_exec (JALR 0 1 0) (fold rv_exec return_code (fold rv_exec ld s)))"
    using s(3) ld(3-5) by (intro return_effect) (auto simp: rvf.inv_def rv_saved_def)
  then show ?thesis
    using rvf.run_jump [OF d rv_decodes_return(3), of P Q base s] small s(1) unfolding ws
    by (auto simp del: rv_exec.simps wm_run.simps)
qed

text \<open>Arguments in their registers, locals with what the stack holds.\<close>

definition rv_called :: "u64 \<Rightarrow> (Register \<Rightarrow> u64) \<Rightarrow> rvstate \<Rightarrow> bool" where
  "rv_called base \<rho> s \<longleftrightarrow> xpc s = base \<and> (\<forall>r. rv_reg r \<longrightarrow>
     \<rho> r = (if reg_type r = PARAM then xr s (10 + ucast (reg_index r)) else read64 (xm s) (xr s 2 - 272 + of_nat (8 * slot_no r))))"

lemma entry_slots_lookup:
  assumes "rv_reg r"
  shows "map_of (entry_slots s) (slot_no r) = (if reg_type r = PARAM then Some (xr s (10 + ucast (reg_index r))) else None)"
proof (cases "reg_type r")
  case PARAM
  then have "unat (reg_index r) < 8"
    using assms by (simp add: rv_reg_def)
  moreover have "list_all (\<lambda>k. map_of (entry_slots s) (24 + k) = Some (xr s (10 + of_nat k))) [0..<8]"
    by (simp add: entry_slots_def upt_rec)
  ultimately have "map_of (entry_slots s) (24 + unat (reg_index r)) = Some (xr s (10 + of_nat (unat (reg_index r))))"
    by (simp add: list_all_iff)
  then show ?thesis
    using PARAM by (simp add: slot_no_def)
qed (use assms in \<open>auto simp: rv_reg_def slot_no_def entry_slots_def\<close>)

lemma rv_enters:
  assumes "rv_called base \<rho> s" "length (rv_prologue @ Q) < 1024"
  shows "\<exists>n s'. rv_run n base (rv_prologue @ Q) s = Some s' \<and> wm_at xpc base (length rv_prologue) s' \<and> rvs.rep \<rho> s' \<and> rvf.inv s s'"
proof -
  let ?s = "fold rv_exec prologue_code s"
  have "rv_run (length rv_prologue) base (rv_prologue @ Q) s = Some ?s \<and> wm_at xpc base (length rv_prologue) ?s"
    using rvf.run_straight [OF rv_decodes_prologue [unfolded rv_decodes_def], of "[]" Q base s] assms
    by (simp add: rv_called_def wm_at_def)
  moreover have "rvs.rep \<rho> ?s \<and> rvf.inv s ?s"
  proof (rule rvf.enters_frame [OF prologue_effect(1)])
    show "\<rho> r = (case map_of (entry_slots s) (slot_no r) of Some v \<Rightarrow> v
        | None \<Rightarrow> read64 (xm s) (rvf.fsp s + of_nat (8 * slot_no r)))" if "rv_reg r" for r
      using entry_slots_lookup [OF that, of s] assms(1) that by (simp add: rv_called_def rvf.fsp_def)
  qed (simp_all add: prologue_effect, simp_all add: entry_slots_def rv_saved_def)
  ultimately show ?thesis
    by blast
qed

section \<open>The backend as a machine\<close>

interpretation rvm: frame_machine id "rv_insn env" rv_prologue 1024 "\<lambda>n. rv_run n base" "wm_at xpc base" rvs.rep rvf.inv
  "rv_called base" rv_returned rv_supported for env base
proof unfold_locales
  show "length (rv_insn env lt p2 pos i) = length (rv_insn env lt' p2' pos' i)" for lt p2 pos i lt' p2' pos'
    by (rule length_rv_insn)
  show "\<exists>n s'. rv_run n base (P @ rv_insn env lt True (length P) i @ Q) s = Some s' \<and> rv_returned s0 res s'"
    if "rv_supported i" "op i = RETURN_VAL \<and> res = Some (opd_val \<rho> (src1 i)) \<or> op i = RETURN_VOID \<and> res = None"
      "length (P @ rv_insn env lt True (length P) i @ Q) < 1024" "wm_at xpc base (length P) s" "rvs.rep \<rho> s" "rvf.inv s0 s"
    for i res \<rho> P lt Q s s0
    using that supported_operands(2) by (intro rv_returns) auto
qed (simp_all add: wm_run_add rv_enters rv_assigns supported_assign rv_jumps rv_branches supported_operands)

definition rv_function :: "Function \<Rightarrow> bool" where
  "rv_function fn \<longleftrightarrow> blocks fn \<noteq> [] \<and> length (blocks fn) \<le> 128 \<and> distinct_labels (blocks fn)
     \<and> list_all (\<lambda>b. list_all rv_supported (insns b)) (blocks fn)"

text \<open>
  Claim C4. A compiled function is correct. Let a function use moves, 64-bit arithmetic, branches,
  jumps and returns, with constants that two instructions can build and registers that have a
  spill slot of their own, at most 128 blocks with different labels, and compile to less than
  4096 bytes. If the reference semantics, started with the arguments in the parameter
  registers, returns, then the code of the RISC-V backend, called with these
  arguments, reaches its return address after finitely many steps with the same result in the
  result register; every register but three temporaries, and all memory outside a frame of
  272 bytes below the stack pointer, are as before the call.
\<close>

theorem rv_compiled_function_correct:
  assumes "rv_function fn" "rv_compile_function env mm fn = Some bs" "length bs < 4096"
    and "rv_called base \<rho> s" "(ir_step fn)\<^sup>*\<^sup>* (ir_start fn \<rho>) (Returned res)"
  shows "\<exists>code n s'. bs = concat (map le32 code) \<and> rv_run n base code s = Some s' \<and> rv_returned s res s'"
proof -
  have bs: "bs = concat (map le32 (two_passes id id (rv_insn env) rv_prologue fn))"
    using assms(2) by (simp add: rv_compile_function_def Let_def split: if_splits)
  then have "length bs = 4 * length (two_passes id id (rv_insn env) rv_prologue fn)"
    by (simp add: length_concat comp_def sum_list_triv)
  then show ?thesis
    using rvm.compiled_function [OF _ _ assms(4,5), of env] assms(1,3) bs by (auto simp: rv_function_def rvm.compilable_def)
qed

definition rv_env0 :: Rv64Env where
  "rv_env0 = \<lparr>rv_classes = None, rv_vtable = (\<lambda>_. 0), rv_string = (\<lambda>_ _ _. 0), rv_popcnt_fn = 0, rv_alloc_obj = 0\<rparr>"

definition call2 :: rvstate where
  "call2 = \<lparr>xr = (\<lambda>_. 0)(10 := 2, 1 := 0x1000, 2 := 0x8000), xm = (\<lambda>_. 0), xpc = 0\<rparr>"

lemma sum_fn_rv: "rv_function sum_fn"
proof -
  have o: "rvs.opd_ok (OpConst 0)" "rvs.opd_ok (OpConst 1)" "rvs.opd_ok (OpReg v0)" "rvs.opd_ok (OpReg p0)" "rv_reg v0" "rv_reg p0" "rv_imm_ok 0"
    by (simp_all add: rvs.opd_ok_def rv_reg_def v0_def p0_def rv_imm_ok_def)
  show ?thesis
    unfolding rv_function_def
    by (intro conjI sum_fn_shape sum_fn_insns)
      (simp add: rv_supported_def rvf.straight_def o sum_insn_defs rv_alu_words_def rv_op_of_def)
qed

lemma sum_fn_code: "case rv_compile_function rv_env0 (\<lambda>_. True) sum_fn of Some bs \<Rightarrow> length bs < 200 | None \<Rightarrow> False"
  by code_simp

lemma call2_ok: "rv_called 0 env2 call2"
proof -
  have z: "read64 (\<lambda>_. 0) a = 0" for a
    by (simp add: read64_def numeral_eq_Suc)
  have "env2 r = xr call2 (10 + ucast (reg_index r))" if r: "rv_reg r" "reg_type r = PARAM" for r
  proof -
    have "list_all (\<lambda>k. xr call2 (10 + of_nat k) = (if k = 0 then 2 else 0)) [0..<8]"
      by (simp add: call2_def upt_rec)
    then have "xr call2 (10 + of_nat (unat (reg_index r))) = (if unat (reg_index r) = 0 then 2 else 0)"
      unfolding list_all_iff by (rule bspec) (use r in \<open>simp add: rv_reg_def\<close>)
    then show ?thesis
      using r(2) by (cases r) (auto simp: env2_def p0_def unat_eq_zero)
  qed
  then show ?thesis
    by (auto simp: rv_called_def env2_def p0_def call2_def z)
qed

theorem rv_compiled_function_correct_witness:
  "\<exists>bs code n s'. rv_compile_function rv_env0 (\<lambda>_. True) sum_fn = Some bs \<and> bs = concat (map le32 code)
     \<and> rv_run n 0 code call2 = Some s' \<and> xpc s' = 0x1000 \<and> xr s' 10 = 3 \<and> xr s' 2 = 0x8000"
proof -
  obtain bs where bs: "rv_compile_function rv_env0 (\<lambda>_. True) sum_fn = Some bs" "length bs < 4096"
    using sum_fn_code by (auto split: option.splits)
  have "(ir_step sum_fn)\<^sup>*\<^sup>* (ir_start sum_fn env2) (Returned (Some 3))"
    using sum_fn_runs ir_exec_steps by blast
  then show ?thesis
    using rv_compiled_function_correct [OF sum_fn_rv bs call2_ok] bs(1)
    by (fastforce simp: rv_returned_def call2_def)
qed

end
