(* ===== verification/A64.thy ===== *)
theory A64
  imports Two_Pass Elf Bit_Fields
begin

text \<open>
  The AArch64 backend (\<open>src/src/backend/aarch64_backend.cpp\<close>): the instruction encodings,
  the compiler of functions, in the two passes of \<^theory_text>\<open>Two_Pass\<close>, and the object
  file path. The encoder's buffer of 32-bit words has room for 16384 words, or none when the
  kernel does not map it, and drops what does not fit; an emitter is the list of words it
  appends, given, where it matters, the number of words before it. Addresses that the
  code embeds are parameters, held in the record \<open>A64Env\<close>.
\<close>

unbundle bit_operations_syntax

section \<open>Encodings\<close>

type_synonym Arm64Reg = u8
type_synonym a64_words = "u32 list"

abbreviation X0 :: Arm64Reg where "X0 \<equiv> 0"
abbreviation X1 :: Arm64Reg where "X1 \<equiv> 1"
abbreviation X2 :: Arm64Reg where "X2 \<equiv> 2"
abbreviation X9 :: Arm64Reg where "X9 \<equiv> 9"
abbreviation X10 :: Arm64Reg where "X10 \<equiv> 10"
abbreviation X11 :: Arm64Reg where "X11 \<equiv> 11"
abbreviation X16 :: Arm64Reg where "X16 \<equiv> 16"
abbreviation A64_SP :: Arm64Reg where "A64_SP \<equiv> 31"
abbreviation XZR :: Arm64Reg where "XZR \<equiv> 31"

definition arm64_u8 :: "Arm64Reg \<Rightarrow> u8" where
  "arm64_u8 r = r AND 31"

definition a64_capacity :: "bool \<Rightarrow> nat" where
  "a64_capacity mapped = (if mapped then 16384 else 0)"

text \<open>The three-register format that most encodings share.\<close>

definition a64_rrr :: "u32 \<Rightarrow> Arm64Reg \<Rightarrow> Arm64Reg \<Rightarrow> Arm64Reg \<Rightarrow> u32" where
  "a64_rrr base rd xn rm = base OR push_bit 16 (ucast (arm64_u8 rm)) OR push_bit 5 (ucast (arm64_u8 xn)) OR ucast (arm64_u8 rd)"

definition a64_add_reg_reg :: "Arm64Reg \<Rightarrow> Arm64Reg \<Rightarrow> Arm64Reg \<Rightarrow> a64_words" where
  "a64_add_reg_reg rd xn rm = [a64_rrr 0x8B000000 rd xn rm]"

definition a64_sub_reg_reg :: "Arm64Reg \<Rightarrow> Arm64Reg \<Rightarrow> Arm64Reg \<Rightarrow> a64_words" where
  "a64_sub_reg_reg rd xn rm = [a64_rrr 0xCB000000 rd xn rm]"

definition a64_mul_reg_reg :: "Arm64Reg \<Rightarrow> Arm64Reg \<Rightarrow> Arm64Reg \<Rightarrow> a64_words" where
  "a64_mul_reg_reg rd xn rm = [a64_rrr 0x9B007C00 rd xn rm]"

definition a64_sdiv_reg_reg :: "Arm64Reg \<Rightarrow> Arm64Reg \<Rightarrow> Arm64Reg \<Rightarrow> a64_words" where
  "a64_sdiv_reg_reg rd xn rm = [a64_rrr 0x9AC00C00 rd xn rm]"

definition a64_and_reg_reg :: "Arm64Reg \<Rightarrow> Arm64Reg \<Rightarrow> Arm64Reg \<Rightarrow> a64_words" where
  "a64_and_reg_reg rd xn rm = [a64_rrr 0x8A000000 rd xn rm]"

definition a64_orr_reg_reg :: "Arm64Reg \<Rightarrow> Arm64Reg \<Rightarrow> Arm64Reg \<Rightarrow> a64_words" where
  "a64_orr_reg_reg rd xn rm = [a64_rrr 0xAA000000 rd xn rm]"

definition a64_eor_reg_reg :: "Arm64Reg \<Rightarrow> Arm64Reg \<Rightarrow> Arm64Reg \<Rightarrow> a64_words" where
  "a64_eor_reg_reg rd xn rm = [a64_rrr 0xCA000000 rd xn rm]"

definition a64_lsl_reg_reg :: "Arm64Reg \<Rightarrow> Arm64Reg \<Rightarrow> Arm64Reg \<Rightarrow> a64_words" where
  "a64_lsl_reg_reg rd xn rm = [a64_rrr 0x9AC02000 rd xn rm]"

definition a64_lsr_reg_reg :: "Arm64Reg \<Rightarrow> Arm64Reg \<Rightarrow> Arm64Reg \<Rightarrow> a64_words" where
  "a64_lsr_reg_reg rd xn rm = [a64_rrr 0x9AC02400 rd xn rm]"

text \<open>\<open>movz\<close> and \<open>movk\<close> with a 16-bit chunk of the value.\<close>

definition a64_movw :: "u32 \<Rightarrow> u16 \<Rightarrow> Arm64Reg \<Rightarrow> u32" where
  "a64_movw base c rd = base OR push_bit 5 (ucast c) OR ucast (arm64_u8 rd)"

definition a64_mov_reg_imm64 :: "Arm64Reg \<Rightarrow> u64 \<Rightarrow> a64_words" where
  "a64_mov_reg_imm64 rd val =
     (let c0 = ucast (val AND 0xFFFF) :: u16; c1 = ucast (drop_bit 16 val AND 0xFFFF);
          c2 = ucast (drop_bit 32 val AND 0xFFFF); c3 = ucast (drop_bit 48 val AND 0xFFFF) in
      [a64_movw 0xD2800000 c0 rd] @ (if c1 \<noteq> 0 then [a64_movw 0xF2A00000 c1 rd] else [])
        @ (if c2 \<noteq> 0 then [a64_movw 0xF2C00000 c2 rd] else []) @ (if c3 \<noteq> 0 then [a64_movw 0xF2E00000 c3 rd] else []))"

definition a64_mov_reg_reg :: "Arm64Reg \<Rightarrow> Arm64Reg \<Rightarrow> a64_words" where
  "a64_mov_reg_reg rd rm = a64_orr_reg_reg rd XZR rm"

text \<open>Loads and stores: a scaled immediate, a small unscaled one, or an address computed in \<open>X16\<close>.\<close>

definition a64_mem :: "u32 \<Rightarrow> u32 \<Rightarrow> Arm64Reg \<Rightarrow> Arm64Reg \<Rightarrow> u32" where
  "a64_mem base imm xn rt = base OR imm OR push_bit 5 (ucast (arm64_u8 xn)) OR ucast (arm64_u8 rt)"

definition a64_str_reg_mem :: "Arm64Reg \<Rightarrow> Arm64Reg \<Rightarrow> u32 \<Rightarrow> a64_words" where
  "a64_str_reg_mem rt xn off =
     (if off mod 8 = 0 \<and> off \<le> 32760 then [a64_mem 0xF9000000 (push_bit 10 ((off div 8) AND 0xFFF)) xn rt]
      else if off < 256 then [a64_mem 0xF8000000 (push_bit 12 (off AND 0x1FF)) xn rt]
      else a64_mov_reg_imm64 X16 (ucast off) @ a64_add_reg_reg X16 xn X16 @ [a64_mem 0xF9000000 0 X16 rt])"

definition a64_ldr_reg_mem :: "Arm64Reg \<Rightarrow> Arm64Reg \<Rightarrow> u32 \<Rightarrow> a64_words" where
  "a64_ldr_reg_mem rt xn off =
     (if off mod 8 = 0 \<and> off \<le> 32760 then [a64_mem 0xF9400000 (push_bit 10 ((off div 8) AND 0xFFF)) xn rt]
      else if off < 256 then [a64_mem 0xF8400000 (push_bit 12 (off AND 0x1FF)) xn rt]
      else a64_mov_reg_imm64 X16 (ucast off) @ a64_add_reg_reg X16 xn X16 @ [a64_mem 0xF9400000 0 X16 rt])"

definition a64_push_fp_lr :: a64_words where "a64_push_fp_lr = [0xA9BF7BFD]"
definition a64_pop_fp_lr :: a64_words where "a64_pop_fp_lr = [0xA8C17BFD]"
definition a64_mov_fp_sp :: a64_words where "a64_mov_fp_sp = [0x910007FD]"

definition a64_sub_sp_imm32 :: "u32 \<Rightarrow> a64_words" where
  "a64_sub_sp_imm32 imm = [0xD10003FF OR push_bit 10 (imm AND 0xFFF)]"

definition a64_add_sp_imm32 :: "u32 \<Rightarrow> a64_words" where
  "a64_add_sp_imm32 imm = [0x910003FF OR push_bit 10 (imm AND 0xFFF)]"

definition a64_adrp :: "Arm64Reg \<Rightarrow> i32 \<Rightarrow> a64_words" where
  "a64_adrp rd imm21_pages =
     (let imm21 = imm21_pages AND 0x1FFFFF; immlo = imm21 AND 3; immhi = drop_bit 2 imm21 AND 0x7FFFF in
      [0x90000000 OR push_bit 29 immlo OR push_bit 5 immhi OR ucast (arm64_u8 rd)])"

definition a64_add_imm12 :: "Arm64Reg \<Rightarrow> Arm64Reg \<Rightarrow> u16 \<Rightarrow> a64_words" where
  "a64_add_imm12 rd xn imm12 = [a64_mem 0x91000000 (push_bit 10 (ucast imm12 AND 0xFFF)) xn rd]"

definition a64_blr :: "Arm64Reg \<Rightarrow> a64_words" where
  "a64_blr xn = [0xD63F0000 OR push_bit 5 (ucast (arm64_u8 xn))]"

definition a64_cmp_reg_reg :: "Arm64Reg \<Rightarrow> Arm64Reg \<Rightarrow> a64_words" where
  "a64_cmp_reg_reg xn rm = [0xEB00001F OR push_bit 16 (ucast (arm64_u8 rm)) OR push_bit 5 (ucast (arm64_u8 xn))]"

definition a64_b_cond :: "u8 \<Rightarrow> i32 \<Rightarrow> a64_words" where
  "a64_b_cond cond imm19_words = [0x54000000 OR push_bit 5 (imm19_words AND 0x7FFFF) OR ucast (cond AND 0xF)]"

definition a64_b_uncond :: "i32 \<Rightarrow> a64_words" where
  "a64_b_uncond imm26_words = [0x14000000 OR (imm26_words AND 0x3FFFFFF)]"

definition a64_ret :: a64_words where "a64_ret = [0xD65F03C0]"
definition a64_nop :: a64_words where "a64_nop = [0xD503201F]"

section \<open>Lowering\<close>

record A64Env =
  a64_classes :: "ClassDecl list option"
  a64_vtable :: "ClassDecl \<Rightarrow> u64"
  a64_string :: "string option \<Rightarrow> u64 \<Rightarrow> u64 \<Rightarrow> u64"
  a64_popcnt_fn :: u64
  a64_alloc_obj :: u64

definition a64_slot :: "Register \<Rightarrow> u32" where
  "a64_slot r = (if reg_type r = PARAM then 256 + (reg_index r AND 7) * 8 else (reg_index r AND 31) * 8)"

text \<open>An operand is always loaded into the scratch register; other kinds load nothing.\<close>

definition a64_load_op :: "Operand \<Rightarrow> Arm64Reg \<Rightarrow> a64_words" where
  "a64_load_op opd scratch_reg =
     (case opd of OpConst c \<Rightarrow> a64_mov_reg_imm64 scratch_reg c
      | OpReg r \<Rightarrow> a64_ldr_reg_mem scratch_reg A64_SP (a64_slot r)
      | _ \<Rightarrow> [])"

definition a64_store_reg :: "Register \<Rightarrow> Arm64Reg \<Rightarrow> a64_words" where
  "a64_store_reg r src = a64_str_reg_mem src A64_SP (a64_slot r)"

definition a64_binop :: "(Arm64Reg \<Rightarrow> Arm64Reg \<Rightarrow> Arm64Reg \<Rightarrow> a64_words) \<Rightarrow> Instruction \<Rightarrow> a64_words" where
  "a64_binop f insn = a64_load_op (src1 insn) X9 @ a64_load_op (src2 insn) X10 @ f X9 X9 X10
     @ a64_store_reg (op_reg (dest insn)) X9"

definition a64_neg :: "Instruction \<Rightarrow> a64_words" where
  "a64_neg insn = a64_load_op (src1 insn) X9 @ a64_sub_reg_reg X9 XZR X9 @ a64_store_reg (op_reg (dest insn)) X9"

definition a64_load_mem :: "Instruction \<Rightarrow> a64_words" where
  "a64_load_mem insn = a64_load_op (OpReg (op_mem_base (src1 insn))) X9 @ a64_ldr_reg_mem X10 X9 (op_mem_offset (src1 insn))
     @ a64_store_reg (op_reg (dest insn)) X10"

definition a64_store_mem :: "Instruction \<Rightarrow> a64_words" where
  "a64_store_mem insn = a64_load_op (OpReg (op_mem_base (dest insn))) X9 @ a64_load_op (src1 insn) X10
     @ a64_str_reg_mem X10 X9 (op_mem_offset (dest insn))"

definition a64_atomic_add :: "Instruction \<Rightarrow> a64_words" where
  "a64_atomic_add insn = a64_load_op (OpReg (op_mem_base (dest insn))) X9 @ a64_load_op (src1 insn) X10
     @ a64_ldr_reg_mem X11 X9 (op_mem_offset (dest insn)) @ a64_add_reg_reg X11 X11 X10
     @ a64_str_reg_mem X11 X9 (op_mem_offset (dest insn))"

definition a64_popcount :: "A64Env \<Rightarrow> Instruction \<Rightarrow> a64_words" where
  "a64_popcount env insn = a64_load_op (src1 insn) X0 @ a64_mov_reg_imm64 X16 (a64_popcnt_fn env) @ a64_blr X16
     @ a64_store_reg (op_reg (dest insn)) X0"

definition a64_bit_op :: "(Arm64Reg \<Rightarrow> Arm64Reg \<Rightarrow> Arm64Reg \<Rightarrow> a64_words) \<Rightarrow> Instruction \<Rightarrow> a64_words" where
  "a64_bit_op f insn = a64_load_op (src1 insn) X9 @ a64_load_op (src2 insn) X10 @ a64_mov_reg_imm64 X11 1
     @ a64_lsl_reg_reg X11 X11 X10 @ f X9 X9 X11 @ a64_store_reg (op_reg (dest insn)) X9"

definition a64_call_virt :: "Instruction \<Rightarrow> a64_words" where
  "a64_call_virt insn = a64_load_op (src1 insn) X0 @ a64_ldr_reg_mem X9 X0 0 @ a64_ldr_reg_mem X10 X9 (vtable_slot insn * 8) @ a64_blr X10
     @ (if op_kind (dest insn) = REGISTER then a64_store_reg (op_reg (dest insn)) X0 else [])"

definition a64_find_class :: "A64Env \<Rightarrow> Instruction \<Rightarrow> ClassDecl option" where
  "a64_find_class env insn =
     (case (a64_classes env, target_label insn) of
        (Some cs, Some n) \<Rightarrow> find (\<lambda>c. streq_impl (cname c) n) cs
      | _ \<Rightarrow> None)"

definition a64_new_instance :: "A64Env \<Rightarrow> Instruction \<Rightarrow> a64_words" where
  "a64_new_instance env insn =
     (let c = a64_find_class env insn;
          inst_size = (case c of Some d \<Rightarrow> if csize d > 0 then csize d + 16 else 32 | None \<Rightarrow> 32);
          vtable = (case c of Some d \<Rightarrow> a64_vtable env d | None \<Rightarrow> 0) in
      a64_mov_reg_imm64 X0 (ucast inst_size) @ a64_mov_reg_imm64 X1 vtable @ a64_mov_reg_imm64 X2 1
        @ a64_mov_reg_imm64 X16 (a64_alloc_obj env) @ a64_blr X16 @ a64_store_reg (op_reg (dest insn)) X0)"

text \<open>
  Distance to a label in words, known in the second pass; \<open>pos\<close> is the number of words
  before the branch, of which the encoder holds at most its capacity.
\<close>

definition a64_delta :: "nat \<Rightarrow> label_table \<Rightarrow> bool \<Rightarrow> i32 \<Rightarrow> nat \<Rightarrow> Instruction \<Rightarrow> i32" where
  "a64_delta cap lt is_pass2 dflt pos insn =
     (case target_label insn of
        Some l \<Rightarrow> if is_pass2 then of_nat (get_label_offset lt l) - of_nat (min cap pos) else dflt
      | None \<Rightarrow> dflt)"

definition a64_cond :: "Opcode \<Rightarrow> u8" where
  "a64_cond opc = (if opc = IF_LT then 0xB else if opc = IF_EQ then 0x0 else if opc = IF_NE then 0x1 else 0xA)"

definition a64_if :: "nat \<Rightarrow> label_table \<Rightarrow> bool \<Rightarrow> nat \<Rightarrow> Instruction \<Rightarrow> a64_words" where
  "a64_if cap lt is_pass2 pos insn =
     (let l = a64_load_op (src1 insn) X9 @ a64_load_op (src2 insn) X10 @ a64_cmp_reg_reg X9 X10 in
      l @ a64_b_cond (a64_cond (op insn)) (a64_delta cap lt is_pass2 2 (pos + length l) insn))"

definition a64_epilogue :: a64_words where
  "a64_epilogue = a64_add_sp_imm32 320 @ a64_pop_fp_lr @ a64_ret"

definition a64_insn :: "A64Env \<Rightarrow> nat \<Rightarrow> label_table \<Rightarrow> bool \<Rightarrow> nat \<Rightarrow> Instruction \<Rightarrow> a64_words" where
  "a64_insn env cap lt is_pass2 pos insn =
     (case op insn of
        MOVE_CONST \<Rightarrow> a64_mov_reg_imm64 X9 (op_const (src1 insn)) @ a64_store_reg (op_reg (dest insn)) X9
      | MOVE \<Rightarrow> a64_load_op (src1 insn) X9 @ a64_store_reg (op_reg (dest insn)) X9
      | ADD_I64 \<Rightarrow> a64_binop a64_add_reg_reg insn | ADD_I32 \<Rightarrow> a64_binop a64_add_reg_reg insn
      | SUB_I64 \<Rightarrow> a64_binop a64_sub_reg_reg insn | SUB_I32 \<Rightarrow> a64_binop a64_sub_reg_reg insn
      | NEG_I64 \<Rightarrow> a64_neg insn | NEG_I32 \<Rightarrow> a64_neg insn
      | MUL_I64 \<Rightarrow> a64_binop a64_mul_reg_reg insn | MUL_I32 \<Rightarrow> a64_binop a64_mul_reg_reg insn
      | DIV_I64 \<Rightarrow> a64_binop a64_sdiv_reg_reg insn | DIV_I32 \<Rightarrow> a64_binop a64_sdiv_reg_reg insn
      | AND_I64 \<Rightarrow> a64_binop a64_and_reg_reg insn | AND_I32 \<Rightarrow> a64_binop a64_and_reg_reg insn
      | OR_I64 \<Rightarrow> a64_binop a64_orr_reg_reg insn | OR_I32 \<Rightarrow> a64_binop a64_orr_reg_reg insn
      | XOR_I64 \<Rightarrow> a64_binop a64_eor_reg_reg insn | XOR_I32 \<Rightarrow> a64_binop a64_eor_reg_reg insn
      | SHL_I64 \<Rightarrow> a64_binop a64_lsl_reg_reg insn | SHL_I32 \<Rightarrow> a64_binop a64_lsl_reg_reg insn
      | SHR_I64 \<Rightarrow> a64_binop a64_lsr_reg_reg insn | SHR_I32 \<Rightarrow> a64_binop a64_lsr_reg_reg insn
      | USHR_I64 \<Rightarrow> a64_binop a64_lsr_reg_reg insn | USHR_I32 \<Rightarrow> a64_binop a64_lsr_reg_reg insn
      | LOAD_MEM \<Rightarrow> a64_load_mem insn
      | STORE_MEM \<Rightarrow> a64_store_mem insn
      | ATOMIC_ADD_I64 \<Rightarrow> a64_atomic_add insn
      | POPCOUNT_I64 \<Rightarrow> a64_popcount env insn
      | BTS_I64 \<Rightarrow> a64_bit_op a64_orr_reg_reg insn
      | BTR_I64 \<Rightarrow> a64_bit_op a64_eor_reg_reg insn
      | CALL_VIRT \<Rightarrow> a64_call_virt insn | CALL_VIRT_FAST \<Rightarrow> a64_call_virt insn
      | NEW_INSTANCE \<Rightarrow> a64_new_instance env insn
      | CONST_STRING \<Rightarrow> a64_mov_reg_imm64 X9 (a64_string env (string_val insn) (string_len insn) (string_hash insn))
                         @ a64_store_reg (op_reg (dest insn)) X9
      | IF_GE \<Rightarrow> a64_if cap lt is_pass2 pos insn | IF_LT \<Rightarrow> a64_if cap lt is_pass2 pos insn
      | IF_EQ \<Rightarrow> a64_if cap lt is_pass2 pos insn | IF_NE \<Rightarrow> a64_if cap lt is_pass2 pos insn
      | GOTO \<Rightarrow> a64_b_uncond (a64_delta cap lt is_pass2 (- 5) pos insn)
      | STR_LEN \<Rightarrow> a64_mov_reg_imm64 X9 (string_len insn) @ a64_store_reg (op_reg (dest insn)) X9
      | RETURN_VAL \<Rightarrow> a64_load_op (src1 insn) X0 @ a64_epilogue
      | RETURN_VOID \<Rightarrow> a64_epilogue
      | _ \<Rightarrow> [])"

definition a64_prologue :: a64_words where
  "a64_prologue = a64_push_fp_lr @ a64_mov_fp_sp @ a64_sub_sp_imm32 320
     @ concat (map (\<lambda>i. a64_str_reg_mem (X0 + of_nat i) A64_SP (256 + of_nat i * 8)) [0..<8])"

text \<open>
  \<open>m1\<close> and \<open>m2\<close> are whether the kernel maps the buffers of the encoders of the two
  passes, \<open>mm\<close> whether it maps that many bytes for the code; the result of \<open>make_rx\<close> is not
  looked at.
\<close>

definition a64_compile_function :: "A64Env \<Rightarrow> bool \<Rightarrow> bool \<Rightarrow> (nat \<Rightarrow> bool) \<Rightarrow> Function \<Rightarrow> bytes option" where
  "a64_compile_function env m1 m2 mm fn =
     (let cap = a64_capacity m2;
          code = take cap (two_passes (min (a64_capacity m1)) (min cap) (a64_insn env cap) a64_prologue fn);
          sz = 4 * length code in
      if sz = 0 then None else if \<not> mm sz then None else Some (concat (map le32 code)))"

section \<open>Object files\<close>

text \<open>What the encoder holds after more words.\<close>

definition a64_emit :: "nat \<Rightarrow> a64_words \<Rightarrow> a64_words \<Rightarrow> a64_words" where
  "a64_emit cap enc ws = take cap (enc @ ws)"

definition a64_rodata :: "Instruction \<Rightarrow> bytes" where
  "a64_rodata insn = (case string_val insn of None \<Rightarrow> [] | Some s \<Rightarrow> take (Suc (unat (string_len insn))) (cstring s))"

definition a64_elf_string :: "(nat \<Rightarrow> bool) \<Rightarrow> nat \<Rightarrow> nat \<Rightarrow> Instruction \<Rightarrow> a64_words \<times> ElfEmitter \<Rightarrow> a64_words \<times> ElfEmitter" where
  "a64_elf_string grants cap func_offset insn = (\<lambda>(enc, elf).
     (let (ro_off, elf1) = append_rodata grants (a64_rodata insn) elf;
          insn_off = of_nat (func_offset + 4 * length enc) :: u64;
          text_page = ucast (drop_bit 12 insn_off) :: i32;
          rodata_page = ucast (drop_bit 12 (insn_off + ro_off)) :: i32;
          enc1 = a64_emit cap enc (a64_adrp X0 (rodata_page - text_page) @ a64_add_imm12 X0 X0 (ucast (ro_off AND 0xFFF))) in
      (enc1, add_relocation grants (insn_off + 4) 2 277 ro_off (add_relocation grants insn_off 2 275 ro_off elf1))))"

definition a64_elf_insn :: "(nat \<Rightarrow> bool) \<Rightarrow> nat \<Rightarrow> nat \<Rightarrow> Instruction \<Rightarrow> a64_words \<times> ElfEmitter \<Rightarrow> a64_words \<times> ElfEmitter" where
  "a64_elf_insn grants cap func_offset insn = (\<lambda>(enc, elf).
     (case op insn of
        ADD_I64 \<Rightarrow> (a64_emit cap enc (a64_add_reg_reg X0 X0 X1), elf) | ADD_I32 \<Rightarrow> (a64_emit cap enc (a64_add_reg_reg X0 X0 X1), elf)
      | SUB_I64 \<Rightarrow> (a64_emit cap enc (a64_sub_reg_reg X0 X0 X1), elf) | SUB_I32 \<Rightarrow> (a64_emit cap enc (a64_sub_reg_reg X0 X0 X1), elf)
      | MUL_I32 \<Rightarrow> (a64_emit cap enc (a64_mul_reg_reg X0 X0 X1), elf)
      | CONST_STRING \<Rightarrow> a64_elf_string grants cap func_offset insn (enc, elf)
      | RETURN_VAL \<Rightarrow> (a64_emit cap enc (a64_pop_fp_lr @ a64_ret), elf) | RETURN_VOID \<Rightarrow> (a64_emit cap enc (a64_pop_fp_lr @ a64_ret), elf)
      | _ \<Rightarrow> (enc, elf)))"

fun a64_elf_functions :: "(nat \<Rightarrow> bool) \<Rightarrow> Function list \<Rightarrow> SimpleByteBuffer \<Rightarrow> ElfEmitter \<Rightarrow> SimpleByteBuffer \<times> ElfEmitter" where
  "a64_elf_functions grants [] text_buf elf = (text_buf, elf)"
| "a64_elf_functions grants (fn # fns) text_buf elf =
     (let func_offset = buf_size text_buf; cap = a64_capacity (grants 65536);
          (enc, elf1) = fold (a64_elf_insn grants cap func_offset) (concat (map insns (blocks fn)))
             (a64_emit cap [] (a64_push_fp_lr @ a64_mov_fp_sp), elf);
          code = concat (map le32 enc) in
      a64_elf_functions grants fns (buf_write grants code text_buf)
        (snd (add_symbol grants (Some (fn_name fn)) 1 2 1 (of_nat func_offset) (of_nat (length code)) elf1)))"

definition a64_compile_to_elf :: "(nat \<Rightarrow> bool) \<Rightarrow> bool \<Rightarrow> Program \<Rightarrow> string option \<Rightarrow> bytes option" where
  "a64_compile_to_elf grants opens prog out_filename =
     (if out_filename = None then None
      else
        (let (text_buf, elf) = a64_elf_functions grants (prog_functions prog) (new_buffer grants)
               (set_machine_arch 183 (new_emitter grants)) in
         fst (write_elf_object grants opens out_filename (sb_data text_buf) elf)))"

end
