(* ===== verification/A64_Correct.thy ===== *)
theory A64_Correct
  imports A64 Spill_Machine
begin

text \<open>
  Correctness of the AArch64 backend: a decoder and a semantics of the instructions that
  compiled arithmetic and control flow use, written from the architecture manual, and that the
  code of single instructions computes what the reference semantics says.
\<close>

unbundle bit_operations_syntax

section \<open>The architecture\<close>

datatype a64op = A_ADD | A_SUB | A_MUL | A_SDIV | A_AND | A_ORR | A_EOR | A_LSL | A_LSR

datatype a64cond = C_EQ | C_NE | C_GE | C_LT

datatype a64insn =
    AOP a64op u8 u8 u8
  | ACMP u8 u8
  | MOVZ u8 u64
  | MOVK u8 nat u64
  | ALDR u8 u8 u64
  | ASTR u8 u8 u64
  | AADDI u8 u8 u64
  | ASUBI u8 u8 u64
  | STP_PRE u8 u8 u8 u64
  | LDP_POST u8 u8 u8 u64
  | BCOND a64cond u64
  | AB u64
  | ARET u8

definition a64_ops :: "((u32 \<times> u32 \<times> u32) \<times> a64op) list" where
  "a64_ops = [((0x8B, 0, 0), A_ADD), ((0xCB, 0, 0), A_SUB), ((0x9B, 0, 0x1F), A_MUL), ((0x9A, 6, 3), A_SDIV), ((0x8A, 0, 0), A_AND),
     ((0xAA, 0, 0), A_ORR), ((0xCA, 0, 0), A_EOR), ((0x9A, 6, 8), A_LSL), ((0x9A, 6, 9), A_LSR)]"

definition a64_decode :: "u32 \<Rightarrow> a64insn option" where
  "a64_decode w =
     (let hi = fld 24 8 w; d = ucast (fld 0 5 w); n = ucast (fld 5 5 w); m = ucast (fld 16 5 w);
          sz = fld 22 2 w; imm12 = ucast (fld 10 12 w); imm16 = ucast (fld 5 16 w);
          imm7 = signed_take_bit 6 (ucast (fld 15 7 w)) in
      if fld 26 6 w = 5 then Some (AB (4 * signed_take_bit 25 (ucast (fld 0 26 w))))
      else if hi = 0x54 then
        map_option (\<lambda>c. BCOND c (4 * signed_take_bit 18 (ucast (fld 5 19 w))))
          (map_of [(0, C_EQ), (1, C_NE), (0xA, C_GE), (0xB, C_LT)] (fld 0 5 w))
      else if hi = 0xF9 then (if sz = 1 then Some (ALDR d n (8 * imm12)) else if sz = 0 then Some (ASTR d n (8 * imm12)) else None)
      else if hi = 0x91 \<and> sz = 0 then Some (AADDI d n imm12)
      else if hi = 0xD1 \<and> sz = 0 then Some (ASUBI d n imm12)
      else if hi = 0xA9 \<and> sz = 2 then Some (STP_PRE d (ucast (fld 10 5 w)) n (8 * imm7))
      else if hi = 0xA8 \<and> sz = 3 then Some (LDP_POST d (ucast (fld 10 5 w)) n (8 * imm7))
      else if hi = 0xD2 \<and> fld 21 3 w = 4 then Some (MOVZ d imm16)
      else if hi = 0xF2 \<and> 4 \<le> fld 21 3 w then Some (MOVK d (unat (fld 21 2 w)) imm16)
      else if hi = 0xEB \<and> fld 21 3 w = 0 \<and> fld 10 6 w = 0 \<and> d = 31 then Some (ACMP n m)
      else if hi = 0xD6 \<and> fld 10 22 w = 0x3597C0 \<and> d = 0 then Some (ARET n)
      else map_option (\<lambda>f. AOP f d n m) (map_of a64_ops (hi, fld 21 3 w, fld 10 6 w)))"

text \<open>Register 31 is the zero register or the stack pointer, depending on the instruction.\<close>

record a64state =
  ar :: "u8 \<Rightarrow> u64"
  asp :: u64
  am :: "u64 \<Rightarrow> u8"
  apc :: u64
  flag_n :: bool
  flag_z :: bool
  flag_v :: bool

definition aget :: "a64state \<Rightarrow> u8 \<Rightarrow> u64" where
  "aget s r = (if r = 31 then 0 else ar s r)"

definition aget_sp :: "a64state \<Rightarrow> u8 \<Rightarrow> u64" where
  "aget_sp s r = (if r = 31 then asp s else ar s r)"

definition aset :: "u8 \<Rightarrow> u64 \<Rightarrow> a64state \<Rightarrow> a64state" where
  "aset r v s = (if r = 31 then s else s\<lparr>ar := (ar s)(r := v)\<rparr>)"

definition aset_sp :: "u8 \<Rightarrow> u64 \<Rightarrow> a64state \<Rightarrow> a64state" where
  "aset_sp r v s = (if r = 31 then s\<lparr>asp := v\<rparr> else s\<lparr>ar := (ar s)(r := v)\<rparr>)"

definition a64_next :: "a64state \<Rightarrow> a64state" where
  "a64_next s = s\<lparr>apc := apc s + 4\<rparr>"

fun a64_alu :: "a64op \<Rightarrow> u64 \<Rightarrow> u64 \<Rightarrow> u64" where
  "a64_alu A_ADD a b = a + b"
| "a64_alu A_SUB a b = a - b"
| "a64_alu A_MUL a b = a * b"
| "a64_alu A_SDIV a b = (if b = 0 then 0 else word_sdiv a b)"
| "a64_alu A_AND a b = a AND b"
| "a64_alu A_ORR a b = a OR b"
| "a64_alu A_EOR a b = a XOR b"
| "a64_alu A_LSL a b = push_bit (unat (take_bit 6 b)) a"
| "a64_alu A_LSR a b = drop_bit (unat (take_bit 6 b)) a"

fun a64_taken :: "a64cond \<Rightarrow> a64state \<Rightarrow> bool" where
  "a64_taken C_EQ s = flag_z s"
| "a64_taken C_NE s = (\<not> flag_z s)"
| "a64_taken C_GE s = (flag_n s = flag_v s)"
| "a64_taken C_LT s = (flag_n s \<noteq> flag_v s)"

definition movk :: "nat \<Rightarrow> u64 \<Rightarrow> u64 \<Rightarrow> u64" where
  "movk k c x = (x AND NOT (push_bit (16 * k) (mask 16))) OR push_bit (16 * k) c"

fun a64_exec :: "a64insn \<Rightarrow> a64state \<Rightarrow> a64state" where
  "a64_exec (AOP f d n m) s = a64_next (aset d (a64_alu f (aget s n) (aget s m)) s)"
| "a64_exec (ACMP n m) s = (let a = aget s n; b = aget s m in
     a64_next (s\<lparr>flag_n := sint (a - b) < 0, flag_z := a = b, flag_v := sint (a - b) \<noteq> sint a - sint b\<rparr>))"
| "a64_exec (MOVZ d i) s = a64_next (aset d i s)"
| "a64_exec (MOVK d k i) s = a64_next (aset d (movk k i (aget s d)) s)"
| "a64_exec (ALDR t n i) s = a64_next (aset t (read64 (am s) (aget_sp s n + i)) s)"
| "a64_exec (ASTR t n i) s = a64_next (s\<lparr>am := write64 (am s) (aget_sp s n + i) (aget s t)\<rparr>)"
| "a64_exec (AADDI d n i) s = a64_next (aset_sp d (aget_sp s n + i) s)"
| "a64_exec (ASUBI d n i) s = a64_next (aset_sp d (aget_sp s n - i) s)"
| "a64_exec (STP_PRE t u n i) s = (let a = aget_sp s n + i in
     a64_next (aset_sp n a (s\<lparr>am := write64 (write64 (am s) a (aget s t)) (a + 8) (aget s u)\<rparr>)))"
| "a64_exec (LDP_POST t u n i) s = (let a = aget_sp s n in
     a64_next (aset_sp n (a + i) (aset u (read64 (am s) (a + 8)) (aset t (read64 (am s) a) s))))"
| "a64_exec (BCOND c i) s = (if a64_taken c s then s\<lparr>apc := apc s + i\<rparr> else a64_next s)"
| "a64_exec (AB i) s = s\<lparr>apc := apc s + i\<rparr>"
| "a64_exec (ARET n) s = s\<lparr>apc := aget s n\<rparr>"

fun a64_plain :: "a64insn \<Rightarrow> bool" where
  "a64_plain (BCOND _ _) = False"
| "a64_plain (AB _) = False"
| "a64_plain (ARET _) = False"
| "a64_plain _ = True"

section \<open>Words decode to the instructions they are named after\<close>

lemma a64_masks:
  "(x :: 'a::len word) AND 0xFFFF = take_bit 16 x" "x AND 0x7FFFF = take_bit 19 x" "x AND 0x3FFFFFF = take_bit 26 x"
  "x AND 0x1FF = take_bit 9 x"
  by (simp_all add: take_bit_eq_mask mask_eq_exp_minus_1)

lemma arm64_u8_take: "(ucast (arm64_u8 r) :: u32) = take_bit 5 (ucast r)"
  by (simp add: arm64_u8_def and_masks unsigned_take_bit_eq)

lemma ucast16: "(ucast (c :: u16) :: u32) = take_bit 16 (ucast c)"
  by (rule bit_eqI) (auto simp: bit_simps dest: bit_imp_le_length)

lemma a64_movw_take: "a64_movw base c d = base OR push_bit 5 (take_bit 16 (ucast c)) OR take_bit 5 (ucast d)"
  by (simp only: a64_movw_def arm64_u8_take ucast16 [symmetric])

lemmas a64_fields = a64_rrr_def a64_movw_take a64_mem_def arm64_u8_take fld_simps fld_numeral a64_masks and_masks

lemmas a64_decoding = a64_decode_def Let_def a64_fields a64_ops_def ucast_reg

lemma decode_alu:
  assumes "take_bit 5 d = d" "take_bit 5 n = n" "take_bit 5 m = m"
  shows "map a64_decode (a64_add_reg_reg d n m) = [Some (AOP A_ADD d n m)]" "map a64_decode (a64_sub_reg_reg d n m) = [Some (AOP A_SUB d n m)]"
    "map a64_decode (a64_mul_reg_reg d n m) = [Some (AOP A_MUL d n m)]" "map a64_decode (a64_sdiv_reg_reg d n m) = [Some (AOP A_SDIV d n m)]"
    "map a64_decode (a64_and_reg_reg d n m) = [Some (AOP A_AND d n m)]" "map a64_decode (a64_orr_reg_reg d n m) = [Some (AOP A_ORR d n m)]"
    "map a64_decode (a64_eor_reg_reg d n m) = [Some (AOP A_EOR d n m)]" "map a64_decode (a64_lsl_reg_reg d n m) = [Some (AOP A_LSL d n m)]"
    "map a64_decode (a64_lsr_reg_reg d n m) = [Some (AOP A_LSR d n m)]"
  using assms by (simp_all add: a64_add_reg_reg_def a64_sub_reg_reg_def a64_mul_reg_reg_def a64_sdiv_reg_reg_def a64_and_reg_reg_def
      a64_orr_reg_reg_def a64_eor_reg_reg_def a64_lsl_reg_reg_def a64_lsr_reg_reg_def a64_decoding)

lemma ucast_chunk: "(ucast (take_bit 16 (ucast (c :: u16) :: u32)) :: u64) = ucast c"
  by (rule bit_eqI) (auto simp: bit_simps dest: bit_imp_le_length)

lemma decode_movw:
  assumes "take_bit 5 d = d"
  shows "a64_decode (a64_movw 0xD2800000 c d) = Some (MOVZ d (ucast c))" "a64_decode (a64_movw 0xF2A00000 c d) = Some (MOVK d 1 (ucast c))"
    "a64_decode (a64_movw 0xF2C00000 c d) = Some (MOVK d 2 (ucast c))" "a64_decode (a64_movw 0xF2E00000 c d) = Some (MOVK d 3 (ucast c))"
  using assms by (simp_all add: a64_decoding ucast_chunk)

lemma decode_cmp:
  assumes "take_bit 5 n = n" "take_bit 5 m = m"
  shows "map a64_decode (a64_cmp_reg_reg n m) = [Some (ACMP n m)]"
  using assms by (simp add: a64_cmp_reg_reg_def a64_decoding)

lemma decode_b: "map a64_decode (a64_b_uncond i) = [Some (AB (4 * scast (signed_take_bit 25 i)))]"
  using ucast_take_signed [of 25 i] by (simp add: a64_b_uncond_def a64_decoding)

definition a64_cond_of :: "Opcode \<Rightarrow> a64cond" where
  "a64_cond_of opc = (if opc = IF_LT then C_LT else if opc = IF_EQ then C_EQ else if opc = IF_NE then C_NE else C_GE)"

lemma decode_bcond_fields:
  assumes "take_bit 4 c = c" "map_of [(0, C_EQ), (1, C_NE), (0xA, C_GE), (0xB, C_LT)] (ucast c :: u32) = Some a"
  shows "map a64_decode (a64_b_cond c i) = [Some (BCOND a (4 * scast (signed_take_bit 18 i)))]"
proof -
  have "(take_bit 4 (ucast c) :: u32) = ucast c"
    using assms(1) by (metis unsigned_take_bit_eq)
  then have "fld 0 5 (take_bit 4 (ucast c)) = (ucast c :: u32)"
    using take_bit_take_bit [of 5 4 "ucast c :: u32"] by (simp add: fld_def)
  then show ?thesis
    using ucast_take_signed [of 18 i] assms(2)
    by (simp add: a64_b_cond_def a64_decode_def Let_def fld_simps fld_numeral a64_masks and_masks unsigned_take_bit_eq)
qed

lemma decode_bcond: "map a64_decode (a64_b_cond (a64_cond opc) i) = [Some (BCOND (a64_cond_of opc) (4 * scast (signed_take_bit 18 i)))]"
  by (rule decode_bcond_fields) (simp_all add: a64_cond_def a64_cond_of_def)

lemma decode_mem:
  assumes "k < 64" "take_bit 5 t = t" "take_bit 5 n = n"
  shows "map a64_decode (a64_ldr_reg_mem t n (of_nat (8 * k))) = [Some (ALDR t n (of_nat (8 * k)))]"
    "map a64_decode (a64_str_reg_mem t n (of_nat (8 * k))) = [Some (ASTR t n (of_nat (8 * k)))]"
proof -
  have "list_all (\<lambda>k. (of_nat (8 * k) :: u32) mod 8 = 0 \<and> (of_nat (8 * k) :: u32) \<le> 32760 \<and>
      8 * ucast (take_bit 12 ((of_nat (8 * k) :: u32) div 8)) = (of_nat (8 * k) :: u64)) [0..<64]"
    by code_simp
  then have o: "(of_nat (8 * k) :: u32) mod 8 = 0" "(of_nat (8 * k) :: u32) \<le> 32760"
    "8 * ucast (take_bit 12 ((of_nat (8 * k) :: u32) div 8)) = (of_nat (8 * k) :: u64)"
    using assms(1) by (simp_all only: list_all_iff set_upt) auto
  show "map a64_decode (a64_ldr_reg_mem t n (of_nat (8 * k))) = [Some (ALDR t n (of_nat (8 * k)))]"
    "map a64_decode (a64_str_reg_mem t n (of_nat (8 * k))) = [Some (ASTR t n (of_nat (8 * k)))]"
    using assms o by (simp_all add: a64_ldr_reg_mem_def a64_str_reg_mem_def a64_decoding del: of_nat_mult)
qed

section \<open>Constants\<close>

definition chunk :: "nat \<Rightarrow> u64 \<Rightarrow> u64" where
  "chunk k v = take_bit 16 (drop_bit (16 * k) v)"

definition a64_mov_code :: "u8 \<Rightarrow> u64 \<Rightarrow> a64insn list" where
  "a64_mov_code d v = MOVZ d (chunk 0 v) # concat (map (\<lambda>k. if chunk k v \<noteq> 0 then [MOVK d k (chunk k v)] else []) [1, 2, 3])"

lemma ucast_chunks:
  "ucast (ucast (take_bit 16 (x :: u64)) :: u16) = take_bit 16 x" "(ucast (take_bit 16 x) :: u16) = 0 \<longleftrightarrow> take_bit 16 x = 0"
proof -
  show u: "ucast (ucast (take_bit 16 x) :: u16) = take_bit 16 x"
    by (rule bit_eqI) (auto simp: bit_simps)
  show "(ucast (take_bit 16 x) :: u16) = 0 \<longleftrightarrow> take_bit 16 x = 0"
    using u by (metis unsigned_0)
qed

lemma decode_mov_imm: "take_bit 5 d = d \<Longrightarrow> map a64_decode (a64_mov_reg_imm64 d v) = map Some (a64_mov_code d v)"
  by (simp add: a64_mov_reg_imm64_def a64_mov_code_def chunk_def Let_def a64_masks decode_movw ucast_chunks)

lemma movk_chunk: "k < 4 \<Longrightarrow> movk k (chunk k v) (take_bit (16 * k) v) = take_bit (16 * Suc k) v"
  by (rule bit_eqI) (auto simp: movk_def chunk_def bit_simps)

lemma chunk_0: "chunk k v = 0 \<Longrightarrow> take_bit (16 * Suc k) v = take_bit (16 * k) v"
proof -
  assume "chunk k v = 0"
  have "\<not> bit v (16 * k + j)" if "j < 16" for j
  proof -
    have "bit (chunk k v) j \<longleftrightarrow> bit v (16 * k + j)"
      using that by (simp add: chunk_def bit_take_bit_iff bit_drop_bit_eq)
    then show ?thesis
      using \<open>chunk k v = 0\<close> by simp
  qed
  then have "\<not> bit v j" if "16 * k \<le> j" "j < 16 * Suc k" for j
    using that by (auto simp: le_iff_add)
  then show ?thesis
    by (intro bit_eqI) (auto simp: bit_simps, meson not_less)
qed

text \<open>After the chunks up to \<open>k\<close>, the register has the value as far as these go.\<close>

lemma mov_chunk:
  assumes "ar s d = take_bit (16 * k) v" "k < 4" "d \<noteq> 31"
  shows "\<exists>p. fold a64_exec (if chunk k v \<noteq> 0 then [MOVK d k (chunk k v)] else []) s = s\<lparr>ar := (ar s)(d := take_bit (16 * Suc k) v), apc := p\<rparr>"
proof (cases "chunk k v = 0")
  case True
  then show ?thesis
    using chunk_0 [OF True] assms(1) by (intro exI [of _ "apc s"]) (simp add: fun_upd_idem)
qed (use assms movk_chunk [of k v] in \<open>auto simp: a64_next_def aset_def aget_def\<close>)

definition a64_sets :: "u8 \<Rightarrow> u64 \<Rightarrow> a64state \<Rightarrow> a64state \<Rightarrow> bool" where
  "a64_sets d v s s' \<longleftrightarrow> am s' = am s \<and> asp s' = asp s \<and> ar s' = (ar s)(d := v)"

lemma a64_mov_code_sets:
  assumes "d \<noteq> 31"
  shows "a64_sets d v s (fold a64_exec (a64_mov_code d v) s)"
proof -
  obtain s1 where s1: "s1 = a64_exec (MOVZ d (chunk 0 v)) s"
    by simp
  have r1: "ar s1 d = take_bit (16 * 1) v" "a64_sets d (take_bit 16 v) s s1"
    using assms by (simp_all add: s1 chunk_def a64_next_def aset_def a64_sets_def)
  obtain p2 where s2: "fold a64_exec (if chunk 1 v \<noteq> 0 then [MOVK d 1 (chunk 1 v)] else []) s1 = s1\<lparr>ar := (ar s1)(d := take_bit 32 v), apc := p2\<rparr>" (is "_ = ?s2")
    using mov_chunk [OF r1(1) _ assms] by auto
  obtain p3 where s3: "fold a64_exec (if chunk 2 v \<noteq> 0 then [MOVK d 2 (chunk 2 v)] else []) ?s2 = ?s2\<lparr>ar := (ar ?s2)(d := take_bit 48 v), apc := p3\<rparr>" (is "_ = ?s3")
    using mov_chunk [of ?s2 d 2 v] assms by auto
  obtain p4 where s4: "fold a64_exec (if chunk 3 v \<noteq> 0 then [MOVK d 3 (chunk 3 v)] else []) ?s3 = ?s3\<lparr>ar := (ar ?s3)(d := take_bit 64 v), apc := p4\<rparr>"
    using mov_chunk [of ?s3 d 3 v] assms by auto
  have "fold a64_exec (a64_mov_code d v) s = ?s3\<lparr>ar := (ar ?s3)(d := take_bit 64 v), apc := p4\<rparr>"
    unfolding a64_mov_code_def list.map concat.simps fold_append fold_Cons fold_Nil comp_apply id_apply append_Nil2 s1 [symmetric] s2 s3 s4 ..
  then show ?thesis
    using r1(2) by (simp add: a64_sets_def take_bit_word_eq_self)
qed

lemma a64_mov_code_plain: "list_all a64_plain (a64_mov_code d v)"
  by (simp add: a64_mov_code_def)

section \<open>Spill slots\<close>

text \<open>Registers with a slot of their own: 32 locals and 8 parameters.\<close>

definition a64_reg :: "Register \<Rightarrow> bool" where
  "a64_reg r \<longleftrightarrow> (case reg_type r of PARAM \<Rightarrow> unat (reg_index r) < 8 | LOCAL \<Rightarrow> unat (reg_index r) < 32 | RT_NONE \<Rightarrow> False)"

definition a64_slot_no :: "Register \<Rightarrow> nat" where
  "a64_slot_no r = (if reg_type r = PARAM then 32 else 0) + unat (reg_index r)"

lemma a64_slot_inj: "a64_reg r \<Longrightarrow> a64_reg q \<Longrightarrow> a64_slot_no r = a64_slot_no q \<Longrightarrow> r = q"
  by (cases r; cases q; cases "reg_type r"; cases "reg_type q")
    (auto simp: a64_reg_def a64_slot_no_def intro: word_unat_eq_iff [THEN iffD2])

lemma a64_slot_less: "a64_reg r \<Longrightarrow> a64_slot_no r < 40"
  by (auto simp: a64_reg_def a64_slot_no_def split: RegisterType.splits)

lemma a64_slot_offset:
  assumes "a64_reg r"
  shows "a64_slot r = of_nat (8 * a64_slot_no r)"
proof -
  have "reg_index r AND 7 = reg_index r" if "unat (reg_index r) < 8"
    using that by (simp add: and_masks word_unat_eq_iff unsigned_take_bit_eq take_bit_nat_eq_self)
  moreover have "reg_index r AND 31 = reg_index r" if "unat (reg_index r) < 32"
    using that by (simp add: and_masks word_unat_eq_iff unsigned_take_bit_eq take_bit_nat_eq_self)
  ultimately show ?thesis
    using assms by (cases "reg_type r") (auto simp: a64_reg_def a64_slot_def a64_slot_no_def)
qed

section \<open>Straight-line code\<close>

definition a64_op_of :: "Opcode \<Rightarrow> (a64op \<times> (Arm64Reg \<Rightarrow> Arm64Reg \<Rightarrow> Arm64Reg \<Rightarrow> a64_words)) option" where
  "a64_op_of opc = map_of [(ADD_I64, A_ADD, a64_add_reg_reg), (SUB_I64, A_SUB, a64_sub_reg_reg), (MUL_I64, A_MUL, a64_mul_reg_reg),
     (DIV_I64, A_SDIV, a64_sdiv_reg_reg), (AND_I64, A_AND, a64_and_reg_reg), (OR_I64, A_ORR, a64_orr_reg_reg),
     (XOR_I64, A_EOR, a64_eor_reg_reg), (SHL_I64, A_LSL, a64_lsl_reg_reg), (USHR_I64, A_LSR, a64_lsr_reg_reg)] opc"

definition a64_alu_words :: "Opcode \<Rightarrow> a64_words option" where
  "a64_alu_words opc = map_option (\<lambda>(_, f). f X9 X9 X10) (a64_op_of opc)"

lemma a64_op_of_decode:
  assumes "a64_op_of opc = Some (f, e)"
  shows "map a64_decode (e X9 X9 X10) = [Some (AOP f X9 X9 X10)]"
  using assms decode_alu [of X9 X9 X10] by (auto simp: a64_op_of_def split: if_splits)

lemma a64_sdiv_minus_1: "word_sdiv a (- 1 :: u64) = 0 - a"
  by (simp add: word_sdiv_def)

lemma a64_count_take: "unat ((ucast (b :: u64) :: u32) AND 63) = unat (take_bit 6 b)"
proof -
  have "unat (take_bit 6 (ucast b :: u32)) = unat (take_bit 6 b)"
    by (simp add: unsigned_take_bit_eq unsigned_ucast_eq)
  then show ?thesis
    by (simp add: and_masks)
qed

lemma a64_alu_value: "a64_op_of opc = Some (f, e) \<Longrightarrow> fold_const opc a b = Some v \<Longrightarrow> a64_alu f a b = v"
  by (auto simp: a64_op_of_def fold_const_def Let_def a64_count_take a64_sdiv_minus_1 split: if_splits)

lemma a64_reg_constants: "take_bit 5 (9 :: u8) = 9" "take_bit 5 (10 :: u8) = 10" "take_bit 5 (0 :: u8) = 0" "take_bit 5 (31 :: u8) = 31"
  by simp_all

interpretation a64: spill_state ar asp am a64_slot_no a64_reg "\<lambda>_. True" X9 X10
  by unfold_locales (use a64_slot_less in \<open>force simp: a64_slot_inj\<close>)+

lemma a64_load_sets:
  assumes "a64.opd_ok opd" "take_bit 5 t = t" "t \<noteq> 31"
  shows "\<exists>is. map a64_decode (a64_load_op opd t) = map Some is \<and> list_all a64_plain is
    \<and> (\<forall>\<rho> s. a64.rep \<rho> s \<longrightarrow> a64.sets t (opd_val \<rho> opd) s (fold a64_exec is s))"
proof (cases opd)
  case (OpConst c)
  then show ?thesis
    using decode_mov_imm [OF assms(2), of c] a64_mov_code_plain a64_mov_code_sets [OF assms(3), of c]
    by (intro exI [of _ "a64_mov_code t c"]) (simp add: a64_load_op_def a64.sets_def a64_sets_def opd_val_def)
next
  case (OpReg r)
  then have r: "a64_reg r"
    using assms(1) by (simp add: a64.opd_ok_def)
  then have "map a64_decode (a64_load_op opd t) = map Some [ALDR t 31 (of_nat (8 * a64_slot_no r))]"
    using OpReg decode_mem(1) [OF _ assms(2) a64_reg_constants(4), of "a64_slot_no r"] a64_slot_less [OF r]
    by (simp add: a64_load_op_def a64_slot_offset del: of_nat_mult)
  then show ?thesis
    using OpReg assms(3) r by (intro exI [of _ "[ALDR t 31 (of_nat (8 * a64_slot_no r))]"])
      (simp add: a64.sets_def a64.rep_def a64.addr_def opd_val_def a64_next_def aset_def aget_sp_def)
qed (use assms(1) in \<open>simp_all add: a64.opd_ok_def\<close>)

lemma a64_store_slot:
  assumes "a64_reg d" "take_bit 5 t = t"
  shows "map a64_decode (a64_store_reg d t) = map Some [ASTR t 31 (of_nat (8 * a64_slot_no d))]"
  using decode_mem(2) [OF _ assms(2) a64_reg_constants(4), of "a64_slot_no d"] a64_slot_less [OF assms(1)] assms(1)
  by (simp add: a64_store_reg_def a64_slot_offset del: of_nat_mult)

section \<open>Comparisons\<close>

lemma a64_compare:
  fixes s n m
  defines "s' \<equiv> a64_exec (ACMP n m) s"
  shows "a64_taken (a64_cond_of opc) s' = cond_holds opc (aget s n) (aget s m)"
    "ar s' = ar s" "am s' = am s" "asp s' = asp s"
  using sint_diff_flags [of "aget s n" "aget s m"]
  by (simp_all add: s'_def a64_next_def Let_def a64_cond_of_def cond_holds_def) linarith+

section \<open>The backend as a spilling compiler\<close>

definition a64_saved :: "a64state \<Rightarrow> (nat \<times> u64) list" where
  "a64_saved s = [(40, ar s 29), (41, ar s 30)]"

lemma a64_plain_pc: "a64_plain i \<Longrightarrow> apc (a64_exec i s) = apc s + 4"
  by (cases i) (simp_all add: a64_next_def aset_def aset_sp_def Let_def)

interpretation a64f: spill_frame ar asp am a64_slot_no a64_reg "\<lambda>_. True" X9 X10 a64_decode a64_plain a64_exec a64_load_op
  a64_store_reg a64_alu_words "a64_sub_reg_reg X9 XZR X9" apc 42 a64_saved "{9, 10, 29}"
proof unfold_locales
  show "\<exists>is. map a64_decode (a64_load_op opd r) = map Some is \<and> list_all a64_plain is
      \<and> (\<forall>\<rho> s. a64.rep \<rho> s \<longrightarrow> a64.sets r (opd_val \<rho> opd) s (fold a64_exec is s))"
    if "a64.opd_ok opd" "r = X9 \<or> r = X10" for opd r
    using a64_load_sets [OF that(1), of r] that(2) a64_reg_constants by auto
  show "\<exists>is. map a64_decode (a64_store_reg d X9) = map Some is \<and> list_all a64_plain is
      \<and> (\<forall>s. am (fold a64_exec is s) = write64 (am s) (a64.addr s d) (ar s X9) \<and> asp (fold a64_exec is s) = asp s
        \<and> ar (fold a64_exec is s) = ar s)" if "a64_reg d" for d
    using a64_store_slot [OF that a64_reg_constants(1)]
    by (intro exI [of _ "[ASTR X9 31 (of_nat (8 * a64_slot_no d))]"]) (simp add: a64.addr_def a64_next_def aget_def aget_sp_def)
  show "\<exists>is. map a64_decode ws = map Some is \<and> list_all a64_plain is
      \<and> (\<forall>s v. fold_const opc (ar s X9) (ar s X10) = Some v \<longrightarrow> a64.sets X9 v s (fold a64_exec is s))"
    if a: "a64_alu_words opc = Some ws" for opc ws
  proof -
    obtain f e where f: "a64_op_of opc = Some (f, e)" "ws = e X9 X9 X10"
      using a by (auto simp: a64_alu_words_def)
    then show ?thesis
      using a64_op_of_decode [OF f(1)] a64_alu_value [OF f(1)]
      by (intro exI [of _ "[AOP f X9 X9 X10]"]) (simp add: a64.sets_def a64_next_def aset_def aget_def)
  qed
  show "\<exists>is. map a64_decode (a64_sub_reg_reg X9 XZR X9) = map Some is \<and> list_all a64_plain is
      \<and> (\<forall>s. a64.sets X9 (- ar s X9) s (fold a64_exec is s))"
    using decode_alu(2) [of X9 XZR X9] a64_reg_constants
    by (intro exI [of _ "[AOP A_SUB X9 XZR X9]"]) (simp add: a64.sets_def a64_next_def aset_def aget_def)
  show "opc \<notin> {MOVE, MOVE_CONST, NEG_I64, POPCOUNT_I64, LZCNT_I64}" if "a64_alu_words opc = Some ws" for opc ws
    using that by (auto simp: a64_alu_words_def a64_op_of_def)
  show "k < 42 \<and> (a64_reg r \<longrightarrow> a64_slot_no r \<noteq> k)" if "(k, v) \<in> set (a64_saved s)" for k v s r
    using that a64_slot_less [of r] by (auto simp: a64_saved_def)
  show "a64_slot_no r < 42" if "a64_reg r" for r
    using a64_slot_less [OF that] by simp
qed (simp_all add: a64_plain_pc)

end
