(* ===== verification/A64_Function.thy ===== *)
theory A64_Function
  imports A64_Correct Sum_Function
begin

text \<open>
  Whole functions on AArch64: the backend is an instance of the machines of
  \<^theory_text>\<open>Two_Pass\<close>, so the compiled function, called like a function of the platform,
  returns what the reference semantics computes.
\<close>

unbundle bit_operations_syntax

section \<open>Code lengths\<close>

lemma length_a64_insn: "length (a64_insn env cap lt p2 pos i) = length (a64_insn env cap' lt' p2' pos' i)"
  by (cases "op i") (simp_all add: a64_insn_def a64_if_def Let_def a64_b_cond_def a64_b_uncond_def)

section \<open>Single instructions\<close>

abbreviation a64_run :: "nat \<Rightarrow> u64 \<Rightarrow> a64_words \<Rightarrow> a64state \<Rightarrow> a64state option" where
  "a64_run \<equiv> wm_run a64_decode a64_exec apc"

definition a64_supported :: "Instruction \<Rightarrow> bool" where
  "a64_supported i \<longleftrightarrow> a64f.straight i \<or> op i = GOTO \<or> is_cond (op i) \<and> a64.opd_ok (src1 i) \<and> a64.opd_ok (src2 i)
     \<or> op i = RETURN_VAL \<and> a64.opd_ok (src1 i) \<or> op i = RETURN_VOID"

lemma a64_supported_assign: "a64_supported i \<Longrightarrow> ir_result i \<rho> = Some v \<Longrightarrow> a64f.straight i"
  using ir_result_control [of i \<rho>] by (auto simp: a64_supported_def)

lemma a64_supported_operands:
  "a64_supported i \<Longrightarrow> is_cond (op i) \<Longrightarrow> a64.opd_ok (src1 i) \<and> a64.opd_ok (src2 i)"
  "a64_supported i \<Longrightarrow> op i = RETURN_VAL \<Longrightarrow> a64.opd_ok (src1 i)"
  by (auto simp: a64_supported_def is_cond_def a64f.straight_def a64_alu_words_def a64_op_of_def)

lemma a64_insn_alu:
  assumes "a64_alu_words (op i) = Some vs"
  shows "a64_insn env cap lt p2 pos i = ((a64_load_op (src1 i) X9 @ a64_load_op (src2 i) X10) @ vs) @ a64_store_reg (op_reg (dest i)) X9"
  using assms by (auto simp: a64_alu_words_def a64_op_of_def a64_insn_def a64_binop_def split: if_splits)

lemma a64_insn_moves:
  "op i = MOVE \<Longrightarrow> a64_insn env cap lt p2 pos i = a64_load_op (src1 i) X9 @ a64_store_reg (op_reg (dest i)) X9"
  "op i = MOVE_CONST \<Longrightarrow> a64_insn env cap lt p2 pos i = a64_load_op (OpConst (op_const (src1 i))) X9 @ a64_store_reg (op_reg (dest i)) X9"
  "op i = NEG_I64 \<Longrightarrow> a64_insn env cap lt p2 pos i = (a64_load_op (src1 i) X9 @ a64_sub_reg_reg X9 XZR X9) @ a64_store_reg (op_reg (dest i)) X9"
  by (simp_all add: a64_insn_def a64_load_op_def a64_neg_def)

lemma a64_lowers:
  assumes "a64f.straight i"
  shows "a64f.lowers (a64_insn env cap lt p2 pos i) i" "a64_reg (op_reg (dest i))"
proof -
  show "a64f.lowers (a64_insn env cap lt p2 pos i) i"
    by (rule a64f.code_straight(1) [OF assms a64_insn_moves a64_insn_alu])
  show "a64_reg (op_reg (dest i))"
    using assms by (auto simp: a64f.straight_def split: Operand.splits)
qed

lemma word_jump:
  assumes "a < 16384" "b < 16384" "14 \<le> n" "n < 31"
  shows "4 * scast (signed_take_bit n (of_nat a - of_nat b :: u32)) = (of_nat (4 * a) - of_nat (4 * b) :: u64)"
proof -
  define z where "z = int a - int b"
  have b: "- (2 ^ k) \<le> z \<and> z < 2 ^ k" if "14 \<le> k" for k
    using power_increasing [OF that, of "2 :: int"] assms(1,2) by (simp add: z_def)
  have "signed_take_bit n (word_of_int z :: u32) = word_of_int (signed_take_bit n z)"
    using assms(4) by (intro bit_eqI) (auto simp: bit_simps min_def)
  moreover have "signed_take_bit n z = z" "signed_take_bit 31 z = z"
    using b [of n] b [of 31] assms(3) by (simp_all add: signed_take_bit_int_eq_self)
  moreover have "scast (word_of_int z :: u32) = (word_of_int (signed_take_bit 31 z) :: u64)"
    by (rule bit_eqI) (auto simp: bit_simps min_def)
  moreover have "of_nat a - of_nat b = (word_of_int z :: u32)" "of_nat (4 * a) - of_nat (4 * b) = (4 * word_of_int z :: u64)"
    by (simp_all add: z_def algebra_simps)
  ultimately show ?thesis
    by simp
qed

lemma a64_jump_at:
  assumes "wm_at apc base pos s" "dst < 16384" "pos < 16384" "14 \<le> n" "n < 31"
  shows "wm_at apc base dst (s\<lparr>apc := apc s + 4 * scast (signed_take_bit n (of_nat dst - of_nat pos :: u32))\<rparr>)"
  using word_jump [of dst pos n] assms by (simp add: wm_at_def)

lemma a64_pc_irrelevant [simp]: "a64.rep \<rho> (s\<lparr>apc := p\<rparr>) = a64.rep \<rho> s" "a64f.inv s0 (s\<lparr>apc := p\<rparr>) = a64f.inv s0 s"
  by (simp_all add: a64.rep_def a64.addr_def a64f.inv_def)

lemma a64_delta_pass2:
  "target_label i = Some t \<Longrightarrow> pos < 16384 \<Longrightarrow> a64_delta 16384 lt True d pos i = of_nat (get_label_offset lt t) - of_nat pos"
  by (simp add: a64_delta_def)

lemma a64_assigns:
  assumes "a64f.straight i" "ir_result i \<rho> = Some v" "length (P @ a64_insn env 16384 lt True (length P) i @ Q) < 16384"
    and "wm_at apc base (length P) s" "a64.rep \<rho> s" "a64f.inv s0 s"
  shows "\<exists>n s'. a64_run n base (P @ a64_insn env 16384 lt True (length P) i @ Q) s = Some s'
    \<and> wm_at apc base (length P + length (a64_insn env 16384 lt True (length P) i)) s'
    \<and> a64.rep (\<rho>(op_reg (dest i) := v)) s' \<and> a64f.inv s0 s'"
  using assms(3) by (intro a64f.run_assigns [OF a64_lowers [OF assms(1)] assms(2) _ assms(4-6)]) simp

lemma a64_jumps:
  assumes i: "op i = GOTO" "target_label i = Some t" "get_label_offset lt t < 16384"
    and small: "length (P @ a64_insn env 16384 lt True (length P) i @ Q) < 16384"
    and s: "wm_at apc base (length P) s" "a64.rep \<rho> s" "a64f.inv s0 s"
  shows "\<exists>n s'. a64_run n base (P @ a64_insn env 16384 lt True (length P) i @ Q) s = Some s'
    \<and> wm_at apc base (get_label_offset lt t) s' \<and> a64.rep \<rho> s' \<and> a64f.inv s0 s'"
proof -
  let ?d = "of_nat (get_label_offset lt t) - of_nat (length P) :: u32"
  obtain w where w: "a64_insn env 16384 lt True (length P) i = [w]" "a64_decode w = Some (AB (4 * scast (signed_take_bit 25 ?d)))"
    using decode_b [of ?d] i small a64_delta_pass2 [OF i(2), of "length P" lt] by (simp add: a64_insn_def a64_b_uncond_def)
  have "a64_run 1 base (P @ a64_insn env 16384 lt True (length P) i @ Q) s = Some (s\<lparr>apc := apc s + 4 * scast (signed_take_bit 25 ?d)\<rparr>)"
    using a64f.run_jump [of "[]" "[]" w _ P Q base s] w small s(1) by simp
  moreover have "wm_at apc base (get_label_offset lt t) (s\<lparr>apc := apc s + 4 * scast (signed_take_bit 25 ?d)\<rparr>)"
    using small by (intro a64_jump_at [OF s(1) i(3)]) simp_all
  ultimately show ?thesis
    using s(2,3) by (intro exI [of _ 1] exI) (auto simp del: wm_run.simps)
qed

lemma a64_branches:
  assumes o: "a64.opd_ok (src1 i)" "a64.opd_ok (src2 i)" and i: "is_cond (op i)"
    and b: "b = cond_holds (op i) (opd_val \<rho> (src1 i)) (opd_val \<rho> (src2 i))"
    and t: "b \<Longrightarrow> target_label i = Some t \<and> get_label_offset lt t < 16384"
    and small: "length (P @ a64_insn env 16384 lt True (length P) i @ Q) < 16384"
    and s: "wm_at apc base (length P) s" "a64.rep \<rho> s" "a64f.inv s0 s"
  shows "\<exists>n s'. a64_run n base (P @ a64_insn env 16384 lt True (length P) i @ Q) s = Some s'
    \<and> wm_at apc base (if b then get_label_offset lt t else length P + length (a64_insn env 16384 lt True (length P) i)) s'
    \<and> a64.rep \<rho> s' \<and> a64f.inv s0 s'"
proof (rule a64f.load_both [OF o])
  fix js
  assume js: "map a64_decode (a64_load_op (src1 i) X9 @ a64_load_op (src2 i) X10) = map Some js" "list_all a64_plain js"
    "\<And>\<rho> s. a64.rep \<rho> s \<Longrightarrow> am (fold a64_exec js s) = am s \<and> asp (fold a64_exec js s) = asp s
       \<and> ar (fold a64_exec js s) = (ar s)(X9 := opd_val \<rho> (src1 i), X10 := opd_val \<rho> (src2 i))"
  let ?l = "(a64_load_op (src1 i) X9 @ a64_load_op (src2 i) X10) @ a64_cmp_reg_reg X9 X10"
  let ?off = "a64_delta 16384 lt True 2 (length P + length ?l) i" and ?s = "fold a64_exec (js @ [ACMP X9 X10]) s"
  let ?j = "BCOND (a64_cond_of (op i)) (4 * scast (signed_take_bit 18 ?off))"
  obtain w where w: "a64_b_cond (a64_cond (op i)) ?off = [w]" "a64_decode w = Some ?j"
    using decode_bcond [of "op i" ?off] by (simp add: a64_b_cond_def)
  have ws: "a64_insn env 16384 lt True (length P) i = ?l @ [w]"
    using i w(1) by (auto simp: is_cond_def a64_insn_def a64_if_def Let_def)
  have d: "map a64_decode ?l = map Some (js @ [ACMP X9 X10])" "list_all a64_plain (js @ [ACMP X9 X10])"
    using js(1,2) decode_cmp [of X9 X10] by simp_all
  have run: "a64_run (Suc (length ?l)) base (P @ a64_insn env 16384 lt True (length P) i @ Q) s = Some (a64_exec ?j ?s)"
    "wm_at apc base (length P + length ?l) ?s"
    using a64f.run_jump [OF d w(2), of P Q base s] small s(1) unfolding ws by simp_all
  have regs: "am ?s = am s" "asp ?s = asp s" "ar ?s = (ar s)(X9 := opd_val \<rho> (src1 i), X10 := opd_val \<rho> (src2 i))"
    using js(3) [OF s(2)] by (simp_all add: a64_compare del: a64_exec.simps)
  then have r: "a64.rep \<rho> ?s" "a64f.inv s0 ?s"
    using s(2,3) a64.rep_cong [of ?s s \<rho>] by (auto intro: a64f.inv_cong)
  have step: "a64_exec ?j ?s = (if b then ?s\<lparr>apc := apc ?s + 4 * scast (signed_take_bit 18 ?off)\<rparr> else ?s\<lparr>apc := apc ?s + 4\<rparr>)"
    using js(3) [OF s(2)] a64_compare(1) [of "op i" X9 X10 "fold a64_exec js s"] by (simp add: b a64_next_def aget_def del: a64_exec.simps(2))
  have "wm_at apc base (get_label_offset lt t) (?s\<lparr>apc := apc ?s + 4 * scast (signed_take_bit 18 ?off)\<rparr>)" if b
    using t [OF that] small a64_delta_pass2 [of i t "length P + length ?l" lt 2] a64_jump_at [OF run(2), of "get_label_offset lt t" 18]
    unfolding ws by simp
  moreover have "wm_at apc base (length P + length (a64_insn env 16384 lt True (length P) i)) (?s\<lparr>apc := apc ?s + 4\<rparr>)"
    using run(2) unfolding ws by (simp add: wm_at_def algebra_simps)
  ultimately show ?thesis
    using run(1) r unfolding step by (intro exI [of _ "Suc (length ?l)"] exI) (auto simp del: wm_run.simps)
qed

section \<open>Entry and return\<close>

text \<open>The move of the stack pointer to the frame pointer adds one; the frame pointer is not used.\<close>

definition a64_prologue_code :: "a64insn list" where
  "a64_prologue_code = [STP_PRE 29 30 31 (- 16), AADDI 29 31 1, ASUBI 31 31 320, ASTR 0 31 256, ASTR 1 31 264, ASTR 2 31 272,
     ASTR 3 31 280, ASTR 4 31 288, ASTR 5 31 296, ASTR 6 31 304, ASTR 7 31 312]"

definition a64_return_code :: "a64insn list" where
  "a64_return_code = [AADDI 31 31 320, LDP_POST 29 30 31 16]"

lemma decode_prologue: "map a64_decode a64_prologue = map Some a64_prologue_code" "list_all a64_plain a64_prologue_code"
  by code_simp+

lemma decode_return: "map a64_decode (a64_add_sp_imm32 320 @ a64_pop_fp_lr) = map Some a64_return_code"
  "list_all a64_plain a64_return_code" "a64_decode (hd a64_ret) = Some (ARET 30)"
  by code_simp+

definition a64_entry_slots :: "a64state \<Rightarrow> (nat \<times> u64) list" where
  "a64_entry_slots s = [(40, ar s 29), (41, ar s 30), (32, ar s 0), (33, ar s 1), (34, ar s 2), (35, ar s 3), (36, ar s 4),
     (37, ar s 5), (38, ar s 6), (39, ar s 7)]"

lemma a64_prologue_effect:
  fixes s defines "s' \<equiv> fold a64_exec a64_prologue_code s"
  shows "am s' = slots (a64f.fsp s) (a64_entry_slots s) (am s)" "asp s' = a64f.fsp s" "ar s' = (ar s)(29 := asp s - 15)"
proof -
  show "am s' = slots (a64f.fsp s) (a64_entry_slots s) (am s)"
    unfolding s'_def a64_prologue_code_def a64_entry_slots_def slots_def a64f.fsp_def
    by (simp add: a64_next_def aset_def aget_def aset_sp_def aget_sp_def Let_def)
  show "asp s' = a64f.fsp s" "ar s' = (ar s)(29 := asp s - 15)"
    unfolding s'_def a64_prologue_code_def a64f.fsp_def
    by (simp_all add: a64_next_def aset_def aget_def aset_sp_def aget_sp_def Let_def)
qed

text \<open>Arguments in their registers, locals with what the stack holds.\<close>

definition a64_called :: "u64 \<Rightarrow> (Register \<Rightarrow> u64) \<Rightarrow> a64state \<Rightarrow> bool" where
  "a64_called base \<rho> s \<longleftrightarrow> apc s = base \<and> (\<forall>r. a64_reg r \<longrightarrow>
     \<rho> r = (if reg_type r = PARAM then ar s (ucast (reg_index r)) else read64 (am s) (asp s - 336 + of_nat (8 * a64_slot_no r))))"

lemma a64_entry_lookup:
  assumes "a64_reg r"
  shows "map_of (a64_entry_slots s) (a64_slot_no r) = (if reg_type r = PARAM then Some (ar s (ucast (reg_index r))) else None)"
proof (cases "reg_type r")
  case PARAM
  then have "unat (reg_index r) < 8"
    using assms by (simp add: a64_reg_def)
  moreover have "list_all (\<lambda>k. map_of (a64_entry_slots s) (32 + k) = Some (ar s (of_nat k))) [0..<8]"
    by (simp add: a64_entry_slots_def upt_rec)
  ultimately have "map_of (a64_entry_slots s) (32 + unat (reg_index r)) = Some (ar s (of_nat (unat (reg_index r))))"
    by (simp add: list_all_iff)
  then show ?thesis
    using PARAM by (simp add: a64_slot_no_def)
qed (use assms in \<open>auto simp: a64_reg_def a64_slot_no_def a64_entry_slots_def\<close>)

lemma a64_enters:
  assumes "a64_called base \<rho> s" "length (a64_prologue @ Q) < 16384"
  shows "\<exists>n s'. a64_run n base (a64_prologue @ Q) s = Some s' \<and> wm_at apc base (length a64_prologue) s' \<and> a64.rep \<rho> s' \<and> a64f.inv s s'"
proof -
  let ?s = "fold a64_exec a64_prologue_code s"
  have "a64_run (length a64_prologue) base (a64_prologue @ Q) s = Some ?s \<and> wm_at apc base (length a64_prologue) ?s"
    using a64f.run_straight [OF decode_prologue, of "[]" Q base s] assms by (simp add: a64_called_def wm_at_def)
  moreover have "a64.rep \<rho> ?s \<and> a64f.inv s ?s"
  proof (rule a64f.enters_frame [OF a64_prologue_effect(1,2)])
    show "\<rho> r = (case map_of (a64_entry_slots s) (a64_slot_no r) of Some v \<Rightarrow> v
        | None \<Rightarrow> read64 (am s) (a64f.fsp s + of_nat (8 * a64_slot_no r)))" if "a64_reg r" for r
      using a64_entry_lookup [OF that, of s] assms(1) that by (simp add: a64_called_def a64f.fsp_def)
  qed (simp_all add: a64_prologue_effect, simp_all add: a64_entry_slots_def a64_saved_def)
  ultimately show ?thesis
    by blast
qed

text \<open>What the caller sees after the return.\<close>

definition a64_returned :: "a64state \<Rightarrow> u64 option \<Rightarrow> a64state \<Rightarrow> bool" where
  "a64_returned s0 res s \<longleftrightarrow> apc s = ar s0 30 \<and> asp s = asp s0 \<and> (\<forall>v. res = Some v \<longrightarrow> ar s 0 = v)
     \<and> (\<forall>r. r \<notin> {0, 9, 10} \<longrightarrow> ar s r = ar s0 r) \<and> (\<forall>x. \<not> x - (asp s0 - 336) < 336 \<longrightarrow> am s x = am s0 x)"

lemma a64_return_effect:
  assumes "asp s = a64f.fsp s0" "read64 (am s) (a64f.fsp s0 + 320) = ar s0 29" "read64 (am s) (a64f.fsp s0 + 328) = ar s0 30"
    "\<And>r. r \<notin> {0, 9, 10, 29} \<Longrightarrow> ar s r = ar s0 r" "\<And>x. \<not> x - a64f.fsp s0 < 336 \<Longrightarrow> am s x = am s0 x"
    "\<And>v. res = Some v \<Longrightarrow> ar s 0 = v"
  shows "a64_returned s0 res (a64_exec (ARET 30) (fold a64_exec a64_return_code s))"
  using assms by (auto simp: a64_returned_def a64_return_code_def a64f.fsp_def a64_next_def aset_def aget_def aset_sp_def aget_sp_def Let_def)

lemma a64_returns:
  assumes i: "op i = RETURN_VAL \<and> a64.opd_ok (src1 i) \<and> res = Some (opd_val \<rho> (src1 i)) \<or> op i = RETURN_VOID \<and> res = None"
    and small: "length (P @ a64_insn env 16384 lt True (length P) i @ Q) < 16384"
    and s: "wm_at apc base (length P) s" "a64.rep \<rho> s" "a64f.inv s0 s"
  shows "\<exists>n s'. a64_run n base (P @ a64_insn env 16384 lt True (length P) i @ Q) s = Some s' \<and> a64_returned s0 res s'"
proof -
  define l where "l = (if op i = RETURN_VAL then a64_load_op (src1 i) X0 else [])"
  obtain ld where ld: "map a64_decode l = map Some ld" "list_all a64_plain ld" "am (fold a64_exec ld s) = am s"
    "asp (fold a64_exec ld s) = asp s" "\<And>v. res = Some v \<Longrightarrow> ar (fold a64_exec ld s) 0 = v"
    "\<And>q. q \<noteq> 0 \<Longrightarrow> ar (fold a64_exec ld s) q = ar s q"
  proof (cases "op i = RETURN_VAL")
    case True
    then obtain ld where "map a64_decode l = map Some ld" "list_all a64_plain ld" "a64.sets X0 (opd_val \<rho> (src1 i)) s (fold a64_exec ld s)"
      using a64_load_sets [of "src1 i" X0] i s(2) by (auto simp: l_def)
    then show ?thesis
      using that [of ld] True i by (auto simp: a64.sets_def)
  next
    case False
    then show ?thesis
      using that [of "[]"] i by (auto simp: l_def)
  qed
  have d: "map a64_decode (l @ a64_add_sp_imm32 320 @ a64_pop_fp_lr) = map Some (ld @ a64_return_code)"
    "list_all a64_plain (ld @ a64_return_code)"
    using ld(1,2) decode_return(1,2) by simp_all
  have ws: "a64_insn env 16384 lt True (length P) i = (l @ a64_add_sp_imm32 320 @ a64_pop_fp_lr) @ [hd a64_ret]"
    using i by (auto simp: a64_insn_def a64_epilogue_def l_def a64_ret_def)
  have "a64_returned s0 res (a64_exec (ARET 30) (fold a64_exec a64_return_code (fold a64_exec ld s)))"
    using s(3) ld(3-6) by (intro a64_return_effect) (auto simp: a64f.inv_def a64_saved_def)
  then show ?thesis
    using a64f.run_jump [OF d decode_return(3), of P Q base s] small s(1) unfolding ws
    by (auto simp del: a64_exec.simps wm_run.simps)
qed

section \<open>The backend as a machine\<close>

interpretation a64m: frame_machine "min 16384" "a64_insn env 16384" a64_prologue 16384 "\<lambda>n. a64_run n base" "wm_at apc base" a64.rep
  a64f.inv "a64_called base" a64_returned a64_supported for env base
proof unfold_locales
  show "length (a64_insn env 16384 lt p2 pos i) = length (a64_insn env 16384 lt' p2' pos' i)" for lt p2 pos i lt' p2' pos'
    by (rule length_a64_insn)
  show "\<exists>n s'. a64_run n base (P @ a64_insn env 16384 lt True (length P) i @ Q) s = Some s' \<and> a64_returned s0 res s'"
    if "a64_supported i" "op i = RETURN_VAL \<and> res = Some (opd_val \<rho> (src1 i)) \<or> op i = RETURN_VOID \<and> res = None"
      "length (P @ a64_insn env 16384 lt True (length P) i @ Q) < 16384" "wm_at apc base (length P) s" "a64.rep \<rho> s" "a64f.inv s0 s"
    for i res \<rho> P lt Q s s0
    using that a64_supported_operands(2) by (intro a64_returns) auto
qed (simp_all add: wm_run_add a64_enters a64_assigns a64_supported_assign a64_jumps a64_branches a64_supported_operands)

definition a64_function :: "Function \<Rightarrow> bool" where
  "a64_function fn \<longleftrightarrow> blocks fn \<noteq> [] \<and> length (blocks fn) \<le> 128 \<and> distinct_labels (blocks fn)
     \<and> list_all (\<lambda>b. list_all a64_supported (insns b)) (blocks fn)"

text \<open>
  Claim C5. A function compiled for AArch64 is correct. Let a function use moves, 64-bit
  arithmetic, branches, jumps and returns, with any constants, at most 32 locals and 8
  parameters, at most 128 blocks with different labels, and let its code fit into the
  encoder's buffer. If the reference semantics, started with the arguments in the parameter
  registers, returns, then the code, called with these arguments, reaches its return address
  after finitely many steps with the same result in the result register; the stack pointer, every
  register but three, and all memory outside a frame of 336 bytes below the stack pointer, are
  as before the call.
\<close>

theorem a64_compiled_function_correct:
  assumes "a64_function fn" "a64_compile_function env True True mm fn = Some bs" "length bs < 65536"
    and "a64_called base \<rho> s" "(ir_step fn)\<^sup>*\<^sup>* (ir_start fn \<rho>) (Returned res)"
  shows "\<exists>code n s'. bs = concat (map le32 code) \<and> a64_run n base code s = Some s' \<and> a64_returned s res s'"
proof -
  let ?code = "two_passes (min 16384) (min 16384) (a64_insn env 16384) a64_prologue fn"
  have bs: "bs = concat (map le32 (take 16384 ?code))"
    using assms(2) by (simp add: a64_compile_function_def a64_capacity_def Let_def split: if_splits)
  then have "length bs = 4 * length (take 16384 ?code)"
    by (simp add: length_concat comp_def sum_list_triv)
  then have "length ?code < 16384"
    using assms(3) by simp
  then show ?thesis
    using a64m.compiled_function [OF _ _ assms(4,5), of env] assms(1) bs by (auto simp: a64_function_def a64m.compilable_def)
qed

definition a64_env0 :: A64Env where
  "a64_env0 = \<lparr>a64_classes = None, a64_vtable = (\<lambda>_. 0), a64_string = (\<lambda>_ _ _. 0), a64_popcnt_fn = 0, a64_alloc_obj = 0\<rparr>"

definition a64_call2 :: a64state where
  "a64_call2 = \<lparr>ar = (\<lambda>_. 0)(0 := 2, 30 := 0x1000), asp = 0x8000, am = (\<lambda>_. 0), apc = 0, flag_n = False, flag_z = False, flag_v = False\<rparr>"

lemma sum_fn_a64: "a64_function sum_fn"
proof -
  have o: "a64.opd_ok (OpConst c)" "a64.opd_ok (OpReg v0)" "a64.opd_ok (OpReg p0)" "a64_reg v0" "a64_reg p0" for c
    by (simp_all add: a64.opd_ok_def a64_reg_def v0_def p0_def)
  show ?thesis
    unfolding a64_function_def
    by (intro conjI sum_fn_shape sum_fn_insns)
      (simp add: a64_supported_def a64f.straight_def o sum_insn_defs a64_alu_words_def a64_op_of_def)
qed

lemma sum_fn_a64_code: "\<exists>bs. a64_compile_function a64_env0 True True (\<lambda>_. True) sum_fn = Some bs \<and> length bs < 65536"
proof -
  let ?code = "two_passes (min 16384) (min 16384) (a64_insn a64_env0 16384) a64_prologue sum_fn"
  have "a64m.len a64_env0 = (\<lambda>i. length (a64_insn a64_env0 0 [] False 0 i))"
    unfolding a64m.len_def using length_a64_insn [of a64_env0 16384 "[]" False 0 _ 0 "[]" False 0] by (intro ext) (simp add: a64m.len_def)
  then have "length ?code = length a64_prologue + sum_list (map (\<lambda>b. sum_list (map (\<lambda>i. length (a64_insn a64_env0 0 [] False 0 i)) (insns b))) (blocks sum_fn))"
    by (simp add: a64m.length_two_passes a64m.total_def a64m.lens_def)
  moreover have "length a64_prologue + sum_list (map (\<lambda>b. sum_list (map (\<lambda>i. length (a64_insn a64_env0 0 [] False 0 i)) (insns b))) (blocks sum_fn)) = 30"
    by code_simp
  ultimately have "length ?code = 30"
    by (simp only:)
  moreover from this have "?code \<noteq> []"
    by auto
  ultimately show ?thesis
    by (simp add: a64_compile_function_def a64_capacity_def Let_def length_concat comp_def sum_list_triv)
qed

lemma a64_call2_ok: "a64_called 0 env2 a64_call2"
proof -
  have z: "read64 (\<lambda>_. 0) a = 0" for a
    by (simp add: read64_def numeral_eq_Suc)
  have "env2 r = ar a64_call2 (ucast (reg_index r))" if r: "a64_reg r" "reg_type r = PARAM" for r
  proof -
    have "list_all (\<lambda>k. ar a64_call2 (of_nat k) = (if k = 0 then 2 else 0)) [0..<8]"
      by (simp add: a64_call2_def upt_rec)
    then have "ar a64_call2 (of_nat (unat (reg_index r))) = (if unat (reg_index r) = 0 then 2 else 0)"
      unfolding list_all_iff by (rule bspec) (use r in \<open>simp add: a64_reg_def\<close>)
    then show ?thesis
      using r(2) by (cases r) (auto simp: env2_def p0_def unat_eq_zero)
  qed
  then show ?thesis
    by (auto simp: a64_called_def env2_def p0_def a64_call2_def z)
qed

theorem a64_compiled_function_correct_witness:
  "\<exists>bs code n s'. a64_compile_function a64_env0 True True (\<lambda>_. True) sum_fn = Some bs \<and> bs = concat (map le32 code)
     \<and> a64_run n 0 code a64_call2 = Some s' \<and> apc s' = 0x1000 \<and> ar s' 0 = 3 \<and> asp s' = 0x8000"
proof -
  obtain bs where bs: "a64_compile_function a64_env0 True True (\<lambda>_. True) sum_fn = Some bs" "length bs < 65536"
    using sum_fn_a64_code by blast
  have "(ir_step sum_fn)\<^sup>*\<^sup>* (ir_start sum_fn env2) (Returned (Some 3))"
    using sum_fn_runs ir_exec_steps by blast
  then show ?thesis
    using a64_compiled_function_correct [OF sum_fn_a64 bs a64_call2_ok] bs(1)
    by (fastforce simp: a64_returned_def a64_call2_def)
qed

end
