(* ===== verification/Armv7.thy ===== *)
theory Armv7
  imports Two_Pass Elf Bit_Fields Sum_Function
begin

text \<open>
  The ARMv7 backend (\<open>src/src/backend/armv7_backend.cpp\<close>): the instruction encodings, the
  compiler of functions, in the two passes of \<^theory_text>\<open>Two_Pass\<close>, and the object file
  path. The encoder's buffer is a list of words; an emitter is the list of words it appends. A
  decoder, written from the architecture manual, says what the words of the emitters mean, and a small machine what
  comparisons and conditions do.
  Addresses that the code embeds are parameters, held in the record \<open>Armv7Env\<close>.
\<close>

unbundle bit_operations_syntax

section \<open>Encodings\<close>

type_synonym Armv7Reg = u8
type_synonym arm_words = "u32 list"

abbreviation R0 :: Armv7Reg where "R0 \<equiv> 0"
abbreviation R1 :: Armv7Reg where "R1 \<equiv> 1"
abbreviation R2 :: Armv7Reg where "R2 \<equiv> 2"
abbreviation ARM_R8 :: Armv7Reg where "ARM_R8 \<equiv> 8"
abbreviation ARM_R9 :: Armv7Reg where "ARM_R9 \<equiv> 9"
abbreviation ARM_IP :: Armv7Reg where "ARM_IP \<equiv> 12"
abbreviation ARM_SP :: Armv7Reg where "ARM_SP \<equiv> 13"

text \<open>Three registers in the positions of the data-processing format.\<close>

definition arm_ndm :: "u32 \<Rightarrow> Armv7Reg \<Rightarrow> Armv7Reg \<Rightarrow> Armv7Reg \<Rightarrow> u32" where
  "arm_ndm base n d m = base OR push_bit 16 (ucast n) OR push_bit 12 (ucast d) OR ucast m"

definition arm_add :: "Armv7Reg \<Rightarrow> Armv7Reg \<Rightarrow> Armv7Reg \<Rightarrow> arm_words" where
  "arm_add d n m = [arm_ndm 0xE0800000 n d m]"

definition arm_sub :: "Armv7Reg \<Rightarrow> Armv7Reg \<Rightarrow> Armv7Reg \<Rightarrow> arm_words" where
  "arm_sub d n m = [arm_ndm 0xE0400000 n d m]"

definition arm_mul :: "Armv7Reg \<Rightarrow> Armv7Reg \<Rightarrow> Armv7Reg \<Rightarrow> arm_words" where
  "arm_mul d n m = [0xE0000090 OR push_bit 16 (ucast d) OR push_bit 8 (ucast m) OR ucast n]"

definition arm_sdiv :: "Armv7Reg \<Rightarrow> Armv7Reg \<Rightarrow> Armv7Reg \<Rightarrow> arm_words" where
  "arm_sdiv d n m = [0xE710F010 OR push_bit 16 (ucast d) OR push_bit 8 (ucast m) OR ucast n]"

definition arm_and :: "Armv7Reg \<Rightarrow> Armv7Reg \<Rightarrow> Armv7Reg \<Rightarrow> arm_words" where
  "arm_and d n m = [arm_ndm 0xE0000000 n d m]"

definition arm_orr :: "Armv7Reg \<Rightarrow> Armv7Reg \<Rightarrow> Armv7Reg \<Rightarrow> arm_words" where
  "arm_orr d n m = [arm_ndm 0xE1800000 n d m]"

definition arm_eor :: "Armv7Reg \<Rightarrow> Armv7Reg \<Rightarrow> Armv7Reg \<Rightarrow> arm_words" where
  "arm_eor d n m = [arm_ndm 0xE0200000 n d m]"

definition arm_lsl :: "Armv7Reg \<Rightarrow> Armv7Reg \<Rightarrow> Armv7Reg \<Rightarrow> arm_words" where
  "arm_lsl d n m = [0xE1A00010 OR push_bit 16 (ucast n) OR push_bit 12 (ucast d) OR push_bit 8 (ucast m)]"

definition arm_lsr :: "Armv7Reg \<Rightarrow> Armv7Reg \<Rightarrow> Armv7Reg \<Rightarrow> arm_words" where
  "arm_lsr d n m = [0xE1A00030 OR push_bit 16 (ucast n) OR push_bit 12 (ucast d) OR push_bit 8 (ucast m)]"

text \<open>\<open>movw\<close> and \<open>movt\<close>, whose 16-bit immediate is in two pieces.\<close>

definition arm_movw :: "u32 \<Rightarrow> u16 \<Rightarrow> Armv7Reg \<Rightarrow> u32" where
  "arm_movw base h d = base OR push_bit 4 (ucast (h AND 0xF000)) OR push_bit 12 (ucast d) OR ucast (h AND 0xFFF)"

definition arm_mov_imm32 :: "Armv7Reg \<Rightarrow> u32 \<Rightarrow> arm_words" where
  "arm_mov_imm32 d val =
     (let low16 = ucast (val AND 0xFFFF) :: u16; high16 = ucast (drop_bit 16 val AND 0xFFFF) in
      [arm_movw 0xE3000000 low16 d] @ (if high16 \<noteq> 0 then [arm_movw 0xE3400000 high16 d] else []))"

definition arm_mov :: "Armv7Reg \<Rightarrow> Armv7Reg \<Rightarrow> arm_words" where
  "arm_mov d m = [0xE1A00000 OR push_bit 12 (ucast d) OR ucast m]"

definition arm_mem :: "u32 \<Rightarrow> u32 \<Rightarrow> Armv7Reg \<Rightarrow> Armv7Reg \<Rightarrow> arm_words" where
  "arm_mem base off t n =
     (if off \<le> 4095 then [base OR push_bit 16 (ucast n) OR push_bit 12 (ucast t) OR (off AND 0xFFF)]
      else arm_mov_imm32 ARM_IP off @ arm_add ARM_IP n ARM_IP
        @ [base OR push_bit 16 (ucast ARM_IP) OR push_bit 12 (ucast t)])"

definition arm_str :: "Armv7Reg \<Rightarrow> Armv7Reg \<Rightarrow> u32 \<Rightarrow> arm_words" where
  "arm_str t n off = arm_mem 0xE5800000 off t n"

definition arm_ldr :: "Armv7Reg \<Rightarrow> Armv7Reg \<Rightarrow> u32 \<Rightarrow> arm_words" where
  "arm_ldr t n off = arm_mem 0xE5900000 off t n"

definition arm_push_fp_lr :: arm_words where "arm_push_fp_lr = [0xE92D4800]"
definition arm_pop_fp_pc :: arm_words where "arm_pop_fp_pc = [0xE8BD8800]"
definition arm_mov_fp_sp :: arm_words where "arm_mov_fp_sp = [0xE1A0B00D]"

definition arm_sub_sp :: "u32 \<Rightarrow> arm_words" where
  "arm_sub_sp imm = (if imm \<le> 255 then [0xE24DD000 OR (imm AND 0xFF)] else arm_mov_imm32 ARM_IP imm @ arm_sub ARM_SP ARM_SP ARM_IP)"

definition arm_add_sp :: "u32 \<Rightarrow> arm_words" where
  "arm_add_sp imm = (if imm \<le> 255 then [0xE28DD000 OR (imm AND 0xFF)] else arm_mov_imm32 ARM_IP imm @ arm_add ARM_SP ARM_SP ARM_IP)"

definition arm_blr :: "Armv7Reg \<Rightarrow> arm_words" where
  "arm_blr n = [0xE12FFF30 OR ucast n]"

definition arm_cmp :: "Armv7Reg \<Rightarrow> Armv7Reg \<Rightarrow> arm_words" where
  "arm_cmp n m = [0xE1500000 OR push_bit 16 (ucast n) OR ucast m]"

text \<open>The program counter reads two words ahead.\<close>

definition arm_b_cond :: "u8 \<Rightarrow> i32 \<Rightarrow> arm_words" where
  "arm_b_cond cond imm24_words = [(push_bit 28 (ucast (cond AND 0xF)) OR 0x0A000000) OR ((imm24_words - 2) AND 0xFFFFFF)]"

definition arm_b_uncond :: "i32 \<Rightarrow> arm_words" where
  "arm_b_uncond imm24_words = [0xEA000000 OR ((imm24_words - 2) AND 0xFFFFFF)]"

definition arm_bx_lr :: arm_words where "arm_bx_lr = [0xE12FFF1E]"
definition arm_nop :: arm_words where "arm_nop = [0xE1A00000]"

section \<open>Lowering\<close>

record Armv7Env =
  arm_classes :: "ClassDecl list option"
  arm_vtable :: "ClassDecl \<Rightarrow> u32"
  arm_string :: "string option \<Rightarrow> u64 \<Rightarrow> u64 \<Rightarrow> u32"
  arm_popcnt_fn :: u32
  arm_alloc_obj :: u32

definition arm_slot :: "Register \<Rightarrow> u32" where
  "arm_slot r = (if reg_type r = PARAM then 128 + (reg_index r AND 3) * 4 else (reg_index r AND 31) * 4)"

definition arm_load_op :: "Operand \<Rightarrow> Armv7Reg \<Rightarrow> arm_words" where
  "arm_load_op opd scratch_reg =
     (case opd of OpConst c \<Rightarrow> arm_mov_imm32 scratch_reg (ucast c)
      | OpReg r \<Rightarrow> arm_ldr scratch_reg ARM_SP (arm_slot r)
      | _ \<Rightarrow> [])"

definition arm_store_reg :: "Register \<Rightarrow> Armv7Reg \<Rightarrow> arm_words" where
  "arm_store_reg r src = arm_str src ARM_SP (arm_slot r)"

definition arm_binop :: "(Armv7Reg \<Rightarrow> Armv7Reg \<Rightarrow> Armv7Reg \<Rightarrow> arm_words) \<Rightarrow> Instruction \<Rightarrow> arm_words" where
  "arm_binop f insn = arm_load_op (src1 insn) ARM_R8 @ arm_load_op (src2 insn) ARM_R9 @ f ARM_R8 ARM_R8 ARM_R9
     @ arm_store_reg (op_reg (dest insn)) ARM_R8"

definition arm_neg :: "Instruction \<Rightarrow> arm_words" where
  "arm_neg insn = arm_load_op (src1 insn) ARM_R8 @ arm_mov_imm32 ARM_R9 0 @ arm_sub ARM_R8 ARM_R9 ARM_R8
     @ arm_store_reg (op_reg (dest insn)) ARM_R8"

definition arm_popcount :: "Armv7Env \<Rightarrow> Instruction \<Rightarrow> arm_words" where
  "arm_popcount env insn = arm_load_op (src1 insn) R0 @ arm_mov_imm32 ARM_IP (arm_popcnt_fn env) @ arm_blr ARM_IP
     @ arm_store_reg (op_reg (dest insn)) R0"

definition arm_load_mem :: "Instruction \<Rightarrow> arm_words" where
  "arm_load_mem insn = arm_load_op (OpReg (op_mem_base (src1 insn))) ARM_R8 @ arm_ldr ARM_R9 ARM_R8 (op_mem_offset (src1 insn))
     @ arm_store_reg (op_reg (dest insn)) ARM_R9"

definition arm_store_mem :: "Instruction \<Rightarrow> arm_words" where
  "arm_store_mem insn = arm_load_op (OpReg (op_mem_base (dest insn))) ARM_R8 @ arm_load_op (src1 insn) ARM_R9
     @ arm_str ARM_R9 ARM_R8 (op_mem_offset (dest insn))"

definition arm_call_virt :: "Instruction \<Rightarrow> arm_words" where
  "arm_call_virt insn = arm_load_op (src1 insn) R0 @ arm_ldr ARM_R8 R0 0 @ arm_ldr ARM_R9 ARM_R8 (vtable_slot insn * 4)
     @ arm_blr ARM_R9 @ (if op_kind (dest insn) = REGISTER then arm_store_reg (op_reg (dest insn)) R0 else [])"

definition arm_find_class :: "Armv7Env \<Rightarrow> Instruction \<Rightarrow> ClassDecl option" where
  "arm_find_class env insn =
     (case (arm_classes env, target_label insn) of
        (Some cs, Some n) \<Rightarrow> find (\<lambda>c. streq_impl (cname c) n) cs
      | _ \<Rightarrow> None)"

definition arm_new_instance :: "Armv7Env \<Rightarrow> Instruction \<Rightarrow> arm_words" where
  "arm_new_instance env insn =
     (let c = arm_find_class env insn;
          inst_size = (case c of Some d \<Rightarrow> if csize d > 0 then csize d + 16 else 32 | None \<Rightarrow> 32);
          vtable = (case c of Some d \<Rightarrow> arm_vtable env d | None \<Rightarrow> 0) in
      arm_mov_imm32 R0 inst_size @ arm_mov_imm32 R1 vtable @ arm_mov_imm32 R2 1
        @ arm_mov_imm32 ARM_IP (arm_alloc_obj env) @ arm_blr ARM_IP @ arm_store_reg (op_reg (dest insn)) R0)"

text \<open>Distance to a label in words, known in the second pass; \<open>pos\<close> is the position of the branch.\<close>

definition arm_delta :: "label_table \<Rightarrow> bool \<Rightarrow> i32 \<Rightarrow> nat \<Rightarrow> Instruction \<Rightarrow> i32" where
  "arm_delta lt is_pass2 dflt pos insn =
     (case target_label insn of
        Some l \<Rightarrow> if is_pass2 then of_nat (get_label_offset lt l) - of_nat pos else dflt
      | None \<Rightarrow> dflt)"

definition arm_cond :: "Opcode \<Rightarrow> u8" where
  "arm_cond opc = (if opc = IF_LT then 0xB else if opc = IF_EQ then 0x0 else if opc = IF_NE then 0x1 else 0xA)"

definition arm_if :: "label_table \<Rightarrow> bool \<Rightarrow> nat \<Rightarrow> Instruction \<Rightarrow> arm_words" where
  "arm_if lt is_pass2 pos insn =
     (let l = arm_load_op (src1 insn) ARM_R8 @ arm_load_op (src2 insn) ARM_R9 @ arm_cmp ARM_R8 ARM_R9 in
      l @ arm_b_cond (arm_cond (op insn)) (arm_delta lt is_pass2 2 (pos + length l) insn))"

definition arm_epilogue :: arm_words where
  "arm_epilogue = arm_add_sp 256 @ arm_pop_fp_pc"

definition arm_insn :: "Armv7Env \<Rightarrow> label_table \<Rightarrow> bool \<Rightarrow> nat \<Rightarrow> Instruction \<Rightarrow> arm_words" where
  "arm_insn env lt is_pass2 pos insn =
     (case op insn of
        MOVE_CONST \<Rightarrow> arm_mov_imm32 ARM_R8 (ucast (op_const (src1 insn))) @ arm_store_reg (op_reg (dest insn)) ARM_R8
      | MOVE \<Rightarrow> arm_load_op (src1 insn) ARM_R8 @ arm_store_reg (op_reg (dest insn)) ARM_R8
      | ADD_I64 \<Rightarrow> arm_binop arm_add insn | ADD_I32 \<Rightarrow> arm_binop arm_add insn
      | SUB_I64 \<Rightarrow> arm_binop arm_sub insn | SUB_I32 \<Rightarrow> arm_binop arm_sub insn
      | NEG_I64 \<Rightarrow> arm_neg insn | NEG_I32 \<Rightarrow> arm_neg insn
      | MUL_I64 \<Rightarrow> arm_binop arm_mul insn | MUL_I32 \<Rightarrow> arm_binop arm_mul insn
      | DIV_I64 \<Rightarrow> arm_binop arm_sdiv insn | DIV_I32 \<Rightarrow> arm_binop arm_sdiv insn
      | AND_I64 \<Rightarrow> arm_binop arm_and insn | AND_I32 \<Rightarrow> arm_binop arm_and insn
      | OR_I64 \<Rightarrow> arm_binop arm_orr insn | OR_I32 \<Rightarrow> arm_binop arm_orr insn
      | XOR_I64 \<Rightarrow> arm_binop arm_eor insn | XOR_I32 \<Rightarrow> arm_binop arm_eor insn
      | SHL_I64 \<Rightarrow> arm_binop arm_lsl insn | SHL_I32 \<Rightarrow> arm_binop arm_lsl insn
      | SHR_I64 \<Rightarrow> arm_binop arm_lsr insn | SHR_I32 \<Rightarrow> arm_binop arm_lsr insn
      | USHR_I64 \<Rightarrow> arm_binop arm_lsr insn | USHR_I32 \<Rightarrow> arm_binop arm_lsr insn
      | POPCOUNT_I64 \<Rightarrow> arm_popcount env insn
      | LOAD_MEM \<Rightarrow> arm_load_mem insn
      | STORE_MEM \<Rightarrow> arm_store_mem insn
      | CALL_VIRT \<Rightarrow> arm_call_virt insn | CALL_VIRT_FAST \<Rightarrow> arm_call_virt insn
      | NEW_INSTANCE \<Rightarrow> arm_new_instance env insn
      | CONST_STRING \<Rightarrow> arm_mov_imm32 ARM_R8 (arm_string env (string_val insn) (string_len insn) (string_hash insn))
                         @ arm_store_reg (op_reg (dest insn)) ARM_R8
      | IF_GE \<Rightarrow> arm_if lt is_pass2 pos insn | IF_LT \<Rightarrow> arm_if lt is_pass2 pos insn
      | IF_EQ \<Rightarrow> arm_if lt is_pass2 pos insn | IF_NE \<Rightarrow> arm_if lt is_pass2 pos insn
      | GOTO \<Rightarrow> arm_b_uncond (arm_delta lt is_pass2 (- 5) pos insn)
      | STR_LEN \<Rightarrow> arm_mov_imm32 ARM_R8 (ucast (string_len insn)) @ arm_store_reg (op_reg (dest insn)) ARM_R8
      | RETURN_VAL \<Rightarrow> arm_load_op (src1 insn) R0 @ arm_epilogue
      | RETURN_VOID \<Rightarrow> arm_epilogue
      | _ \<Rightarrow> [])"

definition arm_prologue :: arm_words where
  "arm_prologue = arm_push_fp_lr @ arm_mov_fp_sp @ arm_sub_sp 256
     @ concat (map (\<lambda>i. arm_str (R0 + of_nat i) ARM_SP (128 + of_nat i * 4)) [0..<4])"

text \<open>\<open>mm\<close> is whether the kernel maps that many bytes; the result of \<open>make_rx\<close> is not looked at.\<close>

definition arm_compile_function :: "Armv7Env \<Rightarrow> (nat \<Rightarrow> bool) \<Rightarrow> Function \<Rightarrow> bytes option" where
  "arm_compile_function env mm fn =
     (let code = two_passes id id (arm_insn env) arm_prologue fn; sz = 4 * length code in
      if sz = 0 then None else if \<not> mm sz then None else Some (concat (map le32 code)))"

section \<open>Object files\<close>

definition arm_elf_insn :: "Instruction \<Rightarrow> arm_words" where
  "arm_elf_insn insn =
     (case op insn of
        ADD_I64 \<Rightarrow> arm_add R0 R0 R1 | ADD_I32 \<Rightarrow> arm_add R0 R0 R1
      | SUB_I64 \<Rightarrow> arm_sub R0 R0 R1 | SUB_I32 \<Rightarrow> arm_sub R0 R0 R1
      | MUL_I32 \<Rightarrow> arm_mul R0 R0 R1
      | RETURN_VAL \<Rightarrow> arm_pop_fp_pc | RETURN_VOID \<Rightarrow> arm_pop_fp_pc
      | _ \<Rightarrow> [])"

definition arm_elf_function :: "Function \<Rightarrow> arm_words" where
  "arm_elf_function fn = arm_push_fp_lr @ arm_mov_fp_sp @ concat (map (\<lambda>bb. concat (map arm_elf_insn (insns bb))) (blocks fn))"

fun arm_elf_functions :: "(nat \<Rightarrow> bool) \<Rightarrow> Function list \<Rightarrow> SimpleByteBuffer \<Rightarrow> ElfEmitter \<Rightarrow> SimpleByteBuffer \<times> ElfEmitter" where
  "arm_elf_functions grants [] text_buf elf = (text_buf, elf)"
| "arm_elf_functions grants (fn # fns) text_buf elf =
     (let func_offset = buf_size text_buf; code = concat (map le32 (arm_elf_function fn)) in
      arm_elf_functions grants fns (buf_write grants code text_buf)
        (snd (add_symbol grants (Some (fn_name fn)) 1 2 1 (of_nat func_offset) (of_nat (length code)) elf)))"

definition arm_compile_to_elf :: "(nat \<Rightarrow> bool) \<Rightarrow> bool \<Rightarrow> Program \<Rightarrow> string option \<Rightarrow> bytes option" where
  "arm_compile_to_elf grants opens prog out_filename =
     (if out_filename = None then None
      else
        (let (text_buf, elf) = arm_elf_functions grants (prog_functions prog) (new_buffer grants)
               (set_machine_arch 40 (new_emitter grants)) in
         fst (write_elf_object grants opens out_filename (sb_data text_buf) elf)))"

section \<open>The architecture\<close>

text \<open>The instructions of the emitters, from the architecture manual; a branch counts words from two words ahead.\<close>

datatype armop = ARM_AND | ARM_EOR | ARM_SUB | ARM_ADD | ARM_ORR | ARM_MUL | ARM_SDIV

datatype arminsn =
    ARM_OP armop u8 u8 u8
  | ARM_LSL u8 u8 u8
  | ARM_LSR u8 u8 u8
  | ARM_MOV u8 u8
  | ARM_CMP u8 u8
  | ARM_MOVW u8 u16
  | ARM_MOVT u8 u16
  | ARM_LDR u8 u8 u32
  | ARM_STR u8 u8 u32
  | ARM_B u32 i32

definition arm_imm16 :: "u32 \<Rightarrow> u16" where
  "arm_imm16 w = ucast (push_bit 12 (fld 16 4 w) OR fld 0 12 w)"

definition arm_decode :: "u32 \<Rightarrow> arminsn option" where
  "arm_decode w =
     (let k = fld 20 8 w; n = ucast (fld 16 4 w); d = ucast (fld 12 4 w); s = ucast (fld 8 4 w); m = ucast (fld 0 4 w) in
      if fld 24 4 w = 0xA then Some (ARM_B (fld 28 4 w) (signed_take_bit 23 (fld 0 24 w)))
      else if fld 28 4 w \<noteq> 0xE then None
      else if k = 0x30 then Some (ARM_MOVW d (arm_imm16 w))
      else if k = 0x34 then Some (ARM_MOVT d (arm_imm16 w))
      else if k = 0x58 then Some (ARM_STR d n (fld 0 12 w))
      else if k = 0x59 then Some (ARM_LDR d n (fld 0 12 w))
      else if k = 0x71 \<and> fld 4 4 w = 1 \<and> fld 12 4 w = 0xF then Some (ARM_OP ARM_SDIV n m s)
      else if k = 0 \<and> fld 4 4 w = 9 then Some (ARM_OP ARM_MUL n m s)
      else if k = 0x1A \<and> fld 4 4 w = 1 then Some (ARM_LSL d m s)
      else if k = 0x1A \<and> fld 4 4 w = 3 then Some (ARM_LSR d m s)
      else if fld 4 8 w \<noteq> 0 then None
      else if k = 0x1A then Some (ARM_MOV d m)
      else if k = 0x15 then Some (ARM_CMP n m)
      else map_option (\<lambda>f. ARM_OP f d n m)
        (map_of [(0x00, ARM_AND), (0x02, ARM_EOR), (0x04, ARM_SUB), (0x08, ARM_ADD), (0x18, ARM_ORR)] k))"

lemmas arm_decoding = arm_decode_def Let_def arm_ndm_def fld_simps fld_numeral and_masks unsigned_take_bit_eq byte_back

definition reg4 :: "u8 \<Rightarrow> bool" where
  "reg4 r \<longleftrightarrow> take_bit 4 r = r"

lemma arm_fields:
  fixes d n m :: u8
  defines "D \<equiv> take_bit 4 d" and "N \<equiv> take_bit 4 n" and "M \<equiv> take_bit 4 m"
  shows "map arm_decode (arm_add D N M) = [Some (ARM_OP ARM_ADD D N M)]" "map arm_decode (arm_sub D N M) = [Some (ARM_OP ARM_SUB D N M)]"
    "map arm_decode (arm_and D N M) = [Some (ARM_OP ARM_AND D N M)]" "map arm_decode (arm_orr D N M) = [Some (ARM_OP ARM_ORR D N M)]"
    "map arm_decode (arm_eor D N M) = [Some (ARM_OP ARM_EOR D N M)]" "map arm_decode (arm_mul D N M) = [Some (ARM_OP ARM_MUL D N M)]"
    "map arm_decode (arm_sdiv D N M) = [Some (ARM_OP ARM_SDIV D N M)]" "map arm_decode (arm_cmp N M) = [Some (ARM_CMP N M)]"
    "map arm_decode (arm_mov D M) = [Some (ARM_MOV D M)]"
    "map arm_decode (arm_lsl D N M) = [Some (ARM_LSL D R0 M)]" "map arm_decode (arm_lsr D N M) = [Some (ARM_LSR D R0 M)]"
  unfolding D_def N_def M_def
  by (simp_all add: arm_add_def arm_sub_def arm_and_def arm_orr_def arm_eor_def arm_mul_def arm_sdiv_def
      arm_cmp_def arm_mov_def arm_lsl_def arm_lsr_def arm_decoding)

lemma arm_mem_fields:
  fixes t n :: u8
  assumes "off \<le> 4095"
  shows "map arm_decode (arm_ldr (take_bit 4 t) (take_bit 4 n) off) = [Some (ARM_LDR (take_bit 4 t) (take_bit 4 n) off)]"
    "map arm_decode (arm_str (take_bit 4 t) (take_bit 4 n) off) = [Some (ARM_STR (take_bit 4 t) (take_bit 4 n) off)]"
proof -
  have "unat off < 2 ^ 12"
    using assms by (simp add: word_le_nat_alt)
  then have "take_bit 12 off = off"
    by (simp add: word_unat_eq_iff unsigned_take_bit_eq take_bit_nat_eq_self)
  then show "map arm_decode (arm_ldr (take_bit 4 t) (take_bit 4 n) off) = [Some (ARM_LDR (take_bit 4 t) (take_bit 4 n) off)]"
    "map arm_decode (arm_str (take_bit 4 t) (take_bit 4 n) off) = [Some (ARM_STR (take_bit 4 t) (take_bit 4 n) off)]"
    using assms fld_at0 [of 12 12 off] fld_below0 [of 12 _ _ off] by (simp_all add: arm_ldr_def arm_str_def arm_mem_def arm_decoding)
qed

lemma arm_mask24: "(x :: u32) AND 0xFFFFFF = take_bit 24 x"
  by (simp add: take_bit_eq_mask mask_eq_exp_minus_1)

lemma arm_signed24: "signed_take_bit 23 (take_bit 24 (x :: u32)) = signed_take_bit 23 x"
  by (rule bit_eqI) (auto simp: bit_simps min_def)

lemma arm_b_decode:
  "map arm_decode (arm_b_cond c i) = [Some (ARM_B (ucast (take_bit 4 c)) (signed_take_bit 23 (i - 2)))]"
  "map arm_decode (arm_b_uncond i) = [Some (ARM_B 0xE (signed_take_bit 23 (i - 2)))]"
  by (simp_all add: arm_b_cond_def arm_b_uncond_def arm_decoding arm_mask24 arm_signed24)

section \<open>Shifts\<close>

text \<open>
  The shifts of the ARMv7 backend do not shift their operand: the word that \<open>lsl_reg_reg\<close>
  and \<open>lsr_reg_reg\<close> emit has the register of the value where the architecture has no field, and
  zero where it has that register, so it shifts register 0 whatever the operand is.
\<close>

theorem arm_shifts_ignore_operand:
  assumes "reg4 d" "reg4 n" "reg4 m"
  shows "map arm_decode (arm_lsl d n m) = [Some (ARM_LSL d R0 m)] \<and> map arm_decode (arm_lsr d n m) = [Some (ARM_LSR d R0 m)]"
  using assms arm_fields(10,11) [of d n m] by (simp add: reg4_def)

theorem arm_shifts_ignore_operand_witness:
  "map arm_decode (arm_lsl 8 8 9) = [Some (ARM_LSL 8 0 9)] \<and> map arm_decode (arm_lsr 8 8 9) = [Some (ARM_LSR 8 0 9)]"
  using arm_shifts_ignore_operand [of 8 8 9] by (simp add: reg4_def)

section \<open>The machine\<close>

text \<open>
  What the instructions do, from the architecture manual, as far as comparisons need them: registers and memory are words of 32 bits,
  a comparison sets the flags for negative, zero and overflow, and a condition code reads them.
\<close>

record arm_state =
  arm_r :: "u8 \<Rightarrow> u32"
  arm_m :: "u32 \<Rightarrow> u32"
  arm_n :: bool
  arm_z :: bool
  arm_v :: bool

fun arm_exec :: "arminsn \<Rightarrow> arm_state \<Rightarrow> arm_state option" where
  "arm_exec (ARM_MOV d m) s = Some (s\<lparr>arm_r := (arm_r s)(d := arm_r s m)\<rparr>)"
| "arm_exec (ARM_MOVW d h) s = Some (s\<lparr>arm_r := (arm_r s)(d := ucast h)\<rparr>)"
| "arm_exec (ARM_MOVT d h) s = Some (s\<lparr>arm_r := (arm_r s)(d := take_bit 16 (arm_r s d) OR push_bit 16 (ucast h))\<rparr>)"
| "arm_exec (ARM_LDR t n off) s = Some (s\<lparr>arm_r := (arm_r s)(t := arm_m s (arm_r s n + off))\<rparr>)"
| "arm_exec (ARM_CMP n m) s = (let a = arm_r s n; b = arm_r s m in
     Some (s\<lparr>arm_n := sint (a - b) < 0, arm_z := a = b, arm_v := sint (a - b) \<noteq> sint a - sint b\<rparr>))"
| "arm_exec _ s = None"

primrec arm_run :: "u32 list \<Rightarrow> arm_state \<Rightarrow> arm_state option" where
  "arm_run [] s = Some s"
| "arm_run (w # ws) s = Option.bind (arm_decode w) (\<lambda>i. Option.bind (arm_exec i s) (arm_run ws))"

definition arm_passes :: "u32 \<Rightarrow> arm_state \<Rightarrow> bool" where
  "arm_passes c s = (if c = 0x0 then arm_z s else if c = 0x1 then \<not> arm_z s
     else if c = 0xA then arm_n s = arm_v s else if c = 0xB then arm_n s \<noteq> arm_v s else c = 0xE)"

text \<open>Where the frame keeps a register: the four parameters after thirty-two words for the locals.\<close>

definition arm_value :: "arm_state \<Rightarrow> Operand \<Rightarrow> u32" where
  "arm_value s opd =
     (case opd of OpConst c \<Rightarrow> ucast c
      | OpReg r \<Rightarrow> arm_m s (arm_r s 13 + (if reg_type r = PARAM then 128 + 4 * (reg_index r mod 4) else 4 * (reg_index r mod 32)))
      | _ \<Rightarrow> 0)"

definition arm_comparable :: "Operand \<Rightarrow> bool" where
  "arm_comparable opd \<longleftrightarrow> (case opd of OpConst _ \<Rightarrow> True | OpReg _ \<Rightarrow> True | _ \<Rightarrow> False)"

lemma arm_run_append: "arm_run (xs @ ys) s = Option.bind (arm_run xs s) (arm_run ys)"
  by (induction xs arbitrary: s) (auto split: bind_split)

lemma arm_imm_pieces:
  fixes h :: u16
  shows "push_bit 4 (ucast (h AND 0xF000)) = push_bit 16 (take_bit 4 (drop_bit 12 (ucast h)) :: u32)"
    "ucast (h AND 0xFFF) = (take_bit 12 (ucast h) :: u32)"
    "(ucast (push_bit 12 (take_bit 4 (drop_bit 12 (ucast h :: u32))) OR take_bit 12 (ucast h)) :: u16) = h"
proof -
  have "(0xF000 :: u16) = push_bit 12 (mask 4)"
    by (simp add: mask_eq_exp_minus_1)
  then show "push_bit 4 (ucast (h AND 0xF000)) = push_bit 16 (take_bit 4 (drop_bit 12 (ucast h)) :: u32)"
    by (simp only:) (auto simp: bit_eq_iff bit_simps)
  show "ucast (h AND 0xFFF) = (take_bit 12 (ucast h) :: u32)"
    by (simp add: and_masks unsigned_take_bit_eq)
  show "(ucast (push_bit 12 (take_bit 4 (drop_bit 12 (ucast h :: u32))) OR take_bit 12 (ucast h)) :: u16) = h"
    by (rule bit_eqI) (auto simp: bit_simps)
qed

lemma arm_movw_decode:
  "arm_decode (arm_movw 0xE3000000 h (take_bit 4 d)) = Some (ARM_MOVW (take_bit 4 d) h)"
  "arm_decode (arm_movw 0xE3400000 h (take_bit 4 d)) = Some (ARM_MOVT (take_bit 4 d) h)"
  by (simp_all add: arm_movw_def arm_imm_pieces arm_imm16_def arm_decoding)

lemma arm_halves:
  fixes v :: u32
  shows "take_bit 16 (ucast (ucast (v AND 0xFFFF) :: u16)) OR push_bit 16 (ucast (ucast (drop_bit 16 v AND 0xFFFF) :: u16)) = v"
    "(ucast (drop_bit 16 v AND 0xFFFF) :: u16) = 0 \<Longrightarrow> ucast (ucast (v AND 0xFFFF) :: u16) = v"
proof -
  have m: "x AND 0xFFFF = take_bit 16 x" for x :: u32
    by (simp add: take_bit_eq_mask mask_eq_exp_minus_1)
  show e: "take_bit 16 (ucast (ucast (v AND 0xFFFF) :: u16)) OR push_bit 16 (ucast (ucast (drop_bit 16 v AND 0xFFFF) :: u16)) = v"
    unfolding m by (rule bit_eqI) (auto simp: bit_simps)
  assume z: "(ucast (drop_bit 16 v AND 0xFFFF) :: u16) = 0"
  have "take_bit 16 (ucast (ucast (v AND 0xFFFF) :: u16)) = (ucast (ucast (v AND 0xFFFF) :: u16) :: u32)"
    by (rule bit_eqI) (auto simp: bit_simps)
  then show "ucast (ucast (v AND 0xFFFF) :: u16) = v"
    using e z by simp
qed

lemma arm_run_mov_imm32:
  "arm_run (arm_mov_imm32 (take_bit 4 d) v) s = Some (s\<lparr>arm_r := (arm_r s)(take_bit 4 d := v)\<rparr>)"
  using arm_halves [of v] by (simp add: arm_mov_imm32_def Let_def arm_movw_decode)

lemma arm_slot_value:
  "arm_slot r = (if reg_type r = PARAM then 128 + 4 * (reg_index r mod 4) else 4 * (reg_index r mod 32))"
  "arm_slot r \<le> 4095"
proof -
  have m: "x AND 3 = x mod 4" "x AND 31 = x mod 32" for x :: u32
    using take_bit_eq_mask [of 2 x] take_bit_eq_mask [of 5 x] by (simp_all add: take_bit_eq_mod mask_eq_exp_minus_1)
  show e: "arm_slot r = (if reg_type r = PARAM then 128 + 4 * (reg_index r mod 4) else 4 * (reg_index r mod 32))"
    by (simp add: arm_slot_def m)
  show "arm_slot r \<le> 4095"
    unfolding e using mod_less_divisor [of 4 "unat (reg_index r)"] mod_less_divisor [of 32 "unat (reg_index r)"]
    by (simp add: word_le_nat_alt unat_word_ariths) linarith
qed

lemma arm_run_ldr:
  "off \<le> 4095 \<Longrightarrow> arm_run (arm_ldr (take_bit 4 t) (take_bit 4 n) off) s =
     Some (s\<lparr>arm_r := (arm_r s)(take_bit 4 t := arm_m s (arm_r s (take_bit 4 n) + off))\<rparr>)"
  using arm_mem_fields(1) [of off t n] by (auto simp: map_eq_Cons_conv)

lemma arm_run_load_op:
  assumes "arm_comparable opd"
  shows "arm_run (arm_load_op opd (take_bit 4 d)) s = Some (s\<lparr>arm_r := (arm_r s)(take_bit 4 d := arm_value s opd)\<rparr>)"
proof (cases opd)
  case (OpReg r)
  then show ?thesis
    using arm_run_ldr [OF arm_slot_value(2), of d 13 r s] by (simp add: arm_load_op_def arm_value_def arm_slot_value(1))
qed (use assms in \<open>simp_all add: arm_load_op_def arm_value_def arm_comparable_def arm_run_mov_imm32\<close>)

text \<open>The flags of a comparison of 32-bit words.\<close>

lemma arm_diff_flags: "(sint (a - b :: u32) < 0) \<noteq> (sint (a - b) \<noteq> sint a - sint b) \<longleftrightarrow> sint a < sint b"
proof -
  let ?d = "sint a - sint b"
  define q where "q = (?d + 2 ^ 31) div 2 ^ 32"
  have "sint (a - b) = (?d + 2 ^ 31) mod 2 ^ 32 - 2 ^ 31"
    by (simp add: sint_word_ariths signed_take_bit_eq_take_bit_shift take_bit_eq_mod)
  then have s: "sint (a - b) = ?d - q * 4294967296"
    using minus_div_mult_eq_mod [of "?d + 2 ^ 31" "2 ^ 32"] unfolding q_def by simp
  have r: "- 2147483648 \<le> sint a" "sint a < 2147483648" "- 2147483648 \<le> sint b" "sint b < 2147483648"
    "- 2147483648 \<le> sint (a - b)" "sint (a - b) < 2147483648"
    using sint_ge [of a] sint_lt [of a] sint_ge [of b] sint_lt [of b] sint_ge [of "a - b"] sint_lt [of "a - b"] by simp_all
  then have "q \<in> {- 1, 0, 1}"
    using s by auto
  then show ?thesis
    using s r by auto
qed

text \<open>
  The words before a conditional branch compare the operands, so that its condition passes exactly when the condition of the
  instruction holds of the operands as signed numbers of 32 bits.
\<close>

lemma arm_compare:
  assumes "is_cond (op i)" "arm_comparable (src1 i)" "arm_comparable (src2 i)"
  shows "\<exists>s'. arm_run (arm_load_op (src1 i) ARM_R8 @ arm_load_op (src2 i) ARM_R9 @ arm_cmp ARM_R8 ARM_R9) s = Some s'
    \<and> arm_m s' = arm_m s \<and> arm_r s' 13 = arm_r s 13
    \<and> arm_passes (ucast (arm_cond (op i))) s' = cond_holds (op i) (scast (arm_value s (src1 i))) (scast (arm_value s (src2 i)))"
proof -
  let ?a = "arm_value s (src1 i)" and ?b = "arm_value s (src2 i)"
  let ?s = "s\<lparr>arm_r := (arm_r s)(8 := ?a, 9 := ?b)\<rparr>"
  have "arm_run (arm_load_op (src1 i) ARM_R8) s = Some (s\<lparr>arm_r := (arm_r s)(8 := ?a)\<rparr>)"
    using arm_run_load_op [OF assms(2), of 8 s] by simp
  moreover have "arm_run (arm_load_op (src2 i) ARM_R9) (s\<lparr>arm_r := (arm_r s)(8 := ?a)\<rparr>) = Some ?s"
    using arm_run_load_op [OF assms(3), of 9 "s\<lparr>arm_r := (arm_r s)(8 := ?a)\<rparr>"] by (simp add: arm_value_def split: Operand.split)
  moreover have "map arm_decode (arm_cmp ARM_R8 ARM_R9) = [Some (ARM_CMP 8 9)]"
    using arm_fields(8) [of 8 9] by simp
  then have "arm_run (arm_cmp ARM_R8 ARM_R9) ?s = arm_exec (ARM_CMP 8 9) ?s"
    by (auto simp: map_eq_Cons_conv simp del: arm_exec.simps split: bind_split)
  ultimately have r: "arm_run (arm_load_op (src1 i) ARM_R8 @ arm_load_op (src2 i) ARM_R9 @ arm_cmp ARM_R8 ARM_R9) s
      = Some (?s\<lparr>arm_n := sint (?a - ?b) < 0, arm_z := ?a = ?b, arm_v := sint (?a - ?b) \<noteq> sint ?a - sint ?b\<rparr>)"
    by (simp add: arm_run_append Let_def)
  have e: "(scast ?a :: u64) = scast ?b \<longleftrightarrow> ?a = ?b" "sint (scast ?a :: u64) = sint ?a" "sint (scast ?b :: u64) = sint ?b"
    by (metis of_int_sint_id sint_scast, simp_all only: sint_scast)
  show ?thesis
    unfolding r using assms(1) arm_diff_flags [of ?a ?b]
    by (auto simp: is_cond_def arm_passes_def arm_cond_def cond_holds_def e)
qed

section \<open>Branches\<close>

lemma length_arm_insn: "length (arm_insn env lt p2 pos i) = length (arm_insn env lt' p2' pos' i)"
  by (cases "op i") (simp_all add: arm_insn_def arm_if_def Let_def arm_b_cond_def arm_b_uncond_def)

interpretation armt: two_pass id "arm_insn env" arm_prologue 4194304 for env
  by unfold_locales (simp_all add: length_arm_insn)

text \<open>The code of a branch ends in a branch instruction to the word recorded for the label.\<close>

lemma arm_branch_insn:
  assumes "op i = GOTO \<or> is_cond (op i)" "target_label i = Some t"
  obtains ws w c where "arm_insn env lt True pos i = ws @ [w]"
    "arm_decode w = Some (ARM_B c (signed_take_bit 23 (of_nat (get_label_offset lt t) - of_nat (pos + length ws) - 2)))"
    "op i = GOTO \<longrightarrow> ws = [] \<and> c = 0xE"
    "is_cond (op i) \<and> arm_comparable (src1 i) \<and> arm_comparable (src2 i) \<longrightarrow>
       (\<forall>s. \<exists>s'. arm_run ws s = Some s' \<and> arm_m s' = arm_m s \<and> arm_r s' 13 = arm_r s 13
         \<and> arm_passes c s' = cond_holds (op i) (scast (arm_value s (src1 i))) (scast (arm_value s (src2 i))))"
proof (cases "op i = GOTO")
  case True
  let ?d = "of_nat (get_label_offset lt t) - of_nat pos :: u32"
  have "arm_insn env lt True pos i = [] @ [hd (arm_b_uncond ?d)]"
    using True assms(2) by (simp add: arm_insn_def arm_delta_def arm_b_uncond_def)
  moreover have "arm_decode (hd (arm_b_uncond ?d)) = Some (ARM_B 0xE (signed_take_bit 23 (?d - 2)))"
    using arm_b_decode(2) [of ?d] by (simp add: arm_b_uncond_def)
  ultimately show ?thesis
    using that [of "[]" "hd (arm_b_uncond ?d)" "0xE"] True by (simp add: is_cond_def)
next
  case False
  let ?l = "arm_load_op (src1 i) ARM_R8 @ arm_load_op (src2 i) ARM_R9 @ arm_cmp ARM_R8 ARM_R9"
  let ?d = "of_nat (get_label_offset lt t) - of_nat (pos + length ?l) :: u32"
  have c: "take_bit 4 (arm_cond (op i)) = arm_cond (op i)"
    by (simp add: arm_cond_def)
  have "arm_insn env lt True pos i = ?l @ [hd (arm_b_cond (arm_cond (op i)) ?d)]"
    using False assms by (auto simp: is_cond_def arm_insn_def arm_if_def Let_def arm_delta_def arm_b_cond_def)
  moreover have "arm_decode (hd (arm_b_cond (arm_cond (op i)) ?d)) = Some (ARM_B (ucast (arm_cond (op i))) (signed_take_bit 23 (?d - 2)))"
    using arm_b_decode(1) [of "arm_cond (op i)" ?d] c by (simp add: arm_b_cond_def)
  ultimately show ?thesis
    using that [of ?l "hd (arm_b_cond (arm_cond (op i)) ?d)" "ucast (arm_cond (op i))"] False arm_compare [of i] by blast
qed

lemma arm_distance:
  assumes "a < 4194304" "b < 4194304"
  shows "int b + 2 + sint (signed_take_bit 23 (of_nat a - of_nat b - 2 :: u32)) = int a"
proof -
  have "sint (signed_take_bit 23 (of_nat a - of_nat b - 2 :: u32)) = int a - int b - 2"
    using sint_field [of 23 "int a - int b - 2"] assms by simp
  then show ?thesis
    by simp
qed

text \<open>
  Claim C6. Branches of the ARMv7 backend reach their blocks under their condition: in a compiled function with at most
  128 blocks with different labels and less than 16 MB of code, a jump or a conditional branch to
  the label of a block ends in a branch instruction whose
  distance, counted from two words ahead as the architecture does, leads to the first
  word of the code of that block. A jump is this instruction alone and is taken always. A conditional branch whose operands are
  constants or registers first runs words that change no memory, after which the branch instruction
  is taken exactly when the condition of the source holds of the operands, read from the frame, as signed 32-bit numbers.
\<close>

theorem arm_branches_reach_blocks:
  assumes "distinct_labels (blocks fn)" "length (blocks fn) \<le> 128"
    and "arm_compile_function env mm fn = Some bs" "length bs < 16777216"
    and "k < length (blocks fn)" "insns (blocks fn ! k) = pre @ i # post"
    and "op i = GOTO \<or> is_cond (op i)" "target_label i = Some t" "block_index (blocks fn) t = Some j"
  shows "\<exists>code lt P0 Q0 P1 Q1 ws w c off. bs = concat (map le32 code)
    \<and> code = P0 @ two_insns (arm_insn env lt True) (length P0) (insns (blocks fn ! k)) @ Q0
    \<and> code = P1 @ two_insns (arm_insn env lt True) (length P1) (insns (blocks fn ! j)) @ Q1
    \<and> arm_insn env lt True (length P0 + length (two_insns (arm_insn env lt True) (length P0) pre)) i = ws @ [w]
    \<and> arm_decode w = Some (ARM_B c off)
    \<and> int (length P0 + length (two_insns (arm_insn env lt True) (length P0) pre) + length ws) + 2 + sint off = int (length P1)
    \<and> (op i = GOTO \<longrightarrow> ws = [] \<and> c = 0xE)
    \<and> (is_cond (op i) \<and> arm_comparable (src1 i) \<and> arm_comparable (src2 i) \<longrightarrow>
        (\<forall>s. \<exists>s'. arm_run ws s = Some s' \<and> arm_m s' = arm_m s \<and> arm_r s' 13 = arm_r s 13
          \<and> arm_passes c s' = cond_holds (op i) (scast (arm_value s (src1 i))) (scast (arm_value s (src2 i)))))"
proof -
  let ?code = "two_passes id id (arm_insn env) arm_prologue fn" and ?lt = "armt.table env fn"
  have bs: "bs = concat (map le32 ?code)"
    using assms(3) by (simp add: arm_compile_function_def Let_def split: if_splits)
  then have "length bs = 4 * length ?code"
    by (simp add: length_concat comp_def sum_list_triv)
  then have small: "length ?code < 4194304"
    using assms(4) by simp
  then have c: "?code = armt.code env fn"
    using armt.two_passes_code [OF assms(1,2), of env] by (simp add: armt.length_two_passes)
  obtain P0 Q0 where p0: "armt.code env fn = P0 @ two_insns (arm_insn env ?lt True) (length P0) (insns (blocks fn ! k)) @ Q0"
    using armt.position_code [OF assms(5), of "[]"] by (metis append_Nil)
  obtain P1 Q1 where p1: "armt.code env fn = P1 @ two_insns (arm_insn env ?lt True) (length P1) (insns (blocks fn ! j)) @ Q1"
    and t: "length P1 = get_label_offset ?lt t"
    using armt.position_code [OF block_index_less [OF assms(9)], of "[]"] armt.table_position [OF assms(9), of env] by (metis append_Nil)
  let ?pos = "length P0 + length (two_insns (arm_insn env ?lt True) (length P0) pre)"
  obtain ws w c where w: "arm_insn env ?lt True ?pos i = ws @ [w]"
    "arm_decode w = Some (ARM_B c (signed_take_bit 23 (of_nat (length P1) - of_nat (?pos + length ws) - 2)))"
    and sem: "op i = GOTO \<longrightarrow> ws = [] \<and> c = 0xE"
    "is_cond (op i) \<and> arm_comparable (src1 i) \<and> arm_comparable (src2 i) \<longrightarrow>
       (\<forall>s. \<exists>s'. arm_run ws s = Some s' \<and> arm_m s' = arm_m s \<and> arm_r s' 13 = arm_r s 13
         \<and> arm_passes c s' = cond_holds (op i) (scast (arm_value s (src1 i))) (scast (arm_value s (src2 i))))"
    unfolding t by (rule arm_branch_insn [OF assms(7,8), of env ?lt ?pos])
  have "?pos + length ws < 4194304" "length P1 < 4194304"
    using small p0 p1 w(1) unfolding c assms(6) two_insns_append by (auto simp: Let_def dest!: arg_cong [where f = length])
  then show ?thesis
    using bs p0 p1 w sem arm_distance [of "length P1" "?pos + length ws"] unfolding c by blast
qed

definition arm_env0 :: Armv7Env where
  "arm_env0 = \<lparr>arm_classes = None, arm_vtable = (\<lambda>_. 0), arm_string = (\<lambda>_ _ _. 0), arm_popcnt_fn = 0, arm_alloc_obj = 0\<rparr>"

lemma sum_fn_arm: "case arm_compile_function arm_env0 (\<lambda>_. True) sum_fn of Some bs \<Rightarrow> length bs < 200 | None \<Rightarrow> False"
  by code_simp

text \<open>The test of the sum example compares its parameter with zero and leaves the loop when it is less.\<close>

theorem arm_branches_reach_blocks_witness:
  "\<exists>bs code lt P0 Q0 P1 Q1 ws w c off. arm_compile_function arm_env0 (\<lambda>_. True) sum_fn = Some bs \<and> bs = concat (map le32 code)
    \<and> code = P0 @ two_insns (arm_insn arm_env0 lt True) (length P0) [sum_test, sum_add, sum_dec, sum_back] @ Q0
    \<and> code = P1 @ two_insns (arm_insn arm_env0 lt True) (length P1) [sum_ret] @ Q1
    \<and> arm_insn arm_env0 lt True (length P0) sum_test = ws @ [w] \<and> arm_decode w = Some (ARM_B c off)
    \<and> int (length P0 + length ws) + 2 + sint off = int (length P1)
    \<and> (\<forall>s. \<exists>s'. arm_run ws s = Some s' \<and> arm_m s' = arm_m s \<and> arm_r s' 13 = arm_r s 13
        \<and> arm_passes c s' = (sint (arm_value s (src1 sum_test)) < sint (arm_value s (src2 sum_test))))"
proof -
  obtain bs where bs: "arm_compile_function arm_env0 (\<lambda>_. True) sum_fn = Some bs" "length bs < 16777216"
    using sum_fn_arm by (auto split: option.splits)
  have b: "1 < length (blocks sum_fn)" "insns (blocks sum_fn ! 1) = [] @ sum_test # [sum_add, sum_dec, sum_back]"
    "is_cond (op sum_test)" "target_label sum_test = Some ''.done''" "block_index (blocks sum_fn) ''.done'' = Some 2"
    by (simp_all add: sum_fn_def sum_test_def plain_insn_def is_cond_def streq_impl_def skip_dot_def name_end_def)
  have d: "insns (blocks sum_fn ! 2) = [sum_ret]"
    "is_cond (op sum_test) \<and> arm_comparable (src1 sum_test) \<and> arm_comparable (src2 sum_test)"
    "cond_holds (op sum_test) (scast x) (scast y) = (sint x < sint y)" for x y :: u32
    by (simp_all add: sum_fn_def sum_test_def plain_insn_def is_cond_def arm_comparable_def cond_holds_def sint_scast)
  obtain code lt P0 Q0 P1 Q1 ws w c off where r: "bs = concat (map le32 code)"
    "code = P0 @ two_insns (arm_insn arm_env0 lt True) (length P0) [sum_test, sum_add, sum_dec, sum_back] @ Q0"
    "code = P1 @ two_insns (arm_insn arm_env0 lt True) (length P1) [sum_ret] @ Q1"
    "arm_insn arm_env0 lt True (length P0) sum_test = ws @ [w]" "arm_decode w = Some (ARM_B c off)"
    "int (length P0 + length ws) + 2 + sint off = int (length P1)"
    "\<forall>s. \<exists>s'. arm_run ws s = Some s' \<and> arm_m s' = arm_m s \<and> arm_r s' 13 = arm_r s 13
        \<and> arm_passes c s' = (sint (arm_value s (src1 sum_test)) < sint (arm_value s (src2 sum_test)))"
    using arm_branches_reach_blocks [OF sum_fn_shape(3,2) bs b(1,2) disjI2 [OF b(3)] b(4,5)] d(2)
    unfolding b(2) d(1,3) append.simps two_insns.simps(1) list.size(3) add_0_right by metis
  show ?thesis
    by (intro exI conjI) (rule bs(1) r)+
qed

end
