(* ===== verification/Elf_Lowerer.thy ===== *)
theory Elf_Lowerer
  imports Lower_Correct Elf
begin

text \<open>
  The second lowering of \<open>src/src/backend/ana_lowerer.cpp\<close>, for object files
  (\<open>compile_to_elf\<close> on x86-64). Most cases of its switch are the code of
  \<open>compile_function\<close> again, so the definitions of \<^theory_text>\<open>Lowerer\<close> serve for both; the
  others leave displacements open and record relocations. The emitter of the object file is
  threaded through the encoder's state.
\<close>

type_synonym elf_emit = "ElfEmitter \<Rightarrow> ElfEmitter emit"

definition enc_code_size :: "nat emit" where
  "enc_code_size = State (\<lambda>e. (length (buf e), e))"

definition elf_plain :: "unit emit \<Rightarrow> elf_emit" where
  "elf_plain m elf = do { m; State_Monad.return elf }"

section \<open>Instructions\<close>

text \<open>Addition and subtraction do not save a right operand that shares the destination.\<close>

definition elf_alu :: "(X86Reg \<Rightarrow> X86Reg \<Rightarrow> unit emit) \<Rightarrow> AnaRegAlloc \<Rightarrow> Instruction \<Rightarrow> unit emit" where
  "elf_alu rr ra insn = do {
     s1 \<leftarrow> load_operand ra (src1 insn) RCX;
     s2 \<leftarrow> load_operand ra (src2 insn) R11;
     let d = dst_reg ra insn RCX;
     mov_reg_reg d s1;
     rr d s2;
     store_operand ra (op_reg (dest insn)) d
   }"

definition elf_rodata :: "Instruction \<Rightarrow> bytes" where
  "elf_rodata insn = (case string_val insn of None \<Rightarrow> [] | Some s \<Rightarrow> take (Suc (unat (string_len insn))) (cstring s))"

text \<open>An address relative to the instruction, to be filled in by the linker.\<close>

definition elf_lea :: "(nat \<Rightarrow> bool) \<Rightarrow> AnaRegAlloc \<Rightarrow> nat \<Rightarrow> u32 \<Rightarrow> u64 \<Rightarrow> Instruction \<Rightarrow> elf_emit" where
  "elf_lea grants ra func_offset symi addend insn elf = do {
     let d = dst_reg ra insn RCX;
     sz \<leftarrow> enc_code_size;
     let patch_off = (of_nat (sz + 3) :: u32);
     lea_reg_rip_disp32 d 0;
     store_operand ra (op_reg (dest insn)) d;
     State_Monad.return (add_relocation grants (of_nat func_offset + ucast patch_off) symi 2 addend elf)
   }"

definition elf_const_string :: "(nat \<Rightarrow> bool) \<Rightarrow> AnaRegAlloc \<Rightarrow> nat \<Rightarrow> Instruction \<Rightarrow> elf_emit" where
  "elf_const_string grants ra func_offset insn elf =
     (let (ro_off, elf1) = append_rodata grants (elf_rodata insn) elf in
      elf_lea grants ra func_offset 2 (ro_off - 4) insn elf1)"

definition elf_load_fn_ptr :: "(nat \<Rightarrow> bool) \<Rightarrow> AnaRegAlloc \<Rightarrow> nat \<Rightarrow> Instruction \<Rightarrow> elf_emit" where
  "elf_load_fn_ptr grants ra func_offset insn elf =
     (case target_label insn of
        None \<Rightarrow> State_Monad.return elf
      | Some t \<Rightarrow>
          (let (symi, elf1) = add_symbol grants (Some t) 1 2 0 0 0 elf in
           elf_lea grants ra func_offset symi (- 4) insn elf1))"

text \<open>A call whose displacement the linker fills in.\<close>

definition elf_call :: "(nat \<Rightarrow> bool) \<Rightarrow> nat \<Rightarrow> u32 \<Rightarrow> elf_emit" where
  "elf_call grants func_offset symi elf = do {
     sz \<leftarrow> enc_code_size;
     let patch_off = (of_nat (sz + 1) :: u32);
     call_rel32_disp 0;
     State_Monad.return (add_relocation grants (of_nat func_offset + ucast patch_off) symi 4 (- 4) elf)
   }"

definition elf_call_extern :: "(nat \<Rightarrow> bool) \<Rightarrow> AnaRegAlloc \<Rightarrow> nat \<Rightarrow> Instruction \<Rightarrow> elf_emit" where
  "elf_call_extern grants ra func_offset insn elf =
     (case target_label insn of
        None \<Rightarrow> State_Monad.return elf
      | Some t \<Rightarrow>
          (let (symi, elf1) = add_symbol grants (Some t) 1 0 0 0 0 elf in
           do { elf2 \<leftarrow> elf_call grants func_offset symi elf1;
                (if op_kind (dest insn) = REGISTER then store_operand ra (op_reg (dest insn)) RAX else skip_emit);
                State_Monad.return elf2 }))"

definition elf_new_instance :: "(nat \<Rightarrow> bool) \<Rightarrow> LowerEnv \<Rightarrow> nat \<Rightarrow> Instruction \<Rightarrow> elf_emit" where
  "elf_new_instance grants env func_offset insn elf =
     (let inst_size = instance_size (find_class env insn);
          (symi, elf1) = add_symbol grants (Some ''tlab_allocate'') 1 0 0 0 0 elf in
      do { mov_reg_imm32 RDI inst_size;
           mov_reg_imm64 RSI 0;
           mov_reg_imm32 RDX 1;
           elf2 \<leftarrow> elf_call grants func_offset symi elf1;
           store_operand (le_ra env) (op_reg (dest insn)) RAX;
           State_Monad.return elf2 })"

definition elf_insn :: "(nat \<Rightarrow> bool) \<Rightarrow> LowerEnv \<Rightarrow> nat \<Rightarrow> string option \<Rightarrow> Instruction \<Rightarrow> elf_emit" where
  "elf_insn grants env func_offset nxt insn =
     (let ra = le_ra env in
      case op insn of
        ADD_I64 \<Rightarrow> elf_plain (elf_alu add_reg_reg ra insn) | SUB_I64 \<Rightarrow> elf_plain (elf_alu sub_reg_reg ra insn)
      | MOVE_CONST \<Rightarrow> elf_plain (lower_move_const ra insn)
      | CONST_STRING \<Rightarrow> elf_const_string grants ra func_offset insn
      | STR_LEN \<Rightarrow> elf_plain (lower_str_len ra insn)
      | MOVE \<Rightarrow> elf_plain (lower_move ra insn)
      | LOAD_MEM \<Rightarrow> elf_plain (lower_load_mem ra insn) | STORE_MEM \<Rightarrow> elf_plain (lower_store_mem ra insn)
      | MUL_I32 \<Rightarrow> elf_plain (lower_mul ra insn) | MUL_I64 \<Rightarrow> elf_plain (lower_mul ra insn)
      | DIV_I32 \<Rightarrow> elf_plain (lower_div ra insn) | DIV_I64 \<Rightarrow> elf_plain (lower_div ra insn)
      | AND_I32 \<Rightarrow> elf_plain (lower_and ra insn) | AND_I64 \<Rightarrow> elf_plain (lower_and ra insn)
      | OR_I32 \<Rightarrow> elf_plain (lower_or ra insn) | OR_I64 \<Rightarrow> elf_plain (lower_or ra insn)
      | XOR_I32 \<Rightarrow> elf_plain (lower_xor ra insn) | XOR_I64 \<Rightarrow> elf_plain (lower_xor ra insn)
      | SHL_I32 \<Rightarrow> elf_plain (lower_shl ra insn) | SHL_I64 \<Rightarrow> elf_plain (lower_shl ra insn)
      | SHR_I32 \<Rightarrow> elf_plain (lower_shr ra insn) | SHR_I64 \<Rightarrow> elf_plain (lower_shr ra insn)
      | USHR_I32 \<Rightarrow> elf_plain (lower_ushr ra insn) | USHR_I64 \<Rightarrow> elf_plain (lower_ushr ra insn)
      | GOTO \<Rightarrow> elf_plain (lower_goto env nxt insn)
      | IF_EQ \<Rightarrow> elf_plain (lower_if_cmp env insn) | IF_NE \<Rightarrow> elf_plain (lower_if_cmp env insn)
      | IF_LT \<Rightarrow> elf_plain (lower_if_cmp env insn) | IF_GE \<Rightarrow> elf_plain (lower_if_cmp env insn)
      | IF_Z \<Rightarrow> elf_plain (lower_if_zero env insn) | IF_NZ \<Rightarrow> elf_plain (lower_if_zero env insn)
      | CALL_EXTERN \<Rightarrow> elf_call_extern grants ra func_offset insn
      | LOAD_FN_PTR \<Rightarrow> elf_load_fn_ptr grants ra func_offset insn
      | NEW_INSTANCE \<Rightarrow> elf_new_instance grants env func_offset insn
      | BIND_VTABLE \<Rightarrow> elf_plain (lower_bind_vtable ra insn)
      | CALL_VIRT \<Rightarrow> elf_plain (lower_call_virt ra insn) | CALL_VIRT_FAST \<Rightarrow> elf_plain (lower_call_virt ra insn)
      | ATOMIC_ADD_I64 \<Rightarrow> elf_plain (lower_atomic_add ra insn)
      | FENCE \<Rightarrow> elf_plain mfence
      | RETURN_VAL \<Rightarrow> elf_plain (lower_return_val ra insn) | RETURN_VOID \<Rightarrow> elf_plain (lower_epilogue ra)
      | _ \<Rightarrow> State_Monad.return)"

section \<open>Functions and programs\<close>

fun elf_insns :: "(nat \<Rightarrow> bool) \<Rightarrow> LowerEnv \<Rightarrow> nat \<Rightarrow> string option \<Rightarrow> Instruction list \<Rightarrow> elf_emit" where
  "elf_insns grants env fo nxt [] elf = State_Monad.return elf"
| "elf_insns grants env fo nxt (i # is) elf = do { elf1 \<leftarrow> elf_insn grants env fo nxt i elf; elf_insns grants env fo nxt is elf1 }"

text \<open>Only the first 64 blocks have labels of their own; later ones are looked up by name.\<close>

fun elf_blocks :: "(nat \<Rightarrow> bool) \<Rightarrow> LowerEnv \<Rightarrow> nat \<Rightarrow> BasicBlock list \<Rightarrow> u32 list \<Rightarrow> elf_emit" where
  "elf_blocks grants env fo [] ls elf = State_Monad.return elf"
| "elf_blocks grants env fo (bb # bbs) ls elf = do {
     l \<leftarrow> (case ls of l # _ \<Rightarrow> State_Monad.return l | [] \<Rightarrow> get_block_label env (Some (label bb)));
     bind_label l;
     elf1 \<leftarrow> elf_insns grants env fo (case bbs of [] \<Rightarrow> None | b # _ \<Rightarrow> Some (label b)) (insns bb) elf;
     elf_blocks grants env fo bbs (tl ls) elf1
   }"

text \<open>The frame is set up as in the other lowering, but the callee-saved registers are not stored.\<close>

definition elf_prologue :: "AnaRegAlloc \<Rightarrow> unit emit" where
  "elf_prologue ra =
     (if requires_frame ra then do { push_reg RBP; mov_reg_reg RBP RSP; sub_reg_imm32 RSP (of_nat (stack_frame_size ra)) }
      else skip_emit)"

definition elf_function :: "(nat \<Rightarrow> bool) \<Rightarrow> LowerEnv \<Rightarrow> nat \<Rightarrow> Function \<Rightarrow> elf_emit" where
  "elf_function grants env0 func_offset fn elf = do {
     let ra = allocate_registers fn;
     ls \<leftarrow> make_labels (min 64 (length (blocks fn)));
     let env = env0\<lparr>le_ra := ra, le_labels := zip (map label (blocks fn)) ls\<rparr>;
     elf_prologue ra;
     lower_save_params ra;
     elf_blocks grants env func_offset (blocks fn) ls elf
   }"

text \<open>
  \<open>mm k\<close> answers the memory requests of the encoder of the \<open>k\<close>th function. \<open>None\<close> is failure:
  a branch whose label is not bound, or a file that cannot be written.
\<close>

fun elf_functions :: "(nat \<Rightarrow> bool) \<Rightarrow> LowerEnv \<Rightarrow> (nat \<Rightarrow> nat \<Rightarrow> nat \<Rightarrow> bool) \<Rightarrow> nat \<Rightarrow> Function list
    \<Rightarrow> SimpleByteBuffer \<Rightarrow> ElfEmitter \<Rightarrow> (SimpleByteBuffer \<times> ElfEmitter) option" where
  "elf_functions grants env mm k [] text_buf elf = Some (text_buf, elf)"
| "elf_functions grants env mm k (fn # fns) text_buf elf =
     (let func_offset = buf_size text_buf;
          ((elf1, ok), e) = run_state (do { elf1 \<leftarrow> elf_function grants env func_offset fn elf; ok \<leftarrow> resolve_labels;
                                            State_Monad.return (elf1, ok) }) (new_encoder (mm k)) in
      if \<not> ok then None
      else elf_functions grants env mm (Suc k) fns (buf_write grants (buf e) text_buf)
        (snd (add_symbol grants (Some (fn_name fn)) 1 2 1 (of_nat func_offset) (of_nat (length (buf e))) elf1)))"

definition compile_to_elf :: "(nat \<Rightarrow> bool) \<Rightarrow> bool \<Rightarrow> LowerEnv \<Rightarrow> (nat \<Rightarrow> nat \<Rightarrow> nat \<Rightarrow> bool) \<Rightarrow> Program \<Rightarrow> string option \<Rightarrow> bytes option" where
  "compile_to_elf grants opens env mm prog out_filename =
     (if out_filename = None then None
      else
        (case elf_functions grants (env\<lparr>le_classes := Some (prog_classes prog)\<rparr>) mm 0 (prog_functions prog) (new_buffer grants) (new_emitter grants) of
           None \<Rightarrow> None
         | Some (text_buf, elf) \<Rightarrow> fst (write_elf_object grants opens out_filename (sb_data text_buf) elf)))"

section \<open>Straight-line code of object files\<close>

text \<open>The shorter code of addition and subtraction is right as long as the destination is not the right operand.\<close>

lemma lowers_elf_alu:
  assumes ok: "ra_ok ra" and o1: "opd_ok ra (src1 insn)" and o2: "opd_ok ra (src2 insn)"
    and d: "dest insn = OpReg d" "ir_reg ra d" and a: "a \<noteq> A_CMP" and ne_dest: "src2 insn \<noteq> dest insn"
    and rr: "\<And>x y. x \<noteq> NO_REG \<Longrightarrow> y \<noteq> NO_REG \<Longrightarrow> asm (rr x y) () [ALU_rm_r a (RReg (rn x)) (rn y)]"
  shows "lowers ra (elf_alu rr ra insn) d (\<lambda>\<rho>. alu_result a (opd_val \<rho> (src1 insn)) (opd_val \<rho> (src2 insn)))"
proof -
  let ?d = "loc_reg (reg_slot ra d) RCX" and ?r1 = "ld_reg ra (src1 insn) RCX" and ?r2 = "ld_reg ra (src2 insn) R11"
  let ?is = "ld_code ra (src1 insn) RCX @ ld_code ra (src2 insn) R11 @ mv_code ?d ?r1 @ [ALU_rm_r a (RReg (rn ?d)) (rn ?r2)] @ st_code ra d ?d"
  have nr: "?r1 \<noteq> NO_REG" "?r2 \<noteq> NO_REG" "?d \<noteq> NO_REG"
    using ld_reg_ok [OF o1] ld_reg_ok [OF o2] loc_reg_ok by auto
  have ne: "?d \<noteq> ?r2"
  proof (cases "src2 insn")
    case (OpReg q)
    then have "reg_slot ra q \<noteq> reg_slot ra d"
      using o2 d ne_dest reg_slot_inj [of ra q d] by (auto simp: opd_ok_def ir_reg_def)
    then show ?thesis
      using OpReg slot_phys [of ra d] slot_phys [of ra q] by (auto simp: ld_reg_def loc_reg_def split: sum.splits)
  qed (use loc_reg_cases [of ra d RCX] in \<open>auto simp: ld_reg_def\<close>)
  have "asm (elf_alu rr ra insn) () ?is"
    unfolding elf_alu_def dst_reg_eq [OF ok d] Let_def d(1) op_reg.simps
    by (intro asm_bind [OF asm_load [OF ok o1]] asm_bind [OF asm_load [OF ok o2]] asm_bind [OF asm_mv [OF nr(3,1)]]
        asm_bind [OF rr [OF nr(3,2)]] asm_store [OF ok d(2) nr(3)]) simp_all
  moreover have "\<exists>s'. exec_list ?is s = Some s' \<and> writes ra d (alu_result a (opd_val \<rho> (src1 insn)) (opd_val \<rho> (src2 insn))) s s'"
    if r: "rep ra \<rho> s" for \<rho> s
  proof -
    have sc: "R11 \<in> scratch" "RCX \<in> scratch"
      by (auto simp: scratch_def)
    obtain s1 where s1: "exec_list (ld_code ra (src1 insn) RCX) s = Some s1" "same_frame s s1"
      "regs s1 (rn ?r1) = opd_val \<rho> (src1 insn)"
      using exec_load [OF ok o1 r same_frame_refl sc(2)] by blast
    obtain s2 where s2: "exec_list (ld_code ra (src2 insn) R11) s1 = Some s2" "same_frame s s2"
      "regs s2 (rn ?r2) = opd_val \<rho> (src2 insn)" "\<forall>p. p \<noteq> R11 \<longrightarrow> regs s2 (rn p) = regs s1 (rn p)"
      using exec_load [OF ok o2 r s1(2) sc(1)] by blast
    have v1: "regs s2 (rn ?r1) = opd_val \<rho> (src1 insn)"
      using s1(3) s2(4) ld_reg_cases [OF o1, of RCX] by auto
    obtain s3 where s3: "exec_list (mv_code ?d ?r1) s2 = Some s3" "mem s3 = mem s2"
      "\<forall>p. regs s3 (rn p) = (if p = ?d then regs s2 (rn ?r1) else regs s2 (rn p))"
      using exec_mv by blast
    obtain s4 where s4: "exec_list [ALU_rm_r a (RReg (rn ?d)) (rn ?r2)] s3 = Some s4" "mem s4 = mem s3"
      "\<forall>p. regs s4 (rn p) = (if p = ?d then alu_result a (regs s3 (rn ?d)) (regs s3 (rn ?r2)) else regs s3 (rn p))"
      using a by (auto simp: exec_insn_def set_alu_def set_reg_def reg_num_inj)
    have "near ?d s s4"
      using s2(2) s3(2,3) s4(2,3) by (auto simp: near_def same_frame_def)
    moreover have "regs s4 (rn ?d) = alu_result a (opd_val \<rho> (src1 insn)) (opd_val \<rho> (src2 insn))"
      using v1 s2(3) s3(3) s4(3) ne by auto
    moreover have "exec_insn (ALU_rm_r a (RReg (rn ?d)) (rn ?r2)) s3 = Some s4"
      using s4(1) by (auto split: option.splits)
    ultimately show ?thesis
      using exec_finish [OF ok d(2) sc(2), of s s4 False] s1(1) s2(1) s3(1) by (simp add: exec_append sx_code_def sext32_def)
  qed
  ultimately show ?thesis
    unfolding lowers_def by blast
qed

definition elf_straight :: "Instruction \<Rightarrow> bool" where
  "elf_straight i \<longleftrightarrow> plain_straight i \<and> op i \<notin> {ADD_I32, SUB_I32, NEG_I64, POPCOUNT_I64, LZCNT_I64}
     \<and> (op i \<in> {ADD_I64, SUB_I64} \<longrightarrow> src2 i \<noteq> dest i)"

lemma elf_insn_same:
  assumes "straight (le_ra env) i" "elf_straight i" "op i \<notin> {ADD_I64, SUB_I64}"
  shows "elf_insn grants env fo nxt i = elf_plain (lower_insn env nxt i)"
  using assms by (auto simp: straight_def elf_straight_def lowered_alu_def elf_insn_def lower_insn_def)

lemma elf_alu_result:
  assumes "op i = ADD_I64 \<and> a = A_ADD \<or> op i = SUB_I64 \<and> a = A_SUB" "ir_result i \<rho> = Some v"
  shows "alu_result a (opd_val \<rho> (src1 i)) (opd_val \<rho> (src2 i)) = v"
proof -
  let ?a = "opd_val \<rho> (src1 i)" and ?b = "opd_val \<rho> (src2 i)"
  have "map_option word_of_int (ir_alu (op i) (sint ?a) (sint ?b)) = Some v"
    using assms by (auto simp: ir_result_def Let_def split: if_splits)
  then show ?thesis
    using assms(1) by (auto simp: fold_const_ir [symmetric] fold_const_def Let_def option.map_comp comp_def)
qed

lemma elf_step:
  assumes ok: "ra_ok (le_ra env)" and st: "straight (le_ra env) i" "elf_straight i"
  shows "\<exists>code. asm (elf_insn grants env fo nxt i elf) elf code \<and> (\<forall>\<rho> s v. rep (le_ra env) \<rho> s \<longrightarrow> ir_result i \<rho> = Some v \<longrightarrow>
    (\<exists>s'. exec_list code s = Some s' \<and> writes (le_ra env) (op_reg (dest i)) v s s'))"
proof -
  have plain: "asm (elf_plain m elf) elf code" if "asm m () code" for m code
    using asm_bind [OF that asm_ret [of elf]] by (simp add: elf_plain_def)
  show ?thesis
  proof (cases "op i \<in> {ADD_I64, SUB_I64}")
    case False
    then show ?thesis
      using straight_step [OF ok st(1), of nxt] plain by (auto simp: elf_insn_same [OF st False])
  next
    case True
    obtain d where d: "dest i = OpReg d" "ir_reg (le_ra env) d" "opd_ok (le_ra env) (src1 i)" "opd_ok (le_ra env) (src2 i)"
      using st(1) True by (auto simp: straight_def)
    have "src2 i \<noteq> dest i"
      using st(2) True by (auto simp: elf_straight_def)
    then have L: "\<exists>code. asm (elf_alu rr (le_ra env) i) () code \<and> (\<forall>\<rho> s v. rep (le_ra env) \<rho> s \<longrightarrow> ir_result i \<rho> = Some v \<longrightarrow>
        (\<exists>s'. exec_list code s = Some s' \<and> writes (le_ra env) d v s s'))"
      if "op i = ADD_I64 \<and> a = A_ADD \<or> op i = SUB_I64 \<and> a = A_SUB"
        "\<And>x y. x \<noteq> NO_REG \<Longrightarrow> y \<noteq> NO_REG \<Longrightarrow> asm (rr x y) () [ALU_rm_r a (RReg (rn x)) (rn y)]" for rr a
      using lowers_weaken [OF lowers_elf_alu [OF ok d(3,4,1,2) _ _ that(2)] elf_alu_result [OF that(1)]] that(1) by auto
    let ?m = "elf_alu (if op i = ADD_I64 then add_reg_reg else sub_reg_reg) (le_ra env) i"
    obtain code where code: "asm ?m () code" "\<forall>\<rho> s v. rep (le_ra env) \<rho> s \<longrightarrow> ir_result i \<rho> = Some v \<longrightarrow>
        (\<exists>s'. exec_list code s = Some s' \<and> writes (le_ra env) d v s s')"
      using L [of A_ADD add_reg_reg, OF _ asm_add_reg_reg] L [of A_SUB sub_reg_reg, OF _ asm_sub_reg_reg] True by auto
    have "elf_insn grants env fo nxt i elf = elf_plain ?m elf"
      using True by (auto simp: elf_insn_def)
    then show ?thesis
      using plain [OF code(1)] code(2) d(1) by (intro exI [of _ code]) simp
  qed
qed

lemma elf_line:
  assumes ok: "ra_ok (le_ra env)" and st: "\<forall>i \<in> set is. straight (le_ra env) i \<and> elf_straight i"
  shows "\<exists>code. asm (elf_insns grants env fo nxt is elf) elf code \<and> (\<forall>\<rho> \<rho>' s. rep (le_ra env) \<rho> s \<longrightarrow> ir_run is \<rho> = Some \<rho>' \<longrightarrow>
    (\<exists>s'. exec_list code s = Some s' \<and> rep (le_ra env) \<rho>' s' \<and> frame_kept (le_ra env) s s'))"
  using st
proof (induction "is")
  case Nil
  then show ?case
    using asm_ret [of elf] by (auto intro!: exI [of _ "[]"])
next
  case (Cons i "is")
  obtain c1 where c1: "asm (elf_insn grants env fo nxt i elf) elf c1" "\<And>\<rho> s v. rep (le_ra env) \<rho> s \<Longrightarrow> ir_result i \<rho> = Some v \<Longrightarrow>
      \<exists>s'. exec_list c1 s = Some s' \<and> writes (le_ra env) (op_reg (dest i)) v s s'"
    using elf_step [OF ok, of i grants fo nxt elf] Cons.prems by auto
  obtain c2 where c2: "asm (elf_insns grants env fo nxt is elf) elf c2" "\<And>\<rho> \<rho>' s. rep (le_ra env) \<rho> s \<Longrightarrow> ir_run is \<rho> = Some \<rho>' \<Longrightarrow>
      \<exists>s'. exec_list c2 s = Some s' \<and> rep (le_ra env) \<rho>' s' \<and> frame_kept (le_ra env) s s'"
    using Cons by auto
  have d: "ir_reg (le_ra env) (op_reg (dest i))"
    using Cons.prems by (auto simp: straight_def)
  have "\<exists>s'. exec_list (c1 @ c2) s = Some s' \<and> rep (le_ra env) \<rho>' s' \<and> frame_kept (le_ra env) s s'"
    if r: "rep (le_ra env) \<rho> s" and run: "ir_run (i # is) \<rho> = Some \<rho>'" for \<rho> \<rho>' s
    using chain_straight [OF ok d c1(2) c2(2) r run] .
  then show ?case
    using asm_bind [OF c1(1), of "elf_insns grants env fo nxt is"] c2(1) by (intro exI [of _ "c1 @ c2"]) simp
qed

text \<open>
  Claim C27. Straight-line code in object files is correct. For a sequence of moves, 64-bit additions and subtractions,
  multiplications, shifts and bitwise operations of a function, with register or constant operands, the bytes that \<open>compile_to_elf\<close>
  emits for them add nothing to the object's tables and decode to instructions which, run on the machine from any state that represents an assignment of
  values to the registers of the function, end without a fault in a state that represents the assignment the
  reference semantics computes, with everything outside the registers and slots of locals kept. The destination of an
  addition or subtraction must not be its right operand, which this lowering, unlike the one for
  immediate execution, does not save. (32-bit additions and subtractions, negations and bit counts are left out: this
  lowering emits nothing for them.)
\<close>

theorem elf_straight_line_correct:
  fixes fn env nxt "is" grants fo elf
  defines "ra \<equiv> allocate_registers fn"
  assumes "set is \<subseteq> set (all_insns fn)" "max_local fn < 0xFFFFFFFF" "le_ra env = ra"
    and "list_all plain_straight is"
    and "list_all (\<lambda>i. op i \<notin> {ADD_I32, SUB_I32, NEG_I64, POPCOUNT_I64, LZCNT_I64}) is"
    and "list_all (\<lambda>i. op i \<in> {ADD_I64, SUB_I64} \<longrightarrow> src2 i \<noteq> dest i) is"
  shows "\<exists>code. asm (elf_insns grants env fo nxt is elf) elf code \<and>
    (\<forall>\<rho> \<rho>' s. rep ra \<rho> s \<and> ir_run is \<rho> = Some \<rho>' \<longrightarrow>
       (\<exists>s'. exec_list code s = Some s' \<and> rep ra \<rho>' s' \<and> frame_kept ra s s'))"
proof -
  have "\<forall>i \<in> set is. straight (le_ra env) i \<and> elf_straight i"
    using fn_straight assms by (auto simp: list_all_iff elf_straight_def)
  then show ?thesis
    using elf_line [of env "is" grants fo nxt elf] allocate_ok [of fn] assms(1,4) by (simp add: imp_conjL)
qed

theorem elf_straight_line_correct_witness:
  "\<exists>code s'. asm (elf_insns (\<lambda>_. True) sample_env 0 None [sample_add, sample_shift] (new_emitter (\<lambda>_. True))) (new_emitter (\<lambda>_. True)) code
     \<and> exec_list code sample_state = Some s' \<and> regs s' (rn RBX) = 42 \<and> regs s' (rn R12) = 168"
proof -
  let ?\<rho> = "\<lambda>r. if r = v1 then 40 else (0 :: u64)" and ?is = "[sample_add, sample_shift]"
  have i: "set ?is \<subseteq> set (all_insns sample_fn)" "max_local sample_fn < 0xFFFFFFFF"
    "le_ra sample_env = allocate_registers sample_fn" "list_all plain_straight ?is"
    "list_all (\<lambda>i. op i \<notin> {ADD_I32, SUB_I32, NEG_I64, POPCOUNT_I64, LZCNT_I64}) ?is"
    "list_all (\<lambda>i. op i \<in> {ADD_I64, SUB_I64} \<longrightarrow> src2 i \<noteq> dest i) ?is"
    using sample_counts(1)
    by (simp_all add: all_insns_def sample_fn_def sample_env_def lowered_alu_def plain_straight_def
        sample_add_def sample_shift_def plain_insn_def plain_opd_def v0_def v1_def)
  obtain code s' where c: "asm (elf_insns (\<lambda>_. True) sample_env 0 None ?is (new_emitter (\<lambda>_. True))) (new_emitter (\<lambda>_. True)) code"
    "exec_list code sample_state = Some s'" "rep (allocate_registers sample_fn) (?\<rho>(v0 := 42, v1 := 168)) s'"
    using elf_straight_line_correct [OF i, of "\<lambda>_. True" 0 None "new_emitter (\<lambda>_. True)"] sample_rep sample_run by blast
  then show ?thesis
    using sample_result [OF c(3)] by blast
qed

section \<open>An operand that is lost\<close>

definition elf_sub_code :: "AnaRegAlloc \<Rightarrow> Operand \<Rightarrow> X86Reg \<Rightarrow> xinsn list" where
  "elf_sub_code ra opd p = ld_code ra opd RCX @ mv_code p (ld_reg ra opd RCX) @ [ALU_rm_r A_SUB (RReg (rn p)) (rn p)]"

lemma asm_elf_sub:
  assumes ok: "ra_ok ra" and o1: "opd_ok ra (src1 insn)" and d: "dest insn = OpReg d" "src2 insn = OpReg d" "ir_reg ra d"
    and p: "reg_slot ra d = Inl p"
  shows "asm (elf_alu sub_reg_reg ra insn) () (elf_sub_code ra (src1 insn) p)"
proof -
  have nr: "p \<noteq> NO_REG" "ld_reg ra (src1 insn) RCX \<noteq> NO_REG"
    using slot_phys [OF p] ld_reg_ok [OF o1] by auto
  have o2: "opd_ok ra (src2 insn)" "ld_reg ra (src2 insn) R11 = p" "ld_code ra (src2 insn) R11 = []"
    using d p by (simp_all add: opd_ok_def ld_reg_def loc_reg_def ld_code_def)
  have dd: "dst_reg ra insn RCX = p" "st_code ra d p = []"
    using dst_reg_eq [OF ok d(1,3)] p by (simp_all add: loc_reg_def st_code_def)
  have "asm (elf_alu sub_reg_reg ra insn) () (ld_code ra (src1 insn) RCX @ ld_code ra (src2 insn) R11 @
      mv_code p (ld_reg ra (src1 insn) RCX) @ [ALU_rm_r A_SUB (RReg (rn p)) (rn p)] @ st_code ra d p)"
    unfolding elf_alu_def dd(1) Let_def d(1) op_reg.simps
    using asm_load [OF ok o2(1), of R11] o2(2) asm_sub_reg_reg [OF nr(1,1)]
    by (intro asm_bind [OF asm_load [OF ok o1]] asm_bind [of "load_operand ra (src2 insn) R11" p] asm_bind [OF asm_mv [OF nr]]
        asm_bind [of "sub_reg_reg p p" "()"] asm_store [OF ok d(3) nr(1)]) simp_all
  then show ?thesis
    by (simp add: elf_sub_code_def dd(2) o2(3))
qed

text \<open>
  Without that condition subtraction in object files loses its right operand: when the destination is also
  the right operand and lives in a machine register, the left operand overwrites that register before
  the subtraction, so the code of \<open>compile_to_elf\<close> computes zero whatever the operands are.
\<close>

theorem elf_sub_loses_operand:
  assumes "ra_ok ra" "opd_ok ra (src1 insn)" "dest insn = OpReg d" "src2 insn = OpReg d" "ir_reg ra d"
    and "reg_slot ra d = Inl p" "Lower_Correct.rep ra \<rho> s"
  shows "\<exists>is s'. asm (elf_alu sub_reg_reg ra insn) () is \<and> exec_list is s = Some s' \<and> val_at (reg_slot ra d) s' = 0"
proof -
  let ?r = "ld_reg ra (src1 insn) RCX"
  obtain s1 where s1: "exec_list (ld_code ra (src1 insn) RCX) s = Some s1"
    using exec_load [OF assms(1,2,7) same_frame_refl, of RCX] by (auto simp: scratch_def)
  obtain s2 where s2: "exec_list (mv_code p ?r) s1 = Some s2"
    using exec_mv by blast
  obtain s3 where s3: "exec_list ([ALU_rm_r A_SUB (RReg (rn p)) (rn p)]) s2 = Some s3" "regs s3 (rn p) = 0"
    by (auto simp: exec_insn_def set_alu_def set_reg_def)
  have "exec_list (elf_sub_code ra (src1 insn) p) s = Some s3"
    using s1 s2 s3(1) by (simp add: elf_sub_code_def exec_append)
  then show ?thesis
    using asm_elf_sub [OF assms(1-6)] s3(2) assms(6) by (auto simp: val_at_def)
qed

definition sample_sub :: Instruction where
  "sample_sub = (plain_insn SUB_I64 None)\<lparr>dest := OpReg v0, src1 := OpReg v1, src2 := OpReg v0\<rparr>"

theorem elf_sub_loses_operand_witness:
  "\<exists>is s'. asm (elf_alu sub_reg_reg (allocate_registers sample_fn) sample_sub) () is \<and> exec_list is sample_state = Some s'
     \<and> regs s' (rn RBX) = 0"
proof -
  let ?ra = "allocate_registers sample_fn"
  have r: "reg_slot ?ra v0 = Inl RBX" "ir_reg ?ra v0" "ir_reg ?ra v1"
    by (simp_all add: reg_slot_def v0_def v1_def kAllocatablePhysRegs_def ir_reg_def live_reg_def sample_counts)
  then have "opd_ok ?ra (src1 sample_sub)" "dest sample_sub = OpReg v0" "src2 sample_sub = OpReg v0"
    by (simp_all add: sample_sub_def plain_insn_def opd_ok_def)
  moreover have "ra_ok ?ra"
    by (rule allocate_ok)
  ultimately show ?thesis
    using elf_sub_loses_operand [of ?ra sample_sub v0 RBX, OF _ _ _ _ r(2,1) sample_rep] r(1) by (auto simp: val_at_def)
qed

end
