(* ===== verification/Xtensa.thy ===== *)
theory Xtensa
  imports Two_Pass Elf Bit_Fields
begin

text \<open>
  The Xtensa LX7 backend (\<open>src/src/backend/xtensa_lx7_backend.cpp\<close>): instruction encodings,
  the translation of instructions, object files, and flash images for the ESP32. The
  encoder's buffer is a list of bytes whose mappings are taken to be granted; an emitter is the
  list of bytes it appends. A decoder, written from the architecture manual, says what the
  words mean, and a loader, written from the format of flash images, what an image holds.
\<close>

unbundle bit_operations_syntax

section \<open>Encodings\<close>

type_synonym XtensaReg = u8

abbreviation XA0 :: XtensaReg where "XA0 \<equiv> 0"
abbreviation XA1 :: XtensaReg where "XA1 \<equiv> 1"
abbreviation XA2 :: XtensaReg where "XA2 \<equiv> 2"
abbreviation XA3 :: XtensaReg where "XA3 \<equiv> 3"
abbreviation XA10 :: XtensaReg where "XA10 \<equiv> 10"

definition xt_emit16 :: "u16 \<Rightarrow> bytes" where
  "xt_emit16 w = [ucast (w AND 0xFF), ucast (drop_bit 8 w AND 0xFF)]"

definition xt_emit24 :: "u32 \<Rightarrow> bytes" where
  "xt_emit24 w = [ucast (w AND 0xFF), ucast (drop_bit 8 w AND 0xFF), ucast (drop_bit 16 w AND 0xFF)]"

definition encode_rrr :: "u8 \<Rightarrow> u8 \<Rightarrow> u8 \<Rightarrow> u8 \<Rightarrow> u8 \<Rightarrow> u8 \<Rightarrow> u32" where
  "encode_rrr op0 op1 op2 r s t =
     (ucast op0 AND 0xF) OR push_bit 4 (ucast op1 AND 0xF) OR push_bit 8 (ucast t AND 0xF)
     OR push_bit 12 (ucast s AND 0xF) OR push_bit 16 (ucast r AND 0xF) OR push_bit 20 (ucast op2 AND 0xF)"

definition xt_add :: "XtensaReg \<Rightarrow> XtensaReg \<Rightarrow> XtensaReg \<Rightarrow> u32" where
  "xt_add rr rs rt = encode_rrr 0 0 0 rr rs rt"

definition xt_sub :: "XtensaReg \<Rightarrow> XtensaReg \<Rightarrow> XtensaReg \<Rightarrow> u32" where
  "xt_sub rr rs rt = encode_rrr 0 0 1 rr rs rt"

definition xt_mull :: "XtensaReg \<Rightarrow> XtensaReg \<Rightarrow> XtensaReg \<Rightarrow> u32" where
  "xt_mull rr rs rt = encode_rrr 0 2 8 rr rs rt"

definition xt_quos :: "XtensaReg \<Rightarrow> XtensaReg \<Rightarrow> XtensaReg \<Rightarrow> u32" where
  "xt_quos rr rs rt = encode_rrr 0 2 12 rr rs rt"

definition xt_and :: "XtensaReg \<Rightarrow> XtensaReg \<Rightarrow> XtensaReg \<Rightarrow> u32" where
  "xt_and rr rs rt = encode_rrr 0 0 10 rr rs rt"

definition xt_or :: "XtensaReg \<Rightarrow> XtensaReg \<Rightarrow> XtensaReg \<Rightarrow> u32" where
  "xt_or rr rs rt = encode_rrr 0 0 11 rr rs rt"

definition xt_xor :: "XtensaReg \<Rightarrow> XtensaReg \<Rightarrow> XtensaReg \<Rightarrow> u32" where
  "xt_xor rr rs rt = encode_rrr 0 0 12 rr rs rt"

definition xt_slli :: "XtensaReg \<Rightarrow> XtensaReg \<Rightarrow> u8 \<Rightarrow> u32" where
  "xt_slli rr rs sa = encode_rrr 0 1 0 rr rs (((32 - (sa AND 0x1F)) AND 0x1F) AND 0xF)"

definition xt_srai :: "XtensaReg \<Rightarrow> XtensaReg \<Rightarrow> u8 \<Rightarrow> u32" where
  "xt_srai rr rt sa = encode_rrr 0 1 2 rr (sa AND 0xF) rt"

definition xt_srli :: "XtensaReg \<Rightarrow> XtensaReg \<Rightarrow> u8 \<Rightarrow> u32" where
  "xt_srli rr rt sa = encode_rrr 0 1 4 rr (sa AND 0xF) rt"

text \<open>The formats with an 8-bit immediate; \<open>r\<close> is the selector of the operation.\<close>

definition encode_rri8 :: "u32 \<Rightarrow> u8 \<Rightarrow> u32 \<Rightarrow> u8 \<Rightarrow> u32" where
  "encode_rri8 r t s imm8 = 0x2 OR push_bit 4 r OR push_bit 8 (ucast t AND 0xF) OR push_bit 12 (s AND 0xF) OR push_bit 16 (ucast imm8)"

definition xt_addi :: "XtensaReg \<Rightarrow> XtensaReg \<Rightarrow> u8 \<Rightarrow> u32" where
  "xt_addi rt rs imm8 = encode_rri8 0xC rt (ucast rs) imm8"

definition xt_movi :: "XtensaReg \<Rightarrow> i32 \<Rightarrow> u32" where
  "xt_movi rt imm12 = (let low8 = ucast (imm12 AND 0xFF); high4 = ucast (drop_bit 8 imm12 AND 0xF) :: u8 in
     encode_rri8 0xA rt (ucast (high4 AND 0xF)) low8)"

definition xt_l32i :: "XtensaReg \<Rightarrow> XtensaReg \<Rightarrow> u16 \<Rightarrow> u32" where
  "xt_l32i rt rs off = encode_rri8 0x2 rt (ucast rs) (ucast (off AND 0xFF))"

definition xt_s32i :: "XtensaReg \<Rightarrow> XtensaReg \<Rightarrow> u16 \<Rightarrow> u32" where
  "xt_s32i rt rs off = encode_rri8 0x6 rt (ucast rs) (ucast (off AND 0xFF))"

definition xt_l32r :: "XtensaReg \<Rightarrow> i32 \<Rightarrow> u32" where
  "xt_l32r rt off = (let off16 = ucast (off AND 0xFFFF) :: u16 in 0x1 OR push_bit 4 (ucast rt AND 0xF) OR push_bit 8 (ucast off16))"

text \<open>Single-precision floating point and vectors.\<close>

definition xt_add_s :: "u8 \<Rightarrow> u8 \<Rightarrow> u8 \<Rightarrow> u32" where "xt_add_s fr fs ft = encode_rrr 0 10 0 fr fs ft"
definition xt_sub_s :: "u8 \<Rightarrow> u8 \<Rightarrow> u8 \<Rightarrow> u32" where "xt_sub_s fr fs ft = encode_rrr 0 10 1 fr fs ft"
definition xt_mul_s :: "u8 \<Rightarrow> u8 \<Rightarrow> u8 \<Rightarrow> u32" where "xt_mul_s fr fs ft = encode_rrr 0 10 2 fr fs ft"
definition xt_div_s :: "u8 \<Rightarrow> u8 \<Rightarrow> u8 \<Rightarrow> u32" where "xt_div_s fr fs ft = encode_rrr 0 10 3 fr fs ft"
definition xt_ee_vadd :: "XtensaReg \<Rightarrow> XtensaReg \<Rightarrow> XtensaReg \<Rightarrow> u32" where "xt_ee_vadd rr rs rt = encode_rrr 4 0 0 rr rs rt"
definition xt_ee_vmul :: "XtensaReg \<Rightarrow> XtensaReg \<Rightarrow> XtensaReg \<Rightarrow> u32" where "xt_ee_vmul rr rs rt = encode_rrr 4 1 0 rr rs rt"

text \<open>Branches on two registers; \<open>c\<close> is the condition.\<close>

definition encode_branch :: "u32 \<Rightarrow> XtensaReg \<Rightarrow> XtensaReg \<Rightarrow> i32 \<Rightarrow> u32" where
  "encode_branch c rs rt off = 0x7 OR push_bit 4 (ucast rt AND 0xF) OR push_bit 8 (ucast rs AND 0xF) OR push_bit 12 c
     OR push_bit 16 (ucast (ucast off :: u8))"

definition xt_beq :: "XtensaReg \<Rightarrow> XtensaReg \<Rightarrow> i32 \<Rightarrow> u32" where "xt_beq rs rt off = encode_branch 0x1 rs rt off"
definition xt_bne :: "XtensaReg \<Rightarrow> XtensaReg \<Rightarrow> i32 \<Rightarrow> u32" where "xt_bne rs rt off = encode_branch 0x9 rs rt off"
definition xt_blt :: "XtensaReg \<Rightarrow> XtensaReg \<Rightarrow> i32 \<Rightarrow> u32" where "xt_blt rs rt off = encode_branch 0x2 rs rt off"
definition xt_bge :: "XtensaReg \<Rightarrow> XtensaReg \<Rightarrow> i32 \<Rightarrow> u32" where "xt_bge rs rt off = encode_branch 0xA rs rt off"

definition xt_call0 :: "i32 \<Rightarrow> u32" where
  "xt_call0 off = 0x5 OR push_bit 6 (off AND 0x3FFFF)"

definition xt_callx0 :: "XtensaReg \<Rightarrow> u32" where
  "xt_callx0 rs = encode_rrr 0 0 0 0 rs 0"

definition xt_ret :: bytes where "xt_ret = xt_emit16 0xF00D"
definition xt_nop :: bytes where "xt_nop = xt_emit24 0x0020F0"

text \<open>Constants, a byte at a time.\<close>

definition xt_add_byte :: "XtensaReg \<Rightarrow> u8 \<Rightarrow> bytes" where
  "xt_add_byte rt b = (if b \<noteq> 0 then xt_emit24 (xt_movi XA10 (ucast b)) @ xt_emit24 (xt_add rt rt XA10) else [])"

definition xt_mov_imm32 :: "XtensaReg \<Rightarrow> u32 \<Rightarrow> bytes" where
  "xt_mov_imm32 rt val =
     (let b3 = ucast (drop_bit 24 val) :: u8; b2 = ucast (drop_bit 16 val AND 0xFF) :: u8;
          b1 = ucast (drop_bit 8 val AND 0xFF) :: u8; b0 = ucast (val AND 0xFF) :: u8 in
      if - 2048 \<le> sint val \<and> sint val \<le> 2047 then xt_emit24 (xt_movi rt val)
      else if val AND 0xFF000000 = val then xt_emit24 (xt_movi rt (ucast b3)) @ xt_emit24 (xt_slli rt rt 24)
      else if val AND 0xFFFF0000 = val then
        xt_emit24 (xt_movi rt (ucast b3)) @ xt_emit24 (xt_slli rt rt 8) @ xt_add_byte rt b2 @ xt_emit24 (xt_slli rt rt 16)
      else
        xt_emit24 (xt_movi rt (ucast b3)) @ xt_emit24 (xt_slli rt rt 8) @ xt_add_byte rt b2
        @ xt_emit24 (xt_slli rt rt 8) @ xt_add_byte rt b1 @ xt_emit24 (xt_slli rt rt 8) @ xt_add_byte rt b0)"

definition xt_mov :: "XtensaReg \<Rightarrow> XtensaReg \<Rightarrow> bytes" where
  "xt_mov rt rs = xt_emit24 (xt_add rt rs XA0)"

definition xt_push_frame :: "u32 \<Rightarrow> bytes" where
  "xt_push_frame n = xt_emit24 (xt_addi XA1 XA1 (ucast (- ((n + 15) AND NOT 15)))) @ xt_emit24 (xt_s32i XA0 XA1 0)"

definition xt_pop_frame :: "u32 \<Rightarrow> bytes" where
  "xt_pop_frame n = xt_emit24 (xt_l32i XA0 XA1 0) @ xt_emit24 (xt_addi XA1 XA1 (ucast ((n + 15) AND NOT 15)))"

section \<open>Lowering\<close>

definition op_to_xtensa :: "Operand \<Rightarrow> XtensaReg" where
  "op_to_xtensa opd =
     (case opd of
        OpReg r \<Rightarrow> if reg_index r < (if reg_type r = PARAM then 6 else 10) then 2 + ucast (reg_index r) else XA2
      | _ \<Rightarrow> XA2)"

definition xt_base :: "Operand \<Rightarrow> XtensaReg" where
  "xt_base opd = (if reg_type (op_mem_base opd) = PARAM then XA2 else op_to_xtensa (OpReg (op_mem_base opd)))"

definition xt_words :: "Operand \<Rightarrow> u16" where
  "xt_words opd = word_of_int (signed_divide (sint (op_mem_offset opd)) 4)"

definition xt_three :: "(XtensaReg \<Rightarrow> XtensaReg \<Rightarrow> XtensaReg \<Rightarrow> u32) \<Rightarrow> Instruction \<Rightarrow> bytes" where
  "xt_three f insn = xt_emit24 (f (op_to_xtensa (dest insn)) (op_to_xtensa (src1 insn)) (op_to_xtensa (src2 insn)))"

definition lower_xtensa_insn :: "bool \<Rightarrow> Instruction \<Rightarrow> bytes" where
  "lower_xtensa_insn is_baremetal insn =
     (case op insn of
        MOVE_CONST \<Rightarrow> if op_kind (src1 insn) = CONST_INT then xt_mov_imm32 (op_to_xtensa (dest insn)) (ucast (op_const (src1 insn))) else []
      | MOVE \<Rightarrow> xt_mov (op_to_xtensa (dest insn)) (op_to_xtensa (src1 insn))
      | ADD_I32 \<Rightarrow> xt_three xt_add insn | ADD_I64 \<Rightarrow> xt_three xt_add insn
      | SUB_I32 \<Rightarrow> xt_three xt_sub insn | SUB_I64 \<Rightarrow> xt_three xt_sub insn
      | MUL_I32 \<Rightarrow> xt_three xt_mull insn | MUL_I64 \<Rightarrow> xt_three xt_mull insn
      | DIV_I32 \<Rightarrow> xt_three xt_quos insn | DIV_I64 \<Rightarrow> xt_three xt_quos insn
      | AND_I32 \<Rightarrow> xt_three xt_and insn | AND_I64 \<Rightarrow> xt_three xt_and insn
      | OR_I32 \<Rightarrow> xt_three xt_or insn | OR_I64 \<Rightarrow> xt_three xt_or insn
      | XOR_I32 \<Rightarrow> xt_three xt_xor insn | XOR_I64 \<Rightarrow> xt_three xt_xor insn
      | STORE_MEM \<Rightarrow>
          if op_kind (dest insn) = MEM_OFFSET
          then xt_emit24 (xt_s32i (op_to_xtensa (src1 insn)) (xt_base (dest insn)) (xt_words (dest insn))) else []
      | LOAD_MEM \<Rightarrow>
          if op_kind (src1 insn) = MEM_OFFSET
          then xt_emit24 (xt_l32i (op_to_xtensa (dest insn)) (xt_base (src1 insn)) (xt_words (src1 insn))) else []
      | GOTO \<Rightarrow> xt_emit24 0x000006
      | ADD_FLOAT_32 \<Rightarrow> xt_emit24 (xt_add_s 0 0 1) | SUB_FLOAT_64 \<Rightarrow> xt_emit24 (xt_sub_s 0 0 1)
      | MUL_FLOAT_64 \<Rightarrow> xt_emit24 (xt_mul_s 0 0 1) | DIV_FLOAT_64 \<Rightarrow> xt_emit24 (xt_div_s 0 0 1)
      | ADD_VECTOR_I32X4 \<Rightarrow> xt_emit24 (xt_ee_vadd XA2 XA2 XA3) | MUL_VECTOR_I32X8 \<Rightarrow> xt_emit24 (xt_ee_vmul XA2 XA2 XA3)
      | RETURN_VAL \<Rightarrow> if is_baremetal then xt_emit24 0x000006 else xt_pop_frame 32 @ xt_ret
      | RETURN_VOID \<Rightarrow> if is_baremetal then xt_emit24 0x000006 else xt_pop_frame 32 @ xt_ret
      | _ \<Rightarrow> xt_nop)"

definition xt_function :: "Function \<Rightarrow> bytes" where
  "xt_function fn = xt_push_frame 32 @ concat (map (\<lambda>bb. concat (map (lower_xtensa_insn False) (insns bb))) (blocks fn))"

text \<open>\<open>mm\<close> is whether the kernel maps that many bytes; the result of \<open>make_rx\<close> is not looked at.\<close>

definition xt_compile_function :: "(nat \<Rightarrow> bool) \<Rightarrow> Function \<Rightarrow> bytes option" where
  "xt_compile_function mm fn =
     (let code = xt_function fn; sz = length code in
      if sz = 0 then None else if \<not> mm sz then None else Some code)"

fun xt_elf_functions :: "(nat \<Rightarrow> bool) \<Rightarrow> Function list \<Rightarrow> SimpleByteBuffer \<Rightarrow> ElfEmitter \<Rightarrow> SimpleByteBuffer \<times> ElfEmitter" where
  "xt_elf_functions grants [] text_buf elf = (text_buf, elf)"
| "xt_elf_functions grants (fn # fns) text_buf elf =
     (let func_off = buf_size text_buf; code = xt_function fn in
      xt_elf_functions grants fns (buf_write grants code text_buf)
        (snd (add_symbol grants (Some (fn_name fn)) 1 2 1 (of_nat func_off) (of_nat (length code)) elf)))"

definition xt_compile_to_elf :: "(nat \<Rightarrow> bool) \<Rightarrow> bool \<Rightarrow> Program \<Rightarrow> string option \<Rightarrow> bytes option" where
  "xt_compile_to_elf grants opens prog out_filename =
     (if out_filename = None then None
      else
        (let (text_buf, elf) = xt_elf_functions grants (prog_functions prog) (new_buffer grants)
               (set_machine_arch 94 (new_emitter grants)) in
         fst (write_elf_object grants opens out_filename (sb_data text_buf) elf)))"

section \<open>Flash images\<close>

fun label_matches :: "string \<Rightarrow> string \<Rightarrow> bool" where
  "label_matches (a # as) (b # bs) = (if a \<noteq> CHR 0x00 \<and> b \<noteq> CHR 0x00 \<and> a = b then label_matches as bs else a = b)"
| "label_matches (a # as) [] = (a = CHR 0x00)"
| "label_matches [] (b # bs) = (b = CHR 0x00)"
| "label_matches [] [] = True"

text \<open>The start-up code switches the watchdogs off.\<close>

definition esp_startup :: bytes where
  "esp_startup =
     xt_mov_imm32 XA1 0x3FCEB6F0 @ xt_emit24 (xt_movi XA0 0)
     @ xt_mov_imm32 XA2 0x6001F064 @ xt_mov_imm32 XA3 0x50D83AA1 @ xt_emit24 (xt_s32i XA3 XA2 0)
     @ xt_mov_imm32 XA2 0x6001F048 @ xt_emit24 (xt_movi XA3 0) @ xt_emit24 (xt_s32i XA3 XA2 0)
     @ xt_mov_imm32 XA2 0x600080A4 @ xt_mov_imm32 XA3 0x50D83AA1 @ xt_emit24 (xt_s32i XA3 XA2 0)
     @ xt_mov_imm32 XA2 0x60008098 @ xt_emit24 (xt_movi XA3 0) @ xt_emit24 (xt_s32i XA3 XA2 0)"

text \<open>First pass: where the code of each block starts, for the first 64 blocks (\<open>n\<close> labels are taken).\<close>

fun esp_measure :: "nat \<Rightarrow> nat \<Rightarrow> BasicBlock list \<Rightarrow> (string \<times> nat) list" where
  "esp_measure n pos [] = []"
| "esp_measure n pos (bb # bbs) =
     (if n < 64 then [(label bb, pos)] else [])
     @ esp_measure (Suc n) (pos + length (concat (map (lower_xtensa_insn True) (insns bb)))) bbs"

text \<open>Second pass: jumps with their distance, counted from four bytes ahead.\<close>

definition esp_insn :: "(string \<times> nat) list \<Rightarrow> nat \<Rightarrow> Instruction \<Rightarrow> bytes" where
  "esp_insn lt pos insn =
     (case target_label insn of
        Some t \<Rightarrow>
          if op insn = GOTO then
            (case find (\<lambda>(n, _). label_matches n t) lt of
               Some (_, target_off) \<Rightarrow> xt_emit24 (0x6 OR push_bit 6 ((of_nat target_off - (of_nat pos + 4)) AND 0x3FFFF))
             | None \<Rightarrow> xt_emit24 0x000006)
          else lower_xtensa_insn True insn
      | None \<Rightarrow> lower_xtensa_insn True insn)"

fun esp_blocks :: "(string \<times> nat) list \<Rightarrow> nat \<Rightarrow> BasicBlock list \<Rightarrow> bytes" where
  "esp_blocks lt pos [] = []"
| "esp_blocks lt pos (bb # bbs) =
     (let c = two_insns (esp_insn lt) pos (insns bb) in c @ esp_blocks lt (pos + length c) bbs)"

definition esp_function :: "Function \<Rightarrow> bytes" where
  "esp_function fn =
     (let lt = esp_measure 0 (length esp_startup) (blocks fn) in
      esp_startup @ esp_blocks lt (length esp_startup) (blocks fn) @ xt_emit24 0x000006)"

definition esp_header :: bytes where
  "esp_header = [0xE9, 1, 0x02, 0x20] @ le32 0x40370000 @ [0xEE, 0, 0, 0, 0x09, 0x00] @ replicate 10 0"

text \<open>The file: headers, code padded to words, padding, checksum.\<close>

definition esp_image :: "bytes \<Rightarrow> bytes" where
  "esp_image code =
     (let raw_code_sz = length code; aligned_code_sz = align_up 4 raw_code_sz;
          payload_len = 24 + 8 + aligned_code_sz; pad_len = (15 - payload_len mod 16) mod 16 in
      esp_header @ le32 0x40370000 @ le32 (of_nat aligned_code_sz) @ code @ replicate (aligned_code_sz - raw_code_sz) 0
        @ replicate pad_len 0 @ [foldl (XOR) 0xEF code])"

definition compile_to_esp32_bin :: "(nat \<Rightarrow> bool) \<Rightarrow> bool \<Rightarrow> Program \<Rightarrow> string option \<Rightarrow> bytes option" where
  "compile_to_esp32_bin grants opens prog out_bin_path =
     (if out_bin_path = None then None
      else
        (let text_buf = fold (\<lambda>fn. buf_write grants (esp_function fn)) (prog_functions prog) (new_buffer grants) in
         if buf_size text_buf = 0 then None else if \<not> opens then None else Some (esp_image (sb_data text_buf))))"

section \<open>The architecture\<close>

text \<open>
  The instructions of the emitters, from the architecture manual. From the lowest bits up, the
  register formats have the fields \<open>op0\<close>, \<open>t\<close>, \<open>s\<close>, \<open>r\<close>, \<open>op1\<close> and
  \<open>op2\<close>, or an immediate in place of the last two. A jump counts from four bytes ahead.
\<close>

datatype xtop = X_AND | X_OR | X_XOR | X_ADD | X_SUB | X_ANDB | X_MULL | X_QUOU | X_QUOS

datatype xtinsn =
    XT_OP xtop u8 u8 u8
  | XT_L8UI u8 u8 u8
  | XT_L32I u8 u8 u8
  | XT_S32I u8 u8 u8
  | XT_MOVI u8 u16
  | XT_ADDI u8 u8 u8
  | XT_J i32

definition xt_decode :: "u32 \<Rightarrow> xtinsn option" where
  "xt_decode w =
     (let t = ucast (fld 4 4 w); s = ucast (fld 8 4 w); r = fld 12 4 w; imm8 = ucast (fld 16 8 w) in
      if fld 0 4 w = 0 then
        map_option (\<lambda>f. XT_OP f (ucast r) s t)
          (map_of [((0, 1), X_AND), ((0, 2), X_OR), ((0, 3), X_XOR), ((0, 8), X_ADD), ((0, 12), X_SUB),
                   ((2, 0), X_ANDB), ((2, 8), X_MULL), ((2, 12), X_QUOU), ((2, 13), X_QUOS)] (fld 16 4 w, fld 20 4 w))
      else if fld 0 4 w = 2 then
        (if r = 0 then Some (XT_L8UI t s imm8) else if r = 2 then Some (XT_L32I t s imm8)
         else if r = 6 then Some (XT_S32I t s imm8)
         else if r = 10 then Some (XT_MOVI t (push_bit 8 (ucast (fld 8 4 w)) OR ucast (fld 16 8 w)))
         else if r = 12 then Some (XT_ADDI t s imm8) else None)
      else if fld 0 6 w = 6 then Some (XT_J (signed_take_bit 17 (fld 6 18 w)))
      else None)"

lemmas xt_decoding = xt_decode_def Let_def encode_rrr_def encode_rri8_def fld_simps fld_numeral and_masks unsigned_take_bit_eq byte_back

lemma xt_rrr_fields:
  "fld 0 4 (encode_rrr 0 op1 op2 r s t) = 0" "fld 20 4 (encode_rrr 0 op1 op2 r s t) = take_bit 4 (ucast op2)"
  "fld 16 4 (encode_rrr 0 op1 op2 r s t) = take_bit 4 (ucast r)" "fld 12 4 (encode_rrr 0 op1 op2 r s t) = take_bit 4 (ucast s)"
  "fld 8 4 (encode_rrr 0 op1 op2 r s t) = take_bit 4 (ucast t)" "fld 4 4 (encode_rrr 0 op1 op2 r s t) = take_bit 4 (ucast op1)"
  by (simp_all add: encode_rrr_def fld_simps fld_numeral and_masks)

lemma xt_movi_byte: "xt_decode (xt_movi rt (ucast b)) = Some (XT_L8UI 10 (take_bit 4 rt) b)" for b :: u8
proof -
  have "(drop_bit 8 (ucast b :: u32) AND 0xF) = 0"
    by (rule bit_eqI) (auto simp: bit_simps dest: bit_imp_le_length)
  moreover have "(ucast (take_bit 8 (ucast b :: u32)) :: u8) = b"
    by (rule bit_eqI) (auto simp: bit_simps)
  moreover have "fld 16 8 (push_bit 16 (ucast b)) = ucast b"
    by (rule bit_eqI) (auto simp: fld_def bit_simps dest: bit_imp_le_length)
  moreover have "fld lo n (push_bit 16 (ucast b)) = 0" if "lo + n \<le> 16" for lo n
    using that by (rule fld_above)
  ultimately show ?thesis
    by (simp add: xt_movi_def xt_decoding)
qed

text \<open>
  The register instructions of the Xtensa backend are other instructions than their
  names say: for all registers the words of the addition, subtraction and logical emitters decode to
  something else, with destination register 2, that of the first local, an addition is a conjunction of
  two boolean registers, and the constant of a move is the
  offset of a byte load from the destination register into register 10.
\<close>

theorem xt_register_ops_misencoded:
  "xt_decode (xt_add r s t) \<noteq> Some (XT_OP X_ADD d n m) \<and> xt_decode (xt_sub r s t) \<noteq> Some (XT_OP X_SUB d n m)
   \<and> xt_decode (xt_and r s t) \<noteq> Some (XT_OP X_AND d n m) \<and> xt_decode (xt_or r s t) \<noteq> Some (XT_OP X_OR d n m)
   \<and> xt_decode (xt_xor r s t) \<noteq> Some (XT_OP X_XOR d n m)
   \<and> xt_decode (xt_add XA2 s t) = Some (XT_OP X_ANDB (take_bit 4 s) (take_bit 4 t) 0)
   \<and> xt_decode (xt_movi r (ucast (b :: u8))) = Some (XT_L8UI 10 (take_bit 4 r) b)"
  by (intro conjI xt_movi_byte)
    (simp_all add: xt_add_def xt_sub_def xt_and_def xt_or_def xt_xor_def xt_decode_def Let_def xt_rrr_fields
      unsigned_take_bit_eq byte_back)

section \<open>Jumps of flash images\<close>

lemma length_xt_emit24 [simp]: "length (xt_emit24 w) = 3"
  by (simp add: xt_emit24_def)

lemma length_esp_insn [simp]: "length (esp_insn lt pos i) = length (lower_xtensa_insn True i)"
  by (auto simp: esp_insn_def lower_xtensa_insn_def split: option.splits)

definition esp_size :: "Instruction list \<Rightarrow> nat" where
  "esp_size is = length (concat (map (lower_xtensa_insn True) is))"

definition esp_sizes :: "BasicBlock list \<Rightarrow> nat" where
  "esp_sizes bbs = sum_list (map (\<lambda>b. esp_size (insns b)) bbs)"

lemma length_esp_insns [simp]: "length (two_insns (esp_insn lt) pos is) = esp_size is"
  by (induction "is" arbitrary: pos) (simp_all add: Let_def esp_size_def)

lemma length_esp_blocks: "length (esp_blocks lt pos bbs) = esp_sizes bbs"
  by (induction bbs arbitrary: pos) (simp_all add: Let_def esp_sizes_def)

lemma esp_blocks_append: "esp_blocks lt pos (as @ bs) = esp_blocks lt pos as @ esp_blocks lt (pos + esp_sizes as) bs"
  by (induction as arbitrary: pos) (simp_all add: Let_def esp_sizes_def add.assoc)

lemma esp_block_code:
  assumes "k < length bbs"
  obtains Q where "esp_blocks lt pos bbs = esp_blocks lt pos (take k bbs)
    @ two_insns (esp_insn lt) (pos + esp_sizes (take k bbs)) (insns (bbs ! k)) @ Q"
proof -
  have "bbs = take k bbs @ bbs ! k # drop (Suc k) bbs"
    using assms by (rule id_take_nth_drop)
  then show ?thesis
    using that esp_blocks_append [of lt pos "take k bbs" "bbs ! k # drop (Suc k) bbs"] by (simp add: Let_def)
qed

lemma esp_label_found:
  assumes "j < length bbs" "n + j < 64" "label_matches (label (bbs ! j)) t" "\<And>k. k < j \<Longrightarrow> \<not> label_matches (label (bbs ! k)) t"
  shows "\<exists>l. find (\<lambda>(n, _). label_matches n t) (esp_measure n pos bbs) = Some (l, pos + esp_sizes (take j bbs))"
  using assms
proof (induction bbs arbitrary: n pos j)
  case (Cons b bbs)
  show ?case
  proof (cases j)
    case 0
    then show ?thesis
      using Cons.prems by (simp add: esp_sizes_def)
  next
    case (Suc m)
    then have "\<not> label_matches (label b) t" "\<And>k. k < m \<Longrightarrow> \<not> label_matches (label (bbs ! k)) t"
      using Cons.prems(4) [of 0] Cons.prems(4) [of "Suc _"] by auto
    then show ?thesis
      using Cons.IH [of m "Suc n" "pos + esp_size (insns b)"] Cons.prems Suc by (simp add: esp_sizes_def esp_size_def add.assoc)
  qed
qed simp

lemma xt_jump:
  assumes "a < 131072" "b + 3 < 131072"
  shows "\<exists>off. xt_decode (0x6 OR push_bit 6 ((of_nat a - (of_nat b + 4)) AND 0x3FFFF)) = Some (XT_J off) \<and> int b + 4 + sint off = int a"
proof -
  have m: "(x :: u32) AND 0x3FFFF = take_bit 18 x" "signed_take_bit 17 (take_bit 18 x) = signed_take_bit 17 x" for x :: u32
    by (simp add: take_bit_eq_mask mask_eq_exp_minus_1) (rule bit_eqI, auto simp: bit_simps min_def)
  have "sint (signed_take_bit 17 (of_nat a - (of_nat b + 4) :: u32)) = int a - int b - 4"
    using sint_field [of 17 "int a - int b - 4"] assms by (simp add: diff_diff_eq [symmetric])
  then show ?thesis
    by (simp add: xt_decode_def Let_def m fld_simps fld_numeral)
qed

text \<open>
  Claim C28. Jumps of flash images reach their blocks: in a function of less than 128 KB, a jump to
  a label that one of the first 64 blocks has, as the first of them, is a
  jump instruction whose distance, counted from four bytes ahead as the architecture does,
  leads to the first byte of the code of that block.
\<close>

theorem esp_jumps_reach_blocks:
  assumes "length (esp_function fn) < 131072" "k < length (blocks fn)" "insns (blocks fn ! k) = pre @ i # post"
    and "op i = GOTO" "target_label i = Some t"
    and "j < length (blocks fn)" "j < 64" "label_matches (label (blocks fn ! j)) t"
    and "\<And>m. m < j \<Longrightarrow> \<not> label_matches (label (blocks fn ! m)) t"
  shows "\<exists>lt P0 Q0 P1 Q1 w off. esp_function fn = P0 @ two_insns (esp_insn lt) (length P0) (insns (blocks fn ! k)) @ Q0
    \<and> esp_function fn = P1 @ two_insns (esp_insn lt) (length P1) (insns (blocks fn ! j)) @ Q1
    \<and> esp_insn lt (length P0 + length (two_insns (esp_insn lt) (length P0) pre)) i = xt_emit24 w
    \<and> xt_decode w = Some (XT_J off)
    \<and> int (length P0 + length (two_insns (esp_insn lt) (length P0) pre)) + 4 + sint off = int (length P1)"
proof -
  let ?n = "length esp_startup"
  define lt where "lt = esp_measure 0 ?n (blocks fn)"
  have code: "\<exists>P Q. esp_function fn = P @ two_insns (esp_insn lt) (length P) (insns (blocks fn ! m)) @ Q
      \<and> length P = ?n + esp_sizes (take m (blocks fn))" if m: "m < length (blocks fn)" for m
  proof -
    obtain Q where "esp_blocks lt ?n (blocks fn) = esp_blocks lt ?n (take m (blocks fn))
        @ two_insns (esp_insn lt) (?n + esp_sizes (take m (blocks fn))) (insns (blocks fn ! m)) @ Q"
      by (rule esp_block_code [OF m])
    then show ?thesis
      by (intro exI [of _ "esp_startup @ esp_blocks lt ?n (take m (blocks fn))"] exI [of _ "Q @ xt_emit24 0x000006"])
        (simp add: esp_function_def Let_def lt_def [symmetric] length_esp_blocks)
  qed
  obtain P0 Q0 where p0: "esp_function fn = P0 @ two_insns (esp_insn lt) (length P0) (insns (blocks fn ! k)) @ Q0"
    using code [OF assms(2)] by blast
  obtain P1 Q1 where p1: "esp_function fn = P1 @ two_insns (esp_insn lt) (length P1) (insns (blocks fn ! j)) @ Q1"
    "length P1 = ?n + esp_sizes (take j (blocks fn))"
    using code [OF assms(6)] by blast
  let ?pos = "length P0 + length (two_insns (esp_insn lt) (length P0) pre)"
  have "length (lower_xtensa_insn True i) = 3"
    using assms(4) by (simp add: lower_xtensa_insn_def)
  then have small: "?pos + 3 < 131072" "length P1 < 131072"
    using assms(1) arg_cong [OF p0, of length] arg_cong [OF p1(1), of length] unfolding assms(3) by (simp_all add: esp_size_def)
  obtain off where off: "xt_decode (0x6 OR push_bit 6 ((of_nat (length P1) - (of_nat ?pos + 4)) AND 0x3FFFF)) = Some (XT_J off)"
    "int ?pos + 4 + sint off = int (length P1)"
    using xt_jump [OF small(2,1)] by blast
  have "esp_insn lt ?pos i = xt_emit24 (0x6 OR push_bit 6 ((of_nat (length P1) - (of_nat ?pos + 4)) AND 0x3FFFF))"
    using esp_label_found [OF assms(6), of 0 t ?n] assms(4,5,7-9) p1(2) by (auto simp: esp_insn_def lt_def)
  then show ?thesis
    using p0 p1(1) off by blast
qed

definition esp_goto :: Instruction where
  "esp_goto = plain_insn GOTO (Some ''c'')"

definition esp_fn :: Function where
  "esp_fn = \<lparr>fn_name = ''f'', return_type = VOID, params = [], param_count = 0, local_count = 0,
     blocks = [\<lparr>label = ''a'', insns = [esp_goto]\<rparr>, \<lparr>label = ''b'', insns = [plain_insn RETURN_VOID None]\<rparr>,
       \<lparr>label = ''c'', insns = [plain_insn RETURN_VOID None]\<rparr>]\<rparr>"

lemma length_xt_mov_imm32: "length (xt_mov_imm32 r w) \<le> 30" for r w
  by (simp add: xt_mov_imm32_def xt_add_byte_def Let_def)

lemma esp_fn_small: "length (esp_function esp_fn) < 131072"
proof -
  note m = length_xt_mov_imm32
  have "length esp_startup \<le> 300"
    using m [of XA1 "0x3FCEB6F0"] m [of XA2 "0x6001F064"] m [of XA3 "0x50D83AA1"] m [of XA2 "0x6001F048"] m [of XA2 "0x600080A4"] m [of XA2 "0x60008098"]
    by (simp add: esp_startup_def)
  moreover have "esp_sizes (blocks esp_fn) = 9"
    by (simp add: esp_sizes_def esp_size_def esp_fn_def esp_goto_def plain_insn_def lower_xtensa_insn_def)
  ultimately show ?thesis
    by (simp add: esp_function_def Let_def length_esp_blocks)
qed

theorem esp_jumps_reach_blocks_witness:
  "\<exists>lt P0 Q0 P1 Q1 w off. esp_function esp_fn = P0 @ two_insns (esp_insn lt) (length P0) [esp_goto] @ Q0
    \<and> esp_function esp_fn = P1 @ two_insns (esp_insn lt) (length P1) [plain_insn RETURN_VOID None] @ Q1
    \<and> esp_insn lt (length P0) esp_goto = xt_emit24 w \<and> xt_decode w = Some (XT_J off)
    \<and> int (length P0) + 4 + sint off = int (length P1)"
proof -
  have b: "0 < length (blocks esp_fn)" "insns (blocks esp_fn ! 0) = [] @ esp_goto # []" "2 < length (blocks esp_fn)"
    "insns (blocks esp_fn ! 2) = [plain_insn RETURN_VOID None]" "label_matches (label (blocks esp_fn ! 2)) ''c''"
    by (simp_all add: esp_fn_def)
  have n: "\<not> label_matches (label (blocks esp_fn ! m)) ''c''" if "m < 2" for m
    using that by (auto simp: esp_fn_def less_2_cases_iff)
  have g: "op esp_goto = GOTO" "target_label esp_goto = Some ''c''"
    by (simp_all add: esp_goto_def plain_insn_def)
  show ?thesis
    using esp_jumps_reach_blocks [OF esp_fn_small b(1,2) g b(3) _ b(5) n] unfolding b(2,4) by simp
qed

section \<open>Loading a flash image\<close>

text \<open>
  What the boot loader does with an image of one segment: the checksum is the last byte of the
  block of 16 bytes in which the segment, padded, ends.
\<close>

definition esp_load :: "bytes \<Rightarrow> (u32 \<times> u32 \<times> bytes) option" where
  "esp_load img =
     (let n = unat (of_nbytes 4 (drop 28 img) :: u32); seg = take n (drop 32 img); chk = (32 + n) div 16 * 16 + 15 in
      if length img \<le> chk \<or> img ! 0 \<noteq> 0xE9 \<or> img ! 1 \<noteq> 1 \<or> img ! chk \<noteq> foldl (XOR) 0xEF seg then None
      else Some (of_nbytes 4 (drop 4 img), of_nbytes 4 (drop 24 img), seg))"

lemma checksum_zeros: "foldl (XOR) c (replicate n 0) = (c :: u8)"
  by (induction n) simp_all

lemma length_esp_header [simp]: "length esp_header = 24"
  by (simp add: esp_header_def)

lemma esp_image_loads:
  assumes "align_up 4 (length code) < 2 ^ 32"
  shows "esp_load (esp_image code) = Some (0x40370000, 0x40370000, code @ replicate (align_up 4 (length code) - length code) 0)"
proof -
  define n where "n = align_up 4 (length code)"
  define seg where "seg = code @ replicate (n - length code) 0"
  define pad where "pad = (15 - (32 + n) mod 16) mod 16"
  have len: "length seg = n"
    using align_up_ge [of 4 "length code"] by (simp add: seg_def n_def)
  have img: "esp_image code = esp_header @ le32 0x40370000 @ le32 (of_nat n) @ seg @ replicate pad 0 @ [foldl (XOR) 0xEF seg]"
    by (simp add: esp_image_def Let_def n_def [symmetric] seg_def pad_def checksum_zeros)
  have "pad = 15 - (32 + n) mod 16"
    by (simp add: pad_def)
  then have chk: "(32 + n) div 16 * 16 + 15 = 32 + n + pad"
    using div_mult_mod_eq [of "32 + n" 16] mod_less_divisor [of 16 "32 + n"] by linarith
  have d: "drop 28 (esp_image code) = le32 (of_nat n) @ seg @ replicate pad 0 @ [foldl (XOR) 0xEF seg]"
    "drop 32 (esp_image code) = seg @ replicate pad 0 @ [foldl (XOR) 0xEF seg]"
    "drop 24 (esp_image code) = le32 0x40370000 @ le32 (of_nat n) @ seg @ replicate pad 0 @ [foldl (XOR) 0xEF seg]"
    by (simp_all add: img)
  have e: "of_nbytes 4 (drop 4 (esp_image code)) = (0x40370000 :: u32)" "esp_image code ! 0 = 0xE9" "esp_image code ! 1 = 1"
    by (simp_all add: img esp_header_def)
  have u: "unat (of_nat n :: u32) = n"
    using assms by (simp add: n_def unsigned_of_nat take_bit_nat_eq_self)
  have l: "esp_image code ! (32 + n + pad) = foldl (XOR) 0xEF seg" "length (esp_image code) = 33 + n + pad"
    by (simp_all add: img nth_append len)
  have "esp_load (esp_image code) = Some (0x40370000, 0x40370000, seg)"
    unfolding esp_load_def d Let_def e of_nbytes_le32 u chk l by (simp add: len)
  then show ?thesis
    by (simp add: seg_def n_def)
qed

lemma esp_text:
  assumes "\<And>n. grants n"
  shows "sb_data (fold (\<lambda>fn. buf_write grants (esp_function fn)) fns b) = sb_data b @ concat (map esp_function fns)"
  by (induction fns arbitrary: b) (simp_all add: buf_write_data [OF assms])

text \<open>
  Claim C29. Flash images load: when the kernel grants the buffers and the code is smaller than
  4 GB, the image that \<open>compile_to_esp32_bin\<close> writes passes the checks of the boot loader,
  which finds one segment at the entry address, the code of the functions in order, filled with
  zeros to a multiple of four bytes.
\<close>

theorem esp_image_roundtrip:
  assumes "compile_to_esp32_bin grants opens prog out = Some img" "\<And>n. grants n"
    and "length (concat (map esp_function (prog_functions prog))) + 3 < 2 ^ 32"
  shows "\<exists>z<4. esp_load img = Some (0x40370000, 0x40370000, concat (map esp_function (prog_functions prog)) @ replicate z 0)"
proof -
  let ?code = "concat (map esp_function (prog_functions prog))"
  have "img = esp_image ?code"
    using assms(1) esp_text [OF assms(2), where b = "new_buffer grants"]
    by (auto simp: compile_to_esp32_bin_def Let_def new_buffer_def split: if_splits)
  moreover have "align_up 4 (length ?code) < length ?code + 4"
    by (simp add: align_up_less)
  ultimately show ?thesis
    using esp_image_loads [of ?code] assms(3) by (intro exI [of _ "align_up 4 (length ?code) - length ?code"]) auto
qed

definition esp_prog :: Program where
  "esp_prog = \<lparr>prog_classes = [], prog_functions = [esp_fn]\<rparr>"

lemma esp_prog_compiles: "compile_to_esp32_bin (\<lambda>_. True) True esp_prog (Some ''out.bin'') = Some (esp_image (esp_function esp_fn))"
proof -
  have "esp_function esp_fn \<noteq> []"
    by (simp add: esp_function_def Let_def xt_emit24_def)
  then show ?thesis
    by (simp add: compile_to_esp32_bin_def esp_prog_def buf_size_def buf_write_data new_buffer_def)
qed

theorem esp_image_roundtrip_witness:
  "\<exists>z<4. esp_load (esp_image (esp_function esp_fn)) = Some (0x40370000, 0x40370000, esp_function esp_fn @ replicate z 0)"
  using esp_image_roundtrip [OF esp_prog_compiles] esp_fn_small by (simp add: esp_prog_def)

end
