(* ===== verification/Dwarf.thy ===== *)
theory Dwarf
  imports Elf
begin

text \<open>
  The emitter of debug information (\<open>src/src/backend/dwarf_emitter.cpp\<close>): the variable-length
  numbers, the table of source lines as a program for the line number machine, the unit and its
  abbreviations. The buffer is a list of bytes that the allocator is taken to let grow; an
  emitter is the list of bytes it appends, and a placeholder that is patched later is
  the final value. Readers are written from version 4 of the standard.
\<close>

unbundle bit_operations_syntax

section \<open>Numbers and strings\<close>

record SourceLineEntry =
  line_number :: u32
  pc_offset :: u32

definition add_line_entry :: "bool \<Rightarrow> u32 \<Rightarrow> u32 \<Rightarrow> SourceLineEntry list \<Rightarrow> SourceLineEntry list" where
  "add_line_entry allocs ln pco es = (if allocs then es @ [\<lparr>line_number = ln, pc_offset = pco\<rparr>] else es)"

definition emit_le16 :: "u16 \<Rightarrow> bytes" where
  "emit_le16 v = nbytes 2 v"

lemma unat_shift7: "unat (drop_bit 7 (v :: u64)) = unat v div 128"
proof -
  have "take_bit 64 (unat v) = unat v"
    using unsigned_less [of v, where 'a = nat] by (intro take_bit_nat_eq_self) simp
  then have "unat (drop_bit 7 v) = drop_bit 7 (unat v)"
    by (simp add: unsigned_drop_bit_eq)
  then show ?thesis
    by (simp add: drop_bit_eq_div)
qed

function emit_uleb128 :: "u64 \<Rightarrow> bytes" where
  "emit_uleb128 val =
     (let b = ucast (val AND 0x7F) :: u8; val1 = drop_bit 7 val in
      if val1 \<noteq> 0 then (b OR 0x80) # emit_uleb128 val1 else [b])"
  by pat_completeness auto
termination
proof (relation "measure unat")
  show "(x1, val) \<in> measure unat" if "x = ucast (val AND 0x7F)" "x1 = drop_bit 7 val" "x1 \<noteq> 0" for val :: u64 and x :: u8 and x1
  proof -
    have "unat x1 = unat val div 128" "unat x1 \<noteq> 0"
      using that unat_shift7 [of val] by (simp_all add: unsigned_eq_0_iff flip: unat_shift7)
    then show ?thesis
      by simp
  qed
qed simp

definition sleb_measure :: "u64 \<Rightarrow> nat" where
  "sleb_measure v = nat (if 0 \<le> sint v then sint v else - 1 - sint v)"

lemma sint_back: "sint (v :: u64) = k \<Longrightarrow> v = of_int k"
  by (drule arg_cong [of _ _ "of_int :: int \<Rightarrow> u64"]) simp

lemma div128: "k < - 1 \<Longrightarrow> k < k div 128" "0 < k \<Longrightarrow> k div 128 < k" for k :: int
  using div_mult_mod_eq [of k 128] pos_mod_bound [of 128 k] pos_mod_sign [of 128 k] by linarith+

lemma sint_shift7: "sint (signed_drop_bit 7 (v :: u64)) = sint v div 128"
  by (simp add: sint_signed_drop_bit_eq drop_bit_eq_div)

text \<open>The shift is arithmetic.\<close>

function emit_sleb128 :: "u64 \<Rightarrow> bytes" where
  "emit_sleb128 val =
     (let b = ucast (val AND 0x7F) :: u8; val1 = signed_drop_bit 7 val in
      if (val1 = 0 \<and> b AND 0x40 = 0) \<or> (val1 = - 1 \<and> b AND 0x40 \<noteq> 0) then [b]
      else (b OR 0x80) # emit_sleb128 val1)"
  by pat_completeness auto

termination
proof (relation "measure sleb_measure")
  show "(x1, val) \<in> measure sleb_measure" if "x = ucast (val AND 0x7F)" "x1 = signed_drop_bit 7 val"
    and "\<not> (x1 = 0 \<and> x AND 0x40 = 0 \<or> x1 = - 1 \<and> x AND 0x40 \<noteq> 0)" for val :: u64 and x :: u8 and x1
  proof -
    have "val \<noteq> 0" "val \<noteq> - 1"
      using that by auto
    then have "sint val \<noteq> 0" "sint val \<noteq> - 1"
      using sint_back [of val 0] sint_back [of val "- 1"] by auto
    then show ?thesis
      unfolding that(2) in_measure sleb_measure_def sint_shift7 using div128 [of "sint val"] by (cases "0 \<le> sint val") simp_all
  qed
qed simp

declare emit_uleb128.simps [simp del] emit_sleb128.simps [simp del]

text \<open>A null string is written as the empty one.\<close>

definition emit_string :: "string option \<Rightarrow> bytes" where
  "emit_string s = (case s of None \<Rightarrow> [0] | Some cs \<Rightarrow> cstring cs)"

section \<open>Sections\<close>

definition line_prologue :: "string \<Rightarrow> bytes" where
  "line_prologue name =
     [1, 1, 1, - 5, 14, 13] @ [0, 1, 1, 1, 1, 0, 0, 0, 1, 0, 0, 1] @ [0]
     @ emit_string (Some name) @ emit_uleb128 0 @ emit_uleb128 0 @ emit_uleb128 0 @ [0]"

fun line_ops :: "u32 \<Rightarrow> u32 \<Rightarrow> SourceLineEntry list \<Rightarrow> bytes" where
  "line_ops cur_pc cur_line [] = []"
| "line_ops cur_pc cur_line (e # es) =
     (let line_delta = line_number e - cur_line; pc_delta = pc_offset e - cur_pc in
      (if pc_delta > 0 then 2 # emit_uleb128 (ucast pc_delta) else [])
      @ (if line_delta \<noteq> 0 then 3 # emit_sleb128 (scast line_delta) else [])
      @ 1 # line_ops (if pc_delta > 0 then pc_offset e else cur_pc) (if line_delta \<noteq> 0 then line_number e else cur_line) es)"

definition line_program :: "SourceLineEntry list \<Rightarrow> bytes" where
  "line_program es = 0 # emit_uleb128 9 @ 2 # le64 0 @ line_ops 0 1 es @ 0 # emit_uleb128 1 @ [1]"

definition build_debug_line_section :: "string option \<Rightarrow> SourceLineEntry list \<Rightarrow> bytes" where
  "build_debug_line_section filename es =
     (let file_name = (case filename of Some f \<Rightarrow> if f \<noteq> [] then f else ''anastasia_module.ana'' | None \<Rightarrow> ''anastasia_module.ana'');
          pro = line_prologue file_name;
          body = emit_le16 4 @ le32 (of_nat (length pro)) @ pro @ line_program es in
      le32 (of_nat (length body)) @ body)"

definition build_debug_info_section :: "string option \<Rightarrow> bytes" where
  "build_debug_info_section compile_unit_name =
     (let cu_name = (case compile_unit_name of Some n \<Rightarrow> n | None \<Rightarrow> ''anastasia_unit'');
          body = emit_le16 4 @ le32 0 @ [8] @ emit_uleb128 1 @ emit_string (Some cu_name)
            @ emit_string (Some ''Anastasia bare-metal JIT/AOT v3.0'') @ emit_le16 0x8001 in
      le32 (of_nat (length body)) @ body)"

definition build_debug_abbrev_section :: bytes where
  "build_debug_abbrev_section =
     emit_uleb128 1 @ emit_uleb128 0x11 @ [1]
     @ emit_uleb128 0x03 @ emit_uleb128 0x08 @ emit_uleb128 0x25 @ emit_uleb128 0x08 @ emit_uleb128 0x13 @ emit_uleb128 0x05
     @ emit_uleb128 0 @ emit_uleb128 0 @ emit_uleb128 0"

section \<open>Reading numbers back\<close>

fun read_uleb :: "bytes \<Rightarrow> (nat \<times> bytes) option" where
  "read_uleb [] = None"
| "read_uleb (b # bs) =
     (if b < 128 then Some (unat b, bs) else map_option (\<lambda>(v, r). (unat b - 128 + 128 * v, r)) (read_uleb bs))"

fun read_sleb :: "bytes \<Rightarrow> (int \<times> bytes) option" where
  "read_sleb [] = None"
| "read_sleb (b # bs) =
     (if b < 64 then Some (uint b, bs) else if b < 128 then Some (uint b - 128, bs)
      else map_option (\<lambda>(v, r). (uint b - 128 + 128 * v, r)) (read_sleb bs))"


lemma bit_8_numerals: "bit (0x80 :: int) n \<longleftrightarrow> n = 7" "bit (0x40 :: int) n \<longleftrightarrow> n = 6"
  using bit_exp_iff [where 'a = int, of 7 n] bit_exp_iff [where 'a = int, of 6 n] by auto

lemma byte_parts:
  assumes "b = (ucast (v AND 0x7F) :: u8)"
  shows "unat b = unat (v :: u64) mod 128" "b < 128" "unat (b OR 0x80) = 128 + unat v mod 128" "\<not> b OR 0x80 < 128"
proof -
  have m: "v AND 0x7F = take_bit 7 v"
    by (simp add: take_bit_eq_mask mask_eq_exp_minus_1)
  have "unat v mod 128 < 2 ^ 8"
    using mod_less_divisor [of 128 "unat v"] by simp
  then show u: "unat b = unat v mod 128"
    by (simp add: assms m unsigned_ucast_eq unsigned_take_bit_eq take_bit_eq_mod unat_mod)
  then show "b < 128"
    by (simp add: word_less_nat_alt)
  have "b AND 0x80 = 0"
    by (rule bit_eqI) (auto simp: assms m bit_simps bit_8_numerals)
  then have "b OR 0x80 = b + 0x80"
    using word_plus_and_or [of b "0x80"] by simp
  then show w: "unat (b OR 0x80) = 128 + unat v mod 128"
    using u mod_less_divisor [of 128 "unat v"] by (simp add: unat_word_ariths)
  then show "\<not> b OR 0x80 < 128"
    by (simp add: word_less_nat_alt)
qed

lemma uleb_roundtrip: "read_uleb (emit_uleb128 v @ rest) = Some (unat v, rest)"
proof (induction v rule: emit_uleb128.induct)
  case (1 v)
  let ?b = "ucast (v AND 0x7F) :: u8"
  note b = byte_parts [OF refl, of v]
  have d: "unat (drop_bit 7 v) = unat v div 128"
    by (rule unat_shift7)
  show ?case
  proof (cases "drop_bit 7 v = 0")
    case True
    then have "unat v div 128 = 0"
      using d by simp
    then show ?thesis
      using True b(1,2) by (simp add: emit_uleb128.simps [of v] Let_def)
  next
    case False
    then show ?thesis
      using 1 b(3,4) d by (simp add: emit_uleb128.simps [of v] Let_def)
  qed
qed

lemma sign_bit6:
  assumes "(b :: u8) < 128"
  shows "b AND 0x40 = 0 \<longleftrightarrow> b < 64"
proof -
  have "\<not> bit b 6" if "b AND 0x40 = 0"
    using bit_and_iff [of b "0x40" 6] that by (simp add: bit_8_numerals)
  moreover have "b AND 0x40 = 0" if "\<not> bit b 6"
    using that by (intro bit_eqI) (auto simp: bit_and_iff bit_8_numerals)
  ultimately have "b AND 0x40 = 0 \<longleftrightarrow> \<not> bit b 6"
    by blast
  also have "\<dots> \<longleftrightarrow> even (unat b div 64)"
    using bit_unsigned_iff [where 'a = nat, of b 6] unfolding bit_iff_odd [of "unat b"] by auto
  also have "\<dots> \<longleftrightarrow> unat b div 64 = 0"
    using assms by (auto simp: word_less_nat_alt elim!: evenE)
  finally show ?thesis
    by (simp add: word_less_nat_alt div_eq_0_iff)
qed

lemma low7_sint: "int (unat (v :: u64) mod 128) = sint v mod 128"
proof -
  have "take_bit 7 (sint v) = take_bit 7 (uint v)"
    by (simp add: sint_uint take_bit_signed_take_bit)
  then show ?thesis
    by (simp add: take_bit_eq_mod zmod_int)
qed

lemma sleb_roundtrip: "read_sleb (emit_sleb128 v @ rest) = Some (sint v, rest)"
proof (induction v rule: emit_sleb128.induct)
  case (1 v)
  let ?b = "ucast (v AND 0x7F) :: u8"
  note b = byte_parts [OF refl, of v]
  have "int (unat ?b) = sint v mod 128" "int (unat (?b OR 0x80)) = 128 + sint v mod 128"
    unfolding b(1,3) using low7_sint [of v] by (simp_all only: of_nat_add of_nat_numeral)
  then have u: "uint ?b = sint v mod 128" "uint (?b OR 0x80) = 128 + sint v mod 128"
    by (simp_all only: of_nat_unat)
  have d: "sint (signed_drop_bit 7 v) = sint v div 128" "sint v = 128 * (sint v div 128) + sint v mod 128"
    by (simp_all add: sint_shift7)
  note six = sign_bit6 [OF b(2)]
  show ?case
  proof (cases "(signed_drop_bit 7 v = 0 \<and> ?b AND 0x40 = 0) \<or> (signed_drop_bit 7 v = - 1 \<and> ?b AND 0x40 \<noteq> 0)")
    case True
    then have "sint v div 128 = (if ?b < 64 then 0 else - 1)"
      using d(1) six by auto
    then show ?thesis
      using True b(2) u(1) d(2) six by (auto simp: emit_sleb128.simps [of v] Let_def)
  next
    case False
    then have "emit_sleb128 v = (?b OR 0x80) # emit_sleb128 (signed_drop_bit 7 v)"
      by (subst emit_sleb128.simps) (simp only: Let_def False if_False)
    moreover have "\<not> ?b OR 0x80 < 64"
      using b(4) by (auto simp: word_less_nat_alt)
    ultimately show ?thesis
      using 1 [OF refl refl False] b(4) u(2) d by simp
  qed
qed

section \<open>Reading the line table back\<close>

text \<open>
  The line number machine: address and line, and the rows it appends. Every operation takes at least
  a byte, so the length of the program is enough fuel.
\<close>

fun run_lines :: "nat \<Rightarrow> bytes \<Rightarrow> nat \<Rightarrow> int \<Rightarrow> (nat \<times> int) list option" where
  "run_lines 0 bs addr ln = None"
| "run_lines (Suc n) [] addr ln = None"
| "run_lines (Suc n) (c # bs) addr ln =
     (if c = 1 then map_option (Cons (addr, ln)) (run_lines n bs addr ln)
      else if c = 2 then (case read_uleb bs of Some (v, r) \<Rightarrow> run_lines n r (addr + v) ln | None \<Rightarrow> None)
      else if c = 3 then (case read_sleb bs of Some (v, r) \<Rightarrow> run_lines n r addr (ln + v) | None \<Rightarrow> None)
      else if c = 0 then
        (case read_uleb bs of
           Some (k, x # r) \<Rightarrow>
             if x = 1 \<and> k = 1 then Some []
             else if x = 2 \<and> k = 9 then run_lines n (drop 8 r) (unat (of_nbytes 8 r :: u64)) ln
             else None
         | _ \<Rightarrow> None)
      else None)"

definition read_debug_line :: "bytes \<Rightarrow> (bytes \<times> (nat \<times> int) list) option" where
  "read_debug_line bs =
     (let pro = unat (of_nbytes 4 (drop 6 bs) :: u32); prog = drop (10 + pro) bs;
          names = drop (10 + 19) bs in
      if unat (of_nbytes 4 bs :: u32) \<noteq> length bs - 4 \<or> of_nbytes 2 (drop 4 bs) \<noteq> (4 :: u16) \<or> bs ! 28 \<noteq> 0 then None
      else map_option (Pair (takeWhile (\<lambda>b. b \<noteq> 0) names)) (run_lines (length prog) prog 0 1))"

fun pcs_ascend :: "u32 \<Rightarrow> SourceLineEntry list \<Rightarrow> bool" where
  "pcs_ascend cur [] = True"
| "pcs_ascend cur (e # es) = (cur \<le> pc_offset e \<and> line_number e < 2 ^ 31 \<and> pcs_ascend (pc_offset e) es)"

definition line_rows :: "SourceLineEntry list \<Rightarrow> (nat \<times> int) list" where
  "line_rows es = map (\<lambda>e. (unat (pc_offset e), uint (line_number e))) es"

lemma line_delta:
  assumes "a < (2 ^ 31 :: u32)" "b < 2 ^ 31"
  shows "sint (scast (b - a) :: u64) = uint b - uint a"
proof -
  have u: "uint a < 2 ^ 31" "uint b < 2 ^ 31"
    using assms by (simp_all add: word_less_def)
  have "b - a = word_of_int (uint b - uint a)"
    by simp
  then have "sint (b - a) = signed_take_bit 31 (uint b - uint a)"
    by (simp only: signed_of_int) simp
  also have "\<dots> = uint b - uint a"
    using u uint_ge_0 [of a] uint_ge_0 [of b] by (intro signed_take_bit_int_eq_self) linarith+
  finally have "sint (b - a) = uint b - uint a" .
  moreover have "signed_take_bit 63 (uint b - uint a) = uint b - uint a"
    using u uint_ge_0 [of a] uint_ge_0 [of b] power_increasing [of 31 63 "2 :: int"]
    by (intro signed_take_bit_int_eq_self) linarith+
  ultimately show ?thesis
    by (simp add: signed_scast_eq)
qed

lemma unat_widen: "unat (ucast (w :: u32) :: u64) = unat w"
  using unsigned_less [of w, where 'a = nat] by (simp add: unsigned_ucast_eq take_bit_nat_eq_self)

lemma run_steps:
  "0 < n \<Longrightarrow> run_lines n (1 # r) a l = map_option (Cons (a, l)) (run_lines (n - 1) r a l)"
  "0 < n \<Longrightarrow> run_lines n (2 # emit_uleb128 v @ r) a l = run_lines (n - 1) r (a + unat v) l"
  "0 < n \<Longrightarrow> run_lines n (3 # emit_sleb128 v @ r) a l = run_lines (n - 1) r a (l + sint v)"
  by (cases n; simp add: uleb_roundtrip sleb_roundtrip)+

lemma run_line_ops:
  assumes "pcs_ascend cp es" "cl < 2 ^ 31" "length (line_ops cp cl es) + m \<le> n"
    and fin: "\<And>k a l. m \<le> k \<Longrightarrow> run_lines k rest a l = Some []"
  shows "run_lines n (line_ops cp cl es @ rest) (unat cp) (uint cl) = Some (line_rows es)"
  using assms(1-3)
proof (induction es arbitrary: cp cl n)
  case Nil
  then show ?case
    using fin by (simp add: line_rows_def)
next
  case (Cons e es)
  let ?pd = "pc_offset e - cp" and ?ld = "line_number e - cl"
  let ?n1 = "n - (if 0 < ?pd then 1 else 0)"
  let ?n2 = "?n1 - (if ?ld \<noteq> 0 then 1 else 0)"
  let ?ops = "line_ops (pc_offset e) (line_number e) es"
  have c: "cp \<le> pc_offset e" "line_number e < 2 ^ 31" "pcs_ascend (pc_offset e) es"
    using Cons.prems(1) by simp_all
  have ops: "line_ops cp cl (e # es) = (if 0 < ?pd then 2 # emit_uleb128 (ucast ?pd) else [])
      @ (if ?ld \<noteq> 0 then 3 # emit_sleb128 (scast ?ld) else []) @ 1 # ?ops"
    by (auto simp: Let_def word_gt_0)
  have n: "0 < n" "0 < ?n1" "0 < ?n2" "length ?ops + m \<le> ?n2 - 1"
    using Cons.prems(3) unfolding ops by auto
  have pc: "unat cp + unat (ucast ?pd :: u64) = unat (pc_offset e)"
    using unat_sub [OF c(1)] c(1) by (simp add: unat_widen word_le_nat_alt)
  have ln: "uint cl + sint (scast ?ld :: u64) = uint (line_number e)"
    using line_delta [OF Cons.prems(2) c(2)] by simp
  have "run_lines n (line_ops cp cl (e # es) @ rest) (unat cp) (uint cl)
      = run_lines ?n1 ((if ?ld \<noteq> 0 then 3 # emit_sleb128 (scast ?ld) else []) @ 1 # ?ops @ rest) (unat (pc_offset e)) (uint cl)"
    using run_steps(2) [OF n(1)] pc unfolding ops by (auto simp: word_gt_0)
  also have "\<dots> = run_lines ?n2 (1 # ?ops @ rest) (unat (pc_offset e)) (uint (line_number e))"
    using run_steps(3) [OF n(2)] ln by auto
  also have "\<dots> = Some (line_rows (e # es))"
    using run_steps(1) [OF n(3)] Cons.IH [OF c(3,2) n(4)] by (simp add: line_rows_def)
  finally show ?case .
qed

lemma of_char_0: "(of_char c :: u8) = 0 \<longleftrightarrow> c = CHR 0x00"
proof -
  have "unat (of_nat x :: u8) = x mod 256" for x
    by (simp add: unsigned_of_nat take_bit_eq_mod)
  from this [of "of_char c"] have "unat (of_char c :: u8) = of_char c"
    by (simp only: of_nat_of_char of_char_mod_256)
  then have "(of_char c :: u8) = 0 \<longleftrightarrow> (of_char c :: nat) = of_char (CHR 0x00)"
    by (simp add: word_unat_eq_iff)
  then show ?thesis
    by (simp only: of_char_eq_iff)
qed

lemma uleb_small: "emit_uleb128 0 = [0]" "emit_uleb128 1 = [1]" "emit_uleb128 9 = [9]"
  by (simp_all add: emit_uleb128.simps Let_def)

lemma run_line_program:
  assumes "pcs_ascend 0 es"
  shows "run_lines (length (line_program es)) (line_program es) 0 1 = Some (line_rows es)"
proof -
  let ?ops = "line_ops 0 1 es @ [0, 1, 1]"
  have p: "line_program es = [0, 9, 2] @ le64 0 @ ?ops"
    by (simp add: line_program_def uleb_small)
  have "run_lines (13 + length (line_ops 0 1 es)) ?ops 0 1 = Some (line_rows es)"
  proof (rule run_line_ops [of 0 es 1 1, simplified])
    show "run_lines k [0, 1, 1] a l = Some []" if "Suc 0 \<le> k" for k a l
      using that by (cases k) simp_all
  qed (use assms in simp_all)
  moreover have "length (line_program es) = Suc (13 + length (line_ops 0 1 es))"
    by (simp add: p)
  moreover have "run_lines (Suc n) (line_program es) 0 1 = run_lines n ?ops 0 1" for n
    unfolding p by simp
  ultimately show ?thesis
    by (simp only:)
qed

text \<open>
  Claim C30. Line tables read back: when the addresses of the recorded lines do not descend, line
  numbers are below \<open>2 ^ 31\<close> and the section is smaller than 4 GB, a reader of the standard finds in the line
  section the name of the source file and, running its program, one row for each recorded
  entry, in order, with its address and its line.
\<close>

theorem debug_line_roundtrip:
  assumes "pcs_ascend 0 es" "f \<noteq> []" "CHR 0x00 \<notin> set f" "length (build_debug_line_section (Some f) es) < 2 ^ 32"
  shows "read_debug_line (build_debug_line_section (Some f) es) = Some (map of_char f, line_rows es)"
proof -
  let ?pro = "line_prologue f"
  let ?body = "emit_le16 4 @ le32 (of_nat (length ?pro)) @ ?pro @ line_program es"
  have s: "build_debug_line_section (Some f) es = le32 (of_nat (length ?body)) @ ?body"
    using assms(2) by (simp add: build_debug_line_section_def Let_def)
  have l: "unat (of_nat (length ?body) :: u32) = length ?body" "unat (of_nat (length ?pro) :: u32) = length ?pro"
    using assms(4) unfolding s by (intro unat_fits; simp)+
  have pro: "?pro = [1, 1, 1, - 5, 14, 13] @ [0, 1, 1, 1, 1, 0, 0, 0, 1, 0, 0, 1] @ [0] @ map of_char f @ [0, 0, 0, 0, 0]"
    by (simp add: line_prologue_def emit_string_def cstring_def uleb_small)
  have z: "takeWhile (\<lambda>b. b \<noteq> 0) (map of_char f @ 0 # r) = (map of_char f :: bytes)" for r
    using assms(3) by (induction f) (auto simp: of_char_0)
  have two: "of_nbytes 2 (emit_le16 4 @ r) = (4 :: u16)" for r
    using of_nbytes_nbytes [of 2 "4 :: u16" r] by (simp add: emit_le16_def)
  let ?s = "build_debug_line_section (Some f) es"
  have d: "drop 4 ?s = ?body" "drop 6 ?s = le32 (of_nat (length ?pro)) @ ?pro @ line_program es"
    "drop (10 + length ?pro) ?s = line_program es" "length ?s - 4 = length ?body"
    by (simp_all add: s emit_le16_def)
  have n: "drop (10 + 19) ?s = map of_char f @ 0 # [0, 0, 0, 0] @ line_program es" "?s ! 28 = 0"
    by (simp_all add: s pro emit_le16_def nth_append)
  have h: "unat (of_nbytes 4 ?s :: u32) = length ?body"
    by (simp only: s of_nbytes_le32 l)
  show ?thesis
    unfolding read_debug_line_def Let_def h d n z two of_nbytes_le32 l run_line_program [OF assms(1)] by simp
qed

definition two_lines :: "SourceLineEntry list" where
  "two_lines = add_line_entry True 9 4 (add_line_entry True 7 0 [])"

lemma two_lines_size: "length (build_debug_line_section (Some ''a.ana'') two_lines) < 2 ^ 32"
  by (simp add: build_debug_line_section_def Let_def line_prologue_def line_program_def emit_string_def cstring_def uleb_small
      two_lines_def add_line_entry_def emit_uleb128.simps emit_sleb128.simps emit_le16_def)

theorem debug_line_roundtrip_witness:
  "read_debug_line (build_debug_line_section (Some ''a.ana'') two_lines) = Some (map of_char ''a.ana'', [(0, 7), (4, 9)])"
  using debug_line_roundtrip [of two_lines "''a.ana''"] two_lines_size
  by (simp add: two_lines_def add_line_entry_def line_rows_def)

end
