(* ===== verification/Pe.thy ===== *)
theory Pe
  imports Elf
begin

text \<open>
  The emitter of Windows executables (\<open>src/src/backend/pe_emitter.cpp\<close>): the packed header
  structures with their memory image, and the file. The mappings of the output buffer are taken
  to be granted and the write, whose result the code ignores, to be complete. A reader follows the headers as a loader does.
\<close>

unbundle bit_operations_syntax

section \<open>Headers\<close>

definition word16 :: "u16 \<Rightarrow> bytes" where
  "word16 w = nbytes 2 w"

text \<open>All fields but the magic number and the last are zero.\<close>

record ImageDosHeader =
  e_magic :: u16
  e_lfanew :: u32

definition dos_bytes :: "ImageDosHeader \<Rightarrow> bytes" where
  "dos_bytes h = word16 (e_magic h) @ replicate 58 0 @ le32 (e_lfanew h)"

record ImageFileHeader =
  Machine :: u16
  NumberOfSections :: u16
  TimeDateStamp :: u32
  PointerToSymbolTable :: u32
  NumberOfSymbols :: u32
  SizeOfOptionalHeader :: u16
  FileCharacteristics :: u16

definition file_header_bytes :: "ImageFileHeader \<Rightarrow> bytes" where
  "file_header_bytes h = word16 (Machine h) @ word16 (NumberOfSections h) @ le32 (TimeDateStamp h) @ le32 (PointerToSymbolTable h)
     @ le32 (NumberOfSymbols h) @ word16 (SizeOfOptionalHeader h) @ word16 (FileCharacteristics h)"

text \<open>The sixteen data directories are zero.\<close>

record ImageOptionalHeader64 =
  Magic :: u16
  MajorLinkerVersion :: u8
  MinorLinkerVersion :: u8
  SizeOfCode :: u32
  SizeOfInitializedData :: u32
  SizeOfUninitializedData :: u32
  AddressOfEntryPoint :: u32
  BaseOfCode :: u32
  ImageBase :: u64
  SectionAlignment :: u32
  FileAlignment :: u32
  MajorOperatingSystemVersion :: u16
  MinorOperatingSystemVersion :: u16
  MajorImageVersion :: u16
  MinorImageVersion :: u16
  MajorSubsystemVersion :: u16
  MinorSubsystemVersion :: u16
  Win32VersionValue :: u32
  SizeOfImage :: u32
  SizeOfHeaders :: u32
  CheckSum :: u32
  Subsystem :: u16
  DllCharacteristics :: u16
  SizeOfStackReserve :: u64
  SizeOfStackCommit :: u64
  SizeOfHeapReserve :: u64
  SizeOfHeapCommit :: u64
  LoaderFlags :: u32
  NumberOfRvaAndSizes :: u32

definition optional_bytes :: "ImageOptionalHeader64 \<Rightarrow> bytes" where
  "optional_bytes h =
     word16 (Magic h) @ [MajorLinkerVersion h, MinorLinkerVersion h] @ le32 (SizeOfCode h) @ le32 (SizeOfInitializedData h)
     @ le32 (SizeOfUninitializedData h) @ le32 (AddressOfEntryPoint h) @ le32 (BaseOfCode h) @ le64 (ImageBase h)
     @ le32 (SectionAlignment h) @ le32 (FileAlignment h) @ word16 (MajorOperatingSystemVersion h)
     @ word16 (MinorOperatingSystemVersion h) @ word16 (MajorImageVersion h) @ word16 (MinorImageVersion h)
     @ word16 (MajorSubsystemVersion h) @ word16 (MinorSubsystemVersion h) @ le32 (Win32VersionValue h) @ le32 (SizeOfImage h)
     @ le32 (SizeOfHeaders h) @ le32 (CheckSum h) @ word16 (Subsystem h) @ word16 (DllCharacteristics h)
     @ le64 (SizeOfStackReserve h) @ le64 (SizeOfStackCommit h) @ le64 (SizeOfHeapReserve h) @ le64 (SizeOfHeapCommit h)
     @ le32 (LoaderFlags h) @ le32 (NumberOfRvaAndSizes h) @ replicate 128 0"

record ImageNtHeaders64 =
  Signature :: u32
  FileHeader :: ImageFileHeader
  OptionalHeader :: ImageOptionalHeader64

definition nt_bytes :: "ImageNtHeaders64 \<Rightarrow> bytes" where
  "nt_bytes h = le32 (Signature h) @ file_header_bytes (FileHeader h) @ optional_bytes (OptionalHeader h)"

record ImageSectionHeader =
  SecName :: bytes
  VirtualSize :: u32
  VirtualAddress :: u32
  SizeOfRawData :: u32
  PointerToRawData :: u32
  PointerToRelocations :: u32
  PointerToLinenumbers :: u32
  NumberOfRelocations :: u16
  NumberOfLinenumbers :: u16
  SecCharacteristics :: u32

text \<open>The name is an array of eight bytes.\<close>

definition section_bytes :: "ImageSectionHeader \<Rightarrow> bytes" where
  "section_bytes h = take 8 (SecName h @ replicate 8 0) @ le32 (VirtualSize h) @ le32 (VirtualAddress h) @ le32 (SizeOfRawData h)
     @ le32 (PointerToRawData h) @ le32 (PointerToRelocations h) @ le32 (PointerToLinenumbers h)
     @ word16 (NumberOfRelocations h) @ word16 (NumberOfLinenumbers h) @ le32 (SecCharacteristics h)"

definition no_section :: ImageSectionHeader where
  "no_section = \<lparr>SecName = [], VirtualSize = 0, VirtualAddress = 0, SizeOfRawData = 0, PointerToRawData = 0,
     PointerToRelocations = 0, PointerToLinenumbers = 0, NumberOfRelocations = 0, NumberOfLinenumbers = 0, SecCharacteristics = 0\<rparr>"

section \<open>The file\<close>

definition nt_headers :: "u16 \<Rightarrow> u32 \<Rightarrow> u32 \<Rightarrow> u32 \<Rightarrow> ImageNtHeaders64" where
  "nt_headers nsec code_size data_size image_size =
     \<lparr>Signature = 0x00004550,
      FileHeader = \<lparr>Machine = 0x8664, NumberOfSections = nsec, TimeDateStamp = 0, PointerToSymbolTable = 0, NumberOfSymbols = 0,
        SizeOfOptionalHeader = 240, FileCharacteristics = 0x0022\<rparr>,
      OptionalHeader = \<lparr>Magic = 0x020B, MajorLinkerVersion = 14, MinorLinkerVersion = 0, SizeOfCode = code_size,
        SizeOfInitializedData = data_size, SizeOfUninitializedData = 0, AddressOfEntryPoint = 0x1000, BaseOfCode = 0x1000,
        ImageBase = 0x00400000, SectionAlignment = 0x1000, FileAlignment = 0x200,
        MajorOperatingSystemVersion = 6, MinorOperatingSystemVersion = 0, MajorImageVersion = 0, MinorImageVersion = 0,
        MajorSubsystemVersion = 6, MinorSubsystemVersion = 0, Win32VersionValue = 0, SizeOfImage = image_size,
        SizeOfHeaders = 0x200, CheckSum = 0, Subsystem = 3, DllCharacteristics = 0x8160,
        SizeOfStackReserve = 0x100000, SizeOfStackCommit = 0x1000, SizeOfHeapReserve = 0x100000, SizeOfHeapCommit = 0x1000,
        LoaderFlags = 0, NumberOfRvaAndSizes = 16\<rparr>\<rparr>"

text \<open>The padding loops.\<close>

definition pad_to :: "nat \<Rightarrow> bytes \<Rightarrow> bytes" where
  "pad_to n bs = bs @ replicate (n - length bs) 0"

definition pad_multiple :: "nat \<Rightarrow> bytes \<Rightarrow> bytes" where
  "pad_multiple a bs = bs @ replicate (align_up a (length bs) - length bs) 0"

definition pe_raw_size :: "bytes \<Rightarrow> u32" where
  "pe_raw_size bs = of_nat (align_up 0x200 (length bs))"

definition pe_virt_size :: "bytes \<Rightarrow> u32" where
  "pe_virt_size bs = of_nat (align_up 0x1000 (length bs))"

definition text_sh :: "bytes \<Rightarrow> ImageSectionHeader" where
  "text_sh text = no_section\<lparr>SecName := map of_char ''.text'', VirtualSize := of_nat (length text), VirtualAddress := 0x1000,
     SizeOfRawData := pe_raw_size text, PointerToRawData := 0x200, SecCharacteristics := 0x60000020\<rparr>"

definition rdata_sh :: "bytes \<Rightarrow> bytes \<Rightarrow> ImageSectionHeader" where
  "rdata_sh text rdata = no_section\<lparr>SecName := map of_char ''.rdata'', VirtualSize := of_nat (length rdata),
     VirtualAddress := 0x1000 + pe_virt_size text, SizeOfRawData := pe_raw_size rdata,
     PointerToRawData := 0x200 + pe_raw_size text, SecCharacteristics := 0x40000040\<rparr>"

definition pe_has_rdata :: "bytes option \<Rightarrow> bool" where
  "pe_has_rdata rdata \<longleftrightarrow> rdata \<noteq> None \<and> rdata \<noteq> Some []"

definition pe_headers :: "bytes \<Rightarrow> bytes option \<Rightarrow> bytes" where
  "pe_headers text rdata =
     (let has_rdata = pe_has_rdata rdata; rd = the rdata;
          rdata_virt_size = (if has_rdata then pe_virt_size rd else 0); rdata_raw_size = (if has_rdata then pe_raw_size rd else 0) in
      dos_bytes \<lparr>e_magic = 0x5A4D, e_lfanew = 64\<rparr>
      @ nt_bytes (nt_headers (if has_rdata then 2 else 1) (pe_raw_size text) rdata_raw_size (0x1000 + pe_virt_size text + rdata_virt_size))
      @ section_bytes (text_sh text) @ (if has_rdata then section_bytes (rdata_sh text rd) else []))"

definition pe_image :: "bytes \<Rightarrow> bytes option \<Rightarrow> bytes" where
  "pe_image text rdata =
     (let with_text = pad_to (unat (0x200 + pe_raw_size text)) (pad_to 0x200 (pe_headers text rdata) @ text) in
      if pe_has_rdata rdata then pad_multiple 0x200 (with_text @ the rdata) else with_text)"

text \<open>\<open>opens\<close> is whether the file can be opened.\<close>

definition write_pe_executable :: "bool \<Rightarrow> string option \<Rightarrow> bytes option \<Rightarrow> bytes option \<Rightarrow> bytes option" where
  "write_pe_executable opens output_filename text_bytes rdata_bytes =
     (case text_bytes of
        None \<Rightarrow> None
      | Some text \<Rightarrow>
          if output_filename = None \<or> text = [] then None else if \<not> opens then None else Some (pe_image text rdata_bytes))"

section \<open>Reading an executable\<close>

text \<open>Section \<open>i\<close>: its name, its address, and the bytes of its virtual size in the file.\<close>

definition pe_section :: "nat \<Rightarrow> bytes \<Rightarrow> (bytes \<times> u32 \<times> bytes) option" where
  "pe_section i f =
     (let nt = drop (unat (of_nbytes 4 (drop 60 f) :: u32)) f;
          sh = drop (24 + unat (of_nbytes 2 (drop 20 nt) :: u16) + 40 * i) nt;
          vsize = unat (of_nbytes 4 (drop 8 sh) :: u32); raw = unat (of_nbytes 4 (drop 20 sh) :: u32) in
      if of_nbytes 2 f \<noteq> (0x5A4D :: u16) \<or> of_nbytes 4 nt \<noteq> (0x4550 :: u32) \<or> unat (of_nbytes 2 (drop 6 nt) :: u16) \<le> i then None
      else Some (takeWhile (\<lambda>b. b \<noteq> 0) (take 8 sh), of_nbytes 4 (drop 12 sh), take vsize (drop raw f)))"

lemma length_word16 [simp]: "length (word16 w) = 2"
  by (simp add: word16_def)

lemma of_nbytes_word16 [simp]: "of_nbytes 2 (word16 w @ r) = (w :: u16)"
  using of_nbytes_nbytes [of 2 w r] by (simp add: word16_def take_bit_word_eq_self)

lemma header_lengths [simp]:
  "length (dos_bytes d) = 64" "length (nt_bytes n) = 264" "length (section_bytes s) = 40"
  by (simp_all add: dos_bytes_def nt_bytes_def file_header_bytes_def optional_bytes_def section_bytes_def)

definition sec_name :: "ImageSectionHeader \<Rightarrow> bytes" where
  "sec_name h = takeWhile (\<lambda>b. b \<noteq> 0) (take 8 (SecName h @ replicate 8 0))"

lemma section_fields:
  "takeWhile (\<lambda>b. b \<noteq> 0) (take 8 (section_bytes h @ r)) = sec_name h"
  "of_nbytes 4 (drop 8 (section_bytes h @ r)) = VirtualSize h" "of_nbytes 4 (drop 12 (section_bytes h @ r)) = VirtualAddress h"
  "of_nbytes 4 (drop 20 (section_bytes h @ r)) = PointerToRawData h"
  by (simp_all add: section_bytes_def sec_name_def min_def)

lemma nt_fields:
  "of_nbytes 4 (nt_bytes h @ r) = Signature h" "of_nbytes 2 (drop 6 (nt_bytes h @ r)) = NumberOfSections (FileHeader h)"
  "of_nbytes 2 (drop 20 (nt_bytes h @ r)) = SizeOfOptionalHeader (FileHeader h)"
  by (simp_all add: nt_bytes_def file_header_bytes_def)

lemma pe_section_header:
  assumes f: "f = dos_bytes \<lparr>e_magic = 0x5A4D, e_lfanew = 64\<rparr> @ nt_bytes (nt_headers nsec a b c) @ pre @ section_bytes h @ r"
    and "length pre = 40 * i" "i < unat nsec"
  shows "pe_section i f = Some (sec_name h, VirtualAddress h, take (unat (VirtualSize h)) (drop (unat (PointerToRawData h)) f))"
proof -
  have d: "of_nbytes 2 f = (0x5A4D :: u16)" "of_nbytes 4 (drop 60 f) = (64 :: u32)"
    "drop 64 f = nt_bytes (nt_headers nsec a b c) @ pre @ section_bytes h @ r"
    by (simp_all add: f dos_bytes_def)
  have n: "of_nbytes 4 (drop 64 f) = (0x4550 :: u32)" "of_nbytes 2 (drop 6 (drop 64 f)) = nsec" "of_nbytes 2 (drop 20 (drop 64 f)) = (240 :: u16)"
    unfolding d(3) nt_fields by (simp_all add: nt_headers_def)
  have s: "drop (24 + 240 + 40 * i) (drop 64 f) = section_bytes h @ r"
    unfolding d(3) using assms(2) by simp
  have u: "unat (64 :: u32) = 64" "unat (240 :: u16) = 240"
    by simp_all
  show ?thesis
    unfolding pe_section_def Let_def d(1,2) u n s section_fields using assms(3) by simp
qed

lemma padded_parts:
  assumes "length h \<le> 512" "512 + length t \<le> n"
  shows "length (pad_to n (pad_to 512 h @ t)) = n"
    "drop 512 (pad_to n (pad_to 512 h @ t) @ z) = t @ replicate (n - 512 - length t) 0 @ z"
    "pad_to n (pad_to 512 h @ t) @ z = h @ replicate (512 - length h) 0 @ t @ replicate (n - 512 - length t) 0 @ z"
  using assms by (simp_all add: pad_to_def)

lemma sec_names: "sec_name (text_sh t) = map of_char ''.text''" "sec_name (rdata_sh t r) = map of_char ''.rdata''"
  by (simp_all add: sec_name_def text_sh_def rdata_sh_def)

lemma length_pe_headers: "length (pe_headers text rdata) \<le> 408"
  by (simp add: pe_headers_def Let_def)

lemma pe_text_size:
  assumes "align_up 0x1000 (length text) + 0x1000 < 2 ^ 32"
  obtains n where "unat (0x200 + pe_raw_size text) = 512 + n" "length text \<le> n" "length text < 2 ^ 32"
proof -
  let ?T = "align_up 0x200 (length text)"
  have T: "length text \<le> ?T" "512 + ?T < 2 ^ 32"
    using align_up_ge [of "0x200" "length text"] align_up_less [of "0x200" "length text"] align_up_ge [of "0x1000" "length text"] assms
    by simp_all
  have "0x200 + pe_raw_size text = of_nat (512 + ?T)"
    by (simp add: pe_raw_size_def)
  then show ?thesis
    using that [of ?T] unat_fits [OF T(2)] T by simp
qed

text \<open>The file has the code after the headers and the data after the code and its padding.\<close>

lemma pe_image_parts:
  assumes "unat (0x200 + pe_raw_size text) = 512 + n" "length text \<le> n"
  obtains z y where "drop 512 (pe_image text rdata) = text @ replicate (n - length text) 0 @ z" "drop (512 + n) (pe_image text rdata) = z"
    "pe_image text rdata = pe_headers text rdata @ y" "pe_has_rdata rdata \<Longrightarrow> \<exists>z'. z = the rdata @ z'"
proof -
  let ?w = "pad_to (512 + n) (pad_to 512 (pe_headers text rdata) @ text)"
  obtain z where z: "pe_image text rdata = ?w @ z" "pe_has_rdata rdata \<Longrightarrow> \<exists>z'. z = the rdata @ z'"
    using assms(1) by (cases "pe_has_rdata rdata") (auto simp: pe_image_def Let_def pad_multiple_def)
  have "length (pe_headers text rdata) \<le> 512"
    using length_pe_headers [of "text" rdata] by simp
  from padded_parts [OF this, of "text" "512 + n"] assms(2) show ?thesis
    using that z by simp
qed

text \<open>
  Claim C31. Windows executables read back: from a file that was written for code and read-only data of
  less than 4 GB together with their padding, a reader that follows the headers gets the
  code under the name \<open>.text\<close> at address \<open>0x1000\<close>, and the data, when there are any, under the
  name \<open>.rdata\<close> at the first page after the code.
\<close>

theorem pe_sections_read_back:
  assumes "write_pe_executable opens out (Some text) rdata = Some f"
    and "align_up 0x1000 (length text) + 0x1000 < 2 ^ 32" "rdata = Some rd \<Longrightarrow> length rd < 2 ^ 32"
  shows "pe_section 0 f = Some (map of_char ''.text'', 0x1000, text)
    \<and> (rdata = Some rd \<longrightarrow> rd \<noteq> [] \<longrightarrow>
         pe_section 1 f = Some (map of_char ''.rdata'', 0x1000 + of_nat (align_up 0x1000 (length text)), rd))"
proof -
  obtain n where n: "unat (0x200 + pe_raw_size text) = 512 + n" "length text \<le> n" "length text < 2 ^ 32"
    using pe_text_size [OF assms(2)] by metis
  have f: "f = pe_image text rdata"
    using assms(1) by (auto simp: write_pe_executable_def split: if_splits)
  obtain z y where parts: "drop 512 f = text @ replicate (n - length text) 0 @ z" "drop (512 + n) f = z" "f = pe_headers text rdata @ y"
    and z: "pe_has_rdata rdata \<Longrightarrow> \<exists>z'. z = the rdata @ z'"
    using pe_image_parts [OF n(1,2)] f by metis
  have "pe_section 0 f = Some (sec_name (text_sh text), VirtualAddress (text_sh text),
      take (unat (VirtualSize (text_sh text))) (drop (unat (PointerToRawData (text_sh text))) f))"
    unfolding parts(3) pe_headers_def Let_def append_assoc by (rule pe_section_header [where pre = "[]", OF append_Nil [symmetric, THEN trans]]) auto
  moreover have "unat (VirtualSize (text_sh text)) = length text" "unat (PointerToRawData (text_sh text)) = 512" "VirtualAddress (text_sh text) = 0x1000"
    using unat_fits [OF n(3)] by (simp_all add: text_sh_def)
  ultimately have "pe_section 0 f = Some (map of_char ''.text'', 0x1000, text)"
    using parts(1) by (simp add: sec_names)
  moreover have "pe_section 1 f = Some (map of_char ''.rdata'', 0x1000 + of_nat (align_up 0x1000 (length text)), rd)"
    if r: "rdata = Some rd" "rd \<noteq> []"
  proof -
    have h: "pe_has_rdata rdata"
      using r by (simp add: pe_has_rdata_def)
    have "pe_section 1 f = Some (sec_name (rdata_sh text rd), VirtualAddress (rdata_sh text rd),
        take (unat (VirtualSize (rdata_sh text rd))) (drop (unat (PointerToRawData (rdata_sh text rd))) f))"
      using h r(1) unfolding parts(3) pe_headers_def Let_def append_assoc by (intro pe_section_header [where pre = "section_bytes (text_sh text)"]) auto
    moreover have "unat (VirtualSize (rdata_sh text rd)) = length rd" "unat (PointerToRawData (rdata_sh text rd)) = 512 + n"
      "VirtualAddress (rdata_sh text rd) = 0x1000 + of_nat (align_up 0x1000 (length text))"
      using unat_fits [OF assms(3) [OF r(1)]] n(1) by (simp_all add: rdata_sh_def pe_virt_size_def)
    ultimately show ?thesis
      using z [OF h] parts(2) r(1) by (auto simp: sec_names)
  qed
  ultimately show ?thesis
    by blast
qed

theorem pe_sections_read_back_witness:
  "pe_section 0 (pe_image [0xC3] (Some [7, 8])) = Some (map of_char ''.text'', 0x1000, [0xC3])
   \<and> pe_section 1 (pe_image [0xC3] (Some [7, 8])) = Some (map of_char ''.rdata'', 0x2000, [7, 8])"
  using pe_sections_read_back [of True "Some ''a.exe''" "[0xC3]" "Some [7, 8]" "pe_image [0xC3] (Some [7, 8])" "[7, 8]"]
  by (simp add: write_pe_executable_def align_up_def)

end
