(* ===== verification/Sys_Io.thy ===== *)
theory Sys_Io
  imports Alloc
begin

text \<open>
  System calls and output (\<open>src/src/sys/sys_raw.cpp\<close>). A system call is its number and the values the inline
  assembly puts into the argument registers, in the order of the calling convention; a register that is not set is \<open>None\<close>.
  The kernel is a parameter that answers calls. For reading and writing it is a function of the number of
  the call, the descriptor and the byte count, and what has been written is a log of bytes with their descriptor.
  Calls that may be interrupted for ever are options.
\<close>

unbundle bit_operations_syntax

section \<open>System calls\<close>

datatype Arch = X86_64 | AArch64 | OtherArch

record Syscall =
  sc_nr :: nat
  sc_args :: "u64 option list"

definition perform :: "Arch \<Rightarrow> (Syscall \<Rightarrow> i64) \<Rightarrow> nat \<Rightarrow> nat \<Rightarrow> u64 option list \<Rightarrow> i64" where
  "perform arch kern nx na as =
     (case arch of
        X86_64 \<Rightarrow> kern \<lparr>sc_nr = nx, sc_args = as\<rparr>
      | AArch64 \<Rightarrow> kern \<lparr>sc_nr = na, sc_args = as\<rparr>
      | OtherArch \<Rightarrow> - 1)"

definition ANA_PROT_READ :: i32 where "ANA_PROT_READ = 1"
definition ANA_PROT_WRITE :: i32 where "ANA_PROT_WRITE = 2"
definition ANA_PROT_EXEC :: i32 where "ANA_PROT_EXEC = 4"

text \<open>A mapping is never asked for writable and executable at once.\<close>

definition mmap_prot :: "i32 \<Rightarrow> i32" where
  "mmap_prot prot =
     (if prot AND ANA_PROT_WRITE \<noteq> 0 \<and> prot AND ANA_PROT_EXEC \<noteq> 0 then prot AND NOT ANA_PROT_EXEC else prot)"

definition sys_mmap :: "Arch \<Rightarrow> (Syscall \<Rightarrow> i64) \<Rightarrow> u64 \<Rightarrow> u64 \<Rightarrow> i32 \<Rightarrow> i32 \<Rightarrow> i32 \<Rightarrow> i64 \<Rightarrow> u64" where
  "sys_mmap arch kern a len prot flags fd off =
     (let ret = perform arch kern 9 222
        [Some a, Some len, Some (scast (mmap_prot prot)), Some (scast flags), Some (scast fd), Some off] in
      if - 4095 \<le> ret then - 1 else ret)"

text \<open>The pages a range touches: start and length as they are passed on.\<close>

definition page_range :: "u64 \<Rightarrow> u64 \<Rightarrow> u64 \<times> u64" where
  "page_range start len =
     (let page_size = 4096; aligned_start = start AND NOT (page_size - 1); aligned_len = len + (start - aligned_start) in
      (aligned_start, (aligned_len + (page_size - 1)) AND NOT (page_size - 1)))"

definition sys_mprotect :: "Arch \<Rightarrow> (Syscall \<Rightarrow> i64) \<Rightarrow> u64 \<Rightarrow> u64 \<Rightarrow> i32 \<Rightarrow> i32" where
  "sys_mprotect arch kern a len prot =
     (case page_range a len of (s, l) \<Rightarrow> ucast (perform arch kern 10 226 [Some s, Some l, Some (scast prot)]))"

definition sys_munmap :: "Arch \<Rightarrow> (Syscall \<Rightarrow> i64) \<Rightarrow> u64 \<Rightarrow> u64 \<Rightarrow> i32" where
  "sys_munmap arch kern a len =
     (case page_range a len of (s, l) \<Rightarrow> ucast (perform arch kern 11 215 [Some s, Some l]))"

definition sys_open :: "Arch \<Rightarrow> (Syscall \<Rightarrow> i64) \<Rightarrow> u64 \<Rightarrow> i32 \<Rightarrow> i32 \<Rightarrow> i32" where
  "sys_open arch kern pathname flags mode =
     ucast (perform arch kern 257 56 [Some (- 100), Some pathname, Some (scast flags), Some (scast mode)])"

definition sys_close :: "Arch \<Rightarrow> (Syscall \<Rightarrow> i64) \<Rightarrow> i32 \<Rightarrow> i32" where
  "sys_close arch kern fd = ucast (perform arch kern 3 57 [Some (scast fd)])"

definition sys_futex :: "Arch \<Rightarrow> (Syscall \<Rightarrow> i64) \<Rightarrow> u64 \<Rightarrow> i32 \<Rightarrow> i32 \<Rightarrow> u64 \<Rightarrow> i32" where
  "sys_futex arch kern uaddr futex_op val timeout =
     ucast (perform arch kern 202 98 [Some uaddr, Some (scast futex_op), Some (scast val), Some timeout])"

definition sys_sched_setaffinity :: "Arch \<Rightarrow> (Syscall \<Rightarrow> i64) \<Rightarrow> i32 \<Rightarrow> u64 \<Rightarrow> u64 \<Rightarrow> i32" where
  "sys_sched_setaffinity arch kern pid cpusetsize mask_ptr =
     (if arch = X86_64 then ucast (kern \<lparr>sc_nr = 203, sc_args = [Some (scast pid), Some cpusetsize, Some mask_ptr]\<rparr>) else 0)"

text \<open>The third argument register is not set, and the mode is in the place of the node mask.\<close>

definition sys_mbind :: "Arch \<Rightarrow> (Syscall \<Rightarrow> i64) \<Rightarrow> u64 \<Rightarrow> u64 \<Rightarrow> i32 \<Rightarrow> u64 \<Rightarrow> u64 \<Rightarrow> u32 \<Rightarrow> i32" where
  "sys_mbind arch kern a len mode nodemask maxnode flags =
     (if arch = X86_64 then
        ucast (kern \<lparr>sc_nr = 237, sc_args = [Some a, Some len, None, Some (scast mode), Some nodemask, Some maxnode]\<rparr>)
      else 0)"

definition sys_writev :: "Arch \<Rightarrow> (Syscall \<Rightarrow> i64) \<Rightarrow> i32 \<Rightarrow> u64 \<Rightarrow> i32 \<Rightarrow> i64" where
  "sys_writev arch kern fd iov iovcnt = perform arch kern 20 66 [Some (scast fd), Some iov, Some (scast iovcnt)]"

definition sys_syscall :: "Arch \<Rightarrow> (Syscall \<Rightarrow> i64) \<Rightarrow> nat \<Rightarrow> i64 \<Rightarrow> i64 \<Rightarrow> i64 \<Rightarrow> i64 \<Rightarrow> i64 \<Rightarrow> i64 \<Rightarrow> i64" where
  "sys_syscall arch kern nr a1 a2 a3 a4 a5 a6 = perform arch kern nr nr (map Some [a1, a2, a3, a4, a5, a6])"

definition shm_open :: "u64 \<Rightarrow> i32 \<Rightarrow> i32 \<Rightarrow> i32" where "shm_open nm oflag mode = - 1"
definition shm_unlink :: "u64 \<Rightarrow> i32" where "shm_unlink nm = - 1"

text \<open>
  \<open>raw_clone\<close> puts the function and its argument on the aligned stack of the child: the stack
  pointer passed to the kernel and the memory then. The child takes them off in the order of its architecture.
\<close>

definition clone_stack :: "Arch \<Rightarrow> u64 \<Rightarrow> u64 \<Rightarrow> u64 \<Rightarrow> memory \<Rightarrow> u64 \<times> memory" where
  "clone_stack arch fn child_stack arg m =
     (let top = child_stack AND NOT 15 in
      (top - 16,
       if arch = AArch64 then store_bytes (top - 16) (le64 arg) (store_bytes (top - 8) (le64 fn) m)
       else store_bytes (top - 16) (le64 fn) (store_bytes (top - 8) (le64 arg) m)))"

definition sys_clone :: "Arch \<Rightarrow> (Syscall \<Rightarrow> memory \<Rightarrow> i64) \<Rightarrow> u64 \<Rightarrow> u64 \<Rightarrow> i32 \<Rightarrow> u64 \<Rightarrow> memory \<Rightarrow> i32 \<times> memory" where
  "sys_clone arch kern fn child_stack flags arg m =
     (if arch = OtherArch \<or> fn = 0 \<or> child_stack = 0 then (- 1, m)
      else case clone_stack arch fn child_stack arg m of (sp, m1) \<Rightarrow>
        (ucast (if arch = X86_64
                then kern \<lparr>sc_nr = 56, sc_args = [Some (scast flags), Some sp, Some 0, Some 0, Some 0]\<rparr> m1
                else kern \<lparr>sc_nr = 220, sc_args = [Some (scast flags), Some sp]\<rparr> m1), m1))"

text \<open>What the child calls: function, argument, and its stack pointer at the call.\<close>

definition child_entry :: "Arch \<Rightarrow> u64 \<Rightarrow> memory \<Rightarrow> u64 \<times> u64 \<times> u64" where
  "child_entry arch sp m =
     (let w0 = of_nbytes 8 (load_bytes sp 8 m); w1 = of_nbytes 8 (load_bytes (sp + 8) 8 m) in
      if arch = AArch64 then (w1, w0, sp + 16) else (w0, w1, sp + 16))"

lemma word_at_store:
  "of_nbytes 8 (load_bytes a 8 (store_bytes a (le64 v) m)) = (v :: u64)"
  using of_nbytes_le64 [of v "[]"] by (simp add: load_store_same)

text \<open>A new thread starts with the function and the argument it was given, on an aligned stack.\<close>

lemma clone_child_calls:
  assumes "clone_stack arch fn stk arg m = (sp, m1)" "16 \<le> unat stk"
  shows "child_entry arch sp m1 = (fn, arg, stk AND NOT 15)"
proof -
  define top where "top = stk AND NOT 15"
  have "unat top = unat stk - unat stk mod 16"
    using unat_and_not_mask [of stk 4] by (simp add: top_def mask_eq_exp_minus_1 minus_mod_eq_mult_div)
  then have t: "16 \<le> unat top"
    using assms(2) minus_mod_eq_mult_div [of "unat stk" 16] by auto
  then have u: "unat (top - 16) = unat top - 16" "unat (top - 8) = unat top - 8"
    by (auto simp: unat_sub_if_size word_size)
  have b: "unat top < 2 ^ 64"
    using unsigned_less [of top] by simp
  have "load_bytes (top - 8) 8 (store_bytes (top - 16) (le64 v) (store_bytes (top - 8) (le64 w) m))
      = load_bytes (top - 8) 8 (store_bytes (top - 8) (le64 w) m)" for v w
    using t u b by (intro load_bytes_cong store_bytes_other) (auto simp: span_def)
  then have "of_nbytes 8 (load_bytes (top - 8) 8 (store_bytes (top - 16) (le64 v) (store_bytes (top - 8) (le64 w) m))) = w" for v w :: u64
    by (simp add: word_at_store)
  moreover have "top - 16 + 8 = top - 8" "top - 16 + 16 = top"
    by simp_all
  ultimately show ?thesis
    using assms(1) unfolding clone_stack_def Let_def top_def [symmetric]
    by (auto simp: child_entry_def Let_def word_at_store split: if_splits)
qed

lemma error_code_signed: "- 4095 \<le> (w :: u64) \<longleftrightarrow> sint w < 0 \<and> - 4095 \<le> sint w"
proof -
  have b: "0 \<le> uint w" "uint w < 2 ^ 64"
    using unsigned_less [of w] by simp_all
  have "(uint w + 2 ^ 63) mod 2 ^ 64 = (if uint w < 2 ^ 63 then uint w + 2 ^ 63 else uint w - 2 ^ 63)"
    using b mod_add_self2 [of "uint w - 2 ^ 63" "2 ^ 64"] by (auto simp: add.commute)
  then have "sint w = (if uint w < 2 ^ 63 then uint w else uint w - 2 ^ 64)"
    by (simp add: sint_uint signed_take_bit_eq_take_bit_shift take_bit_eq_mod)
  then show ?thesis
    using b by (auto simp: word_le_def)
qed

lemma page_range_unat:
  assumes "unat a + unat len + 4096 < 2 ^ 64" "page_range a len = (s, l)"
  shows "unat s = unat a div 4096 * 4096" "unat s + unat l = (unat a + unat len + 4095) div 4096 * 4096"
proof -
  show s: "unat s = unat a div 4096 * 4096"
    using assms(2) unat_and_not_mask [of a 12] by (auto simp: page_range_def Let_def mask_eq_exp_minus_1)
  then have d: "unat (a - s) = unat a - unat s" "unat s \<le> unat a"
    by (simp_all add: unat_sub_if_size)
  then have n: "unat (len + (a - s)) = unat len + (unat a - unat s)"
    using assms(1) by (subst unat_add) auto
  then have "unat (len + (a - s) + 4095) = unat len + (unat a - unat s) + 4095"
    using assms(1) d(2) unat_add_nat [of "len + (a - s)" 4095] by simp
  moreover have "l = (len + (a - s) + 4095) AND NOT (mask 12)"
    using assms(2) by (auto simp: page_range_def Let_def mask_eq_exp_minus_1)
  ultimately have l: "unat l = (unat len + (unat a - unat s) + 4095) div 4096 * 4096"
    using unat_and_not_mask [of "len + (a - s) + 4095" 12] by simp
  define x where "x = unat len + (unat a - unat s) + 4095"
  have "unat s + unat l = (x + unat a div 4096 * 4096) div 4096 * 4096"
    unfolding l x_def [symmetric] by (simp add: s add_mult_distrib)
  also have "x + unat a div 4096 * 4096 = unat a + unat len + 4095"
    using d(2) by (simp add: s x_def)
  finally show "unat s + unat l = (unat a + unat len + 4095) div 4096 * 4096" .
qed

lemma mmap_prot_exclusive: "mmap_prot p AND ANA_PROT_WRITE = 0 \<or> mmap_prot p AND ANA_PROT_EXEC = 0"
  by (auto simp: mmap_prot_def and.assoc)

text \<open>
  Changing protection reaches whole pages and no others: for a range that ends at least a page below
  the end of the address space, \<open>raw_mprotect\<close> and \<open>raw_munmap\<close> pass on the page-aligned interval from the page of the first
  byte up to the end of the page of the last one; and \<open>raw_mmap\<close>
  never asks for memory that is writable and executable at once, and answers \<open>-1\<close> on every error code.
\<close>

theorem page_calls_exact:
  assumes "unat a + unat len + 4096 < 2 ^ 64"
  shows "(\<exists>s l. unat s = unat a div 4096 * 4096 \<and> unat s + unat l = (unat a + unat len + 4095) div 4096 * 4096
      \<and> (\<forall>kern prot. sys_mprotect X86_64 kern a len prot = ucast (kern \<lparr>sc_nr = 10, sc_args = [Some s, Some l, Some (scast prot)]\<rparr>))
      \<and> (\<forall>kern. sys_munmap X86_64 kern a len = ucast (kern \<lparr>sc_nr = 11, sc_args = [Some s, Some l]\<rparr>)))
    \<and> (\<exists>prot'. (prot' AND ANA_PROT_WRITE = 0 \<or> prot' AND ANA_PROT_EXEC = 0)
        \<and> (\<forall>kern fl fd off. sys_mmap X86_64 kern a len prot fl fd off =
            (let ret = kern \<lparr>sc_nr = 9, sc_args = [Some a, Some len, Some (scast prot'), Some (scast fl), Some (scast fd), Some off]\<rparr> in
             if sint ret < 0 \<and> - 4095 \<le> sint ret then - 1 else ret)))"
proof -
  obtain s l where r: "page_range a len = (s, l)"
    by fastforce
  have "\<forall>kern prot. sys_mprotect X86_64 kern a len prot = ucast (kern \<lparr>sc_nr = 10, sc_args = [Some s, Some l, Some (scast prot)]\<rparr>)"
    "\<forall>kern. sys_munmap X86_64 kern a len = ucast (kern \<lparr>sc_nr = 11, sc_args = [Some s, Some l]\<rparr>)"
    by (simp_all add: sys_mprotect_def sys_munmap_def perform_def r)
  moreover have "\<forall>kern fl fd off. sys_mmap X86_64 kern a len prot fl fd off =
            (let ret = kern \<lparr>sc_nr = 9, sc_args = [Some a, Some len, Some (scast (mmap_prot prot)), Some (scast fl), Some (scast fd), Some off]\<rparr> in
             if sint ret < 0 \<and> - 4095 \<le> sint ret then - 1 else ret)"
    by (simp add: sys_mmap_def perform_def error_code_signed)
  ultimately show ?thesis
    using page_range_unat [OF assms r] mmap_prot_exclusive [of prot] by blast
qed

theorem page_calls_exact_witness:
  "\<exists>s l. unat s = 4096 \<and> unat s + unat l = 12288
     \<and> (\<forall>kern. sys_munmap X86_64 kern 5000 4000 = ucast (kern \<lparr>sc_nr = 11, sc_args = [Some s, Some l]\<rparr>))"
  using page_calls_exact [where a = 5000 and len = 4000 and prot = 0] by auto

section \<open>Reading and writing\<close>

record Io =
  io_write :: "nat \<Rightarrow> i32 \<Rightarrow> nat \<Rightarrow> int"
  io_calls :: nat
  io_log :: "(i32 \<times> u8) list"

definition EINTR :: int where "EINTR = - 4"

definition tagged :: "i32 \<Rightarrow> bytes \<Rightarrow> (i32 \<times> u8) list" where
  "tagged fd bs = map (Pair fd) bs"

text \<open>One \<open>write\<close> system call: a positive answer is the number of bytes that were taken.\<close>

definition write_call :: "i32 \<Rightarrow> bytes \<Rightarrow> Io \<Rightarrow> int \<times> Io" where
  "write_call fd bs k =
     (let ret = io_write k (io_calls k) fd (length bs) in
      (ret, k\<lparr>io_calls := Suc (io_calls k), io_log := io_log k @ tagged fd (take (nat ret) bs)\<rparr>))"

partial_function (option) write_loop :: "i32 \<Rightarrow> bytes \<Rightarrow> nat \<Rightarrow> Io \<Rightarrow> (int \<times> Io) option" where
  [code]: "write_loop fd bs done k =
     (if done < length bs then
        (case write_call fd (drop done bs) k of (ret, k1) \<Rightarrow>
           if ret < 0 then
             (if ret = EINTR then write_loop fd bs done k1 else Some (if done \<noteq> 0 then int done else ret, k1))
           else if ret = 0 then Some (int done, k1)
           else write_loop fd bs (done + nat ret) k1)
      else Some (int done, k))"

definition raw_write :: "i32 \<Rightarrow> bytes \<Rightarrow> Io \<Rightarrow> (int \<times> Io) option" where
  "raw_write fd bs k = write_loop fd bs 0 k"

text \<open>Documented behaviour of \<open>write\<close>: no more bytes are taken than were offered.\<close>

definition write_ok :: "Io \<Rightarrow> bool" where
  "write_ok k \<longleftrightarrow> (\<forall>c fd n. io_write k c fd n \<le> int n)"

text \<open>Interruptions come to an end.\<close>

definition interrupts_end :: "Io \<Rightarrow> bool" where
  "interrupts_end k \<longleftrightarrow> (\<forall>c. \<exists>c'\<ge>c. \<forall>fd n. io_write k c' fd n \<noteq> EINTR)"

text \<open>A descriptor that can be written: every call is interrupted or takes at least one byte.\<close>

definition writable :: "Io \<Rightarrow> bool" where
  "writable k \<longleftrightarrow> (\<forall>c fd n. 0 < n \<longrightarrow> io_write k c fd n = EINTR \<or> 0 < io_write k c fd n)"

lemma write_loop_done: "\<not> done < length bs \<Longrightarrow> write_loop fd bs done k = Some (int done, k)"
  by (simp add: write_loop.simps [of fd bs "done" k])

text \<open>Interrupted calls change nothing but the number of calls.\<close>

lemma write_loop_interrupts:
  assumes "interrupts_end k" "done < length bs"
  obtains c where "write_loop fd bs done k = write_loop fd bs done (k\<lparr>io_calls := c\<rparr>)" "io_write k c fd (length bs - done) \<noteq> EINTR"
proof -
  obtain c' where c': "io_calls k \<le> c'" "\<forall>fd n. io_write k c' fd n \<noteq> EINTR"
    using assms(1) unfolding interrupts_end_def by blast
  have "\<exists>c. write_loop fd bs done k = write_loop fd bs done (k\<lparr>io_calls := c\<rparr>) \<and> io_write k c fd (length bs - done) \<noteq> EINTR"
    using c'
  proof (induction "c' - io_calls k" arbitrary: k)
    case 0
    then have "k\<lparr>io_calls := c'\<rparr> = k"
      by simp
    then show ?case
      using 0(3) by metis
  next
    case (Suc d)
    show ?case
    proof (cases "io_write k (io_calls k) fd (length bs - done) = EINTR")
      case True
      define k1 where "k1 = k\<lparr>io_calls := Suc (io_calls k)\<rparr>"
      have "write_call fd (drop done bs) k = (EINTR, k1)"
        using True by (simp add: write_call_def Let_def k1_def EINTR_def tagged_def)
      then have "write_loop fd bs done k = write_loop fd bs done k1"
        using assms(2) by (simp add: write_loop.simps [of fd bs "done" k] EINTR_def)
      moreover have "\<exists>c. write_loop fd bs done k1 = write_loop fd bs done (k1\<lparr>io_calls := c\<rparr>) \<and> io_write k1 c fd (length bs - done) \<noteq> EINTR"
        using Suc.hyps(2) Suc.prems by (intro Suc.hyps(1)) (auto simp: k1_def)
      ultimately show ?thesis
        by (simp add: k1_def)
    qed (auto intro!: exI [of _ "io_calls k"])
  qed
  then show ?thesis
    using that by blast
qed

lemma write_loop_prefix:
  assumes "write_ok k" "interrupts_end k" "done \<le> length bs"
  shows "\<exists>r k' w. write_loop fd bs done k = Some (r, k') \<and> done \<le> w \<and> w \<le> length bs
    \<and> io_log k' = io_log k @ tagged fd (take (w - done) (drop done bs)) \<and> io_write k' = io_write k
    \<and> (if 0 \<le> r then r = int w else w = 0) \<and> (writable k \<longrightarrow> w = length bs)"
  using assms
proof (induction "length bs - done" arbitrary: "done" k rule: less_induct)
  case less
  show ?case
  proof (cases "done < length bs")
    case False
    then show ?thesis
      using less.prems(3) write_loop_done [OF False, of fd k] by (simp add: tagged_def)
  next
    case True
    then obtain c where c: "write_loop fd bs done k = write_loop fd bs done (k\<lparr>io_calls := c\<rparr>)" "io_write k c fd (length bs - done) \<noteq> EINTR"
      using write_loop_interrupts [OF less.prems(2)] by metis
    define ret where "ret = io_write k c fd (length bs - done)"
    define k1 where "k1 = k\<lparr>io_calls := Suc c, io_log := io_log k @ tagged fd (take (nat ret) (drop done bs))\<rparr>"
    have "write_call fd (drop done bs) (k\<lparr>io_calls := c\<rparr>) = (ret, k1)"
      by (simp add: write_call_def Let_def ret_def k1_def)
    then have loop: "write_loop fd bs done k =
        (if ret < 0 then Some (if done \<noteq> 0 then int done else ret, k1)
         else if ret = 0 then Some (int done, k1) else write_loop fd bs (done + nat ret) k1)"
      using c True by (simp add: write_loop.simps [of fd bs "done" "k\<lparr>io_calls := c\<rparr>"] ret_def [symmetric])
    show ?thesis
    proof (cases "ret \<le> 0")
      case neg: True
      have "\<not> writable k"
        using neg c(2) True unfolding writable_def ret_def by (metis linorder_not_less zero_less_diff)
      then show ?thesis
        using loop neg True by (cases "done = 0") (auto simp: k1_def tagged_def intro!: exI [of _ "done"])
    next
      case pos: False
      have le: "done + nat ret \<le> length bs"
        using less.prems(1) True pos by (simp add: write_ok_def ret_def) (metis of_nat_diff less_imp_le nat_le_iff le_diff_conv2 add.commute)
      have k1: "write_ok k1" "interrupts_end k1" "io_write k1 = io_write k" "writable k1 = writable k"
        using less.prems by (simp_all add: k1_def write_ok_def interrupts_end_def writable_def)
      have "length bs - (done + nat ret) < length bs - done"
        using pos True by simp
      from less.hyps [OF this k1(1,2) le] obtain r k' w where w:
        "write_loop fd bs (done + nat ret) k1 = Some (r, k')" "done + nat ret \<le> w" "w \<le> length bs"
        "io_log k' = io_log k1 @ tagged fd (take (w - (done + nat ret)) (drop (done + nat ret) bs))" "io_write k' = io_write k"
        "if 0 \<le> r then r = int w else w = 0" "writable k \<longrightarrow> w = length bs"
        by (auto simp: k1(3,4))
      have "take (w - done) (drop done bs) = take (nat ret) (drop done bs) @ take (w - (done + nat ret)) (drop (done + nat ret) bs)"
        using w(2) take_add [of "nat ret" "w - (done + nat ret)" "drop done bs"] by (simp add: add.commute)
      then show ?thesis
        using w loop pos by (intro exI [of _ r] exI [of _ k'] exI [of _ w]) (auto simp: k1_def tagged_def)
    qed
  qed
qed

text \<open>
  Claim C36. \<open>raw_write\<close> returns and its result is right: on a kernel that takes no more than it is offered and does not interrupt for ever,
  the call ends; what has been written is a prefix of the buffer, whose length is the result; a negative
  result means that nothing was written; and the prefix is the whole buffer
  when no call fails or takes nothing.
\<close>

theorem raw_write_prefix:
  assumes "write_ok k" "interrupts_end k"
  shows "\<exists>r k' w. raw_write fd bs k = Some (r, k') \<and> w \<le> length bs \<and> io_log k' = io_log k @ tagged fd (take w bs)
    \<and> (if 0 \<le> r then r = int w else w = 0) \<and> (writable k \<longrightarrow> w = length bs)"
  using write_loop_prefix [OF assms le0, of fd bs] unfolding raw_write_def diff_zero drop_0 by blast

definition slow_kernel :: Io where
  "slow_kernel = \<lparr>io_write = (\<lambda>c fd n. if even c then EINTR else min 2 (int n)), io_calls = 0, io_log = []\<rparr>"

lemma slow_kernel_ok: "write_ok slow_kernel" "interrupts_end slow_kernel" "writable slow_kernel"
proof -
  show "interrupts_end slow_kernel"
    unfolding interrupts_end_def
  proof
    fix c
    show "\<exists>c'\<ge>c. \<forall>fd n. io_write slow_kernel c' fd n \<noteq> EINTR"
      by (rule exI [of _ "2 * c + 1"]) (auto simp: slow_kernel_def EINTR_def min_def)
  qed
qed (simp_all add: write_ok_def writable_def slow_kernel_def EINTR_def)

theorem raw_write_prefix_witness:
  "\<exists>k'. raw_write 1 [10, 20, 30] slow_kernel = Some (3, k') \<and> io_log k' = [(1, 10), (1, 20), (1, 30)]"
  using raw_write_prefix [OF slow_kernel_ok(1,2), of 1 "[10, 20, 30]"] slow_kernel_ok(3)
  by (auto simp: tagged_def slow_kernel_def split: if_splits)

text \<open>
  An open file: the kernel's answers by number of the call, size of the buffer and number of bytes left,
  and the bytes left.
\<close>

record InFile =
  in_read :: "nat \<Rightarrow> nat \<Rightarrow> nat \<Rightarrow> int"
  in_calls :: nat
  in_rest :: bytes

definition read_call :: "nat \<Rightarrow> InFile \<Rightarrow> int \<times> bytes \<times> InFile" where
  "read_call count f =
     (let ret = in_read f (in_calls f) count (length (in_rest f)) in
      (ret, take (nat ret) (in_rest f), f\<lparr>in_calls := Suc (in_calls f), in_rest := drop (nat ret) (in_rest f)\<rparr>))"

text \<open>Result, bytes delivered, and the file afterwards.\<close>

partial_function (option) raw_read :: "nat \<Rightarrow> InFile \<Rightarrow> (int \<times> bytes \<times> InFile) option" where
  [code]: "raw_read count f =
     (case read_call count f of (ret, bs, f1) \<Rightarrow> if ret = EINTR then raw_read count f1 else Some (ret, bs, f1))"

text \<open>
  Documented behaviour of \<open>read\<close> on a file that can be read: no more than the buffer and the file hold is delivered, nothing only at the end
  or into an empty buffer, and interruptions come to an end.
\<close>

definition readable :: "InFile \<Rightarrow> bool" where
  "readable f \<longleftrightarrow> (\<forall>c n l. in_read f c n l = EINTR
      \<or> 0 \<le> in_read f c n l \<and> in_read f c n l \<le> int (min n l) \<and> (in_read f c n l = 0 \<longrightarrow> n = 0 \<or> l = 0))
     \<and> (\<forall>c. \<exists>c'\<ge>c. \<forall>n l. in_read f c' n l \<noteq> EINTR)"

definition read_result :: "nat \<Rightarrow> InFile \<Rightarrow> bool" where
  "read_result n f \<longleftrightarrow> (\<exists>k f'. raw_read n f = Some (int k, take k (in_rest f), f') \<and> k \<le> n \<and> k \<le> length (in_rest f)
     \<and> (k = 0 \<longrightarrow> n = 0 \<or> in_rest f = []) \<and> readable f' \<and> in_rest f' = drop k (in_rest f))"

lemma raw_read_answer:
  assumes "readable f" "in_read f (in_calls f) n (length (in_rest f)) \<noteq> EINTR"
  shows "read_result n f"
proof -
  define ret where "ret = in_read f (in_calls f) n (length (in_rest f))"
  define k where "k = nat ret"
  have "0 \<le> ret \<and> ret \<le> int (min n (length (in_rest f))) \<and> (ret = 0 \<longrightarrow> n = 0 \<or> length (in_rest f) = 0)"
    using assms unfolding readable_def ret_def by blast
  then have k: "ret = int k" "k \<le> n" "k \<le> length (in_rest f)" "k = 0 \<longrightarrow> n = 0 \<or> in_rest f = []"
    by (auto simp: k_def)
  define f' where "f' = f\<lparr>in_calls := Suc (in_calls f), in_rest := drop k (in_rest f)\<rparr>"
  have "raw_read n f = Some (int k, take k (in_rest f), f')"
    using assms(2) k(1) by (subst raw_read.simps) (simp add: read_call_def Let_def ret_def [symmetric] f'_def)
  moreover have "readable f'" "in_rest f' = drop k (in_rest f)"
    using assms(1) by (simp_all add: readable_def f'_def)
  ultimately show ?thesis
    using k(2-4) unfolding read_result_def by blast
qed

lemma raw_read_returns:
  assumes "readable f"
  shows "read_result n f"
proof -
  obtain c' where c': "in_calls f \<le> c'" "\<forall>n l. in_read f c' n l \<noteq> EINTR"
    using assms unfolding readable_def by blast
  show ?thesis
    using c' assms
  proof (induction "c' - in_calls f" arbitrary: f)
    case 0
    then show ?case
      by (intro raw_read_answer) auto
  next
    case (Suc d)
    show ?case
    proof (cases "in_read f (in_calls f) n (length (in_rest f)) = EINTR")
      case True
      define f1 where "f1 = f\<lparr>in_calls := Suc (in_calls f)\<rparr>"
      have "read_call n f = (EINTR, [], f1)"
        using True by (simp add: read_call_def Let_def f1_def EINTR_def)
      then have "raw_read n f = raw_read n f1"
        by (subst raw_read.simps) simp
      moreover have "readable f1" "in_rest f1 = in_rest f"
        using Suc.prems(3) by (simp_all add: f1_def readable_def)
      ultimately show ?thesis
        using Suc.hyps(1) [of f1] Suc.hyps(2) Suc.prems(1,2) by (simp add: f1_def read_result_def)
    qed (use Suc.prems(3) in \<open>rule raw_read_answer\<close>)
  qed
qed

section \<open>Buffered output\<close>

text \<open>The thread's buffer (its first \<open>pos\<close> bytes), the descriptor it belongs to, and the kernel.\<close>

record SysRingBuffer =
  sr_buf :: bytes
  sr_fd :: i32
  sr_io :: Io

definition ring_capacity :: nat where "ring_capacity = 65536"

definition raw_flush :: "i32 \<Rightarrow> SysRingBuffer \<Rightarrow> SysRingBuffer option" where
  "raw_flush fd g =
     (if sr_buf g \<noteq> [] \<and> sr_fd g = fd then
        map_option (\<lambda>(_, k). g\<lparr>sr_io := k, sr_buf := []\<rparr>) (raw_write fd (sr_buf g) (sr_io g))
      else Some g)"

text \<open>The copying loop, with the bytes that are left.\<close>

function buffer_loop :: "i32 \<Rightarrow> bytes \<Rightarrow> SysRingBuffer \<Rightarrow> SysRingBuffer option" where
  "buffer_loop fd bs g =
     (if bs = [] then Some g
      else
        (let room = ring_capacity - length (sr_buf g) in
         case (if room = 0 then raw_flush fd g else Some g) of
           None \<Rightarrow> None
         | Some g1 \<Rightarrow>
             (let space = (if room = 0 then ring_capacity else room);
                  chunk = (if length bs < space then length bs else space) in
              buffer_loop fd (drop chunk bs) (g1\<lparr>sr_buf := sr_buf g1 @ take chunk bs\<rparr>))))"
  by pat_completeness auto
termination
  by (relation "measure (\<lambda>(fd, bs, g). length bs)") (auto simp: ring_capacity_def)

declare buffer_loop.simps [simp del]

definition raw_write_buffered :: "i32 \<Rightarrow> bytes option \<Rightarrow> SysRingBuffer \<Rightarrow> (int \<times> SysRingBuffer) option" where
  "raw_write_buffered fd buf g =
     (case buf of
        None \<Rightarrow> Some (0, g)
      | Some bs \<Rightarrow>
          if bs = [] then Some (0, g)
          else
            (case (if sr_fd g \<noteq> fd then map_option (\<lambda>g1. g1\<lparr>sr_fd := fd\<rparr>) (raw_flush (sr_fd g) g) else Some g) of
               None \<Rightarrow> None
             | Some g1 \<Rightarrow> map_option (Pair (int (length bs))) (buffer_loop fd bs g1)))"

text \<open>\<open>raw_exit\<close> flushes standard output and standard error before the process ends.\<close>

definition exit_flush :: "SysRingBuffer \<Rightarrow> SysRingBuffer option" where
  "exit_flush g = Option.bind (raw_flush 1 g) (raw_flush 2)"

text \<open>What a client sees: the bytes written, then those waiting.\<close>

definition output_of :: "SysRingBuffer \<Rightarrow> (i32 \<times> u8) list" where
  "output_of g = io_log (sr_io g) @ tagged (sr_fd g) (sr_buf g)"

definition ring_ok :: "SysRingBuffer \<Rightarrow> bool" where
  "ring_ok g \<longleftrightarrow> length (sr_buf g) \<le> ring_capacity \<and> write_ok (sr_io g) \<and> interrupts_end (sr_io g) \<and> writable (sr_io g)"

lemma tagged_append [simp]: "tagged fd (xs @ ys) = tagged fd xs @ tagged fd ys" "tagged fd [] = []"
  by (simp_all add: tagged_def)

lemma flush_ok:
  assumes "ring_ok g"
  obtains g' where "raw_flush fd g = Some g'" "ring_ok g'" "output_of g' = output_of g" "sr_fd g' = sr_fd g"
    "sr_fd g = fd \<Longrightarrow> sr_buf g' = []" "sr_fd g \<noteq> fd \<Longrightarrow> g' = g"
proof (cases "sr_buf g \<noteq> [] \<and> sr_fd g = fd")
  case True
  obtain r k' where k': "raw_write fd (sr_buf g) (sr_io g) = Some (r, k')"
      "io_log k' = io_log (sr_io g) @ tagged fd (sr_buf g)" "io_write k' = io_write (sr_io g)"
    using write_loop_prefix [of "sr_io g" 0 "sr_buf g" fd] assms unfolding ring_ok_def raw_write_def by auto
  let ?g = "g\<lparr>sr_io := k', sr_buf := []\<rparr>"
  have "ring_ok ?g" "output_of ?g = output_of g"
    using assms k'(2,3) True by (simp_all add: ring_ok_def write_ok_def interrupts_end_def writable_def output_of_def)
  then show ?thesis
    using that [of ?g] True k'(1) by (simp add: raw_flush_def)
next
  case False
  then show ?thesis
    using that [of g] assms by (auto simp: raw_flush_def)
qed

lemma buffer_loop_ok:
  assumes "ring_ok g" "sr_fd g = fd"
  shows "\<exists>g'. buffer_loop fd bs g = Some g' \<and> ring_ok g' \<and> sr_fd g' = fd \<and> output_of g' = output_of g @ tagged fd bs"
  using assms
proof (induction fd bs g rule: buffer_loop.induct)
  case (1 fd bs g)
  show ?case
  proof (cases "bs = []")
    case True
    then show ?thesis
      using "1.prems" by (simp add: buffer_loop.simps)
  next
    case False
    define room where "room = ring_capacity - length (sr_buf g)"
    define space where "space = (if room = 0 then ring_capacity else room)"
    define chunk where "chunk = (if length bs < space then length bs else space)"
    obtain g1 where g1: "(if room = 0 then raw_flush fd g else Some g) = Some g1" "ring_ok g1" "sr_fd g1 = fd"
        "output_of g1 = output_of g" "length (sr_buf g1) + space \<le> ring_capacity"
    proof (cases "room = 0")
      case True
      obtain g1 where "raw_flush fd g = Some g1" "ring_ok g1" "output_of g1 = output_of g" "sr_fd g1 = fd" "sr_buf g1 = []"
        using flush_ok [OF "1.prems"(1), of fd] "1.prems"(2) by metis
      then show ?thesis
        using that True by (simp add: space_def)
    next
      case False
      then show ?thesis
        using that [of g] "1.prems" by (simp add: space_def room_def)
    qed
    define g2 where "g2 = g1\<lparr>sr_buf := sr_buf g1 @ take chunk bs\<rparr>"
    have g2: "ring_ok g2" "sr_fd g2 = fd" "output_of g2 = output_of g @ tagged fd (take chunk bs)"
      using g1 by (auto simp: g2_def ring_ok_def output_of_def chunk_def)
    have "buffer_loop fd bs g = buffer_loop fd (drop chunk bs) g2"
      using False g1(1) by (simp add: buffer_loop.simps [of fd bs g] Let_def g2_def chunk_def space_def room_def)
    moreover have "\<exists>g'. buffer_loop fd (drop chunk bs) g2 = Some g' \<and> ring_ok g' \<and> sr_fd g' = fd
        \<and> output_of g' = output_of g2 @ tagged fd (drop chunk bs)"
      using "1.IH" [OF False room_def g1(1) space_def chunk_def] g2 by (simp add: g2_def)
    ultimately show ?thesis
      using g2(3) tagged_append(1) [of fd "take chunk bs" "drop chunk bs"] by auto
  qed
qed

fun write_all :: "(i32 \<times> bytes) list \<Rightarrow> SysRingBuffer \<Rightarrow> SysRingBuffer option" where
  "write_all [] g = Some g"
| "write_all ((fd, bs) # ws) g = (case raw_write_buffered fd (Some bs) g of None \<Rightarrow> None | Some (_, g1) \<Rightarrow> write_all ws g1)"

lemma write_buffered_ok:
  assumes "ring_ok g"
  obtains g' where "raw_write_buffered fd (Some bs) g = Some (int (length bs), g')" "ring_ok g'"
    "output_of g' = output_of g @ tagged fd bs" "sr_fd g' = (if bs = [] then sr_fd g else fd)"
proof (cases "bs = []")
  case True
  then show ?thesis
    using that [of g] assms by (simp add: raw_write_buffered_def)
next
  case False
  obtain g1 where g1: "(if sr_fd g \<noteq> fd then map_option (\<lambda>g1. g1\<lparr>sr_fd := fd\<rparr>) (raw_flush (sr_fd g) g) else Some g) = Some g1"
      "ring_ok g1" "sr_fd g1 = fd" "output_of g1 = output_of g"
  proof (cases "sr_fd g = fd")
    case False
    obtain g0 where "raw_flush (sr_fd g) g = Some g0" "ring_ok g0" "output_of g0 = output_of g" "sr_buf g0 = []"
      using flush_ok [OF assms, of "sr_fd g"] by metis
    then show ?thesis
      using that [of "g0\<lparr>sr_fd := fd\<rparr>"] False by (simp add: ring_ok_def output_of_def)
  qed (use that [of g] assms in simp)
  obtain g' where "buffer_loop fd bs g1 = Some g'" "ring_ok g'" "sr_fd g' = fd" "output_of g' = output_of g @ tagged fd bs"
    using buffer_loop_ok [OF g1(2,3), of bs] g1(4) by auto
  then show ?thesis
    using that [of g'] False g1(1) by (simp add: raw_write_buffered_def)
qed

lemma write_all_ok:
  assumes "ring_ok g"
  shows "\<exists>g'. write_all ws g = Some g' \<and> ring_ok g' \<and> output_of g' = output_of g @ concat (map (\<lambda>(fd, bs). tagged fd bs) ws)
    \<and> sr_fd g' \<in> insert (sr_fd g) (fst ` set ws)"
  using assms
proof (induction ws arbitrary: g)
  case (Cons w ws)
  obtain fd bs where w: "w = (fd, bs)"
    by fastforce
  obtain g1 where g1: "raw_write_buffered fd (Some bs) g = Some (int (length bs), g1)" "ring_ok g1"
      "output_of g1 = output_of g @ tagged fd bs" "sr_fd g1 = (if bs = [] then sr_fd g else fd)"
    using write_buffered_ok [OF Cons.prems] by metis
  obtain g' where "write_all ws g1 = Some g'" "ring_ok g'" "output_of g' = output_of g1 @ concat (map (\<lambda>(fd, bs). tagged fd bs) ws)"
      "sr_fd g' \<in> insert (sr_fd g1) (fst ` set ws)"
    using Cons.IH [OF g1(2)] by blast
  then show ?case
    using g1 by (auto simp: w split: if_splits)
qed simp

definition new_ring :: "Io \<Rightarrow> SysRingBuffer" where
  "new_ring k = \<lparr>sr_buf = [], sr_fd = 1, sr_io = k\<rparr>"

text \<open>
  Claim C37. Buffered output refines a stream: on a kernel that accepts output, any sequence of buffered writes returns
  with never more than 65536 bytes waiting, and the bytes written so far followed by the waiting ones are all bytes
  in the order of the calls, whatever their descriptors. When all writes were to standard output and
  standard error, the flush at exit leaves exactly this stream with the kernel.
\<close>

theorem buffered_output_refines:
  assumes "write_ok k" "interrupts_end k" "writable k" "io_log k = []"
  shows "\<exists>g. write_all ws (new_ring k) = Some g \<and> length (sr_buf g) \<le> 65536
    \<and> io_log (sr_io g) @ tagged (sr_fd g) (sr_buf g) = concat (map (\<lambda>(fd, bs). tagged fd bs) ws)
    \<and> (fst ` set ws \<subseteq> {1, 2} \<longrightarrow>
        (\<exists>g'. exit_flush g = Some g' \<and> sr_buf g' = [] \<and> io_log (sr_io g') = concat (map (\<lambda>(fd, bs). tagged fd bs) ws)))"
proof -
  have "ring_ok (new_ring k)"
    using assms by (simp add: ring_ok_def new_ring_def)
  then obtain g where g: "write_all ws (new_ring k) = Some g" "ring_ok g" "sr_fd g \<in> insert 1 (fst ` set ws)"
      "output_of g = concat (map (\<lambda>(fd, bs). tagged fd bs) ws)"
    using write_all_ok [of "new_ring k" ws] assms(4) by (auto simp: new_ring_def output_of_def)
  obtain g1 where g1: "raw_flush 1 g = Some g1" "ring_ok g1" "output_of g1 = output_of g" "sr_fd g1 = sr_fd g" "sr_fd g = 1 \<Longrightarrow> sr_buf g1 = []"
    using flush_ok [OF g(2), of 1] by metis
  obtain g2 where g2: "raw_flush 2 g1 = Some g2" "output_of g2 = output_of g1" "sr_fd g1 = 2 \<Longrightarrow> sr_buf g2 = []" "sr_fd g1 \<noteq> 2 \<Longrightarrow> g2 = g1"
    using flush_ok [OF g1(2), of 2] by metis
  have "fst ` set ws \<subseteq> {1, 2} \<longrightarrow> sr_buf g2 = []"
    using g(3) g1(4,5) g2(3,4) by (cases "sr_fd g1 = 2") auto
  moreover have "exit_flush g = Some g2"
    using g1(1) g2(1) by (simp add: exit_flush_def)
  ultimately show ?thesis
    using g g1(3) g2(2) by (auto simp: ring_ok_def ring_capacity_def output_of_def)
qed

theorem buffered_output_refines_witness:
  "\<exists>g g'. write_all [(1, [10, 20]), (2, [30]), (1, [40])] (new_ring slow_kernel) = Some g \<and> exit_flush g = Some g'
     \<and> io_log (sr_io g') = [(1, 10), (1, 20), (2, 30), (1, 40)]"
  using buffered_output_refines [OF slow_kernel_ok, of "[(1, [10, 20]), (2, [30]), (1, [40])]"]
  by (auto simp: slow_kernel_def tagged_def)

text \<open>What waits for another descriptor is lost at exit.\<close>

lemma exit_loses_other_output:
  "\<exists>g. write_all [(3, [10])] (new_ring slow_kernel) = Some g \<and> exit_flush g = Some g \<and> io_log (sr_io g) = []"
  by (simp add: raw_write_buffered_def raw_flush_def new_ring_def buffer_loop.simps ring_capacity_def Let_def exit_flush_def slow_kernel_def)

end
