(* ===== verification/Sys_Raw.thy ===== *)
theory Sys_Raw
  imports Alloc
begin

text \<open>
  The system layer (\<open>src/src/sys/sys_raw.cpp\<close>) on Linux and x86-64: the memory routines, the allocator that
  gives every block a mapping of its own, system calls and their arguments, and buffered output.
  Memory is a function from addresses to bytes. A system call is its number and what the code puts into
  the argument registers; the kernel is a parameter.
\<close>

unbundle bit_operations_syntax

section \<open>Memory routines\<close>

text \<open>The string instruction: copies byte after byte, upwards.\<close>

fun rep_movsb :: "nat \<Rightarrow> u64 \<Rightarrow> u64 \<Rightarrow> memory \<Rightarrow> memory" where
  "rep_movsb 0 d s m = m"
| "rep_movsb (Suc n) d s m = rep_movsb n (d + 1) (s + 1) (m(d := m s))"

fun rep_stosb :: "nat \<Rightarrow> u64 \<Rightarrow> u8 \<Rightarrow> memory \<Rightarrow> memory" where
  "rep_stosb 0 d v m = m"
| "rep_stosb (Suc n) d v m = rep_stosb n (d + 1) v (m(d := v))"

definition freestanding_memcpy :: "u64 \<Rightarrow> u64 \<Rightarrow> nat \<Rightarrow> memory \<Rightarrow> u64 \<times> memory" where
  "freestanding_memcpy dst src n m = (dst, rep_movsb n dst src m)"

definition freestanding_memset :: "u64 \<Rightarrow> i32 \<Rightarrow> nat \<Rightarrow> memory \<Rightarrow> u64 \<times> memory" where
  "freestanding_memset s c n m = (s, rep_stosb n s (ucast c) m)"

text \<open>One iteration of a copying loop.\<close>

definition copy_byte :: "u64 \<Rightarrow> u64 \<Rightarrow> nat \<Rightarrow> memory \<Rightarrow> memory" where
  "copy_byte d s i m = m(d + of_nat i := m (s + of_nat i))"

definition freestanding_memmove :: "u64 \<Rightarrow> u64 \<Rightarrow> nat \<Rightarrow> memory \<Rightarrow> u64 \<times> memory" where
  "freestanding_memmove d s n m =
     (d, if d < s then fold (copy_byte d s) [0..<n] m
         else if d > s then fold (copy_byte d s) (rev [0..<n]) m
         else m)"

text \<open>The loop of \<open>memcmp\<close> from index \<open>i\<close> with \<open>k\<close> bytes to go; bytes are promoted to \<open>int\<close>.\<close>

fun memcmp_loop :: "memory \<Rightarrow> u64 \<Rightarrow> u64 \<Rightarrow> nat \<Rightarrow> nat \<Rightarrow> int" where
  "memcmp_loop m p1 p2 i 0 = 0"
| "memcmp_loop m p1 p2 i (Suc k) =
     (let a = m (p1 + of_nat i); b = m (p2 + of_nat i) in
      if a \<noteq> b then uint a - uint b else memcmp_loop m p1 p2 (Suc i) k)"

definition freestanding_memcmp :: "u64 \<Rightarrow> u64 \<Rightarrow> nat \<Rightarrow> memory \<Rightarrow> int" where
  "freestanding_memcmp s1 s2 n m = memcmp_loop m s1 s2 0 n"

text \<open>\<open>None\<close> if no zero byte ends the string.\<close>

partial_function (option) strlen_loop :: "memory \<Rightarrow> u64 \<Rightarrow> u64 \<Rightarrow> u64 option" where
  [code]: "strlen_loop m s len = (if s \<noteq> 0 \<and> m (s + len) \<noteq> 0 then strlen_loop m s (len + 1) else Some len)"

definition freestanding_strlen :: "u64 \<Rightarrow> memory \<Rightarrow> u64 option" where
  "freestanding_strlen s m = strlen_loop m s 0"

text \<open>The cache lines that are flushed: from \<open>start & ~63\<close> in steps of 64 while below the end, which may wrap.\<close>

partial_function (option) flush_lines :: "u64 \<Rightarrow> u64 \<Rightarrow> u64 list option" where
  [code]: "flush_lines p limit =
     (if p < limit then Option.bind (flush_lines (p + 64) limit) (\<lambda>ls. Some (p # ls)) else Some [])"

definition clear_icache :: "u64 \<Rightarrow> u64 \<Rightarrow> u64 list option" where
  "clear_icache a len = flush_lines (a AND NOT 63) (a + len)"

section \<open>The meaning of copying\<close>

definition copied :: "u64 \<Rightarrow> u64 \<Rightarrow> nat \<Rightarrow> memory \<Rightarrow> memory" where
  "copied d s n m = store_bytes d (load_bytes s n m) m"

text \<open>Copying upwards is safe: no byte is read after it has been overwritten.\<close>

definition upward_safe :: "u64 \<Rightarrow> u64 \<Rightarrow> nat \<Rightarrow> bool" where
  "upward_safe d s n \<longleftrightarrow> unat d + n \<le> 2 ^ 64 \<and> unat s + n \<le> 2 ^ 64 \<and> (d \<le> s \<or> unat s + n \<le> unat d)"

lemma unat_bound: "unat (x :: u64) < 2 ^ 64"
  using unsigned_less [of x] by simp

lemma length_load_bytes [simp]: "length (load_bytes a n m) = n"
  by (simp add: load_bytes_def)

lemma nth_load_bytes: "i < n \<Longrightarrow> load_bytes a n m ! i = m (a + of_nat i)"
  by (simp add: load_bytes_def)

lemma copied_apply: "copied d s n m x = (if unat (x - d) < n then m (s + (x - d)) else m x)"
  by (simp add: copied_def store_bytes_def nth_load_bytes)

lemma unat_sub_nat:
  assumes "unat (a :: u64) + i < 2 ^ 64"
  shows "unat (a + of_nat i - d) = (if d \<le> a + of_nat i then unat a + i - unat d else 2 ^ 64 + unat a + i - unat d)"
  using assms unat_add_nat [OF assms] by (auto simp: unat_sub_if_size word_le_nat_alt word_size)

lemma upward_unread:
  assumes "upward_safe d s n" "i < n" "k \<le> i"
  shows "k \<le> unat (s + of_nat i - d)"
proof -
  have "unat (s + of_nat i) = unat s + i"
    using assms by (intro unat_add_nat) (auto simp: upward_safe_def)
  then show ?thesis
    using assms unat_bound [of d] unat_sub_nat [of s i d] by (auto simp: upward_safe_def word_le_nat_alt)
qed

text \<open>
  A chunk of \<open>w\<close> bytes read at distance \<open>k\<close> and stored there continues a copy of \<open>k\<close> bytes.
\<close>

lemma copied_chunk:
  assumes "upward_safe d s n" "k + w \<le> n"
  shows "store_bytes (d + of_nat k) (load_bytes (s + of_nat k) w (copied d s k m)) (copied d s k m) = copied d s (k + w) m"
proof (cases "w = 0")
  case False
  then have k: "k < 2 ^ 64" "k + w \<le> 2 ^ 64"
    using assms by (auto simp: upward_safe_def)
  have at: "unat (x - (d + of_nat k)) = (if k \<le> unat (x - d) then unat (x - d) - k else unat (x - d) + 2 ^ 64 - k)" for x
    using k(1) unat_sub_if_size [of "x - d" "of_nat k"] by (simp add: unat_of_nat word_size diff_diff_add)
  have "store_bytes (d + of_nat k) (load_bytes (s + of_nat k) w (copied d s k m)) (copied d s k m) x = copied d s (k + w) m x" for x
  proof (cases "k \<le> unat (x - d) \<and> unat (x - d) < k + w")
    case True
    define i where "i = unat (x - d)"
    have x: "x = d + of_nat i"
      by (simp add: i_def)
    have "k \<le> unat (s + of_nat i - d)"
      using True assms by (intro upward_unread) (auto simp: i_def)
    then have "copied d s k m (s + of_nat i) = m (s + of_nat i)"
      by (simp add: copied_apply)
    moreover have "s + of_nat k + of_nat (i - k) = s + of_nat i"
      using True by (simp add: i_def of_nat_diff)
    ultimately show ?thesis
      using True at [of x] unfolding store_bytes_def copied_apply [of d s "k + w"]
      by (auto simp: nth_load_bytes i_def [symmetric] x)
  next
    case False
    then show ?thesis
      using k at [of x] unat_bound [of "x - d"] by (auto simp: store_bytes_def copied_apply)
  qed
  then show ?thesis
    by blast
qed (simp add: store_bytes_def load_bytes_def)

lemma store_bytes_single: "store_bytes a [v] m = m(a := v)"
proof
  fix x :: u64
  have "unat (x - a) = 0 \<longleftrightarrow> x = a"
    by (simp add: unat_eq_zero)
  then show "store_bytes a [v] m x = (m(a := v)) x"
    by (simp add: store_bytes_def)
qed

lemma copy_byte_step:
  assumes "upward_safe d s n" "k < n"
  shows "copy_byte d s k (copied d s k m) = copied d s (Suc k) m"
  using copied_chunk [OF assms(1), of k 1 m] assms(2)
  by (simp add: copy_byte_def store_bytes_single load_bytes_def)

lemma copied_0 [simp]: "copied d s 0 m = m"
  by (simp add: copied_def store_bytes_def)

lemma copied_self [simp]: "copied d d n m = m"
  by (rule ext) (simp add: copied_apply)

lemma copy_upwards:
  assumes "upward_safe d s n" "k \<le> n"
  shows "fold (copy_byte d s) [k..<n] (copied d s k m) = copied d s n m"
  using assms(2)
proof (induction rule: inc_induct)
  case (step k)
  then show ?case
    by (simp add: upt_conv_Cons copy_byte_step [OF assms(1)])
qed simp

lemma copy_downwards:
  assumes "s < d" "unat d + n \<le> 2 ^ 64"
  shows "fold (copy_byte d s) (rev [0..<n]) m = copied d s n m"
  using assms(2)
proof (induction n arbitrary: m)
  case (Suc n)
  have d: "unat (d + of_nat n) = unat d + n" "unat (s + of_nat n) = unat s + n"
    using Suc.prems assms(1) by (auto simp: word_less_nat_alt intro!: unat_add_nat)
  have "copied d s n (copy_byte d s n m) x = copied d s (Suc n) m x" for x
  proof (cases "unat (x - d) < n")
    case True
    define i where "i = unat (x - d)"
    have x: "x = d + of_nat i" and i: "i < n"
      using True by (simp_all add: i_def)
    have "unat (s + of_nat i) = unat s + i"
      using Suc.prems assms(1) i by (auto simp: word_less_nat_alt intro!: unat_add_nat)
    then have "s + of_nat i \<noteq> d + of_nat n"
      using assms(1) d i by (metis add_less_mono less_irrefl word_less_nat_alt)
    then show ?thesis
      using True by (simp add: copied_apply copy_byte_def i_def [symmetric] x)
  next
    case False
    have "x = d + of_nat n \<longleftrightarrow> unat (x - d) = n"
    proof
      assume "unat (x - d) = n"
      then have "of_nat n = x - d"
        by auto
      then show "x = d + of_nat n"
        by simp
    qed (use Suc.prems in \<open>simp add: unat_of_nat\<close>)
    then show ?thesis
      using False by (auto simp: copied_apply copy_byte_def less_Suc_eq)
  qed
  then show ?case
    using Suc.IH [of "copy_byte d s n m"] Suc.prems by (simp add: fun_eq_iff)
qed simp

lemma rep_movsb_copies: "upward_safe d s n \<Longrightarrow> rep_movsb n d s m = copied d s n m"
proof -
  have *: "rep_movsb k (d + of_nat i) (s + of_nat i) m' = fold (copy_byte d s) [i..<i + k] m'" for i k m'
  proof (induction k arbitrary: i m')
    case (Suc k)
    have up: "[i..<i + Suc k] = i # [Suc i..<Suc i + k]"
      by (simp add: upt_conv_Cons)
    have "rep_movsb (Suc k) (d + of_nat i) (s + of_nat i) m' = rep_movsb k (d + of_nat (Suc i)) (s + of_nat (Suc i)) (copy_byte d s i m')"
      by (simp add: copy_byte_def algebra_simps)
    also have "\<dots> = fold (copy_byte d s) [Suc i..<Suc i + k] (copy_byte d s i m')"
      by (rule Suc.IH)
    finally show ?case
      unfolding up by simp
  qed simp
  assume "upward_safe d s n"
  then show ?thesis
    using * [of n 0 m] copy_upwards [of d s n 0 m] by simp
qed

lemma rep_stosb_stores: "n \<le> 2 ^ 64 \<Longrightarrow> rep_stosb n d v m = store_bytes d (replicate n v) m"
proof (induction n arbitrary: d m)
  case (Suc n)
  have "store_bytes (d + 1) (replicate n v) (m(d := v)) x = store_bytes d (replicate (Suc n) v) m x" for x
  proof (cases "x = d")
    case False
    then have "unat (x - d) = Suc (unat (x - (d + 1)))"
      using unat_minus_one [of "x - d"] unat_gt_0 [of "x - d"] by (simp add: diff_diff_add)
    then show ?thesis
      using False by (simp add: store_bytes_def del: replicate_Suc)
  next
    case True
    have "unat (- 1 :: u64) = 2 ^ 64 - 1"
      by (simp add: unsigned_minus_1_eq_mask mask_eq_exp_minus_1)
    then have "unat (d - (d + 1)) = 2 ^ 64 - 1"
      by simp
    then show ?thesis
      using True Suc.prems by (simp add: store_bytes_def)
  qed
  then show ?case
    using Suc by (simp add: fun_eq_iff)
qed (simp add: store_bytes_def)

text \<open>
  Claim C34. \<open>memmove\<close> copies correctly whatever the overlap: for ranges that do not wrap around the
  address space, the destination then holds the bytes the source had before, and no other
  byte of memory changes.
\<close>

theorem memmove_correct:
  assumes "unat d + n \<le> 2 ^ 64" "unat s + n \<le> 2 ^ 64"
  shows "freestanding_memmove d s n m = (d, store_bytes d (load_bytes s n m) m)"
proof (cases "s < d")
  case True
  then show ?thesis
    using copy_downwards [of s d n m] assms by (auto simp: freestanding_memmove_def copied_def)
next
  case False
  then have "upward_safe d s n"
    using assms by (auto simp: upward_safe_def)
  then have "fold (copy_byte d s) [0..<n] m = copied d s n m"
    using copy_upwards [of d s n 0 m] by simp
  moreover have "store_bytes s (load_bytes s n m) m = m"
    using copied_self [of s n m] unfolding copied_def .
  ultimately show ?thesis
    using False by (auto simp: freestanding_memmove_def copied_def)
qed

theorem memmove_correct_witness:
  "load_bytes 2 4 (snd (freestanding_memmove 2 0 4 (\<lambda>a. ucast a))) = [0, 1, 2, 3]
   \<and> load_bytes 2 4 (snd (freestanding_memcpy 2 0 4 (\<lambda>a. ucast a))) = [0, 1, 0, 1]"
proof -
  have "freestanding_memmove 2 0 4 (\<lambda>a. ucast a) = (2, store_bytes 2 (load_bytes 0 4 (\<lambda>a. ucast a)) (\<lambda>a. ucast a))"
    by (rule memmove_correct) simp_all
  moreover have "load_bytes 0 4 (\<lambda>a :: u64. ucast a :: u8) = [0, 1, 2, 3]"
    by code_simp
  moreover have "load_bytes 2 4 (snd (freestanding_memcpy 2 0 4 (\<lambda>a. ucast a))) = [0, 1, 0, 1]"
    by code_simp
  ultimately show ?thesis
    by (simp add: load_store_same)
qed

text \<open>What the code relies on in a copying routine, for sizes below a limit; \<open>None\<close> is a routine that does not return.\<close>

locale byte_copier =
  fixes copy :: "u64 \<Rightarrow> u64 \<Rightarrow> nat \<Rightarrow> memory \<Rightarrow> (u64 \<times> memory) option" and limit :: nat
  assumes copies: "upward_safe d s n \<Longrightarrow> n < limit \<Longrightarrow> copy d s n m = Some (d, copied d s n m)"
begin

lemma copy_contents:
  assumes "upward_safe d s n" "n < limit" "copy d s n m = Some (r, m')"
  shows "r = d" "load_bytes d n m' = load_bytes s n m" "unat x \<notin> span d n \<Longrightarrow> m' x = m x"
  using assms copies [OF assms(1,2)] by (auto simp: copied_def upward_safe_def load_store_same store_bytes_other)

end

interpretation rep: byte_copier "\<lambda>d s n m. Some (freestanding_memcpy d s n m)" "2 ^ 64"
  by unfold_locales (simp add: freestanding_memcpy_def rep_movsb_copies)

interpretation move: byte_copier "\<lambda>d s n m. Some (freestanding_memmove d s n m)" "2 ^ 64"
proof unfold_locales
  fix d s n m
  assume u: "upward_safe d s n"
  then have "fold (copy_byte d s) [0..<n] m = copied d s n m"
    using copy_upwards [of d s n 0 m] by simp
  moreover have "s < d \<Longrightarrow> fold (copy_byte d s) (rev [0..<n]) m = copied d s n m"
    using u by (intro copy_downwards) (simp_all add: upward_safe_def)
  ultimately show "Some (freestanding_memmove d s n m) = Some (d, copied d s n m)"
    by (cases "d = s") (auto simp: freestanding_memmove_def)
qed

text \<open>\<open>memcmp\<close> compares like the lexicographic order: the sign of its result is that of the first difference.\<close>

lemma memcmp_loop_lists:
  "memcmp_loop m p q i k =
     (case dropWhile (\<lambda>(a, b). a = b) (zip (load_bytes (p + of_nat i) k m) (load_bytes (q + of_nat i) k m)) of
        [] \<Rightarrow> 0 | (a, b) # _ \<Rightarrow> uint a - uint b)"
proof (induction k arbitrary: i)
  case (Suc k)
  have l: "load_bytes a (Suc k) m = m a # load_bytes (a + 1) k m" for a
    using load_bytes_append [of a 1 k m] by (simp add: load_bytes_def)
  show ?case
    using Suc.IH [of "Suc i"] by (simp add: l Let_def algebra_simps)
qed (simp add: load_bytes_def)

lemma memcmp_equal: "freestanding_memcmp p q n m = 0 \<longleftrightarrow> load_bytes p n m = load_bytes q n m"
proof -
  have "length xs = length ys \<Longrightarrow>
      (case dropWhile (\<lambda>(a, b). a = b) (zip xs ys) of [] \<Rightarrow> 0 | (a, b) # _ \<Rightarrow> uint a - uint b) = 0 \<longleftrightarrow> xs = ys" for xs ys :: bytes
    by (induction xs ys rule: list_induct2) (auto dest: unsigned_word_eqI)
  then show ?thesis
    using memcmp_loop_lists [of m p q 0 n] by (simp add: freestanding_memcmp_def)
qed

lemma strlen_first_zero:
  assumes "s \<noteq> 0" "m (s + len + of_nat k) = 0" "\<forall>j<k. m (s + len + of_nat j) \<noteq> 0"
  shows "strlen_loop m s len = Some (len + of_nat k)"
  using assms(2,3)
proof (induction k arbitrary: len)
  case 0
  then show ?case
    by (simp add: strlen_loop.simps [of m s len])
next
  case (Suc k)
  have "m (s + len) \<noteq> 0"
    using Suc.prems(2) by auto
  moreover have "\<forall>j<k. m (s + (len + 1) + of_nat j) \<noteq> 0"
  proof (intro allI impI)
    fix j assume "j < k"
    then show "m (s + (len + 1) + of_nat j) \<noteq> 0"
      using Suc.prems(2) [rule_format, of "Suc j"] by (simp add: algebra_simps)
  qed
  ultimately show ?case
    using Suc.IH [of "len + 1"] Suc.prems(1) assms(1) by (simp add: strlen_loop.simps [of m s len] algebra_simps)
qed

lemma flush_lines_cover:
  assumes "unat limit + 64 < 2 ^ 64"
  shows "\<exists>ls. flush_lines p limit = Some ls \<and> (\<forall>x. unat p \<le> x \<and> x < unat limit \<longrightarrow> (\<exists>l\<in>set ls. unat l \<le> x \<and> x < unat l + 64))"
proof (induction "unat limit - unat p" arbitrary: p rule: less_induct)
  case less
  show ?case
  proof (cases "p < limit")
    case True
    have n: "unat (p + 64) = unat p + 64"
      using True assms unat_add_nat [of p 64] by (simp add: word_less_nat_alt)
    have "unat limit - unat (p + 64) < unat limit - unat p"
      using True n by (simp add: word_less_nat_alt)
    from less [OF this] obtain ls where ls: "flush_lines (p + 64) limit = Some ls"
        "\<forall>x. unat p + 64 \<le> x \<and> x < unat limit \<longrightarrow> (\<exists>l\<in>set ls. unat l \<le> x \<and> x < unat l + 64)"
      by (auto simp: n)
    have "\<exists>l\<in>set (p # ls). unat l \<le> x \<and> x < unat l + 64" if "unat p \<le> x" "x < unat limit" for x
      using ls(2) that by (cases "x < unat p + 64") auto
    moreover have "flush_lines p limit = Some (p # ls)"
      using True ls(1) by (simp add: flush_lines.simps [of p])
    ultimately show ?thesis
      by blast
  next
    case False
    then show ?thesis
      by (simp add: flush_lines.simps [of p] word_less_nat_alt)
  qed
qed

text \<open>Every byte of new code lies in a cache line that is flushed.\<close>

lemma clear_icache_covers:
  assumes "unat a + unat len + 64 < 2 ^ 64"
  shows "\<exists>ls. clear_icache a len = Some ls \<and> (\<forall>x\<in>span a (unat len). \<exists>l\<in>set ls. unat l \<le> x \<and> x < unat l + 64)"
proof -
  have "unat (a + len) = unat a + unat len"
    using assms by (intro unat_add) simp
  moreover have "unat (a AND NOT 63) \<le> unat a"
    using unat_and_not_mask [of a 6] by (simp add: mask_eq_exp_minus_1)
  ultimately show ?thesis
    using flush_lines_cover [of "a + len" "a AND NOT 63"] assms by (fastforce simp: clear_icache_def span_def)
qed

section \<open>The allocator\<close>

text \<open>
  A block is a mapping of its own with its size in the first eight bytes. The kernel is that of
  \<^theory_text>\<open>Alloc\<close>; addresses from \<open>-4095\<close> on are error codes.
\<close>

record Runtime =
  rt_os :: OS
  rt_mem :: memory

definition error_code :: "u64 \<Rightarrow> bool" where
  "error_code p \<longleftrightarrow> - 4095 \<le> p"

definition header :: "u64 \<Rightarrow> memory \<Rightarrow> u64" where
  "header real_ptr m = of_nbytes 8 (load_bytes real_ptr 8 m)"

definition sys_malloc :: "u64 \<Rightarrow> Runtime \<Rightarrow> u64 \<times> Runtime" where
  "sys_malloc size0 r =
     (let sz = (if size0 = 0 then 1 else size0); total = sz + 8 in
      case raw_mmap total (rt_os r) of
        (None, s) \<Rightarrow> (0, r\<lparr>rt_os := s\<rparr>)
      | (Some p, s) \<Rightarrow>
          if p = 0 \<or> error_code p then (0, r\<lparr>rt_os := s\<rparr>)
          else (p + 8, r\<lparr>rt_os := s, rt_mem := store_bytes p (le64 sz) (rt_mem r)\<rparr>))"

definition sys_free :: "u64 \<Rightarrow> Runtime \<Rightarrow> Runtime" where
  "sys_free p r =
     (if p \<noteq> 0 \<and> \<not> error_code p then
        (let real_ptr = p - 8 in r\<lparr>rt_os := raw_munmap real_ptr (header real_ptr (rt_mem r) + 8) (rt_os r)\<rparr>)
      else r)"

definition sys_realloc :: "u64 \<Rightarrow> u64 \<Rightarrow> Runtime \<Rightarrow> u64 \<times> Runtime" where
  "sys_realloc p sz r =
     (if p = 0 then sys_malloc sz r
      else if sz = 0 then (0, sys_free p r)
      else
        (let old_size = header (p - 8) (rt_mem r) in
         case sys_malloc sz r of (q, r1) \<Rightarrow>
           if q \<noteq> 0 then
             (let copy_size = (if old_size < sz then old_size else sz) in
              (q, sys_free p (r1\<lparr>rt_mem := snd (freestanding_memcpy q p (unat copy_size) (rt_mem r1))\<rparr>)))
           else (q, r1)))"

text \<open>A live block of \<open>n\<close> bytes at \<open>p\<close>.\<close>

definition block_at :: "u64 \<Rightarrow> u64 \<Rightarrow> Runtime \<Rightarrow> bool" where
  "block_at p n r \<longleftrightarrow> (p - 8, n + 8) \<in> set (os_live (rt_os r)) \<and> header (p - 8) (rt_mem r) = n
     \<and> 0 < unat (p - 8) \<and> unat (p - 8) + unat n + 8 \<le> 2 ^ 47"

definition block_bytes :: "u64 \<Rightarrow> u64 \<Rightarrow> Runtime \<Rightarrow> bytes" where
  "block_bytes p n r = load_bytes p (unat n) (rt_mem r)"

lemma header_stored: "header p (store_bytes p (le64 n) m) = n"
  using of_nbytes_le64 [of n "[]"] by (simp add: header_def load_store_same)

lemma block_addr:
  assumes "block_at p n r"
  shows "unat p = unat (p - 8) + 8" "unat p + unat n \<le> 2 ^ 47" "unat (n + 8) = unat n + 8" "p \<noteq> 0" "\<not> error_code p"
proof -
  show p: "unat p = unat (p - 8) + 8"
    using assms unat_add_nat [of "p - 8" 8] by (simp add: block_at_def)
  then show "unat p + unat n \<le> 2 ^ 47" "p \<noteq> 0"
    using assms by (auto simp: block_at_def)
  show "unat (n + 8) = unat n + 8"
    using assms unat_add_nat [of n 8] by (simp add: block_at_def)
  show "\<not> error_code p"
    using assms p by (simp add: block_at_def error_code_def word_le_nat_alt)
qed

lemma header_cong:
  assumes "unat p + 8 \<le> 2 ^ 64" "\<And>x. unat x \<in> span p 8 \<Longrightarrow> m' x = m x"
  shows "header p m' = header p m"
  using load_bytes_cong [OF assms] by (simp add: header_def)

text \<open>What \<open>malloc\<close> gives: a new block, apart from every live mapping, with all old memory unchanged.\<close>

lemma malloc_block:
  assumes "mmap_ok (os_mmap (rt_os r))" "sys_malloc sz r = (p, r')" "p \<noteq> 0" "sz + 8 \<ge> 8"
  defines "n \<equiv> if sz = 0 then 1 else sz"
  shows "block_at p n r'" "os_live (rt_os r') = (p - 8, n + 8) # os_live (rt_os r)"
    "rt_mem r' = store_bytes (p - 8) (le64 n) (rt_mem r)"
    "\<forall>(q, k) \<in> set (os_live (rt_os r)). span (p - 8) (unat (n + 8)) \<inter> span q (unat k) = {}"
proof -
  obtain s where s: "raw_mmap (n + 8) (rt_os r) = (Some (p - 8), s)"
    "r' = r\<lparr>rt_os := s, rt_mem := store_bytes (p - 8) (le64 n) (rt_mem r)\<rparr>"
    using assms(2,3) by (auto simp: sys_malloc_def Let_def n_def split: prod.splits option.splits if_splits)
  note m = raw_mmap_ok [OF assms(1) s(1)]
  have n: "unat (n + 8) = unat n + 8"
    using assms(4) unat_bound [of n] by (auto simp: n_def word_le_nat_alt unat_word_ariths mod_if split: if_splits)
  show "block_at p n r'"
    using m n by (simp add: block_at_def s(2) header_stored)
  show "os_live (rt_os r') = (p - 8, n + 8) # os_live (rt_os r)" "rt_mem r' = store_bytes (p - 8) (le64 n) (rt_mem r)"
    "\<forall>(q, k) \<in> set (os_live (rt_os r)). span (p - 8) (unat (n + 8)) \<inter> span q (unat k) = {}"
    using m by (simp_all add: s(2))
qed

lemma block_kept:
  assumes "block_at b k r" "(b - 8, k + 8) \<in> set (os_live (rt_os r'))"
    and "\<And>x. unat x \<in> span (b - 8) (unat (k + 8)) \<Longrightarrow> rt_mem r' x = rt_mem r x"
  shows "block_at b k r' \<and> block_bytes b k r' = block_bytes b k r"
proof
  note b = block_addr [OF assms(1)]
  have "header (b - 8) (rt_mem r') = header (b - 8) (rt_mem r)"
    using assms(1,3) b(3) by (intro header_cong) (auto simp: block_at_def span_def)
  then show "block_at b k r'"
    using assms(1,2) by (simp add: block_at_def)
  have "load_bytes b (unat k) (rt_mem r') = load_bytes b (unat k) (rt_mem r)"
  proof (rule load_bytes_cong)
    fix x :: u64
    assume "unat x \<in> span b (unat k)"
    then show "rt_mem r' x = rt_mem r x"
      using assms(3) b(1,3) by (auto simp: span_def)
  qed (use b in simp)
  then show "block_bytes b k r' = block_bytes b k r"
    by (simp add: block_bytes_def)
qed

lemma free_block: "block_at p n r \<Longrightarrow> sys_free p r = r\<lparr>rt_os := raw_munmap (p - 8) (n + 8) (rt_os r)\<rparr>"
  using block_addr [of p n r] by (simp add: sys_free_def block_at_def)

lemma malloc_null:
  assumes "mmap_ok (os_mmap (rt_os r))" "sys_malloc sz r = (0, r')" "sz + 8 \<ge> 8"
  shows "r' = r"
proof (cases "raw_mmap ((if sz = 0 then 1 else sz) + 8) (rt_os r)")
  case (Pair o' s)
  show ?thesis
  proof (cases o')
    case None
    then have "s = rt_os r"
      using Pair raw_mmap_None by blast
    then show ?thesis
      using Pair None assms(2) by (auto simp: sys_malloc_def Let_def)
  next
    case (Some q)
    note m = raw_mmap_ok [OF assms(1), of _ q s] 
    have "unat q < 2 ^ 47 + 1" "q \<noteq> 0"
      using Pair Some m(2,3) by fastforce+
    then have "unat (q + 8) = unat q + 8" "\<not> error_code q"
      using unat_add_nat [of q 8] by (simp_all add: error_code_def word_le_nat_alt)
    then show ?thesis
      using assms(2) Pair Some \<open>q \<noteq> 0\<close> by (auto simp: sys_malloc_def Let_def)
  qed
qed

text \<open>A new block filled from an old one: both are live, and so is every other block.\<close>

lemma copied_block:
  assumes k: "mmap_ok (os_mmap (rt_os r))" and b: "block_at p n r" and sz: "sz \<noteq> 0" "8 \<le> sz + 8"
    and m: "sys_malloc sz r = (q, r1)" "q \<noteq> 0"
  defines "c \<equiv> min (unat n) (unat sz)"
  defines "r2 \<equiv> r1\<lparr>rt_mem := copied q p c (rt_mem r1)\<rparr>"
  shows "upward_safe q p c" "block_at q sz r2" "load_bytes q c (rt_mem r2) = load_bytes p c (rt_mem r)"
    "(q - 8, sz + 8) \<noteq> (p - 8, n + 8)" "block_at a l r \<Longrightarrow> block_at a l r2 \<and> block_bytes a l r2 = block_bytes a l r"
proof -
  note ba = block_addr [OF b]
  have q: "block_at q sz r1" "os_live (rt_os r1) = (q - 8, sz + 8) # os_live (rt_os r)"
      "rt_mem r1 = store_bytes (q - 8) (le64 sz) (rt_mem r)"
    and apart: "(a, l) \<in> set (os_live (rt_os r)) \<Longrightarrow> span (q - 8) (unat (sz + 8)) \<inter> span a (unat l) = {}" for a l
    using malloc_block [OF k m sz(2)] sz(1) by auto
  note qa = block_addr [OF q(1)]
  have disj: "span (q - 8) (unat (sz + 8)) \<inter> span (p - 8) (unat (n + 8)) = {}"
    using apart [of "p - 8" "n + 8"] b by (simp add: block_at_def)
  have "unat p + unat n \<le> unat q - 8 \<or> unat q + unat sz \<le> unat p - 8"
    using disj ba(1,3) qa(1,3) unfolding span_def by (auto simp: disjoint_iff)
  then show "upward_safe q p c"
    using ba(2) qa(2) by (auto simp: upward_safe_def c_def word_le_nat_alt)
  have old: "rt_mem r2 x = rt_mem r x" if "unat x \<notin> span (q - 8) (unat (sz + 8))" for x
  proof -
    have "unat x \<notin> span q c" "unat x \<notin> span (q - 8) 8"
      using that qa by (auto simp: span_def c_def)
    then show ?thesis
      using qa by (simp add: r2_def copied_def store_bytes_other q(3) c_def)
  qed
  show "block_at a l r2 \<and> block_bytes a l r2 = block_bytes a l r" if "block_at a l r"
    using that apart [of "a - 8" "l + 8"] q(2) by (intro block_kept old) (auto simp: block_at_def r2_def)
  have "header (q - 8) (rt_mem r2) = header (q - 8) (rt_mem r1)"
    using qa q(1) by (intro header_cong) (auto simp: r2_def copied_def store_bytes_other span_def c_def block_at_def)
  then show "block_at q sz r2"
    using q(1) by (simp add: block_at_def r2_def)
  have "load_bytes q c (rt_mem r2) = load_bytes p c (rt_mem r1)"
    using unat_bound [of n] by (simp add: r2_def copied_def load_store_same c_def)
  also have "\<dots> = load_bytes p c (rt_mem r)"
    using disj ba qa by (intro load_bytes_cong) (auto simp: q(3) c_def span_def disjoint_iff intro!: store_bytes_other)
  finally show "load_bytes q c (rt_mem r2) = load_bytes p c (rt_mem r)" .
  show "(q - 8, sz + 8) \<noteq> (p - 8, n + 8)"
    using disj ba(3) by (auto simp: span_def)
qed

text \<open>
  Claim C35. Blocks survive \<open>realloc\<close>. On a kernel that maps as documented, for a live block and a new size that
  is not zero and not within eight of 2^64: either the call returns null and nothing has changed, or
  the new block is live with the smaller of the sizes of old bytes at its start, the old mapping is
  gone, and every other live block is still there with its contents.
\<close>

theorem realloc_keeps_blocks:
  assumes k: "mmap_ok (os_mmap (rt_os r))" and b: "block_at p n r" and sz: "sz \<noteq> 0" "8 \<le> sz + 8"
    and a: "sys_realloc p sz r = (q, r')"
  shows "if q = 0 then r' = r
    else block_at q sz r' \<and> load_bytes q (min (unat n) (unat sz)) (rt_mem r') = load_bytes p (min (unat n) (unat sz)) (rt_mem r)
      \<and> (p - 8, n + 8) \<notin> set (os_live (rt_os r'))
      \<and> (\<forall>b k. block_at b k r \<and> (b, k) \<noteq> (p, n) \<longrightarrow> block_at b k r' \<and> block_bytes b k r' = block_bytes b k r)"
proof -
  obtain q1 r1 where m: "sys_malloc sz r = (q1, r1)"
    by fastforce
  have p: "header (p - 8) (rt_mem r) = n" "p \<noteq> 0"
    using b block_addr [OF b] by (auto simp: block_at_def)
  show ?thesis
  proof (cases "q1 = 0")
    case True
    then show ?thesis
      using a m malloc_null [OF k] sz p by (simp add: sys_realloc_def Let_def)
  next
    case False
    define c where "c = min (unat n) (unat sz)"
    define r2 where "r2 = r1\<lparr>rt_mem := copied q1 p c (rt_mem r1)\<rparr>"
    note cb = copied_block [OF k b sz m False, folded c_def, folded r2_def]
    have "unat (if n < sz then n else sz) = c"
      by (auto simp: c_def min_def word_less_nat_alt)
    then have "q = q1" "r' = sys_free p r2"
      using a m False sz p rep_movsb_copies [OF cb(1)] by (auto simp: sys_realloc_def Let_def r2_def freestanding_memcpy_def)
    moreover have "sys_free p r2 = r2\<lparr>rt_os := raw_munmap (p - 8) (n + 8) (rt_os r2)\<rparr>"
      using free_block [of p n r2] cb(5) [OF b] by simp
    ultimately show ?thesis
      using False cb(2-5) unfolding c_def [symmetric]
      by (auto simp: raw_munmap_def block_at_def block_bytes_def)
  qed
qed

lemmas runtime_eval = sys_malloc_def raw_mmap_def mmap_failed_def upward_mmap_def align_up_def error_code_def Let_def

definition sample_runtime :: Runtime where
  "sample_runtime = \<lparr>rt_os = \<lparr>os_mmap = upward_mmap, os_live = [(4096, 11)]\<rparr>,
     rt_mem = store_bytes 4104 [1, 2, 3] (store_bytes 4096 (le64 3) (\<lambda>_. 0))\<rparr>"

theorem realloc_keeps_blocks_witness:
  "\<exists>q r'. sys_realloc 4104 2 sample_runtime = (q, r') \<and> q \<noteq> 0 \<and> block_at q 2 r' \<and> load_bytes q 2 (rt_mem r') = [1, 2]"
proof -
  have hd: "header 4096 (rt_mem sample_runtime) = 3"
  proof -
    have "header 4096 (rt_mem sample_runtime) = header 4096 (store_bytes 4096 (le64 3) (\<lambda>_. 0))"
      by (rule header_cong) (auto simp: sample_runtime_def span_def intro!: store_bytes_other)
    then show ?thesis
      by (simp add: header_stored)
  qed
  have "load_bytes 4104 2 (rt_mem sample_runtime) = take 2 (load_bytes 4104 3 (rt_mem sample_runtime))"
    by (rule load_bytes_prefix) simp
  then have "load_bytes 4104 2 (rt_mem sample_runtime) = [1, 2]"
    by (simp add: sample_runtime_def load_store_same)
  moreover have "block_at 4104 3 sample_runtime"
    using hd by (simp add: block_at_def sample_runtime_def)
  moreover have "fst (sys_realloc 4104 2 sample_runtime) = 8200"
    by (simp add: sys_realloc_def hd runtime_eval sample_runtime_def [THEN arg_cong, of rt_os] split: prod.splits)
  ultimately show ?thesis
    using realloc_keeps_blocks [of sample_runtime 4104 3 2 8200 "snd (sys_realloc 4104 2 sample_runtime)"] upward_mmap_ok
    by (cases "sys_realloc 4104 2 sample_runtime") (simp add: sample_runtime_def [THEN arg_cong, of rt_os])
qed

text \<open>
  The size of the header is added without a test: a request within eight bytes of 2^64 succeeds
  with a mapping of a few bytes.
\<close>

lemma malloc_size_wraps:
  "fst (sys_malloc (- 1) \<lparr>rt_os = \<lparr>os_mmap = upward_mmap, os_live = []\<rparr>, rt_mem = m\<rparr>) = 4104
   \<and> os_live (rt_os (snd (sys_malloc (- 1) \<lparr>rt_os = \<lparr>os_mmap = upward_mmap, os_live = []\<rparr>, rt_mem = m\<rparr>))) = [(4096, 7)]"
  by (simp add: runtime_eval)

end
