(* ===== verification/Cpu_Features.thy ===== *)
theory Cpu_Features
  imports Sys_Raw
begin

text \<open>
  CPU features and the wide memory routines (\<open>src/src/sys/cpu_features.cpp\<close>) on x86-64. Registers of 256 bits
  are lists of 32 bytes; indices wrap at 64 bits. The processor's answers to \<open>cpuid\<close> and \<open>xgetbv\<close> are parameters.
\<close>

unbundle bit_operations_syntax

section \<open>Memory routines\<close>

definition memcpy_scalar :: "u64 \<Rightarrow> u64 \<Rightarrow> nat \<Rightarrow> memory \<Rightarrow> u64 \<times> memory" where
  "memcpy_scalar dst src n m = (dst, fold (copy_byte dst src) [0..<n] m)"

definition set_byte :: "u64 \<Rightarrow> u8 \<Rightarrow> nat \<Rightarrow> memory \<Rightarrow> memory" where
  "set_byte p c i m = m(p + of_nat i := c)"

definition memset_scalar :: "u64 \<Rightarrow> i32 \<Rightarrow> nat \<Rightarrow> memory \<Rightarrow> u64 \<times> memory" where
  "memset_scalar s c n m = (s, fold (set_byte s (ucast c)) [0..<n] m)"

text \<open>A loop \<open>while (i + w <= n) { body; i += w; }\<close>; the sum may wrap, and then the loop does not end.\<close>

partial_function (option) wide_loop :: "u64 \<Rightarrow> (u64 \<Rightarrow> memory \<Rightarrow> memory) \<Rightarrow> u64 \<Rightarrow> u64 \<Rightarrow> memory \<Rightarrow> (u64 \<times> memory) option" where
  [code]: "wide_loop w body i n m = (if i + w \<le> n then wide_loop w body (i + w) n (body i m) else Some (i, m))"

definition loadu :: "u64 \<Rightarrow> memory \<Rightarrow> bytes" where
  "loadu a m = load_bytes a 32 m"

definition storeu :: "u64 \<Rightarrow> bytes \<Rightarrow> memory \<Rightarrow> memory" where
  "storeu a v m = store_bytes a v m"

definition copy128 :: "u64 \<Rightarrow> u64 \<Rightarrow> u64 \<Rightarrow> memory \<Rightarrow> memory" where
  "copy128 d s i m =
     (let c0 = loadu (s + i) m; c1 = loadu (s + i + 32) m; c2 = loadu (s + i + 64) m; c3 = loadu (s + i + 96) m in
      storeu (d + i + 96) c3 (storeu (d + i + 64) c2 (storeu (d + i + 32) c1 (storeu (d + i) c0 m))))"

definition copy32 :: "u64 \<Rightarrow> u64 \<Rightarrow> u64 \<Rightarrow> memory \<Rightarrow> memory" where
  "copy32 d s i m = storeu (d + i) (loadu (s + i) m) m"

definition memcpy_avx2 :: "u64 \<Rightarrow> u64 \<Rightarrow> nat \<Rightarrow> memory \<Rightarrow> (u64 \<times> memory) option" where
  "memcpy_avx2 d s n m =
     (case wide_loop 128 (copy128 d s) 0 (of_nat n) m of
        None \<Rightarrow> None
      | Some (i, m1) \<Rightarrow>
          (case wide_loop 32 (copy32 d s) i (of_nat n) m1 of
             None \<Rightarrow> None
           | Some (j, m2) \<Rightarrow> Some (d, fold (copy_byte d s) [unat j..<n] m2)))"

definition set128 :: "u64 \<Rightarrow> u8 \<Rightarrow> u64 \<Rightarrow> memory \<Rightarrow> memory" where
  "set128 p c i m =
     (let v = replicate 32 c in storeu (p + i + 96) v (storeu (p + i + 64) v (storeu (p + i + 32) v (storeu (p + i) v m))))"

definition set32 :: "u64 \<Rightarrow> u8 \<Rightarrow> u64 \<Rightarrow> memory \<Rightarrow> memory" where
  "set32 p c i m = storeu (p + i) (replicate 32 c) m"

definition memset_avx2 :: "u64 \<Rightarrow> i32 \<Rightarrow> nat \<Rightarrow> memory \<Rightarrow> (u64 \<times> memory) option" where
  "memset_avx2 p c n m =
     (case wide_loop 128 (set128 p (ucast c)) 0 (of_nat n) m of
        None \<Rightarrow> None
      | Some (i, m1) \<Rightarrow>
          (case wide_loop 32 (set32 p (ucast c)) i (of_nat n) m1 of
             None \<Rightarrow> None
           | Some (j, m2) \<Rightarrow> Some (p, fold (set_byte p (ucast c)) [unat j..<n] m2)))"

text \<open>
  The wide loop on a sequence of memories \<open>M\<close>: when the body leads from the state after \<open>k\<close> bytes to
  the state after \<open>k + w\<close>, the loop ends less than \<open>w\<close> bytes before the end.
\<close>

lemma wide_loop_runs:
  assumes "0 < w" "k \<le> n" "n + w < 2 ^ 64"
    and "\<And>k. k + w \<le> n \<Longrightarrow> body (of_nat k) (M k) = M (k + w)"
  shows "\<exists>j. wide_loop (of_nat w) body (of_nat k) (of_nat n) (M k) = Some (of_nat j, M j) \<and> k \<le> j \<and> j \<le> n \<and> n < j + w"
  using assms(2)
proof (induction "n - k" arbitrary: k rule: less_induct)
  case less
  have c: "of_nat k + of_nat w \<le> (of_nat n :: u64) \<longleftrightarrow> k + w \<le> n"
    using assms(3) less.prems by (simp add: word_le_nat_alt unat_of_nat flip: of_nat_add)
  show ?case
  proof (cases "k + w \<le> n")
    case True
    then have "\<exists>j. wide_loop (of_nat w) body (of_nat (k + w)) (of_nat n) (M (k + w)) = Some (of_nat j, M j) \<and> k + w \<le> j \<and> j \<le> n \<and> n < j + w"
      using assms(1) by (intro less.hyps) auto
    moreover have "wide_loop (of_nat w) body (of_nat k) (of_nat n) (M k) = wide_loop (of_nat w) body (of_nat (k + w)) (of_nat n) (M (k + w))"
      using True c by (subst wide_loop.simps) (simp add: assms(4))
    ultimately show ?thesis
      by auto
  next
    case False
    then show ?thesis
      using less.prems c by (subst wide_loop.simps) auto
  qed
qed

lemma store_bytes_append:
  assumes "length xs + length ys \<le> 2 ^ 64"
  shows "store_bytes (a + of_nat (length xs)) ys (store_bytes a xs m) = store_bytes a (xs @ ys) m"
proof (cases "ys = []")
  case False
  then have k: "length xs < 2 ^ 64"
    using assms by (cases ys) auto
  have at: "unat (x - (a + of_nat (length xs))) = (if length xs \<le> unat (x - a) then unat (x - a) - length xs else unat (x - a) + 2 ^ 64 - length xs)" for x
    using k unat_sub_if_size [of "x - a" "of_nat (length xs)"] by (simp add: unat_of_nat word_size diff_diff_add)
  have "store_bytes (a + of_nat (length xs)) ys (store_bytes a xs m) x = store_bytes a (xs @ ys) m x" for x
    using at [of x] assms k unat_bound [of "x - a"] by (auto simp: store_bytes_def nth_append)
  then show ?thesis
    by blast
qed (simp add: store_bytes_def)

lemma store_four:
  assumes "length a = 32" "length b = 32" "length c = 32" "length e = 32"
  shows "storeu (p + 96) e (storeu (p + 64) c (storeu (p + 32) b (storeu p a m))) = store_bytes p (a @ b @ c @ e) m"
  using store_bytes_append [of a b p m] store_bytes_append [of "a @ b" c p m] store_bytes_append [of "a @ b @ c" e p m] assms
  by (simp add: storeu_def)

lemma copy128_chunk: "copy128 d s i m = store_bytes (d + i) (load_bytes (s + i) 128 m) m"
proof -
  have "load_bytes (s + i) 128 m = loadu (s + i) m @ loadu (s + i + 32) m @ loadu (s + i + 64) m @ loadu (s + i + 96) m"
    using load_bytes_append [of "s + i" 32 96 m] load_bytes_append [of "s + i + 32" 32 64 m] load_bytes_append [of "s + i + 64" 32 32 m]
    by (simp add: loadu_def add.assoc)
  then show ?thesis
    by (simp add: copy128_def Let_def store_four loadu_def)
qed

text \<open>Both wide loops and the tail, for any routine that works through memory in order.\<close>

lemma wide_run:
  assumes "n + 128 < 2 ^ 64"
    and "\<And>k. k + 128 \<le> n \<Longrightarrow> body128 (of_nat k) (M k) = M (k + 128)"
    and "\<And>k. k + 32 \<le> n \<Longrightarrow> body32 (of_nat k) (M k) = M (k + 32)"
  obtains i j where "wide_loop 128 body128 0 (of_nat n) (M 0) = Some (of_nat i, M i)"
    "wide_loop 32 body32 (of_nat i) (of_nat n) (M i) = Some (of_nat j, M j)" "j \<le> n" "unat (of_nat j :: u64) = j"
proof -
  obtain i where i: "wide_loop 128 body128 0 (of_nat n) (M 0) = Some (of_nat i, M i)" "i \<le> n"
    using wide_loop_runs [of 128 0 n body128 M] assms by auto
  then obtain j where j: "wide_loop 32 body32 (of_nat i) (of_nat n) (M i) = Some (of_nat j, M j)" "j \<le> n"
    using wide_loop_runs [of 32 i n body32 M] assms by auto
  moreover have "unat (of_nat j :: u64) = j"
    using j(2) assms(1) by (simp add: unat_of_nat)
  ultimately show ?thesis
    using that i(1) by blast
qed

lemma avx2_copies:
  assumes u: "upward_safe d s n" and n: "n + 128 < 2 ^ 64"
  shows "memcpy_avx2 d s n m = Some (d, copied d s n m)"
proof -
  define M where "M k = copied d s k m" for k
  have "k + 128 \<le> n \<Longrightarrow> copy128 d s (of_nat k) (M k) = M (k + 128)" for k
    using copied_chunk [OF u, of k 128 m] by (simp add: M_def copy128_chunk)
  moreover have "k + 32 \<le> n \<Longrightarrow> copy32 d s (of_nat k) (M k) = M (k + 32)" for k
    using copied_chunk [OF u, of k 32 m] by (simp add: M_def copy32_def loadu_def storeu_def)
  ultimately obtain i j where "wide_loop 128 (copy128 d s) 0 (of_nat n) (M 0) = Some (of_nat i, M i)"
    "wide_loop 32 (copy32 d s) (of_nat i) (of_nat n) (M i) = Some (of_nat j, M j)" "j \<le> n" "unat (of_nat j :: u64) = j"
    using wide_run [OF n] by metis
  then show ?thesis
    using copy_upwards [OF u, of j m] by (simp add: memcpy_avx2_def M_def)
qed

lemma set_upwards:
  assumes "n \<le> 2 ^ 64" "k \<le> n"
  shows "fold (set_byte p c) [k..<n] (store_bytes p (replicate k c) m) = store_bytes p (replicate n c) m"
  using assms(2)
proof (induction rule: inc_induct)
  case (step k)
  have "set_byte p c k (store_bytes p (replicate k c) m) = store_bytes p (replicate (Suc k) c) m"
    using store_bytes_append [of "replicate k c" "[c]" p m] step assms(1)
    by (simp add: set_byte_def store_bytes_single replicate_append_same)
  then show ?case
    using step by (simp add: upt_conv_Cons)
qed simp

lemma avx2_sets:
  assumes n: "n + 128 < 2 ^ 64"
  shows "memset_avx2 p c n m = Some (p, store_bytes p (replicate n (ucast c)) m)"
proof -
  define v :: u8 where "v = ucast c"
  define M where "M k = store_bytes p (replicate k v) m" for k
  have chunk: "store_bytes (p + of_nat k) (replicate w v) (M k) = M (k + w)" if "k + w \<le> n" for k w
    using store_bytes_append [of "replicate k v" "replicate w v" p m] that n by (simp add: M_def replicate_add)
  have "replicate 128 v = replicate 32 v @ replicate 32 v @ replicate 32 v @ replicate 32 v"
    by (simp flip: replicate_add)
  then have "k + 128 \<le> n \<Longrightarrow> set128 p v (of_nat k) (M k) = M (k + 128)" for k
    using chunk [of k 128] by (simp add: set128_def Let_def store_four)
  moreover have "k + 32 \<le> n \<Longrightarrow> set32 p v (of_nat k) (M k) = M (k + 32)" for k
    using chunk [of k 32] by (simp add: set32_def storeu_def)
  ultimately obtain i j where "wide_loop 128 (set128 p v) 0 (of_nat n) (M 0) = Some (of_nat i, M i)"
    "wide_loop 32 (set32 p v) (of_nat i) (of_nat n) (M i) = Some (of_nat j, M j)" "j \<le> n" "unat (of_nat j :: u64) = j"
    using wide_run [OF n] by metis
  moreover have "M 0 = m"
    by (simp add: M_def store_bytes_def)
  ultimately show ?thesis
    using set_upwards [of n j p v m] n by (simp add: memset_avx2_def M_def v_def [symmetric])
qed

interpretation scalar: byte_copier "\<lambda>d s n m. Some (memcpy_scalar d s n m)" "2 ^ 64"
proof unfold_locales
  fix d s n m
  assume "upward_safe d s n"
  then show "Some (memcpy_scalar d s n m) = Some (d, copied d s n m)"
    using copy_upwards [of d s n 0 m] by (simp add: memcpy_scalar_def)
qed

interpretation avx2: byte_copier memcpy_avx2 "2 ^ 64 - 128"
  by unfold_locales (simp add: avx2_copies)

text \<open>
  Claim C38. The wide routines are the scalar ones: for sizes at least 128 below 2^64, \<open>memset_avx2\<close> returns and does what
  \<open>memset_scalar\<close> does, and so does \<open>memcpy_avx2\<close> for ranges that do not wrap around and
  where the destination starts no later than the source or after its end. The copies also agree with \<open>memmove\<close> then.
\<close>

theorem wide_routines_scalar:
  assumes "n + 128 < 2 ^ 64"
  shows "memset_avx2 p c n m = Some (memset_scalar p c n m)
    \<and> (upward_safe d s n \<longrightarrow> memcpy_avx2 d s n m = Some (memcpy_scalar d s n m)
        \<and> memcpy_scalar d s n m = freestanding_memmove d s n m \<and> memcpy_scalar d s n m = freestanding_memcpy d s n m)"
proof -
  have "memset_scalar p c n m = (p, store_bytes p (replicate n (ucast c)) m)"
    using set_upwards [of n 0 p "ucast c" m] assms by (simp add: memset_scalar_def) (simp add: store_bytes_def)
  then show ?thesis
    using avx2_sets [OF assms] avx2.copies scalar.copies move.copies rep.copies assms by auto
qed

theorem wide_routines_scalar_witness:
  "memcpy_avx2 0 4096 300 (\<lambda>_. 0) = Some (memcpy_scalar 0 4096 300 (\<lambda>_. 0)) \<and> memset_avx2 0 7 300 (\<lambda>_. 0) = Some (memset_scalar 0 7 300 (\<lambda>_. 0))"
proof -
  have "upward_safe 0 4096 300"
    by (simp add: upward_safe_def)
  then show ?thesis
    using wide_routines_scalar [of 300 0 7 "\<lambda>_. 0" 0 4096] by simp
qed

section \<open>Detection\<close>

record CpuFeatures =
  avx512f :: bool
  avx2 :: bool
  sse2 :: bool
  neon :: bool

record CpuidRegs =
  out_a :: u32
  out_b :: u32
  out_c :: u32
  out_d :: u32

datatype memory_impl = ScalarImpl | Avx2Impl

text \<open>The features and the routines that are installed.\<close>

definition detect_cpu_features :: "(u32 \<Rightarrow> u32 \<Rightarrow> CpuidRegs) \<Rightarrow> u64 \<Rightarrow> CpuFeatures \<times> memory_impl" where
  "detect_cpu_features cpuid xgetbv0 =
     (let max_leaf = out_a (cpuid 0 0);
          f0 = \<lparr>avx512f = False, avx2 = False, sse2 = False, neon = False\<rparr>;
          f = (if 1 \<le> max_leaf then
                 (let r = cpuid 1 0; f1 = f0\<lparr>sse2 := out_d r AND push_bit 26 1 \<noteq> 0\<rparr>;
                      osxsave = (out_c r AND push_bit 27 1 \<noteq> 0); avx_cpu = (out_c r AND push_bit 28 1 \<noteq> 0);
                      ymm_enabled = (osxsave \<and> xgetbv0 AND 0x6 = 0x6);
                      zmm_enabled = (osxsave \<and> ymm_enabled \<and> xgetbv0 AND 0xE0 = 0xE0) in
                  if 7 \<le> max_leaf then
                    (let r7 = cpuid 7 0 in
                     f1\<lparr>avx2 := avx_cpu \<and> ymm_enabled \<and> out_b r7 AND push_bit 5 1 \<noteq> 0,
                        avx512f := zmm_enabled \<and> out_b r7 AND push_bit 16 1 \<noteq> 0\<rparr>)
                  else f1)
               else f0) in
      (f, if False \<and> avx2 f then Avx2Impl else ScalarImpl))"

text \<open>
  A feature is reported only where the processor has it and the system saves its registers; the wide routines
  are never installed.
\<close>

lemma detected_features_usable:
  assumes "detect_cpu_features cpuid xcr0 = (f, impl)"
  shows "avx2 f \<Longrightarrow> 7 \<le> out_a (cpuid 0 0) \<and> bit (out_b (cpuid 7 0)) 5 \<and> bit (out_c (cpuid 1 0)) 28 \<and> bit (out_c (cpuid 1 0)) 27 \<and> bit xcr0 1 \<and> bit xcr0 2"
    "avx512f f \<Longrightarrow> 7 \<le> out_a (cpuid 0 0) \<and> bit (out_b (cpuid 7 0)) 16 \<and> bit (out_c (cpuid 1 0)) 27 \<and> (\<forall>i\<in>{1, 2, 5, 6, 7}. bit xcr0 i)"
    "impl = ScalarImpl"
proof -
  have b: "w AND push_bit n 1 = 0 \<longleftrightarrow> \<not> bit w n" if "n < 32" for w :: u32 and n
    using that by (simp add: and_exp_eq_0_iff_not_bit push_bit_of_1)
  have masks: "w AND 0x20 = 0 \<longleftrightarrow> \<not> bit w 5" "w AND 0x10000 = 0 \<longleftrightarrow> \<not> bit w 16" "w AND 0x8000000 = 0 \<longleftrightarrow> \<not> bit w 27"
      "w AND 0x10000000 = 0 \<longleftrightarrow> \<not> bit w 28" for w :: u32
    using b [of 5 w] b [of 16 w] b [of 27 w] b [of 28 w] by simp_all
  have six: "bit w 1 \<and> bit w 2" if "w AND 0x6 = 0x6" for w :: u64
  proof -
    have "bit (w AND 0x6) 1 = bit (0x6 :: u64) 1" "bit (w AND 0x6) 2 = bit (0x6 :: u64) 2"
      using that by simp_all
    then show ?thesis
      by (simp add: bit_and_iff)
  qed
  have e0: "bit w 5 \<and> bit w 6 \<and> bit w 7" if "w AND 0xE0 = 0xE0" for w :: u64
  proof -
    have "bit (w AND 0xE0) i = bit (0xE0 :: u64) i" for i
      using that by simp
    from this [of 5] this [of 6] this [of 7] show ?thesis
      by (simp add: bit_and_iff)
  qed
  show "avx2 f \<Longrightarrow> 7 \<le> out_a (cpuid 0 0) \<and> bit (out_b (cpuid 7 0)) 5 \<and> bit (out_c (cpuid 1 0)) 28 \<and> bit (out_c (cpuid 1 0)) 27 \<and> bit xcr0 1 \<and> bit xcr0 2"
    "avx512f f \<Longrightarrow> 7 \<le> out_a (cpuid 0 0) \<and> bit (out_b (cpuid 7 0)) 16 \<and> bit (out_c (cpuid 1 0)) 27 \<and> (\<forall>i\<in>{1, 2, 5, 6, 7}. bit xcr0 i)"
    "impl = ScalarImpl"
    using assms six e0 by (auto simp: detect_cpu_features_def Let_def masks split: if_splits)
qed

end
