(* ===== verification/Debugger.thy ===== *)
theory Debugger
  imports Parser Ir_Flow
begin

text \<open>
  The interactive debugger (\<open>src/src/debugger/ana_debugger.cpp\<close>), an interpreter of the
  intermediate representation that runs one instruction at a time. A pointer to a block or an
  instruction is the list that starts there, the empty list the null pointer. Output is
  collected in a field of the state. \<open>None\<close> stands for the fault of a division whose result does not fit.
  Its comparison of names is \<open>streq_impl\<close> of \<^theory_text>\<open>Lowerer\<close>.
\<close>

unbundle bit_operations_syntax

section \<open>Printing\<close>

fun print_digits :: "nat \<Rightarrow> string" where
  "print_digits v = (if v = 0 then [] else print_digits (v div 10) @ [char_of (48 + v mod 10)])"

declare print_digits.simps [simp del]

definition print_num :: "i64 \<Rightarrow> string" where
  "print_num n =
     (let neg = (sint n < 0); val = (if neg then unat (- n) else unat n) in
      (if neg then ''-'' else []) @ (if val = 0 then ''0'' else print_digits val))"

definition print_hex :: "u64 \<Rightarrow> string" where
  "print_hex val = ''0x'' @ map (\<lambda>i. ''0123456789ABCDEF'' ! unat (drop_bit (i * 4) val AND 0xF)) (rev [0..<16])"

section \<open>State\<close>

record Breakpoint =
  bp_id :: u32
  bp_label :: "string option"
  bp_line :: u32
  enabled :: bool

record AnaDebugger =
  dbg_program :: "Program option"
  cur_function :: "Function option"
  cur_block :: "BasicBlock list"
  cur_insns :: "Instruction list"
  dbg_params :: "i64 list"
  dbg_registers :: "i64 list"
  dbg_breakpoints :: "Breakpoint list"
  cur_line :: u32
  finished :: bool
  dbg_out :: string

definition new_debugger :: AnaDebugger where
  "new_debugger = \<lparr>dbg_program = None, cur_function = None, cur_block = [], cur_insns = [],
     dbg_params = replicate 8 0, dbg_registers = replicate 32 0, dbg_breakpoints = [], cur_line = 1, finished = False, dbg_out = []\<rparr>"

definition print_out :: "string \<Rightarrow> AnaDebugger \<Rightarrow> AnaDebugger" where
  "print_out s d = d\<lparr>dbg_out := dbg_out d @ s\<rparr>"

text \<open>\<open>mm\<close> answers the memory requests of the lexer.\<close>

definition load_program_from_source :: "(nat \<Rightarrow> nat \<Rightarrow> bool) \<Rightarrow> string option \<Rightarrow> AnaDebugger \<Rightarrow> bool \<times> AnaDebugger" where
  "load_program_from_source mm src d =
     (case src of
        None \<Rightarrow> (False, d)
      | Some s \<Rightarrow>
          (let p = fst (parse_program (new_parser (new_lexer mm s))); d1 = d\<lparr>dbg_program := p\<rparr> in
           case p of
             None \<Rightarrow> (False, d1)
           | Some prog \<Rightarrow>
               (case prog_functions prog of
                  [] \<Rightarrow> (False, d1)
                | fn # _ \<Rightarrow>
                    (True, d1\<lparr>cur_function := Some fn, cur_block := blocks fn,
                       cur_insns := (case blocks fn of [] \<Rightarrow> [] | b # _ \<Rightarrow> insns b),
                       cur_line := 1, finished := False\<rparr>))))"

text \<open>\<open>contents\<close> is what the file holds, if it can be opened; at most 65535 bytes of it are read.\<close>

definition load_program_from_file :: "(nat \<Rightarrow> nat \<Rightarrow> bool) \<Rightarrow> string option \<Rightarrow> AnaDebugger \<Rightarrow> bool \<times> AnaDebugger" where
  "load_program_from_file mm contents d =
     (case contents of
        None \<Rightarrow> (False, d)
      | Some bs \<Rightarrow> if bs = [] then (False, d)
          else load_program_from_source mm (Some (takeWhile (\<lambda>c. c \<noteq> CHR 0x00) (take 65535 bs))) d)"

definition set_param :: "nat \<Rightarrow> i64 \<Rightarrow> AnaDebugger \<Rightarrow> AnaDebugger" where
  "set_param i v d = (if i < 8 then d\<lparr>dbg_params := (dbg_params d)[i := v]\<rparr> else d)"

definition get_register :: "nat \<Rightarrow> AnaDebugger \<Rightarrow> i64" where
  "get_register i d = (if i < 32 then dbg_registers d ! i else 0)"

definition set_breakpoint_label :: "string option \<Rightarrow> AnaDebugger \<Rightarrow> AnaDebugger" where
  "set_breakpoint_label lbl d =
     (case lbl of
        Some l \<Rightarrow>
          if length (dbg_breakpoints d) < 64 then
            (let n = of_nat (length (dbg_breakpoints d) + 1) in
             print_out (''[AnaDebugger] Breakpoint '' @ print_num (ucast (n :: u32)) @ '' set at label :'' @ l @ [CHR 0x0A])
               (d\<lparr>dbg_breakpoints := dbg_breakpoints d @ [\<lparr>bp_id = n, bp_label = Some l, bp_line = 0, enabled = True\<rparr>]\<rparr>))
          else d
      | None \<Rightarrow> d)"


definition print_breakpoint :: "Breakpoint \<Rightarrow> string" where
  "print_breakpoint b =
     ''  ['' @ print_num (ucast (bp_id b)) @ ''] ''
     @ (case bp_label b of Some l \<Rightarrow> ''Label: :'' @ l | None \<Rightarrow> ''Line: '' @ print_num (ucast (bp_line b)))
     @ (if enabled b then '' (Enabled)'' else '' (Disabled)'') @ [CHR 0x0A]"

definition list_breakpoints :: "AnaDebugger \<Rightarrow> AnaDebugger" where
  "list_breakpoints d =
     print_out (CHR 0x0A # ''--- Breakpoints ---'' @ [CHR 0x0A]
       @ (if dbg_breakpoints d = [] then ''  No breakpoints set.'' @ [CHR 0x0A] else concat (map print_breakpoint (dbg_breakpoints d)))) d"

definition print_reg_line :: "char \<Rightarrow> i64 list \<Rightarrow> nat \<Rightarrow> string" where
  "print_reg_line c vs i = ''    '' @ c # print_num (of_nat i) @ '' = '' @ print_num (vs ! i) @ '' ('' @ print_hex (vs ! i) @ '')'' @ [CHR 0x0A]"

definition print_registers :: "AnaDebugger \<Rightarrow> AnaDebugger" where
  "print_registers d =
     print_out (CHR 0x0A # ''--- Parameters & Registers ---'' @ [CHR 0x0A] @ ''  Parameters:'' @ [CHR 0x0A]
       @ concat (map (print_reg_line (CHR ''p'') (dbg_params d)) [0..<4]) @ ''  Virtual Registers:'' @ [CHR 0x0A]
       @ concat (map (print_reg_line (CHR ''v'') (dbg_registers d)) [0..<8])) d"

text \<open>\<open>rd\<close> reads the memory that is examined.\<close>

definition print_memory :: "(u64 \<Rightarrow> u64) \<Rightarrow> u64 \<Rightarrow> nat \<Rightarrow> AnaDebugger \<Rightarrow> AnaDebugger" where
  "print_memory rd a0 count d =
     print_out (CHR 0x0A # ''--- Memory Examine ['' @ print_hex a0 @ ''] ---'' @ [CHR 0x0A]
       @ concat (map (\<lambda>i. let a = a0 + of_nat i * 8 in
            print_hex a @ '': '' @ print_hex (rd a) @ '' ('' @ print_num (rd a) @ '')'' @ [CHR 0x0A]) [0..<count])) d"

definition mnemonic :: "Opcode \<Rightarrow> string" where
  "mnemonic opc =
     (case opc of
        MOVE_CONST \<Rightarrow> ''move-const'' | MOVE \<Rightarrow> ''move'' | ADD_I64 \<Rightarrow> ''add-int/64'' | SUB_I64 \<Rightarrow> ''sub-int/64''
      | MUL_I64 \<Rightarrow> ''mul-int/64'' | DIV_I64 \<Rightarrow> ''div-int/64'' | AND_I64 \<Rightarrow> ''and-int/64'' | OR_I64 \<Rightarrow> ''or-int/64''
      | XOR_I64 \<Rightarrow> ''xor-int/64'' | IF_EQ \<Rightarrow> ''if-eq'' | IF_NE \<Rightarrow> ''if-ne'' | IF_LT \<Rightarrow> ''if-lt'' | IF_GE \<Rightarrow> ''if-ge''
      | GOTO \<Rightarrow> ''goto'' | RETURN_VAL \<Rightarrow> ''return-val'' | RETURN_VOID \<Rightarrow> ''return-void'' | _ \<Rightarrow> ''instruction'')"

definition print_current_instruction :: "AnaDebugger \<Rightarrow> AnaDebugger" where
  "print_current_instruction d =
     (case cur_insns d of
        [] \<Rightarrow> print_out (''[Program Finished]'' @ [CHR 0x0A]) d
      | i # _ \<Rightarrow> print_out (''=> [Line '' @ print_num (ucast (cur_line d)) @ ''] '' @ mnemonic (op i)
          @ (case target_label i of Some l \<Rightarrow> '' :'' @ l | None \<Rightarrow> []) @ [CHR 0x0A]) d)"

section \<open>Execution\<close>

text \<open>A constant operand is always read from the first source.\<close>

definition eval_operand :: "Instruction \<Rightarrow> AnaDebugger \<Rightarrow> Operand \<Rightarrow> i64" where
  "eval_operand insn d opd =
     (case opd of
        OpConst _ \<Rightarrow> op_const (src1 insn)
      | OpReg r \<Rightarrow> if reg_type r = PARAM then dbg_params d ! unat (reg_index r AND 7) else dbg_registers d ! unat (reg_index r AND 31)
      | _ \<Rightarrow> 0)"

definition store_result :: "Register \<Rightarrow> i64 \<Rightarrow> AnaDebugger \<Rightarrow> AnaDebugger" where
  "store_result r v d =
     (if reg_type r = PARAM then d\<lparr>dbg_params := (dbg_params d)[unat (reg_index r AND 7) := v]\<rparr>
      else d\<lparr>dbg_registers := (dbg_registers d)[unat (reg_index r AND 31) := v]\<rparr>)"

definition dbg_divide :: "i64 \<Rightarrow> i64 \<Rightarrow> i64 option" where
  "dbg_divide r1 r2 = (if r2 = 0 then Some 0 else if r1 = 0x8000000000000000 \<and> r2 = - 1 then None else Some (word_sdiv r1 r2))"

definition execute_single_instruction :: "Instruction \<Rightarrow> AnaDebugger \<Rightarrow> AnaDebugger option" where
  "execute_single_instruction insn d =
     (let r1 = eval_operand insn d (src1 insn); r2 = eval_operand insn d (src2 insn);
          set = (\<lambda>v. store_result (op_reg (dest insn)) v d) in
      case op insn of
        MOVE_CONST \<Rightarrow> Some (set (op_const (src1 insn)))
      | MOVE \<Rightarrow> Some (set r1)
      | ADD_I64 \<Rightarrow> Some (set (r1 + r2)) | ADD_I32 \<Rightarrow> Some (set (r1 + r2))
      | SUB_I64 \<Rightarrow> Some (set (r1 - r2)) | SUB_I32 \<Rightarrow> Some (set (r1 - r2))
      | MUL_I64 \<Rightarrow> Some (set (r1 * r2)) | MUL_I32 \<Rightarrow> Some (set (r1 * r2))
      | DIV_I64 \<Rightarrow> map_option set (dbg_divide r1 r2) | DIV_I32 \<Rightarrow> map_option set (dbg_divide r1 r2)
      | AND_I64 \<Rightarrow> Some (set (r1 AND r2)) | OR_I64 \<Rightarrow> Some (set (r1 OR r2)) | XOR_I64 \<Rightarrow> Some (set (r1 XOR r2))
      | RETURN_VAL \<Rightarrow> Some (print_out (''[Return] Function returned: '' @ print_num r1 @ [CHR 0x0A])
                          (d\<lparr>dbg_registers := (dbg_registers d)[0 := r1], finished := True\<rparr>))
      | RETURN_VOID \<Rightarrow> Some (print_out (''[Return] Function returned void'' @ [CHR 0x0A]) (d\<lparr>finished := True\<rparr>))
      | _ \<Rightarrow> Some d)"

definition breakpoint_hit :: "string \<Rightarrow> u32 \<Rightarrow> Breakpoint \<Rightarrow> bool" where
  "breakpoint_hit lbl ln b \<longleftrightarrow>
     enabled b \<and> ((case bp_label b of Some l \<Rightarrow> streq_impl l lbl | None \<Rightarrow> False) \<or> bp_line b = ln)"

definition check_breakpoint_hit :: "AnaDebugger \<Rightarrow> bool" where
  "check_breakpoint_hit d =
     (case cur_block d of [] \<Rightarrow> False | bb # _ \<Rightarrow> list_ex (breakpoint_hit (label bb) (cur_line d)) (dbg_breakpoints d))"

definition advance_instruction :: "AnaDebugger \<Rightarrow> AnaDebugger" where
  "advance_instruction d =
     (case tl (cur_insns d) of
        i # is \<Rightarrow> d\<lparr>cur_insns := i # is\<rparr>
      | [] \<Rightarrow>
          (case cur_block d of
             _ # bb # bbs \<Rightarrow> d\<lparr>cur_block := bb # bbs, cur_insns := insns bb\<rparr>
           | _ \<Rightarrow> d\<lparr>finished := True, cur_insns := []\<rparr>))"

definition dbg_step :: "AnaDebugger \<Rightarrow> (bool \<times> AnaDebugger) option" where
  "dbg_step d =
     (case cur_insns d of
        [] \<Rightarrow> Some (False, print_out (''[AnaDebugger] Execution is finished.'' @ [CHR 0x0A]) d)
      | i # _ \<Rightarrow>
          if finished d then Some (False, print_out (''[AnaDebugger] Execution is finished.'' @ [CHR 0x0A]) d)
          else map_option (\<lambda>d1. let d2 = advance_instruction (d1\<lparr>cur_line := cur_line d1 + 1\<rparr>) in (\<not> finished d2, d2))
                 (execute_single_instruction i d))"

text \<open>How many instructions are left to run, which every step lowers.\<close>

definition dbg_left :: "AnaDebugger \<Rightarrow> nat" where
  "dbg_left d = length (cur_insns d) + sum_list (map (\<lambda>b. length (insns b)) (tl (cur_block d)))"

lemma execute_position:
  assumes "execute_single_instruction i d = Some d1"
  shows "cur_insns d1 = cur_insns d" "cur_block d1 = cur_block d" "cur_line d1 = cur_line d"
    "dbg_breakpoints d1 = dbg_breakpoints d"
  using assms by (cases "op i"; auto simp: execute_single_instruction_def Let_def store_result_def print_out_def split: if_splits)+

lemma dbg_step_left:
  assumes "dbg_step d = Some (b, d1)" "\<not> finished d" "cur_insns d \<noteq> []"
  shows "dbg_left d1 < dbg_left d"
proof -
  obtain i "is" where i: "cur_insns d = i # is"
    using assms(3) by (cases "cur_insns d") auto
  obtain d0 where d0: "execute_single_instruction i d = Some d0" "d1 = advance_instruction (d0\<lparr>cur_line := cur_line d0 + 1\<rparr>)"
    using assms(1,2) i by (auto simp: dbg_step_def Let_def)
  show ?thesis
    using i execute_position(1,2) [OF d0(1)]
    by (cases "is"; cases "cur_block d"; cases "tl (cur_block d)") (auto simp: d0(2) advance_instruction_def dbg_left_def split: list.splits)
qed

function continue_execution :: "AnaDebugger \<Rightarrow> (bool \<times> AnaDebugger) option" where
  "continue_execution d =
     (if finished d \<or> cur_insns d = [] then Some (False, d)
      else if check_breakpoint_hit d then
        Some (True, print_current_instruction (print_out (CHR 0x0A # ''[AnaDebugger] Hit Breakpoint at Line ''
          @ print_num (ucast (cur_line d)) @ [CHR 0x0A]) d))
      else (case dbg_step d of None \<Rightarrow> None | Some (_, d1) \<Rightarrow> continue_execution d1))"
  by pat_completeness auto
termination
  by (relation "measure dbg_left") (auto simp: dbg_step_left)

declare continue_execution.simps [simp del]

section \<open>Commands\<close>

definition help_text :: string where
  "help_text = CHR 0x0A # ''Available Commands:'' @ [CHR 0x0A]
     @ ''  step (s), next (n)  : Execute next instruction'' @ [CHR 0x0A]
     @ ''  continue (c), run   : Run until breakpoint'' @ [CHR 0x0A]
     @ ''  regs (r)            : Display p0..p7 and v0..v31 register state'' @ [CHR 0x0A]
     @ ''  break (b)           : List breakpoints'' @ [CHR 0x0A]
     @ ''  help (h)            : Show this help menu'' @ [CHR 0x0A]
     @ ''  quit (q)            : Exit debugger'' @ [CHR 0x0A, CHR 0x0A]"

text \<open>One command; the flag is whether the loop goes on.\<close>

definition repl_command :: "string \<Rightarrow> AnaDebugger \<Rightarrow> (bool \<times> AnaDebugger) option" where
  "repl_command cmd d =
     (if list_ex (streq_impl cmd) [''s'', ''step'', ''next''] \<or> cmd = [] then
        map_option (\<lambda>(_, d1). (True, print_current_instruction d1)) (dbg_step d)
      else if list_ex (streq_impl cmd) [''c'', ''continue'', ''run''] then map_option (\<lambda>(_, d1). (True, d1)) (continue_execution d)
      else if list_ex (streq_impl cmd) [''r'', ''regs'', ''registers''] then Some (True, print_registers d)
      else if list_ex (streq_impl cmd) [''b'', ''break''] then Some (True, list_breakpoints d)
      else if list_ex (streq_impl cmd) [''q'', ''quit'', ''exit''] then Some (False, print_out (''Exiting debugger.'' @ [CHR 0x0A]) d)
      else if list_ex (streq_impl cmd) [''help'', ''h''] then Some (True, print_out help_text d)
      else Some (True, print_out (''Unknown command. Type '' @ CHR 0x27 # ''help'' @ CHR 0x27 # '' for command list.'' @ [CHR 0x0A]) d))"

text \<open>The lines that reading the terminal returns, one per call, until one is empty or reading fails.\<close>

fun repl_loop :: "string list \<Rightarrow> AnaDebugger \<Rightarrow> AnaDebugger option" where
  "repl_loop inputs d =
     (if finished d then Some d
      else
        (let d1 = print_out ''ana-debug> '' d in
         case inputs of
           [] \<Rightarrow> Some d1
         | ln # lns \<Rightarrow>
             if ln = [] then Some d1
             else
               (case repl_command (takeWhile (\<lambda>c. c \<notin> {CHR 0x0D, CHR 0x0A, CHR 0x00}) (take 127 ln)) d1 of
                  None \<Rightarrow> None
                | Some (goes_on, d2) \<Rightarrow> if goes_on then repl_loop lns d2 else Some d2)))"

declare repl_loop.simps [simp del]

definition run_interactive_repl :: "string list \<Rightarrow> AnaDebugger \<Rightarrow> AnaDebugger option" where
  "run_interactive_repl inputs d =
     (let bar = replicate 55 (CHR ''='') in
      repl_loop inputs (print_current_instruction (print_out (CHR 0x0A # bar @ [CHR 0x0A]
        @ ''  Anastasia Interactive Assembly Debugger (AnaDebugger)'' @ [CHR 0x0A] @ bar @ [CHR 0x0A]
        @ ''Type '' @ CHR 0x27 # ''help'' @ CHR 0x27 # '' for commands, '' @ CHR 0x27 # ''step'' @ CHR 0x27 # '' to advance, ''
        @ CHR 0x27 # ''regs'' @ CHR 0x27 # '' for state.'' @ [CHR 0x0A, CHR 0x0A]) d)))"

section \<open>Printed numbers\<close>

definition read_digits :: "string \<Rightarrow> int" where
  "read_digits cs = foldl (\<lambda>a c. 10 * a + (of_char c - 48)) 0 cs"

definition read_num :: "string \<Rightarrow> int" where
  "read_num cs = (if take 1 cs = ''-'' then - read_digits (tl cs) else read_digits cs)"

lemma read_print_digits: "read_digits (print_digits v) = int v"
proof (induction v rule: print_digits.induct)
  case (1 v)
  have "(of_char (char_of (48 + v mod 10) :: char) :: int) = 48 + int (v mod 10)"
    using of_nat_of_char [of "char_of (48 + v mod 10)", where 'a = int] by (simp add: of_char_of)
  moreover have "int v = int (v div 10 * 10 + v mod 10)"
    by (simp only: div_mult_mod_eq)
  then have "10 * int (v div 10) + int (v mod 10) = int v"
    by (simp only: of_nat_add of_nat_mult of_nat_numeral mult.commute)
  ultimately show ?case
    using 1 by (simp add: print_digits.simps [of v] read_digits_def)
qed

lemma print_digits_bounds: "set (print_digits v) \<subseteq> char_of ` {48..<58 :: nat}" "v < 10 ^ n \<Longrightarrow> length (print_digits v) \<le> n"
proof -
  show "set (print_digits v) \<subseteq> char_of ` {48..<58 :: nat}"
    by (induction v rule: print_digits.induct) (auto simp: print_digits.simps)
  show "v < 10 ^ n \<Longrightarrow> length (print_digits v) \<le> n"
  proof (induction n arbitrary: v)
    case (Suc n)
    then have "v div 10 < 10 ^ n"
      by (simp add: less_mult_imp_div_less mult.commute)
    then show ?case
      using Suc.IH [of "v div 10"] by (simp add: print_digits.simps [of v])
  qed (simp add: print_digits.simps)
qed

text \<open>
  Numbers are printed exactly: for every 64-bit value, the smallest included, the printed text
  is its decimal notation, which reads back to the value, and takes at most 20 of the 31
  characters of the buffer.
\<close>

theorem print_num_roundtrip: "read_num (print_num n) = sint n \<and> length (print_num n) \<le> 20"
proof -
  have r: "- (2 ^ 63) \<le> sint n" "sint n < 2 ^ 63"
    using sint_ge [of n] sint_lt [of n] by simp_all
  have "uint (- n) = - sint n" if "sint n < 0"
  proof -
    have "- n = word_of_int (- sint n)"
      by simp
    then have "uint (- n) = take_bit 64 (- sint n)"
      by (simp only: uint_word_of_int_eq) simp
    then show ?thesis
      using that r by (simp add: take_bit_int_eq_self)
  qed
  moreover have "uint n = sint n" if "\<not> sint n < 0"
    using that r by (simp add: uint_sint take_bit_int_eq_self)
  ultimately have v: "int (if sint n < 0 then unat (- n) else unat n) = \<bar>sint n\<bar>"
    by auto
  have "\<bar>sint n\<bar> < int (10 ^ 19)"
    using r by (simp add: abs_less_iff)
  then have "(if sint n < 0 then unat (- n) else unat n) < 10 ^ 19"
    unfolding v [symmetric] of_nat_less_iff .
  then have l: "length (print_digits (if sint n < 0 then unat (- n) else unat n)) \<le> 19"
    by (rule print_digits_bounds(2))
  have d: "char_of x \<noteq> CHR ''-''" if "48 \<le> x" "x < 58" for x :: nat
    using that by (auto dest!: arg_cong [where f = "of_char :: char \<Rightarrow> nat"])
  have m: "take 1 (print_digits x) \<noteq> ''-''" for x
    using print_digits_bounds(1) [of x] d by (cases "print_digits x") fastforce+
  show ?thesis
    using v l m read_print_digits [of "unat n"] read_print_digits [of "unat (- n)"]
    by (auto simp: print_num_def Let_def read_num_def read_digits_def)
qed

section \<open>Stepping computes the reference\<close>

definition dbg_env :: "AnaDebugger \<Rightarrow> Register \<Rightarrow> u64" where
  "dbg_env d r = (if reg_type r = PARAM then dbg_params d ! unat (reg_index r AND 7) else dbg_registers d ! unat (reg_index r AND 31))"

definition dbg_reg :: "Register \<Rightarrow> bool" where
  "dbg_reg r \<longleftrightarrow> reg_type r = PARAM \<and> reg_index r < 8 \<or> reg_type r = LOCAL \<and> reg_index r < 32"

definition dbg_ok :: "AnaDebugger \<Rightarrow> bool" where
  "dbg_ok d \<longleftrightarrow> length (dbg_params d) = 8 \<and> length (dbg_registers d) = 32"

text \<open>Instructions that the debugger runs as they are meant: on registers it has, with a constant only as first source.\<close>

definition dbg_plain :: "Instruction \<Rightarrow> bool" where
  "dbg_plain i \<longleftrightarrow> (\<exists>r. dest i = OpReg r \<and> dbg_reg r)
     \<and> (op i = MOVE_CONST \<or> (op i \<in> {MOVE, ADD_I64, SUB_I64, MUL_I64, AND_I64, OR_I64, XOR_I64}
          \<and> ((\<exists>c. src1 i = OpConst c) \<or> (\<exists>r. src1 i = OpReg r \<and> dbg_reg r))
          \<and> (op i = MOVE \<or> (\<exists>r. src2 i = OpReg r \<and> dbg_reg r))))"

lemma masked_index:
  "reg_type r = PARAM \<Longrightarrow> dbg_reg r \<Longrightarrow> reg_index r AND 7 = reg_index r" "reg_type r \<noteq> PARAM \<Longrightarrow> dbg_reg r \<Longrightarrow> reg_index r AND 31 = reg_index r"
  "unat (x AND 7 :: u32) < 8" "unat (x AND 31 :: u32) < 32"
proof -
  have m: "(y :: u32) AND 7 = take_bit 3 y" "y AND 31 = take_bit 5 y" for y
    by (simp_all add: take_bit_eq_mask mask_eq_exp_minus_1)
  show "reg_type r = PARAM \<Longrightarrow> dbg_reg r \<Longrightarrow> reg_index r AND 7 = reg_index r" "reg_type r \<noteq> PARAM \<Longrightarrow> dbg_reg r \<Longrightarrow> reg_index r AND 31 = reg_index r"
    by (simp_all add: m dbg_reg_def word_unat_eq_iff unsigned_take_bit_eq word_less_nat_alt take_bit_nat_eq_self)
  show "unat (x AND 7 :: u32) < 8" "unat (x AND 31 :: u32) < 32"
    using take_bit_nat_less_exp [of 3 "unat x"] take_bit_nat_less_exp [of 5 "unat x"] by (simp_all add: m unsigned_take_bit_eq)
qed

lemma store_env:
  assumes "dbg_ok d" "dbg_reg r"
  shows "dbg_ok (store_result r v d)" "dbg_reg q \<Longrightarrow> dbg_env (store_result r v d) q = (if q = r then v else dbg_env d q)"
proof -
  show "dbg_ok (store_result r v d)"
    using assms(1) by (simp add: dbg_ok_def store_result_def)
  show "dbg_env (store_result r v d) q = (if q = r then v else dbg_env d q)" if q: "dbg_reg q"
  proof (cases "reg_type q = reg_type r")
    case True
    then have "reg_index q = reg_index r \<longleftrightarrow> q = r"
      by auto
    then show ?thesis
      using assms q True masked_index(1,2) [of q] masked_index(1,2) [of r] masked_index(3,4) [of "reg_index r"]
      by (auto simp: dbg_env_def store_result_def dbg_ok_def nth_list_update word_unat_eq_iff)
  next
    case False
    then show ?thesis
      using assms(2) q by (auto simp: dbg_env_def store_result_def dbg_reg_def)
  qed
qed

lemma eval_env: "eval_operand i d (OpReg r) = dbg_env d r" "src1 i = OpConst c \<Longrightarrow> eval_operand i d (OpConst c') = c"
  by (simp_all add: eval_operand_def dbg_env_def)

lemma ir_alu_64:
  "map_option word_of_int (ir_alu ADD_I64 (sint a) (sint b)) = Some (a + b :: u64)"
  "map_option word_of_int (ir_alu SUB_I64 (sint a) (sint b)) = Some (a - b :: u64)"
  "map_option word_of_int (ir_alu MUL_I64 (sint a) (sint b)) = Some (a * b :: u64)"
  "map_option word_of_int (ir_alu AND_I64 (sint a) (sint b)) = Some (a AND b :: u64)"
  "map_option word_of_int (ir_alu OR_I64 (sint a) (sint b)) = Some (a OR b :: u64)"
  "map_option word_of_int (ir_alu XOR_I64 (sint a) (sint b)) = Some (a XOR b :: u64)"
  by (simp_all add: fold_const_ir [symmetric] fold_const_def Let_def option.map_comp comp_def)

lemma plain_result:
  assumes p: "dbg_plain i" and e: "\<And>q. dbg_reg q \<Longrightarrow> dbg_env d q = \<rho> q" and v: "ir_result i \<rho> = Some v"
  shows "execute_single_instruction i d = Some (store_result (op_reg (dest i)) v d)"
proof (cases "op i = MOVE_CONST")
  case True
  then show ?thesis
    using v by (simp add: execute_single_instruction_def ir_result_def Let_def)
next
  case False
  have s1: "eval_operand i d (src1 i) = opd_val \<rho> (src1 i)"
    using p e False by (auto simp: dbg_plain_def eval_env opd_val_def)
  have s2: "op i \<noteq> MOVE \<Longrightarrow> eval_operand i d (src2 i) = opd_val \<rho> (src2 i) \<and> op_kind (src2 i) \<noteq> CONST_INT"
    using p e False by (auto simp: dbg_plain_def eval_env opd_val_def)
  have "op i \<in> {MOVE, ADD_I64, SUB_I64, MUL_I64, AND_I64, OR_I64, XOR_I64}"
    using p False by (auto simp: dbg_plain_def)
  then show ?thesis
    using s1 s2 v by (elim insertE emptyE) (auto simp: execute_single_instruction_def ir_result_def Let_def exact_def ir_alu_64)
qed

fun dbg_steps :: "nat \<Rightarrow> AnaDebugger \<Rightarrow> AnaDebugger option" where
  "dbg_steps 0 d = Some d"
| "dbg_steps (Suc n) d = (case dbg_step d of None \<Rightarrow> None | Some (_, d1) \<Rightarrow> dbg_steps n d1)"

lemma plain_steps:
  assumes "dbg_ok d" "\<not> finished d" "cur_insns d = is @ j # js" "list_all dbg_plain is"
    and "\<And>q. dbg_reg q \<Longrightarrow> dbg_env d q = \<rho> q" "ir_run is \<rho> = Some \<rho>'"
  shows "\<exists>d'. dbg_steps (length is) d = Some d' \<and> cur_insns d' = j # js \<and> cur_line d' = cur_line d + of_nat (length is)
    \<and> (\<forall>q. dbg_reg q \<longrightarrow> dbg_env d' q = \<rho>' q)"
  using assms
proof (induction "is" arbitrary: d \<rho>)
  case (Cons i "is")
  obtain v where v: "ir_result i \<rho> = Some v" "ir_run is (\<rho>(op_reg (dest i) := v)) = Some \<rho>'"
    using Cons.prems(6) by (auto split: option.splits)
  obtain r where r: "dest i = OpReg r" "dbg_reg r"
    using Cons.prems(4) by (auto simp: dbg_plain_def)
  define d1 where "d1 = store_result r v d"
  define d2 where "d2 = d1\<lparr>cur_line := cur_line d + 1, cur_insns := is @ j # js\<rparr>"
  have x: "execute_single_instruction i d = Some d1"
    using plain_result [OF _ Cons.prems(5) v(1)] Cons.prems(4) r(1) by (simp add: d1_def)
  have d1: "finished d1 = finished d" "cur_insns d1 = cur_insns d" "cur_line d1 = cur_line d"
    by (simp_all add: d1_def store_result_def)
  have s: "dbg_step d = Some (\<not> finished d2, d2)"
    using x d1 Cons.prems(2,3) by (cases "is") (simp_all add: dbg_step_def advance_instruction_def d2_def Let_def)
  have "dbg_ok d2" "\<not> finished d2" "cur_insns d2 = is @ j # js" "cur_line d2 = cur_line d + 1"
    using store_env(1) [OF Cons.prems(1) r(2), of v] d1(1) Cons.prems(2) by (simp_all add: d2_def d1_def dbg_ok_def)
  moreover have "dbg_env d2 q = (\<rho>(op_reg (dest i) := v)) q" if "dbg_reg q" for q
  proof -
    have "dbg_env d2 q = dbg_env d1 q"
      by (simp add: d2_def dbg_env_def)
    then show ?thesis
      using store_env(2) [OF Cons.prems(1) r(2) that, of v] Cons.prems(5) [OF that] r(1) by (simp add: d1_def)
  qed
  ultimately obtain d' where "dbg_steps (length is) d2 = Some d'" "cur_insns d' = j # js" "cur_line d' = cur_line d + 1 + of_nat (length is)"
    "\<forall>q. dbg_reg q \<longrightarrow> dbg_env d' q = \<rho>' q"
    using Cons.IH [OF _ _ _ _ _ v(2), of d2] Cons.prems(4) by auto
  then show ?case
    using s by (simp add: add.assoc)
qed simp

text \<open>
  Claim C32. Stepping computes the reference: from a state whose next instructions are moves and
  64-bit additions, subtractions, products and logical operations on registers the debugger has, as many
  steps as there are instructions lead to the instruction after them, and every register
  holds the value that the reference semantics of the block gives it.
\<close>

theorem dbg_stepping_correct:
  assumes "dbg_ok d" "\<not> finished d" "cur_insns d = is @ j # js" "list_all dbg_plain is" "ir_run is (dbg_env d) = Some \<rho>"
  shows "\<exists>d'. dbg_steps (length is) d = Some d' \<and> cur_insns d' = j # js \<and> cur_line d' = cur_line d + of_nat (length is)
    \<and> (\<forall>q. dbg_reg q \<longrightarrow> dbg_env d' q = \<rho> q)"
  using plain_steps [OF assms(1-4) refl assms(5)] .

text \<open>
  The debugger loses constants and branches: an addition of a constant to a register adds the
  bits of the operand that names the register, whatever the constant is, and jumps
  and conditional branches change nothing, so stepping goes on with the next instruction.
\<close>

theorem dbg_loses_constants_and_branches:
  assumes "dbg_ok d" "op i = ADD_I64" "dest i = OpReg r" "dbg_reg r" "src1 i = OpReg s" "src2 i = OpConst c"
    and "op b \<in> {GOTO, IF_EQ, IF_NE, IF_LT, IF_GE}"
  shows "(\<exists>d1. execute_single_instruction i d = Some d1 \<and> dbg_env d1 r = dbg_env d s + reg_bits s)
    \<and> execute_single_instruction b d = Some d"
proof -
  have "execute_single_instruction i d = Some (store_result r (dbg_env d s + reg_bits s) d)"
    using assms(2,3,5,6) by (simp add: execute_single_instruction_def Let_def eval_env) (simp add: eval_operand_def)
  moreover have "execute_single_instruction b d = Some d"
    using assms(7) by (auto simp: execute_single_instruction_def)
  ultimately show ?thesis
    using store_env(2) [OF assms(1,4,4)] by simp
qed

definition dbg_example :: AnaDebugger where
  "dbg_example = new_debugger\<lparr>cur_insns :=
     [(plain_insn MOVE_CONST None)\<lparr>dest := OpReg v0, src1 := OpConst 5\<rparr>,
      (plain_insn ADD_I64 None)\<lparr>dest := OpReg v0, src1 := OpReg v0, src2 := OpReg v0\<rparr>, plain_insn RETURN_VOID None]\<rparr>"

theorem dbg_stepping_correct_witness:
  "\<exists>d'. dbg_steps 2 dbg_example = Some d' \<and> cur_insns d' = [plain_insn RETURN_VOID None] \<and> cur_line d' = 3 \<and> dbg_env d' v0 = 10"
proof -
  let ?a = "(plain_insn MOVE_CONST None)\<lparr>dest := OpReg v0, src1 := OpConst 5\<rparr>"
    and ?b = "(plain_insn ADD_I64 None)\<lparr>dest := OpReg v0, src1 := OpReg v0, src2 := OpReg v0\<rparr>"
  have "dbg_ok dbg_example" "\<not> finished dbg_example" "cur_insns dbg_example = [?a, ?b] @ plain_insn RETURN_VOID None # []"
    by (simp_all add: dbg_example_def new_debugger_def dbg_ok_def)
  moreover have r: "dbg_reg v0"
    by (simp add: dbg_reg_def v0_def)
  then have "list_all dbg_plain [?a, ?b]"
    by (simp add: dbg_plain_def plain_insn_def)
  moreover have "ir_run [?a, ?b] (dbg_env dbg_example) = Some ((dbg_env dbg_example)(v0 := 5, v0 := 10))"
    using ir_alu_64(1) [of 5 5] by (auto simp: ir_result_def plain_insn_def Let_def opd_val_def exact_def)
  ultimately show ?thesis
    using dbg_stepping_correct [of dbg_example "[?a, ?b]" "plain_insn RETURN_VOID None" "[]"] r
    by (auto simp: numeral_2_eq_2 dbg_example_def new_debugger_def)
qed

theorem dbg_loses_constants_and_branches_witness:
  "\<exists>d1. execute_single_instruction ((plain_insn ADD_I64 None)\<lparr>dest := OpReg v0, src1 := OpReg v0, src2 := OpConst 5\<rparr>) dbg_example = Some d1
     \<and> dbg_env d1 v0 = reg_bits v0 \<and> execute_single_instruction (plain_insn GOTO (Some ''loop'')) d1 = Some d1"
proof -
  have "dbg_ok dbg_example" "dbg_reg v0" "dbg_env dbg_example v0 = 0"
    by (simp_all add: dbg_example_def new_debugger_def dbg_ok_def dbg_reg_def v0_def dbg_env_def)
  then show ?thesis
    using dbg_loses_constants_and_branches [of dbg_example "(plain_insn ADD_I64 None)\<lparr>dest := OpReg v0, src1 := OpReg v0, src2 := OpConst 5\<rparr>"
        v0 v0 5 "plain_insn GOTO (Some ''loop'')"]
    by (auto simp: plain_insn_def execute_single_instruction_def)
qed

section \<open>Running to a breakpoint\<close>














end
