(* ===== verification/Process.thy ===== *)
theory Process
  imports Sys_Io Sys_Raw Cpu_Features Debugger
begin

text \<open>
  The process around the compiler: run-time support the compiler calls implicitly (\<open>src/src/sys/sys_entry.cpp\<close>),
  the trap handler (\<open>src/src/sys/ana_trap_handler.cpp\<close>) and the memory provider of the backends
  (\<open>src/src/backend/vmem_provider.h\<close>). Signal handlers are a field of the state that the
  \<open>rt_sigaction\<close> calls update; \<open>print_num\<close> and \<open>print_hex\<close> of the trap handler are those of
  \<^theory_text>\<open>Debugger\<close>, which have the same text.
\<close>

unbundle bit_operations_syntax

section \<open>Population count\<close>

function popcountdi2 :: "u64 \<Rightarrow> nat" where
  "popcountdi2 a = (if a = 0 then 0 else unat (a AND 1) + popcountdi2 (drop_bit 1 a))"
  by pat_completeness auto
termination
proof (relation "measure unat")
  fix a :: u64
  assume "a \<noteq> 0"
  then have "0 < unat a"
    by (simp add: unat_gt_0)
  moreover have "unat (drop_bit 1 a) = unat a div 2"
    by (simp add: drop_bit_eq_div unat_div)
  ultimately show "(drop_bit 1 a, a) \<in> measure unat"
    by simp
qed simp

declare popcountdi2.simps [simp del]

lemma bits_shifted: "{i. bit (a :: u64) i} = (if odd a then {0} else {}) \<union> Suc ` {i. bit (drop_bit 1 a) i}"
proof -
  have "bit a i \<longleftrightarrow> (i = 0 \<and> odd a) \<or> (\<exists>j. i = Suc j \<and> bit (drop_bit 1 a) j)" for i
    by (cases i) (simp_all add: bit_0 bit_drop_bit_eq)
  then show ?thesis
    by auto
qed

lemma finite_bits: "finite {i. bit (a :: u64) i}"
  by (rule finite_subset [of _ "{..<64}"]) (auto dest: bit_imp_le_length)

text \<open>The loop counts the set bits.\<close>

lemma popcount_counts: "popcountdi2 a = card {i. bit a i}"
proof (induction a rule: popcountdi2.induct)
  case (1 a)
  show ?case
  proof (cases "a = 0")
    case False
    have "card {i. bit a i} = (if odd a then 1 else 0) + card {i. bit (drop_bit 1 a) i}"
      using finite_bits [of "drop_bit 1 a"] by (subst bits_shifted) (auto simp: card_image card_insert_if)
    moreover have "unat (a AND 1) = (if odd a then 1 else 0)"
      by (simp add: and_one_eq odd_iff_mod_2_eq_one even_iff_mod_2_eq_zero)
    ultimately show ?thesis
      using 1 False by (simp add: popcountdi2.simps [of a])
  qed (simp add: popcountdi2.simps)
qed

section \<open>Run-time support\<close>

definition op_new :: "u64 \<Rightarrow> Runtime \<Rightarrow> u64 \<times> Runtime" where
  "op_new sz r = sys_malloc sz r"

definition op_delete :: "u64 \<Rightarrow> Runtime \<Rightarrow> Runtime" where
  "op_delete p r = sys_free p r"

text \<open>Functions that end the process: what they write on standard error, and the status.\<close>

definition unwind_resume :: "string \<times> i32" where
  "unwind_resume = ([], 134)"

definition gxx_personality :: "string \<times> i32" where
  "gxx_personality = (take 27 (''Unwind personality invoked'' @ [CHR 0x0A]), 134)"

definition raise_stub :: "i32 \<Rightarrow> string \<times> i32" where
  "raise_stub sig = (take 40 (''[AnaTrap] Signal raised via libgcc stub'' @ [CHR 0x0A]), 128 + sig)"

definition stack_chk_fail :: "string \<times> i32" where
  "stack_chk_fail = (take 20 (''Stack check failed!'' @ [CHR 0x0A]), 137)"

text \<open>The byte counts that are passed are the lengths of the messages.\<close>

lemma messages_complete:
  "last (fst gxx_personality) = CHR 0x0A" "last (fst (raise_stub s)) = CHR 0x0A" "last (fst stack_chk_fail) = CHR 0x0A"
  by (simp_all add: gxx_personality_def raise_stub_def stack_chk_fail_def)

text \<open>A block from \<open>new\<close> is given back by \<open>delete\<close>: the live mappings are as before.\<close>

lemma new_delete:
  assumes "mmap_ok (os_mmap (rt_os r))" "op_new sz r = (p, r')" "p \<noteq> 0" "8 \<le> sz + 8"
  shows "set (os_live (rt_os (op_delete p r'))) = set (os_live (rt_os r))"
proof -
  note m = malloc_block [OF assms(1) assms(2) [unfolded op_new_def] assms(3,4)]
  have "(p - 8, (if sz = 0 then 1 else sz) + 8) \<notin> set (os_live (rt_os r))"
  proof
    assume "(p - 8, (if sz = 0 then 1 else sz) + 8) \<in> set (os_live (rt_os r))"
    then have "span (p - 8) (unat ((if sz = 0 then 1 else sz) + 8)) = {}"
      using m(4) by fastforce
    moreover have "0 < unat ((if sz = 0 then 1 else sz) + 8)"
      using block_addr(3) [OF m(1)] by simp
    ultimately show False
      by (simp add: span_def)
  qed
  then show ?thesis
    using free_block [OF m(1)] m(2) by (simp add: op_delete_def raw_munmap_def)
qed

section \<open>Guards of local statics\<close>

text \<open>
  The two bytes of a guard, and what \<open>acquire\<close> does on them: run the initialiser, skip it, or wait for
  another thread. Each access is one step of its thread.
\<close>

record Guard =
  initialized :: bool
  in_progress :: bool

datatype guard_pc = Idle | Checked | Initialising | Waiting | Through

inductive guard_step :: "Guard \<times> (nat \<Rightarrow> guard_pc) \<Rightarrow> Guard \<times> (nat \<Rightarrow> guard_pc) \<Rightarrow> bool" where
  guard_ready: "pc t = Idle \<Longrightarrow> initialized g \<Longrightarrow> guard_step (g, pc) (g, pc(t := Through))"
| guard_check: "pc t = Idle \<Longrightarrow> \<not> initialized g \<Longrightarrow> guard_step (g, pc) (g, pc(t := Checked))"
| guard_win: "pc t = Checked \<Longrightarrow> \<not> in_progress g \<Longrightarrow> guard_step (g, pc) (g\<lparr>in_progress := True\<rparr>, pc(t := Initialising))"
| guard_lose: "pc t = Checked \<Longrightarrow> in_progress g \<Longrightarrow> guard_step (g, pc) (g, pc(t := Waiting))"
| guard_spin: "pc t = Waiting \<Longrightarrow> \<not> initialized g \<Longrightarrow> guard_step (g, pc) (g, pc)"
| guard_pass: "pc t = Waiting \<Longrightarrow> initialized g \<Longrightarrow> guard_step (g, pc) (g, pc(t := Through))"
| guard_release: "pc t = Initialising \<Longrightarrow> guard_step (g, pc) (g\<lparr>initialized := True\<rparr>, pc(t := Through))"
| guard_abort: "pc t = Initialising \<Longrightarrow> guard_step (g, pc) (g, pc(t := Idle))"

definition guard_new :: "Guard \<times> (nat \<Rightarrow> guard_pc)" where
  "guard_new = (\<lparr>initialized = False, in_progress = False\<rparr>, \<lambda>_. Idle)"

definition guard_inv :: "Guard \<times> (nat \<Rightarrow> guard_pc) \<Rightarrow> bool" where
  "guard_inv s \<longleftrightarrow>
     (\<forall>t u. snd s t = Initialising \<and> snd s u = Initialising \<longrightarrow> t = u)
     \<and> (\<forall>t. snd s t = Initialising \<longrightarrow> in_progress (fst s) \<and> \<not> initialized (fst s))
     \<and> (\<forall>t. snd s t = Through \<longrightarrow> initialized (fst s)) \<and> (initialized (fst s) \<longrightarrow> in_progress (fst s))"

lemma guard_inv_step: "guard_step s s' \<Longrightarrow> guard_inv s \<Longrightarrow> guard_inv s'"
  by (induction rule: guard_step.induct) (auto simp: guard_inv_def split: if_splits)

lemma guard_inv_reachable: "guard_step\<^sup>*\<^sup>* guard_new s \<Longrightarrow> guard_inv s"
proof (induction rule: rtranclp_induct)
  case base
  show ?case
    by (simp add: guard_inv_def guard_new_def)
qed (rule guard_inv_step)

text \<open>Once the initialiser was aborted nobody initialises and nobody gets through.\<close>

definition guard_stuck :: "Guard \<times> (nat \<Rightarrow> guard_pc) \<Rightarrow> bool" where
  "guard_stuck s \<longleftrightarrow> in_progress (fst s) \<and> \<not> initialized (fst s) \<and> (\<forall>t. snd s t \<notin> {Initialising, Through})"

lemma guard_stuck_step: "guard_step s s' \<Longrightarrow> guard_stuck s \<Longrightarrow> guard_stuck s'"
  by (induction rule: guard_step.induct) (auto simp: guard_stuck_def)

lemma guard_stuck_forever: "guard_step\<^sup>*\<^sup>* s s' \<Longrightarrow> guard_stuck s \<Longrightarrow> guard_stuck s'"
  by (induction rule: rtranclp_induct) (auto intro: guard_stuck_step)

text \<open>A thread that leaves its initialiser without a value has taken the abort step.\<close>

lemma guard_abort_stuck:
  assumes "guard_step (g, pc) (g1, pc1)" "pc t = Initialising" "pc1 t = Idle" "guard_inv (g, pc)"
  shows "guard_stuck (g1, pc1)"
  using assms by (cases rule: guard_step.cases) (auto simp: guard_inv_def guard_stuck_def split: if_splits)

lemma guard_initialized_step: "guard_step s s' \<Longrightarrow> initialized (fst s) \<Longrightarrow> initialized (fst s')"
  by (induction rule: guard_step.induct) auto

lemma guard_initialized_stays: "guard_step\<^sup>*\<^sup>* s s' \<Longrightarrow> initialized (fst s) \<Longrightarrow> initialized (fst s')"
  by (induction rule: rtranclp_induct) (auto intro: guard_initialized_step)

text \<open>
  Claim C40. A local static is initialised by one thread at a time, once, before anybody uses it: in every reachable state
  of any number of threads on a guard at most one runs the initialiser, none does after it has been released, now or later,
  and a thread gets through only when it has been released. The thread in the initialiser can release the guard, which lets it
  through, or abort. But an abort never frees the guard: after any step that takes a thread from its
  initialiser back to the start, no thread ever initialises the static or gets through.
\<close>

theorem guard_exclusive:
  assumes "guard_step\<^sup>*\<^sup>* guard_new (g, pc)"
  shows "(\<forall>t u. pc t = Initialising \<and> pc u = Initialising \<longrightarrow> t = u)
    \<and> (\<forall>t. pc t = Initialising \<longrightarrow> \<not> initialized g) \<and> (\<forall>t. pc t = Through \<longrightarrow> initialized g)
    \<and> (\<forall>g' pc'. initialized g \<and> guard_step\<^sup>*\<^sup>* (g, pc) (g', pc') \<longrightarrow> (\<forall>u. pc' u \<noteq> Initialising))
    \<and> (\<forall>t. pc t = Initialising \<longrightarrow>
        (\<exists>g1. guard_step (g, pc) (g1, pc(t := Through)) \<and> initialized g1) \<and> (\<exists>g1. guard_step (g, pc) (g1, pc(t := Idle))))
    \<and> (\<forall>t g1 pc1 g' pc'. pc t = Initialising \<and> guard_step (g, pc) (g1, pc1) \<and> pc1 t = Idle \<and> guard_step\<^sup>*\<^sup>* (g1, pc1) (g', pc') \<longrightarrow>
        (\<forall>u. pc' u \<noteq> Initialising \<and> pc' u \<noteq> Through))"
proof -
  have i: "guard_inv (g, pc)"
    using guard_inv_reachable [OF assms] .
  have "\<forall>t u. pc t = Initialising \<and> pc u = Initialising \<longrightarrow> t = u" "\<forall>t. pc t = Initialising \<longrightarrow> \<not> initialized g"
    "\<forall>t. pc t = Through \<longrightarrow> initialized g"
    using i by (auto simp: guard_inv_def)
  moreover have "\<forall>g' pc'. initialized g \<and> guard_step\<^sup>*\<^sup>* (g, pc) (g', pc') \<longrightarrow> (\<forall>u. pc' u \<noteq> Initialising)"
    using guard_inv_reachable [OF rtranclp_trans [OF assms]] guard_initialized_stays by (fastforce simp: guard_inv_def)
  moreover have "\<forall>t. pc t = Initialising \<longrightarrow>
      (\<exists>g1. guard_step (g, pc) (g1, pc(t := Through)) \<and> initialized g1) \<and> (\<exists>g1. guard_step (g, pc) (g1, pc(t := Idle)))"
    using guard_release guard_abort by (metis Guard.select_convs(1) Guard.surjective Guard.update_convs(1))
  moreover have "\<forall>t g1 pc1 g' pc'. pc t = Initialising \<and> guard_step (g, pc) (g1, pc1) \<and> pc1 t = Idle
      \<and> guard_step\<^sup>*\<^sup>* (g1, pc1) (g', pc') \<longrightarrow> (\<forall>u. pc' u \<noteq> Initialising \<and> pc' u \<noteq> Through)"
    using guard_stuck_forever guard_abort_stuck [OF _ _ _ i] by (fastforce simp: guard_stuck_def)
  ultimately show ?thesis
    by (intro conjI)
qed

theorem guard_exclusive_witness:
  "guard_step\<^sup>*\<^sup>* guard_new (\<lparr>initialized = False, in_progress = True\<rparr>, (\<lambda>_. Idle)(0 := Initialising))
   \<and> guard_step (\<lparr>initialized = False, in_progress = True\<rparr>, (\<lambda>_. Idle)(0 := Initialising)) (\<lparr>initialized = False, in_progress = True\<rparr>, \<lambda>_. Idle)
   \<and> (\<nexists>g' pc'. guard_step\<^sup>*\<^sup>* (\<lparr>initialized = False, in_progress = True\<rparr>, \<lambda>_. Idle) (g', pc') \<and> pc' 1 = Through)"
proof -
  let ?g = "\<lparr>initialized = False, in_progress = True\<rparr>" and ?pc = "(\<lambda>_. Idle)(0 := Initialising)"
  have "guard_step guard_new (\<lparr>initialized = False, in_progress = False\<rparr>, (\<lambda>_. Idle)(0 := Checked))"
    unfolding guard_new_def by (rule guard_check) simp_all
  moreover have "guard_step (\<lparr>initialized = False, in_progress = False\<rparr>, (\<lambda>_. Idle)(0 := Checked)) (?g, ?pc)"
    using guard_win [of "(\<lambda>_. Idle)(0 := Checked)" 0 "\<lparr>initialized = False, in_progress = False\<rparr>"] by simp
  ultimately have r: "guard_step\<^sup>*\<^sup>* guard_new (?g, ?pc)"
    by (meson converse_rtranclp_into_rtranclp rtranclp.rtrancl_refl)
  have a: "guard_step (?g, ?pc) (?g, \<lambda>_. Idle)"
    using guard_abort [of ?pc 0 ?g] by (simp add: fun_upd_idem)
  have "?pc 0 = Initialising" "(\<lambda>_::nat. Idle) 0 = Idle"
    by simp_all
  then have "\<nexists>g' pc'. guard_step\<^sup>*\<^sup>* (?g, \<lambda>_. Idle) (g', pc') \<and> pc' 1 = Through"
    using guard_exclusive [OF r] a by blast
  with r a show ?thesis
    by blast
qed

section \<open>Trap handler\<close>

record Sigaction =
  sa_sigaction :: u64
  sa_flags :: u64
  sa_restorer :: u64
  sa_mask :: u64

record TrapState =
  trap_installed :: bool
  debugger_fallback :: bool
  sig_actions :: "nat \<Rightarrow> Sigaction option"

definition rt_sigaction :: "nat \<Rightarrow> Sigaction \<Rightarrow> TrapState \<Rightarrow> TrapState" where
  "rt_sigaction signum act s = s\<lparr>sig_actions := (sig_actions s)(signum \<mapsto> act)\<rparr>"

definition trap_init :: "u64 \<Rightarrow> TrapState \<Rightarrow> bool \<times> TrapState" where
  "trap_init handler s =
     (if trap_installed s then (True, s)
      else
        (let ksa = \<lparr>sa_sigaction = handler, sa_flags = 0x00000004 OR 0x40000000, sa_restorer = 0, sa_mask = 0\<rparr> in
         (True, (rt_sigaction 7 ksa (rt_sigaction 4 ksa (rt_sigaction 8 ksa (rt_sigaction 11 ksa s))))\<lparr>trap_installed := True\<rparr>)))"

definition trap_remove :: "TrapState \<Rightarrow> TrapState" where
  "trap_remove s =
     (if \<not> trap_installed s then s
      else
        (let ksa = \<lparr>sa_sigaction = 0, sa_flags = 0, sa_restorer = 0, sa_mask = 0\<rparr> in
         (rt_sigaction 7 ksa (rt_sigaction 4 ksa (rt_sigaction 8 ksa (rt_sigaction 11 ksa s))))\<lparr>trap_installed := False\<rparr>))"

definition set_debugger_fallback :: "bool \<Rightarrow> TrapState \<Rightarrow> TrapState" where
  "set_debugger_fallback enable s = s\<lparr>debugger_fallback := enable\<rparr>"

definition new_trap_state :: TrapState where
  "new_trap_state = \<lparr>trap_installed = False, debugger_fallback = True, sig_actions = (\<lambda>_. None)\<rparr>"

definition rule_line :: string where
  "rule_line = replicate 55 (CHR ''='') @ [CHR 0x0A]"

definition reg_line :: "string \<Rightarrow> u64 \<Rightarrow> string \<Rightarrow> string" where
  "reg_line nm v sep = ''    '' @ nm @ '' = '' @ print_hex v @ sep"

text \<open>The report on standard error; the registers are the \<open>gregs\<close> of the signal frame.\<close>

definition print_crash_report :: "i32 \<Rightarrow> string option \<Rightarrow> u64 \<Rightarrow> u64 list option \<Rightarrow> string" where
  "print_crash_report sig sig_name fault_addr uctx =
     (let nl = [CHR 0x0A] in
      nl @ rule_line @ ''  [ANASTASIA ENGINE RUNTIME TRAP / CRASH DETECTED]'' @ nl @ rule_line
      @ ''  Fault Signal : '' @ (case sig_name of Some s \<Rightarrow> s | None \<Rightarrow> ''UNKNOWN SIGNAL'')
      @ '' (Signal '' @ print_num (scast sig) @ '')'' @ nl
      @ ''  Fault Address: '' @ print_hex fault_addr
      @ (if fault_addr = 0 then '' (NULL Pointer Dereference)'' @ nl else nl)
      @ (case uctx of
           None \<Rightarrow> []
         | Some gregs \<Rightarrow>
             nl @ ''  CPU Architecture: x86_64 Register State'' @ nl
             @ reg_line ''RIP'' (gregs ! 16) nl @ reg_line ''RSP'' (gregs ! 15) nl @ reg_line ''RBP'' (gregs ! 10) nl
             @ reg_line ''RAX'' (gregs ! 13) ''  '' @ reg_line ''RBX'' (gregs ! 11) nl
             @ reg_line ''RCX'' (gregs ! 14) ''  '' @ reg_line ''RDX'' (gregs ! 12) nl
             @ reg_line ''RDI'' (gregs ! 8) ''  '' @ reg_line ''RSI'' (gregs ! 9) nl)
      @ rule_line @ ''  Execution Halted Safely to Prevent Data Corruption'' @ nl @ rule_line @ nl)"

definition signal_name :: "i32 \<Rightarrow> string" where
  "signal_name sig =
     (if sig = 8 then ''SIGFPE (Floating-Point Exception / Divide-by-Zero)''
      else if sig = 4 then ''SIGILL (Illegal Instruction)''
      else if sig = 7 then ''SIGBUS (Bus Error / Unaligned Access)''
      else ''SIGSEGV (Segmentation Fault)'')"

text \<open>What the handler prints, and the status of the process.\<close>

definition posix_signal_handler :: "i32 \<Rightarrow> u64 option \<Rightarrow> u64 list option \<Rightarrow> string \<times> i32" where
  "posix_signal_handler sig info ucontext =
     (print_crash_report sig (Some (signal_name sig)) (case info of Some a \<Rightarrow> a | None \<Rightarrow> 0) ucontext, 128 + sig)"

text \<open>
  Installing covers the four fault signals and nothing else, a second installation changes nothing, and removal
  puts the default action back. The restorer flag the kernel requires on x86-64 is not set.
\<close>

lemma trap_init_signals:
  "snd (trap_init h (snd (trap_init h s))) = snd (trap_init h s)"
  "\<not> trap_installed s \<Longrightarrow> sig_actions (snd (trap_init h s)) n =
     (if n \<in> {4, 7, 8, 11} then Some \<lparr>sa_sigaction = h, sa_flags = 0x40000004, sa_restorer = 0, sa_mask = 0\<rparr> else sig_actions s n)"
  "trap_installed s \<Longrightarrow> n \<in> {4, 7, 8, 11} \<Longrightarrow> map_option sa_sigaction (sig_actions (trap_remove s) n) = Some 0"
  "\<not> trap_installed s \<Longrightarrow> sig_actions (snd (trap_init h s)) n = Some a \<Longrightarrow> n \<in> {4, 7, 8, 11} \<Longrightarrow> sa_flags a AND 0x04000000 = 0"
  by (auto simp: trap_init_def trap_remove_def rt_sigaction_def Let_def)

section \<open>Signal of the thread-local buffer\<close>

text \<open>
  \<open>init_tlab_subsystem\<close> of \<open>src/src/sys/tlab_provider.cpp\<close> puts its handler on the signal the trap handler also
  serves. Its system call names the size of the signal set without the register the kernel reads it from, so
  \<open>r10\<close> is whatever the compiler left there and the kernel refuses every size but 8.
\<close>

record TlabSystem =
  tlab_initialized :: bool
  thread_tlab :: TLAB
  tlab_signals :: TrapState

definition sigsegv_tlab_handler :: "TLAB \<Rightarrow> TLAB" where
  "sigsegv_tlab_handler t = tlab_refill (get_thread_tlab t)"

definition init_tlab_subsystem :: "u64 \<Rightarrow> u64 \<Rightarrow> TlabSystem \<Rightarrow> TlabSystem" where
  "init_tlab_subsystem r10 handler s =
     (if tlab_initialized s then s
      else
        (let sa = \<lparr>sa_sigaction = handler, sa_flags = 0x00000004 OR 0x40000000, sa_restorer = 0, sa_mask = 0\<rparr> in
         s\<lparr>tlab_initialized := True,
           tlab_signals := (if r10 = 8 then rt_sigaction 11 sa (tlab_signals s) else tlab_signals s),
           thread_tlab := get_thread_tlab (thread_tlab s)\<rparr>))"

text \<open>
  The handler leaves a well-formed buffer with a whole fresh slab; installing it after the trap handler takes the
  segmentation faults away from the crash report, and the trap handler still counts as installed, so installing it
  again does not bring them back.
\<close>

lemma sigsegv_tlab_handler_fresh:
  assumes "tlab_ok t" "slab_start t \<noteq> 0" "\<not> mmap_failed (os_mmap (tl_os t) (os_live (tl_os t)) 69632)"
  shows "tlab_ok (sigsegv_tlab_handler t) \<and> tl_top (sigsegv_tlab_handler t) = slab_start (sigsegv_tlab_handler t)
    \<and> tl_mem (sigsegv_tlab_handler t) = tl_mem t"
  using tlab_refill_ok [OF assms(1,3)] assms(2) by (simp add: sigsegv_tlab_handler_def get_thread_tlab_def)

lemma init_tlab_takes_sigsegv:
  fixes g h :: u64
  assumes "\<not> tlab_initialized s" "\<not> trap_installed (tlab_signals s)"
  defines "s' \<equiv> init_tlab_subsystem 8 h (s\<lparr>tlab_signals := snd (trap_init g (tlab_signals s))\<rparr>)"
  shows "map_option sa_sigaction (sig_actions (snd (trap_init g (tlab_signals s'))) 11) = Some h"
    "map_option sa_sigaction (sig_actions (tlab_signals s') 8) = Some g"
  using assms(1,2) by (simp_all add: s'_def init_tlab_subsystem_def trap_init_def rt_sigaction_def Let_def)

section \<open>Memory of the backends\<close>

definition alloc_rw :: "(Syscall \<Rightarrow> i64) \<Rightarrow> u64 \<Rightarrow> u64" where
  "alloc_rw kern sz =
     (let p = sys_mmap X86_64 kern 0 sz (ANA_PROT_READ OR ANA_PROT_WRITE) 0x22 (- 1) 0 in if p = - 1 then 0 else p)"

definition make_rx :: "(Syscall \<Rightarrow> i64) \<Rightarrow> u64 \<Rightarrow> u64 \<Rightarrow> bool" where
  "make_rx kern p sz \<longleftrightarrow> sys_mprotect X86_64 kern p sz (ANA_PROT_READ OR ANA_PROT_EXEC) = 0"

definition make_rw :: "(Syscall \<Rightarrow> i64) \<Rightarrow> u64 \<Rightarrow> u64 \<Rightarrow> bool" where
  "make_rw kern p sz \<longleftrightarrow> sys_mprotect X86_64 kern p sz (ANA_PROT_READ OR ANA_PROT_WRITE) = 0"

text \<open>The system call, if one is made.\<close>

definition vmem_free :: "(Syscall \<Rightarrow> i64) \<Rightarrow> u64 \<Rightarrow> u64 \<Rightarrow> i32 option" where
  "vmem_free kern p sz = (if p \<noteq> 0 then Some (sys_munmap X86_64 kern p sz) else None)"

text \<open>The provider gives null exactly on an error of the kernel, and never the error code as a pointer.\<close>

lemma alloc_rw_null:
  "alloc_rw kern sz = 0 \<or> \<not> error_code (alloc_rw kern sz)"
  by (auto simp: alloc_rw_def sys_mmap_def Let_def error_code_def perform_def)

end
