(* ===== verification/Command_Line.thy ===== *)
theory Command_Line
  imports Process Elf_Lowerer Xtensa
begin

text \<open>
  The command line (\<open>src/src/main.cpp\<close>), the entry of the process (\<open>_start_c\<close> of \<open>src/src/sys/sys_entry.cpp\<close>) and the
  adapter of the x86-64 target (\<open>src/src/backend/x86_64_backend.cpp\<close>). A run ends with a status, the text printed and the file
  written. \<open>None\<close> stands for a run that does not return, or that writes outside its buffer. What the system answers
  is collected in a record: the files that can be opened for reading, whether memory is granted, whether the output
  can be opened, the lines typed, and the results of the built-in tests and examples, which are not modelled.
\<close>

record World =
  w_files :: "string \<Rightarrow> InFile option"
  w_alloc :: "nat \<Rightarrow> bool"
  w_mm :: "nat \<Rightarrow> nat \<Rightarrow> bool"
  w_grants :: "nat \<Rightarrow> bool"
  w_opens :: "string \<Rightarrow> bool"
  w_env :: LowerEnv
  w_code_mm :: "nat \<Rightarrow> nat \<Rightarrow> nat \<Rightarrow> bool"
  w_lines :: "string list"
  w_tests :: bool
  w_examples :: bool

record Outcome =
  status :: int
  printed :: string
  written :: "(string \<times> bytes) option"

section \<open>The x86-64 target\<close>

definition x86_compile_function :: "LowerEnv \<Rightarrow> (nat \<Rightarrow> nat \<Rightarrow> bool) \<Rightarrow> bool \<Rightarrow> Function \<Rightarrow> (nat \<times> bytes) option" where
  "x86_compile_function env mm mprotect_ok fn = compile_function env mm mprotect_ok fn"

definition x86_compile_to_elf :: "(nat \<Rightarrow> bool) \<Rightarrow> bool \<Rightarrow> LowerEnv \<Rightarrow> (nat \<Rightarrow> nat \<Rightarrow> nat \<Rightarrow> bool) \<Rightarrow> Program \<Rightarrow> string option \<Rightarrow> bytes option" where
  "x86_compile_to_elf grants opens env mm prog out_filename = compile_to_elf grants opens env mm prog out_filename"

section \<open>Reading the source\<close>

fun streq_check :: "string \<Rightarrow> string \<Rightarrow> bool" where
  "streq_check (a # as) (b # bs) = (if a \<noteq> b then False else streq_check as bs)"
| "streq_check [] [] = True"
| "streq_check _ _ = False"

datatype read_failure = OutOfMemory | ReadError

text \<open>The loop that reads to the end of the file into a buffer of \<open>cap\<close> bytes that is doubled when full.\<close>

partial_function (option) read_source :: "(nat \<Rightarrow> bool) \<Rightarrow> nat \<Rightarrow> bytes \<Rightarrow> InFile \<Rightarrow> (read_failure + bytes) option" where
  [code]: "read_source alloc cap acc f =
     (let cap1 = (if length acc + 1 \<ge> cap then cap * 2 else cap) in
      if length acc + 1 \<ge> cap \<and> \<not> alloc cap1 then Some (Inl OutOfMemory)
      else
        (case raw_read (cap1 - 1 - length acc) f of
           None \<Rightarrow> None
         | Some (n, bs, f1) \<Rightarrow>
             if n < 0 then Some (Inl ReadError)
             else if n = 0 then Some (Inr acc)
             else read_source alloc cap1 (acc @ bs) f1))"

text \<open>A buffer as the string that ends at its first zero byte.\<close>

definition source_string :: "bytes \<Rightarrow> string" where
  "source_string bs = takeWhile (\<lambda>c. c \<noteq> CHR 0x00) (map (\<lambda>b. char_of (unat b)) bs)"

definition parse_source :: "World \<Rightarrow> bytes \<Rightarrow> Program option \<times> Parser" where
  "parse_source w bs = parse_program (new_parser (new_lexer (w_mm w) (source_string bs)))"

section \<open>The commands\<close>

definition nl :: string where "nl = [CHR 0x0A]"
definition quote :: string where "quote = [CHR 0x27]"

definition finish :: "int \<Rightarrow> string \<Rightarrow> Outcome option" where
  "finish st msg = Some \<lparr>status = st, printed = msg, written = None\<rparr>"

definition debug_command :: "World \<Rightarrow> string \<Rightarrow> Outcome option" where
  "debug_command w path =
     (let failure = finish 1 (''[AnaDebugger ERROR] Failed to load program from file: '' @ path @ nl) in
      case w_files w path of
        None \<Rightarrow> failure
      | Some f \<Rightarrow>
          (case raw_read 65535 f of
             None \<Rightarrow> None
           | Some (n, bs, _) \<Rightarrow>
               if n \<le> 0 then failure
               else
                 (case load_program_from_file (w_mm w) (Some (map (\<lambda>b. char_of (unat b)) bs)) new_debugger of
                    (ok, d) \<Rightarrow>
                      if \<not> ok then failure
                      else (case run_interactive_repl (w_lines w) d of None \<Rightarrow> None | Some d1 \<Rightarrow> finish 0 (dbg_out d1)))))"

text \<open>The buffer of this command is fixed and its end is set at the result of the read, even if that is negative.\<close>

definition debug_parse_command :: "World \<Rightarrow> string option \<Rightarrow> Outcome option" where
  "debug_parse_command w path =
     (case Option.bind path (w_files w) of
        None \<Rightarrow> None
      | Some f \<Rightarrow>
          (case raw_read 8095 f of
             None \<Rightarrow> None
           | Some (n, bs, _) \<Rightarrow>
               if n < 0 then None
               else
                 (case parse_source w bs of
                    (prog, p) \<Rightarrow>
                      (case prog of
                         Some pr \<Rightarrow> if prog_functions pr \<noteq> [] then finish 0 (''PARSE SUCCESS'' @ nl)
                                     else finish 0 (''PARSE FAILURE: '' @ error_message p @ nl)
                       | None \<Rightarrow> finish 0 (''PARSE FAILURE: '' @ error_message p @ nl)))))"

text \<open>Lowering with the backend that the option chooses; what is printed on success and on failure.\<close>

definition emit_object :: "World \<Rightarrow> string option \<Rightarrow> Program \<Rightarrow> string \<Rightarrow> bytes option \<times> string \<times> string" where
  "emit_object w opt prog out_obj =
     (let object = ''[AOT Compiler SUCCESS] Emitted relocatable ELF object file: '' @ out_obj @ nl;
          no_object = ''[AOT Compiler ERROR] Failed to generate ELF object file'' @ nl in
      if opt \<noteq> None \<and> streq_check (the opt) ''--esp32s3-bin'' then
        (compile_to_esp32_bin (w_grants w) (w_opens w out_obj) prog (Some out_obj),
         ''[AOT Compiler SUCCESS] Emitted native ESP32-S3 flash binary: '' @ out_obj @ nl,
         ''[AOT Compiler ERROR] Failed to generate ESP32-S3 binary'' @ nl)
      else if opt \<noteq> None \<and> (streq_check (the opt) ''--xtensa'' \<or> streq_check (the opt) ''--esp32s3'') then
        (xt_compile_to_elf (w_grants w) (w_opens w out_obj) prog (Some out_obj), object, no_object)
      else
        (compile_to_elf (w_grants w) (w_opens w out_obj) (w_env w) (w_code_mm w) prog (Some out_obj), object, no_object))"

definition compile_source :: "World \<Rightarrow> string option \<Rightarrow> bytes \<Rightarrow> string \<Rightarrow> string \<Rightarrow> Outcome option" where
  "compile_source w opt code out_obj hello =
     (case parse_source w code of
        (prog, p) \<Rightarrow>
          (let failure = finish 1 (hello @ ''[AOT Compiler ERROR] Failed to parse AST from input source: '' @ error_message p @ nl) in
           case prog of
             None \<Rightarrow> failure
           | Some pr \<Rightarrow>
               if prog_functions pr = [] then failure
               else
                 (case emit_object w opt pr out_obj of
                    (Some img, yes, _) \<Rightarrow> Some \<lparr>status = 0, printed = hello @ yes, written = Some (out_obj, img)\<rparr>
                  | (None, _, no) \<Rightarrow> finish 1 (hello @ no))))"

definition aot_command :: "World \<Rightarrow> string \<Rightarrow> string \<Rightarrow> string option \<Rightarrow> Outcome option" where
  "aot_command w in_filepath out_obj opt =
     (let hello = ''[AOT Compiler] Compiling Anastasia Assembly source '' @ quote @ in_filepath @ quote @ '' -> '' @ quote @ out_obj @ quote @ nl in
      case w_files w in_filepath of
        None \<Rightarrow> finish 1 (hello @ ''[AOT Compiler ERROR] Cannot open input source file: '' @ in_filepath @ nl)
      | Some f \<Rightarrow>
          if \<not> w_alloc w 65536 then finish 1 (hello @ ''[AOT Compiler ERROR] Out of memory reading source'' @ nl)
          else
            (case read_source (w_alloc w) 65536 [] f of
               None \<Rightarrow> None
             | Some (Inl OutOfMemory) \<Rightarrow> finish 1 (hello @ ''[AOT Compiler ERROR] Out of memory reading source'' @ nl)
             | Some (Inl ReadError) \<Rightarrow> finish 1 (hello @ ''[AOT Compiler ERROR] Read error on input source file'' @ nl)
             | Some (Inr code) \<Rightarrow>
                 if code = [] then finish 1 (hello @ ''[AOT Compiler ERROR] Empty or unreadable source file'' @ nl)
                 else compile_source w opt code out_obj hello))"

definition arg_at :: "string list \<Rightarrow> nat \<Rightarrow> string option" where
  "arg_at argv i = (if i < length argv then Some (argv ! i) else None)"

definition ana_main :: "World \<Rightarrow> string list \<Rightarrow> Outcome option" where
  "ana_main w argv =
     (let argc = length argv in
      if argc \<ge> 3 \<and> streq_check (argv ! 1) ''--debug'' then debug_command w (argv ! 2)
      else if argc \<ge> 2 \<and> streq_check (argv ! 1) ''--aot'' \<and> argc < 4 then
        finish 2 (''[AOT Compiler ERROR] Usage: anastasia_engine --aot <input.ana> <output.o>'' @ nl)
      else if argc > 1 \<and> streq_check (argv ! 1) ''--debug-parse'' then debug_parse_command w (arg_at argv 2)
      else if argc \<ge> 4 \<and> streq_check (argv ! 1) ''--aot'' then aot_command w (argv ! 2) (argv ! 3) (arg_at argv 4)
      else finish (if w_tests w \<and> w_examples w then 0 else 1) [])"

text \<open>The process: the features found, and what the main function returns is the status of the process.\<close>

definition start_c :: "(u32 \<Rightarrow> u32 \<Rightarrow> CpuidRegs) \<Rightarrow> u64 \<Rightarrow> World \<Rightarrow> string list \<Rightarrow> ((CpuFeatures \<times> memory_impl) \<times> Outcome) option" where
  "start_c cpuid xcr0 w argv = map_option (Pair (detect_cpu_features cpuid xcr0)) (ana_main w argv)"

section \<open>Compiling a file\<close>

lemma streq_check_eq [simp]: "streq_check s t \<longleftrightarrow> s = t"
  by (induction s t rule: streq_check.induct) auto

text \<open>However the kernel cuts the file into pieces, the loop collects all of it.\<close>

lemma read_source_all:
  assumes "readable f" "\<And>n. alloc n" "length acc < cap"
  shows "read_source alloc cap acc f = Some (Inr (acc @ in_rest f))"
  using assms(1,3)
proof (induction "length (in_rest f)" arbitrary: f cap acc rule: less_induct)
  case less
  define cap1 where "cap1 = (if length acc + 1 \<ge> cap then cap * 2 else cap)"
  have pos: "0 < cap1 - 1 - length acc"
    using less.prems(2) by (auto simp: cap1_def)
  obtain k f' where k: "raw_read (cap1 - 1 - length acc) f = Some (int k, take k (in_rest f), f')" "k \<le> cap1 - 1 - length acc"
      "k \<le> length (in_rest f)" "k = 0 \<longrightarrow> in_rest f = []" "readable f'" "in_rest f' = drop k (in_rest f)"
    using raw_read_returns [OF less.prems(1), of "cap1 - 1 - length acc"] pos unfolding read_result_def by auto
  have loop: "read_source alloc cap acc f = (if k = 0 then Some (Inr acc) else read_source alloc cap1 (acc @ take k (in_rest f)) f')"
    unfolding read_source.simps [of alloc cap acc f] Let_def cap1_def [symmetric] using k(1) assms(2) by simp
  show ?case
  proof (cases "k = 0")
    case True
    then show ?thesis
      using loop k(4) by simp
  next
    case False
    have "read_source alloc cap1 (acc @ take k (in_rest f)) f' = Some (Inr ((acc @ take k (in_rest f)) @ in_rest f'))"
      using False k(2,3,5,6) pos by (intro less.hyps) auto
    then show ?thesis
      using loop False k(6) by simp
  qed
qed

text \<open>
  Claim C39. Compiling a file compiles all of it: for a non-empty file that can be read, whatever pieces the kernel delivers
  it in, and with memory available, \<open>--aot\<close> returns. The status is 0 exactly when the whole text parses to a program with functions
  and the chosen backend lowers it, and then the output file holds what the backend made of that
  program; otherwise the status is 1 and nothing is written.
\<close>

theorem aot_compiles_whole_file:
  assumes "w_files w inp = Some f" "readable f" "\<forall>n. w_alloc w n" "in_rest f \<noteq> []"
  shows "\<exists>r. ana_main w (a0 # ''--aot'' # inp # out # opts) = Some r
    \<and> (case fst (parse_source w (in_rest f)) of
         None \<Rightarrow> status r = 1 \<and> written r = None
       | Some pr \<Rightarrow>
           if prog_functions pr = [] then status r = 1 \<and> written r = None
           else (case fst (emit_object w (arg_at opts 0) pr out) of
                   Some img \<Rightarrow> status r = 0 \<and> written r = Some (out, img)
                 | None \<Rightarrow> status r = 1 \<and> written r = None))"
proof -
  let ?argv = "a0 # ''--aot'' # inp # out # opts"
  have "arg_at ?argv 4 = arg_at opts 0"
    by (simp add: arg_at_def)
  then have "ana_main w ?argv = aot_command w inp out (arg_at opts 0)"
    by (simp add: ana_main_def Let_def)
  also have "\<exists>hello. \<dots> = compile_source w (arg_at opts 0) (in_rest f) out hello"
    using assms read_source_all [OF assms(2), of "w_alloc w" "[]" 65536] by (auto simp: aot_command_def Let_def)
  finally obtain hello where "ana_main w ?argv = compile_source w (arg_at opts 0) (in_rest f) out hello"
    by blast
  then show ?thesis
    by (auto simp: compile_source_def finish_def Let_def split: prod.splits option.splits)
qed

definition slow_file :: "string \<Rightarrow> InFile" where
  "slow_file s = \<lparr>in_read = (\<lambda>c n l. if even c then EINTR else int (min 1 (min n l))), in_calls = 0, in_rest = map of_char s\<rparr>"

lemma slow_file_readable: "readable (slow_file s)"
proof -
  have "\<exists>c'\<ge>c. \<forall>n l. in_read (slow_file s) c' n l \<noteq> EINTR" for c
    by (rule exI [of _ "2 * c + 1"]) (simp add: slow_file_def EINTR_def)
  moreover have "in_read (slow_file s) c n l = EINTR \<or> 0 \<le> in_read (slow_file s) c n l \<and> in_read (slow_file s) c n l \<le> int (min n l)
      \<and> (in_read (slow_file s) c n l = 0 \<longrightarrow> n = 0 \<or> l = 0)" for c n l
    by (auto simp: slow_file_def)
  ultimately show ?thesis
    unfolding readable_def by blast
qed

definition sample_world :: "LowerEnv \<Rightarrow> World" where
  "sample_world env = \<lparr>w_files = (\<lambda>p. if p = ''a.ana'' then Some (slow_file sample_source) else None), w_alloc = (\<lambda>_. True),
     w_mm = (\<lambda>_ _. True), w_grants = (\<lambda>_. True), w_opens = (\<lambda>_. True), w_env = env, w_code_mm = (\<lambda>_ _ _. True),
     w_lines = [], w_tests = True, w_examples = True\<rparr>"

lemma sample_source_string: "source_string (in_rest (slow_file sample_source)) = sample_source" "in_rest (slow_file sample_source) \<noteq> []"
  by code_simp (simp add: slow_file_def sample_source_def)

theorem aot_compiles_whole_file_witness:
  "\<exists>r. ana_main (sample_world empty_env) [''ana'', ''--aot'', ''a.ana'', ''a.o''] = Some r
     \<and> (case compile_to_elf (\<lambda>_. True) True empty_env (\<lambda>_ _ _. True) \<lparr>prog_classes = [], prog_functions = [Parser.sample_fn]\<rparr> (Some ''a.o'') of
          Some img \<Rightarrow> status r = 0 \<and> written r = Some (''a.o'', img) | None \<Rightarrow> status r = 1)"
proof -
  have "fst (parse_program (new_parser (new_lexer (\<lambda>_ _. True) sample_source))) = Some \<lparr>prog_classes = [], prog_functions = [Parser.sample_fn]\<rparr>"
    by code_simp
  then have p: "fst (parse_source (sample_world empty_env) (in_rest (slow_file sample_source))) = Some \<lparr>prog_classes = [], prog_functions = [Parser.sample_fn]\<rparr>"
    by (simp add: parse_source_def sample_source_string(1) sample_world_def)
  show ?thesis
    using aot_compiles_whole_file [of "sample_world empty_env" "''a.ana''" "slow_file sample_source" "''ana''" "''a.o''" "[]"]
      slow_file_readable sample_source_string(2) p
    by (auto simp: sample_world_def arg_at_def emit_object_def Let_def split: option.splits)
qed

end
