(* ===== verification/Spec2Isabelle.thy ===== *)
theory Spec2Isabelle
  imports Source_To_Machine Ssa Services Queues Rv64_Function A64_Function Armv7 Elf_Lowerer Xtensa Dwarf Pe Command_Line
begin

text \<open>
  A verification development of the Anastasia compiler (\<open>src/src\<close>), a freestanding C++
  program that compiles a textual assembly language to machine code in memory.

  \<^bold>\<open>The program.\<close> A source text is cut into tokens by the lexer
  (\<open>frontend/ana_lexer.cpp\<close>) and parsed into an intermediate representation of classes
  and functions (\<open>frontend/ana_parser.cpp\<close>, types in \<open>frontend/ana_ast.h\<close>); while it
  parses, constants are folded, unreachable instructions are cut off and class layouts are
  computed. A function is then given a stack frame by the register allocator
  (\<open>backend/ana_regalloc.cpp\<close>), lowered instruction by instruction to x86-64 bytes
  (\<open>backend/ana_lowerer.cpp\<close> calling \<open>backend/ana_encoder.cpp\<close>), its labels are
  resolved and the bytes are copied into an executable mapping. At run time the code uses the
  object heap (\<open>sys/object_heap.cpp\<close>), thread-local buffers
  (\<open>sys/tlab_provider.cpp\<close>) and the pool of string literals
  (\<open>backend/jit_string_pool.cpp\<close>); the front end allocates its nodes in an arena
  (\<open>frontend/arena_allocator.h\<close>). Around the compiler stand the SSA passes
  (\<open>optimizer/ana_ssa.cpp\<close>), the call-site caches and host bindings of the backend, the
  services of the run-time system (collector, on-stack replacement, profiler, system call
  coalescer, unwinder, I/O ring), the debugger interface (\<open>backend/gdb_jit.cpp\<close>) and
  the writer of object files (\<open>backend/elf_emitter.cpp\<close>).

  \<^bold>\<open>The theories.\<close>
  \<^item> \<^theory_text>\<open>Prelude\<close>: type names, generic lemmas on lists, words and options, the
    little-endian byte conversions and the collections of simplification rules.
  \<^item> \<^theory_text>\<open>Ast\<close>: the data types of \<open>ana_ast.h\<close>. Linked lists are lists, the
    operand union is a datatype with the accessors the code reads it through.
  \<^item> \<^theory_text>\<open>Lexer\<close>: \<open>ana_lexer.cpp\<close>, method by method; the literal pool is part of
    the state. Shown: every token but end-of-file consumes input, the mnemonic hash has no
    collision, and integers, registers and strings are read back as they are printed.
  \<^item> \<^theory_text>\<open>Ast_Opt\<close>: the passes of \<open>ana_parser.cpp\<close>. Shown: folding computes the
    reference value, dead code elimination keeps the meaning of a block, and class layouts
    have aligned disjoint fields.
  \<^item> \<^theory_text>\<open>Parser\<close>: the parsing methods. Shown: termination at end-of-file on every
    input, well-formedness of every program returned, the first error is the one reported and
    text with an error token is never accepted.
  \<^item> \<^theory_text>\<open>Encoder\<close>: the code buffer, labels and every emitter of
    \<open>ana_encoder.cpp\<close>. The locale of emitters states what a relation on buffers must
    satisfy to be kept by all of them; it is interpreted for the error latch, buffer growth,
    room in the buffer and the label tables. Shown: resolved displacements reach the bound
    positions and nothing else in the buffer changes.
  \<^item> \<^theory_text>\<open>X86\<close>: a decoder and an executable semantics of the instructions the compiler
    uses, written from the architecture manual, not from the program.
  \<^item> \<^theory_text>\<open>Asm\<close>: the bytes of each emitter decode to the instruction it is named
    after, for every register, displacement and immediate.
  \<^item> \<^theory_text>\<open>Regalloc\<close>: frame layout. Shown: alignment, slots inside the frame and
    disjoint, a location of its own for every register operand.
  \<^item> \<^theory_text>\<open>Lowerer\<close>: \<open>compile_function\<close> with every case of the instruction switch.
    Shown: the image fits its mapping and was written inside the buffer, and each branch to a
    block lands where the code of the block starts.
  \<^item> \<^theory_text>\<open>Alloc\<close>: object heap, arena, string pool and thread-local buffer over an
    explicit byte memory and an oracle for \<open>raw_mmap\<close>. The locale of allocators is
    interpreted for heap, arena and pool: blocks are disjoint from everything handed out
    before, contents are stable, interned strings are shared.

  \<^item> \<^theory_text>\<open>Lower_Correct\<close>: a reference semantics of the intermediate language, and that
    the bytes the lowerer emits for straight-line code, decoded and run by the machine of
    \<^theory_text>\<open>X86\<close>, compute what the reference computes.
  \<^item> \<^theory_text>\<open>Ssa\<close>: the seven passes of \<open>ana_ssa.cpp\<close>. Shown: optimised and compiled
    blocks in single-assignment form compute what the source blocks compute; reassignment
    is shown to mislead value numbering.
  \<^item> \<^theory_text>\<open>Tables\<close>: the locale of tables with a bound, which the fixed-size arrays of the
    run-time system interpret.
  \<^item> \<^theory_text>\<open>Dispatch\<close>: inline caches (\<open>inline_cache.cpp\<close>, \<open>pic_dispatcher.cpp\<close>) and
    host bindings. Pages have a protection and a store to a page that is not writable is a fault. Shown: registered code is recognised, when
    a miss faults and that it patches and dispatches otherwise, a polymorphic site records its receivers, trampolines reach the bound function.
  \<^item> \<^theory_text>\<open>Services\<close>: collector, on-stack replacement, profiler, coalescer and unwinder.
    Shown: a throw reaches the innermost registered handler for its type, which slots the remembered set holds, what
    block reordering moves.
  \<^item> \<^theory_text>\<open>Queues\<close>: the I/O ring and the list of code entries of the debugger interface,
    as refinements of a queue and of a list, through the locales of queues and simulations.
  \<^item> \<^theory_text>\<open>Elf\<close>: object files. Shown: each section is read back from the written file
    through its header, under its name; images in memory have their reported size.
  \<^item> \<^theory_text>\<open>Ir_Flow\<close>: the reference semantics of whole functions, a step relation between
    blocks. \<^theory_text>\<open>Slots\<close>: frame slots in byte memory.
  \<^item> \<^theory_text>\<open>X86_Machine\<close>: the x86-64 machine running bytes from memory, and where emitted code and
    resolved branches are found in an image. \<^theory_text>\<open>X86_Function\<close>: the compiled functions of
    \<open>ana_lowerer.cpp\<close> run on it, from the prologue to the return. Shown: they return what the reference
    semantics computes, with the caller's registers and memory kept; an elided jump runs the code behind it.
    \<^theory_text>\<open>Source_To_Machine\<close>: the same from the source text, through the parser.
  \<^item> \<^theory_text>\<open>Two_Pass\<close>: what the backends for other targets share, the label table and the
    two passes over a function. Its first locale shows that both passes place the blocks alike,
    its second, from laws on the code of single instructions, that a compiled function
    returns what the reference returns.
  \<^item> \<^theory_text>\<open>Rv64\<close>, \<^theory_text>\<open>Rv64_Correct\<close>, \<^theory_text>\<open>Rv64_Function\<close>: the RISC-V
    backend (\<open>rv64_backend.cpp\<close>), a decoder and machine for the instructions it uses, and
    the interpretation of the locales: compiled functions are correct from call to return.
    \<^theory_text>\<open>Bit_Fields\<close>: fields of instruction words. \<^theory_text>\<open>Sum_Function\<close>: the
    function of the examples.
  \<^item> \<^theory_text>\<open>Spill_Machine\<close>: locales for machines with fixed-width instructions and for code
    that spills every register to the frame; from laws on loads, stores and single operations,
    the code of an instruction assigns what the reference says and keeps the caller's state.
  \<^item> \<^theory_text>\<open>A64\<close>, \<^theory_text>\<open>A64_Correct\<close>, \<^theory_text>\<open>A64_Function\<close>: the AArch64 backend
    (\<open>aarch64_backend.cpp\<close>), decoder and machine, and the interpretations of these locales and
    of those of \<^theory_text>\<open>Two_Pass\<close>, with the same result, for any 64-bit constants.
  \<^item> \<^theory_text>\<open>Armv7\<close>: the ARMv7 backend (\<open>armv7_backend.cpp\<close>) and a decoder of its
    words, with a machine for comparisons. Shown: branches lead to the code of their block under their condition; shifts encode another operand.
  \<^item> \<^theory_text>\<open>Elf_Lowerer\<close>: \<open>compile_to_elf\<close> of \<open>ana_lowerer.cpp\<close>, the second
    lowering, for object files, over \<^theory_text>\<open>Lowerer\<close> and \<^theory_text>\<open>Elf\<close>. Shown: straight-line
    code computes the reference; a subtraction into its right operand, which is excluded there, loses it.
  \<^item> \<^theory_text>\<open>Xtensa\<close>: the Xtensa backend (\<open>xtensa_lx7_backend.cpp\<close>), a decoder of its words
    and a loader of flash images. Shown: jumps of flash images reach their blocks; the boot loader finds
    the code in the image; the register instructions decode to others.
  \<^item> \<^theory_text>\<open>Dwarf\<close>: debug information (\<open>dwarf_emitter.cpp\<close>). Shown: numbers of variable
    length and the table of lines are read back.
  \<^item> \<^theory_text>\<open>Pe\<close>: Windows executables (\<open>pe_emitter.cpp\<close>). Shown: code and data are read
    back through the headers.
  \<^item> \<^theory_text>\<open>Debugger\<close>: the interactive debugger (\<open>ana_debugger.cpp\<close>), its
    printing, breakpoints, stepping and command loop. Shown: stepping computes the reference semantics of
    register instructions; \<open>continue\<close> stops at the first breakpoint; constants and branches are lost.
  \<^item> \<^theory_text>\<open>Sys_Raw\<close>, \<^theory_text>\<open>Sys_Io\<close>: the system layer (\<open>sys_raw.cpp\<close>), memory routines and
    the block allocator, the arguments of system calls, reading, writing and buffered output. Shown: \<open>memmove\<close> is correct
    for every overlap, \<open>realloc\<close> keeps contents, a write returns with the length of the prefix written,
    buffered output is the stream of all writes.
  \<^item> \<^theory_text>\<open>Cpu_Features\<close>: feature detection and the wide memory routines
    (\<open>cpu_features.cpp\<close>). Shown: the wide routines equal the scalar ones.
  \<^item> \<^theory_text>\<open>Process\<close>: run-time support (\<open>sys_entry.cpp\<close>), the trap handler
    (\<open>ana_trap_handler.cpp\<close>), the signal handler of the thread-local buffers (\<open>tlab_provider.cpp\<close>) and the memory provider (\<open>vmem_provider.h\<close>). Guards of local statics are a step relation of
    any number of threads. Shown: one thread initialises, once, and an aborted initialiser blocks all others.
  \<^item> \<^theory_text>\<open>Command_Line\<close>: \<open>main.cpp\<close>, from the arguments through reading, parsing and lowering to the file
    written. Shown: a file is compiled whole, with the status that says so.

  \<^bold>\<open>Correspondence.\<close> A C++ struct is a record with its fields, an enumeration a datatype;
  methods are functions from the state of the object to its new state, together with the
  result. Integers keep their width as words. A null pointer result is \<open>0\<close> or
  \<open>None\<close>. Calls to the kernel are fields of the state: \<open>raw_mmap\<close> answers from an
  arbitrary function, and theorems that need more assume of it what the system call documents
  (page alignment, fresh non-wrapping regions). Addresses the compiler embeds in code, such as
  those of run-time helpers, are parameters.

  \<^bold>\<open>Loops.\<close> Loops are structural recursion or functions with a termination measure. The
  lexer and the parser consume input at every step, which is the measure of their loops;
  fuel is used in the machine semantics and the line number machine only, where theorems state that enough of it exists.

  \<^bold>\<open>Not modelled.\<close>
  The branches for Windows and other systems, which call their libraries; start-up assembly; the built-in tests and
  examples, whose results are parameters of the command line. The writers of object and executable files ignore the results of their
  writes; the model has the file they write when every write is complete and the file was empty (\<open>pe_emitter.cpp\<close> does not truncate it).
  Memory is sequentially consistent: the plain store that releases a guard has no weaker order. The literal pool of the lexer, process-wide
  storage in the code, is part of a lexer's state, which starting a lexer clears as the code does.
\<close>

end
